(* ===== verification/Edge_Prelude.thy ===== *)
theory Edge_Prelude
  imports
    Main
    "HOL-Library.Word"
    "HOL-Library.AList"
    "HOL-Library.Char_ord"
    "HOL-Library.List_Lexorder"
    "HOL-Library.Product_Lexorder"
    "HOL-Library.Option_ord"
begin

text \<open>
  Prelude of the development: what the Rust sources take from the language and its standard
  library, in the form the component theories use it.

  \<^item> machine integers (\<open>u8\<close> \<dots> \<open>u64\<close>) are words; \<open>Instant\<close> and \<open>Duration\<close> are numbers of
    nanoseconds. A function that reads the clock takes the reading as its argument \<open>now\<close>;
    \<open>Instant::elapsed\<close> saturates at zero in Rust, as subtraction of naturals does;
  \<^item> \<open>HashMap\<close> is an association list with distinct keys. The order of the list stands for the
    iteration order of the map, which Rust leaves unspecified: the lemmas hold for every order;
  \<^item> \<open>serde_json::Value\<close> is the datatype \<open>json\<close>;
  \<^item> \<open>format!\<close> on integers is \<open>dec\<close>, and \<open>str::split_once\<close>, \<open>str::parse\<close> on unsigned
    integers are the functions of the same names below.
\<close>

section \<open>Machine integers and time\<close>

type_synonym u8 = "8 word"
type_synonym u16 = "16 word"
type_synonym u32 = "32 word"
type_synonym u64 = "64 word"
type_synonym instant = nat
type_synonym duration = nat

abbreviation secs :: "nat \<Rightarrow> duration" where
  "secs n \<equiv> n * 1000000000"

abbreviation millis :: "nat \<Rightarrow> duration" where
  "millis n \<equiv> n * 1000000"

definition elapsed :: "instant \<Rightarrow> instant \<Rightarrow> duration" where
  "elapsed now t = now - t"

definition saturating_sub :: "'a::len word \<Rightarrow> 'a word \<Rightarrow> 'a word" where
  "saturating_sub a b = (if a < b then 0 else a - b)"

lemma unat_saturating_sub: "unat (saturating_sub a b) = unat a - unat b"
  by (auto simp: saturating_sub_def word_less_nat_alt unat_sub_if')

definition saturating_add :: "'a::len word \<Rightarrow> 'a word \<Rightarrow> 'a word" where
  "saturating_add a b = (if unat a + unat b < 2 ^ LENGTH('a) then a + b else - 1)"

lemma unat_saturating_add:
  "unat (saturating_add a b) = min (unat a + unat b) (2 ^ LENGTH('a) - 1)"
  for a b :: "'a::len word"
proof -
  have "unat (- 1 :: 'a word) = 2 ^ LENGTH('a) - 1"
    by (simp only: unsigned_minus_1_eq_mask mask_eq_exp_minus_1)
  moreover have "unat a + unat b < 2 ^ LENGTH('a) \<Longrightarrow> unat (a + b) = unat a + unat b"
    by (subst unat_add_lem [symmetric])
  ultimately show ?thesis
    unfolding saturating_add_def by (auto simp only: min_def if_True if_False split: if_splits)
qed

section \<open>Hash maps\<close>

type_synonym ('k, 'v) hashmap = "('k \<times> 'v) list"

named_theorems hm_simps

definition hm_get :: "('k, 'v) hashmap \<Rightarrow> 'k \<Rightarrow> 'v option" where
  "hm_get m k = map_of m k"

definition hm_contains :: "('k, 'v) hashmap \<Rightarrow> 'k \<Rightarrow> bool" where
  "hm_contains m k = (hm_get m k \<noteq> None)"

definition hm_insert :: "'k \<Rightarrow> 'v \<Rightarrow> ('k, 'v) hashmap \<Rightarrow> ('k, 'v) hashmap" where
  "hm_insert k v m = AList.update k v m"

definition hm_remove :: "'k \<Rightarrow> ('k, 'v) hashmap \<Rightarrow> ('k, 'v) hashmap" where
  "hm_remove k m = AList.delete k m"

definition hm_keys :: "('k, 'v) hashmap \<Rightarrow> 'k list" where
  "hm_keys m = map fst m"

definition hm_values :: "('k, 'v) hashmap \<Rightarrow> 'v list" where
  "hm_values m = map snd m"

text \<open>\<open>for k in ks { m.remove(k) }\<close>\<close>

definition hm_remove_all :: "'k list \<Rightarrow> ('k, 'v) hashmap \<Rightarrow> ('k, 'v) hashmap" where
  "hm_remove_all ks m = fold hm_remove ks m"

text \<open>\<open>iter.collect::<HashMap<_, _>>()\<close>: a later pair overwrites an earlier one.\<close>

definition hm_collect :: "('k \<times> 'v) list \<Rightarrow> ('k, 'v) hashmap" where
  "hm_collect kvs = fold (\<lambda>(k, v). hm_insert k v) kvs []"

text \<open>Collect the keys whose value satisfies a predicate, then remove them: the body that
  \<open>remove_stale\<close> and \<open>remove_worker\<close> of both routing tables share.\<close>

definition hm_drop_where :: "('v \<Rightarrow> bool) \<Rightarrow> ('k, 'v) hashmap \<Rightarrow> 'k list \<times> ('k, 'v) hashmap" where
  "hm_drop_where P m =
     (let ks = map fst (filter (\<lambda>(_, v). P v) m) in (ks, hm_remove_all ks m))"

definition hm_wf :: "('k, 'v) hashmap \<Rightarrow> bool" where
  "hm_wf m = distinct (map fst m)"

subsection \<open>Lookup after each operation\<close>

lemma hm_get_Nil [simp, hm_simps]: "hm_get [] k = None"
  by (simp add: hm_get_def)

lemma hm_get_Cons [hm_simps]: "hm_get ((k', v) # m) k = (if k = k' then Some v else hm_get m k)"
  by (auto simp: hm_get_def)

lemma hm_get_insert [simp, hm_simps]:
  "hm_get (hm_insert k v m) k' = (if k' = k then Some v else hm_get m k')"
  by (simp add: hm_get_def hm_insert_def update_conv')

lemma hm_get_remove [simp, hm_simps]:
  "hm_get (hm_remove k m) k' = (if k' = k then None else hm_get m k')"
  by (simp add: hm_get_def hm_remove_def delete_conv')

lemma hm_get_remove_all [simp, hm_simps]:
  "hm_get (hm_remove_all ks m) k = (if k \<in> set ks then None else hm_get m k)"
  by (induction ks arbitrary: m) (auto simp: hm_remove_all_def)

lemma hm_get_fold_insert:
  "hm_get (fold (\<lambda>(k, v). hm_insert k v) kvs m) k =
     (case map_of (rev kvs) k of Some v \<Rightarrow> Some v | None \<Rightarrow> hm_get m k)"
  by (induction kvs arbitrary: m)
    (auto simp: map_add_def split: option.splits)

lemma hm_get_collect: "hm_get (hm_collect kvs) k = map_of (rev kvs) k"
  by (simp add: hm_collect_def hm_get_fold_insert split: option.splits)

lemma hm_get_collect_key:
  "hm_get (hm_collect (map (\<lambda>x. (f x, g x)) xs)) k \<noteq> None \<longleftrightarrow> k \<in> f ` set xs"
proof -
  have "map_of (rev (map (\<lambda>x. (f x, g x)) xs)) k = None \<longleftrightarrow> k \<notin> f ` set xs"
    by (force simp: map_of_eq_None_iff image_iff)
  then show ?thesis by (simp add: hm_get_collect)
qed

lemma hm_contains_collect [simp]:
  "hm_contains (hm_collect (map (\<lambda>x. (f x, g x)) xs)) k \<longleftrightarrow> k \<in> f ` set xs"
  unfolding hm_contains_def by (rule hm_get_collect_key)

lemma hm_get_collect_SomeD:
  assumes "hm_get (hm_collect (map (\<lambda>x. (f x, g x)) xs)) k = Some v"
  shows "\<exists>x \<in> set xs. f x = k \<and> g x = v"
proof -
  from assms have "(k, v) \<in> set (rev (map (\<lambda>x. (f x, g x)) xs))"
    by (auto simp: hm_get_collect dest: map_of_SomeD)
  then show ?thesis by auto
qed

subsection \<open>Well-formedness\<close>

lemma hm_wf_Nil [simp, intro]: "hm_wf []"
  by (simp add: hm_wf_def)

lemma hm_wf_insert [simp, intro]: "hm_wf m \<Longrightarrow> hm_wf (hm_insert k v m)"
  by (simp add: hm_wf_def hm_insert_def distinct_update)

lemma hm_wf_remove [simp, intro]: "hm_wf m \<Longrightarrow> hm_wf (hm_remove k m)"
  by (simp add: hm_wf_def hm_remove_def distinct_delete)

lemma hm_wf_remove_all [simp, intro]: "hm_wf m \<Longrightarrow> hm_wf (hm_remove_all ks m)"
  by (induction ks arbitrary: m) (auto simp: hm_remove_all_def)

lemma hm_wf_collect [simp, intro]: "hm_wf (hm_collect kvs)"
proof -
  have "hm_wf m \<Longrightarrow> hm_wf (fold (\<lambda>(k, v). hm_insert k v) kvs m)" for m :: "('a, 'b) hashmap"
    by (induction kvs arbitrary: m) auto
  then show ?thesis by (simp add: hm_collect_def)
qed

lemma hm_in_iff_get: "hm_wf m \<Longrightarrow> (k, v) \<in> set m \<longleftrightarrow> hm_get m k = Some v"
  by (simp add: hm_wf_def hm_get_def)

lemma hm_get_in: "hm_get m k = Some v \<Longrightarrow> (k, v) \<in> set m"
  by (simp add: hm_get_def map_of_SomeD)

lemma hm_keys_iff: "k \<in> set (hm_keys m) \<longleftrightarrow> hm_contains m k"
  by (force simp: hm_keys_def hm_contains_def hm_get_def map_of_eq_None_iff)

lemma hm_values_iff: "hm_wf m \<Longrightarrow> v \<in> set (hm_values m) \<longleftrightarrow> (\<exists>k. hm_get m k = Some v)"
  by (force simp: hm_values_def hm_in_iff_get [symmetric])

lemma distinct_hm_keys [simp]: "hm_wf m \<Longrightarrow> distinct (hm_keys m)"
  by (simp add: hm_wf_def hm_keys_def)

subsection \<open>Dropping the entries that satisfy a predicate\<close>

lemma hm_wf_drop_where [simp, intro]: "hm_wf m \<Longrightarrow> hm_wf (snd (hm_drop_where P m))"
  by (simp add: hm_drop_where_def Let_def)

lemma hm_drop_where_keys:
  "hm_wf m \<Longrightarrow>
   k \<in> set (fst (hm_drop_where P m)) \<longleftrightarrow> (\<exists>v. hm_get m k = Some v \<and> P v)"
  by (force simp: hm_drop_where_def Let_def hm_in_iff_get [symmetric])

lemma hm_get_drop_where:
  assumes "hm_wf m"
  shows "hm_get (snd (hm_drop_where P m)) k =
     (case hm_get m k of Some v \<Rightarrow> if P v then None else Some v | None \<Rightarrow> None)"
  using hm_drop_where_keys [OF assms, of k P]
  by (auto simp: hm_drop_where_def Let_def split: option.splits)

lemma hm_wf_filter [simp, intro]: "hm_wf m \<Longrightarrow> hm_wf (filter P m)"
  by (simp add: hm_wf_def distinct_map_filter)

lemma hm_get_filter:
  "hm_wf m \<Longrightarrow> hm_get (filter (\<lambda>(k, v). P k v) m) k =
     (case hm_get m k of Some v \<Rightarrow> if P k v then Some v else None | None \<Rightarrow> None)"
proof (induction m)
  case (Cons kv m)
  obtain k' v' where kv: "kv = (k', v')" by fastforce
  from Cons.prems have wf: "hm_wf m" and new: "k' \<notin> fst ` set m" by (auto simp: hm_wf_def kv)
  from new have "hm_get m k' = None" by (force simp: hm_get_def map_of_eq_None_iff)
  with Cons.IH [OF wf] show ?case by (auto simp: kv hm_get_Cons)
qed simp

lemma hm_get_collect_id: "hm_wf m \<Longrightarrow> hm_get (hm_collect m) k = hm_get m k"
  using map_of_inject_set [of "rev m" m]
  by (simp add: hm_get_collect hm_get_def [of m] hm_wf_def rev_map [symmetric])

lemmas hm_drop_specs = hm_wf_drop_where hm_drop_where_keys hm_get_drop_where

section \<open>Lists\<close>

lemma find_split:
  "find P xs = Some a \<longleftrightarrow> (\<exists>pre post. xs = pre @ a # post \<and> P a \<and> list_all (\<lambda>x. \<not> P x) pre)"
proof
  show "find P xs = Some a \<Longrightarrow> \<exists>pre post. xs = pre @ a # post \<and> P a \<and> list_all (\<lambda>x. \<not> P x) pre"
  proof (induction xs)
    case (Cons x xs)
    show ?case
    proof (cases "P x")
      case False
      with Cons obtain pre post where "xs = pre @ a # post" "P a" "list_all (\<lambda>x. \<not> P x) pre" by auto
      with False have "x # xs = (x # pre) @ a # post \<and> P a \<and> list_all (\<lambda>x. \<not> P x) (x # pre)" by simp
      then show ?thesis by blast
    qed (use Cons.prems in force)
  qed simp
next
  assume "\<exists>pre post. xs = pre @ a # post \<and> P a \<and> list_all (\<lambda>x. \<not> P x) pre"
  then obtain pre post where xs: "xs = pre @ a # post" "P a" "list_all (\<lambda>x. \<not> P x) pre" by blast
  from xs(3) have "find P (pre @ a # post) = find P (a # post)" by (induction pre) auto
  with xs show "find P xs = Some a" by simp
qed

section \<open>Strings\<close>

text \<open>Decimal rendering of an unsigned integer, as \<open>format!("{}", n)\<close> prints it.\<close>

definition digit_char :: "nat \<Rightarrow> char" where
  "digit_char d = char_of (48 + d)"

fun dec :: "nat \<Rightarrow> string" where
  "dec n = (if n < 10 then [digit_char n] else dec (n div 10) @ [digit_char (n mod 10)])"

declare dec.simps [simp del]

lemma digit_char_inj: "a < 10 \<Longrightarrow> b < 10 \<Longrightarrow> digit_char a = digit_char b \<Longrightarrow> a = b"
proof -
  assume a: "a < 10" and b: "b < 10" and eq: "digit_char a = digit_char b"
  from eq have "of_char (digit_char a) = (of_char (digit_char b) :: nat)" by simp
  with a b show "a = b" by (simp add: digit_char_def)
qed

lemma dec_not_Nil [simp]: "dec n \<noteq> []"
  by (subst dec.simps) simp

text \<open>Reading a digit string back gives the number: decimal rendering loses nothing.\<close>

definition undec :: "string \<Rightarrow> nat" where
  "undec s = foldl (\<lambda>n c. n * 10 + (of_char c - 48)) 0 s"

lemma undec_digit: "d < 10 \<Longrightarrow> of_char (digit_char d) - 48 = d"
  by (simp add: digit_char_def)

lemma undec_dec [simp]: "undec (dec n) = n"
proof (induction n rule: dec.induct)
  case (1 n)
  show ?case
  proof (cases "n < 10")
    case True
    then show ?thesis by (subst dec.simps) (simp add: undec_def undec_digit)
  next
    case False
    with "1.IH" show ?thesis
      by (subst dec.simps) (simp add: undec_def undec_digit)
  qed
qed

lemma dec_inj: "dec a = dec b \<longleftrightarrow> a = b"
  by (metis undec_dec)

definition is_digit :: "char \<Rightarrow> bool" where
  "is_digit c = (48 \<le> (of_char c :: nat) \<and> of_char c \<le> (57::nat))"

lemma is_digit_digit_char: "d < 10 \<Longrightarrow> is_digit (digit_char d)"
  by (simp add: is_digit_def digit_char_def)

lemma dec_digits: "list_all is_digit (dec n)"
proof (induction n rule: dec.induct)
  case (1 n)
  show ?case
  proof (cases "n < 10")
    case True
    then show ?thesis by (subst dec.simps) (simp add: is_digit_digit_char)
  next
    case False
    with "1.IH" show ?thesis
      by (subst dec.simps) (simp add: is_digit_digit_char)
  qed
qed

lemma dec_not_in: "\<not> is_digit c \<Longrightarrow> c \<notin> set (dec n)"
  using dec_digits [of n] by (auto simp: list_all_iff)

text \<open>\<open>str::split_once(sep)\<close>: split at the first occurrence of the separator.\<close>

fun split_once :: "char \<Rightarrow> string \<Rightarrow> (string \<times> string) option" where
  "split_once sep [] = None"
| "split_once sep (c # cs) =
     (if c = sep then Some ([], cs)
      else case split_once sep cs of None \<Rightarrow> None | Some (a, b) \<Rightarrow> Some (c # a, b))"

lemma split_once_None: "split_once sep s = None \<longleftrightarrow> sep \<notin> set s"
  by (induction s) (auto split: option.splits)

lemma split_once_append: "sep \<notin> set a \<Longrightarrow> split_once sep (a @ sep # b) = Some (a, b)"
  by (induction a) auto

lemma split_once_SomeD: "split_once sep s = Some (a, b) \<Longrightarrow> s = a @ sep # b \<and> sep \<notin> set a"
  by (induction s arbitrary: a) (auto split: if_splits option.splits)

lemma append_sep_inj:
  fixes sep :: char
  assumes "sep \<notin> set a" and "sep \<notin> set a'"
  shows "a @ sep # b = a' @ sep # b' \<longleftrightarrow> a = a' \<and> b = b'"
proof
  assume "a @ sep # b = a' @ sep # b'"
  then have "split_once sep (a @ sep # b) = split_once sep (a' @ sep # b')" by simp
  then show "a = a' \<and> b = b'"
    unfolding split_once_append [OF assms(1)] split_once_append [OF assms(2)] by simp
qed simp

text \<open>\<open>str::strip_prefix\<close>.\<close>

fun strip_prefix :: "string \<Rightarrow> string \<Rightarrow> string option" where
  "strip_prefix [] s = Some s"
| "strip_prefix (p # ps) [] = None"
| "strip_prefix (p # ps) (c # cs) = (if p = c then strip_prefix ps cs else None)"

lemma strip_prefix_Some: "strip_prefix p s = Some r \<longleftrightarrow> s = p @ r"
  by (induction p s rule: strip_prefix.induct) auto

text \<open>\<open>str::strip_suffix\<close>, \<open>str::starts_with\<close>, \<open>str::ends_with\<close> and the ASCII case
  conversions.\<close>

definition strip_suffix :: "string \<Rightarrow> string \<Rightarrow> string option" where
  "strip_suffix suf s = map_option rev (strip_prefix (rev suf) (rev s))"

lemma strip_suffix_Some: "strip_suffix suf s = Some r \<longleftrightarrow> s = r @ suf"
proof -
  have "strip_suffix suf s = Some r \<longleftrightarrow> rev s = rev suf @ rev r"
    by (auto simp: strip_suffix_def strip_prefix_Some)
  also have "\<dots> \<longleftrightarrow> s = r @ suf" by (metis rev_append rev_rev_ident)
  finally show ?thesis .
qed

definition starts_with :: "string \<Rightarrow> string \<Rightarrow> bool" where
  "starts_with p s = (strip_prefix p s \<noteq> None)"

lemma starts_with_iff: "starts_with p s \<longleftrightarrow> (\<exists>r. s = p @ r)"
  unfolding starts_with_def using strip_prefix_Some [of p s] by (metis not_None_eq)

lemma starts_with_append [simp]: "starts_with p (p @ r)"
  by (auto simp: starts_with_iff)

definition ascii_lower :: "char \<Rightarrow> char" where
  "ascii_lower c = (if 65 \<le> (of_char c :: nat) \<and> of_char c \<le> (90::nat)
                    then char_of (of_char c + 32 :: nat) else c)"

definition ascii_upper :: "char \<Rightarrow> char" where
  "ascii_upper c = (if 97 \<le> (of_char c :: nat) \<and> of_char c \<le> (122::nat)
                    then char_of (of_char c - 32 :: nat) else c)"

definition to_ascii_lowercase :: "string \<Rightarrow> string" where
  "to_ascii_lowercase s = map ascii_lower s"

definition to_ascii_uppercase :: "string \<Rightarrow> string" where
  "to_ascii_uppercase s = map ascii_upper s"

definition is_ascii_alphanumeric :: "char \<Rightarrow> bool" where
  "is_ascii_alphanumeric c =
     (let n = (of_char c :: nat)
      in 48 \<le> n \<and> n \<le> 57 \<or> 65 \<le> n \<and> n \<le> 90 \<or> 97 \<le> n \<and> n \<le> 122)"

text \<open>\<open>format!("{:x}", n)\<close>: lowercase hexadecimal without leading zeros.\<close>

definition hex_digit :: "nat \<Rightarrow> char" where
  "hex_digit d = (if d < 10 then char_of (48 + d) else char_of (87 + d))"

fun hex_of :: "nat \<Rightarrow> string" where
  "hex_of n = (if n < 16 then [hex_digit n] else hex_of (n div 16) @ [hex_digit (n mod 16)])"

declare hex_of.simps [simp del]

text \<open>\<open>str::parse::<uN>()\<close>: an optional plus sign and at least one digit; \<open>None\<close> on any other
  character and on overflow of the bound.\<close>

definition parse_uint :: "nat \<Rightarrow> string \<Rightarrow> nat option" where
  "parse_uint bound s =
     (let ds = (case s of c # cs \<Rightarrow> if c = CHR ''+'' then cs else s | [] \<Rightarrow> s)
      in if ds \<noteq> [] \<and> list_all is_digit ds \<and> undec ds < bound then Some (undec ds) else None)"

lemma parse_uint_bound: "parse_uint b s = Some n \<Longrightarrow> n < b"
  by (auto simp: parse_uint_def Let_def split: if_splits)

section \<open>JSON values\<close>

datatype json =
    JNull
  | JBool bool
  | JNum int
  | JStr string
  | JArr "json list"
  | JObj "(string \<times> json) list"

fun jget :: "string \<Rightarrow> json \<Rightarrow> json option" where
  "jget k (JObj kvs) = map_of kvs k"
| "jget k _ = None"

fun as_object :: "json \<Rightarrow> (string, json) hashmap option" where
  "as_object (JObj kvs) = Some kvs"
| "as_object _ = None"

fun as_str :: "json \<Rightarrow> string option" where
  "as_str (JStr s) = Some s"
| "as_str _ = None"

abbreviation ju :: "'a::len word \<Rightarrow> json" where
  "ju w \<equiv> JNum (uint w)"

end
