(* ===== verification/Ingress_Store.thy ===== *)
theory Ingress_Store
  imports Edge_Prelude
begin

text \<open>
  The contract the two routing tables of the ingress share. \<open>RoutingTable\<close> (HTTP) and
  \<open>L4RoutingTable\<close> (raw TCP) are separate types in the source, with the same eviction
  discipline: a heartbeat upserts or removes one key, the pruner drops every entry not seen
  since the cutoff, the final heartbeat of a worker drops every entry of that worker.

  The locale \<open>route_store\<close> fixes these operations and assumes what each promises of a lookup;
  the lemmas in it are what the heartbeat, pruner and render code rely on. Both tables
  interpret it in their own theories.
\<close>

datatype ('k, 'e) store_op =
    Upsert bool 'e
  | Remove 'k
  | Prune instant duration
  | WorkerGone string

locale route_store =
  fixes lookup :: "'s \<Rightarrow> 'k \<Rightarrow> 'e option"
    and snapshot :: "'s \<Rightarrow> 'e list"
    and upsert :: "bool \<Rightarrow> 'e \<Rightarrow> 's \<Rightarrow> 's"
    and remove :: "'k \<Rightarrow> 's \<Rightarrow> 's"
    and remove_stale :: "instant \<Rightarrow> duration \<Rightarrow> 's \<Rightarrow> 'k list \<times> 's"
    and remove_worker :: "string \<Rightarrow> 's \<Rightarrow> 'k list \<times> 's"
    and key :: "'e \<Rightarrow> 'k"
    and worker :: "'e \<Rightarrow> string"
    and seen :: "'e \<Rightarrow> instant"
    and inv :: "'s \<Rightarrow> bool"
  assumes inv_upsert: "inv s \<Longrightarrow> inv (upsert r e s)"
    and inv_remove: "inv s \<Longrightarrow> inv (remove k s)"
    and inv_stale: "inv s \<Longrightarrow> inv (snd (remove_stale now d s))"
    and inv_worker: "inv s \<Longrightarrow> inv (snd (remove_worker w s))"
    and snapshot_iff: "inv s \<Longrightarrow> e \<in> set (snapshot s) \<longleftrightarrow> lookup s (key e) = Some e"
    and lookup_key: "inv s \<Longrightarrow> lookup s k = Some e \<Longrightarrow> key e = k"
    and lookup_upsert: "inv s \<Longrightarrow>
          lookup (upsert r e s) k = (if k = key e then if r then Some e else None else lookup s k)"
    and lookup_remove: "inv s \<Longrightarrow> lookup (remove k' s) k = (if k = k' then None else lookup s k)"
    and lookup_stale: "inv s \<Longrightarrow>
          lookup (snd (remove_stale now d s)) k =
            (case lookup s k of Some e \<Rightarrow> if seen e < now - d then None else Some e | None \<Rightarrow> None)"
    and keys_stale: "inv s \<Longrightarrow>
          k \<in> set (fst (remove_stale now d s)) \<longleftrightarrow> (\<exists>e. lookup s k = Some e \<and> seen e < now - d)"
    and lookup_worker: "inv s \<Longrightarrow>
          lookup (snd (remove_worker w s)) k =
            (case lookup s k of Some e \<Rightarrow> if worker e = w then None else Some e | None \<Rightarrow> None)"
    and keys_worker: "inv s \<Longrightarrow>
          k \<in> set (fst (remove_worker w s)) \<longleftrightarrow> (\<exists>e. lookup s k = Some e \<and> worker e = w)"
begin

lemmas inv_intros = inv_upsert inv_remove inv_stale inv_worker
lemmas lookup_specs = lookup_upsert lookup_remove lookup_stale lookup_worker

text \<open>The pruner leaves exactly the entries seen since the cutoff, and reports the others.\<close>

lemma snapshot_stale:
  assumes "inv s"
  shows "set (snapshot (snd (remove_stale now d s))) =
    {e \<in> set (snapshot s). \<not> seen e < now - d}"
  using assms
  by (auto simp: snapshot_iff inv_intros lookup_stale split: option.splits if_splits)

lemma snapshot_worker:
  assumes "inv s"
  shows "set (snapshot (snd (remove_worker w s))) = {e \<in> set (snapshot s). worker e \<noteq> w}"
  using assms
  by (auto simp: snapshot_iff inv_intros lookup_worker split: option.splits if_splits)

lemma snapshot_upsert:
  assumes "inv s"
  shows "set (snapshot (upsert r e s)) =
    {x \<in> set (snapshot s). key x \<noteq> key e} \<union> (if r then {e} else {})"
  using assms by (auto simp: snapshot_iff inv_intros lookup_upsert split: if_splits)

lemma snapshot_key_inj:
  assumes "inv s" and "e \<in> set (snapshot s)" and "e' \<in> set (snapshot s)" and "key e = key e'"
  shows "e = e'"
  using assms by (simp add: snapshot_iff)

lemma keys_stale_snapshot:
  assumes "inv s"
  shows "set (fst (remove_stale now d s)) = key ` {e \<in> set (snapshot s). seen e < now - d}"
proof -
  have "k \<in> set (fst (remove_stale now d s)) \<longleftrightarrow>
      k \<in> key ` {e \<in> set (snapshot s). seen e < now - d}" for k
    using assms lookup_key [OF assms]
    by (auto simp: keys_stale snapshot_iff image_iff)
  then show ?thesis by blast
qed

lemma keys_worker_snapshot:
  assumes "inv s"
  shows "set (fst (remove_worker w s)) = key ` {e \<in> set (snapshot s). worker e = w}"
proof -
  have "k \<in> set (fst (remove_worker w s)) \<longleftrightarrow>
      k \<in> key ` {e \<in> set (snapshot s). worker e = w}" for k
    using assms lookup_key [OF assms]
    by (auto simp: keys_worker snapshot_iff image_iff)
  then show ?thesis by blast
qed

text \<open>Sequences of operations.\<close>

fun store_step :: "('k, 'e) store_op \<Rightarrow> 's \<Rightarrow> 's" where
  "store_step (Upsert r e) s = upsert r e s"
| "store_step (Remove k) s = remove k s"
| "store_step (Prune now d) s = snd (remove_stale now d s)"
| "store_step (WorkerGone w) s = snd (remove_worker w s)"

lemma inv_step: "inv s \<Longrightarrow> inv (store_step op s)"
  by (cases op) (auto intro: inv_intros)

lemma inv_run: "inv s \<Longrightarrow> inv (fold store_step ops s)"
  by (induction ops arbitrary: s) (auto intro: inv_step)

text \<open>An operation spares an entry when it does not touch its key, its worker stays, and a prune
  happens while the entry is still fresh.\<close>

fun spares :: "'e \<Rightarrow> ('k, 'e) store_op \<Rightarrow> bool" where
  "spares e (Upsert r e') = (key e' \<noteq> key e)"
| "spares e (Remove k) = (k \<noteq> key e)"
| "spares e (Prune now d) = (\<not> seen e < now - d)"
| "spares e (WorkerGone w) = (worker e \<noteq> w)"

lemma step_spares: "inv s \<Longrightarrow> lookup s (key e) = Some e \<Longrightarrow> spares e op \<Longrightarrow>
  lookup (store_step op s) (key e) = Some e"
  by (cases op) (auto simp: lookup_specs)

lemma run_spares:
  "inv s \<Longrightarrow> lookup s (key e) = Some e \<Longrightarrow> (\<forall>op \<in> set ops. spares e op) \<Longrightarrow>
   lookup (fold store_step ops s) (key e) = Some e"
  by (induction ops arbitrary: s) (auto intro: inv_step step_spares)

text \<open>A routable heartbeat keeps its route until something names its key, its worker leaves or
  the pruner finds it stale.\<close>

lemma upsert_survives:
  assumes "inv s" and "\<forall>op \<in> set ops. spares e op"
  shows "lookup (fold store_step ops (upsert True e s)) (key e) = Some e"
  using assms by (intro run_spares) (auto simp: inv_upsert lookup_upsert)

end

end
