(* ===== verification/Ingress_Routing.thy ===== *)
theory Ingress_Routing
  imports Ingress_Store
begin

text \<open>
  The HTTP routing table (\<open>edge-ingress/src/routing.rs\<close>): routes by
  \<open>(tenant, app, deployment)\<close>, custom domain bindings by FQDN, and their operations. The two
  \<open>RwLock\<close>ed maps of the struct are the two fields of the record; each operation holds one
  lock for its whole body, so an operation is one step.
\<close>

section \<open>Data\<close>

record route_entry =
  re_tenant_id :: string
  re_app_name :: string
  re_deployment_id :: "string option"
  re_weight :: u8
  re_worker_addr :: string
  re_port :: u16
  re_rate_limit_rps :: "u32 option"
  re_rate_limit_burst :: "u32 option"
  re_last_seen :: instant

definition route_id :: "route_entry \<Rightarrow> string" where
  "route_id e =
     (case re_deployment_id e of
        Some did \<Rightarrow> re_tenant_id e @ '':'' @ re_app_name e @ '':'' @ did
      | None \<Rightarrow> re_tenant_id e @ '':'' @ re_app_name e)"

record fqdn_binding =
  fb_tenant_id :: string
  fb_app_name :: string
  fb_fqdn :: string

definition fqdn_route_id :: "fqdn_binding \<Rightarrow> string" where
  "fqdn_route_id b = fb_fqdn b"

record domain =
  dm_id :: string
  dm_tenant_id :: string
  dm_app_name :: string
  dm_fqdn :: string

record app_key =
  ak_tenant_id :: string
  ak_app_name :: string
  ak_deployment_id :: "string option"

definition app_key_new :: "string \<Rightarrow> string \<Rightarrow> app_key" where
  "app_key_new tenant_id app_name =
     \<lparr>ak_tenant_id = tenant_id, ak_app_name = app_name, ak_deployment_id = None\<rparr>"

definition app_key_with_deployment :: "string \<Rightarrow> string \<Rightarrow> string \<Rightarrow> app_key" where
  "app_key_with_deployment tenant_id app_name deployment_id =
     \<lparr>ak_tenant_id = tenant_id, ak_app_name = app_name, ak_deployment_id = Some deployment_id\<rparr>"

record routing_table =
  by_app :: "(app_key, route_entry) hashmap"
  by_fqdn :: "(string, fqdn_binding) hashmap"

definition rt_new :: routing_table where
  "rt_new = \<lparr>by_app = [], by_fqdn = []\<rparr>"

section \<open>Routes\<close>

definition rt_remove :: "app_key \<Rightarrow> routing_table \<Rightarrow> routing_table" where
  "rt_remove key rt = rt\<lparr>by_app := hm_remove key (by_app rt)\<rparr>"

definition rt_upsert ::
  "instant \<Rightarrow> string \<Rightarrow> string \<Rightarrow> string option \<Rightarrow> u8 \<Rightarrow> string \<Rightarrow> u16 \<Rightarrow> string
    \<Rightarrow> routing_table \<Rightarrow> routing_table" where
  "rt_upsert now tenant_id app_name deployment_id weight worker_addr port status rt =
     (let key = (case deployment_id of
                   Some d \<Rightarrow> app_key_with_deployment tenant_id app_name d
                 | None \<Rightarrow> app_key_new tenant_id app_name)
      in if status \<noteq> ''running'' \<and> status \<noteq> ''draining'' then rt_remove key rt
         else let effective_weight = (if status = ''draining'' then 0 else weight)
              in rt\<lparr>by_app := hm_insert key
                     \<lparr>re_tenant_id = tenant_id, re_app_name = app_name,
                      re_deployment_id = deployment_id, re_weight = effective_weight,
                      re_worker_addr = worker_addr, re_port = port,
                      re_rate_limit_rps = None, re_rate_limit_burst = None,
                      re_last_seen = now\<rparr> (by_app rt)\<rparr>)"

definition rt_remove_stale :: "instant \<Rightarrow> duration \<Rightarrow> routing_table \<Rightarrow> app_key list \<times> routing_table" where
  "rt_remove_stale now older_than rt =
     (let cutoff = now - older_than;
          (stale, inner) = hm_drop_where (\<lambda>e. re_last_seen e < cutoff) (by_app rt)
      in (stale, rt\<lparr>by_app := inner\<rparr>))"

definition rt_remove_worker :: "string \<Rightarrow> routing_table \<Rightarrow> app_key list \<times> routing_table" where
  "rt_remove_worker worker_addr rt =
     (let (removed, inner) = hm_drop_where (\<lambda>e. re_worker_addr e = worker_addr) (by_app rt)
      in (removed, rt\<lparr>by_app := inner\<rparr>))"

definition rt_snapshot :: "routing_table \<Rightarrow> route_entry list" where
  "rt_snapshot rt = hm_values (by_app rt)"

definition rt_fqdn_snapshot :: "routing_table \<Rightarrow> fqdn_binding list" where
  "rt_fqdn_snapshot rt = hm_values (by_fqdn rt)"

definition rt_len :: "routing_table \<Rightarrow> nat" where
  "rt_len rt = length (by_app rt)"

section \<open>Custom domains\<close>

definition rt_register_fqdn :: "string \<Rightarrow> string \<Rightarrow> string \<Rightarrow> routing_table \<Rightarrow> routing_table" where
  "rt_register_fqdn fqdn tenant_id app_name rt =
     rt\<lparr>by_fqdn := hm_insert fqdn
          \<lparr>fb_tenant_id = tenant_id, fb_app_name = app_name, fb_fqdn = fqdn\<rparr> (by_fqdn rt)\<rparr>"

definition rt_deregister_fqdn :: "string \<Rightarrow> routing_table \<Rightarrow> routing_table" where
  "rt_deregister_fqdn fqdn rt = rt\<lparr>by_fqdn := hm_remove fqdn (by_fqdn rt)\<rparr>"

definition bind_added ::
  "(string, domain) hashmap \<Rightarrow> string \<Rightarrow> (string, fqdn_binding) hashmap \<Rightarrow> (string, fqdn_binding) hashmap" where
  "bind_added new_fqdns fqdn current =
     (case hm_get new_fqdns fqdn of
        Some d \<Rightarrow> hm_insert fqdn
          \<lparr>fb_tenant_id = dm_tenant_id d, fb_app_name = dm_app_name d, fb_fqdn = fqdn\<rparr> current
      | None \<Rightarrow> current)"

definition apply_poll_snapshot ::
  "domain list \<Rightarrow> routing_table \<Rightarrow> (string list \<times> string list) \<times> routing_table" where
  "apply_poll_snapshot domains rt =
     (let new_fqdns = hm_collect (map (\<lambda>d. (dm_fqdn d, d)) domains);
          current = by_fqdn rt;
          added = filter (\<lambda>f. \<not> hm_contains current f) (hm_keys new_fqdns);
          removed = filter (\<lambda>f. \<not> hm_contains new_fqdns f) (hm_keys current);
          current' = hm_remove_all removed current;
          current'' = fold (bind_added new_fqdns) added current'
      in ((added, removed), rt\<lparr>by_fqdn := current''\<rparr>))"

section \<open>Invariant\<close>

definition entry_key :: "route_entry \<Rightarrow> app_key" where
  "entry_key e = \<lparr>ak_tenant_id = re_tenant_id e, ak_app_name = re_app_name e,
                  ak_deployment_id = re_deployment_id e\<rparr>"

text \<open>Keys are unique, and each value carries the key it is stored under.\<close>

definition rt_inv :: "routing_table \<Rightarrow> bool" where
  "rt_inv rt \<longleftrightarrow>
     hm_wf (by_app rt) \<and> hm_wf (by_fqdn rt) \<and>
     (\<forall>k e. hm_get (by_app rt) k = Some e \<longrightarrow> k = entry_key e) \<and>
     (\<forall>f b. hm_get (by_fqdn rt) f = Some b \<longrightarrow> f = fb_fqdn b)"

lemma rt_inv_new [simp, intro]: "rt_inv rt_new"
  by (simp add: rt_inv_def rt_new_def)

section \<open>The table as a route store\<close>

definition rt_lookup :: "routing_table \<Rightarrow> app_key \<Rightarrow> route_entry option" where
  "rt_lookup rt k = hm_get (by_app rt) k"

definition rt_put :: "bool \<Rightarrow> route_entry \<Rightarrow> routing_table \<Rightarrow> routing_table" where
  "rt_put routable e rt =
     (if routable then rt\<lparr>by_app := hm_insert (entry_key e) e (by_app rt)\<rparr>
      else rt_remove (entry_key e) rt)"

definition upsert_entry ::
  "instant \<Rightarrow> string \<Rightarrow> string \<Rightarrow> string option \<Rightarrow> u8 \<Rightarrow> string \<Rightarrow> u16 \<Rightarrow> string \<Rightarrow> route_entry" where
  "upsert_entry now tenant_id app_name deployment_id weight worker_addr port status =
     \<lparr>re_tenant_id = tenant_id, re_app_name = app_name, re_deployment_id = deployment_id,
      re_weight = (if status = ''draining'' then 0 else weight), re_worker_addr = worker_addr,
      re_port = port, re_rate_limit_rps = None, re_rate_limit_burst = None, re_last_seen = now\<rparr>"

definition routable :: "string \<Rightarrow> bool" where
  "routable status \<longleftrightarrow> status = ''running'' \<or> status = ''draining''"

lemma rt_upsert_put:
  "rt_upsert now t a did w addr port status rt =
     rt_put (routable status) (upsert_entry now t a did w addr port status) rt"
  by (auto simp: rt_upsert_def rt_put_def upsert_entry_def entry_key_def Let_def routable_def
      app_key_new_def app_key_with_deployment_def split: option.splits)

lemma by_app_stale:
  "by_app (snd (rt_remove_stale now d rt)) =
     snd (hm_drop_where (\<lambda>e. re_last_seen e < now - d) (by_app rt))"
  "fst (rt_remove_stale now d rt) =
     fst (hm_drop_where (\<lambda>e. re_last_seen e < now - d) (by_app rt))"
  "by_fqdn (snd (rt_remove_stale now d rt)) = by_fqdn rt"
  by (simp_all add: rt_remove_stale_def Let_def split: prod.splits)

lemma by_app_worker:
  "by_app (snd (rt_remove_worker w rt)) =
     snd (hm_drop_where (\<lambda>e. re_worker_addr e = w) (by_app rt))"
  "fst (rt_remove_worker w rt) = fst (hm_drop_where (\<lambda>e. re_worker_addr e = w) (by_app rt))"
  "by_fqdn (snd (rt_remove_worker w rt)) = by_fqdn rt"
  by (simp_all add: rt_remove_worker_def split: prod.splits)

lemmas rt_simps = rt_inv_def rt_lookup_def rt_put_def rt_remove_def rt_snapshot_def
  by_app_stale by_app_worker hm_drop_specs

interpretation http: route_store rt_lookup rt_snapshot rt_put rt_remove rt_remove_stale
  rt_remove_worker entry_key re_worker_addr re_last_seen rt_inv
proof (unfold_locales, goal_cases)
  case (5 s e)
  then show ?case by (auto simp: rt_simps hm_values_iff)
qed (auto simp: rt_simps split: option.splits if_splits)


section \<open>Polling the domain list\<close>

lemma hm_get_bind_added:
  "hm_get (fold (bind_added nf) fs cur) f =
     (if f \<in> set fs
      then case hm_get nf f of
             Some d \<Rightarrow> Some \<lparr>fb_tenant_id = dm_tenant_id d, fb_app_name = dm_app_name d, fb_fqdn = f\<rparr>
           | None \<Rightarrow> hm_get cur f
      else hm_get cur f)"
  by (induction fs arbitrary: cur) (auto simp: bind_added_def split: option.splits)

lemma hm_wf_bind_added: "hm_wf cur \<Longrightarrow> hm_wf (fold (bind_added nf) fs cur)"
  by (induction fs arbitrary: cur) (auto simp: bind_added_def split: option.splits)

lemma poll_added: "set (fst (fst (apply_poll_snapshot ds rt))) =
  {f \<in> dm_fqdn ` set ds. \<not> hm_contains (by_fqdn rt) f}"
  by (auto simp: apply_poll_snapshot_def Let_def hm_keys_iff)

lemma poll_removed: "set (snd (fst (apply_poll_snapshot ds rt))) =
  {f. hm_contains (by_fqdn rt) f \<and> f \<notin> dm_fqdn ` set ds}"
  by (auto simp: apply_poll_snapshot_def Let_def hm_keys_iff)

lemma poll_by_app: "by_app (snd (apply_poll_snapshot ds rt)) = by_app rt"
  by (simp add: apply_poll_snapshot_def Let_def)

lemma poll_get:
  "hm_get (by_fqdn (snd (apply_poll_snapshot ds rt))) f =
     (if f \<in> dm_fqdn ` set ds
      then case hm_get (by_fqdn rt) f of
             Some b \<Rightarrow> Some b
           | None \<Rightarrow> map_option
               (\<lambda>d. \<lparr>fb_tenant_id = dm_tenant_id d, fb_app_name = dm_app_name d, fb_fqdn = f\<rparr>)
               (map_of (rev (map (\<lambda>d. (dm_fqdn d, d)) ds)) f)
      else None)"
  by (auto simp: apply_poll_snapshot_def Let_def hm_get_bind_added hm_keys_iff hm_get_collect
      hm_contains_def [of "by_fqdn rt"] map_of_eq_None_iff split: option.splits)

lemma poll_wf:
  assumes "hm_wf (by_fqdn rt)"
  shows "hm_wf (by_fqdn (snd (apply_poll_snapshot ds rt)))"
  using assms by (auto simp: apply_poll_snapshot_def Let_def intro!: hm_wf_bind_added)

lemma rt_inv_poll:
  assumes "rt_inv rt"
  shows "rt_inv (snd (apply_poll_snapshot ds rt))"
  using assms poll_wf [of rt ds]
  by (auto simp: rt_inv_def poll_by_app poll_get split: if_splits option.splits)

lemma rt_inv_fqdn_ops:
  "rt_inv rt \<Longrightarrow> rt_inv (rt_register_fqdn f t a rt)"
  "rt_inv rt \<Longrightarrow> rt_inv (rt_deregister_fqdn f rt)"
  by (auto simp: rt_inv_def rt_register_fqdn_def rt_deregister_fqdn_def split: if_splits)

lemma rt_inv_upsert: "rt_inv rt \<Longrightarrow> rt_inv (rt_upsert now t a did w addr p st rt)"
  by (simp add: rt_upsert_put http.inv_upsert)

lemmas rt_inv_ops = rt_inv_upsert http.inv_remove http.inv_stale http.inv_worker
  rt_inv_fqdn_ops rt_inv_poll

section \<open>Properties\<close>

lemma poll_contains:
  "hm_contains (by_fqdn (snd (apply_poll_snapshot ds rt))) f \<longleftrightarrow> f \<in> dm_fqdn ` set ds"
proof -
  have "map_of (rev (map (\<lambda>d. (dm_fqdn d, d)) ds)) f = None \<longleftrightarrow> f \<notin> dm_fqdn ` set ds"
    by (force simp: map_of_eq_None_iff image_iff)
  then show ?thesis
    by (auto simp: hm_contains_def poll_get split: option.splits)
qed

lemma poll_new_binding:
  assumes "hm_get (by_fqdn (snd (apply_poll_snapshot ds rt))) f = Some b"
    and "hm_get (by_fqdn rt) f = None"
  shows "\<exists>d \<in> set ds. dm_fqdn d = f \<and> b = \<lparr>fb_tenant_id = dm_tenant_id d,
      fb_app_name = dm_app_name d, fb_fqdn = f\<rparr>"
  using assms by (fastforce simp: poll_get split: if_splits dest!: map_of_SomeD)

text \<open>The domain poll. After a poll the bound names are exactly the names of the polled
  list; a name that was bound and is still listed keeps its binding, a new one is bound to the
  tenant and app of a polled domain of that name; \<open>added\<close> and \<open>removed\<close> are the exact difference,
  and the routes of the apps are untouched.\<close>

theorem apply_poll_snapshot_exact:
  assumes "apply_poll_snapshot ds rt = ((added, removed), rt')"
  shows "(\<forall>f. hm_contains (by_fqdn rt') f \<longleftrightarrow> f \<in> dm_fqdn ` set ds) \<and>
    (\<forall>f \<in> dm_fqdn ` set ds.
       case hm_get (by_fqdn rt) f of
         Some b \<Rightarrow> hm_get (by_fqdn rt') f = Some b
       | None \<Rightarrow> (\<exists>d \<in> set ds. dm_fqdn d = f \<and> hm_get (by_fqdn rt') f =
           Some \<lparr>fb_tenant_id = dm_tenant_id d, fb_app_name = dm_app_name d, fb_fqdn = f\<rparr>)) \<and>
    set added = {f. hm_contains (by_fqdn rt') f \<and> \<not> hm_contains (by_fqdn rt) f} \<and>
    set removed = {f. hm_contains (by_fqdn rt) f \<and> \<not> hm_contains (by_fqdn rt') f} \<and>
    by_app rt' = by_app rt"
proof -
  have rt': "rt' = snd (apply_poll_snapshot ds rt)" and a: "added = fst (fst (apply_poll_snapshot ds rt))"
    and r: "removed = snd (fst (apply_poll_snapshot ds rt))"
    using assms by simp_all
  have new: "\<exists>d \<in> set ds. dm_fqdn d = f \<and> hm_get (by_fqdn rt') f =
      Some \<lparr>fb_tenant_id = dm_tenant_id d, fb_app_name = dm_app_name d, fb_fqdn = f\<rparr>"
    if "f \<in> dm_fqdn ` set ds" and "hm_get (by_fqdn rt) f = None" for f
  proof -
    from that(1) obtain b where "hm_get (by_fqdn rt') f = Some b"
      using poll_contains [of ds rt f] by (auto simp: rt' hm_contains_def)
    with poll_new_binding [of ds rt f b] that(2) show ?thesis by (auto simp: rt')
  qed
  have old: "hm_get (by_fqdn rt') f = Some b"
    if "f \<in> dm_fqdn ` set ds" and "hm_get (by_fqdn rt) f = Some b" for f b
    using that by (simp add: rt' poll_get)
  have diff: "set added = {f. hm_contains (by_fqdn rt') f \<and> \<not> hm_contains (by_fqdn rt) f}"
    "set removed = {f. hm_contains (by_fqdn rt) f \<and> \<not> hm_contains (by_fqdn rt') f}"
    unfolding a r rt' poll_contains poll_added poll_removed by blast+
  show ?thesis
    using new old diff by (simp add: rt' poll_contains poll_by_app split: option.split)
qed

theorem apply_poll_snapshot_exact_witness:
  "hm_contains (by_fqdn (snd (apply_poll_snapshot
      [\<lparr>dm_id = ''d1'', dm_tenant_id = ''t_a'', dm_app_name = ''web'', dm_fqdn = ''a.example''\<rparr>] rt_new)))
    ''a.example''"
proof -
  let ?ds = "[\<lparr>dm_id = ''d1'', dm_tenant_id = ''t_a'', dm_app_name = ''web'', dm_fqdn = ''a.example''\<rparr>]"
  obtain added removed rt' where eq: "apply_poll_snapshot ?ds rt_new = ((added, removed), rt')"
    by (metis prod.collapse)
  from apply_poll_snapshot_exact [OF eq] have
    "hm_contains (by_fqdn rt') ''a.example'' \<longleftrightarrow> ''a.example'' \<in> dm_fqdn ` set ?ds"
    by blast
  then show ?thesis unfolding eq by simp
qed

text \<open>A moved domain stays with its old owner. When the control plane reassigns a name
  that is already bound, the poll leaves the old tenant and app in place and reports no change, so
  the requests for the name keep going to the former owner.\<close>

theorem poll_ignores_rebinding:
  assumes "hm_get (by_fqdn rt) f = Some b"
    and "\<lparr>dm_id = i, dm_tenant_id = t, dm_app_name = a, dm_fqdn = f\<rparr> \<in> set ds"
  shows "hm_get (by_fqdn (snd (apply_poll_snapshot ds rt))) f = Some b \<and>
    f \<notin> set (fst (fst (apply_poll_snapshot ds rt))) \<and>
    f \<notin> set (snd (fst (apply_poll_snapshot ds rt)))"
proof -
  from assms(2) have "f \<in> dm_fqdn ` set ds" by force
  with assms(1) show ?thesis
    by (simp add: poll_get poll_added poll_removed hm_contains_def)
qed

theorem poll_ignores_rebinding_witness:
  "fb_tenant_id (the (hm_get (by_fqdn (snd (apply_poll_snapshot
      [\<lparr>dm_id = ''d1'', dm_tenant_id = ''t_b'', dm_app_name = ''shop'', dm_fqdn = ''a.example''\<rparr>]
      (rt_register_fqdn ''a.example'' ''t_a'' ''web'' rt_new)))) ''a.example'')) = ''t_a''"
  by (subst poll_ignores_rebinding
      [where b = "\<lparr>fb_tenant_id = ''t_a'', fb_app_name = ''web'', fb_fqdn = ''a.example''\<rparr>"
        and i = "''d1''" and t = "''t_b''" and a = "''shop''", THEN conjunct1])
    (simp_all add: rt_register_fqdn_def rt_new_def)

text \<open>A running route survives what does not concern it. After the heartbeat of a running
  deployment its route is there with the address and port it reported, and any sequence of other
  operations leaves it unchanged as long as none names its key, its worker stays, and every prune
  comes before the stale timeout has passed.\<close>

theorem rt_upsert_survives:
  assumes "rt_inv rt"
    and "\<forall>op \<in> set ops. http.spares (upsert_entry now t a did w addr port ''running'') op"
  shows "rt_lookup (fold http.store_step ops (rt_upsert now t a did w addr port ''running'' rt))
      \<lparr>ak_tenant_id = t, ak_app_name = a, ak_deployment_id = did\<rparr> =
    Some \<lparr>re_tenant_id = t, re_app_name = a, re_deployment_id = did, re_weight = w,
          re_worker_addr = addr, re_port = port, re_rate_limit_rps = None,
          re_rate_limit_burst = None, re_last_seen = now\<rparr>"
  using http.upsert_survives [OF assms]
  by (simp add: rt_upsert_put routable_def upsert_entry_def entry_key_def)

theorem rt_upsert_survives_witness:
  "rt_lookup (snd (rt_remove_stale (secs 90) (secs 60) (snd (rt_remove_worker ''10.0.0.9''
      (rt_upsert (secs 40) ''t_a'' ''web'' None 100 ''10.0.0.5'' 8081 ''running'' rt_new)))))
      \<lparr>ak_tenant_id = ''t_a'', ak_app_name = ''web'', ak_deployment_id = None\<rparr> =
    Some \<lparr>re_tenant_id = ''t_a'', re_app_name = ''web'', re_deployment_id = None, re_weight = 100,
          re_worker_addr = ''10.0.0.5'', re_port = 8081, re_rate_limit_rps = None,
          re_rate_limit_burst = None, re_last_seen = secs 40\<rparr>"
  using rt_upsert_survives [where rt = rt_new and now = "secs 40" and t = "''t_a''" and a = "''web''"
      and did = None and w = 100 and addr = "''10.0.0.5''" and port = 8081
      and ops = "[WorkerGone ''10.0.0.9'', Prune (secs 90) (secs 60)]"]
  by (simp add: upsert_entry_def)

end
