(* ===== verification/Ingress_L4.thy ===== *)
theory Ingress_L4
  imports Ingress_Store
begin

text \<open>
  Layer-4 routing (\<open>edge-ingress/src/l4.rs\<close>): the raw-TCP routing table and the pool of public
  ports the ingress hands out. The port arithmetic is 16 bit, as in the source; \<open>taken\<close> is the
  \<open>HashSet\<close> of held ports and \<open>cooling_down\<close> the list of released ports with the instant at which
  each becomes free again.
\<close>

section \<open>Routing table\<close>

record l4_route_entry =
  le_tenant_id :: string
  le_app_name :: string
  le_public_port :: u16
  le_worker_addr :: string
  le_upstream_port :: u16
  le_last_seen :: instant

definition server_id :: "l4_route_entry \<Rightarrow> string" where
  "server_id e = ''l4_'' @ dec (unat (le_public_port e))"

lemma server_id_inj: "server_id e = server_id e' \<longleftrightarrow> le_public_port e = le_public_port e'"
  by (simp add: server_id_def dec_inj word_unat_eq_iff)

record l4_app_key =
  lk_tenant_id :: string
  lk_app_name :: string

definition l4_app_key_new :: "string \<Rightarrow> string \<Rightarrow> l4_app_key" where
  "l4_app_key_new tenant_id app_name = \<lparr>lk_tenant_id = tenant_id, lk_app_name = app_name\<rparr>"

record l4_routing_table =
  l4_by_app :: "(l4_app_key, l4_route_entry) hashmap"

definition l4_new :: l4_routing_table where
  "l4_new = \<lparr>l4_by_app = []\<rparr>"

definition l4_lookup :: "l4_routing_table \<Rightarrow> string \<Rightarrow> string \<Rightarrow> l4_route_entry option" where
  "l4_lookup t tenant_id app_name = hm_get (l4_by_app t) (l4_app_key_new tenant_id app_name)"

definition l4_remove :: "l4_app_key \<Rightarrow> l4_routing_table \<Rightarrow> l4_routing_table" where
  "l4_remove key t = t\<lparr>l4_by_app := hm_remove key (l4_by_app t)\<rparr>"

definition l4_upsert ::
  "instant \<Rightarrow> string \<Rightarrow> string \<Rightarrow> u16 \<Rightarrow> string \<Rightarrow> u16 \<Rightarrow> string \<Rightarrow> l4_routing_table \<Rightarrow> l4_routing_table" where
  "l4_upsert now tenant_id app_name public_port worker_addr upstream_port status t =
     (let key = l4_app_key_new tenant_id app_name
      in if status \<noteq> ''running'' \<and> status \<noteq> ''draining'' then l4_remove key t
         else t\<lparr>l4_by_app := hm_insert key
                  \<lparr>le_tenant_id = tenant_id, le_app_name = app_name,
                   le_public_port = public_port, le_worker_addr = worker_addr,
                   le_upstream_port = upstream_port, le_last_seen = now\<rparr> (l4_by_app t)\<rparr>)"

definition l4_remove_stale ::
  "instant \<Rightarrow> duration \<Rightarrow> l4_routing_table \<Rightarrow> l4_app_key list \<times> l4_routing_table" where
  "l4_remove_stale now older_than t =
     (let cutoff = now - older_than;
          (stale, inner) = hm_drop_where (\<lambda>e. le_last_seen e < cutoff) (l4_by_app t)
      in (stale, t\<lparr>l4_by_app := inner\<rparr>))"

definition l4_remove_worker ::
  "string \<Rightarrow> l4_routing_table \<Rightarrow> l4_app_key list \<times> l4_routing_table" where
  "l4_remove_worker worker_addr t =
     (let (removed, inner) = hm_drop_where (\<lambda>e. le_worker_addr e = worker_addr) (l4_by_app t)
      in (removed, t\<lparr>l4_by_app := inner\<rparr>))"

definition l4_snapshot :: "l4_routing_table \<Rightarrow> l4_route_entry list" where
  "l4_snapshot t = hm_values (l4_by_app t)"

definition l4_len :: "l4_routing_table \<Rightarrow> nat" where
  "l4_len t = length (l4_by_app t)"

subsection \<open>The table as a route store\<close>

definition l4_key :: "l4_route_entry \<Rightarrow> l4_app_key" where
  "l4_key e = l4_app_key_new (le_tenant_id e) (le_app_name e)"

definition l4_inv :: "l4_routing_table \<Rightarrow> bool" where
  "l4_inv t \<longleftrightarrow> hm_wf (l4_by_app t) \<and> (\<forall>k e. hm_get (l4_by_app t) k = Some e \<longrightarrow> k = l4_key e)"

definition l4_get :: "l4_routing_table \<Rightarrow> l4_app_key \<Rightarrow> l4_route_entry option" where
  "l4_get t k = hm_get (l4_by_app t) k"

definition l4_put :: "bool \<Rightarrow> l4_route_entry \<Rightarrow> l4_routing_table \<Rightarrow> l4_routing_table" where
  "l4_put routable e t =
     (if routable then t\<lparr>l4_by_app := hm_insert (l4_key e) e (l4_by_app t)\<rparr>
      else l4_remove (l4_key e) t)"

definition l4_entry ::
  "instant \<Rightarrow> string \<Rightarrow> string \<Rightarrow> u16 \<Rightarrow> string \<Rightarrow> u16 \<Rightarrow> l4_route_entry" where
  "l4_entry now tenant_id app_name public_port worker_addr upstream_port =
     \<lparr>le_tenant_id = tenant_id, le_app_name = app_name, le_public_port = public_port,
      le_worker_addr = worker_addr, le_upstream_port = upstream_port, le_last_seen = now\<rparr>"

lemma l4_upsert_put:
  "l4_upsert now tn a pp addr up status t =
     l4_put (status = ''running'' \<or> status = ''draining'') (l4_entry now tn a pp addr up) t"
  by (auto simp: l4_upsert_def l4_put_def l4_entry_def l4_key_def Let_def)

lemma l4_by_app_stale:
  "l4_by_app (snd (l4_remove_stale now d t)) =
     snd (hm_drop_where (\<lambda>e. le_last_seen e < now - d) (l4_by_app t))"
  "fst (l4_remove_stale now d t) =
     fst (hm_drop_where (\<lambda>e. le_last_seen e < now - d) (l4_by_app t))"
  by (simp_all add: l4_remove_stale_def Let_def split: prod.splits)

lemma l4_by_app_worker:
  "l4_by_app (snd (l4_remove_worker w t)) =
     snd (hm_drop_where (\<lambda>e. le_worker_addr e = w) (l4_by_app t))"
  "fst (l4_remove_worker w t) = fst (hm_drop_where (\<lambda>e. le_worker_addr e = w) (l4_by_app t))"
  by (simp_all add: l4_remove_worker_def split: prod.splits)

lemmas l4_simps = l4_inv_def l4_get_def l4_put_def l4_remove_def l4_snapshot_def
  l4_by_app_stale l4_by_app_worker hm_drop_where_keys hm_get_drop_where

interpretation l4: route_store l4_get l4_snapshot l4_put l4_remove l4_remove_stale
  l4_remove_worker l4_key le_worker_addr le_last_seen l4_inv
proof (unfold_locales, goal_cases)
  case (5 s e)
  then show ?case by (auto simp: l4_simps hm_values_iff)
qed (auto simp: l4_simps split: option.splits if_splits)

lemma l4_inv_new [simp, intro]: "l4_inv l4_new"
  by (simp add: l4_inv_def l4_new_def)

lemma l4_inv_upsert: "l4_inv t \<Longrightarrow> l4_inv (l4_upsert now tn a pp addr up st t)"
  by (simp add: l4_upsert_put l4.inv_upsert)

lemmas l4_inv_ops = l4_inv_upsert l4.inv_remove l4.inv_stale l4.inv_worker

lemma l4_lookup_get: "l4_lookup t tn a = l4_get t (l4_app_key_new tn a)"
  by (simp add: l4_lookup_def l4_get_def)

section \<open>Public-port pool\<close>

record l4_port_pool =
  lp_next_port :: u16
  lp_start :: u16
  lp_end :: u16
  lp_cooldown_secs :: u64
  lp_cooling_down :: "(u16 \<times> instant) list"
  lp_taken :: "u16 set"

definition lp_new :: "u16 \<Rightarrow> u16 \<Rightarrow> u64 \<Rightarrow> l4_port_pool" where
  "lp_new start end' cooldown_secs =
     \<lparr>lp_next_port = start, lp_start = start, lp_end = end', lp_cooldown_secs = cooldown_secs,
      lp_cooling_down = [], lp_taken = {}\<rparr>"

definition lp_reap_cooled_ports :: "instant \<Rightarrow> l4_port_pool \<Rightarrow> l4_port_pool" where
  "lp_reap_cooled_ports now p =
     p\<lparr>lp_cooling_down := filter (\<lambda>(_, release_time). \<not> now \<ge> release_time) (lp_cooling_down p)\<rparr>"

definition lp_is_in_cooldown :: "l4_port_pool \<Rightarrow> u16 \<Rightarrow> bool" where
  "lp_is_in_cooldown p port = list_ex (\<lambda>(q, _). q = port) (lp_cooling_down p)"

text \<open>\<open>acquire\<close>: a full range worth of attempts. The number counts the attempts left, so that
  the loop \<open>while attempts < range_len\<close> is structural.\<close>

fun lp_acquire_loop :: "nat \<Rightarrow> l4_port_pool \<Rightarrow> u16 option \<times> l4_port_pool" where
  "lp_acquire_loop 0 p = (None, p)"
| "lp_acquire_loop (Suc n) p =
     (let port = lp_next_port p;
          p' = p\<lparr>lp_next_port := if lp_next_port p \<ge> lp_end p then lp_start p
                                  else lp_next_port p + 1\<rparr>
      in if port \<in> lp_taken p' then lp_acquire_loop n p'
         else if lp_is_in_cooldown p' port then lp_acquire_loop n p'
         else (Some port, p'\<lparr>lp_taken := insert port (lp_taken p')\<rparr>))"

definition lp_acquire :: "instant \<Rightarrow> l4_port_pool \<Rightarrow> u16 option \<times> l4_port_pool" where
  "lp_acquire now p =
     (let p = lp_reap_cooled_ports now p;
          range_len = unat (lp_end p - lp_start p + 1)
      in lp_acquire_loop range_len p)"

definition lp_release :: "instant \<Rightarrow> u16 \<Rightarrow> l4_port_pool \<Rightarrow> l4_port_pool" where
  "lp_release now port p =
     (if lp_is_in_cooldown p port then p
      else if port \<notin> lp_taken p then p
      else let p = p\<lparr>lp_taken := lp_taken p - {port}\<rparr>;
               release_time = now + secs (unat (lp_cooldown_secs p))
           in p\<lparr>lp_cooling_down := lp_cooling_down p @ [(port, release_time)]\<rparr>)"

definition lp_taken_count :: "l4_port_pool \<Rightarrow> nat" where
  "lp_taken_count p = card (lp_taken p)"


subsection \<open>The order in which the pool walks its range\<close>

definition lp_succ :: "u16 \<Rightarrow> u16 \<Rightarrow> u16 \<Rightarrow> u16" where
  "lp_succ s e x = (if x \<ge> e then s else x + 1)"

definition lp_busy :: "l4_port_pool \<Rightarrow> u16 \<Rightarrow> bool" where
  "lp_busy p q \<longleftrightarrow> q \<in> lp_taken p \<or> lp_is_in_cooldown p q"

definition lp_range :: "l4_port_pool \<Rightarrow> u16 set" where
  "lp_range p = {lp_start p..lp_end p}"

lemma lp_busy_next [simp]: "lp_busy (p\<lparr>lp_next_port := x\<rparr>) = lp_busy p"
  by (auto simp: lp_busy_def lp_is_in_cooldown_def fun_eq_iff)

lemma lp_acquire_loop_Suc:
  "lp_acquire_loop (Suc n) p =
     (let p' = p\<lparr>lp_next_port := lp_succ (lp_start p) (lp_end p) (lp_next_port p)\<rparr>
      in if lp_busy p (lp_next_port p) then lp_acquire_loop n p'
         else (Some (lp_next_port p), p'\<lparr>lp_taken := insert (lp_next_port p) (lp_taken p)\<rparr>))"
  by (auto simp: Let_def lp_succ_def lp_busy_def lp_is_in_cooldown_def)

declare lp_acquire_loop.simps(2) [simp del]

lemma lp_acquire_loop_None:
  "lp_acquire_loop n p = (None, p') \<Longrightarrow>
     (\<forall>i < n. lp_busy p ((lp_succ (lp_start p) (lp_end p) ^^ i) (lp_next_port p))) \<and>
     p' = p\<lparr>lp_next_port := (lp_succ (lp_start p) (lp_end p) ^^ n) (lp_next_port p)\<rparr>"
proof (induction n arbitrary: p)
  case 0
  then show ?case by simp
next
  case (Suc n)
  let ?f = "lp_succ (lp_start p) (lp_end p)"
  from Suc.prems have busy: "lp_busy p (lp_next_port p)"
    and rec: "lp_acquire_loop n (p\<lparr>lp_next_port := ?f (lp_next_port p)\<rparr>) = (None, p')"
    by (auto simp: lp_acquire_loop_Suc Let_def split: if_splits)
  from Suc.IH [OF rec] have
    ih: "\<forall>i < n. lp_busy p ((?f ^^ Suc i) (lp_next_port p))"
    and p': "p' = p\<lparr>lp_next_port := (?f ^^ Suc n) (lp_next_port p)\<rparr>"
    by (simp_all add: funpow_swap1)
  from busy ih have "\<forall>i < Suc n. lp_busy p ((?f ^^ i) (lp_next_port p))"
    by (metis Suc_less_eq funpow_0 not0_implies_Suc)
  with p' show ?case by simp
qed

lemma lp_acquire_loop_Some:
  "lp_acquire_loop n p = (Some q, p') \<Longrightarrow>
     (\<exists>i < n. q = (lp_succ (lp_start p) (lp_end p) ^^ i) (lp_next_port p)) \<and> \<not> lp_busy p q \<and>
     p' = p\<lparr>lp_next_port := lp_succ (lp_start p) (lp_end p) q, lp_taken := insert q (lp_taken p)\<rparr>"
proof (induction n arbitrary: p)
  case 0
  then show ?case by simp
next
  case (Suc n)
  let ?f = "lp_succ (lp_start p) (lp_end p)"
  show ?case
  proof (cases "lp_busy p (lp_next_port p)")
    case True
    with Suc.prems have "lp_acquire_loop n (p\<lparr>lp_next_port := ?f (lp_next_port p)\<rparr>) = (Some q, p')"
      by (simp add: lp_acquire_loop_Suc Let_def)
    from Suc.IH [OF this] obtain i where "i < n" "q = (?f ^^ Suc i) (lp_next_port p)"
      and rest: "\<not> lp_busy p q"
        "p' = p\<lparr>lp_next_port := ?f q, lp_taken := insert q (lp_taken p)\<rparr>"
      by (auto simp: funpow_swap1)
    then show ?thesis by (metis Suc_less_eq)
  next
    case False
    with Suc.prems have "q = lp_next_port p"
      and "p' = p\<lparr>lp_next_port := ?f q, lp_taken := insert q (lp_taken p)\<rparr>"
      by (auto simp: lp_acquire_loop_Suc Let_def)
    with False show ?thesis by (auto intro: exI [of _ 0])
  qed
qed

lemma unat_lp_succ:
  assumes "s \<le> x" and "x \<le> e"
  shows "unat (lp_succ s e x) = (if unat x = unat e then unat s else unat x + 1)"
proof (cases "x = e")
  case True
  then show ?thesis by (simp add: lp_succ_def)
next
  case False
  with assms(2) have lt: "unat x < unat e"
    by (simp add: word_le_nat_alt word_unat_eq_iff)
  moreover have "unat e < 65536" using unsigned_less [of e] by simp
  ultimately show ?thesis
    by (simp add: lp_succ_def word_le_nat_alt unat_word_ariths)
qed

lemma lp_succ_range:
  assumes "s \<le> x" and "x \<le> e"
  shows "s \<le> lp_succ s e x \<and> lp_succ s e x \<le> e"
  using assms unat_lp_succ [OF assms] by (auto simp: word_le_nat_alt split: if_splits)

lemma lp_succ_funpow:
  assumes "s \<le> x" and "x \<le> e"
  shows "s \<le> (lp_succ s e ^^ i) x \<and> (lp_succ s e ^^ i) x \<le> e \<and>
    unat ((lp_succ s e ^^ i) x) = unat s + (unat x - unat s + i) mod (unat e - unat s + 1)"
proof (induction i)
  case 0
  from assms show ?case by (simp add: word_le_nat_alt)
next
  case (Suc i)
  let ?y = "(lp_succ s e ^^ i) x" and ?n = "unat e - unat s + 1"
  let ?k = "(unat x - unat s + i) mod ?n"
  from Suc.IH have y: "s \<le> ?y" "?y \<le> e" and uy: "unat ?y = unat s + ?k" by auto
  from assms have se: "unat s \<le> unat e" by (simp add: word_le_nat_alt)
  have "(unat x - unat s + Suc i) mod ?n = (if Suc ?k = ?n then 0 else Suc ?k)"
    by (simp add: mod_Suc)
  moreover have "unat (lp_succ s e ?y) = (if Suc ?k = ?n then unat s else unat s + Suc ?k)"
    using unat_lp_succ [OF y] uy se by auto
  ultimately show ?case using lp_succ_range [OF y] by simp
qed

text \<open>Walking a full range worth of ports visits every port of the range.\<close>

lemma lp_walk_covers:
  assumes "s \<le> x" and "x \<le> e" and "s \<le> q" and "q \<le> e"
  shows "\<exists>i < unat e - unat s + 1. (lp_succ s e ^^ i) x = q"
proof -
  let ?n = "unat e - unat s + 1"
  define i where "i = (if unat x \<le> unat q then unat q - unat x else unat q + ?n - unat x)"
  from assms have b: "unat s \<le> unat x" "unat x \<le> unat e" "unat s \<le> unat q" "unat q \<le> unat e"
    by (simp_all add: word_le_nat_alt)
  have "i < ?n" using b by (auto simp: i_def)
  moreover have "(unat x - unat s + i) mod ?n = unat q - unat s"
  proof (cases "unat x \<le> unat q")
    case True
    with b have "unat x - unat s + i = unat q - unat s" by (simp add: i_def)
    with b show ?thesis by simp
  next
    case False
    with b have "unat x - unat s + i = (unat q - unat s) + ?n" by (simp add: i_def)
    with b show ?thesis by (metis Suc_eq_plus1 le_imp_less_Suc diff_le_mono mod_add_self2 mod_less)
  qed
  ultimately show ?thesis
    using lp_succ_funpow [OF assms(1,2), of i] b by (auto simp: word_unat_eq_iff)
qed


subsection \<open>Invariant of the pool\<close>

definition lp_inv :: "l4_port_pool \<Rightarrow> bool" where
  "lp_inv p \<longleftrightarrow>
     lp_start p \<noteq> 0 \<and> lp_start p \<le> lp_next_port p \<and> lp_next_port p \<le> lp_end p \<and>
     lp_taken p \<subseteq> lp_range p \<and>
     (\<forall>q \<in> lp_taken p. \<not> lp_is_in_cooldown p q)"

lemma lp_cooldown_iff: "lp_is_in_cooldown p q \<longleftrightarrow> (\<exists>t. (q, t) \<in> set (lp_cooling_down p))"
  by (auto simp: lp_is_in_cooldown_def list_ex_iff)

lemma lp_inv_new: "s \<noteq> 0 \<Longrightarrow> s \<le> e \<Longrightarrow> lp_inv (lp_new s e cd)"
  by (simp add: lp_inv_def lp_new_def)

lemma lp_reap_sel [simp]:
  "lp_next_port (lp_reap_cooled_ports now p) = lp_next_port p"
  "lp_start (lp_reap_cooled_ports now p) = lp_start p"
  "lp_end (lp_reap_cooled_ports now p) = lp_end p"
  "lp_taken (lp_reap_cooled_ports now p) = lp_taken p"
  "lp_cooldown_secs (lp_reap_cooled_ports now p) = lp_cooldown_secs p"
  "lp_range (lp_reap_cooled_ports now p) = lp_range p"
  "lp_is_in_cooldown (lp_reap_cooled_ports now p) q \<longleftrightarrow>
     (\<exists>t. (q, t) \<in> set (lp_cooling_down p) \<and> now < t)"
  by (auto simp: lp_reap_cooled_ports_def lp_range_def lp_cooldown_iff)

lemma lp_inv_reap: "lp_inv p \<Longrightarrow> lp_inv (lp_reap_cooled_ports now p)"
  by (auto simp: lp_inv_def lp_cooldown_iff [of p])

lemma lp_range_len:
  assumes "lp_inv p"
  shows "unat (lp_end p - lp_start p + 1) = unat (lp_end p) - unat (lp_start p) + 1"
proof -
  let ?s = "lp_start p" and ?e = "lp_end p"
  from assms have le: "?s \<le> ?e" and pos: "0 < unat ?s"
    by (auto simp: lp_inv_def unat_gt_0 intro: order_trans)
  have "unat (?e - ?s) = unat ?e - unat ?s" using le by (rule unat_sub)
  moreover have "unat ?e < 65536" using unsigned_less [of ?e] by simp
  ultimately show ?thesis using pos by (simp add: unat_word_ariths)
qed

lemma lp_acquire_unfold:
  assumes "lp_inv p"
  shows "lp_acquire now p =
    lp_acquire_loop (unat (lp_end p) - unat (lp_start p) + 1) (lp_reap_cooled_ports now p)"
  by (simp add: lp_acquire_def Let_def lp_range_len [OF assms])

lemma lp_acquire_SomeD:
  assumes "lp_inv p" and "lp_acquire now p = (Some q, p')"
  shows "q \<in> lp_range p" and "\<not> lp_busy (lp_reap_cooled_ports now p) q"
    and "p' = (lp_reap_cooled_ports now p)
           \<lparr>lp_next_port := lp_succ (lp_start p) (lp_end p) q, lp_taken := insert q (lp_taken p)\<rparr>"
proof -
  note s = lp_acquire_loop_Some [OF assms(2) [unfolded lp_acquire_unfold [OF assms(1)]]]
  from s obtain i where "q = (lp_succ (lp_start p) (lp_end p) ^^ i) (lp_next_port p)" by auto
  with assms(1) show "q \<in> lp_range p"
    using lp_succ_funpow [of "lp_start p" "lp_next_port p" "lp_end p" i]
    by (auto simp: lp_inv_def lp_range_def)
  from s show "\<not> lp_busy (lp_reap_cooled_ports now p) q"
    "p' = (lp_reap_cooled_ports now p)
       \<lparr>lp_next_port := lp_succ (lp_start p) (lp_end p) q, lp_taken := insert q (lp_taken p)\<rparr>"
    by auto
qed

lemma lp_acquire_NoneD:
  assumes "lp_inv p" and "lp_acquire now p = (None, p')"
  shows "\<forall>q \<in> lp_range p. lp_busy (lp_reap_cooled_ports now p) q"
    and "\<exists>x. p' = (lp_reap_cooled_ports now p)\<lparr>lp_next_port := x\<rparr> \<and> lp_start p \<le> x \<and> x \<le> lp_end p"
proof -
  note s = lp_acquire_loop_None [OF assms(2) [unfolded lp_acquire_unfold [OF assms(1)]]]
  from assms(1) have r: "lp_start p \<le> lp_next_port p" "lp_next_port p \<le> lp_end p"
    by (auto simp: lp_inv_def)
  show "\<forall>q \<in> lp_range p. lp_busy (lp_reap_cooled_ports now p) q"
    using s lp_walk_covers [OF r] by (fastforce simp: lp_range_def)
  show "\<exists>x. p' = (lp_reap_cooled_ports now p)\<lparr>lp_next_port := x\<rparr> \<and> lp_start p \<le> x \<and> x \<le> lp_end p"
    using s lp_succ_funpow [OF r, of "unat (lp_end p) - unat (lp_start p) + 1"]
    unfolding lp_reap_sel by blast
qed

lemma lp_inv_acquire:
  assumes "lp_inv p" and "lp_acquire now p = (r, p')"
  shows "lp_inv p'"
proof (cases r)
  case None
  with lp_acquire_NoneD [of p now p'] lp_inv_reap [OF assms(1), of now] assms show ?thesis
    by (auto simp: lp_inv_def lp_range_def lp_is_in_cooldown_def)
next
  case (Some q)
  from assms Some have a: "lp_acquire now p = (Some q, p')" by simp
  from lp_acquire_SomeD [OF assms(1) a] lp_inv_reap [OF assms(1), of now]
    lp_succ_range [of "lp_start p" q "lp_end p"]
  show ?thesis
    by (auto simp: lp_inv_def lp_range_def lp_is_in_cooldown_def lp_busy_def)
qed

lemma lp_inv_release: "lp_inv p \<Longrightarrow> lp_inv (lp_release now q p)"
  by (auto simp: lp_inv_def lp_release_def Let_def lp_range_def lp_is_in_cooldown_def)

lemma lp_release_sel [simp]:
  "lp_start (lp_release now q p) = lp_start p"
  "lp_end (lp_release now q p) = lp_end p"
  "lp_range (lp_release now q p) = lp_range p"
  by (simp_all add: lp_release_def Let_def lp_range_def)

lemma lp_release_taken: "lp_inv p \<Longrightarrow> lp_taken (lp_release now q p) = lp_taken p - {q}"
  by (auto simp: lp_inv_def lp_release_def Let_def)

section \<open>The contract of a port pool\<close>

text \<open>What the heartbeat code relies on: an acquired port lies in the range and was not held, a
  release gives back that port only.

  The client's side is \<open>hold_ok\<close>: a set of holders (routes) whose ports are pairwise different,
  each taken from the pool or assigned from outside (\<open>ext\<close>). \<open>ext_ok\<close> says what keeps the
  outside assignment apart from the pool: its ports are not in the pool's range, and two holders
  with the same outside port have the same key.\<close>

locale port_pool =
  fixes acquire :: "instant \<Rightarrow> 'p \<Rightarrow> 'w option \<times> 'p"
    and release :: "instant \<Rightarrow> 'w \<Rightarrow> 'p \<Rightarrow> 'p"
    and taken :: "'p \<Rightarrow> 'w set"
    and range :: "'p \<Rightarrow> 'w set"
    and inv :: "'p \<Rightarrow> bool"
  assumes acquire_Some: "inv p \<Longrightarrow> acquire now p = (Some q, p') \<Longrightarrow>
            q \<in> range p \<and> q \<notin> taken p \<and> taken p' = insert q (taken p)"
    and acquire_None: "inv p \<Longrightarrow> acquire now p = (None, p') \<Longrightarrow> taken p' = taken p"
    and acquire_range: "inv p \<Longrightarrow> range (snd (acquire now p)) = range p"
    and release_taken: "inv p \<Longrightarrow> taken (release now q p) = taken p - {q}"
    and release_range: "range (release now q p) = range p"
    and taken_range: "inv p \<Longrightarrow> taken p \<subseteq> range p"
    and inv_acquire: "inv p \<Longrightarrow> inv (snd (acquire now p))"
    and inv_release: "inv p \<Longrightarrow> inv (release now q p)"
begin

lemma inv_release_all: "inv p \<Longrightarrow> inv (fold (release now) rs p)"
  by (induction rs arbitrary: p) (auto intro: inv_release)

lemma taken_release_all: "inv p \<Longrightarrow> taken (fold (release now) rs p) = taken p - set rs"
  by (induction rs arbitrary: p) (auto simp: release_taken inv_release)

lemma range_release_all: "range (fold (release now) rs p) = range p"
  by (induction rs arbitrary: p) (auto simp: release_range)

definition hold_ok :: "('h \<Rightarrow> 'w) \<Rightarrow> ('h \<Rightarrow> 'w option) \<Rightarrow> 'h set \<Rightarrow> 'p \<Rightarrow> bool" where
  "hold_ok f ext H p \<longleftrightarrow>
     inv p \<and> inj_on f H \<and> (\<forall>h \<in> H. f h \<in> taken p \<or> ext h = Some (f h))"

definition ext_ok :: "('h \<Rightarrow> 'k) \<Rightarrow> ('h \<Rightarrow> 'w option) \<Rightarrow> 'p \<Rightarrow> bool" where
  "ext_ok key ext p \<longleftrightarrow>
     (\<forall>h w. ext h = Some w \<longrightarrow> w \<notin> range p) \<and>
     (\<forall>h h' w. ext h = Some w \<and> ext h' = Some w \<longrightarrow> key h = key h')"

lemma hold_empty: "inv p \<Longrightarrow> hold_ok f ext {} p"
  by (simp add: hold_ok_def)

lemma hold_subset: "hold_ok f ext H p \<Longrightarrow> H' \<subseteq> H \<Longrightarrow> hold_ok f ext H' p"
  by (auto simp: hold_ok_def intro: inj_on_subset)

lemma hold_acquire:
  assumes "hold_ok f ext H p" and "ext_ok key ext p" and "acquire now p = (Some (f h), p')"
  shows "hold_ok f ext (insert h H) p'"
proof -
  from assms(1) have inv: "inv p" by (simp add: hold_ok_def)
  from acquire_Some [OF inv assms(3)] have q: "f h \<in> range p" "f h \<notin> taken p"
    "taken p' = insert (f h) (taken p)" by auto
  from assms(1,2) q(1,2) have "f h \<notin> f ` H"
    by (auto simp: hold_ok_def ext_ok_def)
  with assms(1) q(3) inv_acquire [OF inv, of now] assms(3) show ?thesis
    by (auto simp: hold_ok_def)
qed

lemma hold_acquire_None:
  assumes "hold_ok f ext H p" and "acquire now p = (None, p')"
  shows "hold_ok f ext H p'"
  using assms acquire_None [of p now p'] inv_acquire [of p now] by (auto simp: hold_ok_def)

lemma hold_external:
  assumes "hold_ok f ext H p" and "ext_ok key ext p" and "ext h = Some (f h)"
    and "\<forall>h' \<in> H. key h' \<noteq> key h"
  shows "hold_ok f ext (insert h H) p"
proof -
  from assms(1) have "taken p \<subseteq> range p" by (simp add: hold_ok_def taken_range)
  with assms have "f h \<notin> f ` H"
    unfolding hold_ok_def ext_ok_def by (metis imageE subsetD)
  with assms(1,3) show ?thesis by (auto simp: hold_ok_def)
qed

lemma hold_refresh:
  assumes "hold_ok f ext H p" and "h0 \<in> H" and "f h = f h0" and "ext h = ext h0"
  shows "hold_ok f ext (insert h (H - {h0})) p"
  using assms unfolding hold_ok_def by (auto simp: inj_on_def)

lemma hold_release_all:
  assumes "hold_ok f ext H p" and "H' \<subseteq> H" and "\<forall>h \<in> H'. f h \<notin> set rs"
  shows "hold_ok f ext H' (fold (release now) rs p)"
  using assms by (auto simp: hold_ok_def inv_release_all taken_release_all intro: inj_on_subset)

end

interpretation lp: port_pool lp_acquire lp_release lp_taken lp_range lp_inv
proof (unfold_locales, goal_cases)
  case (1 p now q p')
  then show ?case using lp_acquire_SomeD [OF 1] by (auto simp: lp_busy_def)
next
  case (2 p now p')
  then show ?case using lp_acquire_NoneD(2) [OF 2] by auto
next
  case (3 p now)
  show ?case
  proof (cases "fst (lp_acquire now p)")
    case None
    then show ?thesis using lp_acquire_NoneD(2) [OF 3, of now "snd (lp_acquire now p)"]
      by (cases "lp_acquire now p") (auto simp: lp_range_def)
  next
    case (Some q)
    then show ?thesis using lp_acquire_SomeD(3) [OF 3, of now q "snd (lp_acquire now p)"]
      by (cases "lp_acquire now p") (auto simp: lp_range_def)
  qed
next
  case (6 p)
  then show ?case by (simp add: lp_inv_def)
next
  case (7 p now)
  then show ?case by (metis lp_inv_acquire prod.collapse)
qed (simp_all add: lp_release_taken lp_inv_release)


section \<open>Properties of the pool\<close>

text \<open>\<open>L4PortPool::acquire\<close> is exact. A returned port lies in the configured
  range, was neither held nor inside its cooldown window, and is held afterwards. \<open>None\<close> is
  returned only when every port of the range is held or still cooling down: the walk misses no
  port.\<close>

theorem lp_acquire_exact:
  assumes "lp_inv p"
  shows "case lp_acquire now p of
      (Some q, p') \<Rightarrow>
        q \<in> lp_range p \<and> q \<notin> lp_taken p \<and>
        \<not> (\<exists>t. (q, t) \<in> set (lp_cooling_down p) \<and> now < t) \<and>
        lp_taken p' = insert q (lp_taken p) \<and> lp_inv p'
    | (None, p') \<Rightarrow>
        (\<forall>q \<in> lp_range p. q \<in> lp_taken p \<or> (\<exists>t. (q, t) \<in> set (lp_cooling_down p) \<and> now < t)) \<and>
        lp_taken p' = lp_taken p \<and> lp_inv p'"
proof (cases "lp_acquire now p")
  case (Pair r p')
  show ?thesis
  proof (cases r)
    case None
    with Pair lp_acquire_NoneD [OF assms, of now p'] lp_inv_acquire [OF assms Pair] show ?thesis
      by (auto simp: lp_busy_def)
  next
    case (Some q)
    with Pair lp_acquire_SomeD [OF assms, of now q p'] lp_inv_acquire [OF assms Pair] show ?thesis
      by (auto simp: lp_busy_def)
  qed
qed

lemma lp_acquire_loop_numeral:
  "lp_acquire_loop (numeral k) p =
     (let p' = p\<lparr>lp_next_port := lp_succ (lp_start p) (lp_end p) (lp_next_port p)\<rparr>
      in if lp_busy p (lp_next_port p) then lp_acquire_loop (pred_numeral k) p'
         else (Some (lp_next_port p), p'\<lparr>lp_taken := insert (lp_next_port p) (lp_taken p)\<rparr>))"
  by (simp add: numeral_eq_Suc lp_acquire_loop_Suc)

lemmas lp_eval = lp_acquire_def lp_reap_cooled_ports_def lp_new_def lp_release_def
  lp_is_in_cooldown_def lp_acquire_loop_numeral lp_busy_def lp_succ_def Let_def

theorem lp_acquire_exact_witness:
  "lp_inv (lp_new 31000 31001 60) \<and>
   (case lp_acquire 5 (lp_new 31000 31001 60) of
      (Some q, p') \<Rightarrow> q \<in> lp_range (lp_new 31000 31001 60) \<and> lp_taken p' = {q}
    | (None, p') \<Rightarrow> False)"
proof -
  have inv: "lp_inv (lp_new 31000 31001 60)" by (rule lp_inv_new) simp_all
  have "fst (lp_acquire 5 (lp_new 31000 31001 60)) = Some 31000"
    by (simp add: lp_eval)
  with inv lp_acquire_exact [OF inv, of 5] show ?thesis
    by (auto simp: lp_new_def split: prod.splits option.splits)
qed

text \<open>Runs of the pool, with the ports it handed out.\<close>

datatype pool_op = Acquire instant | Release instant u16

fun op_time :: "pool_op \<Rightarrow> instant" where
  "op_time (Acquire now) = now"
| "op_time (Release now _) = now"

fun lp_run :: "pool_op list \<Rightarrow> l4_port_pool \<Rightarrow> u16 list \<times> l4_port_pool" where
  "lp_run [] p = ([], p)"
| "lp_run (Acquire now # ops) p =
     (case lp_acquire now p of
        (Some q, p') \<Rightarrow> (case lp_run ops p' of (qs, p'') \<Rightarrow> (q # qs, p''))
      | (None, p') \<Rightarrow> lp_run ops p')"
| "lp_run (Release now q # ops) p = lp_run ops (lp_release now q p)"

lemma lp_acquire_keeps_cooling:
  assumes "lp_inv p" and "(q, t) \<in> set (lp_cooling_down p)" and "now < t"
    and "lp_acquire now p = (r, p')"
  shows "r \<noteq> Some q \<and> (q, t) \<in> set (lp_cooling_down p')"
proof -
  from assms(2,3) have in_reap: "(q, t) \<in> set (lp_cooling_down (lp_reap_cooled_ports now p))"
    by (auto simp: lp_reap_cooled_ports_def)
  show ?thesis
  proof (cases r)
    case None
    with assms(4) lp_acquire_NoneD(2) [OF assms(1), of now p'] in_reap show ?thesis by auto
  next
    case (Some x)
    with assms lp_acquire_SomeD [OF assms(1), of now x p'] in_reap show ?thesis
      by (auto simp: lp_busy_def)
  qed
qed

lemma lp_release_keeps_cooling:
  "(q, t) \<in> set (lp_cooling_down p) \<Longrightarrow> (q, t) \<in> set (lp_cooling_down (lp_release now x p))"
  by (auto simp: lp_release_def Let_def)

lemma lp_run_cooling:
  "lp_inv p \<Longrightarrow> (q, t) \<in> set (lp_cooling_down p) \<Longrightarrow> (\<forall>op \<in> set ops. op_time op < t) \<Longrightarrow>
   q \<notin> set (fst (lp_run ops p))"
proof (induction ops p rule: lp_run.induct)
  case (2 now ops p)
  obtain r p' where a: "lp_acquire now p = (r, p')" by (cases "lp_acquire now p")
  from "2.prems" lp_acquire_keeps_cooling [OF "2.prems"(1,2) _ a] lp_inv_acquire [OF _ a]
  have "r \<noteq> Some q" "(q, t) \<in> set (lp_cooling_down p')" "lp_inv p'" by auto
  with "2.IH" "2.prems"(3) a show ?case
    by (cases r) (auto split: prod.splits)
next
  case (3 now x ops p)
  then show ?case by (auto intro: lp_inv_release lp_release_keeps_cooling)
qed simp

text \<open>No reuse within the cooldown. A released port is not handed out again before its cooldown has elapsed,
  whatever sequence of acquires and releases (a second release of the same port included)
  happens in between.\<close>

theorem lp_cooldown_no_reuse:
  assumes "lp_inv p" and "q \<in> lp_taken p"
    and "\<forall>op \<in> set ops. op_time op < released + secs (unat (lp_cooldown_secs p))"
  shows "q \<notin> set (fst (lp_run ops (lp_release released q p)))"
proof -
  from assms(1,2) have "\<not> lp_is_in_cooldown p q" by (simp add: lp_inv_def)
  with assms(2) have "(q, released + secs (unat (lp_cooldown_secs p)))
      \<in> set (lp_cooling_down (lp_release released q p))"
    by (simp add: lp_release_def Let_def)
  with assms(3) lp_inv_release [OF assms(1)] show ?thesis by (intro lp_run_cooling)
qed

theorem lp_cooldown_no_reuse_witness:
  "31000 \<notin> set (fst (lp_run [Acquire (secs 5), Release (secs 6) 31000, Acquire (secs 59)]
     (lp_release 0 31000 (snd (lp_acquire 0 (lp_new 31000 31002 60))))))"
proof (rule lp_cooldown_no_reuse)
  show "lp_inv (snd (lp_acquire 0 (lp_new 31000 31002 60)))"
    by (rule lp.inv_acquire) (simp add: lp_inv_new)
qed (simp_all add: lp_eval)

end
