(* ===== verification/Ingress_Caches.thy ===== *)
theory Ingress_Caches
  imports Ingress_Routing Ingress_L4
begin

text \<open>
  The caches the ingress fills from the control plane and the renderer reads:
  per-app rate limits (\<open>ratelimit.rs\<close>), per-tenant caps (\<open>tenant_ratelimit.rs\<close>), quota state
  (\<open>quota.rs\<close>), traffic splits (\<open>traffic.rs\<close>), persisted L4 ports (\<open>l4_cache.rs\<close>), and the
  cross-replica cap received from the sidecar (\<open>global_rps.rs\<close>).

  The HTTP client and the control plane are the argument \<open>http\<close>: from a URL and an optional
  internal token to the outcome of the request. Each key is fetched once per tick, so one
  function describes one tick. The JSON body arrives already decoded, or as a decoding error.

  Every fetcher has the same shape: walk the distinct keys of a routing snapshot and let each
  response set, clear or keep the value of its key. The locale \<open>tick_fetcher\<close> states that once;
  each cache interprets it.
\<close>

section \<open>HTTP outcomes\<close>

datatype 'b http_outcome =
    SendError string
  | Response nat "string + 'b"

type_synonym 'b http = "string \<Rightarrow> string option \<Rightarrow> 'b http_outcome"

definition is_success :: "nat \<Rightarrow> bool" where
  "is_success status \<longleftrightarrow> 200 \<le> status \<and> status < 300"

section \<open>The contract of a fetch tick\<close>

locale tick_fetcher =
  fixes step :: "'key \<Rightarrow> 'n \<times> 'cache \<Rightarrow> 'n \<times> 'cache"
    and lookup :: "'cache \<Rightarrow> 'key \<Rightarrow> 'val option"
    and upd :: "'key \<Rightarrow> 'val option \<Rightarrow> 'val option"
  assumes lookup_step:
    "lookup (snd (step k (n, c))) k' = (if k' = k then upd k (lookup c k) else lookup c k')"
begin

lemma lookup_tick:
  "distinct ks \<Longrightarrow>
   lookup (snd (fold step ks (n, c))) k = (if k \<in> set ks then upd k (lookup c k) else lookup c k)"
proof (induction ks arbitrary: n c)
  case Nil
  then show ?case by simp
next
  case (Cons k0 ks)
  obtain n' c' where s: "step k0 (n, c) = (n', c')" by (cases "step k0 (n, c)")
  have "lookup c' k' = (if k' = k0 then upd k0 (lookup c k0) else lookup c k')" for k'
    using lookup_step [of k0 n c k'] by (simp add: s)
  with Cons show ?case by (auto simp: s)
qed

text \<open>The order in which a tick visits its keys (Rust iterates a \<open>HashSet\<close>) does not matter.\<close>

lemma tick_order_irrelevant:
  assumes "distinct ks" and "distinct ks'" and "set ks = set ks'"
  shows "lookup (snd (fold step ks (n, c))) = lookup (snd (fold step ks' (n', c)))"
  using assms by (auto simp: lookup_tick)

end

text \<open>The key sets the fetchers derive from a routing snapshot.\<close>

definition snapshot_apps :: "route_entry list \<Rightarrow> (string \<times> string) list" where
  "snapshot_apps snap = remdups (map (\<lambda>e. (re_tenant_id e, re_app_name e)) snap)"

definition snapshot_tenants :: "route_entry list \<Rightarrow> string list" where
  "snapshot_tenants snap =
     remdups (map re_tenant_id (filter (\<lambda>e. re_tenant_id e \<noteq> []) snap))"

lemma distinct_snapshot [simp]: "distinct (snapshot_apps s)" "distinct (snapshot_tenants s)"
  by (simp_all add: snapshot_apps_def snapshot_tenants_def)

lemma set_snapshot_apps:
  "set (snapshot_apps s) = (\<lambda>e. (re_tenant_id e, re_app_name e)) ` set s"
  by (simp add: snapshot_apps_def)

lemma set_snapshot_tenants:
  "set (snapshot_tenants s) = {re_tenant_id e | e. e \<in> set s \<and> re_tenant_id e \<noteq> []}"
  by (auto simp: snapshot_tenants_def)

section \<open>Per-app rate limits (ratelimit.rs)\<close>

record rate_limit_entry =
  rl_rps :: u32
  rl_burst :: u32

record rate_limit_cache =
  rl_inner :: "(string \<times> string, rate_limit_entry) hashmap"

definition rl_get :: "rate_limit_cache \<Rightarrow> string \<Rightarrow> string \<Rightarrow> rate_limit_entry option" where
  "rl_get c tenant_id app_name = hm_get (rl_inner c) (tenant_id, app_name)"

definition rl_update :: "string \<Rightarrow> string \<Rightarrow> rate_limit_entry \<Rightarrow> rate_limit_cache \<Rightarrow> rate_limit_cache" where
  "rl_update tenant_id app_name entry c =
     c\<lparr>rl_inner := hm_insert (tenant_id, app_name) entry (rl_inner c)\<rparr>"

datatype fetch_error = Network string | Http nat | Parse string

definition fetch_rate_limit ::
  "rate_limit_entry http \<Rightarrow> string \<Rightarrow> string \<Rightarrow> string \<Rightarrow> string option
    \<Rightarrow> fetch_error + rate_limit_entry option" where
  "fetch_rate_limit http api_url tenant_id app_name internal_token =
     (case http (api_url @ ''/api/v1/internal/rate-limits/'' @ tenant_id @ ''/'' @ app_name)
             internal_token of
        SendError e \<Rightarrow> Inl (Network e)
      | Response status body \<Rightarrow>
          if status = 404 then Inr None
          else if \<not> is_success status then Inl (Http status)
          else case body of
              Inl e \<Rightarrow> Inl (Parse e)
            | Inr b \<Rightarrow>
                if rl_rps b = 0 \<and> rl_burst b = 0 then Inr None
                else Inr (Some \<lparr>rl_rps = rl_rps b, rl_burst = rl_burst b\<rparr>))"

definition rl_tick_step ::
  "rate_limit_entry http \<Rightarrow> string \<Rightarrow> string option \<Rightarrow> string \<times> string
    \<Rightarrow> nat \<times> rate_limit_cache \<Rightarrow> nat \<times> rate_limit_cache" where
  "rl_tick_step http api_url token = (\<lambda>(tenant_id, app_name) (count, cache).
     case fetch_rate_limit http api_url tenant_id app_name token of
       Inr (Some entry) \<Rightarrow> (count + 1, rl_update tenant_id app_name entry cache)
     | Inr None \<Rightarrow>
         (count, cache\<lparr>rl_inner := hm_remove (tenant_id, app_name) (rl_inner cache)\<rparr>)
     | Inl _ \<Rightarrow> (count, cache))"

definition rl_process_tick ::
  "rate_limit_entry http \<Rightarrow> string \<Rightarrow> route_entry list \<Rightarrow> string option
    \<Rightarrow> rate_limit_cache \<Rightarrow> nat \<times> rate_limit_cache" where
  "rl_process_tick http api_url table_snap token cache =
     fold (rl_tick_step http api_url token) (snapshot_apps table_snap) (0, cache)"

definition rl_upd ::
  "rate_limit_entry http \<Rightarrow> string \<Rightarrow> string option \<Rightarrow> string \<times> string
    \<Rightarrow> rate_limit_entry option \<Rightarrow> rate_limit_entry option" where
  "rl_upd http api_url token = (\<lambda>(t, a) old.
     case fetch_rate_limit http api_url t a token of Inr r \<Rightarrow> r | Inl _ \<Rightarrow> old)"

interpretation rl: tick_fetcher "rl_tick_step http api_url token"
  "\<lambda>c (t, a). rl_get c t a" "rl_upd http api_url token" for http api_url token
  by unfold_locales
    (auto simp: rl_tick_step_def rl_upd_def rl_get_def rl_update_def
      split: sum.splits option.splits if_splits)

section \<open>Per-tenant caps (tenant\_ratelimit.rs)\<close>

record tenant_rate_limit_state =
  ts_rps :: u32
  ts_burst :: u32
  ts_concurrent_limit :: u32
  ts_bandwidth_bps :: u64
  ts_fetched_at :: "instant option"

record tenant_rate_limit_cache =
  tc_inner :: "(string, tenant_rate_limit_state) hashmap"

text \<open>The wire shape: signed integers, as the Go control plane emits them.\<close>

record tenant_rate_limit_response =
  tr_rps :: int
  tr_burst :: int
  tr_concurrent_limit :: int
  tr_bandwidth_bps :: int

definition tc_get :: "tenant_rate_limit_cache \<Rightarrow> string \<Rightarrow> tenant_rate_limit_state option" where
  "tc_get c tenant_id = hm_get (tc_inner c) tenant_id"

definition tc_update ::
  "string \<Rightarrow> tenant_rate_limit_state \<Rightarrow> tenant_rate_limit_cache \<Rightarrow> tenant_rate_limit_cache" where
  "tc_update tenant_id state c = c\<lparr>tc_inner := hm_insert tenant_id state (tc_inner c)\<rparr>"

definition tc_remove :: "string \<Rightarrow> tenant_rate_limit_cache \<Rightarrow> tenant_rate_limit_cache" where
  "tc_remove tenant_id c = c\<lparr>tc_inner := hm_remove tenant_id (tc_inner c)\<rparr>"

definition tc_known_tenants :: "tenant_rate_limit_cache \<Rightarrow> string list" where
  "tc_known_tenants c = hm_keys (tc_inner c)"

definition active_caps :: "tenant_rate_limit_cache \<Rightarrow> (string \<times> tenant_rate_limit_state) list" where
  "active_caps c = filter (\<lambda>(_, s). ts_rps s > 0) (tc_inner c)"

definition concurrent_caps :: "tenant_rate_limit_cache \<Rightarrow> (string \<times> tenant_rate_limit_state) list" where
  "concurrent_caps c = filter (\<lambda>(_, s). ts_concurrent_limit s > 0) (tc_inner c)"

definition bandwidth_caps :: "tenant_rate_limit_cache \<Rightarrow> (string \<times> tenant_rate_limit_state) list" where
  "bandwidth_caps c = filter (\<lambda>(_, s). ts_bandwidth_bps s > 0) (tc_inner c)"

definition fetch_tenant_rate_limit ::
  "tenant_rate_limit_response http \<Rightarrow> instant \<Rightarrow> string \<Rightarrow> string \<Rightarrow> string option
    \<Rightarrow> tenant_rate_limit_state option option" where
  "fetch_tenant_rate_limit http now api_url tenant_id internal_token =
     (case http (api_url @ ''/api/v1/internal/rate-limit/'' @ tenant_id) internal_token of
        SendError _ \<Rightarrow> None
      | Response status body \<Rightarrow>
          if status = 404 then Some None
          else if \<not> is_success status then None
          else case body of
              Inl _ \<Rightarrow> None
            | Inr b \<Rightarrow>
                let state = \<lparr>ts_rps = word_of_int (max (tr_rps b) 0),
                             ts_burst = word_of_int (max (tr_burst b) 0),
                             ts_concurrent_limit = word_of_int (max (tr_concurrent_limit b) 0),
                             ts_bandwidth_bps = word_of_int (max (tr_bandwidth_bps b) 0),
                             ts_fetched_at = Some now\<rparr>
                in if ts_rps state = 0 \<and> ts_burst state = 0 \<and> ts_concurrent_limit state = 0
                      \<and> ts_bandwidth_bps state = 0
                   then Some None else Some (Some state))"

definition tc_tick_step ::
  "tenant_rate_limit_response http \<Rightarrow> instant \<Rightarrow> string \<Rightarrow> string option \<Rightarrow> string
    \<Rightarrow> (nat \<times> nat) \<times> tenant_rate_limit_cache \<Rightarrow> (nat \<times> nat) \<times> tenant_rate_limit_cache" where
  "tc_tick_step http now api_url token = (\<lambda>tenant ((fetched, failed), cache).
     case fetch_tenant_rate_limit http now api_url tenant token of
       Some (Some state) \<Rightarrow> ((fetched + 1, failed), tc_update tenant state cache)
     | Some None \<Rightarrow> ((fetched + 1, failed), tc_remove tenant cache)
     | None \<Rightarrow> ((fetched, failed + 1), cache))"

definition tc_process_tick ::
  "tenant_rate_limit_response http \<Rightarrow> instant \<Rightarrow> string \<Rightarrow> route_entry list \<Rightarrow> string option
    \<Rightarrow> tenant_rate_limit_cache \<Rightarrow> (nat \<times> nat) \<times> tenant_rate_limit_cache" where
  "tc_process_tick http now api_url snapshot token cache =
     fold (tc_tick_step http now api_url token) (snapshot_tenants snapshot) ((0, 0), cache)"

definition tc_upd ::
  "tenant_rate_limit_response http \<Rightarrow> instant \<Rightarrow> string \<Rightarrow> string option \<Rightarrow> string
    \<Rightarrow> tenant_rate_limit_state option \<Rightarrow> tenant_rate_limit_state option" where
  "tc_upd http now api_url token tenant old =
     (case fetch_tenant_rate_limit http now api_url tenant token of Some r \<Rightarrow> r | None \<Rightarrow> old)"

interpretation tc: tick_fetcher "tc_tick_step http now api_url token" tc_get
  "tc_upd http now api_url token" for http now api_url token
  by unfold_locales
    (auto simp: tc_tick_step_def tc_upd_def tc_get_def tc_update_def tc_remove_def
      split: option.splits)


section \<open>Quota state (quota.rs)\<close>

record quota_state =
  qs_over_cap :: bool
  qs_locked_until :: "string option"
  qs_fetched_at :: "instant option"

record quota_cache =
  qc_inner :: "(string, quota_state) hashmap"

record quota_response =
  qr_over_cap :: bool
  qr_locked_until :: "string option"

definition qc_get :: "quota_cache \<Rightarrow> string \<Rightarrow> quota_state option" where
  "qc_get c tenant_id = hm_get (qc_inner c) tenant_id"

definition qc_update :: "string \<Rightarrow> quota_state \<Rightarrow> quota_cache \<Rightarrow> quota_cache" where
  "qc_update tenant_id state c = c\<lparr>qc_inner := hm_insert tenant_id state (qc_inner c)\<rparr>"

definition qc_known_tenants :: "quota_cache \<Rightarrow> string list" where
  "qc_known_tenants c = hm_keys (qc_inner c)"

definition is_over_cap :: "quota_cache \<Rightarrow> string \<Rightarrow> bool" where
  "is_over_cap c tenant_id =
     (case hm_get (qc_inner c) tenant_id of Some s \<Rightarrow> qs_over_cap s | None \<Rightarrow> False)"

definition fetch_quota_state ::
  "quota_response http \<Rightarrow> instant \<Rightarrow> string \<Rightarrow> string \<Rightarrow> string option \<Rightarrow> quota_state option" where
  "fetch_quota_state http now api_url tenant_id internal_token =
     (case http (api_url @ ''/api/v1/internal/quota/'' @ tenant_id) internal_token of
        SendError _ \<Rightarrow> None
      | Response status body \<Rightarrow>
          if \<not> is_success status then None
          else case body of
              Inl _ \<Rightarrow> None
            | Inr b \<Rightarrow> Some \<lparr>qs_over_cap = qr_over_cap b, qs_locked_until = qr_locked_until b,
                             qs_fetched_at = Some now\<rparr>)"

definition qc_tick_step ::
  "quota_response http \<Rightarrow> instant \<Rightarrow> string \<Rightarrow> string option \<Rightarrow> string
    \<Rightarrow> (nat \<times> nat) \<times> quota_cache \<Rightarrow> (nat \<times> nat) \<times> quota_cache" where
  "qc_tick_step http now api_url token = (\<lambda>tenant ((fetched, failed), cache).
     case fetch_quota_state http now api_url tenant token of
       Some state \<Rightarrow> ((fetched + 1, failed), qc_update tenant state cache)
     | None \<Rightarrow> ((fetched, failed + 1), cache))"

definition qc_process_tick ::
  "quota_response http \<Rightarrow> instant \<Rightarrow> string \<Rightarrow> route_entry list \<Rightarrow> string option
    \<Rightarrow> quota_cache \<Rightarrow> (nat \<times> nat) \<times> quota_cache" where
  "qc_process_tick http now api_url snapshot token cache =
     fold (qc_tick_step http now api_url token) (snapshot_tenants snapshot) ((0, 0), cache)"

definition qc_upd ::
  "quota_response http \<Rightarrow> instant \<Rightarrow> string \<Rightarrow> string option \<Rightarrow> string
    \<Rightarrow> quota_state option \<Rightarrow> quota_state option" where
  "qc_upd http now api_url token tenant old =
     (case fetch_quota_state http now api_url tenant token of Some s \<Rightarrow> Some s | None \<Rightarrow> old)"

interpretation qc: tick_fetcher "qc_tick_step http now api_url token" qc_get
  "qc_upd http now api_url token" for http now api_url token
  by unfold_locales
    (auto simp: qc_tick_step_def qc_upd_def qc_get_def qc_update_def split: option.splits)

section \<open>Traffic splits (traffic.rs)\<close>

type_synonym deployment_weights = "(string, u8) hashmap"

record traffic_app_key =
  tk_tenant_id :: string
  tk_app_name :: string

record traffic_split_cache =
  tsc_inner :: "(traffic_app_key, deployment_weights) hashmap"
  tsc_fetched_at :: "(traffic_app_key, instant) hashmap"

definition CACHE_TTL :: duration where
  "CACHE_TTL = secs 30"

definition traffic_key :: "string \<Rightarrow> string \<Rightarrow> traffic_app_key" where
  "traffic_key tenant_id app_name = \<lparr>tk_tenant_id = tenant_id, tk_app_name = app_name\<rparr>"

definition tsc_weight :: "traffic_split_cache \<Rightarrow> string \<Rightarrow> string \<Rightarrow> string \<Rightarrow> u8 option" where
  "tsc_weight c tenant_id app_name deployment_id =
     (case hm_get (tsc_inner c) (traffic_key tenant_id app_name) of
        None \<Rightarrow> None
      | Some weights \<Rightarrow> hm_get weights deployment_id)"

definition tsc_has_split :: "instant \<Rightarrow> traffic_split_cache \<Rightarrow> string \<Rightarrow> string \<Rightarrow> bool" where
  "tsc_has_split now c tenant_id app_name =
     (case hm_get (tsc_fetched_at c) (traffic_key tenant_id app_name) of
        Some t \<Rightarrow> elapsed now t < CACHE_TTL
      | None \<Rightarrow> False)"

definition tsc_update ::
  "instant \<Rightarrow> string \<Rightarrow> string \<Rightarrow> deployment_weights \<Rightarrow> traffic_split_cache \<Rightarrow> traffic_split_cache" where
  "tsc_update now tenant_id app_name weights c =
     (let key = traffic_key tenant_id app_name
      in c\<lparr>tsc_inner := hm_insert key weights (tsc_inner c),
           tsc_fetched_at := hm_insert key now (tsc_fetched_at c)\<rparr>)"

definition tsc_evict_stale :: "instant \<Rightarrow> traffic_split_cache \<Rightarrow> traffic_split_cache" where
  "tsc_evict_stale now c =
     (let stale = map fst (filter (\<lambda>(_, t). elapsed now t \<ge> CACHE_TTL) (tsc_fetched_at c))
      in c\<lparr>tsc_inner := hm_remove_all stale (tsc_inner c),
           tsc_fetched_at := hm_remove_all stale (tsc_fetched_at c)\<rparr>)"

definition tsc_known_apps :: "traffic_split_cache \<Rightarrow> (string \<times> string) list" where
  "tsc_known_apps c = map (\<lambda>k. (tk_tenant_id k, tk_app_name k)) (hm_keys (tsc_inner c))"

datatype fetch_outcome = FetchOk deployment_weights | Unauthorized | Transient fetch_error

definition fetch_app_split ::
  "(string \<times> u8) list http \<Rightarrow> string \<Rightarrow> string \<Rightarrow> string \<Rightarrow> string option \<Rightarrow> fetch_outcome" where
  "fetch_app_split http api_url tenant_id app_name internal_token =
     (case http (api_url @ ''/api/v1/internal/traffic/'' @ tenant_id @ ''/'' @ app_name)
             internal_token of
        SendError e \<Rightarrow> Transient (Network e)
      | Response status body \<Rightarrow>
          if status = 401 \<or> status = 403 then Unauthorized
          else if \<not> is_success status then Transient (Http status)
          else case body of
              Inl e \<Rightarrow> Transient (Parse e)
            | Inr splits \<Rightarrow> FetchOk (hm_collect splits))"

definition tsc_tick_step ::
  "(string \<times> u8) list http \<Rightarrow> instant \<Rightarrow> string \<Rightarrow> string option \<Rightarrow> string \<times> string
    \<Rightarrow> (nat \<times> nat) \<times> traffic_split_cache \<Rightarrow> (nat \<times> nat) \<times> traffic_split_cache" where
  "tsc_tick_step http now api_url token = (\<lambda>(tenant_id, app_name) ((fetch_count, unauthorized), cache).
     case fetch_app_split http api_url tenant_id app_name token of
       FetchOk weights \<Rightarrow>
         ((fetch_count + 1, unauthorized), tsc_update now tenant_id app_name weights cache)
     | Unauthorized \<Rightarrow> ((fetch_count, unauthorized + 1), cache)
     | Transient _ \<Rightarrow> ((fetch_count, unauthorized), cache))"

definition tsc_process_tick ::
  "(string \<times> u8) list http \<Rightarrow> instant \<Rightarrow> string \<Rightarrow> route_entry list \<Rightarrow> string option
    \<Rightarrow> traffic_split_cache \<Rightarrow> (nat \<times> nat) \<times> traffic_split_cache" where
  "tsc_process_tick http now api_url table_snap token cache =
     fold (tsc_tick_step http now api_url token) (snapshot_apps table_snap)
       ((0, 0), tsc_evict_stale now cache)"

text \<open>What the cache knows of one app: its split and when it was fetched.\<close>

definition tsc_get ::
  "traffic_split_cache \<Rightarrow> string \<times> string \<Rightarrow> (deployment_weights option \<times> instant option) option" where
  "tsc_get c = (\<lambda>(t, a). Some (hm_get (tsc_inner c) (traffic_key t a),
                               hm_get (tsc_fetched_at c) (traffic_key t a)))"

definition tsc_upd ::
  "(string \<times> u8) list http \<Rightarrow> instant \<Rightarrow> string \<Rightarrow> string option \<Rightarrow> string \<times> string
    \<Rightarrow> (deployment_weights option \<times> instant option) option
    \<Rightarrow> (deployment_weights option \<times> instant option) option" where
  "tsc_upd http now api_url token = (\<lambda>(t, a) old.
     case fetch_app_split http api_url t a token of
       FetchOk w \<Rightarrow> Some (Some w, Some now) | Unauthorized \<Rightarrow> old | Transient _ \<Rightarrow> old)"

lemma traffic_key_inj [simp]: "traffic_key t a = traffic_key t' a' \<longleftrightarrow> t = t' \<and> a = a'"
  by (simp add: traffic_key_def)

interpretation tsc: tick_fetcher "tsc_tick_step http now api_url token" tsc_get
  "tsc_upd http now api_url token" for http now api_url token
  by unfold_locales
    (auto simp: tsc_tick_step_def tsc_upd_def tsc_get_def tsc_update_def Let_def
      split: fetch_outcome.splits)

definition tsc_inv :: "traffic_split_cache \<Rightarrow> bool" where
  "tsc_inv c \<longleftrightarrow> hm_wf (tsc_inner c) \<and> hm_wf (tsc_fetched_at c) \<and>
     (\<forall>k. hm_contains (tsc_inner c) k \<longleftrightarrow> hm_contains (tsc_fetched_at c) k)"

lemma tsc_evict_get:
  assumes "tsc_inv c"
  shows "tsc_get (tsc_evict_stale now c) (t, a) =
    (case hm_get (tsc_fetched_at c) (traffic_key t a) of
       Some f \<Rightarrow> if elapsed now f < CACHE_TTL then tsc_get c (t, a) else Some (None, None)
     | None \<Rightarrow> Some (None, None))"
proof -
  let ?stale = "map fst (filter (\<lambda>(_, t). elapsed now t \<ge> CACHE_TTL) (tsc_fetched_at c))"
  have "k \<in> set ?stale \<longleftrightarrow>
      (\<exists>f. hm_get (tsc_fetched_at c) k = Some f \<and> CACHE_TTL \<le> elapsed now f)" for k
    using assms by (force simp: tsc_inv_def hm_in_iff_get [symmetric])
  with assms show ?thesis
    by (auto simp: tsc_evict_stale_def Let_def tsc_get_def tsc_inv_def hm_contains_def
        split: option.splits) (metis not_None_eq)
qed

lemma tsc_inv_evict: "tsc_inv c \<Longrightarrow> tsc_inv (tsc_evict_stale now c)"
  by (auto simp: tsc_inv_def tsc_evict_stale_def Let_def hm_contains_def split: if_splits)

lemma tsc_inv_update: "tsc_inv c \<Longrightarrow> tsc_inv (tsc_update now t a w c)"
  by (auto simp: tsc_inv_def tsc_update_def Let_def hm_contains_def split: if_splits)

lemma tsc_inv_step: "tsc_inv (snd s) \<Longrightarrow> tsc_inv (snd (tsc_tick_step http now url token k s))"
  by (auto simp: tsc_tick_step_def tsc_inv_update split: prod.splits fetch_outcome.splits)

lemma tsc_inv_fold:
  "tsc_inv (snd s) \<Longrightarrow> tsc_inv (snd (fold (tsc_tick_step http now url token) ks s))"
  by (induction ks arbitrary: s) (simp_all add: tsc_inv_step)


section \<open>Persisted L4 ports (l4\_cache.rs)\<close>

record cached_l4_port =
  cp_public_port :: u16
  cp_fetched_at :: instant

record l4_port_cache =
  lc_inner :: "(l4_app_key, cached_l4_port) hashmap"

definition L4_PORT_CACHE_STALE_AFTER :: duration where
  "L4_PORT_CACHE_STALE_AFTER = secs 60"

definition lc_new :: l4_port_cache where
  "lc_new = \<lparr>lc_inner = []\<rparr>"

definition lc_get :: "l4_port_cache \<Rightarrow> l4_app_key \<Rightarrow> cached_l4_port option" where
  "lc_get c key = hm_get (lc_inner c) key"

definition lc_is_fresh :: "instant \<Rightarrow> l4_port_cache \<Rightarrow> l4_app_key \<Rightarrow> bool" where
  "lc_is_fresh now c key =
     (case hm_get (lc_inner c) key of
        Some e \<Rightarrow> elapsed now (cp_fetched_at e) < L4_PORT_CACHE_STALE_AFTER
      | None \<Rightarrow> False)"

definition lc_update :: "instant \<Rightarrow> l4_app_key \<Rightarrow> u16 \<Rightarrow> l4_port_cache \<Rightarrow> l4_port_cache" where
  "lc_update now key port c =
     c\<lparr>lc_inner := hm_insert key \<lparr>cp_public_port = port, cp_fetched_at = now\<rparr> (lc_inner c)\<rparr>"

definition fetch_l4_port ::
  "u16 http \<Rightarrow> string \<Rightarrow> string \<Rightarrow> string \<Rightarrow> string option \<Rightarrow> u16 option" where
  "fetch_l4_port http api_url tenant_id app_name internal_token =
     (case http (api_url @ ''/api/v1/internal/l4-port/'' @ tenant_id @ ''/'' @ app_name)
             internal_token of
        SendError _ \<Rightarrow> None
      | Response status body \<Rightarrow>
          if \<not> is_success status then None
          else case body of
              Inl _ \<Rightarrow> None
            | Inr public_port \<Rightarrow> if public_port = 0 then None else Some public_port)"

definition lc_tick_step ::
  "u16 http \<Rightarrow> instant \<Rightarrow> string \<Rightarrow> string option \<Rightarrow> l4_app_key
    \<Rightarrow> (nat \<times> nat) \<times> l4_port_cache \<Rightarrow> (nat \<times> nat) \<times> l4_port_cache" where
  "lc_tick_step http now api_url token = (\<lambda>key ((fetched, failed), cache).
     case fetch_l4_port http api_url (lk_tenant_id key) (lk_app_name key) token of
       Some port \<Rightarrow> ((fetched + 1, failed), lc_update now key port cache)
     | None \<Rightarrow> ((fetched, failed + 1), cache))"

definition lc_process_tick ::
  "u16 http \<Rightarrow> instant \<Rightarrow> string \<Rightarrow> l4_route_entry list \<Rightarrow> string option
    \<Rightarrow> l4_port_cache \<Rightarrow> (nat \<times> nat) \<times> l4_port_cache" where
  "lc_process_tick http now api_url snapshot token cache =
     fold (\<lambda>entry. lc_tick_step http now api_url token
                     (l4_app_key_new (le_tenant_id entry) (le_app_name entry)))
       snapshot ((0, 0), cache)"

definition lc_upd ::
  "u16 http \<Rightarrow> instant \<Rightarrow> string \<Rightarrow> string option \<Rightarrow> l4_app_key
    \<Rightarrow> cached_l4_port option \<Rightarrow> cached_l4_port option" where
  "lc_upd http now api_url token key old =
     (case fetch_l4_port http api_url (lk_tenant_id key) (lk_app_name key) token of
        Some port \<Rightarrow> Some \<lparr>cp_public_port = port, cp_fetched_at = now\<rparr> | None \<Rightarrow> old)"

interpretation lc: tick_fetcher "lc_tick_step http now api_url token" lc_get
  "lc_upd http now api_url token" for http now api_url token
  by unfold_locales
    (auto simp: lc_tick_step_def lc_upd_def lc_get_def lc_update_def split: option.splits)

lemma lc_process_tick_keys:
  "lc_process_tick http now api_url snapshot token cache =
     fold (lc_tick_step http now api_url token) (map l4_key snapshot) ((0, 0), cache)"
  by (simp add: lc_process_tick_def l4_key_def fold_map o_def)

section \<open>Cross-replica cap (global\_rps.rs)\<close>

record global_rps_entry =
  ge_local_cap :: "u32 option"
  ge_configured :: u32
  ge_platform_total :: u64
  ge_replicas_seen :: u32
  ge_received_at :: instant

record global_rps_cache =
  gc_inner :: "global_rps_entry option"

definition gc_new :: global_rps_cache where
  "gc_new = \<lparr>gc_inner = None\<rparr>"

definition gc_update :: "global_rps_entry \<Rightarrow> global_rps_cache \<Rightarrow> global_rps_cache" where
  "gc_update entry c = c\<lparr>gc_inner := Some entry\<rparr>"

definition current_local_cap :: "instant \<Rightarrow> global_rps_cache \<Rightarrow> duration \<Rightarrow> u32 option" where
  "current_local_cap now c stale_after =
     (case gc_inner c of
        None \<Rightarrow> None
      | Some entry \<Rightarrow>
          (case ge_local_cap entry of
             None \<Rightarrow> None
           | Some cap \<Rightarrow> if elapsed now (ge_received_at entry) > stale_after then None else Some cap))"

definition gc_latest :: "global_rps_cache \<Rightarrow> global_rps_entry option" where
  "gc_latest c = gc_inner c"

text \<open>The datagram as it is decoded: \<open>None\<close> stands for the error of \<open>serde_json::from_slice\<close>.
  The receive loop keeps going on an I/O error and on a malformed datagram.\<close>

record datagram =
  dg_configured :: u32
  dg_platform_total :: u64
  dg_replicas_seen :: u32
  dg_local_cap :: "u32 option"

datatype recv_event = RecvError string | Datagram "datagram option"

definition recv_step :: "instant \<times> recv_event \<Rightarrow> global_rps_cache \<Rightarrow> global_rps_cache" where
  "recv_step = (\<lambda>(now, ev) c.
     case ev of
       RecvError _ \<Rightarrow> c
     | Datagram None \<Rightarrow> c
     | Datagram (Some payload) \<Rightarrow>
         gc_update \<lparr>ge_local_cap = dg_local_cap payload, ge_configured = dg_configured payload,
                    ge_platform_total = dg_platform_total payload,
                    ge_replicas_seen = dg_replicas_seen payload, ge_received_at = now\<rparr> c)"

definition run_recv_loop :: "(instant \<times> recv_event) list \<Rightarrow> global_rps_cache \<Rightarrow> global_rps_cache" where
  "run_recv_loop evs c = fold recv_step evs c"

lemma recv_step_error [simp]:
  "recv_step (now, RecvError e) c = c" "recv_step (now, Datagram None) c = c"
  by (simp_all add: recv_step_def)

lemma run_recv_loop_errors:
  "(\<forall>(now, ev) \<in> set evs. ev = Datagram None \<or> (\<exists>e. ev = RecvError e)) \<Longrightarrow> run_recv_loop evs c = c"
  by (induction evs arbitrary: c) (auto simp: run_recv_loop_def)


section \<open>Properties of the caches\<close>

text \<open>A quota tick. One quota tick: a tenant of the snapshot whose request succeeds gets the
  answer of the control plane; a transport error, a non-2xx status or an undecodable body keeps
  the last known state; a tenant outside the snapshot is untouched. A tenant never heard of is
  not over cap (fail-open).\<close>

theorem quota_tick_exact:
  "is_over_cap (snd (qc_process_tick http now url snap token c)) t =
     (if t \<in> set (snapshot_tenants snap)
      then case http (url @ ''/api/v1/internal/quota/'' @ t) token of
             Response status (Inr body) \<Rightarrow>
               if is_success status then qr_over_cap body else is_over_cap c t
           | _ \<Rightarrow> is_over_cap c t
      else is_over_cap c t)"
proof -
  have oc: "is_over_cap c' t = (case qc_get c' t of Some s \<Rightarrow> qs_over_cap s | None \<Rightarrow> False)" for c'
    by (simp add: is_over_cap_def qc_get_def)
  show ?thesis
    unfolding oc qc_process_tick_def
    by (simp add: qc.lookup_tick qc_upd_def fetch_quota_state_def
        split: http_outcome.splits sum.splits option.splits)
qed

text \<open>A tick of the tenant caps. One tick of the per-tenant caps: a 404, and a 200 whose caps are all zero
  or negative, clear the tenant's entry; a 200 with a positive cap installs the caps clamped at
  zero; every transient failure keeps the entry; other tenants are untouched.\<close>

theorem tenant_caps_tick_exact:
  "tc_get (snd (tc_process_tick http now url snap token c)) t =
     (if t \<in> set (snapshot_tenants snap)
      then case http (url @ ''/api/v1/internal/rate-limit/'' @ t) token of
             SendError _ \<Rightarrow> tc_get c t
           | Response status body \<Rightarrow>
               if status = 404 then None
               else if \<not> is_success status then tc_get c t
               else case body of
                   Inl _ \<Rightarrow> tc_get c t
                 | Inr b \<Rightarrow>
                     let st = \<lparr>ts_rps = word_of_int (max (tr_rps b) 0),
                               ts_burst = word_of_int (max (tr_burst b) 0),
                               ts_concurrent_limit = word_of_int (max (tr_concurrent_limit b) 0),
                               ts_bandwidth_bps = word_of_int (max (tr_bandwidth_bps b) 0),
                               ts_fetched_at = Some now\<rparr>
                     in if ts_rps st = 0 \<and> ts_burst st = 0 \<and> ts_concurrent_limit st = 0
                           \<and> ts_bandwidth_bps st = 0
                        then None else Some st
      else tc_get c t)"
  by (simp add: tc_process_tick_def tc.lookup_tick tc_upd_def fetch_tenant_rate_limit_def Let_def
      split: http_outcome.splits sum.splits)

text \<open>A tick of the traffic splits. After a tick of the traffic-split fetcher the weight of a deployment is the
  one just fetched; when the fetch failed (network, non-2xx, 401/403, undecodable body) it is the
  cached one only while that is younger than the 30 s TTL, and absent otherwise. The split and
  timestamp maps keep the same keys.\<close>

theorem traffic_tick_exact:
  assumes "tsc_inv c"
  shows "tsc_inv (snd (tsc_process_tick http now url snap token c)) \<and>
    tsc_weight (snd (tsc_process_tick http now url snap token c)) t a d =
      (case (if (t, a) \<in> set (snapshot_apps snap) then fetch_app_split http url t a token
             else Unauthorized) of
         FetchOk w \<Rightarrow> hm_get w d
       | _ \<Rightarrow> if tsc_has_split now c t a then tsc_weight c t a d else None)"
proof -
  define c' where "c' = snd (tsc_process_tick http now url snap token c)"
  let ?e = "tsc_evict_stale now c"
  have w: "tsc_weight x t a d =
      (case tsc_get x (t, a) of Some (Some w, _) \<Rightarrow> hm_get w d | _ \<Rightarrow> None)" for x
    by (simp add: tsc_weight_def tsc_get_def split: option.splits)
  have "tsc_get c' (t, a) = (if (t, a) \<in> set (snapshot_apps snap)
      then tsc_upd http now url token (t, a) (tsc_get ?e (t, a)) else tsc_get ?e (t, a))"
    by (simp add: c'_def tsc_process_tick_def tsc.lookup_tick)
  moreover have "tsc_weight ?e t a d =
      (if tsc_has_split now c t a then tsc_weight c t a d else None)"
    using tsc_evict_get [OF assms(1), of now t a]
    by (simp add: w tsc_has_split_def split: option.splits)
  ultimately have "tsc_weight c' t a d =
      (case (if (t, a) \<in> set (snapshot_apps snap) then fetch_app_split http url t a token
             else Unauthorized) of
         FetchOk w \<Rightarrow> hm_get w d
       | _ \<Rightarrow> if tsc_has_split now c t a then tsc_weight c t a d else None)"
    by (simp add: w tsc_upd_def split: fetch_outcome.splits)
  moreover have "tsc_inv c'"
    unfolding c'_def tsc_process_tick_def
    by (rule tsc_inv_fold) (simp add: tsc_inv_evict assms(1))
  ultimately show ?thesis by (simp add: c'_def)
qed

theorem traffic_tick_exact_witness:
  "tsc_weight (snd (tsc_process_tick (\<lambda>_ _. SendError ''down'') (secs 10) ''cp''
      [upsert_entry 0 ''t1'' ''app'' (Some ''d1'') 100 ''10.0.0.1'' 8081 ''running''] None
      (tsc_update 0 ''t1'' ''app'' [(''d1'', 80)] \<lparr>tsc_inner = [], tsc_fetched_at = []\<rparr>)))
    ''t1'' ''app'' ''d1'' = Some 80"
proof -
  let ?c = "tsc_update 0 ''t1'' ''app'' [(''d1'', 80)] \<lparr>tsc_inner = [], tsc_fetched_at = []\<rparr>"
  have inv: "tsc_inv ?c" by (rule tsc_inv_update) (simp add: tsc_inv_def hm_contains_def)
  have "tsc_has_split (secs 10) ?c ''t1'' ''app''"
    by (simp add: tsc_has_split_def tsc_update_def Let_def elapsed_def CACHE_TTL_def)
  moreover have "tsc_weight ?c ''t1'' ''app'' ''d1'' = Some 80"
    by (simp add: tsc_weight_def tsc_update_def Let_def hm_get_Cons)
  ultimately show ?thesis
    by (subst traffic_tick_exact [OF inv, THEN conjunct2]) (simp add: fetch_app_split_def)
qed

text \<open>The entry of the last well-formed datagram of a receive run.\<close>

fun last_datagram :: "(instant \<times> recv_event) list \<Rightarrow> (instant \<times> datagram) option" where
  "last_datagram [] = None"
| "last_datagram ((now, ev) # evs) =
     (case last_datagram evs of
        Some x \<Rightarrow> Some x
      | None \<Rightarrow> (case ev of Datagram (Some p) \<Rightarrow> Some (now, p) | _ \<Rightarrow> None))"

lemma run_recv_loop_last:
  "gc_inner (run_recv_loop evs c) =
     (case last_datagram evs of
        Some (now, p) \<Rightarrow> Some \<lparr>ge_local_cap = dg_local_cap p, ge_configured = dg_configured p,
          ge_platform_total = dg_platform_total p, ge_replicas_seen = dg_replicas_seen p,
          ge_received_at = now\<rparr>
      | None \<Rightarrow> gc_inner c)"
  by (induction evs arbitrary: c)
    (auto simp: run_recv_loop_def recv_step_def gc_update_def
      split: recv_event.splits option.splits)

text \<open>The cross-replica cap fails closed. From a cold start, after any sequence of
  receive errors, malformed and well-formed datagrams, a cap is in force exactly when the last
  well-formed datagram carries one and was received at most \<open>stale_after\<close> ago.\<close>

theorem global_cap_fail_closed:
  "current_local_cap now (run_recv_loop evs gc_new) stale_after = Some cap \<longleftrightarrow>
     (\<exists>t p. last_datagram evs = Some (t, p) \<and> dg_local_cap p = Some cap \<and> now - t \<le> stale_after)"
  by (auto simp: current_local_cap_def run_recv_loop_last gc_new_def elapsed_def
      split: option.splits if_splits)

end
