(* ===== verification/Ingress_Config.thy ===== *)
theory Ingress_Config
  imports Edge_Prelude
begin

text \<open>
  Configuration of the ingress (\<open>edge-ingress/src/config.rs\<close>): the \<open>Config\<close> struct, its loading
  from the environment, the start-up warnings and the public host name of an app.

  The environment is a function \<open>env\<close> from variable names to optional values
  (\<open>std::env::var(name).ok()\<close>). Durations are parsed by the \<open>humantime\<close> crate, which is the
  argument \<open>humantime\<close> of the definitions that use it.
\<close>

section \<open>Host names\<close>

definition INGRESS_HOST_SUFFIX :: string where
  "INGRESS_HOST_SUFFIX = ''edgecloud.dev''"

definition ingress_host :: "string \<Rightarrow> string \<Rightarrow> string" where
  "ingress_host tenant_id app_name = tenant_id @ ''-'' @ app_name @ ''.'' @ INGRESS_HOST_SUFFIX"

text \<open>What the routing of hosts needs of tenant ids. \<open>plain_id\<close>: the id holds no character that means
  something in a regular expression. \<open>tenants_apart\<close>: no id followed by the hyphen of the host name
  begins another id with its hyphen; otherwise the hosts of the tenants \<open>t_a\<close> and \<open>t_a-b\<close> collide.\<close>

definition plain_id :: "string \<Rightarrow> bool" where
  "plain_id t = list_all (\<lambda>c. is_ascii_alphanumeric c \<or> c = CHR ''-'' \<or> c = CHR ''_'') t"

definition tenants_apart :: "string set \<Rightarrow> bool" where
  "tenants_apart ts \<longleftrightarrow> (\<forall>t \<in> ts. \<forall>t' \<in> ts. t \<noteq> t' \<longrightarrow> \<not> starts_with (t @ ''-'') (t' @ ''-''))"

lemma tenants_apart_append:
  assumes "tenants_apart ts" and "t \<in> ts" and "t' \<in> ts"
  shows "t @ CHR ''-'' # r = t' @ CHR ''-'' # r' \<longleftrightarrow> t = t' \<and> r = r'"
proof
  assume eq: "t @ CHR ''-'' # r = t' @ CHR ''-'' # r'"
  then have "(t @ ''-'') @ r = (t' @ ''-'') @ r'" by simp
  then have "starts_with (t @ ''-'') (t' @ ''-'') \<or> starts_with (t' @ ''-'') (t @ ''-'')"
    unfolding starts_with_iff append_eq_append_conv2 by metis
  with assms eq show "t = t' \<and> r = r'" unfolding tenants_apart_def by auto
qed simp

text \<open>Then the host determines the tenant and the app.\<close>

lemma ingress_host_inj:
  assumes "tenants_apart ts" and "t \<in> ts" and "t' \<in> ts" and "ingress_host t a = ingress_host t' a'"
  shows "t = t' \<and> a = a'"
  using tenants_apart_append [OF assms(1-3), of "a @ ''.'' @ INGRESS_HOST_SUFFIX"] assms(4)
  by (simp add: ingress_host_def)

text \<open>The ids that the control plane issues are \<open>t_\<close> and the text of a UUID
  (\<open>edge-control-plane/internal/service/tenant.go\<close>, \<open>CreateTenant\<close> and \<open>BootstrapTenant\<close>): they
  hold hyphens, and still satisfy both conditions, because all of them have the same length.\<close>

definition uuid_text :: "string \<Rightarrow> bool" where
  "uuid_text u \<longleftrightarrow> length u = 36 \<and>
     list_all (\<lambda>i. if i \<in> {8, 13, 18, 23} then u ! i = CHR ''-''
       else u ! i \<in> set ''0123456789abcdef'') [0..<36]"

definition issued_tenant_id :: "string \<Rightarrow> string" where
  "issued_tenant_id uuid = ''t_'' @ uuid"

lemma uuid_text_chars:
  assumes "uuid_text u" and "c \<in> set u"
  shows "c = CHR ''-'' \<or> c \<in> set ''0123456789abcdef''"
proof -
  from assms(2) obtain i where i: "i < length u" "c = u ! i" by (auto simp: in_set_conv_nth)
  with assms(1) have "i \<in> set [0..<36]" by (simp add: uuid_text_def)
  with assms(1) have "if i \<in> {8, 13, 18, 23} then u ! i = CHR ''-''
      else u ! i \<in> set ''0123456789abcdef''"
    unfolding uuid_text_def list_all_iff by blast
  with i(2) show ?thesis by meson
qed

theorem issued_tenant_ids:
  assumes "\<forall>u \<in> us. uuid_text u"
  shows "(\<forall>t \<in> issued_tenant_id ` us. plain_id t) \<and> tenants_apart (issued_tenant_id ` us)"
proof
  show "\<forall>t \<in> issued_tenant_id ` us. plain_id t"
  proof (intro ballI, elim imageE)
    fix t u assume "t = issued_tenant_id u" and "u \<in> us"
    have "is_ascii_alphanumeric c \<or> c = CHR ''-''" if "c \<in> set u" for c
      using uuid_text_chars [OF _ that] assms \<open>u \<in> us\<close> by (auto simp: is_ascii_alphanumeric_def Let_def)
    then show "plain_id t"
      unfolding \<open>t = _\<close> by (auto simp: plain_id_def issued_tenant_id_def list_all_iff is_ascii_alphanumeric_def Let_def)
  qed
  show "tenants_apart (issued_tenant_id ` us)"
    using assms by (auto simp: tenants_apart_def starts_with_iff issued_tenant_id_def uuid_text_def)
qed

theorem issued_tenant_ids_witness:
  "tenants_apart {issued_tenant_id ''6ba7b810-9dad-11d1-80b4-00c04fd430c8'',
     issued_tenant_id ''6ba7b811-9dad-11d1-80b4-00c04fd430c8''}"
  using issued_tenant_ids [of "{''6ba7b810-9dad-11d1-80b4-00c04fd430c8'',
      ''6ba7b811-9dad-11d1-80b4-00c04fd430c8''}"]
  by (simp add: uuid_text_def upt_rec)

section \<open>The configuration record\<close>

record config =
  nats_url :: string
  caddy_admin_url :: string
  region :: string
  cert_file :: string
  key_file :: string
  cert_file_2 :: "string option"
  key_file_2 :: "string option"
  listen_http :: string
  listen_https :: string
  refresh_debounce_ms :: u64
  http_to_https :: bool
  admin_token :: "string option"
  control_plane_api_url :: string
  internal_token :: "string option"
  control_plane_url :: string
  service_token :: string
  domain_poll_interval :: duration
  caddy_admin_listen :: string
  metrics_listen :: string
  max_conns :: u32
  max_conns_per_ip :: u32
  per_ip_rps :: u32
  per_ip_burst :: u32
  rate_limit_rps_default :: u32
  rate_limit_burst_default :: u32
  rate_limit_fetch_interval :: duration
  quota_fetch_interval :: duration
  stale_timeout :: duration
  prune_interval :: duration
  health_check_interval :: duration
  health_check_timeout :: duration
  health_check_uri :: string
  health_check_max_fails :: u32
  rate_limit_rps_tenant_default :: u32
  rate_limit_burst_tenant_default :: u32
  tenant_rate_limit_fetch_interval :: duration
  global_rate_limit_rps :: u32
  global_rate_limit_burst :: u32
  l4_port_range_start :: u16
  l4_port_range_end :: u16
  l4_max_conns_per_app :: u32
  l4_max_conns_per_ip :: u32
  l4_port_cooldown_secs :: u64
  ingress_rate_limit_aggregation :: bool
  global_rps_uds_path :: string
  global_rps_tick_interval :: duration

section \<open>Loading from the environment\<close>

type_synonym env = "string \<Rightarrow> string option"

datatype config_error =
    ServiceTokenMissing
  | L4RangeZero u16 u16
  | L4RangeInverted u16 u16
  | NotSet string

definition env_or :: "env \<Rightarrow> string \<Rightarrow> string \<Rightarrow> string" where
  "env_or env name dflt = (case env name of Some v \<Rightarrow> v | None \<Rightarrow> dflt)"

definition env_nonempty :: "env \<Rightarrow> string \<Rightarrow> string option" where
  "env_nonempty env name = (case env name of Some v \<Rightarrow> if v \<noteq> [] then Some v else None | None \<Rightarrow> None)"

text \<open>\<open>.parse().unwrap_or(d)\<close> at the width of the target field, with the same default for an
  unset variable.\<close>

definition env_num :: "env \<Rightarrow> string \<Rightarrow> nat \<Rightarrow> 'a::len word" where
  "env_num env name dflt =
     (case env name of
        Some v \<Rightarrow> (case parse_uint (2 ^ LENGTH('a)) v of Some n \<Rightarrow> of_nat n | None \<Rightarrow> of_nat dflt)
      | None \<Rightarrow> of_nat dflt)"

definition env_duration :: "(string \<Rightarrow> duration option) \<Rightarrow> env \<Rightarrow> string \<Rightarrow> duration \<Rightarrow> duration" where
  "env_duration humantime env name dflt =
     (case env name of
        Some v \<Rightarrow> (case humantime v of Some d \<Rightarrow> d | None \<Rightarrow> dflt)
      | None \<Rightarrow> dflt)"

definition DEFAULT_DOMAIN_POLL_INTERVAL :: duration where
  "DEFAULT_DOMAIN_POLL_INTERVAL = secs 30"

definition parse_duration_env :: "(string \<Rightarrow> duration option) \<Rightarrow> env \<Rightarrow> string \<Rightarrow> duration option" where
  "parse_duration_env humantime env name =
     (case env name of
        None \<Rightarrow> None
      | Some raw \<Rightarrow>
          (case humantime raw of
             None \<Rightarrow> None
           | Some d \<Rightarrow> if d = 0 then None else Some d))"

definition config_of_env ::
  "(string \<Rightarrow> duration option) \<Rightarrow> env \<Rightarrow> string \<Rightarrow> string \<Rightarrow> string \<Rightarrow> u16 \<Rightarrow> u16 \<Rightarrow> config" where
  "config_of_env humantime env region' cert key start end' =
     \<lparr> nats_url = env_or env ''NATS_URL'' ''nats://localhost:4222'',
       caddy_admin_url = env_or env ''CADDY_ADMIN_URL'' ''http://127.0.0.1:2019'',
       region = region', cert_file = cert, key_file = key,
       cert_file_2 = env_nonempty env ''TLS_CERT_FILE_2'',
       key_file_2 = env_nonempty env ''TLS_KEY_FILE_2'',
       listen_http = env_or env ''INGRESS_LISTEN_HTTP'' '':80'',
       listen_https = env_or env ''INGRESS_LISTEN_HTTPS'' '':443'',
       refresh_debounce_ms = env_num env ''REFRESH_DEBOUNCE_MS'' 1000,
       http_to_https =
         (case env ''HTTP_TO_HTTPS'' of
            Some v \<Rightarrow> v \<notin> {''0'', ''false'', ''no''} | None \<Rightarrow> True),
       admin_token = env_nonempty env ''CADDY_ADMIN_TOKEN'',
       control_plane_api_url = env_or env ''CONTROL_PLANE_API_URL'' ''http://localhost:8080'',
       internal_token = env_nonempty env ''EDGE_INTERNAL_TOKEN'',
       control_plane_url = env_or env ''CONTROL_PLANE_URL'' [],
       service_token = env_or env ''INGRESS_SERVICE_TOKEN'' [],
       domain_poll_interval =
         (case parse_duration_env humantime env ''DOMAIN_POLL_INTERVAL'' of
            Some d \<Rightarrow> d | None \<Rightarrow> DEFAULT_DOMAIN_POLL_INTERVAL),
       caddy_admin_listen = env_or env ''CADDY_ADMIN_LISTEN'' ''localhost:2019'',
       metrics_listen = env_or env ''INGRESS_METRICS_LISTEN'' '':9091'',
       max_conns = env_num env ''INGRESS_MAX_CONNS'' 0,
       max_conns_per_ip = env_num env ''INGRESS_MAX_CONNS_PER_IP'' 0,
       per_ip_rps = env_num env ''INGRESS_PER_IP_RPS'' 0,
       per_ip_burst = env_num env ''INGRESS_PER_IP_BURST'' 0,
       rate_limit_rps_default = env_num env ''RATE_LIMIT_RPS_DEFAULT'' 0,
       rate_limit_burst_default = env_num env ''RATE_LIMIT_BURST_DEFAULT'' 0,
       rate_limit_fetch_interval =
         env_duration humantime env ''RATE_LIMIT_FETCH_INTERVAL'' (secs 60),
       quota_fetch_interval = env_duration humantime env ''QUOTA_FETCH_INTERVAL'' (secs 30),
       stale_timeout = env_duration humantime env ''STALE_TIMEOUT'' (secs 60),
       prune_interval = env_duration humantime env ''PRUNE_INTERVAL'' (secs 30),
       health_check_interval = env_duration humantime env ''HEALTH_CHECK_INTERVAL'' (secs 10),
       health_check_timeout = env_duration humantime env ''HEALTH_CHECK_TIMEOUT'' (secs 3),
       health_check_uri = env_or env ''HEALTH_CHECK_URI'' ''/healthz'',
       health_check_max_fails = env_num env ''HEALTH_CHECK_MAX_FAILS'' 2,
       rate_limit_rps_tenant_default = env_num env ''RATE_LIMIT_RPS_TENANT_DEFAULT'' 0,
       rate_limit_burst_tenant_default = env_num env ''RATE_LIMIT_BURST_TENANT_DEFAULT'' 0,
       tenant_rate_limit_fetch_interval =
         env_duration humantime env ''TENANT_RATE_LIMIT_FETCH_INTERVAL'' (secs 30),
       global_rate_limit_rps = env_num env ''GLOBAL_RATE_LIMIT_RPS'' 0,
       global_rate_limit_burst = env_num env ''GLOBAL_RATE_LIMIT_BURST'' 0,
       l4_port_range_start = start, l4_port_range_end = end',
       l4_max_conns_per_app = env_num env ''INGRESS_L4_MAX_CONNS_PER_APP'' 1000,
       l4_max_conns_per_ip = env_num env ''INGRESS_L4_MAX_CONNS_PER_IP'' 100,
       l4_port_cooldown_secs = env_num env ''L4_PORT_COOLDOWN_SECS'' 60,
       ingress_rate_limit_aggregation =
         (case env ''INGRESS_RATE_LIMIT_AGGREGATION'' of
            Some v \<Rightarrow> v \<notin> {''0'', ''false'', ''no'', ''''} | None \<Rightarrow> False),
       global_rps_uds_path =
         env_or env ''GLOBAL_RPS_UDS_PATH'' ''/var/run/edge-ingress/global-rps.sock'',
       global_rps_tick_interval =
         env_duration humantime env ''GLOBAL_RPS_TICK_INTERVAL'' (secs 1) \<rparr>"

definition from_env :: "(string \<Rightarrow> duration option) \<Rightarrow> env \<Rightarrow> config_error + config" where
  "from_env humantime env =
     (let control_plane_url' = env_or env ''CONTROL_PLANE_URL'' [];
          service_token' = env_or env ''INGRESS_SERVICE_TOKEN'' [];
          start = env_num env ''L4_PORT_RANGE_START'' 31000 :: u16;
          end' = env_num env ''L4_PORT_RANGE_END'' 31999 :: u16
      in if control_plane_url' \<noteq> [] \<and> service_token' = [] then Inl ServiceTokenMissing
         else if start = 0 \<or> end' = 0 then Inl (L4RangeZero start end')
         else if start > end' then Inl (L4RangeInverted start end')
         else case env ''INGRESS_REGION'' of
             None \<Rightarrow> Inl (NotSet ''INGRESS_REGION'')
           | Some r \<Rightarrow>
               (case env ''TLS_CERT_FILE'' of
                  None \<Rightarrow> Inl (NotSet ''TLS_CERT_FILE'')
                | Some cert \<Rightarrow>
                    (case env ''TLS_KEY_FILE'' of
                       None \<Rightarrow> Inl (NotSet ''TLS_KEY_FILE'')
                     | Some key \<Rightarrow> Inr (config_of_env humantime env r cert key start end'))))"

section \<open>Start-up warnings\<close>

datatype config_warning = LowGlobalRps u32 | LowTenantDefaultRps u32 | AggregationWithoutCap

definition MIN_REASONABLE_RPS :: u32 where
  "MIN_REASONABLE_RPS = 10"

definition validate :: "config \<Rightarrow> config_warning list" where
  "validate cfg =
     (if global_rate_limit_rps cfg > 0 \<and> global_rate_limit_rps cfg < MIN_REASONABLE_RPS
      then [LowGlobalRps (global_rate_limit_rps cfg)] else []) @
     (if rate_limit_rps_tenant_default cfg > 0
         \<and> rate_limit_rps_tenant_default cfg < MIN_REASONABLE_RPS
      then [LowTenantDefaultRps (rate_limit_rps_tenant_default cfg)] else []) @
     (if ingress_rate_limit_aggregation cfg \<and> global_rate_limit_rps cfg = 0
      then [AggregationWithoutCap] else [])"

section \<open>What a loaded configuration guarantees\<close>

definition config_ok :: "config \<Rightarrow> bool" where
  "config_ok cfg \<longleftrightarrow>
     l4_port_range_start cfg \<noteq> 0 \<and> l4_port_range_start cfg \<le> l4_port_range_end cfg \<and>
     (control_plane_url cfg \<noteq> [] \<longrightarrow> service_token cfg \<noteq> []) \<and>
     domain_poll_interval cfg > 0"

lemma parse_duration_env_pos: "parse_duration_env h env n = Some d \<Longrightarrow> d > 0"
  by (auto simp: parse_duration_env_def split: option.splits if_splits)

lemma domain_poll_interval_pos:
  "domain_poll_interval (config_of_env h env r c k s e) > 0"
  using parse_duration_env_pos [of h env "''DOMAIN_POLL_INTERVAL''"]
  by (auto simp: config_of_env_def DEFAULT_DOMAIN_POLL_INTERVAL_def split: option.splits)

lemma config_of_env_sel [simp]:
  "l4_port_range_start (config_of_env h env r c k s e) = s"
  "l4_port_range_end (config_of_env h env r c k s e) = e"
  "control_plane_url (config_of_env h env r c k s e) = env_or env ''CONTROL_PLANE_URL'' []"
  "service_token (config_of_env h env r c k s e) = env_or env ''INGRESS_SERVICE_TOKEN'' []"
  by (simp_all add: config_of_env_def)

lemma from_env_config_ok: "from_env humantime env = Inr cfg \<Longrightarrow> config_ok cfg"
  using domain_poll_interval_pos
  by (auto simp: from_env_def Let_def config_ok_def split: option.splits if_splits)

text \<open>Loading accepts exactly the usable environments. \<open>from_env\<close> succeeds iff a
  control-plane URL comes with a service token, the L4 port range is non-empty and starts above
  zero, and region, certificate and key are set; and the configuration it returns then carries
  these guarantees and a positive domain poll interval.\<close>

theorem from_env_exact:
  "case from_env humantime env of
     Inr cfg \<Rightarrow>
       config_ok cfg \<and>
       env ''INGRESS_REGION'' = Some (region cfg) \<and> env ''TLS_CERT_FILE'' = Some (cert_file cfg) \<and>
       env ''TLS_KEY_FILE'' = Some (key_file cfg) \<and>
       l4_port_range_start cfg = env_num env ''L4_PORT_RANGE_START'' 31000 \<and>
       l4_port_range_end cfg = env_num env ''L4_PORT_RANGE_END'' 31999
   | Inl err \<Rightarrow>
       (case err of
          ServiceTokenMissing \<Rightarrow>
            env_or env ''CONTROL_PLANE_URL'' [] \<noteq> [] \<and> env_or env ''INGRESS_SERVICE_TOKEN'' [] = []
        | L4RangeZero s e \<Rightarrow>
            s = env_num env ''L4_PORT_RANGE_START'' 31000 \<and> e = env_num env ''L4_PORT_RANGE_END'' 31999 \<and>
            (s = 0 \<or> e = 0)
        | L4RangeInverted s e \<Rightarrow>
            s = env_num env ''L4_PORT_RANGE_START'' 31000 \<and> e = env_num env ''L4_PORT_RANGE_END'' 31999 \<and>
            e < s
        | NotSet name \<Rightarrow>
            env name = None \<and> name \<in> {''INGRESS_REGION'', ''TLS_CERT_FILE'', ''TLS_KEY_FILE''})"
proof -
  have sel: "region (config_of_env humantime env r c k s e) = r"
    "cert_file (config_of_env humantime env r c k s e) = c"
    "key_file (config_of_env humantime env r c k s e) = k" for r c k s e
    by (simp_all add: config_of_env_def)
  show ?thesis
    using from_env_config_ok [of humantime env]
    by (auto simp: from_env_def Let_def sel split: option.splits)
qed

end
