(* ===== verification/Ingress_Render.thy ===== *)
theory Ingress_Render
  imports Ingress_Caches Ingress_Config "HOL-Library.Multiset"
begin

text \<open>
  The renderer (\<open>edge-ingress/src/caddy.rs\<close>, \<open>render_routes\<close>, \<open>render_l4_routes\<close>, \<open>render_full\<close>): from
  the routing tables, the caches and the configuration to the JSON document that Caddy loads.

  The body of \<open>render_routes\<close> is cut at its comments: one definition per kind of route, and
  \<open>render_route_list\<close> for the vector \<open>routes\<close> with its splices. A JSON object lists its members in
  the order of the source. \<open>HashSet\<close> and \<open>HashMap\<close> iteration orders are those of the lists that
  represent them.
\<close>

section \<open>Routes of the apps\<close>

definition push_group ::
  "route_entry \<Rightarrow> (string \<times> string, route_entry list) hashmap
    \<Rightarrow> (string \<times> string, route_entry list) hashmap" where
  "push_group e groups =
     (let k = (re_tenant_id e, re_app_name e);
          g = (case hm_get groups k of Some g \<Rightarrow> g | None \<Rightarrow> [])
      in hm_insert k (g @ [e]) groups)"

definition group_entries :: "route_entry list \<Rightarrow> (string \<times> string, route_entry list) hashmap" where
  "group_entries entries = fold push_group entries []"

definition group_keys :: "route_entry list \<Rightarrow> (string \<times> string) list" where
  "group_keys entries = sort (hm_keys (group_entries entries))"

definition over_cap_tenants :: "quota_cache \<Rightarrow> route_entry list \<Rightarrow> string list" where
  "over_cap_tenants quota_cache entries =
     remdups (filter (is_over_cap quota_cache) (map fst (group_keys entries)))"

definition group_sorted :: "route_entry list \<Rightarrow> string \<times> string \<Rightarrow> route_entry list" where
  "group_sorted entries k =
     sort_key (\<lambda>e. (re_deployment_id e, re_worker_addr e))
       (case hm_get (group_entries entries) k of Some g \<Rightarrow> g | None \<Rightarrow> [])"

definition dial :: "string \<Rightarrow> u16 \<Rightarrow> string" where
  "dial worker_addr port = worker_addr @ '':'' @ dec (unat port)"

definition upstream_weight :: "traffic_split_cache \<Rightarrow> string \<Rightarrow> string \<Rightarrow> route_entry \<Rightarrow> u8" where
  "upstream_weight traffic_cache tenant_id app_name e =
     (case Option.bind (re_deployment_id e) (tsc_weight traffic_cache tenant_id app_name) of
        Some w \<Rightarrow> w
      | None \<Rightarrow> re_weight e)"

definition render_upstreams ::
  "traffic_split_cache \<Rightarrow> string \<Rightarrow> string \<Rightarrow> route_entry list \<Rightarrow> json" where
  "render_upstreams traffic_cache tenant_id app_name grp =
     (if length grp = 1
      then JArr [JObj [(''dial'', JStr (dial (re_worker_addr (hd grp)) (re_port (hd grp))))]]
      else JArr (map (\<lambda>e. JObj [(''dial'', JStr (dial (re_worker_addr e) (re_port e))),
                                (''weight'', ju (upstream_weight traffic_cache tenant_id app_name e))])
                   grp))"

definition or_default :: "u32 option \<Rightarrow> u32 \<Rightarrow> u32" where
  "or_default o' d = (case o' of Some x \<Rightarrow> x | None \<Rightarrow> if d > 0 then d else 0)"

definition opt_or :: "'a option \<Rightarrow> 'a option \<Rightarrow> 'a option" where
  "opt_or a b = (case a of Some _ \<Rightarrow> a | None \<Rightarrow> b)"

definition app_rps :: "config \<Rightarrow> rate_limit_cache \<Rightarrow> string \<Rightarrow> string \<Rightarrow> route_entry \<Rightarrow> u32" where
  "app_rps cfg rate_limit_cache tenant_id app_name first =
     or_default (opt_or (map_option rl_rps (rl_get rate_limit_cache tenant_id app_name))
                   (re_rate_limit_rps first)) (rate_limit_rps_default cfg)"

definition app_burst :: "config \<Rightarrow> rate_limit_cache \<Rightarrow> string \<Rightarrow> string \<Rightarrow> route_entry \<Rightarrow> u32" where
  "app_burst cfg rate_limit_cache tenant_id app_name first =
     or_default (opt_or (map_option rl_burst (rl_get rate_limit_cache tenant_id app_name))
                   (re_rate_limit_burst first)) (rate_limit_burst_default cfg)"

definition rates :: "u32 \<Rightarrow> u32 \<Rightarrow> json" where
  "rates rps burst = JObj [(''rps'', ju rps), (''burst'', ju burst)]"

definition host_rate_limit :: "u32 \<Rightarrow> u32 \<Rightarrow> json list" where
  "host_rate_limit rps burst =
     (if rps > 0
      then [JObj [(''handler'', JStr ''rate_limit''),
                  (''rates'', rates rps (if burst > 0 then burst else rps)),
                  (''key'', JStr ''{http.request.host}'')]]
      else [])"

definition reverse_proxy :: "json \<Rightarrow> json \<Rightarrow> json" where
  "reverse_proxy upstreams health_checks =
     JObj [(''handler'', JStr ''reverse_proxy''), (''upstreams'', upstreams),
           (''health_checks'', health_checks)]"

definition default_health_checks :: json where
  "default_health_checks =
     JObj [(''active'', JObj [(''uri'', JStr ''/''), (''expect_status'', JNum 2)])]"

definition host_match :: "string \<Rightarrow> json" where
  "host_match host = JArr [JObj [(''host'', JArr [JStr host])]]"

definition subroute :: "json list \<Rightarrow> json" where
  "subroute handle_chain =
     JArr [JObj [(''handler'', JStr ''subroute''),
                 (''routes'', JArr [JObj [(''handle'', JArr handle_chain)]])]]"

definition app_route ::
  "config \<Rightarrow> traffic_split_cache \<Rightarrow> rate_limit_cache \<Rightarrow> route_entry list \<Rightarrow> string \<times> string \<Rightarrow> json" where
  "app_route cfg traffic_cache rate_limit_cache entries = (\<lambda>(tenant_id, app_name).
     let grp = group_sorted entries (tenant_id, app_name);
         upstreams = render_upstreams traffic_cache tenant_id app_name grp;
         rps = app_rps cfg rate_limit_cache tenant_id app_name (hd grp);
         burst = app_burst cfg rate_limit_cache tenant_id app_name (hd grp);
         handle_chain = host_rate_limit rps burst @ [reverse_proxy upstreams default_health_checks]
     in JObj [(''@id'', JStr (ingress_host tenant_id app_name)),
              (''match'', host_match (ingress_host tenant_id app_name)),
              (''handle'', subroute handle_chain),
              (''terminal'', JBool True)])"

definition app_routes ::
  "config \<Rightarrow> traffic_split_cache \<Rightarrow> rate_limit_cache \<Rightarrow> route_entry list \<Rightarrow> json list" where
  "app_routes cfg traffic_cache rate_limit_cache entries =
     map (app_route cfg traffic_cache rate_limit_cache entries) (group_keys entries)"

section \<open>Routes of the tenants\<close>

text \<open>The pattern \<open>^<tenant>-[^.]+\.<suffix>$\<close>; character 92 is the backslash.\<close>

definition tenant_pattern :: "string \<Rightarrow> string" where
  "tenant_pattern tenant_id =
     ''^'' @ tenant_id @ ''-[^.]+'' @ [CHR 0x5C] @ ''.'' @ INGRESS_HOST_SUFFIX @ ''$''"

definition tenant_match :: "string \<Rightarrow> json" where
  "tenant_match tenant_id = JArr [JObj [(''host_regexp'', JStr (tenant_pattern tenant_id))]]"

definition payment_required :: json where
  "payment_required =
     JArr [JObj [(''handler'', JStr ''static_response''), (''status_code'', JNum 402),
                 (''body'', JStr ''Payment Required''),
                 (''headers'', JObj [(''Retry-After'', JArr [JStr ''3600''])])]]"

definition quota_402_route :: "string \<Rightarrow> json" where
  "quota_402_route tenant_id =
     JObj [(''@id'', JStr (tenant_id @ '':quota-402-synthetic'')),
           (''match'', tenant_match tenant_id),
           (''handle'', payment_required),
           (''terminal'', JBool True)]"

definition tenant_concurrent_route :: "string \<times> tenant_rate_limit_state \<Rightarrow> json" where
  "tenant_concurrent_route = (\<lambda>(tenant_id, state).
     JObj [(''@id'', JStr (''tenant-concurrent:'' @ tenant_id)),
           (''match'', tenant_match tenant_id),
           (''handle'', JArr [JObj [(''handler'', JStr ''tenant_concurrent''),
                                    (''key'', JStr (''tenant-'' @ tenant_id)),
                                    (''limit'', ju (ts_concurrent_limit state))]]),
           (''terminal'', JBool False)])"

text \<open>\<open>state.bandwidth_bps as i64\<close> reinterprets the 64 bits as a signed number.\<close>

definition tenant_bandwidth_route :: "string \<times> tenant_rate_limit_state \<Rightarrow> json" where
  "tenant_bandwidth_route = (\<lambda>(tenant_id, state).
     JObj [(''@id'', JStr (''tenant-bandwidth:'' @ tenant_id)),
           (''match'', tenant_match tenant_id),
           (''handle'', JArr [JObj [(''handler'', JStr ''tenant_bandwidth''),
                                    (''key'', JStr (''tenant-'' @ tenant_id)),
                                    (''bytes_per_sec'', JNum (sint (ts_bandwidth_bps state)))]]),
           (''terminal'', JBool False)])"

definition tenant_rl_route :: "string \<times> tenant_rate_limit_state \<Rightarrow> json" where
  "tenant_rl_route = (\<lambda>(tenant_id, state).
     let burst = (if ts_burst state > 0 then ts_burst state else ts_rps state)
     in JObj [(''@id'', JStr (''tenant-rl:'' @ tenant_id)),
              (''match'', tenant_match tenant_id),
              (''handle'', JArr [JObj [(''handler'', JStr ''rate_limit''),
                                       (''key'', JStr (''tenant-'' @ tenant_id)),
                                       (''rates'', rates (ts_rps state) burst)]]),
              (''terminal'', JBool False)])"

definition cross_replica_route :: "u32 \<Rightarrow> json" where
  "cross_replica_route rps =
     JObj [(''@id'', JStr ''global-rate-limit-cross-replica''),
           (''match'', JArr [JObj []]),
           (''handle'', JArr [JObj [(''handler'', JStr ''rate_limit''),
                                    (''key'', JStr ''global-platform-cross-replica''),
                                    (''rates'', rates rps rps)]]),
           (''terminal'', JBool False)]"

section \<open>Routes of the custom domains\<close>

definition upstream_index :: "route_entry list \<Rightarrow> (string \<times> string, string \<times> u16) hashmap" where
  "upstream_index entries =
     hm_collect (map (\<lambda>e. ((re_tenant_id e, re_app_name e), (re_worker_addr e, re_port e))) entries)"

definition rate_limit_index ::
  "config \<Rightarrow> route_entry list \<Rightarrow> (string \<times> string, u32 \<times> u32) hashmap" where
  "rate_limit_index cfg entries =
     hm_collect (map (\<lambda>e. ((re_tenant_id e, re_app_name e),
        (case re_rate_limit_rps e of Some r \<Rightarrow> r | None \<Rightarrow> rate_limit_rps_default cfg,
         case re_rate_limit_burst e of Some b \<Rightarrow> b | None \<Rightarrow> rate_limit_burst_default cfg)))
       entries)"

text \<open>\<open>d.as_secs_f64().to_string()\<close>: the shortest decimal that reads back as the number of seconds.
  For fewer than 16 significant digits (11 days in nanoseconds) it is the exact quotient.\<close>

definition secs_string :: "duration \<Rightarrow> string" where
  "secs_string d =
     (let frac = dec (d mod 1000000000);
          padded = replicate (9 - length frac) (CHR ''0'') @ frac;
          trimmed = rev (dropWhile (\<lambda>c. c = CHR ''0'') (rev padded))
      in dec (d div 1000000000) @ (if trimmed = [] then [] else ''.'' @ trimmed))"

definition health_checks_block :: "config \<Rightarrow> json" where
  "health_checks_block cfg =
     JObj [(''active'', JObj [(''uri'', JStr (health_check_uri cfg)),
                              (''expect_status'', JNum 2),
                              (''interval'', JStr (secs_string (health_check_interval cfg) @ ''s'')),
                              (''timeout'', JStr (secs_string (health_check_timeout cfg) @ ''s'')),
                              (''max_fails'', ju (health_check_max_fails cfg))]),
           (''passive'', JObj [(''fail_duration'', JStr ''30s''), (''max_fails'', JNum 2),
                               (''unhealthy_request_count'', JNum 3)])]"

definition positive :: "u32 \<Rightarrow> u32 option" where
  "positive x = (if x > 0 then Some x else None)"

definition fqdn_limits ::
  "config \<Rightarrow> rate_limit_cache \<Rightarrow> route_entry list \<Rightarrow> fqdn_binding \<Rightarrow> u32 \<times> u32" where
  "fqdn_limits cfg rate_limit_cache entries b =
     (let cached = rl_get rate_limit_cache (fb_tenant_id b) (fb_app_name b);
          from_entry = (case hm_get (rate_limit_index cfg entries) (fb_tenant_id b, fb_app_name b) of
                          Some x \<Rightarrow> x | None \<Rightarrow> (0, 0))
      in (or_default (opt_or (map_option rl_rps cached) (positive (fst from_entry)))
            (rate_limit_rps_default cfg),
          or_default (opt_or (map_option rl_burst cached) (positive (snd from_entry)))
            (rate_limit_burst_default cfg)))"

definition fqdn_402_route :: "fqdn_binding \<Rightarrow> json" where
  "fqdn_402_route b =
     JObj [(''@id'', JStr (fb_fqdn b @ '':quota-402-fqdn'')),
           (''match'', host_match (fb_fqdn b)),
           (''handle'', payment_required),
           (''terminal'', JBool True),
           (''tls'', JObj [(''on_demand'', JObj [])])]"

definition fqdn_proxy_route ::
  "config \<Rightarrow> rate_limit_cache \<Rightarrow> route_entry list \<Rightarrow> fqdn_binding \<Rightarrow> string \<times> u16 \<Rightarrow> json" where
  "fqdn_proxy_route cfg rate_limit_cache entries b = (\<lambda>(worker_addr, port).
     let (fqdn_rps, fqdn_burst) = fqdn_limits cfg rate_limit_cache entries b;
         upstreams = JArr [JObj [(''dial'', JStr (dial worker_addr port))]];
         fqdn_handle_chain = host_rate_limit fqdn_rps fqdn_burst
           @ [reverse_proxy upstreams (health_checks_block cfg)]
     in JObj [(''@id'', JStr (fb_fqdn b)),
              (''match'', host_match (fb_fqdn b)),
              (''handle'', subroute fqdn_handle_chain),
              (''terminal'', JBool True),
              (''tls'', JObj [(''on_demand'', JObj [])])])"

text \<open>The body of \<open>for b in sorted_fqdns\<close>: the routes it pushes.\<close>

definition fqdn_routes_of ::
  "config \<Rightarrow> rate_limit_cache \<Rightarrow> quota_cache \<Rightarrow> route_entry list \<Rightarrow> fqdn_binding \<Rightarrow> json list" where
  "fqdn_routes_of cfg rate_limit_cache quota_cache entries b =
     (case hm_get (upstream_index entries) (fb_tenant_id b, fb_app_name b) of
        None \<Rightarrow> []
      | Some upstream \<Rightarrow>
          if fb_tenant_id b \<in> set (over_cap_tenants quota_cache entries) then [fqdn_402_route b]
          else [fqdn_proxy_route cfg rate_limit_cache entries b upstream])"

definition fqdn_routes ::
  "config \<Rightarrow> rate_limit_cache \<Rightarrow> quota_cache \<Rightarrow> route_entry list \<Rightarrow> fqdn_binding list \<Rightarrow> json list" where
  "fqdn_routes cfg rate_limit_cache quota_cache entries fqdns =
     concat (map (fqdn_routes_of cfg rate_limit_cache quota_cache entries) (sort_key fb_fqdn fqdns))"

section \<open>The route list\<close>

definition per_ip_route :: "config \<Rightarrow> json" where
  "per_ip_route cfg =
     (let burst = (if per_ip_burst cfg > 0 then per_ip_burst cfg else per_ip_rps cfg)
      in JObj [(''match'', JArr [JObj [(''remote_ip'', JObj [(''ranges'', JArr [JStr ''0.0.0.0/0''])])]]),
               (''handle'', JArr [JObj [(''handler'', JStr ''rate_limit''),
                                        (''rates'', rates (per_ip_rps cfg) burst),
                                        (''key'', JStr ''{http.request.remote_host}'')]]),
               (''terminal'', JBool False)])"

definition global_rl_route :: "config \<Rightarrow> json" where
  "global_rl_route cfg =
     (let burst = (if global_rate_limit_burst cfg > 0 then global_rate_limit_burst cfg
                   else global_rate_limit_rps cfg)
      in JObj [(''@id'', JStr ''global-rate-limit''),
               (''match'', JArr [JObj [(''remote_ip'',
                  JObj [(''ranges'', JArr [JStr ''0.0.0.0/0'', JStr ''::/0''])])]]),
               (''handle'', JArr [JObj [(''handler'', JStr ''rate_limit''),
                                        (''rates'', rates (global_rate_limit_rps cfg) burst),
                                        (''key'', JStr ''global-platform'')]]),
               (''terminal'', JBool False)])"

record caches =
  c_traffic :: traffic_split_cache
  c_rate_limit :: rate_limit_cache
  c_quota :: quota_cache
  c_tenant :: tenant_rate_limit_cache
  c_global :: global_rps_cache

definition cross_replica_cap :: "instant \<Rightarrow> config \<Rightarrow> caches \<Rightarrow> u32 option" where
  "cross_replica_cap now cfg cs =
     (if ingress_rate_limit_aggregation cfg \<and> global_rate_limit_rps cfg > 0
      then current_local_cap now (c_global cs) (2 * global_rps_tick_interval cfg) else None)"

text \<open>The vector \<open>routes\<close>: \<open>split_off(n)\<close> is \<open>drop n\<close>, what stays is \<open>take n\<close>.\<close>

definition render_route_list ::
  "instant \<Rightarrow> route_entry list \<Rightarrow> fqdn_binding list \<Rightarrow> config \<Rightarrow> caches \<Rightarrow> json list" where
  "render_route_list now entries fqdns cfg cs =
     (let routes = app_routes cfg (c_traffic cs) (c_rate_limit cs) entries;
          quota_402_routes = map quota_402_route (over_cap_tenants (c_quota cs) entries);
          quota_402_route_count = length quota_402_routes;
          routes = quota_402_routes @ routes;
          concurrent = map tenant_concurrent_route (concurrent_caps (c_tenant cs));
          bandwidth = map tenant_bandwidth_route (bandwidth_caps (c_tenant cs));
          tenant_rl = map tenant_rl_route (active_caps (c_tenant cs));
          routes = (if concurrent \<noteq> [] \<or> bandwidth \<noteq> [] \<or> tenant_rl \<noteq> []
                    then take quota_402_route_count routes @ concurrent @ bandwidth @ tenant_rl
                         @ drop quota_402_route_count routes
                    else routes);
          routes = (case cross_replica_cap now cfg cs of
                      Some rps \<Rightarrow>
                        let per_app_start = quota_402_route_count + length concurrent
                                            + length bandwidth + length tenant_rl
                        in take per_app_start routes @ [cross_replica_route rps]
                           @ drop per_app_start routes
                    | None \<Rightarrow> routes);
          routes = routes @ fqdn_routes cfg (c_rate_limit cs) (c_quota cs) entries fqdns;
          routes = (if per_ip_rps cfg > 0 then per_ip_route cfg # routes else routes);
          routes = (if global_rate_limit_rps cfg > 0 then global_rl_route cfg # routes else routes)
      in routes)"

section \<open>The document\<close>

definition SERVER_NAME_HTTPS :: string where "SERVER_NAME_HTTPS = ''edge_https''"
definition SERVER_NAME_HTTP :: string where "SERVER_NAME_HTTP = ''edge_http''"

definition edge_https :: "config \<Rightarrow> json list \<Rightarrow> json" where
  "edge_https cfg routes =
     JObj ([(''listen'', JArr [JStr (listen_https cfg)]), (''routes'', JArr routes)]
           @ (if max_conns cfg > 0 then [(''max_conns'', ju (max_conns cfg))] else [])
           @ (if max_conns_per_ip cfg > 0 then [(''max_conns_per_ip'', ju (max_conns_per_ip cfg))] else []))"

definition edge_http :: "config \<Rightarrow> json" where
  "edge_http cfg =
     JObj [(''listen'', JArr [JStr (listen_http cfg)]),
           (''routes'', JArr [JObj [(''handle'', JArr [JObj
              [(''handler'', JStr ''static_response''),
               (''headers'', JObj [(''Location'', JArr [JStr ''{http.request.uri}''])]),
               (''status_code'', JNum 308)]])]])]"

definition tls_block :: "config \<Rightarrow> json" where
  "tls_block cfg =
     JObj ([(''certificates'', JObj [(''load_files'', JArr
              ([JObj [(''certificate'', JStr (cert_file cfg)), (''key'', JStr (key_file cfg))]]
               @ (case (cert_file_2 cfg, key_file_2 cfg) of
                    (Some cert2, Some key2) \<Rightarrow>
                      [JObj [(''certificate'', JStr cert2), (''key'', JStr key2)]]
                  | _ \<Rightarrow> [])))])]
           @ (if control_plane_url cfg \<noteq> []
              then [(''automation'', JObj [(''on_demand'',
                      JObj [(''ask'', JStr (control_plane_url cfg @ ''/api/internal/tls-allowed''))])])]
              else []))"

definition render_routes ::
  "instant \<Rightarrow> route_entry list \<Rightarrow> fqdn_binding list \<Rightarrow> config \<Rightarrow> caches \<Rightarrow> json" where
  "render_routes now entries fqdns cfg cs =
     (let routes = render_route_list now entries fqdns cfg cs;
          servers = [(SERVER_NAME_HTTPS, edge_https cfg routes)]
            @ (if http_to_https cfg then [(SERVER_NAME_HTTP, edge_http cfg)] else [])
      in JObj [(''admin'', JObj [(''listen'', JStr (caddy_admin_listen cfg))]),
               (''apps'', JObj [(''http'', JObj [(''servers'', JObj servers)]),
                                (''tls'', tls_block cfg)])])"

section \<open>Layer 4\<close>

definition l4_server :: "quota_cache \<Rightarrow> l4_route_entry \<Rightarrow> json" where
  "l4_server quota_cache entry =
     JObj [(''listen'', JArr [JStr ('':'' @ dec (unat (le_public_port entry)))]),
           (''routes'',
            if is_over_cap quota_cache (le_tenant_id entry) then JArr []
            else JArr [JObj [(''handle'', JArr [JObj
                   [(''handler'', JStr ''proxy''),
                    (''upstreams'', JArr [JObj [(''dial'',
                       JStr (dial (le_worker_addr entry) (le_upstream_port entry)))]])]])]])]"

definition l4_servers :: "quota_cache \<Rightarrow> l4_route_entry list \<Rightarrow> (string, json) hashmap" where
  "l4_servers quota_cache entries =
     fold (\<lambda>entry. hm_insert (server_id entry) (l4_server quota_cache entry))
       (sort_key le_public_port entries) []"

definition render_l4_routes :: "l4_route_entry list \<Rightarrow> config \<Rightarrow> quota_cache \<Rightarrow> json" where
  "render_l4_routes entries cfg quota_cache =
     JObj [(''admin'', JObj [(''listen'', JStr (caddy_admin_listen cfg))]),
           (''apps'', JObj [(''layer4'', JObj [(''servers'', JObj (l4_servers quota_cache entries))])])]"

definition render_full :: "json \<Rightarrow> l4_route_entry list \<Rightarrow> config \<Rightarrow> quota_cache \<Rightarrow> json" where
  "render_full http_payload l4_entries cfg quota_cache =
     (let l4_payload = render_l4_routes l4_entries cfg quota_cache;
          http_obj = (case as_object http_payload of Some o' \<Rightarrow> o' | None \<Rightarrow> []);
          merged_apps = (case Option.bind (hm_get http_obj ''apps'') as_object of
                           Some a \<Rightarrow> a | None \<Rightarrow> []);
          http_obj = hm_remove ''apps'' http_obj;
          merged_apps = (case Option.bind (jget ''apps'' l4_payload) as_object of
                           Some l4_apps \<Rightarrow> fold (\<lambda>(k, v). hm_insert k v) l4_apps merged_apps
                         | None \<Rightarrow> merged_apps)
      in JObj (hm_insert ''apps'' (JObj merged_apps) http_obj))"

section \<open>Groups\<close>

abbreviation app_of :: "route_entry \<Rightarrow> string \<times> string" where
  "app_of e \<equiv> (re_tenant_id e, re_app_name e)"

lemma group_fold:
  "hm_get (fold push_group es m) k =
     (case (hm_get m k, filter (\<lambda>e. app_of e = k) es) of
        (None, []) \<Rightarrow> None
      | (None, g) \<Rightarrow> Some g
      | (Some g, g') \<Rightarrow> Some (g @ g'))"
  by (induction es arbitrary: m) (auto simp: push_group_def Let_def split: option.split list.split)

lemma group_entries_get:
  "hm_get (group_entries es) k =
     (case filter (\<lambda>e. app_of e = k) es of [] \<Rightarrow> None | g \<Rightarrow> Some g)"
  by (simp add: group_entries_def group_fold)

lemma group_entries_wf: "hm_wf (group_entries es)"
proof -
  have "hm_wf m \<Longrightarrow> hm_wf (fold push_group es m)" for m
    by (induction es arbitrary: m) (auto simp: push_group_def Let_def)
  then show ?thesis by (simp add: group_entries_def)
qed

lemma set_group_keys: "set (group_keys es) = app_of ` set es"
proof -
  have "k \<in> set (group_keys es) \<longleftrightarrow> filter (\<lambda>e. app_of e = k) es \<noteq> []" for k
    by (simp add: group_keys_def hm_keys_iff hm_contains_def group_entries_get split: list.split)
  then show ?thesis by (auto simp: filter_empty_conv)
qed

lemma distinct_group_keys: "distinct (group_keys es)"
  by (simp add: group_keys_def group_entries_wf)

lemma mset_group_sorted: "mset (group_sorted es k) = mset (filter (\<lambda>e. app_of e = k) es)"
proof -
  have "(case hm_get (group_entries es) k of Some g \<Rightarrow> g | None \<Rightarrow> []) = filter (\<lambda>e. app_of e = k) es"
    by (auto simp: group_entries_get split: list.split)
  then show ?thesis by (simp add: group_sorted_def)
qed

lemma set_over_cap: "set (over_cap_tenants q es) = {t \<in> re_tenant_id ` set es. is_over_cap q t}"
  by (force simp: over_cap_tenants_def set_group_keys)

section \<open>Order of the route list\<close>

lemma route_list_sections:
  "render_route_list now entries fqdns cfg cs =
     (if global_rate_limit_rps cfg > 0 then [global_rl_route cfg] else []) @
     (if per_ip_rps cfg > 0 then [per_ip_route cfg] else []) @
     map quota_402_route (over_cap_tenants (c_quota cs) entries) @
     (map tenant_concurrent_route (concurrent_caps (c_tenant cs)) @
      map tenant_bandwidth_route (bandwidth_caps (c_tenant cs)) @
      map tenant_rl_route (active_caps (c_tenant cs)) @
      (case cross_replica_cap now cfg cs of Some rps \<Rightarrow> [cross_replica_route rps] | None \<Rightarrow> [])) @
     app_routes cfg (c_traffic cs) (c_rate_limit cs) entries @
     fqdn_routes cfg (c_rate_limit cs) (c_quota cs) entries fqdns"
  by (simp add: render_route_list_def Let_def split: option.split)

text \<open>Claim C36 (the splices build one fixed order). Whatever routes are present, the list is: global
  cap, per-IP cap, quota blocks, concurrency caps, bandwidth caps, tenant rate limits, cross-replica
  cap, app routes, custom domains. In particular every quota block stands before every route that
  proxies, and the index arithmetic of the two splices never lands inside a section.\<close>

theorem render_route_list_order:
  "render_route_list now entries fqdns cfg cs =
     (if global_rate_limit_rps cfg > 0 then [global_rl_route cfg] else []) @
     (if per_ip_rps cfg > 0 then [per_ip_route cfg] else []) @
     map quota_402_route (over_cap_tenants (c_quota cs) entries) @
     map tenant_concurrent_route (concurrent_caps (c_tenant cs)) @
     map tenant_bandwidth_route (bandwidth_caps (c_tenant cs)) @
     map tenant_rl_route (active_caps (c_tenant cs)) @
     (case cross_replica_cap now cfg cs of Some rps \<Rightarrow> [cross_replica_route rps] | None \<Rightarrow> []) @
     app_routes cfg (c_traffic cs) (c_rate_limit cs) entries @
     fqdn_routes cfg (c_rate_limit cs) (c_quota cs) entries fqdns"
  by (simp add: route_list_sections)

section \<open>Which route serves a host\<close>

text \<open>How Caddy uses the list: the first terminal route whose matchers accept the request ends the
  search. Matching a regular expression is Caddy's: \<open>rx\<close> is a parameter, and \<open>re2_on_tenants\<close> states
  what RE2 does on the one form of pattern the renderer emits, for a tenant id without characters that
  RE2 interprets - the part after \<open>tenant-\<close> up to the first dot is not empty, and the rest matches the
  suffix, in which a dot stands for any character but a newline.\<close>

definition matcher_accepts :: "(string \<Rightarrow> string \<Rightarrow> bool) \<Rightarrow> string \<Rightarrow> json \<Rightarrow> bool" where
  "matcher_accepts rx host m \<longleftrightarrow>
     (case jget ''host'' m of Some (JArr hs) \<Rightarrow> JStr host \<in> set hs | _ \<Rightarrow> True) \<and>
     (case jget ''host_regexp'' m of Some (JStr p) \<Rightarrow> rx p host | _ \<Rightarrow> True)"

definition route_accepts :: "(string \<Rightarrow> string \<Rightarrow> bool) \<Rightarrow> string \<Rightarrow> json \<Rightarrow> bool" where
  "route_accepts rx host r =
     (case jget ''match'' r of Some (JArr ms) \<Rightarrow> list_ex (matcher_accepts rx host) ms | _ \<Rightarrow> True)"

definition serving_route :: "(string \<Rightarrow> string \<Rightarrow> bool) \<Rightarrow> json list \<Rightarrow> string \<Rightarrow> json option" where
  "serving_route rx routes host =
     find (\<lambda>r. jget ''terminal'' r = Some (JBool True) \<and> route_accepts rx host r) routes"

definition suffix_matches :: "string \<Rightarrow> bool" where
  "suffix_matches s =
     list_all2 (\<lambda>p c. if p = CHR ''.'' then c \<noteq> CHR 0x0A else c = p) INGRESS_HOST_SUFFIX s"

definition tenant_host :: "string \<Rightarrow> string \<Rightarrow> bool" where
  "tenant_host tenant host =
     (case strip_prefix (tenant @ ''-'') host of
        None \<Rightarrow> False
      | Some r \<Rightarrow> (case split_once (CHR ''.'') r of
                     None \<Rightarrow> False
                   | Some (a, s) \<Rightarrow> a \<noteq> [] \<and> suffix_matches s))"

definition re2_on_tenants :: "(string \<Rightarrow> string \<Rightarrow> bool) \<Rightarrow> bool" where
  "re2_on_tenants rx \<longleftrightarrow> (\<forall>tenant host. plain_id tenant \<longrightarrow>
     rx (tenant_pattern tenant) host = tenant_host tenant host)"

lemma tenant_host_ingress:
  assumes "tenants_apart ts" and "t' \<in> ts" and "t \<in> ts"
  shows "tenant_host t' (ingress_host t a) \<longleftrightarrow> t' = t \<and> a \<noteq> [] \<and> CHR ''.'' \<notin> set a"
proof -
  have host: "ingress_host t a = t @ CHR ''-'' # (a @ CHR ''.'' # INGRESS_HOST_SUFFIX)"
    by (simp add: ingress_host_def)
  have strip: "strip_prefix (t' @ ''-'') (ingress_host t a) = Some r \<longleftrightarrow>
      t' = t \<and> r = a @ CHR ''.'' # INGRESS_HOST_SUFFIX" for r
    using tenants_apart_append [OF assms(1,3,2), of "a @ CHR ''.'' # INGRESS_HOST_SUFFIX" r]
    by (auto simp: strip_prefix_Some host)
  have none: "strip_prefix (t' @ ''-'') (ingress_host t a) = None \<longleftrightarrow> t' \<noteq> t"
    using strip by (metis not_None_eq)
  have refl: "suffix_matches INGRESS_HOST_SUFFIX"
    by (simp add: suffix_matches_def INGRESS_HOST_SUFFIX_def)
  have long: "\<not> suffix_matches (b @ CHR ''.'' # INGRESS_HOST_SUFFIX)" for b
    by (auto simp: suffix_matches_def dest: list_all2_lengthD)
  show ?thesis
  proof (cases "t' = t")
    case True
    then have s: "strip_prefix (t' @ ''-'') (ingress_host t a) =
        Some (a @ CHR ''.'' # INGRESS_HOST_SUFFIX)" using strip by blast
    show ?thesis
    proof (cases "CHR ''.'' \<in> set a")
      case True
      then obtain b c where "a = b @ CHR ''.'' # c" "CHR ''.'' \<notin> set b"
        by (metis split_list_first)
      with s True \<open>t' = t\<close> long show ?thesis
        by (simp add: tenant_host_def split_once_append)
    next
      case False
      with s True refl show ?thesis by (simp add: tenant_host_def split_once_append)
    qed
  next
    case False
    with none show ?thesis by (simp add: tenant_host_def)
  qed
qed

lemma find_append:
  "find P (xs @ ys) = (case find P xs of Some x \<Rightarrow> Some x | None \<Rightarrow> find P ys)"
  by (induction xs) auto

lemma find_map_unique:
  assumes "\<And>x. x \<in> set xs \<Longrightarrow> P (f x) \<longleftrightarrow> Q \<and> x = x0"
  shows "find P (map f xs) = (if Q \<and> x0 \<in> set xs then Some (f x0) else None)"
  using assms by (induction xs) auto

text \<open>What each section contributes.\<close>

lemma not_terminal:
  "jget ''terminal'' (global_rl_route cfg) = Some (JBool False)"
  "jget ''terminal'' (per_ip_route cfg) = Some (JBool False)"
  "jget ''terminal'' (tenant_concurrent_route c) = Some (JBool False)"
  "jget ''terminal'' (tenant_bandwidth_route c) = Some (JBool False)"
  "jget ''terminal'' (tenant_rl_route c) = Some (JBool False)"
  "jget ''terminal'' (cross_replica_route rps) = Some (JBool False)"
  by (simp_all add: global_rl_route_def per_ip_route_def tenant_concurrent_route_def
      tenant_bandwidth_route_def tenant_rl_route_def cross_replica_route_def Let_def split: prod.split)

lemma quota_402_route_accepts:
  assumes "re2_on_tenants rx" and "plain_id t"
  shows "jget ''terminal'' (quota_402_route t) = Some (JBool True)"
    and "route_accepts rx host (quota_402_route t) \<longleftrightarrow> tenant_host t host"
  using assms
  by (simp_all add: quota_402_route_def route_accepts_def matcher_accepts_def tenant_match_def
      re2_on_tenants_def)

lemma app_route_accepts:
  "jget ''terminal'' (app_route cfg tc rl es k) = Some (JBool True)"
  "route_accepts rx host (app_route cfg tc rl es k) \<longleftrightarrow> ingress_host (fst k) (snd k) = host"
  by (auto simp: app_route_def route_accepts_def matcher_accepts_def host_match_def Let_def
      split: prod.split)

lemma serving_route_sections:
  "serving_route rx (render_route_list now entries fqdns cfg cs) host =
     (case serving_route rx (map quota_402_route (over_cap_tenants (c_quota cs) entries)) host of
        Some r \<Rightarrow> Some r
      | None \<Rightarrow>
          (case serving_route rx (app_routes cfg (c_traffic cs) (c_rate_limit cs) entries) host of
             Some r \<Rightarrow> Some r
           | None \<Rightarrow> serving_route rx (fqdn_routes cfg (c_rate_limit cs) (c_quota cs) entries fqdns) host))"
proof -
  define caps where "caps = map tenant_concurrent_route (concurrent_caps (c_tenant cs)) @
      map tenant_bandwidth_route (bandwidth_caps (c_tenant cs)) @
      map tenant_rl_route (active_caps (c_tenant cs)) @
      (case cross_replica_cap now cfg cs of Some rps \<Rightarrow> [cross_replica_route rps] | None \<Rightarrow> [])"
  have "serving_route rx caps host = None"
    by (auto simp: caps_def serving_route_def find_None_iff not_terminal split: option.splits)
  then show ?thesis
    unfolding route_list_sections caps_def [symmetric] serving_route_def
    by (simp add: find_append not_terminal cong: option.case_cong)
qed

lemma serving_quota_block:
  assumes "re2_on_tenants rx" and "\<forall>e \<in> set entries. plain_id (re_tenant_id e)"
    and "tenants_apart (re_tenant_id ` set entries)" and "e \<in> set entries"
  shows "serving_route rx (map quota_402_route (over_cap_tenants q entries))
      (ingress_host (re_tenant_id e) (re_app_name e)) =
    (if is_over_cap q (re_tenant_id e) \<and> re_app_name e \<noteq> [] \<and> CHR ''.'' \<notin> set (re_app_name e)
     then Some (quota_402_route (re_tenant_id e)) else None)"
proof -
  have "serving_route rx (map quota_402_route (over_cap_tenants q entries))
      (ingress_host (re_tenant_id e) (re_app_name e)) =
    (if (re_app_name e \<noteq> [] \<and> CHR ''.'' \<notin> set (re_app_name e)) \<and>
        re_tenant_id e \<in> set (over_cap_tenants q entries)
     then Some (quota_402_route (re_tenant_id e)) else None)"
    unfolding serving_route_def
  proof (rule find_map_unique)
    fix t assume "t \<in> set (over_cap_tenants q entries)"
    with assms(2) have t: "plain_id t" "t \<in> re_tenant_id ` set entries" by (auto simp: set_over_cap)
    with assms(1,4) show "(jget ''terminal'' (quota_402_route t) = Some (JBool True) \<and>
        route_accepts rx (ingress_host (re_tenant_id e) (re_app_name e)) (quota_402_route t)) \<longleftrightarrow>
      (re_app_name e \<noteq> [] \<and> CHR ''.'' \<notin> set (re_app_name e)) \<and> t = re_tenant_id e"
      by (auto simp: quota_402_route_accepts tenant_host_ingress [OF assms(3) t(2)])
  qed
  with assms(4) show ?thesis by (auto simp: set_over_cap)
qed

lemma serving_app_route:
  assumes "tenants_apart (re_tenant_id ` set entries)" and "e \<in> set entries"
  shows "serving_route rx (app_routes cfg tc rl entries) (ingress_host (re_tenant_id e) (re_app_name e)) =
    Some (app_route cfg tc rl entries (app_of e))"
proof -
  have "serving_route rx (app_routes cfg tc rl entries)
      (ingress_host (re_tenant_id e) (re_app_name e)) =
    (if True \<and> app_of e \<in> set (group_keys entries)
     then Some (app_route cfg tc rl entries (app_of e)) else None)"
    unfolding serving_route_def app_routes_def
  proof (rule find_map_unique)
    fix k assume "k \<in> set (group_keys entries)"
    then have k: "fst k \<in> re_tenant_id ` set entries" by (auto simp: set_group_keys)
    from assms(2) show "(jget ''terminal'' (app_route cfg tc rl entries k) = Some (JBool True) \<and>
        route_accepts rx (ingress_host (re_tenant_id e) (re_app_name e)) (app_route cfg tc rl entries k))
      \<longleftrightarrow> True \<and> k = app_of e"
      using ingress_host_inj [OF assms(1) k, of "re_tenant_id e" "snd k" "re_app_name e"]
      by (auto simp: app_route_accepts prod_eq_iff)
  qed
  with assms(2) show ?thesis by (simp add: set_group_keys)
qed

text \<open>Claim C13 (the host of an app is served by its own route, or blocked). For every app in the
  routing table, the request for its public host ends at the quota block of its tenant - status 402 -
  when the tenant is over its cap and the app name holds no dot, and otherwise at the proxy route of
  exactly that app. Under an over-cap tenant an app with a dotted name is therefore still proxied.
  The tenant ids of the table are assumed to hold only letters, digits, hyphens and underscores, and
  no id with a hyphen after it may begin another one; the ids that the control plane issues have both
  properties. For ids within these conditions, regular expressions match as RE2 does.\<close>

theorem app_host_serving:
  assumes "re2_on_tenants rx" and "\<forall>e \<in> set entries. plain_id (re_tenant_id e)"
    and "tenants_apart (re_tenant_id ` set entries)" and "e \<in> set entries"
  shows "serving_route rx (render_route_list now entries fqdns cfg cs)
      (ingress_host (re_tenant_id e) (re_app_name e)) =
    Some (if is_over_cap (c_quota cs) (re_tenant_id e) \<and> re_app_name e \<noteq> [] \<and>
             CHR ''.'' \<notin> set (re_app_name e)
          then quota_402_route (re_tenant_id e)
          else app_route cfg (c_traffic cs) (c_rate_limit cs) entries
                 (re_tenant_id e, re_app_name e))"
  unfolding serving_route_sections
  by (simp add: serving_quota_block [OF assms] serving_app_route [OF assms(3,4)])

text \<open>A matcher that meets the hypothesis: recover the tenant from the pattern.\<close>

definition re2_sample :: "string \<Rightarrow> string \<Rightarrow> bool" where
  "re2_sample p host =
     (let t = take (length p - length (tenant_pattern [])) (drop 1 p)
      in p = tenant_pattern t \<and> tenant_host t host)"

lemma re2_sample: "re2_on_tenants re2_sample"
  by (simp add: re2_on_tenants_def re2_sample_def tenant_pattern_def)

definition sample_tenant :: string where
  "sample_tenant = issued_tenant_id ''6ba7b810-9dad-11d1-80b4-00c04fd430c8''"

definition sample_entry :: "string \<Rightarrow> string \<Rightarrow> route_entry" where
  "sample_entry t a = upsert_entry 0 t a None 100 ''10.0.0.5'' 8080 ''running''"

definition sample_caches :: caches where
  "sample_caches =
     \<lparr>c_traffic = \<lparr>tsc_inner = [], tsc_fetched_at = []\<rparr>, c_rate_limit = \<lparr>rl_inner = []\<rparr>,
      c_quota = \<lparr>qc_inner = [(sample_tenant, \<lparr>qs_over_cap = True, qs_locked_until = None,
                                       qs_fetched_at = None\<rparr>)]\<rparr>,
      c_tenant = \<lparr>tc_inner = []\<rparr>, c_global = gc_new\<rparr>"

definition render_config :: config where
  "render_config = config_of_env (\<lambda>_. None) (\<lambda>_. None) ''eu'' ''cert.pem'' ''key.pem'' 31000 31999"

definition sample_table :: "route_entry list" where
  "sample_table = [sample_entry sample_tenant ''web'', sample_entry sample_tenant ''my.v2'',
     sample_entry (issued_tenant_id ''6ba7b811-9dad-11d1-80b4-00c04fd430c8'') ''web'']"

lemma sample_table_tenants:
  "(\<forall>e \<in> set sample_table. plain_id (re_tenant_id e)) \<and> tenants_apart (re_tenant_id ` set sample_table)"
  using issued_tenant_ids [of "{''6ba7b810-9dad-11d1-80b4-00c04fd430c8'', ''6ba7b811-9dad-11d1-80b4-00c04fd430c8''}"]
  by (simp add: sample_table_def sample_tenant_def sample_entry_def upsert_entry_def uuid_text_def upt_rec)

theorem app_host_serving_witness:
  "serving_route re2_sample (render_route_list 0 sample_table [] render_config sample_caches)
     ''t_6ba7b810-9dad-11d1-80b4-00c04fd430c8-web.edgecloud.dev'' = Some (quota_402_route sample_tenant) \<and>
   serving_route re2_sample (render_route_list 0 sample_table [] render_config sample_caches)
     ''t_6ba7b810-9dad-11d1-80b4-00c04fd430c8-my.v2.edgecloud.dev'' =
     Some (app_route render_config (c_traffic sample_caches) (c_rate_limit sample_caches)
             sample_table (sample_tenant, ''my.v2''))"
  using app_host_serving [OF re2_sample sample_table_tenants [THEN conjunct1] sample_table_tenants [THEN conjunct2],
      of "sample_entry sample_tenant ''web''" 0 "[]" render_config sample_caches]
    app_host_serving [OF re2_sample sample_table_tenants [THEN conjunct1] sample_table_tenants [THEN conjunct2],
      of "sample_entry sample_tenant ''my.v2''" 0 "[]" render_config sample_caches]
  by (simp add: sample_table_def sample_entry_def upsert_entry_def ingress_host_def INGRESS_HOST_SUFFIX_def
      sample_caches_def is_over_cap_def hm_get_Cons sample_tenant_def issued_tenant_id_def)

subsection \<open>Custom domains\<close>

lemma fqdn_routes_of_accepts:
  assumes "r \<in> set (fqdn_routes_of cfg rl q es b)"
  shows "jget ''terminal'' r = Some (JBool True)"
    and "route_accepts rx host r \<longleftrightarrow> fb_fqdn b = host"
  using assms
  by (auto simp: fqdn_routes_of_def fqdn_402_route_def fqdn_proxy_route_def route_accepts_def
      matcher_accepts_def host_match_def Let_def split: option.splits if_splits prod.splits)

lemma find_concat_unique:
  assumes "\<And>b r. b \<in> set bs \<Longrightarrow> r \<in> set (f b) \<Longrightarrow> P r \<longleftrightarrow> b = b0" and "b0 \<in> set bs"
    and "length (f b0) \<le> 1"
  shows "find P (concat (map f bs)) = (case f b0 of [] \<Rightarrow> None | r # _ \<Rightarrow> Some r)"
  using assms(1,2)
proof (induction bs)
  case (Cons b bs)
  note IH = Cons.IH and prems = Cons.prems
  show ?case
  proof (cases "f b0")
    case Nil
    have "find P (concat (map f (b # bs))) = None"
      using prems(1) Nil by (force simp: find_None_iff)
    with Nil show ?thesis by simp
  next
    case (Cons r rs)
    show ?thesis
    proof (cases "b = b0")
      case True
      with Cons prems(1) [of b r] show ?thesis by simp
    next
      case False
      then have "find P (f b) = None"
        using prems(1) by (auto simp: find_None_iff)
      with False IH prems show ?thesis by (simp add: find_append)
    qed
  qed
qed simp

text \<open>Custom domains. A request for a bound custom domain that is not the host of an app
  reaches: nothing while its app has no route; the 402 block of the domain when the tenant is over
  its cap; otherwise the proxy route of the domain, to the worker and port of an entry of its app.\<close>

theorem fqdn_serving:
  assumes "re2_on_tenants rx" and "b \<in> set fqdns" and "distinct (map fb_fqdn fqdns)"
    and "\<forall>e \<in> set entries. plain_id (re_tenant_id e) \<and> \<not> tenant_host (re_tenant_id e) (fb_fqdn b)"
    and "\<forall>e \<in> set entries. ingress_host (re_tenant_id e) (re_app_name e) \<noteq> fb_fqdn b"
  shows "case serving_route rx (render_route_list now entries fqdns cfg cs) (fb_fqdn b) of
      None \<Rightarrow> (fb_tenant_id b, fb_app_name b) \<notin> (\<lambda>e. (re_tenant_id e, re_app_name e)) ` set entries
    | Some r \<Rightarrow>
        (\<exists>e \<in> set entries. re_tenant_id e = fb_tenant_id b \<and> re_app_name e = fb_app_name b \<and>
           r = (if is_over_cap (c_quota cs) (fb_tenant_id b) then fqdn_402_route b
                else fqdn_proxy_route cfg (c_rate_limit cs) entries b (re_worker_addr e, re_port e)))"
proof -
  let ?idx = "hm_get (upstream_index entries) (fb_tenant_id b, fb_app_name b)"
  let ?f = "fqdn_routes_of cfg (c_rate_limit cs) (c_quota cs) entries"
  have "serving_route rx (map quota_402_route (over_cap_tenants (c_quota cs) entries)) (fb_fqdn b) = None"
    using assms(1,4) by (auto simp: serving_route_def find_None_iff quota_402_route_accepts set_over_cap)
  moreover have "serving_route rx (app_routes cfg (c_traffic cs) (c_rate_limit cs) entries) (fb_fqdn b) = None"
    using assms(5)
    by (auto simp: serving_route_def find_None_iff app_routes_def app_route_accepts set_group_keys)
  moreover have "serving_route rx (fqdn_routes cfg (c_rate_limit cs) (c_quota cs) entries fqdns) (fb_fqdn b) =
      (case ?f b of [] \<Rightarrow> None | r # _ \<Rightarrow> Some r)"
    unfolding serving_route_def fqdn_routes_def
  proof (rule find_concat_unique)
    show "(jget ''terminal'' r = Some (JBool True) \<and> route_accepts rx (fb_fqdn b) r) \<longleftrightarrow> b' = b"
      if "b' \<in> set (sort_key fb_fqdn fqdns)" "r \<in> set (?f b')" for b' r
      using that assms(2,3) by (auto simp: fqdn_routes_of_accepts distinct_map dest: inj_onD)
  qed (use assms(2) in \<open>auto simp: fqdn_routes_of_def split: option.split\<close>)
  ultimately have eq: "serving_route rx (render_route_list now entries fqdns cfg cs) (fb_fqdn b) =
      (case ?f b of [] \<Rightarrow> None | r # _ \<Rightarrow> Some r)"
    by (simp add: serving_route_sections)
  show ?thesis
  proof (cases ?idx)
    case None
    then show ?thesis
      unfolding eq using hm_get_collect_key
        [of app_of "\<lambda>e. (re_worker_addr e, re_port e)" entries "(fb_tenant_id b, fb_app_name b)"]
      by (auto simp: fqdn_routes_of_def upstream_index_def)
  next
    case (Some up)
    then obtain e where e: "e \<in> set entries" "app_of e = (fb_tenant_id b, fb_app_name b)"
      "(re_worker_addr e, re_port e) = up"
      unfolding upstream_index_def by (auto dest!: hm_get_collect_SomeD)
    then have "fb_tenant_id b \<in> set (over_cap_tenants (c_quota cs) entries) \<longleftrightarrow>
        is_over_cap (c_quota cs) (fb_tenant_id b)"
      by (force simp: set_over_cap)
    with Some e show ?thesis unfolding eq by (auto simp: fqdn_routes_of_def)
  qed
qed

definition sample_binding :: fqdn_binding where
  "sample_binding = \<lparr>fb_tenant_id = sample_tenant, fb_app_name = ''web'', fb_fqdn = ''shop.example''\<rparr>"

lemma sample_tenant_plain: "plain_id sample_tenant"
  using sample_table_tenants by (simp add: sample_table_def sample_entry_def upsert_entry_def)

theorem fqdn_serving_witness:
  "serving_route re2_sample (render_route_list 0 [sample_entry sample_tenant ''web''] [sample_binding]
     render_config sample_caches) ''shop.example'' = Some (fqdn_402_route sample_binding)"
proof -
  have "\<not> tenant_host t ''shop.example''" for t
  proof -
    have "strip_prefix (t @ ''-'') ''shop.example'' \<noteq> Some r" for r
    proof
      assume "strip_prefix (t @ ''-'') ''shop.example'' = Some r"
      then have "''shop.example'' = (t @ ''-'') @ r" by (simp only: strip_prefix_Some)
      moreover have "CHR ''-'' \<in> set ((t @ ''-'') @ r)" by simp
      ultimately have "CHR ''-'' \<in> set ''shop.example''" by (simp only:)
      then show False by simp
    qed
    then show ?thesis by (simp add: tenant_host_def split: option.split)
  qed
  moreover have other: "sample_tenant @ x \<noteq> ''shop.example''" for x
    by (simp add: sample_tenant_def issued_tenant_id_def)
  ultimately show ?thesis
    using fqdn_serving [OF re2_sample, where b = sample_binding and fqdns = "[sample_binding]"
        and entries = "[sample_entry sample_tenant ''web'']" and now = 0 and cfg = render_config
        and cs = sample_caches]
    by (auto simp: sample_binding_def sample_entry_def sample_tenant_plain other upsert_entry_def ingress_host_def
        sample_caches_def is_over_cap_def hm_get_Cons split: option.splits)
qed

section \<open>Upstreams\<close>

text \<open>Every deployment of an app is an upstream of its route, with its weight. The upstreams
  of the route of an app are the entries of that app in the snapshot, each once, ordered by
  deployment and worker; with several of them each carries the weight of the cached traffic split,
  or else the weight of the heartbeat.\<close>

theorem app_route_upstreams:
  assumes "(t, a) \<in> set (group_keys entries)"
  shows "mset (group_sorted entries (t, a)) =
      mset (filter (\<lambda>e. re_tenant_id e = t \<and> re_app_name e = a) entries) \<and>
    sorted (map (\<lambda>e. (re_deployment_id e, re_worker_addr e)) (group_sorted entries (t, a))) \<and>
    group_sorted entries (t, a) \<noteq> [] \<and>
    render_upstreams tc t a (group_sorted entries (t, a)) =
      (case group_sorted entries (t, a) of
         [e] \<Rightarrow> JArr [JObj [(''dial'', JStr (dial (re_worker_addr e) (re_port e)))]]
       | es \<Rightarrow> JArr (map (\<lambda>e. JObj
           [(''dial'', JStr (dial (re_worker_addr e) (re_port e))),
            (''weight'', ju (case re_deployment_id e of
                None \<Rightarrow> re_weight e
              | Some d \<Rightarrow> (case tsc_weight tc t a d of None \<Rightarrow> re_weight e | Some w \<Rightarrow> w)))]) es))"
proof -
  have eq: "(\<lambda>e. app_of e = (t, a)) = (\<lambda>e. re_tenant_id e = t \<and> re_app_name e = a)"
    by auto
  have "filter (\<lambda>e. app_of e = (t, a)) entries \<noteq> []"
    using assms by (auto simp: set_group_keys filter_empty_conv)
  then have "group_sorted entries (t, a) \<noteq> []"
    using mset_group_sorted [of entries "(t, a)"] by force
  moreover have "sorted (map (\<lambda>e. (re_deployment_id e, re_worker_addr e)) (group_sorted entries (t, a)))"
    unfolding group_sorted_def by (rule sorted_sort_key)
  ultimately show ?thesis
    using mset_group_sorted [of entries "(t, a)"] unfolding eq
    by (auto simp: render_upstreams_def upstream_weight_def split: list.split option.split)
qed

theorem app_route_upstreams_witness:
  "mset (group_sorted [sample_entry ''t_a'' ''web''] (''t_a'', ''web'')) = {# sample_entry ''t_a'' ''web'' #}"
proof -
  have "(''t_a'', ''web'') \<in> set (group_keys [sample_entry ''t_a'' ''web''])"
    by (simp add: set_group_keys sample_entry_def upsert_entry_def)
  from app_route_upstreams [OF this] show ?thesis
    by (simp add: sample_entry_def upsert_entry_def)
qed

section \<open>Layer 4 and the merged document\<close>

lemma fold_hm_insert_map:
  "fold (\<lambda>x. hm_insert (f x) (g x)) xs m = fold (\<lambda>(k, v). hm_insert k v) (map (\<lambda>x. (f x, g x)) xs) m"
  by (simp add: fold_map o_def)

lemma l4_servers_collect:
  "l4_servers q es = hm_collect (map (\<lambda>e. (server_id e, l4_server q e)) (sort_key le_public_port es))"
  by (simp add: l4_servers_def hm_collect_def fold_hm_insert_map)

lemma l4_servers_contains: "hm_contains (l4_servers q es) k \<longleftrightarrow> k \<in> server_id ` set es"
  by (simp add: l4_servers_collect)

lemma l4_servers_get:
  assumes "distinct (map le_public_port es)" and "e \<in> set es"
  shows "hm_get (l4_servers q es) (server_id e) = Some (l4_server q e)"
proof -
  have "hm_contains (l4_servers q es) (server_id e)"
    using assms(2) by (simp add: l4_servers_contains)
  then obtain v where v: "hm_get (l4_servers q es) (server_id e) = Some v"
    by (auto simp: hm_contains_def)
  then obtain e' where "e' \<in> set es" "server_id e' = server_id e" "v = l4_server q e'"
    unfolding l4_servers_collect by (auto dest!: hm_get_collect_SomeD)
  with assms v show ?thesis
    by (auto simp: server_id_inj distinct_map dest: inj_onD)
qed

text \<open>L4 servers. When the public ports of the entries are pairwise different, the rendered
  layer-4 tree has exactly one server per entry: it listens on the entry's public port, and has
  the proxy to the entry's worker as its only route, or no route at all - so that connections are
  closed - when the tenant is over its cap.\<close>

theorem l4_servers_exact:
  assumes "distinct (map le_public_port es)"
  shows "set (hm_keys (l4_servers q es)) = server_id ` set es \<and>
    (\<forall>e \<in> set es. \<exists>srv. hm_get (l4_servers q es) (server_id e) = Some srv \<and>
       jget ''listen'' srv = Some (JArr [JStr ('':'' @ dec (unat (le_public_port e)))]) \<and>
       jget ''routes'' srv = Some (JArr (if is_over_cap q (le_tenant_id e) then []
         else [JObj [(''handle'', JArr [JObj [(''handler'', JStr ''proxy''),
            (''upstreams'', JArr [JObj [(''dial'',
               JStr (le_worker_addr e @ '':'' @ dec (unat (le_upstream_port e))))]])]])]])))"
  using l4_servers_get [OF assms, of _ q]
  by (auto simp: hm_keys_iff l4_servers_contains l4_server_def dial_def)

theorem l4_servers_exact_witness:
  "hm_get (l4_servers \<lparr>qc_inner = []\<rparr>
      [l4_entry 0 ''t_a'' ''db'' 31000 ''10.0.0.5'' 9000, l4_entry 0 ''t_b'' ''mq'' 31001 ''10.0.0.5'' 9001])
     (server_id (l4_entry 0 ''t_b'' ''mq'' 31001 ''10.0.0.5'' 9001)) \<noteq> None"
proof -
  let ?es = "[l4_entry 0 ''t_a'' ''db'' 31000 ''10.0.0.5'' 9000,
    l4_entry 0 ''t_b'' ''mq'' 31001 ''10.0.0.5'' 9001]"
  have "distinct (map le_public_port ?es)" by (simp add: l4_entry_def)
  from l4_servers_exact [OF this, of "\<lparr>qc_inner = []\<rparr>"] show ?thesis by auto
qed

text \<open>Merging the two trees. The document sent to Caddy has the admin binding, the HTTP app
  and the TLS app of the HTTP renderer unchanged, and the layer-4 app of the L4 renderer next to
  them; with no L4 routes the layer-4 app is there with no servers.\<close>

theorem render_full_exact:
  "let http_payload = render_routes now entries fqdns cfg cs;
       doc = render_full http_payload l4_entries cfg q;
       apps = Option.bind (jget ''apps'' doc);
       http_apps = Option.bind (jget ''apps'' http_payload)
   in jget ''admin'' doc = jget ''admin'' http_payload \<and>
      apps (jget ''http'') = http_apps (jget ''http'') \<and> apps (jget ''http'') \<noteq> None \<and>
      apps (jget ''tls'') = http_apps (jget ''tls'') \<and> apps (jget ''tls'') \<noteq> None \<and>
      apps (jget ''layer4'') = Some (JObj [(''servers'', JObj (l4_servers q l4_entries))])"
  by (simp add: render_full_def render_routes_def render_l4_routes_def Let_def hm_get_Cons
      hm_remove_def hm_insert_def)

end
