(* ===== verification/Ingress_Client.thy ===== *)
theory Ingress_Client
  imports Edge_Prelude
begin

text \<open>
  The Caddy admin-API client (\<open>edge-ingress/src/caddy.rs\<close>, \<open>CaddyClient\<close> and the retry helpers).

  Sending a request is the argument \<open>send\<close>: from the number of the attempt to its outcome. The
  three retry loops differ in the statuses they accept; each is an instance of \<open>retry_loop\<close>,
  which returns the result together with the pauses it made, so that latency is a property of
  the model too.
\<close>

section \<open>Constants and outcomes\<close>

definition MAX_LOAD_ATTEMPTS :: nat where
  "MAX_LOAD_ATTEMPTS = 3"

definition INITIAL_BACKOFF :: duration where
  "INITIAL_BACKOFF = millis 100"

definition MAX_BACKOFF :: duration where
  "MAX_BACKOFF = secs 2"

datatype send_outcome = TransportErr string | Status nat string

datatype retry_result =
    Done
  | TransportFailed nat string
  | StatusFailed nat nat string
  | Unreachable

definition status_success :: "nat \<Rightarrow> bool" where
  "status_success status \<longleftrightarrow> 200 \<le> status \<and> status < 300"

definition is_retryable_status :: "nat \<Rightarrow> bool" where
  "is_retryable_status status \<longleftrightarrow>
     (500 \<le> status \<and> status < 600) \<or> status = 429 \<or> status = 408"

section \<open>The retry loops\<close>

text \<open>\<open>for attempt in 1..=MAX_LOAD_ATTEMPTS\<close>: the list holds the attempts that remain.\<close>

fun retry_loop ::
  "(nat \<Rightarrow> bool) \<Rightarrow> (nat \<Rightarrow> send_outcome) \<Rightarrow> nat list \<Rightarrow> duration \<Rightarrow> retry_result \<times> duration list" where
  "retry_loop ok send [] delay = (Unreachable, [])"
| "retry_loop ok send (attempt # attempts) delay =
     (case send attempt of
        TransportErr e \<Rightarrow>
          if attempt < MAX_LOAD_ATTEMPTS
          then (case retry_loop ok send attempts (min (delay * 2) MAX_BACKOFF) of
                  (r, sleeps) \<Rightarrow> (r, delay # sleeps))
          else (TransportFailed attempt e, [])
      | Status status body_txt \<Rightarrow>
          if ok status then (Done, [])
          else if is_retryable_status status \<and> attempt < MAX_LOAD_ATTEMPTS
          then (case retry_loop ok send attempts (min (delay * 2) MAX_BACKOFF) of
                  (r, sleeps) \<Rightarrow> (r, delay # sleeps))
          else (StatusFailed status attempt body_txt, []))"

definition post_with_retry :: "(nat \<Rightarrow> send_outcome) \<Rightarrow> retry_result \<times> duration list" where
  "post_with_retry send = retry_loop status_success send [1..<MAX_LOAD_ATTEMPTS + 1] INITIAL_BACKOFF"

definition put_with_retry :: "(nat \<Rightarrow> send_outcome) \<Rightarrow> retry_result \<times> duration list" where
  "put_with_retry send = retry_loop status_success send [1..<MAX_LOAD_ATTEMPTS + 1] INITIAL_BACKOFF"

definition delete_with_retry :: "(nat \<Rightarrow> send_outcome) \<Rightarrow> retry_result \<times> duration list" where
  "delete_with_retry send =
     retry_loop (\<lambda>status. status_success status \<or> status = 404) send
       [1..<MAX_LOAD_ATTEMPTS + 1] INITIAL_BACKOFF"

section \<open>URLs and the client\<close>

definition str_replace :: "char \<Rightarrow> string \<Rightarrow> string \<Rightarrow> string" where
  "str_replace c to s = concat (map (\<lambda>x. if x = c then to else [x]) s)"

definition encode_url_path :: "string \<Rightarrow> string" where
  "encode_url_path id' =
     str_replace (CHR ''?'') ''%3F''
       (str_replace (CHR ''#'') ''%23''
         (str_replace (CHR ''/'') ''%2F''
           (str_replace (CHR '':'') ''%3A''
             (str_replace (CHR ''%'') ''%25'' id'))))"

definition trim_end_matches :: "char \<Rightarrow> string \<Rightarrow> string" where
  "trim_end_matches c s = rev (dropWhile (\<lambda>x. x = c) (rev s))"

record caddy_client =
  cc_admin_url :: string
  cc_token :: "string option"

definition caddy_client_new :: "string \<Rightarrow> string option \<Rightarrow> caddy_client" where
  "caddy_client_new admin_url token =
     \<lparr>cc_admin_url = trim_end_matches (CHR ''/'') admin_url, cc_token = token\<rparr>"

text \<open>The admin API as the client sees it: method, URL, token, body and attempt number.\<close>

datatype http_method = POST | PUT | DELETE

type_synonym admin_api =
  "http_method \<Rightarrow> string \<Rightarrow> string option \<Rightarrow> json option \<Rightarrow> nat \<Rightarrow> send_outcome"

datatype client_error = MissingId | Failed retry_result

definition of_retry :: "retry_result \<times> duration list \<Rightarrow> client_error + unit" where
  "of_retry r = (case fst r of Done \<Rightarrow> Inr () | err \<Rightarrow> Inl (Failed err))"

definition load_config :: "admin_api \<Rightarrow> caddy_client \<Rightarrow> json \<Rightarrow> client_error + unit" where
  "load_config api c config =
     of_retry (post_with_retry (api POST (cc_admin_url c @ ''/load'') (cc_token c) (Some config)))"

definition upsert_route :: "admin_api \<Rightarrow> caddy_client \<Rightarrow> json \<Rightarrow> client_error + unit" where
  "upsert_route api c route =
     (case Option.bind (jget ''@id'' route) as_str of
        None \<Rightarrow> Inl MissingId
      | Some id' \<Rightarrow>
          of_retry (put_with_retry
            (api PUT (cc_admin_url c @ ''/id/'' @ encode_url_path id') (cc_token c) (Some route))))"

definition delete_route :: "admin_api \<Rightarrow> caddy_client \<Rightarrow> string \<Rightarrow> client_error + unit" where
  "delete_route api c id' =
     of_retry (delete_with_retry
       (api DELETE (cc_admin_url c @ ''/id/'' @ encode_url_path id') (cc_token c) None))"

section \<open>What a retry loop returns\<close>

definition retried :: "(nat \<Rightarrow> bool) \<Rightarrow> send_outcome \<Rightarrow> bool" where
  "retried ok out =
     (case out of TransportErr _ \<Rightarrow> True | Status s _ \<Rightarrow> \<not> ok s \<and> is_retryable_status s)"

definition accepted :: "(nat \<Rightarrow> bool) \<Rightarrow> send_outcome \<Rightarrow> bool" where
  "accepted ok out = (case out of TransportErr _ \<Rightarrow> False | Status s _ \<Rightarrow> ok s)"

lemma attempts_expand: "[1..<MAX_LOAD_ATTEMPTS + 1] = [1, 2, 3]"
  by (simp add: MAX_LOAD_ATTEMPTS_def upt_rec)

lemmas retry_unfold = attempts_expand MAX_LOAD_ATTEMPTS_def INITIAL_BACKOFF_def MAX_BACKOFF_def

lemma retry_three:
  "retry_loop ok send [1..<MAX_LOAD_ATTEMPTS + 1] INITIAL_BACKOFF =
     (if \<not> retried ok (send 1) then (fst (retry_loop ok send [1] INITIAL_BACKOFF), [])
      else if \<not> retried ok (send 2) then (fst (retry_loop ok send [2] INITIAL_BACKOFF), [millis 100])
      else (fst (retry_loop ok send [3] INITIAL_BACKOFF), [millis 100, millis 200]))"
  unfolding attempts_expand
  by (simp add: retry_unfold retried_def split: send_outcome.split)

lemma retry_last_Done:
  "fst (retry_loop ok send [3] d) = Done \<longleftrightarrow> accepted ok (send 3)"
  "a < 3 \<Longrightarrow> \<not> retried ok (send a) \<Longrightarrow>
     fst (retry_loop ok send [a] d) = Done \<longleftrightarrow> accepted ok (send a)"
  by (auto simp: MAX_LOAD_ATTEMPTS_def retried_def accepted_def split: send_outcome.splits)

lemma retry_last_reached:
  "fst (retry_loop ok send [3] d) \<noteq> Unreachable"
  "a < 3 \<Longrightarrow> \<not> retried ok (send a) \<Longrightarrow> fst (retry_loop ok send [a] d) \<noteq> Unreachable"
  by (auto simp: MAX_LOAD_ATTEMPTS_def retried_def split: send_outcome.splits)

text \<open>The retry loops. For each accepted-status test, the loop never reaches its
  \<open>unreachable!\<close>; it succeeds iff an attempt among the first three is accepted and every earlier one
  was a transport error or a retryable status; and it pauses at most twice, 300 ms in all.\<close>

theorem retry_loop_exact:
  "case retry_loop ok send [1..<MAX_LOAD_ATTEMPTS + 1] INITIAL_BACKOFF of
     (r, sleeps) \<Rightarrow>
       r \<noteq> Unreachable \<and>
       (r = Done \<longleftrightarrow> (\<exists>k \<in> {1, 2, 3}. accepted ok (send k) \<and> (\<forall>j \<in> {1..<k}. retried ok (send j)))) \<and>
       sleeps \<in> {[], [millis 100], [millis 100, millis 200]} \<and> sum_list sleeps \<le> millis 300"
proof -
  have sets: "{Suc 0..<2} = {Suc 0}" "{Suc 0..<3} = {Suc 0, 2}"
    by auto
  have excl: "accepted ok (send k) \<Longrightarrow> \<not> retried ok (send k)" for k
    by (auto simp: accepted_def retried_def split: send_outcome.splits)
  show ?thesis
    unfolding retry_three using excl
    by (simp add: sets retry_last_Done retry_last_reached del: retry_loop.simps) blast
qed

theorem retry_loop_exact_witness:
  "fst (post_with_retry (\<lambda>k. if k = 1 then TransportErr ''refused'' else if k = 2 then Status 503 [] else Status 200 [])) = Done"
proof -
  have "{Suc 0..<3} = {Suc 0, 2}"
    by auto
  then show ?thesis
    using retry_loop_exact [of status_success
      "\<lambda>k. if k = 1 then TransportErr ''refused'' else if k = 2 then Status 503 [] else Status 200 []"]
    by (simp add: post_with_retry_def accepted_def retried_def status_success_def is_retryable_status_def
        case_prod_beta
        del: retry_loop.simps upt_Suc)
qed

section \<open>Encoding of ids\<close>

definition enc_char :: "char \<Rightarrow> string" where
  "enc_char c =
     (if c = CHR ''%'' then ''%25'' else if c = CHR '':'' then ''%3A'' else if c = CHR ''/'' then ''%2F''
      else if c = CHR ''#'' then ''%23'' else if c = CHR ''?'' then ''%3F'' else [c])"

text \<open>Percent-decoding, as an HTTP server performs it on a path.\<close>

definition hexval :: "char \<Rightarrow> nat option" where
  "hexval c =
     (let n = of_char c in
      if 48 \<le> n \<and> n \<le> 57 then Some (n - 48)
      else if 65 \<le> n \<and> n \<le> 70 then Some (n - 55)
      else if 97 \<le> n \<and> n \<le> 102 then Some (n - 87) else None)"

fun percent_decode :: "string \<Rightarrow> string" where
  "percent_decode (p # a # b # s) =
     (if p = CHR ''%'' then
        (case (hexval a, hexval b) of
           (Some x, Some y) \<Rightarrow> char_of (16 * x + y) # percent_decode s
         | _ \<Rightarrow> p # percent_decode (a # b # s))
      else p # percent_decode (a # b # s))"
| "percent_decode (p # s) = p # percent_decode s"
| "percent_decode [] = []"

lemma str_replace_append [simp]: "str_replace c to (s @ s') = str_replace c to s @ str_replace c to s'"
  by (simp add: str_replace_def)

lemma str_replace_Cons [simp]:
  "str_replace c to (x # s) = (if x = c then to else [x]) @ str_replace c to s"
  "str_replace c to [] = []"
  by (simp_all add: str_replace_def)

lemma encode_Cons: "encode_url_path (c # s) = enc_char c @ encode_url_path s"
  by (simp add: encode_url_path_def enc_char_def)

lemma encode_Nil: "encode_url_path [] = []"
  by (simp add: encode_url_path_def)

lemma percent_decode_lit: "c \<noteq> CHR ''%'' \<Longrightarrow> percent_decode (c # s) = c # percent_decode s"
  by (cases "c # s" rule: percent_decode.cases) auto

lemma char_of_codes:
  "char_of (37 :: nat) = CHR ''%''" "char_of (58 :: nat) = CHR '':''" "char_of (47 :: nat) = CHR ''/''"
  "char_of (35 :: nat) = CHR ''#''" "char_of (63 :: nat) = CHR ''?''"
  by (simp_all add: char_of_def bit_numeral_rec bit_0)

lemma percent_decode_enc: "percent_decode (enc_char c @ s) = c # percent_decode s"
proof (cases "c \<in> {CHR ''%'', CHR '':'', CHR ''/'', CHR ''#'', CHR ''?''}")
  case True
  then show ?thesis
    by (elim insertE) (simp_all add: enc_char_def hexval_def Let_def char_of_codes)
next
  case False
  then show ?thesis by (simp add: enc_char_def percent_decode_lit)
qed

text \<open>Encoded ids survive the trip. The encoded id holds none of the characters that would
  end or split the path (\<open>:\<close>, \<open>/\<close>, \<open>#\<close>, \<open>?\<close>), and percent-decoding it gives the id back, so distinct
  ids address distinct objects.\<close>

theorem encode_url_path_roundtrip:
  "percent_decode (encode_url_path id') = id' \<and>
   set (encode_url_path id') \<inter> {CHR '':'', CHR ''/'', CHR ''#'', CHR ''?''} = {}"
proof (induction id')
  case Nil
  then show ?case by (simp add: encode_Nil)
next
  case (Cons c s)
  have "set (enc_char c) \<inter> {CHR '':'', CHR ''/'', CHR ''#'', CHR ''?''} = {}"
    by (auto simp: enc_char_def)
  with Cons show ?case by (simp add: encode_Cons percent_decode_enc)
qed

end
