(* ===== verification/Ingress_Push.thy ===== *)
theory Ingress_Push
  imports Ingress_Render Ingress_Client
begin

text \<open>
  Pushing the configuration to Caddy: the diffs of \<open>edge-ingress/src/caddy.rs\<close> and \<open>push_now\<close>, its
  single-route renderers and the renderer task of \<open>edge-ingress/src/heartbeats.rs\<close>.

  \<open>push_now\<close> returns its result, the new \<open>previous\<close> state and the list of requests it made
  (\<open>caddy_op\<close>), so that what reaches Caddy can be stated. \<open>api n\<close> answers the \<open>n\<close>-th request of a
  push.
\<close>

section \<open>Diffs\<close>

definition same_route :: "route_entry \<Rightarrow> route_entry \<Rightarrow> bool" where
  "same_route p c \<longleftrightarrow>
     \<not> (re_worker_addr p \<noteq> re_worker_addr c \<or> re_port p \<noteq> re_port c \<or> re_weight p \<noteq> re_weight c \<or>
        re_rate_limit_rps p \<noteq> re_rate_limit_rps c \<or> re_rate_limit_burst p \<noteq> re_rate_limit_burst c)"

definition by_route_id :: "route_entry list \<Rightarrow> (string, route_entry) hashmap" where
  "by_route_id es = hm_collect (map (\<lambda>e. (route_id e, e)) es)"

type_synonym diff_result =
  "(route_entry \<times> json) list \<times> string list \<times> (route_entry \<times> json) list"

definition diff_routes :: "route_entry list \<Rightarrow> route_entry list \<Rightarrow> diff_result" where
  "diff_routes prev cur =
     (let prev_by_id = by_route_id prev;
          curr_by_id = by_route_id cur;
          added = map (\<lambda>(_, entry). (entry, JObj []))
                    (filter (\<lambda>(id', _). \<not> hm_contains prev_by_id id') curr_by_id);
          removed = map fst (filter (\<lambda>(id', _). hm_get curr_by_id id' = None) prev_by_id);
          changed = List.map_filter
            (\<lambda>(id', prev_entry). case hm_get curr_by_id id' of
                None \<Rightarrow> None
              | Some curr_entry \<Rightarrow>
                  if \<not> same_route prev_entry curr_entry then Some (curr_entry, JObj []) else None)
            prev_by_id
      in (added, removed, changed))"

definition diff_fqdns :: "fqdn_binding list \<Rightarrow> fqdn_binding list \<Rightarrow> string list \<times> string list" where
  "diff_fqdns prev cur =
     (let prev_set = fb_fqdn ` set prev; curr_set = fb_fqdn ` set cur
      in (map fb_fqdn (filter (\<lambda>b. fb_fqdn b \<notin> prev_set) cur),
          map fb_fqdn (filter (\<lambda>b. fb_fqdn b \<notin> curr_set) prev)))"

section \<open>Single routes\<close>

definition render_single_route ::
  "route_entry \<Rightarrow> config \<Rightarrow> traffic_split_cache \<Rightarrow> rate_limit_cache \<Rightarrow> json" where
  "render_single_route entry cfg traffic_cache rate_limit_cache =
     (let host = ingress_host (re_tenant_id entry) (re_app_name entry);
          weight = upstream_weight traffic_cache (re_tenant_id entry) (re_app_name entry) entry;
          rps = app_rps cfg rate_limit_cache (re_tenant_id entry) (re_app_name entry) entry;
          burst = app_burst cfg rate_limit_cache (re_tenant_id entry) (re_app_name entry) entry;
          upstreams = JArr [JObj [(''dial'', JStr (dial (re_worker_addr entry) (re_port entry))),
                                  (''weight'', ju weight)]];
          handle_chain = host_rate_limit rps burst @ [reverse_proxy upstreams default_health_checks]
      in JObj [(''@id'', JStr host), (''match'', host_match host),
               (''handle'', subroute handle_chain), (''terminal'', JBool True)])"

definition render_fqdn_route ::
  "fqdn_binding \<Rightarrow> route_entry list \<Rightarrow> config \<Rightarrow> rate_limit_cache \<Rightarrow> json option" where
  "render_fqdn_route binding entries cfg rate_limit_cache =
     (case find (\<lambda>e. re_tenant_id e = fb_tenant_id binding \<and> re_app_name e = fb_app_name binding)
             entries of
        None \<Rightarrow> None
      | Some upstream \<Rightarrow>
          (let rps = app_rps cfg rate_limit_cache (re_tenant_id upstream) (re_app_name upstream) upstream;
               burst = app_burst cfg rate_limit_cache (re_tenant_id upstream) (re_app_name upstream) upstream;
               upstreams = JArr [JObj [(''dial'', JStr (dial (re_worker_addr upstream) (re_port upstream)))]];
               handle_chain = host_rate_limit rps burst @ [reverse_proxy upstreams default_health_checks]
           in Some (JObj [(''@id'', JStr (fb_fqdn binding)), (''match'', host_match (fb_fqdn binding)),
                          (''handle'', subroute handle_chain), (''terminal'', JBool True),
                          (''tls'', JObj [(''on_demand'', JObj [])])])))"

section \<open>Requests to Caddy\<close>

datatype caddy_op = Load json | DeleteRoute string | UpsertRoute json

definition perform :: "admin_api \<Rightarrow> caddy_client \<Rightarrow> caddy_op \<Rightarrow> client_error + unit" where
  "perform api c op =
     (case op of
        Load j \<Rightarrow> load_config api c j
      | DeleteRoute i \<Rightarrow> delete_route api c i
      | UpsertRoute r \<Rightarrow> upsert_route api c r)"

text \<open>The loops of the incremental path: in order, stopping at the first failure.\<close>

fun run_ops :: "(nat \<Rightarrow> admin_api) \<Rightarrow> caddy_client \<Rightarrow> nat \<Rightarrow> caddy_op list \<Rightarrow> bool \<times> caddy_op list" where
  "run_ops api c n [] = (True, [])"
| "run_ops api c n (op # ops) =
     (case perform (api n) c op of
        Inl _ \<Rightarrow> (False, [op])
      | Inr _ \<Rightarrow> (case run_ops api c (Suc n) ops of (ok, done') \<Rightarrow> (ok, op # done')))"

section \<open>Pushing\<close>

record previous_state =
  pv_route_entries :: "route_entry list"
  pv_fqdn_bindings :: "fqdn_binding list"
  pv_l4_entries :: "l4_route_entry list"
  pv_global_rps_cap :: "u32 option"

datatype push_error = LoadFailed client_error | IncrementalFailed

type_synonym push_result = "(push_error + unit) \<times> previous_state option \<times> caddy_op list"

definition full_document ::
  "instant \<Rightarrow> config \<Rightarrow> caches \<Rightarrow> previous_state \<Rightarrow> json" where
  "full_document now cfg cs cur =
     render_full (render_routes now (pv_route_entries cur) (pv_fqdn_bindings cur) cfg cs)
       (pv_l4_entries cur) cfg (c_quota cs)"

definition push_full ::
  "(nat \<Rightarrow> admin_api) \<Rightarrow> caddy_client \<Rightarrow> instant \<Rightarrow> config \<Rightarrow> caches \<Rightarrow> previous_state \<Rightarrow> push_result" where
  "push_full api c now cfg cs cur =
     (let json = full_document now cfg cs cur
      in case load_config (api 0) c json of
           Inr () \<Rightarrow> (Inr (), Some cur, [Load json])
         | Inl e \<Rightarrow> (Inl (LoadFailed e), None, [Load json]))"

definition incremental_ops ::
  "config \<Rightarrow> caches \<Rightarrow> previous_state \<Rightarrow> previous_state \<Rightarrow> caddy_op list" where
  "incremental_ops cfg cs prev cur =
     (let (added, removed_ids, changed) = diff_routes (pv_route_entries prev) (pv_route_entries cur);
          (fqdn_added, fqdn_removed) = diff_fqdns (pv_fqdn_bindings prev) (pv_fqdn_bindings cur)
      in map DeleteRoute removed_ids @ map DeleteRoute fqdn_removed @
         map (\<lambda>(entry, _). UpsertRoute (render_single_route entry cfg (c_traffic cs) (c_rate_limit cs)))
           (added @ changed) @
         List.map_filter
           (\<lambda>fqdn_str. case find (\<lambda>b. fb_fqdn b = fqdn_str) (pv_fqdn_bindings cur) of
               None \<Rightarrow> None
             | Some binding \<Rightarrow>
                 map_option UpsertRoute
                   (render_fqdn_route binding (pv_route_entries cur) cfg (c_rate_limit cs)))
           fqdn_added)"

definition total_changes :: "previous_state \<Rightarrow> previous_state \<Rightarrow> nat" where
  "total_changes prev cur =
     (let (added, removed_ids, changed) = diff_routes (pv_route_entries prev) (pv_route_entries cur);
          (fqdn_added, fqdn_removed) = diff_fqdns (pv_fqdn_bindings prev) (pv_fqdn_bindings cur)
      in length added + length removed_ids + length changed + length fqdn_added + length fqdn_removed)"

definition needs_full :: "previous_state \<Rightarrow> previous_state \<Rightarrow> bool" where
  "needs_full prev cur \<longleftrightarrow>
     pv_l4_entries prev \<noteq> pv_l4_entries cur \<or>
     pv_global_rps_cap prev \<noteq> pv_global_rps_cap cur \<or>
     total_changes prev cur * 5 >
       max (max (length (pv_route_entries cur)) (length (pv_route_entries prev))) 1"

definition current_state ::
  "instant \<Rightarrow> config \<Rightarrow> routing_table \<Rightarrow> l4_routing_table \<Rightarrow> caches \<Rightarrow> previous_state" where
  "current_state now cfg table l4_table cs =
     \<lparr>pv_route_entries = rt_snapshot table, pv_fqdn_bindings = rt_fqdn_snapshot table,
      pv_l4_entries = l4_snapshot l4_table,
      pv_global_rps_cap = current_local_cap now (c_global cs) (2 * global_rps_tick_interval cfg)\<rparr>"

definition push_now ::
  "(nat \<Rightarrow> admin_api) \<Rightarrow> caddy_client \<Rightarrow> instant \<Rightarrow> config \<Rightarrow> routing_table \<Rightarrow> l4_routing_table \<Rightarrow> caches
    \<Rightarrow> previous_state option \<Rightarrow> push_result" where
  "push_now api c now cfg table l4_table cs previous =
     (let cur = current_state now cfg table l4_table cs
      in case previous of
           None \<Rightarrow> push_full api c now cfg cs cur
         | Some prev \<Rightarrow>
             if needs_full prev cur then push_full api c now cfg cs cur
             else (case run_ops api c 0 (incremental_ops cfg cs prev cur) of
                     (ops_ok, done') \<Rightarrow>
                       if ops_ok then (Inr (), Some cur, done')
                       else (Inl IncrementalFailed, None, done')))"

text \<open>One notification of the renderer task: push, and forget \<open>previous\<close> on an error.\<close>

definition renderer_step ::
  "(nat \<Rightarrow> admin_api) \<Rightarrow> caddy_client \<Rightarrow> instant \<Rightarrow> config \<Rightarrow> routing_table \<Rightarrow> l4_routing_table \<Rightarrow> caches
    \<Rightarrow> previous_state option \<Rightarrow> previous_state option \<times> caddy_op list" where
  "renderer_step api c now cfg table l4_table cs previous =
     (case push_now api c now cfg table l4_table cs previous of
        (Inr (), previous', ops) \<Rightarrow> (previous', ops)
      | (Inl _, _, ops) \<Rightarrow> (None, ops))"

section \<open>What a diff tells\<close>

lemma by_route_id_wf [simp]: "hm_wf (by_route_id es)"
  by (simp add: by_route_id_def)

lemma by_route_id_contains: "hm_contains (by_route_id es) i \<longleftrightarrow> i \<in> route_id ` set es"
  by (simp add: by_route_id_def)

lemma by_route_id_SomeD: "hm_get (by_route_id es) i = Some e \<Longrightarrow> e \<in> set es \<and> route_id e = i"
  unfolding by_route_id_def by (auto dest!: hm_get_collect_SomeD)

lemma find_SomeD: "find P xs = Some x \<Longrightarrow> x \<in> set xs \<and> P x"
  by (induction xs) (auto split: if_splits)

lemma in_map_filter: "y \<in> set (List.map_filter f xs) \<longleftrightarrow> (\<exists>x \<in> set xs. f x = Some y)"
  by (force simp: List.map_filter_def)

lemma in_by_route_id: "(i, e) \<in> set (by_route_id es) \<longleftrightarrow>
    i = route_id e \<and> hm_get (by_route_id es) (route_id e) = Some e"
  by (auto simp: hm_in_iff_get dest: by_route_id_SomeD)

lemma diff_added: "(e, j) \<in> set (fst (diff_routes prev cur)) \<longleftrightarrow>
    j = JObj [] \<and> hm_get (by_route_id cur) (route_id e) = Some e \<and> route_id e \<notin> route_id ` set prev"
proof -
  have "(e, j) \<in> set (fst (diff_routes prev cur)) \<longleftrightarrow>
      j = JObj [] \<and> (\<exists>i. (i, e) \<in> set (by_route_id cur) \<and> \<not> hm_contains (by_route_id prev) i)"
    by (auto simp: diff_routes_def Let_def)
  then show ?thesis by (auto simp: in_by_route_id by_route_id_contains)
qed

lemma diff_removed: "i \<in> set (fst (snd (diff_routes prev cur))) \<longleftrightarrow>
    i \<in> route_id ` set prev \<and> i \<notin> route_id ` set cur"
proof -
  have "i \<in> set (fst (snd (diff_routes prev cur))) \<longleftrightarrow>
      hm_contains (by_route_id prev) i \<and> \<not> hm_contains (by_route_id cur) i"
    by (auto simp: diff_routes_def Let_def hm_contains_def hm_in_iff_get image_iff)
  then show ?thesis by (simp add: by_route_id_contains)
qed

lemma diff_changed: "(e, j) \<in> set (snd (snd (diff_routes prev cur))) \<longleftrightarrow>
    j = JObj [] \<and> hm_get (by_route_id cur) (route_id e) = Some e \<and>
    (\<exists>p. hm_get (by_route_id prev) (route_id e) = Some p \<and> \<not> same_route p e)"
proof -
  define g where "g = (\<lambda>(i, p). case hm_get (by_route_id cur) i of
      None \<Rightarrow> None | Some c \<Rightarrow> if \<not> same_route p c then Some (c, JObj []) else None)"
  have g: "g (i, p) = Some (e, j) \<longleftrightarrow>
      j = JObj [] \<and> hm_get (by_route_id cur) i = Some e \<and> \<not> same_route p e" for i p
    by (auto simp: g_def split: option.split)
  have "(e, j) \<in> set (snd (snd (diff_routes prev cur))) \<longleftrightarrow>
      (\<exists>(i, p) \<in> set (by_route_id prev). g (i, p) = Some (e, j))"
    by (simp add: diff_routes_def Let_def in_map_filter g_def [symmetric] split_beta)
  then have "(e, j) \<in> set (snd (snd (diff_routes prev cur))) \<longleftrightarrow>
      j = JObj [] \<and> (\<exists>i p. hm_get (by_route_id prev) i = Some p \<and>
        hm_get (by_route_id cur) i = Some e \<and> \<not> same_route p e)"
    by (simp add: Bex_def g hm_in_iff_get)
  then show ?thesis by (auto dest: by_route_id_SomeD)
qed

text \<open>What is known after applying a diff: per id, the entry that was added or changed, nothing for a
  removed id, the old entry otherwise.\<close>

definition apply_diff :: "diff_result \<Rightarrow> route_entry list \<Rightarrow> string \<Rightarrow> route_entry option" where
  "apply_diff d prev i =
     (case d of (added, removed, changed) \<Rightarrow>
       (case find (\<lambda>(e, _). route_id e = i) (added @ changed) of
          Some (e, _) \<Rightarrow> Some e
        | None \<Rightarrow> if i \<in> set removed then None else hm_get (by_route_id prev) i))"

lemma diff_upsert_current:
  "(e, j) \<in> set (fst (diff_routes prev cur) @ snd (snd (diff_routes prev cur))) \<Longrightarrow>
     hm_get (by_route_id cur) (route_id e) = Some e \<and> route_id e \<in> route_id ` set cur"
  using by_route_id_SomeD [of cur "route_id e" e] by (auto simp: diff_added diff_changed)

lemma diff_upsert_find:
  assumes "find (\<lambda>(e, _). route_id e = i) (fst (diff_routes prev cur) @ snd (snd (diff_routes prev cur))) = Some ej"
  shows "apply_diff (diff_routes prev cur) prev i = Some (fst ej) \<and>
    hm_get (by_route_id cur) i = Some (fst ej)"
  using assms diff_upsert_current [of "fst ej" "snd ej" prev cur] find_SomeD [OF assms]
  by (auto simp: apply_diff_def split_beta)

lemma diff_untouched:
  assumes "find (\<lambda>(e, _). route_id e = i) (fst (diff_routes prev cur) @ snd (snd (diff_routes prev cur))) = None"
    and "hm_get (by_route_id cur) i = Some e'"
  shows "\<exists>p. apply_diff (diff_routes prev cur) prev i = Some p \<and> route_id p = i \<and> same_route p e'"
proof -
  have none: "route_id e = i \<Longrightarrow>
      (e, j) \<notin> set (fst (diff_routes prev cur)) \<and> (e, j) \<notin> set (snd (snd (diff_routes prev cur)))" for e j
    using assms(1) by (auto simp: find_None_iff)
  have e': "e' \<in> set cur" "route_id e' = i" using assms(2) by (auto dest: by_route_id_SomeD)
  with none [of e' "JObj []"] assms(2) have "i \<in> route_id ` set prev" by (simp add: diff_added)
  then obtain p where p: "hm_get (by_route_id prev) i = Some p"
    using by_route_id_contains [of prev i] by (auto simp: hm_contains_def)
  with none [of e' "JObj []"] assms(2) e' have "same_route p e'" by (auto simp: diff_changed)
  moreover have "i \<notin> set (fst (snd (diff_routes prev cur)))" using e' by (auto simp: diff_removed)
  ultimately show ?thesis
    using assms(1) p by_route_id_SomeD [OF p] by (simp add: apply_diff_def split_beta)
qed

text \<open>The route diff is complete. Between two snapshots, applying the diff to the older one
  gives the newer one: under every route id the same entry up to the fields that do not matter for
  routing (the time of the last heartbeat), and no entry under the ids that are gone. A removed id
  is never also added or changed.\<close>

theorem diff_routes_complete:
  "(case (apply_diff (diff_routes prev cur) prev i, hm_get (by_route_id cur) i) of
      (None, None) \<Rightarrow> True
    | (Some e, Some e') \<Rightarrow> route_id e = route_id e' \<and> same_route e e'
    | _ \<Rightarrow> False) \<and>
   set (fst (snd (diff_routes prev cur))) \<inter>
     (route_id \<circ> fst) ` (set (fst (diff_routes prev cur)) \<union> set (snd (snd (diff_routes prev cur)))) = {}"
proof
  show "case (apply_diff (diff_routes prev cur) prev i, hm_get (by_route_id cur) i) of
      (None, None) \<Rightarrow> True
    | (Some e, Some e') \<Rightarrow> route_id e = route_id e' \<and> same_route e e'
    | _ \<Rightarrow> False"
  proof (cases "find (\<lambda>(e, _). route_id e = i) (fst (diff_routes prev cur) @ snd (snd (diff_routes prev cur)))")
    case (Some ej)
    then show ?thesis using diff_upsert_find [OF Some] by (simp add: same_route_def)
  next
    case None
    then show ?thesis
      using diff_untouched [OF None] by_route_id_contains [of cur i] by_route_id_contains [of prev i]
      by (cases "hm_get (by_route_id cur) i")
        (auto simp: apply_diff_def diff_removed hm_contains_def split_beta
              dest: by_route_id_SomeD split: option.split)
  qed
  show "set (fst (snd (diff_routes prev cur))) \<inter>
     (route_id \<circ> fst) ` (set (fst (diff_routes prev cur)) \<union> set (snd (snd (diff_routes prev cur)))) = {}"
    using diff_upsert_current [of _ _ prev cur] by (fastforce simp: diff_removed)
qed

section \<open>Properties of a push\<close>

lemma push_full_cases:
  "push_full api c now cfg cs cur = (r, previous', ops) \<Longrightarrow>
     ops = [Load (full_document now cfg cs cur)] \<and>
     (r = Inr () \<and> previous' = Some cur \<or> (\<exists>e. r = Inl e) \<and> previous' = None)"
  by (auto simp: push_full_def Let_def split: sum.splits unit.splits)

text \<open>Claim C17 (a failed push is followed by a full reload). The remembered state after a push is the
  state it pushed when it succeeded and nothing when it failed; and a push without a remembered state
  sends exactly one request: the full document rendered from the current tables and caches. So an
  incremental push that stopped half way never leaves the next one diffing against a state Caddy
  does not have.\<close>

theorem push_recovers:
  assumes "push_now api c now cfg table l4_table cs previous = (r, previous', ops)"
  shows "previous' = (if r = Inr () then Some (current_state now cfg table l4_table cs) else None) \<and>
    (\<forall>api2 now2 table2 l4_table2 cs2 r2 prev2 ops2.
       r \<noteq> Inr () \<and> push_now api2 c now2 cfg table2 l4_table2 cs2 previous' = (r2, prev2, ops2) \<longrightarrow>
       ops2 = [Load (render_full (render_routes now2 (rt_snapshot table2) (rt_fqdn_snapshot table2) cfg cs2)
                      (l4_snapshot l4_table2) cfg (c_quota cs2))])"
proof -
  have prev: "previous' = (if r = Inr () then Some (current_state now cfg table l4_table cs) else None)"
    using assms push_full_cases [of api c now cfg cs "current_state now cfg table l4_table cs" r previous' ops]
    by (auto simp: push_now_def Let_def split: option.splits if_splits prod.splits)
  show ?thesis
  proof (intro conjI allI impI)
    fix api2 now2 table2 l4_table2 cs2 r2 prev2 ops2
    assume h: "r \<noteq> Inr () \<and>
      push_now api2 c now2 cfg table2 l4_table2 cs2 previous' = (r2, prev2, ops2)"
    with prev have "previous' = None" by simp
    with h have "push_full api2 c now2 cfg cs2 (current_state now2 cfg table2 l4_table2 cs2) =
        (r2, prev2, ops2)"
      by (simp add: push_now_def Let_def)
    then show "ops2 = [Load (render_full (render_routes now2 (rt_snapshot table2)
        (rt_fqdn_snapshot table2) cfg cs2) (l4_snapshot l4_table2) cfg (c_quota cs2))]"
      by (auto dest!: push_full_cases simp: full_document_def current_state_def)
  qed (rule prev)
qed

text \<open>A client whose Caddy refuses every request, and one whose Caddy accepts every request.\<close>

definition api_down :: "nat \<Rightarrow> admin_api" where
  "api_down n meth url token body attempt = TransportErr ''connection refused''"

definition api_up :: "nat \<Rightarrow> admin_api" where
  "api_up n meth url token body attempt = Status 200 []"

lemma load_down: "load_config (api_down n) c j = Inl (Failed (TransportFailed 3 ''connection refused''))"
  unfolding load_config_def post_with_retry_def attempts_expand
  by (simp add: of_retry_def retry_unfold api_down_def)

theorem push_recovers_witness:
  "fst (push_now api_down (caddy_client_new ''http://127.0.0.1:2019/'' None) 0 render_config
      rt_new l4_new sample_caches None) \<noteq> Inr () \<and>
   fst (snd (push_now api_down (caddy_client_new ''http://127.0.0.1:2019/'' None) 0 render_config
      rt_new l4_new sample_caches None)) = None"
proof -
  let ?p = "push_now api_down (caddy_client_new ''http://127.0.0.1:2019/'' None) 0 render_config
      rt_new l4_new sample_caches None"
  have "fst ?p \<noteq> Inr ()"
    by (simp add: push_now_def push_full_def Let_def load_down)
  moreover obtain r prev ops where "?p = (r, prev, ops)" by (metis prod_cases3)
  ultimately show ?thesis using push_recovers by (metis fst_conv snd_conv)
qed

lemma diff_routes_same:
  assumes "route_id ` set prev = route_id ` set cur"
    and "\<forall>p \<in> set prev. \<forall>c \<in> set cur. route_id p = route_id c \<longrightarrow> same_route p c"
  shows "diff_routes prev cur = ([], [], [])"
proof -
  obtain added removed changed where d: "diff_routes prev cur = (added, removed, changed)"
    by (metis prod_cases3)
  have "(e, j) \<notin> set added" for e j
    using diff_added [of e j prev cur] assms(1) d by (auto dest!: by_route_id_SomeD)
  moreover have "i \<notin> set removed" for i
    using diff_removed [of i prev cur] assms(1) d by simp
  moreover have "(e, j) \<notin> set changed" for e j
    using diff_changed [of e j prev cur] assms(2) d by (auto dest!: by_route_id_SomeD)
  ultimately have "added = []" "removed = []" "changed = []"
    by (metis list.set_intros(1) neq_Nil_conv surj_pair)+
  then show ?thesis by (simp add: d)
qed

text \<open>A cache change alone never reaches Caddy. When the routes, the domains, the L4 table and
  the cross-replica cap are those of the last successful push, a push sends no request at all and
  reports success - whatever the quota, rate-limit, tenant and traffic caches say now. A tenant that
  goes over its cap is therefore not blocked until some other change forces a full reload.\<close>

theorem cache_change_not_pushed:
  assumes "route_id ` set (pv_route_entries prev) = route_id ` set (rt_snapshot table)"
    and "\<forall>p \<in> set (pv_route_entries prev). \<forall>e \<in> set (rt_snapshot table).
           route_id p = route_id e \<longrightarrow> same_route p e"
    and "fb_fqdn ` set (pv_fqdn_bindings prev) = fb_fqdn ` set (rt_fqdn_snapshot table)"
    and "pv_l4_entries prev = l4_snapshot l4_table"
    and "pv_global_rps_cap prev =
           current_local_cap now (c_global cs) (2 * global_rps_tick_interval cfg)"
  shows "push_now api c now cfg table l4_table cs (Some prev) =
    (Inr (), Some (current_state now cfg table l4_table cs), [])"
proof -
  let ?cur = "current_state now cfg table l4_table cs"
  have d: "diff_routes (pv_route_entries prev) (pv_route_entries ?cur) = ([], [], [])"
    using diff_routes_same [OF assms(1,2)] by (simp add: current_state_def)
  have f: "diff_fqdns (pv_fqdn_bindings prev) (pv_fqdn_bindings ?cur) = ([], [])"
    using assms(3) by (auto simp: diff_fqdns_def current_state_def filter_empty_conv)
  have "\<not> needs_full prev ?cur"
    using assms(4,5) by (simp add: needs_full_def total_changes_def d f) (simp add: current_state_def)
  moreover have "incremental_ops cfg cs prev ?cur = []"
    by (simp add: incremental_ops_def d f List.map_filter_def)
  ultimately show ?thesis by (simp add: push_now_def Let_def)
qed

theorem cache_change_not_pushed_witness:
  "push_now api_up (caddy_client_new ''http://127.0.0.1:2019/'' None) 7 render_config
     (rt_upsert 5 ''t_a'' ''web'' None 100 ''10.0.0.5'' 8080 ''running'' rt_new) l4_new sample_caches
     (Some \<lparr>pv_route_entries = [sample_entry ''t_a'' ''web''], pv_fqdn_bindings = [],
            pv_l4_entries = [], pv_global_rps_cap = None\<rparr>) =
   (Inr (), Some (current_state 7 render_config
      (rt_upsert 5 ''t_a'' ''web'' None 100 ''10.0.0.5'' 8080 ''running'' rt_new) l4_new sample_caches), [])"
  by (rule cache_change_not_pushed)
    (auto simp: rt_upsert_put rt_put_def routable_def rt_snapshot_def rt_fqdn_snapshot_def rt_new_def
      hm_insert_def hm_values_def l4_snapshot_def l4_new_def sample_entry_def upsert_entry_def
      route_id_def same_route_def sample_caches_def gc_new_def current_local_cap_def)

text \<open>The incremental path never removes the route of an app. Routes are installed under the
  id of their host, but deleted under the id of the table entry, which holds a colon where no host
  does. So when apps disappear and the push is incremental, none of its requests deletes the route
  of an app; Caddy answers 404, which the client counts as success.\<close>

theorem incremental_never_deletes_app_route:
  assumes "CHR '':'' \<notin> set t" and "CHR '':'' \<notin> set a"
    and "\<forall>b \<in> set (pv_fqdn_bindings prev). fb_fqdn b \<noteq> ingress_host t a"
  shows "DeleteRoute (ingress_host t a) \<notin> set (incremental_ops cfg cs prev cur)"
proof -
  have "CHR '':'' \<in> set (route_id e)" for e
    by (auto simp: route_id_def split: option.split)
  moreover have "CHR '':'' \<notin> set (ingress_host t a)"
    using assms(1,2) by (simp add: ingress_host_def INGRESS_HOST_SUFFIX_def)
  ultimately have "ingress_host t a \<notin> route_id ` set (pv_route_entries prev)" by force
  then have "ingress_host t a \<notin>
      set (fst (snd (diff_routes (pv_route_entries prev) (pv_route_entries cur))))"
    by (simp add: diff_removed)
  moreover obtain added removed changed where
    "diff_routes (pv_route_entries prev) (pv_route_entries cur) = (added, removed, changed)"
    by (metis prod_cases3)
  ultimately show ?thesis
    using assms(3)
    by (auto simp: incremental_ops_def in_map_filter diff_fqdns_def split: option.splits)
qed

theorem incremental_never_deletes_app_route_witness:
  "incremental_ops render_config sample_caches
     \<lparr>pv_route_entries = [sample_entry ''t_a'' ''web''], pv_fqdn_bindings = [],
      pv_l4_entries = [], pv_global_rps_cap = None\<rparr>
     \<lparr>pv_route_entries = [], pv_fqdn_bindings = [], pv_l4_entries = [], pv_global_rps_cap = None\<rparr>
     = [DeleteRoute ''t_a:web''] \<and>
   DeleteRoute (ingress_host ''t_a'' ''web'') \<notin> set (incremental_ops render_config sample_caches
     \<lparr>pv_route_entries = [sample_entry ''t_a'' ''web''], pv_fqdn_bindings = [],
      pv_l4_entries = [], pv_global_rps_cap = None\<rparr>
     \<lparr>pv_route_entries = [], pv_fqdn_bindings = [], pv_l4_entries = [], pv_global_rps_cap = None\<rparr>)"
  by (intro conjI incremental_never_deletes_app_route)
    (auto simp: incremental_ops_def diff_routes_def diff_fqdns_def by_route_id_def hm_collect_def
      hm_insert_def List.map_filter_def sample_entry_def upsert_entry_def route_id_def)

end
