(* ===== verification/Ingress_Domains.thy ===== *)
theory Ingress_Domains
  imports Ingress_Caches Ingress_Config
begin

text \<open>
  The poller of custom domains (\<open>edge-ingress/src/domains.rs\<close>): one fetch, and the loop that gives up
  after repeated rejections of its token. The control plane is the argument \<open>http\<close> of a tick; a
  non-2xx response carries its text. The metrics the loop counts are left out; the notification of
  the renderer is the number of \<open>notify_one\<close> calls.
\<close>

section \<open>One fetch\<close>

datatype poll_error = HttpStatus nat string string | Transport string | Decode string

type_synonym domain_http = "string \<Rightarrow> string \<Rightarrow> domain list http_outcome"

definition body_text :: "string + 'b \<Rightarrow> string" where
  "body_text body = (case body of Inl txt \<Rightarrow> txt | Inr _ \<Rightarrow> [])"

definition fetch_and_apply ::
  "domain_http \<Rightarrow> string \<Rightarrow> string \<Rightarrow> routing_table
    \<Rightarrow> (poll_error + string list \<times> string list) \<times> routing_table" where
  "fetch_and_apply http url token table =
     (case http url token of
        SendError e \<Rightarrow> (Inl (Transport e), table)
      | Response status body \<Rightarrow>
          if \<not> is_success status then (Inl (HttpStatus status url (body_text body)), table)
          else (case body of
                  Inl e \<Rightarrow> (Inl (Decode e), table)
                | Inr domains \<Rightarrow>
                    (case apply_poll_snapshot domains table of
                       (diff, table') \<Rightarrow> (Inr diff, table'))))"

section \<open>The loop\<close>

definition MAX_CONSECUTIVE_AUTH_ERRORS :: u32 where
  "MAX_CONSECUTIVE_AUTH_ERRORS = 3"

datatype poller_event = Shutdown | Tick domain_http

datatype poller_outcome = Stopped | GaveUp poll_error | Running

definition is_auth_error :: "poll_error \<Rightarrow> bool" where
  "is_auth_error e = (case e of HttpStatus status _ _ \<Rightarrow> status = 401 \<or> status = 403 | _ \<Rightarrow> False)"

text \<open>The list holds the events the \<open>select!\<close> sees, in order; \<open>Running\<close> says that the loop is still
  waiting after the last of them. The result pairs the outcome with the table and the number of
  notifications.\<close>

fun poller_loop ::
  "string \<Rightarrow> string \<Rightarrow> poller_event list \<Rightarrow> u32 \<Rightarrow> routing_table \<Rightarrow> nat
    \<Rightarrow> poller_outcome \<times> routing_table \<times> nat" where
  "poller_loop url token [] errs table notified = (Running, table, notified)"
| "poller_loop url token (Shutdown # evs) errs table notified = (Stopped, table, notified)"
| "poller_loop url token (Tick http # evs) errs table notified =
     (case fetch_and_apply http url token table of
        (Inr (added, removed), table') \<Rightarrow>
          poller_loop url token evs 0 table'
            (if added \<noteq> [] \<or> removed \<noteq> [] then notified + 1 else notified)
      | (Inl e, table') \<Rightarrow>
          if is_auth_error e then
            (let errs = errs + 1
             in if errs \<ge> MAX_CONSECUTIVE_AUTH_ERRORS then (GaveUp e, table', notified)
                else poller_loop url token evs errs table' notified)
          else poller_loop url token evs 0 table' notified)"

definition run_poller ::
  "config \<Rightarrow> poller_event list \<Rightarrow> routing_table \<Rightarrow> poller_outcome \<times> routing_table \<times> nat" where
  "run_poller cfg evs table =
     (if control_plane_url cfg = [] then (Stopped, table, 0)
      else poller_loop (control_plane_url cfg @ ''/api/internal/domains'') (service_token cfg) evs 0
             table 0)"

section \<open>When the poller gives up\<close>

definition rejects :: "domain_http \<Rightarrow> string \<Rightarrow> string \<Rightarrow> bool" where
  "rejects http url token =
     (case http url token of Response status _ \<Rightarrow> status = 401 \<or> status = 403 | _ \<Rightarrow> False)"

text \<open>The ticks before the first shutdown, each as whether the control plane rejected the token.\<close>

fun rejections :: "string \<Rightarrow> string \<Rightarrow> poller_event list \<Rightarrow> bool list" where
  "rejections url token [] = []"
| "rejections url token (Shutdown # evs) = []"
| "rejections url token (Tick http # evs) = rejects http url token # rejections url token evs"

fun three_in_a_row :: "bool list \<Rightarrow> bool" where
  "three_in_a_row (a # b # c # bs) = (a \<and> b \<and> c \<or> three_in_a_row (b # c # bs))"
| "three_in_a_row _ = False"

lemma three_in_a_row_reset:
  "three_in_a_row (False # bs) = three_in_a_row bs"
  "three_in_a_row (True # False # bs) = three_in_a_row bs"
  "three_in_a_row (True # True # False # bs) = three_in_a_row bs"
proof -
  show *: "three_in_a_row (False # bs) = three_in_a_row bs" for bs
    by (cases bs rule: three_in_a_row.cases) auto
  have "three_in_a_row (True # False # bs) = three_in_a_row (False # bs)" for bs
    by (cases bs) auto
  with * show "three_in_a_row (True # False # bs) = three_in_a_row bs"
    and "three_in_a_row (True # True # False # bs) = three_in_a_row bs"
    by simp_all
qed

lemma fetch_auth_error:
  "(case fst (fetch_and_apply http url token table) of Inl e \<Rightarrow> is_auth_error e | Inr _ \<Rightarrow> False) =
     rejects http url token"
  by (auto simp: fetch_and_apply_def rejects_def is_auth_error_def is_success_def
      split: http_outcome.split sum.split prod.split)

definition gave_up :: "poller_outcome \<Rightarrow> bool" where
  "gave_up out = (case out of GaveUp _ \<Rightarrow> True | _ \<Rightarrow> False)"

lemma poller_loop_gives_up:
  "errs \<le> 2 \<Longrightarrow>
   gave_up (fst (poller_loop url token evs (of_nat errs) table n)) =
     three_in_a_row (replicate errs True @ rejections url token evs)"
proof (induction evs arbitrary: errs table n)
  case Nil
  then have "errs \<in> {0, 1, 2}" by auto
  then show ?case by (auto simp: gave_up_def numeral_2_eq_2)
next
  case (Cons ev evs)
  have short: "\<not> three_in_a_row (replicate errs True)"
    and reset: "three_in_a_row (replicate errs True @ False # bs) = three_in_a_row bs" for bs
  proof -
    from Cons.prems have "errs \<in> {0, 1, 2}" by auto
    then show "\<not> three_in_a_row (replicate errs True)"
      and "three_in_a_row (replicate errs True @ False # bs) = three_in_a_row bs"
      by (auto simp: numeral_2_eq_2 three_in_a_row_reset)
  qed
  show ?case
  proof (cases ev)
    case Shutdown
    with short show ?thesis by (simp add: gave_up_def)
  next
    case (Tick http)
    obtain r table' where r: "fetch_and_apply http url token table = (r, table')" by fastforce
    show ?thesis
    proof (cases "rejects http url token")
      case True
      with fetch_auth_error [of http url token table] r obtain e where
        e: "r = Inl e" "is_auth_error e" by (auto split: sum.splits)
      have shift: "replicate errs True @ True # bs = replicate (Suc errs) True @ bs" for bs
        by (metis append_Cons append_assoc append_Nil replicate_app_Cons_same replicate_Suc)
      show ?thesis
      proof (cases "errs = 2")
        case two: True
        then show ?thesis
          using Tick True r e
          by (simp add: MAX_CONSECUTIVE_AUTH_ERRORS_def gave_up_def numeral_2_eq_2)
      next
        case False
        with Cons.prems have le: "Suc errs \<le> 2" by simp
        then have "errs \<in> {0, 1}" by auto
        then have lt: "\<not> MAX_CONSECUTIVE_AUTH_ERRORS \<le> (of_nat errs + 1 :: u32)"
          by (auto simp: MAX_CONSECUTIVE_AUTH_ERRORS_def word_le_nat_alt)
        have "gave_up (fst (poller_loop url token evs (of_nat errs + 1) table' n)) =
            three_in_a_row (replicate errs True @ True # rejections url token evs)"
          unfolding shift using Cons.IH [OF le, of table' n] by (simp add: add.commute)
        with Tick True r e lt show ?thesis by (simp add: Let_def)
      qed
    next
      case False
      then have "case r of Inl e \<Rightarrow> \<not> is_auth_error e | Inr _ \<Rightarrow> True"
        using fetch_auth_error [of http url token table] r by (auto split: sum.splits)
      with Tick False r reset show ?thesis
        using Cons.IH [of 0]
        by (auto split: sum.splits prod.splits)
    qed
  qed
qed

text \<open>The poller gives up on a rejected token, and only then. With a control plane configured,
  the loop ends with an error iff three consecutive polls before the shutdown were answered 401 or
  403; any other answer - a success, another status, a transport or decoding error - resets the count
  and the loop goes on.\<close>

theorem poller_gives_up_iff:
  assumes "control_plane_url cfg \<noteq> []"
  shows "gave_up (fst (run_poller cfg evs table)) \<longleftrightarrow>
    three_in_a_row (rejections (control_plane_url cfg @ ''/api/internal/domains'')
      (service_token cfg) evs)"
  using poller_loop_gives_up [of 0 "control_plane_url cfg @ ''/api/internal/domains''"
      "service_token cfg" evs table 0] assms
  by (simp add: run_poller_def)

definition poller_config :: config where
  "poller_config =
     config_of_env (\<lambda>_. None)
       (\<lambda>n. if n = ''CONTROL_PLANE_URL'' then Some ''http://cp''
            else if n = ''INGRESS_SERVICE_TOKEN'' then Some ''tok'' else None)
       ''eu'' ''cert.pem'' ''key.pem'' 31000 31999"

theorem poller_gives_up_iff_witness:
  "gave_up (fst (run_poller poller_config
     [Tick (\<lambda>_ _. Response 401 (Inl ''no'')), Tick (\<lambda>_ _. Response 403 (Inl ''no'')),
      Tick (\<lambda>_ _. Response 401 (Inl ''no''))] rt_new)) \<and>
   \<not> gave_up (fst (run_poller poller_config
     [Tick (\<lambda>_ _. Response 401 (Inl ''no'')), Tick (\<lambda>_ _. Response 503 (Inl ''busy'')),
      Tick (\<lambda>_ _. Response 401 (Inl ''no'')), Tick (\<lambda>_ _. Response 401 (Inl ''no''))] rt_new))"
proof -
  have "control_plane_url poller_config \<noteq> []" by (simp add: poller_config_def env_or_def)
  from poller_gives_up_iff [OF this] show ?thesis
    by (simp add: rejects_def)
qed

end
