(* ===== verification/Sidecar_Aggregate.thy ===== *)
theory Sidecar_Aggregate
  imports Edge_Prelude
begin

text \<open>
  The rate-limit sidecar (\<open>edge-ingress-sidecar/src\<close>): the difference of two scrapes of Caddy's
  request counter (\<open>caddy_metrics.rs\<close>), the acceptance of a delta of another replica
  (\<open>nats_sub.rs\<close>), the sliding window and the cap computed from it (\<open>aggregate.rs\<close>), and the datagram
  for the ingress (\<open>expose.rs\<close>).

  \<open>VecDeque\<close> is a list, front first. Reading the wall clock in milliseconds is an argument
  \<open>now_ms\<close>; the fallback \<open>Instant::now\<close> of \<open>prune\<close> is the argument \<open>clock\<close>.
\<close>

section \<open>Scrapes and deltas\<close>

record delta_msg =
  dl_replica_id :: string
  dl_rps :: u32
  dl_scraped_at_unix_ms :: u64

definition to_wire :: "delta_msg \<Rightarrow> json" where
  "to_wire m = JObj [(''replica_id'', JStr (dl_replica_id m)),
                     (''scraped_at_unix_ms'', ju (dl_scraped_at_unix_ms m)),
                     (''rps'', ju (dl_rps m))]"

record scrape_diff =
  sd_current :: u64
  sd_previous :: u64
  sd_rps :: u32

text \<open>\<open>(c - p) as u32\<close> keeps the low 32 bits.\<close>

definition diff_scrapes :: "u64 option \<Rightarrow> u64 option \<Rightarrow> scrape_diff" where
  "diff_scrapes current previous =
     (case (current, previous) of
        (Some c, Some p) \<Rightarrow>
          if c \<ge> p then \<lparr>sd_current = c, sd_previous = p, sd_rps = ucast (c - p)\<rparr>
          else \<lparr>sd_current = c, sd_previous = p, sd_rps = 0\<rparr>
      | _ \<Rightarrow> \<lparr>sd_current = (case current of Some c \<Rightarrow> c | None \<Rightarrow> 0),
              sd_previous = (case previous of Some p \<Rightarrow> p | None \<Rightarrow> 0), sd_rps = 0\<rparr>)"

text \<open>A tick of the scraper with a fetched body: \<open>counter\<close> is the parsed counter of the body.\<close>

definition scraper_tick ::
  "string \<Rightarrow> u64 \<Rightarrow> u64 option \<Rightarrow> u64 option \<Rightarrow> delta_msg \<times> u64 option" where
  "scraper_tick replica_id now_ms counter previous =
     (let diff = diff_scrapes counter previous
      in (\<lparr>dl_replica_id = replica_id, dl_rps = sd_rps diff, dl_scraped_at_unix_ms = now_ms\<rparr>,
          counter))"

record delta_wire =
  dw_replica_id :: "string option"
  dw_rps :: u32
  dw_scraped_at_unix_ms :: u64

definition MAX_MESSAGE_AGE_MS :: u64 where
  "MAX_MESSAGE_AGE_MS = 2000"

definition DELTA_SUBJECT_PREFIX :: string where
  "DELTA_SUBJECT_PREFIX = ''edgecloud.rate-limit.global.delta.''"

text \<open>A message of the stream: \<open>None\<close> when it is dropped (undecodable or stale); the replica is the leaf
  of the subject whatever the payload says.\<close>

definition receive_delta :: "u64 \<Rightarrow> string \<Rightarrow> delta_wire option \<Rightarrow> delta_msg option" where
  "receive_delta now_ms subject wire =
     (let subject_replica = (case strip_prefix DELTA_SUBJECT_PREFIX subject of
                               Some r \<Rightarrow> r | None \<Rightarrow> subject)
      in case wire of
           None \<Rightarrow> None
         | Some w \<Rightarrow>
             (let age_ms = saturating_sub now_ms (dw_scraped_at_unix_ms w)
              in if age_ms > MAX_MESSAGE_AGE_MS then None
                 else Some \<lparr>dl_replica_id = subject_replica, dl_rps = dw_rps w,
                            dl_scraped_at_unix_ms = dw_scraped_at_unix_ms w\<rparr>))"

section \<open>The snapshot and the cap\<close>

record snapshot =
  sn_configured_cap :: u32
  sn_platform_total :: u64
  sn_this_replica_rps :: u32
  sn_replicas_seen :: u32

definition per_replica_cap :: "snapshot \<Rightarrow> u32 option" where
  "per_replica_cap s =
     (if sn_configured_cap s = 0 then None
      else if sn_replicas_seen s = 0 then None
      else let others_share =
                 (if sn_replicas_seen s > 1
                  then saturating_sub (sn_platform_total s) (ucast (sn_this_replica_rps s))
                         div ucast (sn_replicas_seen s - 1)
                  else 0) :: u64;
               other_u32 = ucast (min others_share (ucast (- 1 :: u32))) :: u32
           in Some (max (saturating_sub (sn_configured_cap s) other_u32) 1))"

section \<open>The sliding window\<close>

definition DEFAULT_WINDOW :: duration where
  "DEFAULT_WINDOW = secs 1"

record window_entry =
  we_replica_id :: string
  we_rps :: u32
  we_ts :: instant

record window_state =
  ws_latest :: "(string, window_entry) hashmap"
  ws_order :: "window_entry list"
  ws_window :: duration

definition ws_new :: "duration \<Rightarrow> window_state" where
  "ws_new window = \<lparr>ws_latest = [], ws_order = [], ws_window = window\<rparr>"

text \<open>\<open>position(..)\<close> followed by \<open>remove(pos)\<close>.\<close>

fun remove_first :: "('a \<Rightarrow> bool) \<Rightarrow> 'a list \<Rightarrow> 'a list" where
  "remove_first P [] = []"
| "remove_first P (x # xs) = (if P x then xs else x # remove_first P xs)"

definition ws_insert :: "delta_msg \<Rightarrow> instant \<Rightarrow> window_state \<Rightarrow> window_state" where
  "ws_insert msg now st =
     (let entry = \<lparr>we_replica_id = dl_replica_id msg, we_rps = dl_rps msg, we_ts = now\<rparr>;
          order = (case hm_get (ws_latest st) (we_replica_id entry) of
                     Some existing \<Rightarrow>
                       remove_first (\<lambda>e. we_replica_id e = we_replica_id existing \<and>
                                         we_ts e = we_ts existing) (ws_order st)
                   | None \<Rightarrow> ws_order st)
      in st\<lparr>ws_latest := hm_insert (we_replica_id entry) entry (ws_latest st),
            ws_order := order @ [entry]\<rparr>)"

fun prune_loop ::
  "instant \<Rightarrow> window_entry list \<Rightarrow> (string, window_entry) hashmap
    \<Rightarrow> window_entry list \<times> (string, window_entry) hashmap" where
  "prune_loop cutoff [] latest = ([], latest)"
| "prune_loop cutoff (front # order) latest =
     (if we_ts front < cutoff then
        prune_loop cutoff order
          (case hm_get latest (we_replica_id front) of
             Some cur \<Rightarrow> if we_ts cur = we_ts front then hm_remove (we_replica_id front) latest
                          else latest
           | None \<Rightarrow> latest)
      else (front # order, latest))"

definition ws_prune :: "instant \<Rightarrow> instant \<Rightarrow> window_state \<Rightarrow> window_state" where
  "ws_prune clock now st =
     (let cutoff = (if ws_window st \<le> now then now - ws_window st else clock);
          (order, latest) = prune_loop cutoff (ws_order st) (ws_latest st)
      in st\<lparr>ws_order := order, ws_latest := latest\<rparr>)"

record aggregator =
  ag_state :: window_state
  ag_this_replica_id :: string
  ag_configured_cap :: u32

definition ag_new :: "string \<Rightarrow> u32 \<Rightarrow> aggregator" where
  "ag_new this_replica_id configured_cap =
     \<lparr>ag_state = ws_new DEFAULT_WINDOW, ag_this_replica_id = this_replica_id,
      ag_configured_cap = configured_cap\<rparr>"

definition snapshot_at :: "aggregator \<Rightarrow> snapshot" where
  "snapshot_at ag =
     (let latest = ws_latest (ag_state ag)
      in \<lparr>sn_configured_cap = ag_configured_cap ag,
          sn_platform_total = sum_list (map (\<lambda>e. ucast (we_rps e)) (hm_values latest)),
          sn_this_replica_rps =
            (case hm_get latest (ag_this_replica_id ag) of Some e \<Rightarrow> we_rps e | None \<Rightarrow> 0),
          sn_replicas_seen = of_nat (length latest)\<rparr>)"

text \<open>\<open>msgs\<close> are the messages the channel holds when the tick drains it.\<close>

definition ag_tick :: "instant \<Rightarrow> delta_msg list \<Rightarrow> instant \<Rightarrow> aggregator \<Rightarrow> snapshot \<times> aggregator" where
  "ag_tick clock msgs now ag =
     (let st = fold (\<lambda>msg. ws_insert msg now) msgs (ag_state ag);
          ag = ag\<lparr>ag_state := ws_prune clock now st\<rparr>
      in (snapshot_at ag, ag))"

section \<open>The datagram\<close>

record datagram_payload =
  dp_ts :: u64
  dp_configured :: u32
  dp_platform_total :: u64
  dp_this_replica :: u32
  dp_replicas_seen :: u32
  dp_local_cap :: "u32 option"

definition payload_of_snapshot :: "u64 \<Rightarrow> snapshot \<Rightarrow> datagram_payload" where
  "payload_of_snapshot now_ms snap =
     \<lparr>dp_ts = now_ms, dp_configured = sn_configured_cap snap,
      dp_platform_total = sn_platform_total snap, dp_this_replica = sn_this_replica_rps snap,
      dp_replicas_seen = sn_replicas_seen snap, dp_local_cap = per_replica_cap snap\<rparr>"

section \<open>The cap in numbers\<close>

lemma unat_max1: "unat (max x 1 :: u32) = max (unat x) 1"
  by (auto simp: max_def word_le_nat_alt)

lemma unat_widen: "unat (ucast (x :: u32) :: u64) = unat x"
proof -
  have "unat x < 2 ^ 32" using unsigned_less [of x] by simp
  then show ?thesis by (simp add: unsigned_ucast_eq unsigned_take_bit_eq take_bit_nat_eq_self)
qed

lemma unat_narrow: "unat (ucast (x :: u64) :: u32) = unat x mod 2 ^ 32"
  by (simp add: unsigned_ucast_eq unsigned_take_bit_eq take_bit_eq_mod)

lemma unat_max_u32: "unat (- 1 :: u32) = 2 ^ 32 - 1"
  by (simp only: unsigned_minus_1_eq_mask mask_eq_exp_minus_1 word_size) simp

lemma clamp_u32:
  "unat (ucast (min x (ucast (- 1 :: u32))) :: u32) = min (unat (x :: u64)) (2 ^ 32 - 1)"
proof -
  have m: "unat (ucast (- 1 :: u32) :: u64) = 2 ^ 32 - 1"
    unfolding unat_widen by (rule unat_max_u32)
  have "unat (min x (ucast (- 1 :: u32))) = min (unat x) (2 ^ 32 - 1)"
    unfolding min_def word_le_nat_alt m by (simp add: m)
  then show ?thesis by (simp add: unat_narrow min_def)
qed

lemma per_replica_cap_nat:
  "map_option unat (per_replica_cap s) =
     (let cap = unat (sn_configured_cap s); seen = unat (sn_replicas_seen s);
          others = unat (sn_platform_total s) - unat (sn_this_replica_rps s)
      in if cap = 0 \<or> seen = 0 then None
         else Some (max (cap - (if seen > 1 then others div (seen - 1) else 0)) 1))"
proof -
  have cap: "unat (sn_configured_cap s) < 2 ^ 32"
    using unsigned_less [of "sn_configured_cap s"] by simp
  have seen: "unat (ucast (sn_replicas_seen s - 1) :: u64) = unat (sn_replicas_seen s) - 1"
    if "sn_replicas_seen s \<noteq> 0"
    unfolding unat_widen using that by (simp add: unat_minus_one)
  have clamp: "unat (sn_configured_cap s) - min n 4294967295 = unat (sn_configured_cap s) - n" for n
    using cap by (simp add: min_def)
  have gt: "sn_replicas_seen s > 1 \<longleftrightarrow> unat (sn_replicas_seen s) > 1"
    by (simp add: word_less_nat_alt)
  show ?thesis
  proof (cases "sn_configured_cap s = 0 \<or> sn_replicas_seen s = 0")
    case True
    then show ?thesis by (auto simp: per_replica_cap_def)
  next
    case False
    then show ?thesis
      using seen
      by (simp add: per_replica_cap_def Let_def unat_max1 unat_saturating_sub clamp_u32 clamp gt
          unat_div_distrib unat_widen unat_eq_0)
  qed
qed

text \<open>The cap of a replica. As numbers: no cap when the configured cap is zero or no replica
  was seen; otherwise the configured cap minus the average of the other replicas' rates, but at least
  one. No step of the 32- and 64-bit computation loses a digit, whatever the fields hold.\<close>

theorem per_replica_cap_exact:
  "map_option unat (per_replica_cap s) =
     (let cap = unat (sn_configured_cap s); seen = unat (sn_replicas_seen s);
          others = unat (sn_platform_total s) - unat (sn_this_replica_rps s)
      in if cap = 0 \<or> seen = 0 then None
         else Some (max (cap - (if seen > 1 then others div (seen - 1) else 0)) 1))"
  by (rule per_replica_cap_nat)

section \<open>The window over time\<close>

text \<open>The insertion order holds the same entries as the map, one per replica, oldest first.\<close>

definition ws_inv :: "window_state \<Rightarrow> bool" where
  "ws_inv st \<longleftrightarrow>
     hm_wf (ws_latest st) \<and> distinct (map we_replica_id (ws_order st)) \<and>
     sorted (map we_ts (ws_order st)) \<and>
     (\<forall>k e. hm_get (ws_latest st) k = Some e \<longleftrightarrow> e \<in> set (ws_order st) \<and> we_replica_id e = k)"

lemma ws_inv_new: "ws_inv (ws_new window)"
  by (simp add: ws_inv_def ws_new_def)

lemma remove_first_filter:
  assumes "distinct (map f xs)" and "e \<in> set xs" and "\<And>x. x \<in> set xs \<Longrightarrow> P x \<longleftrightarrow> x = e"
  shows "remove_first P xs = filter (\<lambda>x. f x \<noteq> f e) xs"
  using assms
proof (induction xs)
  case (Cons x xs)
  show ?case
  proof (cases "x = e")
    case True
    with Cons.prems have "P x" and "\<forall>y \<in> set xs. f y \<noteq> f e"
      by (auto simp: image_iff)
    then have "P x" and "filter (\<lambda>y. f y \<noteq> f e) xs = xs"
      by (auto simp: filter_id_conv)
    with True show ?thesis by simp
  next
    case False
    with Cons.prems have "\<not> P x" and "e \<in> set xs" by auto
    with Cons.IH Cons.prems have "remove_first P xs = filter (\<lambda>y. f y \<noteq> f e) xs" by simp
    moreover have "f x \<noteq> f e" using Cons.prems(1) \<open>e \<in> set xs\<close> by auto
    ultimately show ?thesis using \<open>\<not> P x\<close> by simp
  qed
qed simp

lemma ws_insert_order:
  assumes "ws_inv st"
  shows "ws_order (ws_insert m now st) =
    filter (\<lambda>e. we_replica_id e \<noteq> dl_replica_id m) (ws_order st) @
      [\<lparr>we_replica_id = dl_replica_id m, we_rps = dl_rps m, we_ts = now\<rparr>]"
proof (cases "hm_get (ws_latest st) (dl_replica_id m)")
  case None
  then have "\<forall>e \<in> set (ws_order st). we_replica_id e \<noteq> dl_replica_id m"
    using assms unfolding ws_inv_def by (metis option.distinct(1))
  then have "filter (\<lambda>e. we_replica_id e \<noteq> dl_replica_id m) (ws_order st) = ws_order st"
    by (simp add: filter_id_conv)
  with None show ?thesis by (simp add: ws_insert_def Let_def)
next
  case (Some e)
  then have e: "e \<in> set (ws_order st)" "we_replica_id e = dl_replica_id m"
    using assms by (auto simp: ws_inv_def)
  have "remove_first (\<lambda>x. we_replica_id x = we_replica_id e \<and> we_ts x = we_ts e) (ws_order st) =
      filter (\<lambda>x. we_replica_id x \<noteq> we_replica_id e) (ws_order st)"
    using assms e(1)
    by (intro remove_first_filter) (auto simp: ws_inv_def distinct_map dest: inj_onD)
  with Some e(2) show ?thesis by (simp add: ws_insert_def Let_def)
qed

lemma ws_inv_insert:
  assumes "ws_inv st" and "\<forall>e \<in> set (ws_order st). we_ts e \<le> now"
  shows "ws_inv (ws_insert m now st) \<and>
    (\<forall>e \<in> set (ws_order (ws_insert m now st)). we_ts e \<le> now) \<and>
    ws_window (ws_insert m now st) = ws_window st"
proof -
  have latest: "ws_latest (ws_insert m now st) = hm_insert (dl_replica_id m)
      \<lparr>we_replica_id = dl_replica_id m, we_rps = dl_rps m, we_ts = now\<rparr> (ws_latest st)"
    by (simp add: ws_insert_def Let_def)
  have "ws_inv (ws_insert m now st)"
    using assms unfolding ws_inv_def ws_insert_order [OF assms(1)] latest
    by (auto simp: sorted_append distinct_map_filter sorted_filter)
  then show ?thesis
    using assms by (auto simp: ws_insert_order [OF assms(1)]) (simp add: ws_insert_def Let_def)
qed

lemma ws_insert_get:
  "hm_get (ws_latest (ws_insert m now st)) r =
     (if r = dl_replica_id m then Some \<lparr>we_replica_id = r, we_rps = dl_rps m, we_ts = now\<rparr>
      else hm_get (ws_latest st) r)"
  by (simp add: ws_insert_def Let_def)

lemma ws_insert_all:
  "ws_inv st \<Longrightarrow> \<forall>e \<in> set (ws_order st). we_ts e \<le> now \<Longrightarrow>
   ws_inv (fold (\<lambda>m. ws_insert m now) msgs st) \<and>
   (\<forall>e \<in> set (ws_order (fold (\<lambda>m. ws_insert m now) msgs st)). we_ts e \<le> now) \<and>
   ws_window (fold (\<lambda>m. ws_insert m now) msgs st) = ws_window st \<and>
   hm_get (ws_latest (fold (\<lambda>m. ws_insert m now) msgs st)) r =
     (case map_of (rev (map (\<lambda>m. (dl_replica_id m, m)) msgs)) r of
        Some m \<Rightarrow> Some \<lparr>we_replica_id = r, we_rps = dl_rps m, we_ts = now\<rparr>
      | None \<Rightarrow> hm_get (ws_latest st) r)"
proof (induction msgs arbitrary: st)
  case (Cons m msgs)
  note ins = ws_inv_insert [OF Cons.prems, of m]
  with Cons.IH [of "ws_insert m now st"] show ?case
    by (simp add: ws_insert_get map_add_def split: option.split)
qed simp

lemma prune_loop_exact:
  assumes "distinct (map we_replica_id order)"
    and "\<forall>e \<in> set order. hm_get latest (we_replica_id e) = Some e"
  shows "prune_loop cutoff order latest =
    (dropWhile (\<lambda>e. we_ts e < cutoff) order,
     hm_remove_all (map we_replica_id (takeWhile (\<lambda>e. we_ts e < cutoff) order)) latest)"
  using assms
proof (induction order arbitrary: latest)
  case (Cons e order)
  have "\<forall>x \<in> set order. we_replica_id x \<noteq> we_replica_id e"
    using Cons.prems(1) by (auto simp: image_iff)
  with Cons.prems have "\<forall>x \<in> set order.
      hm_get (hm_remove (we_replica_id e) latest) (we_replica_id x) = Some x" by simp
  with Cons show ?case by (simp add: hm_remove_all_def)
qed (simp add: hm_remove_all_def)

lemma sorted_takeWhile:
  "sorted (map f xs) \<Longrightarrow> set (takeWhile (\<lambda>x. f x < c) xs) = {x \<in> set xs. f x < c}"
  for f :: "'a \<Rightarrow> 'b::linorder"
  by (induction xs) (auto simp: not_less)

lemma sorted_dropWhile:
  "sorted (map f xs) \<Longrightarrow> set (dropWhile (\<lambda>x. f x < c) xs) = {x \<in> set xs. \<not> f x < c}"
  for f :: "'a \<Rightarrow> 'b::linorder"
  by (induction xs) (auto simp: not_less)

lemma ws_prune_exact:
  assumes "ws_inv st" and "ws_window st \<le> now"
  shows "ws_inv (ws_prune clock now st) \<and>
    hm_get (ws_latest (ws_prune clock now st)) r =
      (case hm_get (ws_latest st) r of
         Some e \<Rightarrow> if we_ts e < now - ws_window st then None else Some e
       | None \<Rightarrow> None)"
proof -
  let ?c = "now - ws_window st"
  have inv: "hm_wf (ws_latest st)" "distinct (map we_replica_id (ws_order st))"
    "sorted (map we_ts (ws_order st))"
    "\<And>k e. hm_get (ws_latest st) k = Some e \<longleftrightarrow> e \<in> set (ws_order st) \<and> we_replica_id e = k"
    using assms(1) by (auto simp: ws_inv_def)
  have eq: "prune_loop ?c (ws_order st) (ws_latest st) =
      (dropWhile (\<lambda>e. we_ts e < ?c) (ws_order st),
       hm_remove_all (map we_replica_id (takeWhile (\<lambda>e. we_ts e < ?c) (ws_order st))) (ws_latest st))"
    using inv(2,4) by (intro prune_loop_exact) auto
  have sel: "ws_order (ws_prune clock now st) = dropWhile (\<lambda>e. we_ts e < ?c) (ws_order st)"
    "ws_latest (ws_prune clock now st) =
      hm_remove_all (map we_replica_id (takeWhile (\<lambda>e. we_ts e < ?c) (ws_order st))) (ws_latest st)"
    using assms(2) by (simp_all add: ws_prune_def Let_def eq)
  have get: "hm_get (ws_latest (ws_prune clock now st)) r =
      (case hm_get (ws_latest st) r of
         Some e \<Rightarrow> if we_ts e < ?c then None else Some e | None \<Rightarrow> None)" for r
    using inv(4) [of r] sorted_takeWhile [OF inv(3), of ?c] inj_onD [of we_replica_id "set (ws_order st)"] inv(2)
    by (auto simp: sel distinct_map image_iff split: option.splits)
  have sub: "distinct (map we_replica_id (dropWhile P (ws_order st)))"
    "sorted (map we_ts (dropWhile P (ws_order st)))" for P
    using inv(2,3) unfolding dropWhile_eq_drop drop_map [symmetric]
    by (simp_all add: sorted_wrt_drop)
  have "hm_get (ws_latest (ws_prune clock now st)) k = Some e \<longleftrightarrow>
      e \<in> set (ws_order (ws_prune clock now st)) \<and> we_replica_id e = k" for k e
  proof -
    have "hm_get (ws_latest (ws_prune clock now st)) k = Some e \<longleftrightarrow>
        hm_get (ws_latest st) k = Some e \<and> \<not> we_ts e < ?c"
      unfolding get by (auto split: option.splits if_splits)
    then show ?thesis
      using inv(4) sorted_dropWhile [OF inv(3), of ?c] by (auto simp: sel)
  qed
  moreover have "hm_wf (ws_latest (ws_prune clock now st))"
    using inv(1) by (simp add: sel)
  ultimately have "ws_inv (ws_prune clock now st)"
    unfolding ws_inv_def by (simp add: sel(1) sub)
  with get show ?thesis by blast
qed

lemma unat_sum_widen:
  "length es \<le> 2 ^ 32 \<Longrightarrow>
   unat (sum_list (map (\<lambda>e. ucast (f e :: u32)) es) :: u64) = sum_list (map (\<lambda>e. unat (f e)) es) \<and>
   sum_list (map (\<lambda>e. unat (f e)) es) \<le> length es * (2 ^ 32 - 1)"
proof (induction es)
  case (Cons e es)
  let ?s = "sum_list (map (\<lambda>e. ucast (f e)) es) :: u64"
  have "unat (f e) < 2 ^ LENGTH(32)" by (rule unsigned_less)
  then have e: "unat (f e) \<le> 2 ^ 32 - 1" by simp
  from Cons have IH: "unat ?s = sum_list (map (\<lambda>e. unat (f e)) es)"
    "sum_list (map (\<lambda>e. unat (f e)) es) \<le> length es * (2 ^ 32 - 1)" by auto
  have "length es * (2 ^ 32 - 1) \<le> (2 ^ 32 - 1) * (2 ^ 32 - 1 :: nat)"
    using Cons.prems by (intro mult_right_mono) auto
  with e IH have "unat (ucast (f e) :: u64) + unat ?s < 2 ^ LENGTH(64)"
    unfolding unat_widen by simp
  from this [unfolded unat_add_lem] have "unat (ucast (f e) + ?s) = unat (f e) + unat ?s"
    by (simp only: unat_widen)
  with e IH show ?case by simp
qed simp

text \<open>Claim C34 (the window holds the last second of every replica). After a tick, a replica counts with the
  last message drained in this tick if there was one, and otherwise with its previous entry unless
  that is older than the window; the pruning by insertion order loses no fresh entry and keeps no
  stale one, and the bookkeeping stays consistent. The total of the snapshot is the exact sum and
  the number of replicas the exact count, for up to \<open>2 ^ 32 - 1\<close> replicas.\<close>

theorem window_tick_exact:
  assumes "ws_inv (ag_state ag)" and "\<forall>e \<in> set (ws_order (ag_state ag)). we_ts e \<le> now"
    and "ws_window (ag_state ag) \<le> now"
    and "ag_tick clock msgs now ag = (snap, ag')" and "length (ws_latest (ag_state ag')) < 2 ^ 32"
  shows "ws_inv (ag_state ag') \<and>
    (\<forall>r. hm_get (ws_latest (ag_state ag')) r =
       (case map_of (rev (map (\<lambda>m. (dl_replica_id m, m)) msgs)) r of
          Some m \<Rightarrow> Some \<lparr>we_replica_id = r, we_rps = dl_rps m, we_ts = now\<rparr>
        | None \<Rightarrow> (case hm_get (ws_latest (ag_state ag)) r of
                     Some e \<Rightarrow> if we_ts e < now - ws_window (ag_state ag) then None else Some e
                   | None \<Rightarrow> None))) \<and>
    unat (sn_platform_total snap) =
      sum_list (map (\<lambda>e. unat (we_rps e)) (hm_values (ws_latest (ag_state ag')))) \<and>
    unat (sn_replicas_seen snap) = length (ws_latest (ag_state ag'))"
proof -
  let ?st = "fold (\<lambda>m. ws_insert m now) msgs (ag_state ag)"
  note ins = ws_insert_all [OF assms(1,2), of msgs]
  then have w: "ws_window ?st = ws_window (ag_state ag)" "ws_inv ?st" by auto
  have pr: "ws_inv (ws_prune clock now ?st) \<and>
    hm_get (ws_latest (ws_prune clock now ?st)) r =
      (case hm_get (ws_latest ?st) r of
         Some e \<Rightarrow> if we_ts e < now - ws_window (ag_state ag) then None else Some e
       | None \<Rightarrow> None)" for r
    using ws_prune_exact [OF w(2), of now clock r] assms(3) unfolding w(1) by simp
  have ag': "ag_state ag' = ws_prune clock now ?st" and snap: "snap = snapshot_at ag'"
    using assms(4) by (auto simp: ag_tick_def Let_def)
  have len: "length (hm_values (ws_latest (ag_state ag'))) \<le> 2 ^ 32"
    using assms(5) by (simp add: hm_values_def)
  have "unat (sn_platform_total snap) =
      sum_list (map (\<lambda>e. unat (we_rps e)) (hm_values (ws_latest (ag_state ag'))))"
    using unat_sum_widen [OF len, of we_rps] by (simp add: snap snapshot_at_def Let_def)
  moreover have "unat (sn_replicas_seen snap) = length (ws_latest (ag_state ag'))"
    using assms(5) by (simp add: snap snapshot_at_def Let_def unat_of_nat)
  moreover have "hm_get (ws_latest (ag_state ag')) r =
      (case map_of (rev (map (\<lambda>m. (dl_replica_id m, m)) msgs)) r of
          Some m \<Rightarrow> Some \<lparr>we_replica_id = r, we_rps = dl_rps m, we_ts = now\<rparr>
        | None \<Rightarrow> (case hm_get (ws_latest (ag_state ag)) r of
                     Some e \<Rightarrow> if we_ts e < now - ws_window (ag_state ag) then None else Some e
                   | None \<Rightarrow> None))" for r
    using pr [of r] ins by (simp add: ag' split: option.split)
  ultimately show ?thesis using pr by (simp add: ag')
qed

theorem window_tick_exact_witness:
  "unat (sn_platform_total (fst (ag_tick 0
     [\<lparr>dl_replica_id = ''a'', dl_rps = 700, dl_scraped_at_unix_ms = 0\<rparr>,
      \<lparr>dl_replica_id = ''b'', dl_rps = 300, dl_scraped_at_unix_ms = 0\<rparr>] (secs 5) (ag_new ''a'' 1000))))
   = 1000"
proof -
  let ?msgs = "[\<lparr>dl_replica_id = ''a'', dl_rps = 700, dl_scraped_at_unix_ms = 0\<rparr>,
      \<lparr>dl_replica_id = ''b'', dl_rps = 300, dl_scraped_at_unix_ms = 0\<rparr>]"
  obtain snap ag' where eq: "ag_tick 0 ?msgs (secs 5) (ag_new ''a'' 1000) = (snap, ag')" by fastforce
  have latest: "ws_latest (ag_state ag') =
      [(''a'', \<lparr>we_replica_id = ''a'', we_rps = 700, we_ts = secs 5\<rparr>),
       (''b'', \<lparr>we_replica_id = ''b'', we_rps = 300, we_ts = secs 5\<rparr>)]"
    using eq by (auto simp: ag_tick_def ag_new_def ws_new_def ws_insert_def ws_prune_def Let_def
        hm_insert_def hm_get_Cons DEFAULT_WINDOW_def)
  have "unat (sn_platform_total snap) =
      sum_list (map (\<lambda>e. unat (we_rps e)) (hm_values (ws_latest (ag_state ag'))))"
    by (rule window_tick_exact [OF _ _ _ eq, THEN conjunct2, THEN conjunct2, THEN conjunct1])
      (simp_all add: ag_new_def ws_inv_new latest, simp_all add: ws_new_def DEFAULT_WINDOW_def)
  then show ?thesis unfolding eq latest by (simp add: hm_values_def)
qed

text \<open>The rate of a scrape. The published rate is the growth of the counter modulo \<open>2 ^ 32\<close>, and
  zero when the counter went backwards or one of the scrapes had no counter. So a growth of
  \<open>2 ^ 32\<close> or more is published as its remainder rather than as the largest rate.\<close>

theorem diff_scrapes_rate:
  "unat (sd_rps (diff_scrapes current previous)) =
     (case (current, previous) of
        (Some c, Some p) \<Rightarrow> (unat c - unat p) mod 2 ^ 32
      | _ \<Rightarrow> 0)"
  by (auto simp: diff_scrapes_def unat_narrow word_le_nat_alt unat_sub_if' not_le
      split: option.split)

end
