(* ===== verification/Runtime_Kv.thy ===== *)
theory Runtime_Kv
  imports Edge_Prelude
begin

text \<open>
  The guest's key-value store, \<open>edge-runtime/src/interfaces/kv_store.rs\<close>: an in-memory map with
  expiry times, cleaned up every hundred writes, and flushed to a file after every write when the
  store is persistent.

  A time is a number of seconds since the epoch (\<open>now_secs\<close>); an operation reads the clock once.
  The file is part of the state: \<open>None\<close> when it does not exist. The JSON and base64 libraries are
  the fields of \<open>codec\<close>, over an arbitrary type of file contents and of encoded values; what the
  store relies on is that decoding inverts encoding (\<open>codec_ok\<close>). The record \<open>store_env\<close> tells on
  what kind of thread an operation runs and whether writing the file succeeds. The flush after a
  write calls \<open>Handle::block_on\<close>, which works on a blocking thread of the Tokio runtime and panics
  on one of its executor threads; without a runtime the flush is skipped. The locks are released
  before the flush, so that a write that panics has changed the map and not the file.
\<close>

section \<open>State\<close>

type_synonym bytes = "u8 list"

record kv_entry =
  kv_value :: bytes
  kv_expires_at :: "nat option"

record ('b) persisted_key =
  pk_key :: string
  pk_value :: 'b
  pk_expires_at :: "nat option"

record ('b) persisted_store =
  ps_version :: u32
  ps_keys :: "'b persisted_key list"

record ('b, 'p, 'f) codec =
  b64_encode :: "bytes \<Rightarrow> 'b"
  b64_decode :: "'b \<Rightarrow> bytes option"
  to_json :: "'p \<Rightarrow> 'f"
  from_json :: "'f \<Rightarrow> 'p option"

type_synonym ('b, 'f) kv_codec = "('b, 'b persisted_store, 'f) codec"

record ('f) kv_store =
  kv_data :: "(string, kv_entry) hashmap"
  kv_op_counter :: nat
  kv_persistence :: bool
  kv_file :: "'f option"

datatype thread_kind = NoRuntime | BlockingThread | ExecutorThread

record store_env =
  se_now :: nat
  se_thread :: thread_kind
  se_io_ok :: bool

text \<open>How a call ends: with a value, or in a panic.\<close>

datatype 'a outcome = Returned 'a | CallPanics

datatype kv_error = KvIo | KvCorrupted | KvInvalidTenantId string

definition KV_TTL_CLEANUP_BATCH_SIZE :: nat where
  "KV_TTL_CLEANUP_BATCH_SIZE = 100"

section \<open>Operations\<close>

definition kv_is_expired :: "nat \<Rightarrow> kv_entry \<Rightarrow> bool" where
  "kv_is_expired now e = (case kv_expires_at e of Some x \<Rightarrow> now > x | None \<Rightarrow> False)"

text \<open>\<open>e > now\<close>, and \<open>true\<close> for an entry without expiry: what \<open>load\<close> and \<open>cleanup_expired\<close> keep.\<close>

definition not_past :: "nat \<Rightarrow> nat option \<Rightarrow> bool" where
  "not_past now x = (case x of Some e \<Rightarrow> e > now | None \<Rightarrow> True)"

fun kv_decode_keys ::
  "('b, 'f) kv_codec \<Rightarrow> 'b persisted_key list \<Rightarrow> kv_error + (string \<times> kv_entry) list" where
  "kv_decode_keys c [] = Inr []"
| "kv_decode_keys c (k # ks) =
     (case b64_decode c (pk_value k) of
        None \<Rightarrow> Inl KvCorrupted
      | Some v \<Rightarrow>
          (case kv_decode_keys c ks of
             Inl e \<Rightarrow> Inl e
           | Inr kvs \<Rightarrow>
               Inr ((pk_key k, \<lparr>kv_value = v, kv_expires_at = pk_expires_at k\<rparr>) # kvs)))"

text \<open>\<open>readable\<close> tells whether reading an existing file succeeds.\<close>

definition kv_load ::
  "('b, 'f) kv_codec \<Rightarrow> nat \<Rightarrow> bool \<Rightarrow> 'f option \<Rightarrow> kv_error + (string, kv_entry) hashmap" where
  "kv_load c now readable file =
     (case file of
        None \<Rightarrow> Inr []
      | Some contents \<Rightarrow>
          if \<not> readable then Inl KvIo
          else (case from_json c contents of
                  None \<Rightarrow> Inl KvCorrupted
                | Some state \<Rightarrow>
                    (case kv_decode_keys c
                            (filter (\<lambda>k. not_past now (pk_expires_at k)) (ps_keys state)) of
                       Inl e \<Rightarrow> Inl e
                     | Inr kvs \<Rightarrow> Inr (hm_collect kvs))))"

definition kv_persisted :: "('b, 'f) kv_codec \<Rightarrow> (string, kv_entry) hashmap \<Rightarrow> 'b persisted_store" where
  "kv_persisted c data =
     \<lparr>ps_version = 1,
      ps_keys = map (\<lambda>(k, v). \<lparr>pk_key = k, pk_value = b64_encode c (kv_value v),
                              pk_expires_at = kv_expires_at v\<rparr>) data\<rparr>"

definition kv_flush :: "('b, 'f) kv_codec \<Rightarrow> bool \<Rightarrow> 'f kv_store \<Rightarrow> (kv_error + unit) \<times> 'f kv_store" where
  "kv_flush c io_ok s =
     (if io_ok then (Inr (), s\<lparr>kv_file := Some (to_json c (kv_persisted c (kv_data s)))\<rparr>)
      else (Inl KvIo, s))"

definition kv_new :: "'f option \<Rightarrow> 'f kv_store" where
  "kv_new file = \<lparr>kv_data = [], kv_op_counter = 0, kv_persistence = False, kv_file = file\<rparr>"

definition kv_with_persistence ::
  "('b, 'f) kv_codec \<Rightarrow> nat \<Rightarrow> bool \<Rightarrow> 'f option \<Rightarrow> kv_error + 'f kv_store" where
  "kv_with_persistence c now readable file =
     (case kv_load c now readable file of
        Inl e \<Rightarrow> Inl e
      | Inr data \<Rightarrow>
          Inr \<lparr>kv_data = data, kv_op_counter = 0, kv_persistence = True, kv_file = file\<rparr>)"

definition kv_ttl_to_abs :: "nat \<Rightarrow> u32 \<Rightarrow> nat" where
  "kv_ttl_to_abs now ttl_secs = now + unat ttl_secs"

definition kv_get_entry :: "nat \<Rightarrow> (string, kv_entry) hashmap \<Rightarrow> string \<Rightarrow> kv_entry option" where
  "kv_get_entry now data key =
     (case hm_get data key of
        Some e \<Rightarrow> if kv_is_expired now e then None else Some e
      | None \<Rightarrow> None)"

definition kv_cleanup_expired :: "nat \<Rightarrow> (string, kv_entry) hashmap \<Rightarrow> (string, kv_entry) hashmap" where
  "kv_cleanup_expired now data = filter (\<lambda>(_, e). not_past now (kv_expires_at e)) data"

definition kv_try_cleanup :: "nat \<Rightarrow> 'f kv_store \<Rightarrow> 'f kv_store" where
  "kv_try_cleanup now s =
     (if kv_op_counter s \<ge> KV_TTL_CLEANUP_BATCH_SIZE
      then s\<lparr>kv_op_counter := 0, kv_data := kv_cleanup_expired now (kv_data s)\<rparr>
      else s)"

definition kv_flush_if_persistent ::
  "('b, 'f) kv_codec \<Rightarrow> store_env \<Rightarrow> 'f kv_store \<Rightarrow> unit outcome \<times> 'f kv_store" where
  "kv_flush_if_persistent c env s =
     (if \<not> kv_persistence s then (Returned (), s)
      else case se_thread env of
             NoRuntime \<Rightarrow> (Returned (), s)
           | BlockingThread \<Rightarrow> (Returned (), snd (kv_flush c (se_io_ok env) s))
           | ExecutorThread \<Rightarrow> (CallPanics, s))"

definition kv_get :: "store_env \<Rightarrow> string \<Rightarrow> 'f kv_store \<Rightarrow> bytes option \<times> 'f kv_store" where
  "kv_get env key s =
     (case kv_get_entry (se_now env) (kv_data s) key of
        Some e \<Rightarrow> (Some (kv_value e), s)
      | None \<Rightarrow> (None, s\<lparr>kv_data := hm_remove key (kv_data s)\<rparr>))"

definition kv_insert :: "nat \<Rightarrow> string \<times> bytes \<times> u32 option \<Rightarrow> 'f kv_store \<Rightarrow> 'f kv_store" where
  "kv_insert now item s =
     (case item of (key, value, ttl_secs) \<Rightarrow>
        s\<lparr>kv_data := hm_insert key \<lparr>kv_value = value,
                                   kv_expires_at = map_option (kv_ttl_to_abs now) ttl_secs\<rparr> (kv_data s),
          kv_op_counter := kv_op_counter s + 1\<rparr>)"

definition kv_set ::
  "('b, 'f) kv_codec \<Rightarrow> store_env \<Rightarrow> string \<Rightarrow> bytes \<Rightarrow> u32 option \<Rightarrow> 'f kv_store \<Rightarrow>
   unit outcome \<times> 'f kv_store" where
  "kv_set c env key value ttl_secs s =
     kv_flush_if_persistent c env
       (kv_try_cleanup (se_now env) (kv_insert (se_now env) (key, value, ttl_secs) s))"

definition kv_delete ::
  "('b, 'f) kv_codec \<Rightarrow> store_env \<Rightarrow> string \<Rightarrow> 'f kv_store \<Rightarrow> unit outcome \<times> 'f kv_store" where
  "kv_delete c env key s =
     kv_flush_if_persistent c env (s\<lparr>kv_data := hm_remove key (kv_data s)\<rparr>)"

definition kv_list_keys :: "string \<Rightarrow> 'f kv_store \<Rightarrow> string list" where
  "kv_list_keys prefix s = filter (starts_with prefix) (hm_keys (kv_data s))"

definition kv_get_many ::
  "store_env \<Rightarrow> string list \<Rightarrow> 'f kv_store \<Rightarrow> bytes option list \<times> 'f kv_store" where
  "kv_get_many env keys s =
     (let results = map (kv_get_entry (se_now env) (kv_data s)) keys;
          to_remove = map fst (filter (\<lambda>(_, entry). entry = None) (zip keys results))
      in (map (map_option kv_value) results,
          s\<lparr>kv_data := hm_remove_all to_remove (kv_data s)\<rparr>))"

definition kv_set_many ::
  "('b, 'f) kv_codec \<Rightarrow> store_env \<Rightarrow> (string \<times> bytes \<times> u32 option) list \<Rightarrow> 'f kv_store \<Rightarrow>
   unit outcome \<times> 'f kv_store" where
  "kv_set_many c env items s =
     kv_flush_if_persistent c env
       (kv_try_cleanup (se_now env) (fold (kv_insert (se_now env)) items s))"

definition kv_delete_many ::
  "('b, 'f) kv_codec \<Rightarrow> store_env \<Rightarrow> string list \<Rightarrow> 'f kv_store \<Rightarrow> unit outcome \<times> 'f kv_store" where
  "kv_delete_many c env keys s =
     kv_flush_if_persistent c env (s\<lparr>kv_data := hm_remove_all keys (kv_data s)\<rparr>)"

definition kv_exists :: "store_env \<Rightarrow> string \<Rightarrow> 'f kv_store \<Rightarrow> bool" where
  "kv_exists env key s = (kv_get_entry (se_now env) (kv_data s) key \<noteq> None)"

definition kv_clear :: "('b, 'f) kv_codec \<Rightarrow> store_env \<Rightarrow> 'f kv_store \<Rightarrow> unit outcome \<times> 'f kv_store" where
  "kv_clear c env s = kv_flush_if_persistent c env (s\<lparr>kv_data := []\<rparr>)"

section \<open>Lookup after each operation\<close>

named_theorems kv_simps

lemma kv_flush_frame [kv_simps]:
  "kv_data (snd (kv_flush_if_persistent c env s)) = kv_data s"
  "kv_persistence (snd (kv_flush_if_persistent c env s)) = kv_persistence s"
  by (simp_all add: kv_flush_if_persistent_def kv_flush_def split: thread_kind.splits)

lemma kv_flush_outcome [kv_simps]:
  "fst (kv_flush_if_persistent c env s) =
     (if kv_persistence s \<and> se_thread env = ExecutorThread then CallPanics else Returned ())"
  by (simp add: kv_flush_if_persistent_def split: thread_kind.splits)

lemma kv_try_cleanup_frame [kv_simps]:
  "kv_persistence (kv_try_cleanup now s) = kv_persistence s"
  "kv_file (kv_try_cleanup now s) = kv_file s"
  by (simp_all add: kv_try_cleanup_def)

lemma kv_insert_frame [kv_simps]:
  "kv_persistence (kv_insert now item s) = kv_persistence s"
  "kv_file (kv_insert now item s) = kv_file s"
  by (simp_all add: kv_insert_def split: prod.splits)

lemma kv_fold_insert_frame [kv_simps]:
  "kv_persistence (fold (kv_insert now) items s) = kv_persistence s"
  "kv_file (fold (kv_insert now) items s) = kv_file s"
  by (induction items arbitrary: s) (simp_all add: kv_simps)

section \<open>The store against its history\<close>

text \<open>The operations of the interface that change the store, and reopening it from its file, as a
  worker restart does.\<close>

datatype store_op =
    OpGet string
  | OpExists string
  | OpGetMany "string list"
  | OpSet string bytes "u32 option"
  | OpSetMany "(string \<times> bytes \<times> u32 option) list"
  | OpDelete string
  | OpDeleteMany "string list"
  | OpClear
  | OpReopen

fun kv_step ::
  "('b, 'f) kv_codec \<Rightarrow> store_env \<times> store_op \<Rightarrow> 'f kv_store \<Rightarrow> unit outcome \<times> 'f kv_store" where
  "kv_step c (env, OpGet k) s = (Returned (), snd (kv_get env k s))"
| "kv_step c (env, OpExists k) s = (Returned (), s)"
| "kv_step c (env, OpGetMany ks) s = (Returned (), snd (kv_get_many env ks s))"
| "kv_step c (env, OpSet k v ttl) s = kv_set c env k v ttl s"
| "kv_step c (env, OpSetMany items) s = kv_set_many c env items s"
| "kv_step c (env, OpDelete k) s = kv_delete c env k s"
| "kv_step c (env, OpDeleteMany ks) s = kv_delete_many c env ks s"
| "kv_step c (env, OpClear) s = kv_clear c env s"
| "kv_step c (env, OpReopen) s =
     (Returned (), case kv_with_persistence c (se_now env) True (kv_file s) of Inr s' \<Rightarrow> s' | Inl _ \<Rightarrow> s)"

text \<open>A panic ends the guest's call and not the store, which is shared with the next one.\<close>

definition kv_run :: "('b, 'f) kv_codec \<Rightarrow> (store_env \<times> store_op) list \<Rightarrow> 'f kv_store \<Rightarrow> 'f kv_store" where
  "kv_run c hist s = fold (\<lambda>eo s. snd (kv_step c eo s)) hist s"

text \<open>What the operations mean: a map from keys to the last value written and its expiry time, and
  the map that is on the file. A write changes the first, and the second when its flush reaches the
  file; reopening the store goes back to the second. Reading and cleaning up change nothing.\<close>

type_synonym kv_spec = "string \<rightharpoonup> bytes \<times> nat option"

definition spec_write :: "nat \<Rightarrow> string \<times> bytes \<times> u32 option \<Rightarrow> kv_spec \<Rightarrow> kv_spec" where
  "spec_write now item m =
     (case item of (k, v, ttl) \<Rightarrow> m(k \<mapsto> (v, map_option (\<lambda>t. now + unat t) ttl)))"

fun spec_effect :: "store_env \<times> store_op \<Rightarrow> kv_spec \<Rightarrow> kv_spec" where
  "spec_effect (env, OpSet k v ttl) m = spec_write (se_now env) (k, v, ttl) m"
| "spec_effect (env, OpSetMany items) m = fold (spec_write (se_now env)) items m"
| "spec_effect (env, OpDelete k) m = m(k := None)"
| "spec_effect (env, OpDeleteMany ks) m = fold (\<lambda>k m. m(k := None)) ks m"
| "spec_effect (env, OpClear) m = Map.empty"
| "spec_effect (env, _) m = m"

fun is_write :: "store_op \<Rightarrow> bool" where
  "is_write (OpSet _ _ _) = True"
| "is_write (OpSetMany _) = True"
| "is_write (OpDelete _) = True"
| "is_write (OpDeleteMany _) = True"
| "is_write OpClear = True"
| "is_write _ = False"

definition reaches_file :: "store_env \<Rightarrow> bool" where
  "reaches_file env \<longleftrightarrow> se_thread env = BlockingThread \<and> se_io_ok env"

fun spec_step :: "store_env \<times> store_op \<Rightarrow> kv_spec \<times> kv_spec \<Rightarrow> kv_spec \<times> kv_spec" where
  "spec_step (env, op) (m, d) =
     (if op = OpReopen then (d, d)
      else (spec_effect (env, op) m,
            if is_write op \<and> reaches_file env then spec_effect (env, op) m else d))"

definition codec_ok :: "('b, 'p, 'f) codec \<Rightarrow> bool" where
  "codec_ok c \<longleftrightarrow> (\<forall>v. b64_decode c (b64_encode c v) = Some v) \<and> (\<forall>p. from_json c (to_json c p) = Some p)"

text \<open>The data agree with the meaning, up to entries whose expiry time has been reached.\<close>

definition entry_rel :: "nat \<Rightarrow> kv_entry option \<Rightarrow> (bytes \<times> nat option) option \<Rightarrow> bool" where
  "entry_rel now d w \<longleftrightarrow>
     (case w of
        None \<Rightarrow> d = None
      | Some (v, x) \<Rightarrow> d = Some \<lparr>kv_value = v, kv_expires_at = x\<rparr> \<or> d = None \<and> \<not> not_past now x)"

definition kv_rel :: "nat \<Rightarrow> (string, kv_entry) hashmap \<Rightarrow> kv_spec \<Rightarrow> bool" where
  "kv_rel now data m \<longleftrightarrow> (\<forall>k. entry_rel now (hm_get data k) (m k))"

definition kv_inv :: "('b, 'f) kv_codec \<Rightarrow> nat \<Rightarrow> 'f kv_store \<Rightarrow> kv_spec \<times> kv_spec \<Rightarrow> bool" where
  "kv_inv c now s w \<longleftrightarrow>
     hm_wf (kv_data s) \<and> kv_persistence s \<and> kv_rel now (kv_data s) (fst w) \<and>
     (case kv_file s of
        None \<Rightarrow> snd w = Map.empty
      | Some f \<Rightarrow>
          \<exists>data. f = to_json c (kv_persisted c data) \<and> hm_wf data \<and> kv_rel now data (snd w))"

lemma not_past_mono: "now \<le> now' \<Longrightarrow> not_past now' x \<Longrightarrow> not_past now x"
  by (auto simp: not_past_def split: option.splits)

lemma entry_rel_mono: "entry_rel now d w \<Longrightarrow> now \<le> now' \<Longrightarrow> entry_rel now' d w"
  unfolding entry_rel_def using not_past_mono [of now now'] by (auto split: option.splits)

lemma entry_rel_None [simp]: "entry_rel now None None"
  by (simp add: entry_rel_def)

lemma entry_rel_keep:
  "entry_rel now d w \<Longrightarrow>
   entry_rel now (case d of Some e \<Rightarrow> if not_past now (kv_expires_at e) then Some e else None | None \<Rightarrow> None) w"
  by (auto simp: entry_rel_def split: option.splits)

lemma kv_rel_mono: "kv_rel now data m \<Longrightarrow> now \<le> now' \<Longrightarrow> kv_rel now' data m"
  unfolding kv_rel_def by (blast intro: entry_rel_mono)

lemma kv_inv_mono: "kv_inv c now s m \<Longrightarrow> now \<le> now' \<Longrightarrow> kv_inv c now' s m"
  unfolding kv_inv_def by (auto split: option.splits intro: kv_rel_mono)

lemma kv_rel_empty [simp]: "kv_rel now [] Map.empty"
  by (simp add: kv_rel_def)

lemma kv_rel_remove: "kv_rel now data m \<Longrightarrow> kv_rel now (hm_remove k data) (m(k := None))"
  by (simp add: kv_rel_def)

lemma kv_rel_remove_all:
  "kv_rel now data m \<Longrightarrow> kv_rel now (hm_remove_all ks data) (fold (\<lambda>k m. m(k := None)) ks m)"
  by (induction ks arbitrary: data m) (auto simp: hm_remove_all_def kv_rel_remove)

lemma kv_rel_insert:
  "kv_rel now (kv_data s) m \<Longrightarrow> kv_rel now (kv_data (kv_insert now item s)) (spec_write now item m)"
  by (cases item)
    (simp add: kv_rel_def kv_insert_def spec_write_def entry_rel_def kv_ttl_to_abs_def [abs_def])

lemma kv_rel_inserts:
  "kv_rel now (kv_data s) m \<Longrightarrow>
   kv_rel now (kv_data (fold (kv_insert now) items s)) (fold (spec_write now) items m)"
  by (induction items arbitrary: s m) (auto simp: kv_rel_insert)

lemma kv_wf_insert: "hm_wf (kv_data s) \<Longrightarrow> hm_wf (kv_data (kv_insert now item s))"
  by (auto simp: kv_insert_def split: prod.splits)

lemma kv_wf_inserts: "hm_wf (kv_data s) \<Longrightarrow> hm_wf (kv_data (fold (kv_insert now) items s))"
  by (induction items arbitrary: s) (auto simp: kv_wf_insert)

lemma kv_rel_filter:
  assumes "hm_wf data" and "kv_rel now data m"
  shows "kv_rel now (filter (\<lambda>(_, e). not_past now (kv_expires_at e)) data) m"
  using assms(2) unfolding kv_rel_def hm_get_filter [OF assms(1)] by (blast intro: entry_rel_keep)

lemma kv_rel_expired_remove:
  assumes "kv_rel now data m" and "kv_get_entry now data k = None"
  shows "kv_rel now (hm_remove k data) m"
proof -
  from assms(1) have "entry_rel now (hm_get data k) (m k)" by (simp add: kv_rel_def)
  with assms(2) have "entry_rel now None (m k)"
    by (auto simp: entry_rel_def kv_get_entry_def kv_is_expired_def not_past_def
        split: option.splits if_splits)
  with assms(1) show ?thesis by (simp add: kv_rel_def)
qed

lemma kv_rel_remove_gone:
  assumes rel: "kv_rel now data m" and gone: "\<And>k. k \<in> set ks \<Longrightarrow> kv_get_entry now data k = None"
  shows "kv_rel now (hm_remove_all ks data) m"
  unfolding kv_rel_def hm_get_remove_all
proof
  fix k
  show "entry_rel now (if k \<in> set ks then None else hm_get data k) (m k)"
  proof (cases "k \<in> set ks")
    case True
    from kv_rel_expired_remove [OF rel gone [OF True]]
    have "entry_rel now (hm_get (hm_remove k data) k) (m k)" unfolding kv_rel_def by blast
    with True show ?thesis by simp
  qed (use rel in \<open>simp add: kv_rel_def\<close>)
qed

lemma kv_rel_get_many:
  assumes "kv_rel now data m"
  shows "kv_rel now (hm_remove_all (map fst (filter (\<lambda>(_, e). e = None)
           (zip ks (map (kv_get_entry now data) ks)))) data) m"
  by (rule kv_rel_remove_gone [OF assms]) (auto simp: zip_map2 zip_same_conv_map)

lemma kv_decode_persisted:
  "codec_ok c \<Longrightarrow> kv_decode_keys c (ps_keys (kv_persisted c data)) = Inr data"
  by (induction data) (auto simp: kv_persisted_def codec_ok_def)

lemma kv_persisted_filter:
  "filter (\<lambda>k. not_past now (pk_expires_at k)) (ps_keys (kv_persisted c data)) =
   ps_keys (kv_persisted c (filter (\<lambda>(_, e). not_past now (kv_expires_at e)) data))"
  by (induction data) (auto simp: kv_persisted_def)

lemma kv_load_flushed:
  assumes "codec_ok c"
  shows "kv_load c now True (Some (to_json c (kv_persisted c data))) =
     Inr (hm_collect (filter (\<lambda>(_, e). not_past now (kv_expires_at e)) data))"
proof -
  from assms have "from_json c (to_json c (kv_persisted c data)) = Some (kv_persisted c data)"
    by (simp add: codec_ok_def)
  then show ?thesis
    by (simp add: kv_load_def kv_persisted_filter kv_decode_persisted [OF assms])
qed

text \<open>A write that leaves well-formed data in agreement with the new meaning, and then flushes,
  restores the invariant.\<close>

lemma kv_inv_flush:
  assumes "hm_wf (kv_data s)" and "kv_rel (se_now env) (kv_data s) m'" and "kv_inv c (se_now env) s0 (m, d)"
    and "kv_persistence s = kv_persistence s0" and "kv_file s = kv_file s0"
  shows "kv_inv c (se_now env) (snd (kv_flush_if_persistent c env s)) (m', if reaches_file env then m' else d)"
  using assms
  by (auto simp: kv_inv_def kv_flush_if_persistent_def kv_flush_def reaches_file_def
      split: thread_kind.splits option.splits)

lemma kv_cleanup_ok:
  assumes "hm_wf (kv_data s)" and "kv_rel now (kv_data s) m"
  shows "hm_wf (kv_data (kv_try_cleanup now s))" "kv_rel now (kv_data (kv_try_cleanup now s)) m"
  using assms kv_rel_filter [OF assms]
  by (auto simp: kv_try_cleanup_def kv_cleanup_expired_def)

lemma kv_inv_write:
  assumes "hm_wf (kv_data s)" and "kv_rel (se_now env) (kv_data s) m'" and "kv_inv c (se_now env) s0 (m, d)"
    and "kv_persistence s = kv_persistence s0" and "kv_file s = kv_file s0"
  shows "kv_inv c (se_now env) (snd (kv_flush_if_persistent c env (kv_try_cleanup (se_now env) s)))
     (m', if reaches_file env then m' else d)"
  using kv_cleanup_ok [OF assms(1,2)] assms(4,5) by (intro kv_inv_flush [OF _ _ assms(3)]) (simp_all add: kv_simps)

lemma kv_inv_reopen:
  assumes "codec_ok c" and inv: "kv_inv c now s (m, d)"
  shows "\<exists>s'. kv_with_persistence c now True (kv_file s) = Inr s' \<and> kv_inv c now s' (d, d)"
proof (cases "kv_file s")
  case None
  with inv show ?thesis by (auto simp: kv_with_persistence_def kv_load_def kv_inv_def)
next
  case (Some f)
  with inv obtain data where f: "f = to_json c (kv_persisted c data)" and wf: "hm_wf data"
    and rel: "kv_rel now data d" by (auto simp: kv_inv_def)
  let ?kept = "filter (\<lambda>(_, e). not_past now (kv_expires_at e)) data"
  from kv_rel_filter [OF wf rel] have "kv_rel now (hm_collect ?kept) d"
    by (simp add: kv_rel_def hm_get_collect_id wf)
  with Some f wf rel show ?thesis
    by (auto simp: kv_with_persistence_def kv_load_flushed [OF assms(1)] kv_inv_def)
qed

lemma kv_step_inv:
  assumes c: "codec_ok c" and inv: "kv_inv c now s w" and le: "now \<le> se_now env"
  shows "kv_inv c (se_now env) (snd (kv_step c (env, op) s)) (spec_step (env, op) w)"
proof -
  obtain m d where w: "w = (m, d)" by fastforce
  from kv_inv_mono [OF inv le] have inv': "kv_inv c (se_now env) s (m, d)" by (simp add: w)
  then have wf: "hm_wf (kv_data s)" and rel: "kv_rel (se_now env) (kv_data s) m" by (auto simp: kv_inv_def)
  note flush = kv_inv_flush [OF _ _ inv'] and cleanup = kv_inv_write [OF _ _ inv']
  show ?thesis
  proof (cases op)
    case (OpGet k)
    show ?thesis
    proof (cases "kv_get_entry (se_now env) (kv_data s) k")
      case None
      then show ?thesis using inv' kv_rel_expired_remove [OF rel None]
        by (auto simp: w OpGet kv_get_def kv_inv_def)
    qed (use inv' in \<open>auto simp: w OpGet kv_get_def\<close>)
  next
    case (OpExists k)
    then show ?thesis using inv' by (simp add: w)
  next
    case (OpGetMany ks)
    then show ?thesis using inv' kv_rel_get_many [OF rel, of ks]
      by (auto simp: w kv_get_many_def Let_def kv_inv_def)
  next
    case (OpSet k v ttl)
    then show ?thesis using cleanup [OF kv_wf_insert [OF wf] kv_rel_insert [OF rel]]
      by (simp add: w kv_set_def kv_simps split del: if_split cong: if_cong)
  next
    case (OpSetMany items)
    then show ?thesis using cleanup [OF kv_wf_inserts [OF wf] kv_rel_inserts [OF rel]]
      by (simp add: w kv_set_many_def kv_simps split del: if_split cong: if_cong)
  next
    case (OpDelete k)
    then show ?thesis using flush [of "s\<lparr>kv_data := hm_remove k (kv_data s)\<rparr>"] wf kv_rel_remove [OF rel]
      by (simp add: w kv_delete_def split del: if_split cong: if_cong)
  next
    case (OpDeleteMany ks)
    then show ?thesis using flush [of "s\<lparr>kv_data := hm_remove_all ks (kv_data s)\<rparr>"] wf kv_rel_remove_all [OF rel]
      by (simp add: w kv_delete_many_def split del: if_split cong: if_cong)
  next
    case OpClear
    then show ?thesis using flush [of "s\<lparr>kv_data := []\<rparr>" Map.empty] by (simp add: w kv_clear_def split del: if_split cong: if_cong)
  next
    case OpReopen
    then show ?thesis using kv_inv_reopen [OF c inv'] by (auto simp: w)
  qed
qed

lemma kv_run_inv:
  assumes "codec_ok c" and "kv_inv c t0 s w" and "sorted (t0 # map (\<lambda>(env, _). se_now env) hist)"
  shows "kv_inv c (last (t0 # map (\<lambda>(env, _). se_now env) hist)) (kv_run c hist s) (fold spec_step hist w)"
  using assms(2-)
proof (induction hist arbitrary: t0 s w)
  case (Cons eo hist)
  obtain env op where eo: "eo = (env, op)" by fastforce
  from Cons.prems have "kv_inv c (se_now env) (snd (kv_step c (env, op) s)) (spec_step (env, op) w)"
    by (intro kv_step_inv [OF assms(1)]) (auto simp: eo)
  from Cons.IH [OF this] Cons.prems show ?case by (auto simp: eo kv_run_def simp del: spec_step.simps)
qed (simp add: kv_run_def)

lemma kv_step_outcome:
  assumes "kv_persistence s"
  shows "fst (kv_step c (env, op) s) =
     (if is_write op \<and> se_thread env = ExecutorThread then CallPanics else Returned ())"
  using assms by (cases op)
    (simp_all add: kv_set_def kv_set_many_def kv_delete_def kv_delete_many_def kv_clear_def kv_simps)

text \<open>Claim C12 (the key-value store remembers the last write). Start a persistent store on a fresh
  file and run any sequence of gets, sets, deletes, batch operations, clears and reopenings
  (restarts of the worker), on any threads, whether or not the file can be written, with a clock
  that does not run backwards. A read at a later time \<open>t\<close> gives nothing when the key was never
  written, or deleted or cleared since; the last value when it was written without expiry or expires
  after \<open>t\<close>; and nothing when it expired before \<open>t\<close>. In the very second of the expiry the answer is
  the value or nothing: \<open>get\<close> still serves the entry, while the periodic cleanup and a reopening drop
  it. A reopening goes back to what the store was after the last write whose flush ran on a blocking
  thread and succeeded. A write panics exactly when it runs on an executor thread of the runtime.\<close>

theorem kv_history_exact:
  assumes "codec_ok c" and "kv_with_persistence c t0 True None = Inr s0"
    and "sorted (t0 # map (\<lambda>(env, _). se_now env) hist @ [se_now env])"
  shows "(case fst (fold spec_step hist (Map.empty, Map.empty)) k of
            None \<Rightarrow> fst (kv_get env k (kv_run c hist s0)) = None
          | Some (v, None) \<Rightarrow> fst (kv_get env k (kv_run c hist s0)) = Some v
          | Some (v, Some e) \<Rightarrow>
              if se_now env < e then fst (kv_get env k (kv_run c hist s0)) = Some v
              else if e < se_now env then fst (kv_get env k (kv_run c hist s0)) = None
              else fst (kv_get env k (kv_run c hist s0)) \<in> {Some v, None}) \<and>
         fst (kv_step c (env, op) (kv_run c hist s0)) =
           (if is_write op \<and> se_thread env = ExecutorThread then CallPanics else Returned ())"
proof -
  let ?s = "kv_run c hist s0" and ?w = "fold spec_step hist (Map.empty, Map.empty)"
  let ?ts = "t0 # map (\<lambda>(env, _). se_now env) hist"
  have "kv_inv c t0 s0 (Map.empty, Map.empty)"
    using assms(2) by (auto simp: kv_with_persistence_def kv_load_def kv_inv_def)
  from kv_run_inv [OF assms(1) this] assms(3)
  have inv: "kv_inv c (last ?ts) ?s ?w" by (auto simp: sorted_append)
  have "sorted (?ts @ [se_now env])" using assms(3) by simp
  then have "last ?ts \<le> se_now env" using last_in_set [of ?ts] by (simp only: sorted_append) auto
  from kv_inv_mono [OF inv this] have "entry_rel (se_now env) (hm_get (kv_data ?s) k) (fst ?w k)"
    and "kv_persistence ?s" by (simp_all add: kv_inv_def kv_rel_def)
  then show ?thesis
    by (auto simp: entry_rel_def kv_get_def kv_get_entry_def kv_is_expired_def not_past_def kv_step_outcome
        split: option.splits if_splits)
qed

definition plain_codec :: "(bytes, bytes persisted_store) kv_codec" where
  "plain_codec = \<lparr>b64_encode = (\<lambda>v. v), b64_decode = Some, to_json = (\<lambda>p. p), from_json = Some\<rparr>"

definition on_thread :: "thread_kind \<Rightarrow> nat \<Rightarrow> store_env" where
  "on_thread th now = \<lparr>se_now = now, se_thread = th, se_io_ok = True\<rparr>"

theorem kv_history_exact_witness:
  "fst (kv_get (on_thread BlockingThread 107) ''k''
     (kv_run plain_codec
        [(on_thread BlockingThread 100, OpSet ''k'' [1, 2] (Some 10)),
         (on_thread ExecutorThread 102, OpSet ''k'' [3] None),
         (on_thread BlockingThread 105, OpReopen)]
        \<lparr>kv_data = [], kv_op_counter = 0, kv_persistence = True, kv_file = None\<rparr>)) = Some [1, 2]"
proof -
  let ?c = plain_codec
  let ?hist = "[(on_thread BlockingThread 100, OpSet ''k'' [1, 2] (Some 10)),
         (on_thread ExecutorThread 102, OpSet ''k'' [3] None),
         (on_thread BlockingThread 105, OpReopen)]"
  have "codec_ok ?c" by (simp add: codec_ok_def plain_codec_def)
  moreover have "kv_with_persistence ?c 0 True None =
      Inr \<lparr>kv_data = [], kv_op_counter = 0, kv_persistence = True, kv_file = None\<rparr>"
    by (simp add: kv_with_persistence_def kv_load_def)
  moreover have "fst (fold spec_step ?hist (Map.empty, Map.empty)) ''k'' = Some ([1, 2], Some 110)"
    by (simp add: spec_write_def reaches_file_def on_thread_def)
  ultimately show ?thesis
    using kv_history_exact [of ?c 0 _ ?hist "on_thread BlockingThread 107" "''k''"]
    by (simp add: on_thread_def)
qed

text \<open>The host calls of a guest run on executor threads, inside \<open>call_async\<close>. There every write
  panics, after it changed the map, and nothing a guest writes ever reaches the file: after a
  restart the store is empty.\<close>

lemma kv_step_file:
  assumes "\<not> reaches_file env"
  shows "kv_file (snd (kv_step c (env, op) s)) = kv_file s"
proof -
  have "kv_file (snd (kv_flush_if_persistent c env s')) = kv_file s'" for s'
    using assms by (auto simp: kv_flush_if_persistent_def kv_flush_def reaches_file_def split: thread_kind.splits)
  then show ?thesis
    by (cases op) (auto simp: kv_get_def kv_get_many_def kv_set_def kv_set_many_def kv_delete_def
        kv_delete_many_def kv_clear_def kv_simps kv_with_persistence_def Let_def split: option.splits sum.splits)
qed

theorem guest_writes_lost:
  assumes "list_all (\<lambda>(env, _). se_thread env = ExecutorThread) hist"
    and "kv_with_persistence c t0 True None = Inr s0"
  shows "kv_file (kv_run c hist s0) = None \<and>
     (\<exists>s'. kv_with_persistence c t True (kv_file (kv_run c hist s0)) = Inr s' \<and> kv_data s' = [])"
proof -
  have "kv_file (kv_run c hist s) = kv_file s" for s
    using assms(1) unfolding kv_run_def
    by (induction hist arbitrary: s) (auto simp: kv_step_file reaches_file_def)
  moreover have "kv_file s0 = None" using assms(2) by (auto simp: kv_with_persistence_def kv_load_def)
  ultimately show ?thesis by (simp add: kv_with_persistence_def kv_load_def)
qed

theorem guest_writes_lost_witness:
  "kv_file (kv_run plain_codec [(on_thread ExecutorThread 1, OpSet ''k'' [1] None)]
     \<lparr>kv_data = [], kv_op_counter = 0, kv_persistence = True, kv_file = None\<rparr>) = None"
  using guest_writes_lost [of "[(on_thread ExecutorThread 1, OpSet ''k'' [1] None)]" plain_codec 0
      "\<lparr>kv_data = [], kv_op_counter = 0, kv_persistence = True, kv_file = None\<rparr>"]
  by (simp add: kv_with_persistence_def kv_load_def on_thread_def)

text \<open>A file that does not parse is an error, and the tenant's store falls back to an ephemeral one:
  \<open>load\<close> says that missing or corrupt files result in an empty store without an error.\<close>

lemma kv_load_corrupt: "from_json c f = None \<Longrightarrow> kv_load c now True (Some f) = Inl KvCorrupted"
  by (simp add: kv_load_def)

lemma kv_load_missing: "kv_load c now True None = Inr []"
  by (simp add: kv_load_def)

text \<open>At the second of its expiry a key is still served by \<open>get\<close>, and no longer after a reopening.\<close>

lemma kv_expiry_boundary:
  assumes "codec_ok c"
  shows "kv_get_entry e [(k, \<lparr>kv_value = v, kv_expires_at = Some e\<rparr>)] k \<noteq> None"
    and "kv_load c e True (Some (to_json c (kv_persisted c [(k, \<lparr>kv_value = v, kv_expires_at = Some e\<rparr>)]))) =
         Inr []"
  by (simp_all add: kv_get_entry_def hm_get_Cons kv_is_expired_def kv_load_flushed [OF assms]
      not_past_def hm_collect_def)

text \<open>\<open>list_keys\<close> does not look at expiry times: it may name a key that \<open>exists\<close> denies.\<close>

lemma kv_list_keys_expired:
  assumes "kv_data s = [(k, \<lparr>kv_value = v, kv_expires_at = Some e\<rparr>)]" and "e < se_now env"
  shows "kv_list_keys [] s = [k] \<and> \<not> kv_exists env k s"
  using assms by (simp add: kv_list_keys_def hm_keys_def starts_with_def kv_exists_def kv_get_entry_def
      hm_get_Cons kv_is_expired_def)

end
