(* ===== verification/Runtime_Cache.thy ===== *)
theory Runtime_Cache
  imports Runtime_Kv
begin

text \<open>
  The guest's cache, \<open>edge-runtime/src/interfaces/cache.rs\<close>: a bounded least-recently-used map with
  expiry times, the same interface as the key-value store, and the same flush to a file.

  The \<open>lru\<close> crate is the record \<open>lru_ops\<close> of its operations over an abstract cache type; what the
  code relies on is the documented behaviour \<open>lru_ok\<close>: \<open>iter\<close> lists the entries from the most to
  the least recently used, \<open>get\<close> and \<open>push\<close> move the key to the front, and \<open>push\<close> drops the last
  entry when the capacity is exceeded. Clock, threads and file are as in \<open>Runtime_Kv\<close>, and
  \<open>codec\<close> stands for the JSON and base64 libraries. A capacity of zero is a panic of the
  constructors.
\<close>

section \<open>State\<close>

record cache_entry =
  ce_value :: bytes
  ce_expires_at :: "nat option"

record ('b) persisted_entry =
  pe_key :: string
  pe_value :: 'b
  pe_expires_at :: "nat option"

record ('b) persisted_cache =
  pc_version :: u32
  pc_entries :: "'b persisted_entry list"

type_synonym ('b, 'f) cache_codec = "('b, 'b persisted_cache, 'f) codec"

record ('l) lru_ops =
  lru_new :: "nat \<Rightarrow> 'l"
  lru_cap :: "'l \<Rightarrow> nat"
  lru_iter :: "'l \<Rightarrow> (string \<times> cache_entry) list"
  lru_get :: "string \<Rightarrow> 'l \<Rightarrow> cache_entry option \<times> 'l"
  lru_push :: "string \<Rightarrow> cache_entry \<Rightarrow> 'l \<Rightarrow> 'l"
  lru_pop :: "string \<Rightarrow> 'l \<Rightarrow> 'l"
  lru_clear :: "'l \<Rightarrow> 'l"
  lru_len :: "'l \<Rightarrow> nat"

record ('l, 'f) cache =
  ca_lru :: 'l
  ca_ops_since_cleanup :: nat
  ca_persistence :: bool
  ca_file :: "'f option"

datatype cache_error = CacheIo | CacheInvalidTenantId string

definition CACHE_TTL_CLEANUP_BATCH_SIZE :: nat where
  "CACHE_TTL_CLEANUP_BATCH_SIZE = 100"

section \<open>Operations\<close>

definition ca_ttl_to_abs :: "nat \<Rightarrow> u32 \<Rightarrow> nat" where
  "ca_ttl_to_abs now ttl_secs = now + unat ttl_secs"

definition ca_is_expired :: "nat \<Rightarrow> cache_entry \<Rightarrow> bool" where
  "ca_is_expired now e = (case ce_expires_at e of Some x \<Rightarrow> now > x | None \<Rightarrow> False)"

fun cache_load_entries ::
  "('b, 'f) cache_codec \<Rightarrow> nat \<Rightarrow> 'b persisted_entry list \<Rightarrow> cache_error + (string \<times> cache_entry) list"
where
  "cache_load_entries c now [] = Inr []"
| "cache_load_entries c now (p # ps) =
     (if (case pe_expires_at p of Some e \<Rightarrow> e \<le> now | None \<Rightarrow> False) then cache_load_entries c now ps
      else case b64_decode c (pe_value p) of
             None \<Rightarrow> Inl CacheIo
           | Some v \<Rightarrow>
               (case cache_load_entries c now ps of
                  Inl e \<Rightarrow> Inl e
                | Inr es \<Rightarrow>
                    Inr ((pe_key p, \<lparr>ce_value = v, ce_expires_at = pe_expires_at p\<rparr>) # es)))"

definition cache_load ::
  "('b, 'f) cache_codec \<Rightarrow> nat \<Rightarrow> bool \<Rightarrow> 'f option \<Rightarrow> cache_error + (string \<times> cache_entry) list" where
  "cache_load c now readable file =
     (case file of
        None \<Rightarrow> Inr []
      | Some contents \<Rightarrow>
          if \<not> readable then Inl CacheIo
          else (case from_json c contents of
                  None \<Rightarrow> Inl CacheIo
                | Some state \<Rightarrow> cache_load_entries c now (pc_entries state)))"

definition cache_persisted ::
  "('b, 'f) cache_codec \<Rightarrow> (string \<times> cache_entry) list \<Rightarrow> 'b persisted_cache" where
  "cache_persisted c es =
     \<lparr>pc_version = 1,
      pc_entries = map (\<lambda>(k, v). \<lparr>pe_key = k, pe_value = b64_encode c (ce_value v),
                                 pe_expires_at = ce_expires_at v\<rparr>) es\<rparr>"

definition cache_flush ::
  "'l lru_ops \<Rightarrow> ('b, 'f) cache_codec \<Rightarrow> bool \<Rightarrow> ('l, 'f) cache \<Rightarrow> (cache_error + unit) \<times> ('l, 'f) cache"
where
  "cache_flush L c io_ok s =
     (if io_ok
      then (Inr (), s\<lparr>ca_file := Some (to_json c (cache_persisted c (lru_iter L (ca_lru s))))\<rparr>)
      else (Inl CacheIo, s))"

definition cache_new :: "'l lru_ops \<Rightarrow> u32 \<Rightarrow> 'f option \<Rightarrow> ('l, 'f) cache outcome" where
  "cache_new L max_entries file =
     (if max_entries = 0 then CallPanics
      else Returned \<lparr>ca_lru = lru_new L (unat max_entries), ca_ops_since_cleanup = 0,
                     ca_persistence = False, ca_file = file\<rparr>)"

definition cache_with_persistence ::
  "'l lru_ops \<Rightarrow> ('b, 'f) cache_codec \<Rightarrow> nat \<Rightarrow> bool \<Rightarrow> u32 \<Rightarrow> 'f option \<Rightarrow>
   (cache_error + ('l, 'f) cache) outcome"
where
  "cache_with_persistence L c now readable max_entries file =
     (case cache_load c now readable file of
        Inl e \<Rightarrow> Returned (Inl e)
      | Inr loaded \<Rightarrow>
          if max_entries = 0 then CallPanics
          else Returned (Inr \<lparr>ca_lru = fold (\<lambda>(k, e). lru_push L k e) loaded (lru_new L (unat max_entries)),
                              ca_ops_since_cleanup = 0, ca_persistence = True, ca_file = file\<rparr>))"

definition cache_flush_if_persistent ::
  "'l lru_ops \<Rightarrow> ('b, 'f) cache_codec \<Rightarrow> store_env \<Rightarrow> ('l, 'f) cache \<Rightarrow> unit outcome \<times> ('l, 'f) cache" where
  "cache_flush_if_persistent L c env s =
     (if \<not> ca_persistence s then (Returned (), s)
      else case se_thread env of
             NoRuntime \<Rightarrow> (Returned (), s)
           | BlockingThread \<Rightarrow> (Returned (), snd (cache_flush L c (se_io_ok env) s))
           | ExecutorThread \<Rightarrow> (CallPanics, s))"

definition cache_cleanup_expired :: "'l lru_ops \<Rightarrow> nat \<Rightarrow> 'l \<Rightarrow> 'l" where
  "cache_cleanup_expired L now lru =
     (let keys_to_remove =
            map fst (filter (\<lambda>(_, e). case ce_expires_at e of Some x \<Rightarrow> x \<le> now | None \<Rightarrow> False)
                            (lru_iter L lru))
      in fold (lru_pop L) keys_to_remove lru)"

definition cache_try_cleanup :: "'l lru_ops \<Rightarrow> nat \<Rightarrow> ('l, 'f) cache \<Rightarrow> ('l, 'f) cache" where
  "cache_try_cleanup L now s =
     (if ca_ops_since_cleanup s \<ge> CACHE_TTL_CLEANUP_BATCH_SIZE
      then s\<lparr>ca_ops_since_cleanup := 0, ca_lru := cache_cleanup_expired L now (ca_lru s)\<rparr>
      else s)"

text \<open>The lookup that \<open>get\<close> and \<open>get_many\<close> share.\<close>

definition lru_read :: "'l lru_ops \<Rightarrow> nat \<Rightarrow> string \<Rightarrow> 'l \<Rightarrow> bytes option \<times> 'l" where
  "lru_read L now key lru =
     (case lru_get L key lru of
        (Some entry, lru') \<Rightarrow>
          if ca_is_expired now entry then (None, lru_pop L key lru') else (Some (ce_value entry), lru')
      | (None, lru') \<Rightarrow> (None, lru'))"

definition cache_get ::
  "'l lru_ops \<Rightarrow> store_env \<Rightarrow> string \<Rightarrow> ('l, 'f) cache \<Rightarrow> bytes option \<times> ('l, 'f) cache" where
  "cache_get L env key s =
     (case lru_read L (se_now env) key (ca_lru s) of (r, lru) \<Rightarrow> (r, s\<lparr>ca_lru := lru\<rparr>))"

definition cache_insert ::
  "'l lru_ops \<Rightarrow> nat \<Rightarrow> string \<times> bytes \<times> u32 option \<Rightarrow> ('l, 'f) cache \<Rightarrow> ('l, 'f) cache" where
  "cache_insert L now item s =
     (case item of (key, value, ttl_secs) \<Rightarrow>
        s\<lparr>ca_lru := lru_push L key \<lparr>ce_value = value,
                       ce_expires_at = map_option (ca_ttl_to_abs now) ttl_secs\<rparr> (ca_lru s),
          ca_ops_since_cleanup := ca_ops_since_cleanup s + 1\<rparr>)"

definition cache_set ::
  "'l lru_ops \<Rightarrow> ('b, 'f) cache_codec \<Rightarrow> store_env \<Rightarrow> string \<Rightarrow> bytes \<Rightarrow> u32 option \<Rightarrow>
   ('l, 'f) cache \<Rightarrow> unit outcome \<times> ('l, 'f) cache" where
  "cache_set L c env key value ttl_secs s =
     cache_flush_if_persistent L c env
       (cache_try_cleanup L (se_now env) (cache_insert L (se_now env) (key, value, ttl_secs) s))"

definition cache_delete ::
  "'l lru_ops \<Rightarrow> ('b, 'f) cache_codec \<Rightarrow> store_env \<Rightarrow> string \<Rightarrow> ('l, 'f) cache \<Rightarrow>
   unit outcome \<times> ('l, 'f) cache" where
  "cache_delete L c env key s =
     cache_flush_if_persistent L c env (s\<lparr>ca_lru := lru_pop L key (ca_lru s)\<rparr>)"

definition cache_clear ::
  "'l lru_ops \<Rightarrow> ('b, 'f) cache_codec \<Rightarrow> store_env \<Rightarrow> ('l, 'f) cache \<Rightarrow> unit outcome \<times> ('l, 'f) cache" where
  "cache_clear L c env s =
     (let s' = s\<lparr>ca_lru := lru_clear L (ca_lru s), ca_ops_since_cleanup := 0\<rparr>
      in if ca_persistence s then cache_flush_if_persistent L c env s' else (Returned (), s'))"

definition cache_size :: "'l lru_ops \<Rightarrow> ('l, 'f) cache \<Rightarrow> u32" where
  "cache_size L s = of_nat (lru_len L (ca_lru s))"

definition cache_exists ::
  "'l lru_ops \<Rightarrow> store_env \<Rightarrow> string \<Rightarrow> ('l, 'f) cache \<Rightarrow> bool \<times> ('l, 'f) cache" where
  "cache_exists L env key s =
     (case lru_get L key (ca_lru s) of
        (Some entry, lru) \<Rightarrow> (\<not> ca_is_expired (se_now env) entry, s\<lparr>ca_lru := lru\<rparr>)
      | (None, lru) \<Rightarrow> (False, s\<lparr>ca_lru := lru\<rparr>))"

definition cache_list_keys :: "'l lru_ops \<Rightarrow> string \<Rightarrow> ('l, 'f) cache \<Rightarrow> string list" where
  "cache_list_keys L prefix s = map fst (filter (\<lambda>(k, _). starts_with prefix k) (lru_iter L (ca_lru s)))"

fun lru_read_many :: "'l lru_ops \<Rightarrow> nat \<Rightarrow> string list \<Rightarrow> 'l \<Rightarrow> bytes option list \<times> 'l" where
  "lru_read_many L now [] lru = ([], lru)"
| "lru_read_many L now (k # ks) lru =
     (case lru_read L now k lru of
        (r, lru') \<Rightarrow> (case lru_read_many L now ks lru' of (rs, lru'') \<Rightarrow> (r # rs, lru'')))"

definition cache_get_many ::
  "'l lru_ops \<Rightarrow> store_env \<Rightarrow> string list \<Rightarrow> ('l, 'f) cache \<Rightarrow> bytes option list \<times> ('l, 'f) cache" where
  "cache_get_many L env keys s =
     (case lru_read_many L (se_now env) keys (ca_lru s) of (rs, lru) \<Rightarrow> (rs, s\<lparr>ca_lru := lru\<rparr>))"

definition cache_set_many ::
  "'l lru_ops \<Rightarrow> ('b, 'f) cache_codec \<Rightarrow> store_env \<Rightarrow> (string \<times> bytes \<times> u32 option) list \<Rightarrow>
   ('l, 'f) cache \<Rightarrow> unit outcome \<times> ('l, 'f) cache" where
  "cache_set_many L c env items s =
     (let s' = cache_try_cleanup L (se_now env) (fold (cache_insert L (se_now env)) items s)
      in if ca_persistence s' then cache_flush_if_persistent L c env s' else (Returned (), s'))"

definition cache_delete_many ::
  "'l lru_ops \<Rightarrow> ('b, 'f) cache_codec \<Rightarrow> store_env \<Rightarrow> string list \<Rightarrow> ('l, 'f) cache \<Rightarrow>
   unit outcome \<times> ('l, 'f) cache" where
  "cache_delete_many L c env keys s =
     cache_flush_if_persistent L c env (s\<lparr>ca_lru := fold (lru_pop L) keys (ca_lru s)\<rparr>)"

section \<open>What the lru crate promises\<close>

definition lru_ok :: "'l lru_ops \<Rightarrow> bool" where
  "lru_ok L \<longleftrightarrow>
     (\<forall>n. lru_iter L (lru_new L n) = [] \<and> lru_cap L (lru_new L n) = n) \<and>
     (\<forall>k l. fst (lru_get L k l) = map_of (lru_iter L l) k \<and>
            lru_cap L (snd (lru_get L k l)) = lru_cap L l \<and>
            lru_iter L (snd (lru_get L k l)) =
              (case map_of (lru_iter L l) k of
                 Some e \<Rightarrow> (k, e) # AList.delete k (lru_iter L l) | None \<Rightarrow> lru_iter L l)) \<and>
     (\<forall>k e l. lru_cap L (lru_push L k e l) = lru_cap L l \<and>
              lru_iter L (lru_push L k e l) =
                take (lru_cap L l) ((k, e) # AList.delete k (lru_iter L l))) \<and>
     (\<forall>k l. lru_cap L (lru_pop L k l) = lru_cap L l \<and>
            lru_iter L (lru_pop L k l) = AList.delete k (lru_iter L l)) \<and>
     (\<forall>l. lru_cap L (lru_clear L l) = lru_cap L l \<and> lru_iter L (lru_clear L l) = [] \<and>
          lru_len L l = length (lru_iter L l))"

section \<open>Lists that stand for an LRU cache\<close>

text \<open>\<open>W\<close> is a set of keys that contains every key ever written, \<open>n\<close> the capacity. When the keys fit
  into the cache, an entry disappears only by deletion or expiry.\<close>

definition l_push :: "nat \<Rightarrow> string \<Rightarrow> cache_entry \<Rightarrow> (string \<times> cache_entry) list \<Rightarrow> (string \<times> cache_entry) list" where
  "l_push n k e es = take n ((k, e) # AList.delete k es)"

definition l_ok :: "string set \<Rightarrow> nat \<Rightarrow> (string \<times> cache_entry) list \<Rightarrow> bool" where
  "l_ok W n es \<longleftrightarrow> distinct (map fst es) \<and> length es \<le> n \<and> fst ` set es \<subseteq> W"

definition fits :: "string set \<Rightarrow> nat \<Rightarrow> bool" where
  "fits W n \<longleftrightarrow> finite W \<and> card W \<le> n"

definition past :: "nat \<Rightarrow> cache_entry option \<Rightarrow> bool" where
  "past now w \<longleftrightarrow> (case w of Some e \<Rightarrow> \<not> not_past now (ce_expires_at e) | None \<Rightarrow> True)"

definition weak :: "nat \<Rightarrow> bool \<Rightarrow> cache_entry option \<Rightarrow> cache_entry option \<Rightarrow> bool" where
  "weak now b d w \<longleftrightarrow> d = w \<or> d = None \<and> (b \<longrightarrow> past now w)"

definition l_rel :: "nat \<Rightarrow> bool \<Rightarrow> (string \<times> cache_entry) list \<Rightarrow> (string \<rightharpoonup> cache_entry) \<Rightarrow> bool" where
  "l_rel now b es m \<longleftrightarrow> (\<forall>k. weak now b (map_of es k) (m k))"

lemma weak_refl [simp]: "weak now b w w"
  by (simp add: weak_def)

lemma weak_trans: "weak now b d d' \<Longrightarrow> weak now b d' w \<Longrightarrow> weak now b d w"
  by (auto simp: weak_def)

lemma weak_mono: "weak now b d w \<Longrightarrow> now \<le> now' \<Longrightarrow> weak now' b d w"
  using not_past_mono [of now now'] by (auto simp: weak_def past_def split: option.splits)

lemma l_rel_mono: "l_rel now b es m \<Longrightarrow> now \<le> now' \<Longrightarrow> l_rel now' b es m"
  unfolding l_rel_def by (blast intro: weak_mono)

lemma l_rel_trans:
  "l_rel now b es m \<Longrightarrow> (\<And>k. weak now b (m k) (m' k)) \<Longrightarrow> l_rel now b es m'"
  unfolding l_rel_def by (blast intro: weak_trans)

lemma l_rel_empty [simp]: "l_rel now b [] Map.empty"
  by (simp add: l_rel_def)

lemma l_ok_Nil [simp]: "l_ok W n []"
  by (simp add: l_ok_def)

lemma l_ok_delete [simp]: "l_ok W n es \<Longrightarrow> l_ok W n (AList.delete k es)"
  using length_filter_le [of "\<lambda>(k', _). k \<noteq> k'" es]
  by (auto simp: l_ok_def AList.delete_eq distinct_map_filter simp del: length_filter_le)

lemma map_of_delete: "map_of (AList.delete k es) k' = (if k' = k then None else map_of es k')"
  by (simp add: delete_conv')

lemma map_of_take:
  assumes "distinct (map fst xs)"
  shows "map_of (take n xs) k \<in> {map_of xs k, None}"
proof (cases "map_of (take n xs) k")
  case (Some v)
  then have "(k, v) \<in> set xs" using map_of_SomeD in_set_takeD by metis
  with assms Some show ?thesis by simp
qed simp

lemma l_push_distinct: "l_ok W n es \<Longrightarrow> distinct (map fst ((k, e) # AList.delete k es))"
  by (auto simp: l_ok_def AList.delete_eq distinct_map_filter)

lemma l_push_fits:
  assumes "l_ok W n es" and "k \<in> W" and "fits W n"
  shows "l_push n k e es = (k, e) # AList.delete k es"
proof -
  let ?xs = "(k, e) # AList.delete k es"
  have "fst ` set ?xs \<subseteq> W" using assms(1,2) by (auto simp: l_ok_def AList.delete_eq)
  then have "card (fst ` set ?xs) \<le> n"
    using assms(3) card_mono [of W "fst ` set ?xs"] by (simp add: fits_def)
  moreover have "card (set (map fst ?xs)) = length ?xs"
    using distinct_card [OF l_push_distinct [OF assms(1), of k e]] by simp
  ultimately have "length ?xs \<le> n" by (simp add: image_image)
  then show ?thesis unfolding l_push_def by (simp only: take_all)
qed

lemma l_ok_push:
  assumes "l_ok W n es" and "k \<in> W"
  shows "l_ok W n (l_push n k e es)"
proof -
  have "fst ` set (l_push n k e es) \<subseteq> W"
    using assms by (auto simp: l_ok_def AList.delete_eq l_push_def image_subset_iff dest!: in_set_takeD)
  moreover have "distinct (map fst (l_push n k e es))"
    using l_push_distinct [OF assms(1), of k e] by (simp only: l_push_def take_map [symmetric] distinct_take)
  ultimately show ?thesis by (simp add: l_ok_def l_push_def)
qed

lemma l_rel_push:
  assumes ok: "l_ok W n es" "k \<in> W" and rel: "l_rel now (fits W n) es m"
  shows "l_rel now (fits W n) (l_push n k e es) (m(k \<mapsto> e))"
proof -
  let ?xs = "(k, e) # AList.delete k es"
  have full: "weak now (fits W n) (map_of ?xs k') ((m(k \<mapsto> e)) k')" for k'
    using rel by (auto simp: l_rel_def map_of_delete)
  have "weak now (fits W n) (map_of (l_push n k e es) k') (map_of ?xs k')" for k'
    using map_of_take [OF l_push_distinct [OF ok(1), of k e], of n k'] l_push_fits [OF ok]
    by (cases "fits W n") (auto simp: weak_def l_push_def)
  then show ?thesis unfolding l_rel_def using full weak_trans by blast
qed

lemma l_rel_delete: "l_rel now b es m \<Longrightarrow> l_rel now b (AList.delete k es) (m(k := None))"
  by (simp add: l_rel_def map_of_delete)

lemma l_rel_drop_past:
  assumes "l_rel now b es m" and "past now (map_of es k)"
  shows "l_rel now b (AList.delete k es) m"
proof -
  from assms(1) have "weak now b (map_of es k) (m k)" by (simp add: l_rel_def)
  with assms(2) have "weak now b None (m k)" by (auto simp: weak_def)
  with assms(1) show ?thesis by (simp add: l_rel_def map_of_delete)
qed

lemma l_front:
  assumes "map_of es k = Some e" and "l_ok W n es"
  shows "l_ok W n ((k, e) # AList.delete k es)" and "map_of ((k, e) # AList.delete k es) = map_of es"
proof -
  have "(k, e) \<in> set es" using assms(1) by (rule map_of_SomeD)
  then have "length (AList.delete k es) < length es" unfolding AList.delete_eq by (intro length_filter_less) auto
  with assms \<open>(k, e) \<in> set es\<close> show "l_ok W n ((k, e) # AList.delete k es)"
    by (auto simp: l_ok_def AList.delete_eq distinct_map_filter)
  show "map_of ((k, e) # AList.delete k es) = map_of es" using assms(1) by (auto simp: map_of_delete)
qed

lemma fold_delete_ok:
  assumes "l_ok W n es" and "l_rel now b es m" and "\<And>k. k \<in> set ks \<Longrightarrow> past now (map_of es k)"
  shows "l_ok W n (fold AList.delete ks es) \<and> l_rel now b (fold AList.delete ks es) m"
  using assms
proof (induction ks arbitrary: es)
  case (Cons k ks)
  have "past now (map_of (AList.delete k es) k')" if "k' \<in> set ks" for k'
    using Cons.prems(3) that by (auto simp: map_of_delete past_def)
  moreover have "l_rel now b (AList.delete k es) m"
    using Cons.prems by (intro l_rel_drop_past) auto
  ultimately show ?case using Cons.IH [of "AList.delete k es"] Cons.prems(1) by simp
qed simp

section \<open>The cache against its history\<close>

fun cache_step ::
  "'l lru_ops \<Rightarrow> ('b, 'f) cache_codec \<Rightarrow> u32 \<Rightarrow> store_env \<times> store_op \<Rightarrow> ('l, 'f) cache \<Rightarrow>
   unit outcome \<times> ('l, 'f) cache"
where
  "cache_step L c n (env, OpGet k) s = (Returned (), snd (cache_get L env k s))"
| "cache_step L c n (env, OpExists k) s = (Returned (), snd (cache_exists L env k s))"
| "cache_step L c n (env, OpGetMany ks) s = (Returned (), snd (cache_get_many L env ks s))"
| "cache_step L c n (env, OpSet k v ttl) s = cache_set L c env k v ttl s"
| "cache_step L c n (env, OpSetMany items) s = cache_set_many L c env items s"
| "cache_step L c n (env, OpDelete k) s = cache_delete L c env k s"
| "cache_step L c n (env, OpDeleteMany ks) s = cache_delete_many L c env ks s"
| "cache_step L c n (env, OpClear) s = cache_clear L c env s"
| "cache_step L c n (env, OpReopen) s =
     (case cache_with_persistence L c (se_now env) True n (ca_file s) of
        Returned (Inr s') \<Rightarrow> (Returned (), s')
      | Returned (Inl _) \<Rightarrow> (Returned (), s)
      | CallPanics \<Rightarrow> (CallPanics, s))"

definition cache_run ::
  "'l lru_ops \<Rightarrow> ('b, 'f) cache_codec \<Rightarrow> u32 \<Rightarrow> (store_env \<times> store_op) list \<Rightarrow> ('l, 'f) cache \<Rightarrow> ('l, 'f) cache"
where
  "cache_run L c n hist s = fold (\<lambda>eo s. snd (cache_step L c n eo s)) hist s"

fun op_keys :: "store_op \<Rightarrow> string list" where
  "op_keys (OpSet k _ _) = [k]"
| "op_keys (OpSetMany items) = map fst items"
| "op_keys _ = []"

definition written :: "(store_env \<times> store_op) list \<Rightarrow> string list" where
  "written hist = concat (map (\<lambda>(_, op). op_keys op) hist)"

definition spec_entry :: "bytes \<times> nat option \<Rightarrow> cache_entry" where
  "spec_entry w = \<lparr>ce_value = fst w, ce_expires_at = snd w\<rparr>"

abbreviation entries :: "kv_spec \<Rightarrow> string \<rightharpoonup> cache_entry" where
  "entries m \<equiv> \<lambda>k. map_option spec_entry (m k)"

text \<open>Invariant of a cache of capacity \<open>n\<close>: the entries are a well-formed list that agrees with the
  meaning of the history, and those on the file one that agrees with what the history left there.\<close>

definition lru_inv :: "'l lru_ops \<Rightarrow> string set \<Rightarrow> nat \<Rightarrow> nat \<Rightarrow> 'l \<Rightarrow> kv_spec \<Rightarrow> bool" where
  "lru_inv L W n now l m \<longleftrightarrow>
     lru_cap L l = n \<and> l_ok W n (lru_iter L l) \<and> l_rel now (fits W n) (lru_iter L l) (entries m)"

definition file_inv ::
  "('b, 'f) cache_codec \<Rightarrow> string set \<Rightarrow> nat \<Rightarrow> nat \<Rightarrow> 'f option \<Rightarrow> kv_spec \<Rightarrow> bool" where
  "file_inv c W n now fl d \<longleftrightarrow>
     (case fl of
        None \<Rightarrow> d = Map.empty
      | Some f \<Rightarrow> \<exists>es. f = to_json c (cache_persisted c es) \<and> l_ok W n es \<and> l_rel now (fits W n) es (entries d))"

definition cache_inv ::
  "'l lru_ops \<Rightarrow> ('b, 'f) cache_codec \<Rightarrow> string set \<Rightarrow> nat \<Rightarrow> nat \<Rightarrow> ('l, 'f) cache \<Rightarrow>
   kv_spec \<times> kv_spec \<Rightarrow> bool" where
  "cache_inv L c W n now s w \<longleftrightarrow>
     ca_persistence s \<and> lru_inv L W n now (ca_lru s) (fst w) \<and> file_inv c W n now (ca_file s) (snd w)"

lemma cache_inv_mono: "cache_inv L c W n now s w \<Longrightarrow> now \<le> now' \<Longrightarrow> cache_inv L c W n now' s w"
  unfolding cache_inv_def lru_inv_def file_inv_def by (auto split: option.splits intro: l_rel_mono)

lemma cache_inv_flush:
  assumes "lru_inv L W n (se_now env) (ca_lru s) m'" and "cache_inv L c W n (se_now env) s0 (m, d)"
    and "ca_persistence s = ca_persistence s0" and "ca_file s = ca_file s0"
  shows "cache_inv L c W n (se_now env) (snd (cache_flush_if_persistent L c env s))
     (m', if reaches_file env then m' else d)"
  using assms
  by (auto simp: cache_inv_def lru_inv_def file_inv_def cache_flush_if_persistent_def cache_flush_def
      reaches_file_def split: thread_kind.splits)

lemma lru_inv_push:
  assumes L: "lru_ok L"
  shows "lru_inv L W n now l m \<Longrightarrow> k \<in> W \<Longrightarrow>
   lru_inv L W n now (lru_push L k (spec_entry (v, x)) l) (m(k \<mapsto> (v, x)))"
  using L l_ok_push [of W n "lru_iter L l" k "spec_entry (v, x)"]
    l_rel_push [of W n "lru_iter L l" k now "entries m" "spec_entry (v, x)"]
  by (auto simp: lru_inv_def lru_ok_def l_push_def fun_upd_def if_distrib cong: if_cong)

lemma lru_inv_pop:
  assumes L: "lru_ok L"
  shows "lru_inv L W n now l m \<Longrightarrow> lru_inv L W n now (lru_pop L k l) (m(k := None))"
  using L l_rel_delete [of now "fits W n" "lru_iter L l" "entries m" k]
  by (auto simp: lru_inv_def lru_ok_def fun_upd_def if_distrib cong: if_cong)

lemma lru_inv_get:
  assumes L: "lru_ok L" and inv: "lru_inv L W n now l m"
  shows "lru_inv L W n now (snd (lru_get L k l)) m"
    and "fst (lru_get L k l) = map_of (lru_iter L l) k"
    and "map_of (lru_iter L (snd (lru_get L k l))) = map_of (lru_iter L l)"
proof -
  have front: "map_of (lru_iter L l) k = Some e \<Longrightarrow>
      l_ok W n ((k, e) # AList.delete k (lru_iter L l)) \<and>
      map_of ((k, e) # AList.delete k (lru_iter L l)) = map_of (lru_iter L l)" for e
    using inv l_front [of "lru_iter L l" k e W n] by (auto simp: lru_inv_def)
  then show "map_of (lru_iter L (snd (lru_get L k l))) = map_of (lru_iter L l)"
    using L by (auto simp: lru_ok_def split: option.splits)
  moreover have "l_ok W n (lru_iter L (snd (lru_get L k l)))"
    using front inv L by (auto simp: lru_ok_def lru_inv_def split: option.splits)
  ultimately show "lru_inv L W n now (snd (lru_get L k l)) m"
    using inv L by (simp add: lru_inv_def lru_ok_def l_rel_def)
  show "fst (lru_get L k l) = map_of (lru_iter L l) k" using L by (simp add: lru_ok_def)
qed

lemma lru_read_unfold:
  assumes L: "lru_ok L"
  shows "lru_read L now k l =
     (case map_of (lru_iter L l) k of
        Some e \<Rightarrow> if ca_is_expired now e then (None, lru_pop L k (snd (lru_get L k l)))
                  else (Some (ce_value e), snd (lru_get L k l))
      | None \<Rightarrow> (None, snd (lru_get L k l)))"
proof -
  obtain l' where get: "lru_get L k l = (map_of (lru_iter L l) k, l')"
    using L by (cases "lru_get L k l") (metis lru_ok_def fst_conv)
  show ?thesis by (cases "map_of (lru_iter L l) k") (simp_all add: lru_read_def get)
qed

lemma lru_inv_read:
  assumes L: "lru_ok L" and inv: "lru_inv L W n now l m"
  shows "lru_inv L W n now (snd (lru_read L now k l)) m"
proof -
  note get = lru_inv_get [OF L inv, of k]
  let ?l = "snd (lru_get L k l)"
  have "lru_inv L W n now (lru_pop L k ?l) m"
    if "map_of (lru_iter L l) k = Some e" "ca_is_expired now e" for e
  proof -
    from that get(3) have "past now (map_of (lru_iter L ?l) k)"
      by (auto simp: past_def ca_is_expired_def not_past_def split: option.splits)
    with get(1) show ?thesis using L by (auto simp: lru_inv_def lru_ok_def l_rel_drop_past)
  qed
  with get(1) show ?thesis by (auto simp: lru_read_unfold [OF L] split: option.splits)
qed

lemma lru_inv_read_many:
  assumes L: "lru_ok L"
  shows "lru_inv L W n now l m \<Longrightarrow> lru_inv L W n now (snd (lru_read_many L now ks l)) m"
proof (induction ks arbitrary: l)
  case (Cons k ks)
  obtain r l' where l': "lru_read L now k l = (r, l')" by fastforce
  from lru_inv_read [OF L Cons.prems, of k] have "lru_inv L W n now l' m" by (simp add: l')
  from Cons.IH [OF this] show ?case by (auto simp: l' split: prod.splits)
qed simp

lemma lru_inv_pops:
  assumes L: "lru_ok L"
  shows "lru_inv L W n now l m \<Longrightarrow>
     lru_inv L W n now (fold (lru_pop L) ks l) (fold (\<lambda>k m. m(k := None)) ks m)"
  by (induction ks arbitrary: l m) (auto simp: lru_inv_pop [OF L])

lemma lru_iter_pops:
  assumes L: "lru_ok L"
  shows "lru_iter L (fold (lru_pop L) ks l) = fold AList.delete ks (lru_iter L l) \<and>
     lru_cap L (fold (lru_pop L) ks l) = lru_cap L l"
  using L by (induction ks arbitrary: l) (auto simp: lru_ok_def)

lemma lru_inv_cleanup:
  assumes L: "lru_ok L" and inv: "lru_inv L W n now l m"
  shows "lru_inv L W n now (cache_cleanup_expired L now l) m"
proof -
  let ?es = "lru_iter L l"
  let ?ks = "map fst (filter (\<lambda>(_, e). case ce_expires_at e of Some x \<Rightarrow> x \<le> now | None \<Rightarrow> False) ?es)"
  from inv have ok: "l_ok W n ?es" and rel: "l_rel now (fits W n) ?es (entries m)"
    and cap: "lru_cap L l = n" by (auto simp: lru_inv_def)
  have "past now (map_of ?es k)" if "k \<in> set ?ks" for k
  proof -
    from that obtain e where e: "(k, e) \<in> set ?es"
      and exp: "case ce_expires_at e of Some x \<Rightarrow> x \<le> now | None \<Rightarrow> False" by auto
    from e ok have "map_of ?es k = Some e" by (simp add: l_ok_def)
    with exp show ?thesis by (auto simp: past_def not_past_def split: option.splits)
  qed
  then have "l_ok W n (fold AList.delete ?ks ?es) \<and> l_rel now (fits W n) (fold AList.delete ?ks ?es) (entries m)"
    by (rule fold_delete_ok [OF ok rel])
  then show ?thesis
    by (simp add: lru_inv_def cache_cleanup_expired_def lru_iter_pops [OF L] cap)
qed

lemma ca_persistence_insert [simp]:
  "ca_persistence (cache_insert L now item s) = ca_persistence s"
  by (simp add: cache_insert_def split: prod.splits)

lemma ca_persistence_inserts [simp]:
  "ca_persistence (fold (cache_insert L now) items s) = ca_persistence s"
  by (induction items arbitrary: s) simp_all

lemma ca_persistence_try_cleanup [simp]:
  "ca_persistence (cache_try_cleanup L now s) = ca_persistence s"
  by (simp add: cache_try_cleanup_def)

lemma lru_inv_insert:
  assumes L: "lru_ok L" and inv: "lru_inv L W n now (ca_lru s) m" and k: "fst item \<in> W"
  shows "lru_inv L W n now (ca_lru (cache_insert L now item s)) (spec_write now item m)"
proof -
  obtain key v ttl where item: "item = (key, v, ttl)" by (cases item)
  from lru_inv_push [OF L inv, of key v "map_option (\<lambda>t. now + unat t) ttl"] k
  show ?thesis
    by (simp add: item cache_insert_def spec_write_def spec_entry_def ca_ttl_to_abs_def [abs_def])
qed

lemma lru_inv_inserts:
  assumes L: "lru_ok L"
  shows "lru_inv L W n now (ca_lru s) m \<Longrightarrow> fst ` set items \<subseteq> W \<Longrightarrow>
     lru_inv L W n now (ca_lru (fold (cache_insert L now) items s)) (fold (spec_write now) items m)"
  by (induction items arbitrary: s m) (simp_all add: lru_inv_insert [OF L])

lemma lru_inv_try_cleanup:
  assumes L: "lru_ok L" and inv: "lru_inv L W n now (ca_lru s) m"
  shows "lru_inv L W n now (ca_lru (cache_try_cleanup L now s)) m"
  using lru_inv_cleanup [OF L inv] inv by (simp add: cache_try_cleanup_def)

lemma cache_load_flushed:
  assumes "codec_ok c"
  shows "cache_load c now True (Some (to_json c (cache_persisted c es))) =
     Inr (filter (\<lambda>(_, e). not_past now (ce_expires_at e)) es)"
proof -
  have dec: "b64_decode c (b64_encode c v) = Some v" for v using assms by (simp add: codec_ok_def)
  have "cache_load_entries c now (pc_entries (cache_persisted c es)) =
      Inr (filter (\<lambda>(_, e). not_past now (ce_expires_at e)) es)"
    by (induction es) (auto simp: cache_persisted_def dec not_past_def split: option.splits)
  then show ?thesis using assms by (simp add: cache_load_def codec_ok_def)
qed

text \<open>Refilling the cache pushes the entries one by one: the result is an eviction of the list.\<close>

lemma lru_refill:
  assumes L: "lru_ok L"
  shows "lru_cap L l = n \<Longrightarrow> l_ok W n (lru_iter L l) \<Longrightarrow> l_rel now (fits W n) (lru_iter L l) m \<Longrightarrow>
     fst ` set es \<subseteq> W \<Longrightarrow>
     lru_cap L (fold (\<lambda>(k, e). lru_push L k e) es l) = n \<and>
     l_ok W n (lru_iter L (fold (\<lambda>(k, e). lru_push L k e) es l)) \<and>
     l_rel now (fits W n) (lru_iter L (fold (\<lambda>(k, e). lru_push L k e) es l)) (m ++ map_of (rev es))"
proof (induction es arbitrary: l m)
  case (Cons ke es)
  obtain k e where ke: "ke = (k, e)" by fastforce
  have push: "lru_iter L (lru_push L k e l) = l_push n k e (lru_iter L l)" "lru_cap L (lru_push L k e l) = n"
    using L Cons.prems(1) by (auto simp: lru_ok_def l_push_def)
  have ok: "l_ok W n (lru_iter L (lru_push L k e l))"
    and rel: "l_rel now (fits W n) (lru_iter L (lru_push L k e l)) (m(k \<mapsto> e))"
    and sub: "fst ` set es \<subseteq> W"
    using Cons.prems by (simp_all add: push l_ok_push l_rel_push ke)
  have "m ++ map_of (rev (ke # es)) = m(k \<mapsto> e) ++ map_of (rev es)" by (simp add: ke)
  then show ?case using Cons.IH [OF push(2) ok rel sub] by (simp only: ke fold_Cons o_apply prod.case)
qed simp

lemma cache_inv_reopen:
  assumes L: "lru_ok L" and c: "codec_ok c" and n: "n \<noteq> 0"
    and inv: "file_inv c W (unat n) now (ca_file s) d"
  shows "\<exists>s'. cache_with_persistence L c now True n (ca_file s) = Returned (Inr s') \<and>
     cache_inv L c W (unat n) now s' (d, d)"
proof (cases "ca_file s")
  case None
  with inv L n show ?thesis
    by (auto simp: cache_with_persistence_def cache_load_def cache_inv_def
        file_inv_def lru_inv_def lru_ok_def)
next
  case (Some f)
  with inv obtain es where f: "f = to_json c (cache_persisted c es)" and ok: "l_ok W (unat n) es"
    and rel: "l_rel now (fits W (unat n)) es (entries d)" by (auto simp: file_inv_def)
  let ?kept = "filter (\<lambda>(_, e). not_past now (ce_expires_at e)) es"
  have kept: "distinct (map fst ?kept)" "fst ` set ?kept \<subseteq> W"
    using ok by (auto simp: l_ok_def distinct_map_filter)
  from kept(1) have rev: "map_of (rev ?kept) = map_of ?kept"
    by (simp add: map_of_inject_set rev_map [symmetric])
  have "weak now (fits W (unat n)) (map_of ?kept k) (map_of es k)" for k
    using hm_get_filter [of es "\<lambda>_ e. not_past now (ce_expires_at e)" k] ok
    by (auto simp: hm_get_def hm_wf_def l_ok_def weak_def past_def split: option.splits)
  then have agree: "weak now (fits W (unat n)) (map_of (rev ?kept) k) (entries d k)" for k
    unfolding rev using rel weak_trans unfolding l_rel_def by blast
  let ?l = "fold (\<lambda>(k, e). lru_push L k e) ?kept (lru_new L (unat n))"
  have fresh: "lru_iter L (lru_new L (unat n)) = []" "lru_cap L (lru_new L (unat n)) = unat n"
    using L by (auto simp: lru_ok_def)
  have refill: "lru_cap L ?l = unat n \<and> l_ok W (unat n) (lru_iter L ?l) \<and>
      l_rel now (fits W (unat n)) (lru_iter L ?l) (map_of (rev ?kept))"
    using lru_refill [OF L fresh(2) _ _ kept(2), of now Map.empty] by (simp add: fresh(1))
  then have "l_rel now (fits W (unat n)) (lru_iter L ?l) (entries d)"
    using l_rel_trans [of now _ "lru_iter L ?l" "map_of (rev ?kept)" "entries d"] agree by blast
  with refill f ok rel Some n show ?thesis
    by (auto simp: cache_with_persistence_def cache_load_flushed [OF c] cache_inv_def
        file_inv_def lru_inv_def)
qed

lemma cache_frame:
  "ca_persistence (cache_try_cleanup L now s) = ca_persistence s"
  "ca_file (cache_try_cleanup L now s) = ca_file s"
  "ca_persistence (cache_insert L now item s) = ca_persistence s"
  "ca_file (cache_insert L now item s) = ca_file s"
  "ca_persistence (fold (cache_insert L now) items s) = ca_persistence s"
  "ca_file (fold (cache_insert L now) items s) = ca_file s"
proof -
  show insert: "ca_persistence (cache_insert L now item s) = ca_persistence s"
    "ca_file (cache_insert L now item s) = ca_file s" for item s
    by (simp_all add: cache_insert_def split: prod.splits)
  show "ca_persistence (fold (cache_insert L now) items s) = ca_persistence s"
    "ca_file (fold (cache_insert L now) items s) = ca_file s"
    by (induction items arbitrary: s) (simp_all add: insert)
qed (simp_all add: cache_try_cleanup_def)

lemma cache_flush_outcome:
  "fst (cache_flush_if_persistent L c env s) =
     (if ca_persistence s \<and> se_thread env = ExecutorThread then CallPanics else Returned ())"
  by (simp add: cache_flush_if_persistent_def split: thread_kind.splits)

lemma cache_step_inv:
  assumes L: "lru_ok L" and c: "codec_ok c" and n: "n \<noteq> 0" and inv: "cache_inv L c W (unat n) now s w"
    and le: "now \<le> se_now env" and W: "set (op_keys op) \<subseteq> W"
  shows "cache_inv L c W (unat n) (se_now env) (snd (cache_step L c n (env, op) s)) (spec_step (env, op) w)"
proof -
  obtain m d where w: "w = (m, d)" by fastforce
  from cache_inv_mono [OF inv le] have inv': "cache_inv L c W (unat n) (se_now env) s (m, d)" by (simp add: w)
  then have lru: "lru_inv L W (unat n) (se_now env) (ca_lru s) m" and p: "ca_persistence s"
    by (auto simp: cache_inv_def)
  have reread: "cache_inv L c W (unat n) (se_now env) (s\<lparr>ca_lru := l\<rparr>) (m, d)"
    if "lru_inv L W (unat n) (se_now env) l m" for l
    using inv' that by (simp add: cache_inv_def)
  note flush = cache_inv_flush [OF _ inv']
  show ?thesis
  proof (cases op)
    case (OpGet k)
    then show ?thesis using reread [OF lru_inv_read [OF L lru, of k]]
      by (simp add: w cache_get_def case_prod_beta)
  next
    case (OpExists k)
    then show ?thesis using reread [OF lru_inv_get(1) [OF L lru, of k]]
      by (auto simp: w cache_exists_def case_prod_beta split: option.splits)
  next
    case (OpGetMany ks)
    then show ?thesis using reread [OF lru_inv_read_many [OF L lru, of ks]]
      by (simp add: w cache_get_many_def case_prod_beta)
  next
    case (OpSet k v ttl)
    with W have "lru_inv L W (unat n) (se_now env)
        (ca_lru (cache_insert L (se_now env) (k, v, ttl) s)) (spec_write (se_now env) (k, v, ttl) m)"
      by (intro lru_inv_insert [OF L lru]) simp
    from flush [OF lru_inv_try_cleanup [OF L this]] show ?thesis
      using OpSet by (simp add: w cache_set_def cache_frame split del: if_split cong: if_cong)
  next
    case (OpSetMany items)
    with W have "fst ` set items \<subseteq> W" by simp
    from flush [OF lru_inv_try_cleanup [OF L lru_inv_inserts [OF L lru this]]] show ?thesis
      using OpSetMany p by (simp add: w cache_set_many_def Let_def cache_frame split del: if_split cong: if_cong)
  next
    case (OpDelete k)
    then show ?thesis using flush [of "s\<lparr>ca_lru := lru_pop L k (ca_lru s)\<rparr>"] lru_inv_pop [OF L lru, of k]
      by (simp add: w cache_delete_def split del: if_split cong: if_cong)
  next
    case (OpDeleteMany ks)
    then show ?thesis using flush [of "s\<lparr>ca_lru := fold (lru_pop L) ks (ca_lru s)\<rparr>"] lru_inv_pops [OF L lru, of ks]
      by (simp add: w cache_delete_many_def split del: if_split cong: if_cong)
  next
    case OpClear
    have "lru_inv L W (unat n) (se_now env) (lru_clear L (ca_lru s)) Map.empty"
      using lru L by (simp add: lru_inv_def lru_ok_def)
    then show ?thesis
      using OpClear p flush [of "s\<lparr>ca_lru := lru_clear L (ca_lru s), ca_ops_since_cleanup := 0\<rparr>" Map.empty]
      by (simp add: w cache_clear_def Let_def split del: if_split cong: if_cong)
  next
    case OpReopen
    then show ?thesis using cache_inv_reopen [OF L c n, of W "se_now env" s d] inv'
      by (auto simp: w cache_inv_def)
  qed
qed

lemma cache_run_inv:
  assumes L: "lru_ok L" and c: "codec_ok c" and n: "n \<noteq> 0" and "cache_inv L c W (unat n) t0 s w"
    and "set (written hist) \<subseteq> W" and "sorted (t0 # map (\<lambda>(env, _). se_now env) hist)"
  shows "cache_inv L c W (unat n) (last (t0 # map (\<lambda>(env, _). se_now env) hist))
     (cache_run L c n hist s) (fold spec_step hist w)"
  using assms(4-)
proof (induction hist arbitrary: t0 s w)
  case (Cons eo hist)
  obtain env op where eo: "eo = (env, op)" by fastforce
  from Cons.prems have
    "cache_inv L c W (unat n) (se_now env) (snd (cache_step L c n (env, op) s)) (spec_step (env, op) w)"
    by (intro cache_step_inv [OF L c n]) (auto simp: eo written_def)
  from Cons.IH [OF this] Cons.prems show ?case
    by (auto simp: eo cache_run_def written_def simp del: spec_step.simps)
qed (simp add: cache_run_def)

lemma cache_step_outcome:
  assumes "lru_ok L" and "codec_ok c" and "n \<noteq> 0" and "cache_inv L c W (unat n) (se_now env) s w"
  shows "fst (cache_step L c n (env, op) s) =
     (if is_write op \<and> se_thread env = ExecutorThread then CallPanics else Returned ())"
proof (cases op)
  case OpReopen
  then show ?thesis using cache_inv_reopen [OF assms(1-3), of W "se_now env" s "snd w"] assms(4)
    by (auto simp: cache_inv_def)
qed (use assms(4) in \<open>simp_all add: cache_inv_def cache_set_def cache_set_many_def cache_delete_def
    cache_delete_many_def cache_clear_def Let_def cache_frame cache_flush_outcome\<close>)

text \<open>Claim C19 (the cache never serves a stale value). Run any sequence of cache operations and
  reopenings on a persistent cache of capacity \<open>n\<close>, on any threads and whether or not the file can be
  written, with a clock that does not run backwards and for any \<open>lru\<close> library with the documented
  behaviour. A read gives nothing or the last value written to the key, and nothing once that value
  has expired; when the history writes at most \<open>n\<close> different keys, nothing is evicted and every
  unexpired value is served. A reopening goes back to what the cache was after the last write whose
  flush ran on a blocking thread and succeeded. A write panics exactly when it runs on an executor
  thread of the runtime. The number of entries never exceeds \<open>n\<close>.\<close>

theorem cache_history_exact:
  assumes "lru_ok L" and "codec_ok c" and "cache_with_persistence L c t0 True n None = Returned (Inr s0)"
    and "sorted (t0 # map (\<lambda>(env, _). se_now env) hist @ [se_now env])"
  shows "(case fst (fold spec_step hist (Map.empty, Map.empty)) k of
            None \<Rightarrow> fst (cache_get L env k (cache_run L c n hist s0)) = None
          | Some (v, x) \<Rightarrow>
              fst (cache_get L env k (cache_run L c n hist s0)) \<in> {Some v, None} \<and>
              (\<forall>e. x = Some e \<and> e < se_now env \<longrightarrow>
                     fst (cache_get L env k (cache_run L c n hist s0)) = None) \<and>
              (card (set (written hist)) \<le> unat n \<and> not_past (se_now env) x \<longrightarrow>
                     fst (cache_get L env k (cache_run L c n hist s0)) = Some v)) \<and>
         fst (cache_step L c n (env, op) (cache_run L c n hist s0)) =
           (if is_write op \<and> se_thread env = ExecutorThread then CallPanics else Returned ()) \<and>
         lru_len L (ca_lru (cache_run L c n hist s0)) \<le> unat n"
proof -
  let ?s = "cache_run L c n hist s0" and ?w = "fold spec_step hist (Map.empty, Map.empty)"
  let ?ts = "t0 # map (\<lambda>(env, _). se_now env) hist" and ?W = "set (written hist)"
  have n: "n \<noteq> 0" and "cache_inv L c ?W (unat n) t0 s0 (Map.empty, Map.empty)"
    using assms(1,3) by (auto simp: cache_with_persistence_def cache_load_def cache_inv_def lru_inv_def
        file_inv_def lru_ok_def split: if_splits)
  from cache_run_inv [OF assms(1,2) this order.refl] assms(4)
  have inv: "cache_inv L c ?W (unat n) (last ?ts) ?s ?w" by (auto simp: sorted_append)
  have "sorted (?ts @ [se_now env])" using assms(4) by simp
  then have "last ?ts \<le> se_now env" using last_in_set [of ?ts] by (simp only: sorted_append) auto
  note inv' = cache_inv_mono [OF inv this]
  then have ok: "l_ok ?W (unat n) (lru_iter L (ca_lru ?s))"
    and w: "weak (se_now env) (fits ?W (unat n)) (map_of (lru_iter L (ca_lru ?s)) k) (entries (fst ?w) k)"
    by (simp_all add: cache_inv_def lru_inv_def l_rel_def)
  have get: "fst (cache_get L env k ?s) = (case map_of (lru_iter L (ca_lru ?s)) k of
      Some e \<Rightarrow> if ca_is_expired (se_now env) e then None else Some (ce_value e) | None \<Rightarrow> None)"
    by (simp add: cache_get_def case_prod_beta lru_read_unfold [OF assms(1)] split: option.splits)
  have "lru_len L (ca_lru ?s) \<le> unat n" using assms(1) ok by (simp add: lru_ok_def l_ok_def)
  then show ?thesis using w unfolding get cache_step_outcome [OF assms(1,2) n inv']
    by (auto simp: weak_def past_def fits_def spec_entry_def ca_is_expired_def not_past_def
        split: option.splits if_splits)
qed

definition list_lru :: "(nat \<times> (string \<times> cache_entry) list) lru_ops" where
  "list_lru =
     \<lparr>lru_new = (\<lambda>n. (n, [])), lru_cap = fst, lru_iter = snd,
      lru_get = (\<lambda>k (n, es). (map_of es k,
        case map_of es k of Some e \<Rightarrow> (n, (k, e) # AList.delete k es) | None \<Rightarrow> (n, es))),
      lru_push = (\<lambda>k e (n, es). (n, take n ((k, e) # AList.delete k es))),
      lru_pop = (\<lambda>k (n, es). (n, AList.delete k es)),
      lru_clear = (\<lambda>(n, es). (n, [])), lru_len = (\<lambda>(n, es). length es)\<rparr>"

definition plain_cache_codec :: "(bytes, bytes persisted_cache) cache_codec" where
  "plain_cache_codec =
     \<lparr>b64_encode = (\<lambda>v. v), b64_decode = Some, to_json = (\<lambda>p. p), from_json = Some\<rparr>"

lemma list_lru_ok: "lru_ok list_lru"
  by (simp add: lru_ok_def list_lru_def split_def split: option.splits)

theorem cache_history_exact_witness:
  "fst (cache_get list_lru (on_thread BlockingThread 107) ''k''
     (cache_run list_lru plain_cache_codec 2
        [(on_thread BlockingThread 100, OpSet ''k'' [7] (Some 10)),
         (on_thread ExecutorThread 102, OpClear), (on_thread BlockingThread 105, OpReopen)]
        \<lparr>ca_lru = (2, []), ca_ops_since_cleanup = 0, ca_persistence = True, ca_file = None\<rparr>)) = Some [7]"
proof -
  let ?c = plain_cache_codec
  let ?hist = "[(on_thread BlockingThread 100, OpSet ''k'' [7] (Some 10)),
         (on_thread ExecutorThread 102, OpClear), (on_thread BlockingThread 105, OpReopen)]"
  have "codec_ok ?c" by (simp add: codec_ok_def plain_cache_codec_def)
  moreover have "cache_with_persistence list_lru ?c 0 True 2 None =
      Returned (Inr \<lparr>ca_lru = (2, []), ca_ops_since_cleanup = 0, ca_persistence = True, ca_file = None\<rparr>)"
    by (simp add: cache_with_persistence_def cache_load_def list_lru_def)
  moreover have "fst (fold spec_step ?hist (Map.empty, Map.empty)) ''k'' = Some ([7], Some 110)"
    by (simp add: spec_write_def reaches_file_def on_thread_def)
  moreover have "card (set (written ?hist)) \<le> unat (2 :: u32)" by (simp add: written_def)
  ultimately show ?thesis
    using cache_history_exact [OF list_lru_ok, of ?c 0 2 _ ?hist "on_thread BlockingThread 107" "''k''"]
    by (simp add: not_past_def on_thread_def)
qed

section \<open>Recency across a reopening\<close>

lemma lru_refill_rev:
  assumes L: "lru_ok L"
  shows "lru_cap L l = n \<Longrightarrow> distinct (map fst es @ map fst (lru_iter L l)) \<Longrightarrow>
     length es + length (lru_iter L l) \<le> n \<Longrightarrow>
     lru_iter L (fold (\<lambda>(k, e). lru_push L k e) es l) = rev es @ lru_iter L l"
proof (induction es arbitrary: l)
  case (Cons ke es)
  obtain k e where ke: "ke = (k, e)" by fastforce
  from Cons.prems have new: "k \<notin> fst ` set (lru_iter L l)" by (auto simp: ke)
  have "lru_iter L (lru_push L k e l) = (k, e) # lru_iter L l" "lru_cap L (lru_push L k e l) = n"
    using L Cons.prems new by (auto simp: lru_ok_def delete_idem)
  with Cons.IH [of "lru_push L k e l"] Cons.prems show ?case by (auto simp: ke)
qed simp

text \<open>A restart reverses the recency order. \<open>flush\<close> writes the entries from the most to the
  least recently used and \<open>with_persistence\<close> pushes them in that order, so after a reopening the
  entry that was used last is the next one to be evicted: the order of the reopened cache is the
  reverse of the order of the flushed one.\<close>

theorem cache_reopen_reverses:
  assumes "lru_ok L" and "codec_ok c" and "l_ok W (unat n) (lru_iter L (ca_lru s))"
    and "ca_file s = Some (to_json c (cache_persisted c (lru_iter L (ca_lru s))))"
    and "list_all (\<lambda>(_, e). not_past now (ce_expires_at e)) (lru_iter L (ca_lru s))" and "n \<noteq> 0"
  shows "\<exists>s'. cache_with_persistence L c now True n (ca_file s) = Returned (Inr s') \<and>
     lru_iter L (ca_lru s') = rev (lru_iter L (ca_lru s))"
proof -
  let ?es = "lru_iter L (ca_lru s)"
  have "filter (\<lambda>(_, e). not_past now (ce_expires_at e)) ?es = ?es"
    using assms(5) by (simp add: filter_id_conv list_all_iff)
  moreover have "lru_iter L (lru_new L (unat n)) = []" "lru_cap L (lru_new L (unat n)) = unat n"
    using assms(1) by (auto simp: lru_ok_def)
  moreover from this assms(3)
  have "lru_iter L (fold (\<lambda>(k, e). lru_push L k e) ?es (lru_new L (unat n))) = rev ?es"
    by (subst lru_refill_rev [OF assms(1)]) (auto simp: l_ok_def)
  ultimately show ?thesis
    by (simp add: cache_with_persistence_def assms(4,6) cache_load_flushed [OF assms(2)])
qed

theorem cache_reopen_reverses_witness:
  "\<exists>s'. cache_with_persistence list_lru plain_cache_codec 0 True 2
          (Some (cache_persisted plain_cache_codec
             [(''new'', \<lparr>ce_value = [2], ce_expires_at = None\<rparr>), (''old'', \<lparr>ce_value = [1], ce_expires_at = None\<rparr>)])) =
          Returned (Inr s') \<and>
     lru_iter list_lru (ca_lru s') =
       [(''old'', \<lparr>ce_value = [1], ce_expires_at = None\<rparr>), (''new'', \<lparr>ce_value = [2], ce_expires_at = None\<rparr>)]"
proof -
  let ?es = "[(''new'', \<lparr>ce_value = [2], ce_expires_at = None\<rparr>), (''old'', \<lparr>ce_value = [1], ce_expires_at = None\<rparr>)]"
  let ?s = "\<lparr>ca_lru = (2, ?es), ca_ops_since_cleanup = 0, ca_persistence = True,
             ca_file = Some (cache_persisted plain_cache_codec ?es)\<rparr>"
  have "codec_ok plain_cache_codec" by (simp add: codec_ok_def plain_cache_codec_def)
  from cache_reopen_reverses [OF list_lru_ok this, of "{''new'', ''old''}" 2 ?s 0]
  show ?thesis by (simp add: l_ok_def list_lru_def plain_cache_codec_def not_past_def)
qed

end
