(* ===== verification/Runtime_Scheduling.thy ===== *)
theory Runtime_Scheduling
  imports Runtime_Kv
begin

text \<open>
  The guest's scheduler, \<open>edge-runtime/src/interfaces/scheduling.rs\<close>: one-shot and repeating tasks in
  a map, a background thread that sleeps until the earliest one and then takes the due ones, and a
  file that is written when a task is scheduled or cancelled.

  Instants are nanoseconds; \<open>boot\<close> holds the pair of process-wide time references (Unix seconds and
  the instant at the first use). Task identifiers are UUIDs drawn by the caller of the model. The
  thread is the loop body: \<open>sleep_ms\<close> computes the pause, \<open>sched_tick\<close> is what it does when it
  wakes up; \<open>Scheduler::new\<close> and \<open>with_persistence\<close> spawn the same loop.
\<close>

section \<open>State\<close>

record time_refs =
  boot_time :: nat
  boot_instant :: instant

record scheduled_task =
  st_id :: string
  st_payload :: bytes
  st_interval_ms :: "u64 option"
  st_next_at :: instant

record ('b) persisted_task =
  pt_id :: string
  pt_payload :: 'b
  pt_interval_ms :: "u64 option"
  pt_expires_at :: nat

record ('b) persisted_scheduler =
  psc_version :: u32
  psc_tasks :: "'b persisted_task list"

type_synonym ('b, 'f) sched_codec = "('b, 'b persisted_scheduler, 'f) codec"

record ('f) scheduler =
  sc_tasks :: "(string, scheduled_task) hashmap"
  sc_persistence :: bool
  sc_shutdown :: bool
  sc_file :: "'f option"

datatype scheduler_error = SchedIo | SchedInvalidTenantId string

section \<open>Operations\<close>

definition instant_to_secs :: "time_refs \<Rightarrow> instant \<Rightarrow> nat" where
  "instant_to_secs boot i = boot_time boot + (i - boot_instant boot) div 1000000000"

definition secs_to_instant :: "time_refs \<Rightarrow> nat \<Rightarrow> instant" where
  "secs_to_instant boot s = boot_instant boot + secs (s - boot_time boot)"

fun sched_load_tasks ::
  "('b, 'f) sched_codec \<Rightarrow> time_refs \<Rightarrow> nat \<Rightarrow> 'b persisted_task list \<Rightarrow> scheduler_error + scheduled_task list"
where
  "sched_load_tasks c boot now [] = Inr []"
| "sched_load_tasks c boot now (p # ps) =
     (if pt_expires_at p \<le> now then sched_load_tasks c boot now ps
      else case b64_decode c (pt_payload p) of
             None \<Rightarrow> Inl SchedIo
           | Some payload \<Rightarrow>
               (case sched_load_tasks c boot now ps of
                  Inl e \<Rightarrow> Inl e
                | Inr ts \<Rightarrow>
                    Inr (\<lparr>st_id = pt_id p, st_payload = payload, st_interval_ms = pt_interval_ms p,
                          st_next_at = secs_to_instant boot (pt_expires_at p)\<rparr> # ts)))"

definition sched_load ::
  "('b, 'f) sched_codec \<Rightarrow> time_refs \<Rightarrow> nat \<Rightarrow> bool \<Rightarrow> 'f option \<Rightarrow> scheduler_error + scheduled_task list"
where
  "sched_load c boot now readable file =
     (case file of
        None \<Rightarrow> Inr []
      | Some contents \<Rightarrow>
          if \<not> readable then Inl SchedIo
          else (case from_json c contents of
                  None \<Rightarrow> Inl SchedIo
                | Some state \<Rightarrow> sched_load_tasks c boot now (psc_tasks state)))"

definition sched_persisted ::
  "('b, 'f) sched_codec \<Rightarrow> time_refs \<Rightarrow> (string, scheduled_task) hashmap \<Rightarrow> 'b persisted_scheduler" where
  "sched_persisted c boot tasks =
     \<lparr>psc_version = 1,
      psc_tasks = map (\<lambda>t. \<lparr>pt_id = st_id t, pt_payload = b64_encode c (st_payload t),
                           pt_interval_ms = st_interval_ms t,
                           pt_expires_at = instant_to_secs boot (st_next_at t)\<rparr>) (hm_values tasks)\<rparr>"

definition sched_flush_if_persistent ::
  "('b, 'f) sched_codec \<Rightarrow> time_refs \<Rightarrow> store_env \<Rightarrow> 'f scheduler \<Rightarrow> unit outcome \<times> 'f scheduler" where
  "sched_flush_if_persistent c boot env s =
     (if \<not> sc_persistence s then (Returned (), s)
      else case se_thread env of
             NoRuntime \<Rightarrow> (Returned (), s)
           | BlockingThread \<Rightarrow>
               (Returned (),
                if se_io_ok env then s\<lparr>sc_file := Some (to_json c (sched_persisted c boot (sc_tasks s)))\<rparr> else s)
           | ExecutorThread \<Rightarrow> (CallPanics, s))"

text \<open>What a call returns when its flush did not panic.\<close>

fun after_flush :: "'a \<Rightarrow> unit outcome \<times> 's \<Rightarrow> 'a outcome \<times> 's" where
  "after_flush r (Returned _, s) = (Returned r, s)"
| "after_flush r (CallPanics, s) = (CallPanics, s)"

definition sched_new :: "'f option \<Rightarrow> 'f scheduler" where
  "sched_new file = \<lparr>sc_tasks = [], sc_persistence = False, sc_shutdown = False, sc_file = file\<rparr>"

definition sched_with_persistence ::
  "('b, 'f) sched_codec \<Rightarrow> time_refs \<Rightarrow> nat \<Rightarrow> bool \<Rightarrow> 'f option \<Rightarrow> scheduler_error + 'f scheduler" where
  "sched_with_persistence c boot now readable file =
     (case sched_load c boot now readable file of
        Inl e \<Rightarrow> Inl e
      | Inr loaded \<Rightarrow>
          Inr \<lparr>sc_tasks = fold (\<lambda>t. hm_insert (st_id t) t) loaded [], sc_persistence = True,
               sc_shutdown = False, sc_file = file\<rparr>)"

definition sched_drop :: "'f scheduler \<Rightarrow> 'f scheduler" where
  "sched_drop s = s\<lparr>sc_shutdown := True\<rparr>"

definition schedule_once ::
  "('b, 'f) sched_codec \<Rightarrow> time_refs \<Rightarrow> store_env \<Rightarrow> instant \<Rightarrow> string \<Rightarrow> u64 \<Rightarrow> bytes \<Rightarrow> 'f scheduler \<Rightarrow>
   string outcome \<times> 'f scheduler" where
  "schedule_once c boot env now tid delay_ms payload s =
     (let task = \<lparr>st_id = tid, st_payload = payload, st_interval_ms = None,
                  st_next_at = now + millis (unat delay_ms)\<rparr>
      in after_flush tid (sched_flush_if_persistent c boot env (s\<lparr>sc_tasks := hm_insert tid task (sc_tasks s)\<rparr>)))"

definition schedule_repeating ::
  "('b, 'f) sched_codec \<Rightarrow> time_refs \<Rightarrow> store_env \<Rightarrow> instant \<Rightarrow> string \<Rightarrow> u64 \<Rightarrow> bytes \<Rightarrow> 'f scheduler \<Rightarrow>
   string outcome \<times> 'f scheduler" where
  "schedule_repeating c boot env now tid interval_ms payload s =
     (let task = \<lparr>st_id = tid, st_payload = payload, st_interval_ms = Some interval_ms,
                  st_next_at = now + millis (unat interval_ms)\<rparr>
      in after_flush tid (sched_flush_if_persistent c boot env (s\<lparr>sc_tasks := hm_insert tid task (sc_tasks s)\<rparr>)))"

definition sched_cancel ::
  "('b, 'f) sched_codec \<Rightarrow> time_refs \<Rightarrow> store_env \<Rightarrow> string \<Rightarrow> 'f scheduler \<Rightarrow>
   (string + unit) outcome \<times> 'f scheduler"
where
  "sched_cancel c boot env tid s =
     (let removed = hm_contains (sc_tasks s) tid;
          s' = s\<lparr>sc_tasks := hm_remove tid (sc_tasks s)\<rparr>
      in if removed then after_flush (Inr ()) (sched_flush_if_persistent c boot env s')
         else (Returned (Inl (''task not found: '' @ tid)), s'))"

definition abort_all :: "'f scheduler \<Rightarrow> 'f scheduler" where
  "abort_all s = s\<lparr>sc_tasks := []\<rparr>"

text \<open>The pause before the next round: the time to the earliest task in whole milliseconds, at least
  100; ten seconds without tasks.\<close>

definition sleep_ms :: "instant \<Rightarrow> (string, scheduled_task) hashmap \<Rightarrow> nat" where
  "sleep_ms now tasks =
     (case map st_next_at (hm_values tasks) of
        [] \<Rightarrow> 10000
      | t # ts \<Rightarrow> max ((fold min ts t - now) div 1000000) 100)"

text \<open>One round after the pause: \<open>drain\<close> empties the map, the due tasks are kept aside, and the
  repeating ones among them go back with a new time. \<open>now\<close> is the reading before the loop, \<open>now2\<close>
  the one inside it. The first component is the list of the tasks that came due.\<close>

definition sched_tick ::
  "instant \<Rightarrow> instant \<Rightarrow> (string, scheduled_task) hashmap \<Rightarrow>
   (string \<times> scheduled_task) list \<times> (string, scheduled_task) hashmap" where
  "sched_tick now now2 tasks =
     (let due = filter (\<lambda>(_, t). st_next_at t \<le> now) tasks
      in (due,
          fold (\<lambda>(tid, t) m.
                  case st_interval_ms t of
                    Some interval_ms \<Rightarrow> hm_insert tid (t\<lparr>st_next_at := now2 + millis (unat interval_ms)\<rparr>) m
                  | None \<Rightarrow> m) due []))"

section \<open>What a round keeps\<close>

lemma reinsert_get:
  assumes "distinct (map fst due)"
  shows "hm_get (fold (\<lambda>(tid, t) m.
             case st_interval_ms t of
               Some interval_ms \<Rightarrow> hm_insert tid (t\<lparr>st_next_at := now2 + millis (unat interval_ms)\<rparr>) m
             | None \<Rightarrow> m) due m) tid =
     (case map_of due tid of
        Some t \<Rightarrow> (case st_interval_ms t of
                     Some i \<Rightarrow> Some (t\<lparr>st_next_at := now2 + millis (unat i)\<rparr>)
                   | None \<Rightarrow> hm_get m tid)
      | None \<Rightarrow> hm_get m tid)"
  using assms
proof (induction due arbitrary: m)
  case (Cons x due)
  obtain k t where x: "x = (k, t)" by fastforce
  from Cons.prems have "map_of due k = None" by (auto simp: x map_of_eq_None_iff)
  with Cons show ?case by (auto simp: x split: option.splits)
qed simp

text \<open>A round of the scheduler forgets the tasks that are not due. After a round at time
  \<open>now\<close> a task is left exactly when it came due in this round and repeats, with its next time one
  interval later. A one-shot task that came due is done, and every task that was not yet due is
  gone as well, without having come due: \<open>tasks.drain().filter(..)\<close> empties the map, and only the
  due tasks are looked at.\<close>

theorem sched_tick_exact:
  assumes "hm_wf tasks"
  shows "hm_get (snd (sched_tick now now2 tasks)) tid =
     (case hm_get tasks tid of
        Some t \<Rightarrow>
          (case st_interval_ms t of
             Some i \<Rightarrow> if st_next_at t \<le> now then Some (t\<lparr>st_next_at := now2 + millis (unat i)\<rparr>) else None
           | None \<Rightarrow> None)
      | None \<Rightarrow> None) \<and>
     (tid \<in> fst ` set (fst (sched_tick now now2 tasks)) \<longleftrightarrow>
        (\<exists>t. hm_get tasks tid = Some t \<and> st_next_at t \<le> now))"
proof -
  let ?due = "filter (\<lambda>(_, t). st_next_at t \<le> now) tasks"
  have "distinct (map fst ?due)" using assms by (simp add: hm_wf_def distinct_map_filter)
  moreover have "map_of ?due tid = (case hm_get tasks tid of
      Some t \<Rightarrow> if st_next_at t \<le> now then Some t else None | None \<Rightarrow> None)"
    using hm_get_filter [OF assms, of "\<lambda>_ t. st_next_at t \<le> now" tid] by (simp add: hm_get_def)
  ultimately have "hm_get (snd (sched_tick now now2 tasks)) tid =
     (case hm_get tasks tid of
        Some t \<Rightarrow>
          (case st_interval_ms t of
             Some i \<Rightarrow> if st_next_at t \<le> now then Some (t\<lparr>st_next_at := now2 + millis (unat i)\<rparr>) else None
           | None \<Rightarrow> None)
      | None \<Rightarrow> None)"
    by (auto simp: sched_tick_def Let_def reinsert_get split: option.splits)
  moreover have "tid \<in> fst ` set ?due \<longleftrightarrow> (\<exists>t. hm_get tasks tid = Some t \<and> st_next_at t \<le> now)"
    using hm_in_iff_get [OF assms] by force
  ultimately show ?thesis by (simp add: sched_tick_def Let_def)
qed

theorem sched_tick_exact_witness:
  "hm_get (snd (sched_tick 5 6
      [(''soon'', \<lparr>st_id = ''soon'', st_payload = [], st_interval_ms = None, st_next_at = 5\<rparr>),
       (''later'', \<lparr>st_id = ''later'', st_payload = [], st_interval_ms = Some 60000, st_next_at = 9\<rparr>)])) ''later'' = None"
  using sched_tick_exact
    [of "[(''soon'', \<lparr>st_id = ''soon'', st_payload = [], st_interval_ms = None, st_next_at = 5\<rparr>),
       (''later'', \<lparr>st_id = ''later'', st_payload = [], st_interval_ms = Some 60000, st_next_at = 9\<rparr>)]" 5 6 "''later''"]
  by (simp add: hm_wf_def hm_get_Cons)

text \<open>On an idle scheduler the thread sleeps ten seconds and nothing wakes it up when a task is
  scheduled: a task due later than the end of that pause is dropped by the next round.\<close>

lemma idle_scheduler_loses_long_delay:
  assumes "sc_tasks s = []" and "t1 + millis (unat delay_ms) > wake"
  shows "sleep_ms t0 (sc_tasks s) = 10000"
    and "sched_tick wake now2 (sc_tasks (snd (schedule_once c boot env t1 tid delay_ms payload s))) = ([], [])"
  using assms
  by (simp_all add: sleep_ms_def hm_values_def schedule_once_def sched_flush_if_persistent_def Let_def
      sched_tick_def hm_insert_def split: thread_kind.splits)

text \<open>A guest schedules and cancels on executor threads: there the call panics although the task is in
  the map, so that the guest never learns its identifier, and the file keeps its old contents.\<close>

lemma guest_schedule_panics:
  assumes "sc_persistence s" and "se_thread env = ExecutorThread"
  shows "fst (schedule_once c boot env now tid delay_ms payload s) = CallPanics"
    and "hm_contains (sc_tasks (snd (schedule_once c boot env now tid delay_ms payload s))) tid"
    and "sc_file (snd (schedule_once c boot env now tid delay_ms payload s)) = sc_file s"
    and "hm_contains (sc_tasks s) tid \<Longrightarrow> fst (sched_cancel c boot env tid s) = CallPanics"
  using assms by (simp_all add: schedule_once_def sched_cancel_def sched_flush_if_persistent_def Let_def hm_contains_def)

text \<open>The pause is cut to whole milliseconds, so a round that starts right after it may still be
  before the task's time; then the task is dropped.\<close>

lemma truncated_pause_loses_task:
  assumes "tasks = [(tid, t)]" and "100 * 1000000 \<le> st_next_at t - now"
    and "(st_next_at t - now) mod 1000000 \<noteq> 0" and "wake = now + millis (sleep_ms now tasks)"
  shows "wake < st_next_at t \<and> sched_tick wake now2 tasks = ([], [])"
proof -
  let ?r = "st_next_at t - now"
  have "100 \<le> ?r div 1000000" using assms(2) by linarith
  then have "sleep_ms now tasks = ?r div 1000000" using assms(1) by (simp add: sleep_ms_def hm_values_def max_def)
  moreover have "?r div 1000000 * 1000000 < ?r"
    using assms(3) div_mult_mod_eq [of ?r 1000000] by linarith
  ultimately have "wake < st_next_at t" using assms(4) by linarith
  then show ?thesis using assms(1) by (simp add: sched_tick_def)
qed

section \<open>Reloading\<close>

text \<open>A reloaded task fires at the start of the second it was due in; one whose second has been
  reached is dropped, a repeating one too, although \<open>load\<close> says that repeating tasks are
  rescheduled relative to now.\<close>

lemma secs_instant_floor:
  assumes "boot_instant boot \<le> i"
  shows "secs_to_instant boot (instant_to_secs boot i) \<le> i \<and>
         i < secs_to_instant boot (instant_to_secs boot i) + secs 1"
proof -
  let ?d = "i - boot_instant boot"
  have "?d div 1000000000 * 1000000000 + ?d mod 1000000000 = ?d" by (rule div_mult_mod_eq)
  moreover have "?d mod 1000000000 < 1000000000" by simp
  moreover have "boot_instant boot + ?d = i" using assms by simp
  ultimately have "boot_instant boot + ?d div 1000000000 * 1000000000 \<le> i \<and>
      i < boot_instant boot + ?d div 1000000000 * 1000000000 + 1000000000" by linarith
  then show ?thesis by (simp add: secs_to_instant_def instant_to_secs_def)
qed

lemma sched_load_flushed:
  assumes "codec_ok c"
  shows "sched_load c boot now True (Some (to_json c (sched_persisted c boot' tasks))) =
     Inr (map (\<lambda>t. t\<lparr>st_next_at := secs_to_instant boot (instant_to_secs boot' (st_next_at t))\<rparr>)
            (filter (\<lambda>t. now < instant_to_secs boot' (st_next_at t)) (hm_values tasks)))"
proof -
  have dec: "b64_decode c (b64_encode c v) = Some v" for v using assms by (simp add: codec_ok_def)
  have "sched_load_tasks c boot now (psc_tasks (sched_persisted c boot' tasks)) =
      Inr (map (\<lambda>t. t\<lparr>st_next_at := secs_to_instant boot (instant_to_secs boot' (st_next_at t))\<rparr>)
            (filter (\<lambda>t. now < instant_to_secs boot' (st_next_at t)) (hm_values tasks)))"
    by (induction tasks) (auto simp: sched_persisted_def hm_values_def dec)
  then show ?thesis using assms by (simp add: sched_load_def codec_ok_def)
qed

end
