(* ===== verification/Edge_Bytes.thy ===== *)
theory Edge_Bytes
  imports Edge_Prelude
begin

text \<open>
  Bytes: the bytes of a string, UTF-8, big-endian numbers, \<open>str::trim\<close>. A string is the list of its bytes.
\<close>

section \<open>Strings as bytes\<close>

type_synonym bytes = "u8 list"

definition as_bytes :: "string \<Rightarrow> bytes" where
  "as_bytes s = map of_char s"

definition of_bytes :: "bytes \<Rightarrow> string" where
  "of_bytes bs = map (char_of \<circ> unat) bs"

lemma as_bytes_simps [simp]:
  "as_bytes [] = []" "as_bytes (c # s) = of_char c # as_bytes s" "as_bytes (s @ t) = as_bytes s @ as_bytes t"
  "length (as_bytes s) = length s"
  by (simp_all add: as_bytes_def)

lemma unat_of_char [simp]: "unat (of_char c :: u8) = of_char c"
proof -
  have "(of_char c :: nat) < 256" by (cases c) (auto simp: of_char_def)
  moreover have "(of_char c :: u8) = of_nat (of_char c)" by (simp add: of_nat_of_char)
  ultimately show ?thesis by (simp add: unat_of_nat)
qed

lemma as_bytes_inj [simp]: "as_bytes s = as_bytes t \<longleftrightarrow> s = t"
proof -
  have "(of_char c :: u8) = of_char d \<longleftrightarrow> c = d" for c d by (simp add: word_unat_eq_iff)
  then have "inj (of_char :: char \<Rightarrow> u8)" by (simp add: inj_def)
  then show ?thesis by (simp add: as_bytes_def inj_map_eq_map)
qed

lemma as_bytes_of_bytes [simp]: "as_bytes (of_bytes bs) = bs"
proof -
  have "(of_char (char_of (unat b) :: char) :: u8) = b" for b :: u8
  proof -
    have "unat b < 256" using unsigned_less [of b] by simp
    then show ?thesis by (simp add: word_unat_eq_iff)
  qed
  then show ?thesis by (simp add: as_bytes_def of_bytes_def map_idI)
qed

lemma of_bytes_as_bytes [simp]: "of_bytes (as_bytes s) = s"
  by (metis as_bytes_inj as_bytes_of_bytes)

lemma as_bytes_eq_iff: "as_bytes s = bs \<longleftrightarrow> s = of_bytes bs"
  by (metis as_bytes_of_bytes of_bytes_as_bytes)

section \<open>White space\<close>

text \<open>The characters with the Unicode property \<open>White_Space\<close>, in UTF-8. \<open>may_ws\<close> holds of the bytes such a
  character can start or end with.\<close>

definition WHITE_SPACE :: "string list" where
  "WHITE_SPACE =
     [[CHR 0x09], [CHR 0x0A], [CHR 0x0B], [CHR 0x0C], [CHR 0x0D], [CHR 0x20],
      [CHR 0xC2, CHR 0x85], [CHR 0xC2, CHR 0xA0], [CHR 0xE1, CHR 0x9A, CHR 0x80],
      [CHR 0xE2, CHR 0x80, CHR 0x80], [CHR 0xE2, CHR 0x80, CHR 0x81], [CHR 0xE2, CHR 0x80, CHR 0x82],
      [CHR 0xE2, CHR 0x80, CHR 0x83], [CHR 0xE2, CHR 0x80, CHR 0x84], [CHR 0xE2, CHR 0x80, CHR 0x85],
      [CHR 0xE2, CHR 0x80, CHR 0x86], [CHR 0xE2, CHR 0x80, CHR 0x87], [CHR 0xE2, CHR 0x80, CHR 0x88],
      [CHR 0xE2, CHR 0x80, CHR 0x89], [CHR 0xE2, CHR 0x80, CHR 0x8A], [CHR 0xE2, CHR 0x80, CHR 0xA8],
      [CHR 0xE2, CHR 0x80, CHR 0xA9], [CHR 0xE2, CHR 0x80, CHR 0xAF], [CHR 0xE2, CHR 0x81, CHR 0x9F],
      [CHR 0xE3, CHR 0x80, CHR 0x80]]"

definition may_ws :: "char \<Rightarrow> bool" where
  "may_ws c \<longleftrightarrow> c \<in> {CHR 0x09, CHR 0x0A, CHR 0x0B, CHR 0x0C, CHR 0x0D, CHR 0x20} \<or> 128 \<le> (of_char c :: nat)"

definition leading :: "string list \<Rightarrow> string \<Rightarrow> string option" where
  "leading ws s = find (\<lambda>w. w \<noteq> [] \<and> starts_with w s) ws"

lemma leading_shorter: "leading ws s = Some w \<Longrightarrow> w \<noteq> [] \<and> s \<noteq> [] \<and> length w \<le> length s"
  by (auto simp: leading_def find_Some_iff starts_with_iff)

function strip_leading :: "string list \<Rightarrow> string \<Rightarrow> string" where
  "strip_leading ws s =
     (case leading ws s of None \<Rightarrow> s | Some w \<Rightarrow> strip_leading ws (drop (length w) s))"
  by pat_completeness auto
termination
proof (relation "measure (length \<circ> snd)")
  fix ws s w
  assume "leading ws s = Some w"
  then have "w \<noteq> [] \<and> s \<noteq> []" using leading_shorter by blast
  then show "((ws, drop (length w) s), (ws, s)) \<in> measure (length \<circ> snd)" by (cases s; cases w) simp_all
qed simp

declare strip_leading.simps [simp del]

definition trim :: "string \<Rightarrow> string" where
  "trim s = rev (strip_leading (map rev WHITE_SPACE) (rev (strip_leading WHITE_SPACE s)))"

text \<open>\<open>str::split_whitespace\<close>; the first argument is the word that is being read.\<close>

function split_ws :: "string \<Rightarrow> string \<Rightarrow> string list" where
  "split_ws word [] = (if word = [] then [] else [word])"
| "split_ws word (c # s) =
     (case leading WHITE_SPACE (c # s) of
        None \<Rightarrow> split_ws (word @ [c]) s
      | Some w \<Rightarrow> (if word = [] then [] else [word]) @ split_ws [] (drop (length w) (c # s)))"
  by pat_completeness auto
termination
proof (relation "measure (length \<circ> snd)")
  fix word c s w
  assume "leading WHITE_SPACE (c # s) = Some w"
  then have "w \<noteq> []" using leading_shorter by blast
  then show "(([], drop (length w) (c # s)), (word, c # s)) \<in> measure (length \<circ> snd)" by (cases w) simp_all
qed simp_all

definition split_whitespace :: "string \<Rightarrow> string list" where
  "split_whitespace s = split_ws [] s"

text \<open>\<open>str::lines\<close>: a carriage return before the end of a line is not part of the line.\<close>

fun split_lines :: "string \<Rightarrow> string list" where
  "split_lines [] = []"
| "split_lines (c # s) =
     (if c = CHR 0x0A then [] # split_lines s
      else case split_lines s of [] \<Rightarrow> [[c]] | l # ls \<Rightarrow> (c # l) # ls)"

definition strip_cr :: "string \<Rightarrow> string" where
  "strip_cr l = (case strip_suffix [CHR 0x0D] l of Some l' \<Rightarrow> l' | None \<Rightarrow> l)"

lemma split_lines_line: "CHR 0x0A \<notin> set l \<Longrightarrow> split_lines (l @ CHR 0x0A # s) = l # split_lines s"
  by (induction l) auto

lemma strip_cr_id: "l = [] \<or> last l \<noteq> CHR 0x0D \<Longrightarrow> strip_cr l = l"
  by (auto simp: strip_cr_def strip_suffix_Some split: option.split)

lemma white_space_ends: "w \<in> set WHITE_SPACE \<Longrightarrow> w \<noteq> [] \<and> may_ws (hd w) \<and> may_ws (last w)"
  by (auto simp: WHITE_SPACE_def may_ws_def)

lemma leading_None: "s = [] \<or> \<not> may_ws (hd s) \<Longrightarrow> leading WHITE_SPACE s = None"
  using white_space_ends by (auto simp: leading_def find_None_iff starts_with_iff hd_append)

lemma leading_rev_None: "s = [] \<or> \<not> may_ws (hd s) \<Longrightarrow> leading (map rev WHITE_SPACE) s = None"
  using white_space_ends by (auto simp: leading_def find_None_iff starts_with_iff hd_append hd_rev)

lemma trim_id: "s = [] \<or> \<not> may_ws (hd s) \<and> \<not> may_ws (last s) \<Longrightarrow> trim s = s"
proof -
  assume s: "s = [] \<or> \<not> may_ws (hd s) \<and> \<not> may_ws (last s)"
  then have "strip_leading WHITE_SPACE s = s"
    by (subst strip_leading.simps) (auto simp: leading_None)
  moreover have "strip_leading (map rev WHITE_SPACE) (rev s) = rev s"
    using s by (subst strip_leading.simps) (auto simp: leading_rev_None hd_rev)
  ultimately show ?thesis by (simp add: trim_def)
qed

lemma leading_space:
  "leading WHITE_SPACE (CHR '' '' # s) = Some '' ''" "leading (map rev WHITE_SPACE) (CHR '' '' # s) = Some '' ''"
  by (simp_all add: leading_def WHITE_SPACE_def starts_with_def)

lemma trim_pad:
  assumes "s \<noteq> []" and "\<not> may_ws (hd s)" and "\<not> may_ws (last s)"
  shows "trim (s @ '' '') = s" "trim ('' '' @ s) = s"
proof -
  have s: "strip_leading WHITE_SPACE (s @ t) = s @ t" for t
    using assms by (subst strip_leading.simps) (auto simp: leading_None)
  have r: "strip_leading (map rev WHITE_SPACE) (rev s) = rev s"
    using assms by (subst strip_leading.simps) (auto simp: leading_rev_None hd_rev)
  have "strip_leading (map rev WHITE_SPACE) (CHR '' '' # rev s) = rev s"
    by (subst strip_leading.simps) (simp add: leading_space r)
  then show "trim (s @ '' '') = s" by (simp add: trim_def s)
  have "strip_leading WHITE_SPACE (CHR '' '' # s) = s"
    using s [of "[]"] by (subst strip_leading.simps) (simp add: leading_space)
  then show "trim ('' '' @ s) = s" by (simp add: trim_def r)
qed

section \<open>UTF-8\<close>

text \<open>A \<open>str\<close> is a list of bytes that \<open>std::str::from_utf8\<close> accepts.\<close>

definition is_cont :: "u8 \<Rightarrow> bool" where
  "is_cont b \<longleftrightarrow> 0x80 \<le> b \<and> b < 0xC0"

definition utf8_seq_len :: "u8 \<Rightarrow> nat" where
  "utf8_seq_len b =
     (if b < 0x80 then 1 else if 0xC2 \<le> b \<and> b < 0xE0 then 2 else if 0xE0 \<le> b \<and> b < 0xF0 then 3
      else if 0xF0 \<le> b \<and> b < 0xF5 then 4 else 0)"

definition utf8_second_ok :: "u8 \<Rightarrow> u8 \<Rightarrow> bool" where
  "utf8_second_ok b c =
     (if b = 0xE0 then 0xA0 \<le> c else if b = 0xED then c < 0xA0 else if b = 0xF0 then 0x90 \<le> c
      else if b = 0xF4 then c < 0x90 else True)"

function from_utf8_ok :: "bytes \<Rightarrow> bool" where
  "from_utf8_ok [] = True"
| "from_utf8_ok (b # bs) =
     (let n = utf8_seq_len b - 1
      in utf8_seq_len b \<noteq> 0 \<and> n \<le> length bs \<and> list_all is_cont (take n bs) \<and>
         (n > 0 \<longrightarrow> utf8_second_ok b (hd bs)) \<and> from_utf8_ok (drop n bs))"
  by pat_completeness auto
termination by (relation "measure length") auto

text \<open>\<open>String::from_utf8_lossy\<close>: every ill-formed part is replaced by U+FFFD. \<open>utf8_chunk\<close> says whether the
  bytes start with a character, and how many bytes the character or the ill-formed part has.\<close>

definition byte_at :: "bytes \<Rightarrow> nat \<Rightarrow> u8" where
  "byte_at bs i = (if i < length bs then bs ! i else 0)"

definition utf8_chunk :: "bytes \<Rightarrow> bool \<times> nat" where
  "utf8_chunk bs =
     (let b = byte_at bs 0; n = utf8_seq_len b
      in if n = 0 then (False, 1)
         else if n = 1 then (True, 1)
         else if \<not> (is_cont (byte_at bs 1) \<and> utf8_second_ok b (byte_at bs 1)) then (False, 1)
         else if n = 2 then (True, 2)
         else if \<not> is_cont (byte_at bs 2) then (False, 2)
         else if n = 3 then (True, 3)
         else if \<not> is_cont (byte_at bs 3) then (False, 3)
         else (True, 4))"

lemma utf8_chunk_pos: "snd (utf8_chunk bs) \<noteq> 0"
  by (simp add: utf8_chunk_def Let_def)

function from_utf8_lossy :: "bytes \<Rightarrow> string" where
  "from_utf8_lossy [] = []"
| "from_utf8_lossy (b # bs) =
     (let (ok, n) = utf8_chunk (b # bs)
      in (if ok then of_bytes (take n (b # bs)) else [CHR 0xEF, CHR 0xBF, CHR 0xBD]) @ from_utf8_lossy (drop n (b # bs)))"
  by pat_completeness auto
termination
proof (relation "measure length")
  fix b bs p ok n
  assume "p = utf8_chunk (b # bs)" and "(ok, n) = p"
  then have "n \<noteq> 0" using utf8_chunk_pos [of "b # bs"] by (metis snd_conv)
  then show "(drop n (b # bs), b # bs) \<in> measure length" by simp
qed simp

lemma utf8_chunk_ok:
  assumes "from_utf8_ok (b # bs)"
  shows "utf8_chunk (b # bs) = (True, utf8_seq_len b)" and "from_utf8_ok (drop (utf8_seq_len b) (b # bs))"
proof -
  let ?n = "utf8_seq_len b"
  have n: "?n \<in> {1, 2, 3, 4}" "?n - 1 \<le> length bs" "list_all is_cont (take (?n - 1) bs)"
    "?n - 1 > 0 \<Longrightarrow> utf8_second_ok b (hd bs)" "from_utf8_ok (drop (?n - 1) bs)"
    using assms by (auto simp: Let_def utf8_seq_len_def split: if_splits)
  then show "from_utf8_ok (drop ?n (b # bs))" by (cases ?n) auto
  have c: "is_cont (byte_at (b # bs) i)" if "0 < i" "i < ?n" for i
    using that n by (cases i) (auto simp: byte_at_def list_all_length)
  have h: "hd bs = byte_at (b # bs) 1" if "?n \<noteq> 1" using that n(1, 2) by (cases bs) (auto simp: byte_at_def)
  show "utf8_chunk (b # bs) = (True, ?n)"
    using n(1, 4) c [of 1] c [of 2] c [of 3] h by (auto simp: utf8_chunk_def byte_at_def Let_def)
qed

lemma from_utf8_lossy_ok: "from_utf8_ok bs \<Longrightarrow> from_utf8_lossy bs = of_bytes bs"
proof (induction bs rule: from_utf8_lossy.induct)
  case (2 b bs)
  then show ?case
    using utf8_chunk_ok [OF "2.prems"] by (simp add: Let_def of_bytes_def flip: map_append del: take_Suc_Cons drop_Suc_Cons)
qed (simp add: of_bytes_def)

lemma ascii_utf8_ok: "list_all (\<lambda>b. b < 0x80) bs \<Longrightarrow> from_utf8_ok bs"
  by (induction bs) (simp_all add: utf8_seq_len_def)

section \<open>Big-endian numbers\<close>

text \<open>\<open>u32::to_be_bytes\<close> and \<open>u32::from_be_bytes\<close>.\<close>

definition to_be_bytes :: "u32 \<Rightarrow> bytes" where
  "to_be_bytes w = map (\<lambda>k. of_nat (unat w div 256 ^ k)) [3, 2, 1, 0]"

definition be_bytes :: "nat \<Rightarrow> nat \<Rightarrow> bytes" where
  "be_bytes k n = map (\<lambda>i. of_nat (n div 256 ^ i)) (rev [0..<k])"

fun from_be_bytes :: "bytes \<Rightarrow> nat" where
  "from_be_bytes [] = 0"
| "from_be_bytes (b # bs) = unat b * 256 ^ length bs + from_be_bytes bs"

lemma byte_lt: "unat (b :: u8) < 256"
  using unsigned_less [of b] by simp

lemma from_be_bytes_bound: "from_be_bytes bs < 256 ^ length bs"
proof (induction bs)
  case (Cons b bs)
  have "unat b * 256 ^ length bs + from_be_bytes bs < Suc (unat b) * 256 ^ length bs" using Cons.IH by simp
  also have "\<dots> \<le> 256 * 256 ^ length bs" using byte_lt [of b] by (intro mult_le_mono1) simp
  finally show ?case by simp
qed simp

lemma be_digits:
  fixes n :: nat
  shows "n mod 256 + 256 * (n div 256 mod 256) + 65536 * (n div 65536 mod 256) + 16777216 * (n div 16777216) = n"
proof -
  have q: "n div 65536 = n div 256 div 256" "n div 16777216 = n div 256 div 256 div 256"
    by (simp_all flip: div_mult2_eq)
  have "n mod 256 + 256 * (n div 256) = n" "n div 256 mod 256 + 256 * (n div 256 div 256) = n div 256"
    "n div 256 div 256 mod 256 + 256 * (n div 256 div 256 div 256) = n div 256 div 256"
    by simp_all
  then show ?thesis unfolding q by linarith
qed

lemma from_to_be_bytes: "from_be_bytes (to_be_bytes w) = unat w"
proof -
  have "unat w < 4294967296" using unsigned_less [of w] by simp
  then have "unat w div 16777216 < 256" by (simp add: less_mult_imp_div_less)
  then show ?thesis using be_digits [of "unat w"] by (simp add: to_be_bytes_def unat_of_nat unsigned_ucast_eq take_bit_eq_mod)
qed

lemma length_be_bytes [simp]: "length (be_bytes k n) = k"
  by (simp add: be_bytes_def)

lemma from_be_bytes_of: "from_be_bytes (be_bytes k n) = n mod 256 ^ k"
proof (induction k)
  case (Suc k)
  have "unat (of_nat (n div 256 ^ k) :: u8) = n div 256 ^ k mod 256" by (simp add: unat_of_nat)
  moreover have "n mod 256 ^ Suc k = n div 256 ^ k mod 256 * 256 ^ k + n mod 256 ^ k"
    using mod_mult2_eq [of n "256 ^ k" 256] by (simp add: mult.commute)
  ultimately show ?case using Suc.IH by (simp add: be_bytes_def)
qed (simp add: be_bytes_def)

lemma length_to_be_bytes [simp]: "length (to_be_bytes w) = 4"
  by (simp add: to_be_bytes_def)

lemma to_be_bytes_nth:
  "take 4 (to_be_bytes w @ rest) = to_be_bytes w" "drop 4 (to_be_bytes w @ rest) = rest"
  by simp_all

lemma to_from_be_bytes:
  assumes "length bs = 4"
  shows "to_be_bytes (of_nat (from_be_bytes bs)) = bs"
proof -
  obtain a b c d where bs: "bs = [a, b, c, d]"
    using assms by (auto simp: numeral_eq_Suc length_Suc_conv)
  have u: "unat a < 256" "unat b < 256" "unat c < 256" "unat d < 256"
    using byte_lt by simp_all
  let ?n = "unat a * 16777216 + unat b * 65536 + unat c * 256 + unat d"
  have n: "from_be_bytes bs = ?n" "?n < 4294967296" using u by (simp_all add: bs)
  then have "unat (of_nat (from_be_bytes bs) :: u32) = ?n" by (simp only: unat_of_nat) simp
  moreover have "?n div 16777216 = unat a" "?n div 65536 = unat a * 256 + unat b"
    "?n div 256 = (unat a * 256 + unat b) * 256 + unat c"
  proof -
    have q: "(x * k + r) div k = x" if "r < k" for x k r :: nat using that by simp
    have "?n = unat a * 16777216 + (unat b * 65536 + unat c * 256 + unat d)"
      "?n = (unat a * 256 + unat b) * 65536 + (unat c * 256 + unat d)"
      "?n = ((unat a * 256 + unat b) * 256 + unat c) * 256 + unat d" by simp_all
    then show "?n div 16777216 = unat a" "?n div 65536 = unat a * 256 + unat b"
      "?n div 256 = (unat a * 256 + unat b) * 256 + unat c"
      using u q [of "unat b * 65536 + unat c * 256 + unat d" 16777216 "unat a"]
        q [of "unat c * 256 + unat d" 65536 "unat a * 256 + unat b"]
        q [of "unat d" 256 "(unat a * 256 + unat b) * 256 + unat c"] by simp_all
  qed
  ultimately have "to_be_bytes (of_nat (from_be_bytes bs)) =
      [of_nat (unat a), of_nat (unat a * 256 + unat b), of_nat ((unat a * 256 + unat b) * 256 + unat c), of_nat ?n]"
    by (simp add: to_be_bytes_def)
  moreover have "(of_nat (x * 256 + unat y) :: u8) = y" for x :: nat and y :: u8
    using byte_lt [of y] by (simp only: word_unat_eq_iff unat_of_nat) simp
  moreover have "?n = ((unat a * 256 + unat b) * 256 + unat c) * 256 + unat d" by simp
  ultimately show ?thesis by (simp only: bs) simp
qed

end
