(* ===== verification/Runtime_WebSocket.thy ===== *)
theory Runtime_WebSocket
  imports Edge_Bytes "HOL-Library.Stream"
begin

text \<open>
  The WebSocket server that the host offers to long-running components
  (\<open>edge-runtime/src/interfaces/websocket.rs\<close>): frames, the upgrade handshake, the loop that receives a
  message, and the table of listeners and connections.

  A TCP stream is what its peer does, as an infinite sequence of read events, with what has been written to
  it. A loop that never returns is \<open>None\<close>. SHA-1 and base64 are the parameters of the handshake. The theory
  shows which messages are received, that a frame which arrives in two parts is never received, and what a
  client can do with one frame header.
\<close>

unbundle bit_operations_syntax

section \<open>Message types\<close>

datatype message_type = Text | Binary | Ping | Pong | Close

definition message_type_from_u8 :: "u8 \<Rightarrow> string + message_type" where
  "message_type_from_u8 v =
     (if v = 0 then Inr Text else if v = 1 then Inr Binary else if v = 2 then Inr Ping else if v = 3 then Inr Pong
      else if v = 4 then Inr Close else Inl (''unknown message type: '' @ dec (unat v)))"

fun message_type_to_u8 :: "message_type \<Rightarrow> u8" where
  "message_type_to_u8 Text = 0"
| "message_type_to_u8 Binary = 1"
| "message_type_to_u8 Ping = 2"
| "message_type_to_u8 Pong = 3"
| "message_type_to_u8 Close = 4"

fun opcode_for :: "message_type \<Rightarrow> u8" where
  "opcode_for Text = 0x1"
| "opcode_for Binary = 0x2"
| "opcode_for Close = 0x8"
| "opcode_for Ping = 0x9"
| "opcode_for Pong = 0xA"

record close_info =
  ci_code :: u16
  ci_reason :: string

definition message_type_from_opcode :: "u8 \<Rightarrow> close_info + message_type" where
  "message_type_from_opcode opcode =
     (if opcode = 0x1 then Inr Text else if opcode = 0x2 then Inr Binary else if opcode = 0x8 then Inr Close
      else if opcode = 0x9 then Inr Ping else if opcode = 0xA then Inr Pong
      else Inl \<lparr>ci_code = 1002, ci_reason = ''unknown opcode: 0x'' @ hex_of (unat opcode)\<rparr>)"

definition from_frame_payload :: "bytes \<Rightarrow> close_info" where
  "from_frame_payload payload =
     (if length payload \<ge> 2
      then \<lparr>ci_code = of_nat (from_be_bytes (take 2 payload)),
            ci_reason = (if length payload > 2 then from_utf8_lossy (drop 2 payload) else [])\<rparr>
      else \<lparr>ci_code = 1005, ci_reason = []\<rparr>)"

section \<open>TCP streams\<close>

text \<open>\<open>Arrived []\<close> is the end of the stream. A read takes at most as many bytes as its buffer holds and leaves the
  others. A write that fails has written a number of bytes before it failed.\<close>

datatype read_event = Arrived bytes | WouldBlock | ReadFailed string

record tcp_stream =
  ts_in :: "read_event stream"
  ts_out :: bytes
  ts_faults :: "(nat \<times> string) option stream"

definition tcp_read :: "nat \<Rightarrow> tcp_stream \<Rightarrow> read_event \<times> tcp_stream" where
  "tcp_read cap ts =
     (case shd (ts_in ts) of
        Arrived bs \<Rightarrow>
          if length bs \<le> cap then (Arrived bs, ts\<lparr>ts_in := stl (ts_in ts)\<rparr>)
          else (Arrived (take cap bs), ts\<lparr>ts_in := Arrived (drop cap bs) ## stl (ts_in ts)\<rparr>)
      | ev \<Rightarrow> (ev, ts\<lparr>ts_in := stl (ts_in ts)\<rparr>))"

definition write_all :: "bytes \<Rightarrow> tcp_stream \<Rightarrow> string option \<times> tcp_stream" where
  "write_all bs ts =
     (case shd (ts_faults ts) of
        None \<Rightarrow> (None, ts\<lparr>ts_out := ts_out ts @ bs, ts_faults := stl (ts_faults ts)\<rparr>)
      | Some (n, e) \<Rightarrow> (Some e, ts\<lparr>ts_out := ts_out ts @ take n bs, ts_faults := stl (ts_faults ts)\<rparr>))"

section \<open>Frames\<close>

definition encode_frame :: "bytes \<Rightarrow> message_type \<Rightarrow> bool \<Rightarrow> bytes" where
  "encode_frame data kind masked =
     (let opcode = opcode_for kind;
          len = length data;
          mask_bit = (\<lambda>b1. if masked then b1 OR 0x80 else b1)
      in [0x80 OR opcode] @
         (if len < 126 then [mask_bit (of_nat len)]
          else if len \<le> 0xFFFF then mask_bit 126 # be_bytes 2 len
          else mask_bit 127 # be_bytes 8 len) @
         (if masked then replicate 4 0 else []) @ data)"

text \<open>\<open>parse_frame\<close> first reads one frame from the buffer. \<open>offset + payload_len\<close> overflows for the longest lengths: with
  overflow checks the addition panics, without them the slice \<open>buf[offset..end]\<close> does.\<close>

datatype frame_read = Incomplete | FramePanic | FrameRead bool u8 bytes bytes

definition payload_len :: "bytes \<Rightarrow> (nat \<times> nat) option" where
  "payload_len buf =
     (let len = unat (buf ! 1 AND 0x7F)
      in if len = 126 then (if length buf < 4 then None else Some (from_be_bytes (take 2 (drop 2 buf)), 4))
         else if len = 127 then (if length buf < 10 then None else Some (from_be_bytes (take 8 (drop 2 buf)), 10))
         else Some (len, 2))"

definition unmask :: "bytes option \<Rightarrow> bytes \<Rightarrow> bytes" where
  "unmask mask_key payload =
     (case mask_key of
        None \<Rightarrow> payload
      | Some key \<Rightarrow> map (\<lambda>(i, byte). byte XOR key ! (i mod 4)) (enumerate 0 payload))"

definition read_frame :: "bytes \<Rightarrow> frame_read" where
  "read_frame buf =
     (if length buf < 2 then Incomplete
      else
        let b0 = buf ! 0; b1 = buf ! 1;
            fin = (b0 AND 0x80 \<noteq> 0);
            opcode = b0 AND 0x0F;
            masked = (b1 AND 0x80 \<noteq> 0)
        in case payload_len buf of
             None \<Rightarrow> Incomplete
           | Some (len, offset) \<Rightarrow>
               if masked \<and> length buf < offset + 4 then Incomplete
               else
                 let mask_key = (if masked then Some (take 4 (drop offset buf)) else None);
                     offset = (if masked then offset + 4 else offset);
                     frame_end = offset + len
                 in if frame_end \<ge> 2 ^ 64 then FramePanic
                    else if length buf < frame_end then Incomplete
                    else FrameRead fin opcode (unmask mask_key (take len (drop offset buf))) (drop frame_end buf))"

section \<open>Connections\<close>

record connection =
  cn_stream :: tcp_stream
  cn_read_buf :: bytes
  cn_fragmented_payload :: bytes
  cn_fragmented_opcode :: "u8 option"
  cn_close_sent :: bool
  cn_close_received :: bool

datatype frame_parse_outcome =
    Message bytes message_type
  | MoreFragments
  | PongOutcome
  | CloseReceived close_info
  | ProtocolError close_info

definition protocol_error :: "string \<Rightarrow> frame_parse_outcome" where
  "protocol_error reason = ProtocolError \<lparr>ci_code = 1002, ci_reason = reason\<rparr>"

definition complete_message :: "bytes \<Rightarrow> u8 \<Rightarrow> frame_parse_outcome" where
  "complete_message payload opcode =
     (case message_type_from_opcode opcode of Inr ty \<Rightarrow> Message payload ty | Inl ci \<Rightarrow> ProtocolError ci)"

definition handle_control :: "u8 \<Rightarrow> bytes \<Rightarrow> connection \<Rightarrow> frame_parse_outcome \<times> connection" where
  "handle_control opcode payload conn =
     (if opcode = 0x8 then (CloseReceived (from_frame_payload payload), conn\<lparr>cn_close_received := True\<rparr>)
      else if opcode = 0x9
      then (PongOutcome, conn\<lparr>cn_stream := snd (write_all (encode_frame payload Pong False) (cn_stream conn))\<rparr>)
      else if opcode = 0xA then (PongOutcome, conn)
      else (protocol_error (''unknown control opcode: 0x'' @ hex_of (unat opcode)), conn))"

definition handle_frame :: "bool \<Rightarrow> u8 \<Rightarrow> bytes \<Rightarrow> connection \<Rightarrow> frame_parse_outcome \<times> connection" where
  "handle_frame fin opcode payload conn =
     (if opcode \<ge> 0x8 then handle_control opcode payload conn
      else if opcode = 0x0
      then (case cn_fragmented_opcode conn of
              None \<Rightarrow> (protocol_error ''unexpected continuation frame'', conn)
            | Some original_opcode \<Rightarrow>
                let full = cn_fragmented_payload conn @ payload
                in if fin
                   then (complete_message full original_opcode,
                         conn\<lparr>cn_fragmented_payload := [], cn_fragmented_opcode := None\<rparr>)
                   else (MoreFragments, conn\<lparr>cn_fragmented_payload := full\<rparr>))
      else if cn_fragmented_opcode conn \<noteq> None then (protocol_error ''expected continuation frame'', conn)
      else if \<not> fin
      then (MoreFragments, conn\<lparr>cn_fragmented_opcode := Some opcode, cn_fragmented_payload := payload\<rparr>)
      else (complete_message payload opcode, conn))"

text \<open>\<open>parse_frame\<close>; \<open>None\<close> is the panic.\<close>

definition parse_frame :: "bytes \<Rightarrow> connection \<Rightarrow> (frame_parse_outcome \<times> connection) option" where
  "parse_frame buf conn =
     (case read_frame buf of
        Incomplete \<Rightarrow> Some (MoreFragments, conn\<lparr>cn_read_buf := buf\<rparr>)
      | FramePanic \<Rightarrow> None
      | FrameRead fin opcode payload rest \<Rightarrow> Some (handle_frame fin opcode payload (conn\<lparr>cn_read_buf := rest\<rparr>)))"

text \<open>The bytes that one turn of the loop of \<open>receive\<close> parses: what is buffered, or else what a read brings.\<close>

definition abnormal :: "string \<Rightarrow> close_info" where
  "abnormal reason = \<lparr>ci_code = 1006, ci_reason = reason\<rparr>"

definition next_buf :: "connection \<Rightarrow> (close_info + bytes) \<times> connection" where
  "next_buf conn =
     (if cn_read_buf conn \<noteq> [] then (Inr (cn_read_buf conn), conn\<lparr>cn_read_buf := []\<rparr>)
      else case tcp_read 65536 (cn_stream conn) of
        (ev, ts) \<Rightarrow>
          let conn' = conn\<lparr>cn_stream := ts\<rparr>
          in (case ev of
                Arrived bs \<Rightarrow> if bs = [] then (Inl (abnormal ''connection closed''), conn') else (Inr bs, conn')
              | WouldBlock \<Rightarrow>
                  (Inl (abnormal (if cn_fragmented_opcode conn \<noteq> None then ''fragmentation timed out'' else ''no data available'')),
                   conn')
              | ReadFailed e \<Rightarrow> (Inl (abnormal (''read error: '' @ e)), conn')))"

datatype 'a ran = Returned 'a | Panicked

type_synonym received = "(close_info + bytes \<times> message_type) ran"

partial_function (option) receive_loop :: "connection \<Rightarrow> (received \<times> connection) option" where
  "receive_loop conn =
     (case next_buf conn of
        (Inl ci, conn) \<Rightarrow> Some (Returned (Inl ci), conn)
      | (Inr buf, conn) \<Rightarrow>
          (case parse_frame buf conn of
             None \<Rightarrow> Some (Panicked, conn)
           | Some (outcome, conn) \<Rightarrow>
               (case outcome of
                  Message data ty \<Rightarrow> Some (Returned (Inr (data, ty)), conn)
                | MoreFragments \<Rightarrow> receive_loop conn
                | PongOutcome \<Rightarrow> receive_loop conn
                | CloseReceived ci \<Rightarrow> Some (Returned (Inl ci), conn)
                | ProtocolError ci \<Rightarrow> Some (Returned (Inl ci), conn))))"

section \<open>The upgrade handshake\<close>

fun contains_sub :: "'a list \<Rightarrow> 'a list \<Rightarrow> bool" where
  "contains_sub p [] \<longleftrightarrow> p = []"
| "contains_sub p (x # xs) \<longleftrightarrow> take (length p) (x # xs) = p \<or> contains_sub p xs"

definition CRLF :: string where
  "CRLF = [CHR 0x0D, CHR 0x0A]"

text \<open>The loop that reads the request header into a buffer of 4096 bytes.\<close>

partial_function (option) read_request :: "bytes \<Rightarrow> tcp_stream \<Rightarrow> ((string + bytes) \<times> tcp_stream) option" where
  "read_request buf ts =
     (case tcp_read (4096 - length buf) ts of
        (ev, ts) \<Rightarrow>
          (case ev of
             Arrived bs \<Rightarrow>
               if bs = [] then Some (Inr buf, ts)
               else if contains_sub (as_bytes (CRLF @ CRLF)) (buf @ bs) then Some (Inr (buf @ bs), ts)
               else if length (buf @ bs) \<ge> 4096 then Some (Inl ''request header too large'', ts)
               else read_request (buf @ bs) ts
           | WouldBlock \<Rightarrow> read_request buf ts
           | ReadFailed e \<Rightarrow> Some (Inl (''read error: '' @ e), ts)))"

text \<open>\<open>str::to_lowercase\<close>, for comparison with ASCII text: besides the ASCII letters, the characters whose lowercase
  has an ASCII character are the Kelvin sign and the capital I with a dot above.\<close>

fun to_lowercase :: "string \<Rightarrow> string" where
  "to_lowercase [] = []"
| "to_lowercase (c # s) =
     (if starts_with [CHR 0xE2, CHR 0x84, CHR 0xAA] (c # s) then CHR ''k'' # to_lowercase (drop 2 s)
      else if starts_with [CHR 0xC4, CHR 0xB0] (c # s) then CHR ''i'' # CHR 0xCC # CHR 0x87 # to_lowercase (drop 1 s)
      else ascii_lower c # to_lowercase s)"

definition eq_ignore_ascii_case :: "string \<Rightarrow> string \<Rightarrow> bool" where
  "eq_ignore_ascii_case a b \<longleftrightarrow> to_ascii_lowercase a = to_ascii_lowercase b"

record upgrade_seen =
  us_upgrade :: bool
  us_connection :: bool
  us_key :: "string option"

definition see_header :: "string \<Rightarrow> upgrade_seen \<Rightarrow> upgrade_seen" where
  "see_header hl seen =
     (case split_once (CHR '':'') hl of
        None \<Rightarrow> seen
      | Some (key, val) \<Rightarrow>
          let k = to_lowercase (trim key); v = trim val
          in if k = ''upgrade'' \<and> eq_ignore_ascii_case v ''websocket'' then seen\<lparr>us_upgrade := True\<rparr>
             else if k = ''connection'' \<and> contains_sub ''upgrade'' (to_lowercase v) then seen\<lparr>us_connection := True\<rparr>
             else if k = ''sec-websocket-key'' then seen\<lparr>us_key := Some v\<rparr>
             else seen)"

definition upgrade_key :: "bytes \<Rightarrow> string + string" where
  "upgrade_key request =
     (let lines = map strip_cr (split_lines (from_utf8_lossy request))
      in if lines = [] then Inl ''empty HTTP request''
         else
           let request_line = hd lines; parts = split_whitespace request_line
           in if length parts < 2 \<or> hd parts \<noteq> ''GET'' then Inl (''invalid request line: '' @ request_line)
              else
                let header_lines = takeWhile (\<lambda>l. l \<noteq> []) (tl lines);
                    seen = fold see_header header_lines \<lparr>us_upgrade = False, us_connection = False, us_key = None\<rparr>
                in if \<not> us_upgrade seen then Inl ''missing Upgrade: websocket header''
                   else if \<not> us_connection seen then Inl ''missing Connection: Upgrade header''
                   else (case us_key seen of
                           None \<Rightarrow> Inl ''missing Sec-WebSocket-Key header''
                         | Some key \<Rightarrow> Inr key))"

definition WS_GUID :: string where
  "WS_GUID = ''258EAFA5-E914-47DA-95CA-C5AB0DC85B11''"

record accept_hash =
  ah_sha1 :: "bytes \<Rightarrow> bytes"
  ah_base64 :: "bytes \<Rightarrow> string"

definition compute_accept_key :: "accept_hash \<Rightarrow> string \<Rightarrow> string" where
  "compute_accept_key ah key = ah_base64 ah (ah_sha1 ah (as_bytes key @ as_bytes WS_GUID))"

definition switching_protocols :: "string \<Rightarrow> string" where
  "switching_protocols accept =
     ''HTTP/1.1 101 Switching Protocols'' @ CRLF @ ''Upgrade: websocket'' @ CRLF @ ''Connection: Upgrade'' @ CRLF @
     ''Sec-WebSocket-Accept: '' @ accept @ CRLF @ CRLF"

definition perform_upgrade :: "accept_hash \<Rightarrow> tcp_stream \<Rightarrow> (string option \<times> tcp_stream) option" where
  "perform_upgrade ah ts =
     (case read_request [] ts of
        None \<Rightarrow> None
      | Some (Inl e, ts) \<Rightarrow> Some (Some e, ts)
      | Some (Inr request, ts) \<Rightarrow>
          (case upgrade_key request of
             Inl e \<Rightarrow> Some (Some e, ts)
           | Inr key \<Rightarrow>
               (case write_all (as_bytes (switching_protocols (compute_accept_key ah key))) ts of
                  (None, ts) \<Rightarrow> Some (None, ts)
                | (Some e, ts) \<Rightarrow> Some (Some (''write upgrade response: '' @ e), ts))))"

section \<open>Listeners and connections\<close>

text \<open>\<open>ws_poisoned\<close>: a thread has panicked while it held the lock of the connections; \<open>lock().unwrap()\<close> panics from
  then on.\<close>

record 'l web_socket =
  ws_next_handle :: u32
  ws_listeners :: "(u32, 'l) hashmap"
  ws_connections :: "(u32, connection) hashmap"
  ws_poisoned :: bool

definition web_socket_new :: "'l web_socket" where
  "web_socket_new = \<lparr>ws_next_handle = 1, ws_listeners = [], ws_connections = [], ws_poisoned = False\<rparr>"

definition alloc_handle :: "'l web_socket \<Rightarrow> u32 \<times> 'l web_socket" where
  "alloc_handle ws = (ws_next_handle ws, ws\<lparr>ws_next_handle := ws_next_handle ws + 1\<rparr>)"

definition listen :: "(u16 \<Rightarrow> string + 'l) \<Rightarrow> u16 \<Rightarrow> 'l web_socket \<Rightarrow> (string + u32) \<times> 'l web_socket" where
  "listen bind port ws =
     (case bind port of
        Inl e \<Rightarrow> (Inl (''failed to bind port '' @ dec (unat port) @ '': '' @ e), ws)
      | Inr l \<Rightarrow>
          (case alloc_handle ws of
             (handle, ws) \<Rightarrow> (Inr handle, ws\<lparr>ws_listeners := hm_insert handle l (ws_listeners ws)\<rparr>)))"

text \<open>What the listener does when the host accepts, and whether the two time-outs can be set.\<close>

record accept_env =
  ae_accept :: "string + tcp_stream"
  ae_read_timeout :: "string option"
  ae_write_timeout :: "string option"

definition accept_upgrade :: "accept_hash \<Rightarrow> accept_env \<Rightarrow> (string + tcp_stream) option" where
  "accept_upgrade ah env =
     (case ae_accept env of
        Inl e \<Rightarrow> Some (Inl (''accept failed: '' @ e))
      | Inr ts \<Rightarrow>
          (case ae_read_timeout env of
             Some e \<Rightarrow> Some (Inl (''set read timeout: '' @ e))
           | None \<Rightarrow>
               (case ae_write_timeout env of
                  Some e \<Rightarrow> Some (Inl (''set write timeout: '' @ e))
                | None \<Rightarrow>
                    (case perform_upgrade ah ts of
                       None \<Rightarrow> None
                     | Some (Some e, ts) \<Rightarrow> Some (Inl e)
                     | Some (None, ts) \<Rightarrow> Some (Inr ts)))))"

definition new_connection :: "tcp_stream \<Rightarrow> connection" where
  "new_connection ts =
     \<lparr>cn_stream = ts, cn_read_buf = [], cn_fragmented_payload = [], cn_fragmented_opcode = None,
      cn_close_sent = False, cn_close_received = False\<rparr>"

definition accept ::
  "accept_hash \<Rightarrow> ('l \<Rightarrow> accept_env) \<Rightarrow> u32 \<Rightarrow> 'l web_socket \<Rightarrow> ((string + u32) ran \<times> 'l web_socket) option" where
  "accept ah env listener ws =
     (case hm_get (ws_listeners ws) listener of
        None \<Rightarrow> Some (Returned (Inl ''invalid listener handle''), ws)
      | Some l \<Rightarrow>
          (case accept_upgrade ah (env l) of
             None \<Rightarrow> None
           | Some (Inl e) \<Rightarrow> Some (Returned (Inl e), ws)
           | Some (Inr ts) \<Rightarrow>
               (case alloc_handle ws of
                  (handle, ws) \<Rightarrow>
                    if ws_poisoned ws then Some (Panicked, ws)
                    else Some (Returned (Inr handle),
                               ws\<lparr>ws_connections := hm_insert handle (new_connection ts) (ws_connections ws)\<rparr>))))"

definition put_connection :: "u32 \<Rightarrow> connection \<Rightarrow> 'l web_socket \<Rightarrow> 'l web_socket" where
  "put_connection handle c ws = ws\<lparr>ws_connections := hm_insert handle c (ws_connections ws)\<rparr>"

definition send :: "u32 \<Rightarrow> bytes \<Rightarrow> message_type \<Rightarrow> 'l web_socket \<Rightarrow> string option ran \<times> 'l web_socket" where
  "send conn data kind ws =
     (if ws_poisoned ws then (Panicked, ws)
      else case hm_get (ws_connections ws) conn of
        None \<Rightarrow> (Returned (Some ''invalid connection handle''), ws)
      | Some c \<Rightarrow>
          if cn_close_sent c then (Returned (Some ''connection already closed''), ws)
          else
            let c = (if kind = Close then c\<lparr>cn_close_sent := True\<rparr> else c)
            in (case write_all (encode_frame data kind False) (cn_stream c) of
                  (r, ts) \<Rightarrow>
                    (Returned (map_option (\<lambda>e. ''send failed: '' @ e) r), put_connection conn (c\<lparr>cn_stream := ts\<rparr>) ws)))"

definition receive :: "u32 \<Rightarrow> 'l web_socket \<Rightarrow> (received \<times> 'l web_socket) option" where
  "receive conn ws =
     (if ws_poisoned ws then Some (Panicked, ws)
      else case hm_get (ws_connections ws) conn of
        None \<Rightarrow> Some (Returned (Inl \<lparr>ci_code = 1005, ci_reason = ''invalid connection handle''\<rparr>), ws)
      | Some c \<Rightarrow>
          if cn_close_received c
          then Some (Returned (Inl \<lparr>ci_code = 1005, ci_reason = ''connection already closed''\<rparr>), ws)
          else (case receive_loop c of
                  None \<Rightarrow> None
                | Some (r, c) \<Rightarrow>
                    Some (r, (put_connection conn c ws)\<lparr>ws_poisoned := (r = Panicked)\<rparr>)))"

definition close :: "u32 \<Rightarrow> close_info \<Rightarrow> 'l web_socket \<Rightarrow> string option ran \<times> tcp_stream option \<times> 'l web_socket" where
  "close conn_handle info ws =
     (if ws_poisoned ws then (Panicked, None, ws)
      else case hm_get (ws_connections ws) conn_handle of
        None \<Rightarrow> (Returned (Some ''invalid connection handle''), None, ws)
      | Some entry \<Rightarrow>
          let payload = be_bytes 2 (unat (ci_code info)) @ as_bytes (ci_reason info);
              ts = (if cn_close_sent entry then cn_stream entry
                    else snd (write_all (encode_frame payload Close False) (cn_stream entry)))
          in (Returned None, Some ts, ws\<lparr>ws_connections := hm_remove conn_handle (ws_connections ws)\<rparr>))"

section \<open>Frames on the wire\<close>

lemma and_7F: "unat (x AND 0x7F :: u8) = unat x mod 128"
proof -
  have "x AND 0x7F = take_bit 7 x" by (simp add: take_bit_eq_mask mask_eq_exp_minus_1)
  then show ?thesis by (simp only: unsigned_take_bit_eq) (simp add: take_bit_eq_mod)
qed

lemma and_0F: "unat (x AND 0x0F :: u8) = unat x mod 16"
proof -
  have "x AND 0x0F = take_bit 4 x" by (simp add: take_bit_eq_mask mask_eq_exp_minus_1)
  then show ?thesis by (simp only: unsigned_take_bit_eq) (simp add: take_bit_eq_mod)
qed

lemma and_80: "(x AND 0x80 :: u8) \<noteq> 0 \<longleftrightarrow> 128 \<le> unat x"
proof -
  have "x AND 0x80 = 0 \<longleftrightarrow> \<not> bit x 7" using and_exp_eq_0_iff_not_bit [of x 7] by simp
  moreover have "bit x 7 \<longleftrightarrow> bit (unat x) 7" by (simp add: bit_unsigned_iff)
  moreover have "bit (unat x) 7 \<longleftrightarrow> odd (unat x div 128)" by (simp add: bit_iff_odd)
  moreover have "unat x div 128 = (if 128 \<le> unat x then 1 else 0)"
    using byte_lt [of x] by (simp add: div_nat_eqI)
  ultimately show ?thesis by simp
qed


text \<open>A frame as RFC 6455 lays it out, with the shortest form of its length. A client masks the payload.\<close>

record ws_frame =
  wf_fin :: bool
  wf_opcode :: u8
  wf_mask :: "bytes option"
  wf_payload :: bytes

definition frame_ok :: "ws_frame \<Rightarrow> bool" where
  "frame_ok f \<longleftrightarrow> wf_opcode f < 16 \<and> (\<forall>k. wf_mask f = Some k \<longrightarrow> length k = 4) \<and> length (wf_payload f) + 14 < 2 ^ 64"

definition wire_mask :: "ws_frame \<Rightarrow> nat" where
  "wire_mask f = (if wf_mask f = None then 0 else 128)"

definition wire_length :: "ws_frame \<Rightarrow> bytes" where
  "wire_length f =
     (let len = length (wf_payload f)
      in if len < 126 then [of_nat (wire_mask f + len)]
         else if len \<le> 65535 then of_nat (wire_mask f + 126) # be_bytes 2 len
         else of_nat (wire_mask f + 127) # be_bytes 8 len)"

definition wire :: "ws_frame \<Rightarrow> bytes" where
  "wire f =
     [of_nat ((if wf_fin f then 128 else 0) + unat (wf_opcode f))] @ wire_length f @
     (case wf_mask f of None \<Rightarrow> [] | Some k \<Rightarrow> k) @ unmask (wf_mask f) (wf_payload f)"

lemma length_unmask [simp]: "length (unmask k p) = length p"
  by (simp add: unmask_def split: option.split)

lemma unmask_unmask [simp]: "unmask k (unmask k p) = p"
proof (cases k)
  case (Some key)
  have "unmask k (unmask k p) ! i = p ! i" if "i < length p" for i
    using that by (simp add: unmask_def Some nth_enumerate_eq xor.assoc)
  then show ?thesis by (intro nth_equalityI) simp_all
qed (simp add: unmask_def)

lemma first_byte:
  assumes "wf_opcode f < 16"
  defines "b \<equiv> of_nat ((if wf_fin f then 128 else 0) + unat (wf_opcode f)) :: u8"
  shows "b AND 0x80 \<noteq> 0 \<longleftrightarrow> wf_fin f" and "b AND 0x0F = wf_opcode f"
proof -
  have o: "unat (wf_opcode f) < 16" using assms(1) by (simp add: word_less_nat_alt)
  then have u: "unat b = (if wf_fin f then 128 else 0) + unat (wf_opcode f)"
    unfolding b_def unat_of_nat by simp
  then show "b AND 0x80 \<noteq> 0 \<longleftrightarrow> wf_fin f" unfolding and_80 using o by simp
  have "unat (b AND 0x0F) = unat (wf_opcode f)" unfolding and_0F u using o by (simp split: if_split) presburger
  then show "b AND 0x0F = wf_opcode f" by (simp add: word_unat_eq_iff)
qed

lemma second_byte:
  fixes f :: ws_frame
  assumes "n < 128"
  defines "b \<equiv> of_nat (wire_mask f + n) :: u8"
  shows "b AND 0x80 \<noteq> 0 \<longleftrightarrow> wf_mask f \<noteq> None" and "unat (b AND 0x7F) = n"
proof -
  have u: "unat b = wire_mask f + n" unfolding b_def unat_of_nat using assms(1) by (simp add: wire_mask_def)
  then show "b AND 0x80 \<noteq> 0 \<longleftrightarrow> wf_mask f \<noteq> None" unfolding and_80 using assms(1) by (simp add: wire_mask_def)
  show "unat (b AND 0x7F) = n" unfolding and_7F u using assms(1) by (simp add: wire_mask_def)
qed

lemma wire_length_read:
  assumes "frame_ok f"
  shows "payload_len (x # wire_length f @ rest) = Some (length (wf_payload f), 1 + length (wire_length f))"
    and "(x # wire_length f @ rest) ! 1 AND 0x80 \<noteq> 0 \<longleftrightarrow> wf_mask f \<noteq> None"
proof -
  let ?n = "length (wf_payload f)"
  have n: "?n < 18446744073709551616" using assms by (simp add: frame_ok_def)
  consider "?n < 126" | "126 \<le> ?n" "?n \<le> 65535" | "65535 < ?n" by linarith
  then have "payload_len (x # wire_length f @ rest) = Some (?n, 1 + length (wire_length f)) \<and>
    ((x # wire_length f @ rest) ! 1 AND 0x80 \<noteq> 0 \<longleftrightarrow> wf_mask f \<noteq> None)"
  proof cases
    case 1
    then show ?thesis using second_byte [of ?n f] by (simp add: wire_length_def payload_len_def)
  next
    case 2
    then show ?thesis
      using second_byte [of 126 f] by (simp add: wire_length_def payload_len_def from_be_bytes_of)
  next
    case 3
    then show ?thesis
      using second_byte [of 127 f] n by (simp add: wire_length_def payload_len_def from_be_bytes_of)
  qed
  then show "payload_len (x # wire_length f @ rest) = Some (?n, 1 + length (wire_length f))"
    "(x # wire_length f @ rest) ! 1 AND 0x80 \<noteq> 0 \<longleftrightarrow> wf_mask f \<noteq> None"
    by blast+
qed

lemma wire_length_bound: "1 \<le> length (wire_length f) \<and> length (wire_length f) \<le> 9"
  by (simp add: wire_length_def Let_def)

lemma read_frame_wire:
  assumes "frame_ok f"
  shows "read_frame (wire f @ rest) = FrameRead (wf_fin f) (wf_opcode f) (wf_payload f) rest"
proof -
  let ?b0 = "of_nat ((if wf_fin f then 128 else 0) + unat (wf_opcode f)) :: u8"
  let ?key = "case wf_mask f of None \<Rightarrow> [] | Some k \<Rightarrow> k"
  let ?m = "?key @ unmask (wf_mask f) (wf_payload f) @ rest"
  have w: "wire f @ rest = ?b0 # wire_length f @ ?m" by (simp add: wire_def)
  note r = wire_length_read [OF assms, of ?b0 ?m] and b = wire_length_bound [of f]
  have o: "wf_opcode f < 16" and k: "\<And>k. wf_mask f = Some k \<Longrightarrow> length k = 4"
    and n: "length (wf_payload f) + 14 < 2 ^ 64" using assms by (auto simp: frame_ok_def)
  have len: "\<not> length (?b0 # wire_length f @ ?m) < 2" using b by (cases "wire_length f") auto
  show ?thesis
    unfolding w read_frame_def if_not_P [OF len] Let_def r(1) r(2) nth_Cons_0 first_byte [OF o]
    using k n b by (cases "wf_mask f") (simp_all add: not_le drop_Cons')
qed

lemma payload_len_append: "2 \<le> length p \<Longrightarrow> payload_len p = Some x \<Longrightarrow> payload_len (p @ q) = Some x"
  by (auto simp: payload_len_def Let_def nth_append split: if_splits)

lemma payload_len_offset: "payload_len p = Some (n, off) \<Longrightarrow> 2 \<le> length p \<Longrightarrow> off \<le> length p"
  by (auto simp: payload_len_def Let_def split: if_splits)

lemma read_frame_append:
  assumes "read_frame p \<noteq> Incomplete"
  shows "read_frame (p @ q) = (case read_frame p of FrameRead fin op d r \<Rightarrow> FrameRead fin op d (r @ q) | x \<Rightarrow> x)"
proof -
  have p: "2 \<le> length p" using assms by (auto simp: read_frame_def split: if_splits)
  with assms obtain n off where l: "payload_len p = Some (n, off)"
    by (auto simp: read_frame_def Let_def split: option.splits if_splits)
  have b: "(p @ q) ! 0 = p ! 0" "(p @ q) ! 1 = p ! 1" using p by (cases p; auto simp: nth_append)+
  have n: "\<not> length p < 2" "\<not> length (p @ q) < 2" using p by simp_all
  show ?thesis
    using assms payload_len_offset [OF l p]
    unfolding read_frame_def n if_False Let_def b l payload_len_append [OF p l] option.case prod.case
    by (auto split: if_splits)
qed

lemma strict_prefix_incomplete:
  assumes "frame_ok f" and "wire f = p @ q" and "q \<noteq> []"
  shows "read_frame p = Incomplete"
proof (rule ccontr)
  assume "read_frame p \<noteq> Incomplete"
  from read_frame_append [OF this, of q] read_frame_wire [OF assms(1), of "[]"] assms(2, 3) show False
    by (simp split: frame_read.splits)
qed

section \<open>What is received\<close>

text \<open>The turns of the loop without the reads: \<open>arriving c fs s\<close> says that the buffer and the reads to come hold exactly
  the frames \<open>fs\<close>, every read a number of whole frames, and that the peer then goes on with \<open>s\<close>.\<close>

definition chunk_ok :: "ws_frame list \<Rightarrow> bool" where
  "chunk_ok ch \<longleftrightarrow> ch \<noteq> [] \<and> length (concat (map wire ch)) \<le> 65536"

definition arrivals :: "ws_frame list list \<Rightarrow> read_event list" where
  "arrivals chunks = map (\<lambda>ch. Arrived (concat (map wire ch))) chunks"

definition arriving :: "connection \<Rightarrow> ws_frame list \<Rightarrow> read_event stream \<Rightarrow> bool" where
  "arriving c fs s \<longleftrightarrow>
     (\<exists>now chunks. cn_read_buf c = concat (map wire now) \<and> ts_in (cn_stream c) = arrivals chunks @- s \<and>
        fs = now @ concat chunks \<and> list_all chunk_ok chunks)"

definition core :: "connection \<Rightarrow> connection" where
  "core c = c\<lparr>cn_read_buf := [], cn_stream := (cn_stream c)\<lparr>ts_in := sconst WouldBlock\<rparr>\<rparr>"

definition resume :: "frame_parse_outcome \<times> connection \<Rightarrow> (received \<times> connection) option" where
  "resume = (\<lambda>(outcome, conn).
     case outcome of
       Message data ty \<Rightarrow> Some (Returned (Inr (data, ty)), conn)
     | MoreFragments \<Rightarrow> receive_loop conn
     | PongOutcome \<Rightarrow> receive_loop conn
     | CloseReceived ci \<Rightarrow> Some (Returned (Inl ci), conn)
     | ProtocolError ci \<Rightarrow> Some (Returned (Inl ci), conn))"

lemma receive_loop_turn:
  "receive_loop conn =
     (case next_buf conn of
        (Inl ci, conn) \<Rightarrow> Some (Returned (Inl ci), conn)
      | (Inr buf, conn) \<Rightarrow> (case parse_frame buf conn of None \<Rightarrow> Some (Panicked, conn) | Some r \<Rightarrow> resume r))"
  by (subst receive_loop.simps) (simp add: resume_def split: prod.split sum.split option.split)

lemma wire_nonempty [simp]: "wire f \<noteq> []"
  by (simp add: wire_def)

lemma arriving_next:
  assumes "arriving c (f # fs) s"
  obtains rest c' where "next_buf c = (Inr (wire f @ rest), c')" and "arriving (c'\<lparr>cn_read_buf := rest\<rparr>) fs s"
    and "core (c'\<lparr>cn_read_buf := rest\<rparr>) = core c"
proof -
  obtain now chunks where c: "cn_read_buf c = concat (map wire now)" "ts_in (cn_stream c) = arrivals chunks @- s"
    "f # fs = now @ concat chunks" "list_all chunk_ok chunks"
    using assms by (auto simp: arriving_def)
  show thesis
  proof (cases now)
    case (Cons g gs)
    then have "next_buf c = (Inr (wire f @ concat (map wire gs)), c\<lparr>cn_read_buf := []\<rparr>)"
      using c(1, 3) by (simp add: next_buf_def)
    moreover have "arriving (c\<lparr>cn_read_buf := concat (map wire gs)\<rparr>) fs s"
      using c Cons by (auto simp: arriving_def)
    ultimately show ?thesis by (intro that [of _ "c\<lparr>cn_read_buf := []\<rparr>"]) (simp_all add: core_def)
  next
    case Nil
    with c(3) obtain ch chs where ch: "chunks = ch # chs" by (cases chunks) auto
    with c(4) have "chunk_ok ch" by simp
    with Nil c(3) ch obtain gs where g: "ch = f # gs" "fs = gs @ concat chs" by (cases ch) (auto simp: chunk_ok_def)
    let ?c' = "c\<lparr>cn_stream := (cn_stream c)\<lparr>ts_in := arrivals chs @- s\<rparr>\<rparr>"
    have "tcp_read 65536 (cn_stream c) = (Arrived (concat (map wire ch)), (cn_stream c)\<lparr>ts_in := arrivals chs @- s\<rparr>)"
      using c(2) \<open>chunk_ok ch\<close> by (simp add: tcp_read_def arrivals_def ch chunk_ok_def)
    then have "next_buf c = (Inr (wire f @ concat (map wire gs)), ?c')"
      using c(1) Nil g(1) by (simp add: next_buf_def)
    moreover have "arriving (?c'\<lparr>cn_read_buf := concat (map wire gs)\<rparr>) fs s"
      using c(4) ch g by (auto simp: arriving_def)
    ultimately show ?thesis by (intro that [of _ ?c']) (simp_all add: core_def)
  qed
qed

lemma arriving_turn:
  assumes "arriving c (f # fs) s" and "frame_ok f"
  obtains c1 where "receive_loop c = resume (handle_frame (wf_fin f) (wf_opcode f) (wf_payload f) c1)"
    and "arriving c1 fs s" and "core c1 = core c"
proof -
  obtain rest c' where n: "next_buf c = (Inr (wire f @ rest), c')"
    "arriving (c'\<lparr>cn_read_buf := rest\<rparr>) fs s" "core (c'\<lparr>cn_read_buf := rest\<rparr>) = core c"
    using arriving_next [OF assms(1)] by blast
  then have "receive_loop c = resume (handle_frame (wf_fin f) (wf_opcode f) (wf_payload f) (c'\<lparr>cn_read_buf := rest\<rparr>))"
    by (subst receive_loop_turn) (simp add: parse_frame_def read_frame_wire [OF assms(2)])
  with n(2, 3) show thesis using that by blast
qed

lemma arriving_cong:
  "cn_read_buf c' = cn_read_buf c \<Longrightarrow> ts_in (cn_stream c') = ts_in (cn_stream c) \<Longrightarrow> arriving c' fs s = arriving c fs s"
  by (simp add: arriving_def)

lemma arriving_done: "arriving c [] s \<Longrightarrow> cn_read_buf c = [] \<and> ts_in (cn_stream c) = s"
  by (auto simp: arriving_def arrivals_def list_all_iff chunk_ok_def)

lemma core_eqD: "core c1 = core c \<Longrightarrow>
    cn_fragmented_opcode c1 = cn_fragmented_opcode c \<and> cn_fragmented_payload c1 = cn_fragmented_payload c \<and>
    ts_out (cn_stream c1) = ts_out (cn_stream c) \<and> ts_faults (cn_stream c1) = ts_faults (cn_stream c) \<and>
    cn_close_sent c1 = cn_close_sent c \<and> cn_close_received c1 = cn_close_received c"
  by (cases c; cases c1; cases "cn_stream c"; cases "cn_stream c1") (auto simp: core_def)

text \<open>A message as a client sends it: in one or more parts, with pings and pongs before each part.\<close>

datatype interlude = PingFrame "bytes option" bytes | PongFrame "bytes option" bytes

type_synonym part = "interlude list \<times> bytes option \<times> bytes"

fun interlude_frame :: "interlude \<Rightarrow> ws_frame" where
  "interlude_frame (PingFrame k p) = \<lparr>wf_fin = True, wf_opcode = 0x9, wf_mask = k, wf_payload = p\<rparr>"
| "interlude_frame (PongFrame k p) = \<lparr>wf_fin = True, wf_opcode = 0xA, wf_mask = k, wf_payload = p\<rparr>"

fun pings_in :: "interlude list \<Rightarrow> bytes list" where
  "pings_in [] = []"
| "pings_in (PingFrame k p # is) = p # pings_in is"
| "pings_in (PongFrame k p # is) = pings_in is"

fun part_frames :: "u8 \<Rightarrow> part list \<Rightarrow> ws_frame list" where
  "part_frames op [] = []"
| "part_frames op ((is, k, p) # ps) =
     map interlude_frame is @ \<lparr>wf_fin = (ps = []), wf_opcode = op, wf_mask = k, wf_payload = p\<rparr> # part_frames 0 ps"

record client_message =
  cm_kind :: message_type
  cm_parts :: "part list"

definition message_frames :: "client_message \<Rightarrow> ws_frame list" where
  "message_frames m = part_frames (opcode_for (cm_kind m)) (cm_parts m)"

definition parts_payload :: "part list \<Rightarrow> bytes" where
  "parts_payload ps = concat (map (\<lambda>(_, _, p). p) ps)"

definition parts_pings :: "part list \<Rightarrow> bytes list" where
  "parts_pings ps = concat (map (\<lambda>(is, _, _). pings_in is) ps)"

definition message_ok :: "client_message \<Rightarrow> bool" where
  "message_ok m \<longleftrightarrow> cm_kind m \<in> {Text, Binary} \<and> cm_parts m \<noteq> [] \<and> list_all frame_ok (message_frames m)"

definition reply :: "bytes \<Rightarrow> connection \<Rightarrow> connection" where
  "reply bs c = c\<lparr>cn_stream := snd (write_all bs (cn_stream c))\<rparr>"

definition answered :: "bytes list \<Rightarrow> connection \<Rightarrow> connection" where
  "answered ps c = fold (\<lambda>p. reply (encode_frame p Pong False)) ps c"

lemma reply_simps [simp]:
  "cn_read_buf (reply bs c) = cn_read_buf c" "ts_in (cn_stream (reply bs c)) = ts_in (cn_stream c)"
  "cn_fragmented_opcode (reply bs c) = cn_fragmented_opcode c"
  "cn_fragmented_payload (reply bs c) = cn_fragmented_payload c"
  "cn_close_sent (reply bs c) = cn_close_sent c" "cn_close_received (reply bs c) = cn_close_received c"
  by (simp_all add: reply_def write_all_def split: option.split)

lemma answered_simps [simp]:
  "cn_read_buf (answered ps c) = cn_read_buf c" "ts_in (cn_stream (answered ps c)) = ts_in (cn_stream c)"
  "cn_fragmented_opcode (answered ps c) = cn_fragmented_opcode c"
  "cn_fragmented_payload (answered ps c) = cn_fragmented_payload c"
  "cn_close_sent (answered ps c) = cn_close_sent c" "cn_close_received (answered ps c) = cn_close_received c"
  by (induction ps arbitrary: c) (simp_all add: answered_def)

lemma core_reply: "core (reply bs c) = reply bs (core c)"
  by (simp add: core_def reply_def write_all_def split: option.split)

lemma core_answered: "core (answered ps c) = answered ps (core c)"
  by (induction ps arbitrary: c) (simp_all add: answered_def core_reply)

lemma answered_append: "answered (ps @ qs) c = answered qs (answered ps c)"
  by (simp add: answered_def)

lemma interludes_turn:
  assumes "arriving c (map interlude_frame is @ fs) s" and "list_all frame_ok (map interlude_frame is)"
  obtains c1 where "receive_loop c = receive_loop c1" and "arriving c1 fs s"
    and "core c1 = answered (pings_in is) (core c)"
  using assms
proof (induction "is" arbitrary: c thesis)
  case Nil
  then show ?case by (simp add: answered_def)
next
  case (Cons i "is")
  from Cons.prems(2, 3) obtain c1 where c1: "receive_loop c =
      resume (handle_frame (wf_fin (interlude_frame i)) (wf_opcode (interlude_frame i)) (wf_payload (interlude_frame i)) c1)"
    "arriving c1 (map interlude_frame is @ fs) s" "core c1 = core c"
    using arriving_turn [of c "interlude_frame i"] by auto
  let ?c2 = "case i of PingFrame k p \<Rightarrow> reply (encode_frame p Pong False) c1 | PongFrame k p \<Rightarrow> c1"
  have r: "receive_loop c = receive_loop ?c2"
    using c1(1) by (cases i) (simp_all add: handle_frame_def handle_control_def resume_def reply_def)
  have a: "arriving ?c2 (map interlude_frame is @ fs) s"
    using c1(2) by (cases i) (simp_all add: arriving_cong [of "reply _ c1" c1])
  have p: "answered (pings_in is) (core ?c2) = answered (pings_in (i # is)) (core c)"
    using c1(3) by (cases i) (simp_all add: answered_def core_reply)
  show ?case
  proof (rule Cons.IH [OF _ a])
    show "list_all frame_ok (map interlude_frame is)" using Cons.prems(3) by simp
    show "receive_loop ?c2 = receive_loop c3 \<Longrightarrow> arriving c3 fs s \<Longrightarrow> core c3 = answered (pings_in is) (core ?c2) \<Longrightarrow> thesis"
      for c3 using Cons.prems(1) r p by simp
  qed
qed


lemma part_turn:
  assumes "arriving c (map interlude_frame is @ f # fs) s" and "list_all frame_ok (map interlude_frame is @ [f])"
  obtains c1 where "receive_loop c = resume (handle_frame (wf_fin f) (wf_opcode f) (wf_payload f) c1)"
    and "arriving c1 fs s" and "core c1 = answered (pings_in is) (core c)"
    and "cn_fragmented_opcode c1 = cn_fragmented_opcode c" and "cn_fragmented_payload c1 = cn_fragmented_payload c"
proof -
  obtain c0 where c0: "receive_loop c = receive_loop c0" "arriving c0 (f # fs) s" "core c0 = answered (pings_in is) (core c)"
    using interludes_turn [OF assms(1)] assms(2) by auto
  with assms(2) obtain c1 where c1: "receive_loop c = resume (handle_frame (wf_fin f) (wf_opcode f) (wf_payload f) c1)"
    "arriving c1 fs s" "core c1 = answered (pings_in is) (core c)"
    using arriving_turn [OF c0(2)] by auto
  with core_eqD [of c1 "answered (pings_in is) c"] show thesis using that by (simp add: core_answered)
qed

lemma complete_kind: "ty \<in> {Text, Binary} \<Longrightarrow> complete_message d (opcode_for ty) = Message d ty"
  by (auto simp: complete_message_def message_type_from_opcode_def)

definition unfragmented :: "connection \<Rightarrow> connection" where
  "unfragmented c = c\<lparr>cn_fragmented_payload := [], cn_fragmented_opcode := None\<rparr>"

lemma core_unfragmented:
  "core (unfragmented c) = unfragmented (core c)"
  "unfragmented (core (c\<lparr>cn_fragmented_payload := d\<rparr>)) = unfragmented (core c)"
  "unfragmented (core (c\<lparr>cn_fragmented_opcode := op\<rparr>)) = unfragmented (core c)"
  by (simp_all add: core_def unfragmented_def)

lemma answered_unfragmented: "answered ps (unfragmented c) = unfragmented (answered ps c)"
proof -
  have "reply bs (unfragmented c) = unfragmented (reply bs c)" for bs c
    by (simp add: reply_def unfragmented_def)
  then show ?thesis by (induction ps arbitrary: c) (simp_all add: answered_def)
qed

lemma later_parts:
  assumes "arriving c (part_frames 0 ps @ fs) s" and "list_all frame_ok (part_frames 0 ps)" and "ps \<noteq> []"
    and "ty \<in> {Text, Binary}" and "cn_fragmented_opcode c = Some (opcode_for ty)"
  obtains c1 where "receive_loop c = Some (Returned (Inr (cn_fragmented_payload c @ parts_payload ps, ty)), c1)"
    and "arriving c1 fs s" and "core c1 = answered (parts_pings ps) (unfragmented (core c))"
  using assms
proof (induction ps arbitrary: c thesis)
  case (Cons pt ps)
  obtain "is" k p where pt: "pt = (is, k, p)" by (cases pt)
  obtain c2 where c2: "receive_loop c = resume (handle_frame (ps = []) 0 p c2)"
    "arriving c2 (part_frames 0 ps @ fs) s" "core c2 = answered (pings_in is) (core c)"
    "cn_fragmented_opcode c2 = Some (opcode_for ty)" "cn_fragmented_payload c2 = cn_fragmented_payload c"
    using part_turn [of c "is" "\<lparr>wf_fin = (ps = []), wf_opcode = 0, wf_mask = k, wf_payload = p\<rparr>" "part_frames 0 ps @ fs" s]
      Cons.prems(2, 3, 6) pt by auto
  have u: "unfragmented (core c2) = answered (pings_in is) (unfragmented (core c))"
    by (simp add: c2(3) answered_unfragmented)
  show ?case
  proof (cases "ps = []")
    case True
    have "receive_loop c = Some (Returned (Inr (cn_fragmented_payload c @ p, ty)), unfragmented c2)"
      using c2 True complete_kind [OF Cons.prems(5)] by (simp add: handle_frame_def resume_def unfragmented_def)
    moreover have "arriving (unfragmented c2) fs s" using c2(2) True by (simp add: arriving_def unfragmented_def)
    ultimately show ?thesis
      using Cons.prems(1) u True by (simp add: pt parts_payload_def parts_pings_def core_unfragmented)
  next
    case False
    let ?c3 = "c2\<lparr>cn_fragmented_payload := cn_fragmented_payload c @ p\<rparr>"
    have r: "receive_loop c = receive_loop ?c3"
      using c2 False by (simp add: handle_frame_def resume_def)
    have a: "arriving ?c3 (part_frames 0 ps @ fs) s" using c2(2) by (simp add: arriving_def)
    have o: "list_all frame_ok (part_frames 0 ps)" using Cons.prems(3) pt by simp
    show ?thesis
    proof (rule Cons.IH [OF _ a o False Cons.prems(5)])
      show "cn_fragmented_opcode ?c3 = Some (opcode_for ty)" using c2(4) by simp
    next
      fix c4
      assume "receive_loop ?c3 = Some (Returned (Inr (cn_fragmented_payload ?c3 @ parts_payload ps, ty)), c4)"
        and "arriving c4 fs s" and "core c4 = answered (parts_pings ps) (unfragmented (core ?c3))"
      then show thesis
        using Cons.prems(1) r u by (simp add: pt parts_payload_def parts_pings_def core_unfragmented answered_append)
    qed
  qed
qed simp

lemma message_turn:
  assumes "arriving c (message_frames m @ fs) s" and "message_ok m" and "cn_fragmented_opcode c = None"
  obtains c1 where "receive_loop c = Some (Returned (Inr (parts_payload (cm_parts m), cm_kind m)), c1)"
    and "arriving c1 fs s" and "unfragmented (core c1) = answered (parts_pings (cm_parts m)) (unfragmented (core c))"
    and "cn_fragmented_opcode c1 = None"
proof -
  obtain "is" k p ps where ps: "cm_parts m = (is, k, p) # ps" using assms(2) by (cases "cm_parts m") (auto simp: message_ok_def)
  let ?op = "opcode_for (cm_kind m)"
  have ty: "cm_kind m \<in> {Text, Binary}" using assms(2) by (simp add: message_ok_def)
  then have op: "?op \<noteq> 0" "\<not> 8 \<le> ?op" by (auto simp: word_le_nat_alt)
  have ok: "list_all frame_ok (part_frames ?op ((is, k, p) # ps))"
    using assms(2) ps by (simp add: message_ok_def message_frames_def)
  obtain c2 where c2: "receive_loop c = resume (handle_frame (ps = []) ?op p c2)"
    "arriving c2 (part_frames 0 ps @ fs) s" "core c2 = answered (pings_in is) (core c)" "cn_fragmented_opcode c2 = None"
    using part_turn [of c "is" "\<lparr>wf_fin = (ps = []), wf_opcode = ?op, wf_mask = k, wf_payload = p\<rparr>" "part_frames 0 ps @ fs" s]
      assms(1, 3) ok ps by (auto simp: message_frames_def)
  have u: "unfragmented (core c2) = answered (pings_in is) (unfragmented (core c))"
    by (simp add: c2(3) answered_unfragmented)
  show thesis
  proof (cases "ps = []")
    case True
    then show ?thesis using that [of c2] c2 op u complete_kind [OF ty]
      by (simp add: ps handle_frame_def resume_def parts_payload_def parts_pings_def)
  next
    case False
    let ?c3 = "c2\<lparr>cn_fragmented_opcode := Some ?op, cn_fragmented_payload := p\<rparr>"
    have r: "receive_loop c = receive_loop ?c3" using c2 op False by (simp add: handle_frame_def resume_def)
    have a: "arriving ?c3 (part_frames 0 ps @ fs) s" using c2(2) by (simp add: arriving_def)
    obtain c4 where c4: "receive_loop ?c3 = Some (Returned (Inr (p @ parts_payload ps, cm_kind m)), c4)"
      "arriving c4 fs s" "core c4 = answered (parts_pings ps) (unfragmented (core ?c3))"
      using later_parts [OF a _ False ty] ok by auto
    moreover have "unfragmented (core c4) = core c4"
      by (simp add: c4(3) flip: answered_unfragmented) (simp add: unfragmented_def)
    moreover have "cn_fragmented_opcode (core c4) = None" by (simp add: c4(3)) (simp add: unfragmented_def)
    then have "cn_fragmented_opcode c4 = None" by (simp add: core_def)
    ultimately show ?thesis using that [of c4] r u
      by (simp add: ps parts_payload_def parts_pings_def core_unfragmented answered_append)
  qed
qed


fun receives :: "nat \<Rightarrow> u32 \<Rightarrow> 'l web_socket \<Rightarrow> (received list \<times> 'l web_socket) option" where
  "receives 0 h ws = Some ([], ws)"
| "receives (Suc n) h ws =
     (case receive h ws of
        None \<Rightarrow> None
      | Some (r, ws) \<Rightarrow> (case receives n h ws of None \<Rightarrow> None | Some (rs, ws) \<Rightarrow> Some (r # rs, ws)))"

definition idle_on :: "u32 \<Rightarrow> 'l web_socket \<Rightarrow> connection \<Rightarrow> bool" where
  "idle_on h ws c \<longleftrightarrow>
     \<not> ws_poisoned ws \<and> hm_get (ws_connections ws) h = Some c \<and> cn_fragmented_opcode c = None \<and> \<not> cn_close_received c"

definition pings_of :: "client_message list \<Rightarrow> bytes list" where
  "pings_of ms = concat (map (parts_pings \<circ> cm_parts) ms)"

definition delivery :: "client_message \<Rightarrow> received" where
  "delivery m = Returned (Inr (parts_payload (cm_parts m), cm_kind m))"

lemma receives_messages:
  assumes "list_all message_ok ms" and "idle_on h ws c" and "arriving c (concat (map message_frames ms)) s"
  shows "\<exists>ws' c'. receives (length ms) h ws = Some (map delivery ms, ws') \<and> idle_on h ws' c' \<and> arriving c' [] s \<and>
    unfragmented (core c') = answered (pings_of ms) (unfragmented (core c)) \<and>
    (\<forall>h'. h' \<noteq> h \<longrightarrow> hm_get (ws_connections ws') h' = hm_get (ws_connections ws) h')"
  using assms
proof (induction ms arbitrary: ws c)
  case Nil
  then show ?case by (auto simp: pings_of_def answered_def)
next
  case (Cons m ms)
  obtain c1 where c1: "receive_loop c = Some (delivery m, c1)" "arriving c1 (concat (map message_frames ms)) s"
    "unfragmented (core c1) = answered (parts_pings (cm_parts m)) (unfragmented (core c))" "cn_fragmented_opcode c1 = None"
    using message_turn [of c m "concat (map message_frames ms)" s] Cons.prems by (auto simp: idle_on_def delivery_def)
  have "cn_close_received (unfragmented (core c1)) = cn_close_received c"
    by (simp add: c1(3)) (simp add: unfragmented_def core_def)
  then have cr: "\<not> cn_close_received c1" using Cons.prems(2) by (simp add: unfragmented_def core_def idle_on_def)
  let ?ws = "put_connection h c1 ws\<lparr>ws_poisoned := False\<rparr>"
  have r: "receive h ws = Some (delivery m, ?ws)"
    using Cons.prems(2) c1(1) by (simp add: receive_def idle_on_def delivery_def)
  have "idle_on h ?ws c1" using c1(4) cr by (simp add: idle_on_def put_connection_def)
  from Cons.IH [OF _ this c1(2)] Cons.prems(1) obtain ws' c' where
    "receives (length ms) h ?ws = Some (map delivery ms, ws')" "idle_on h ws' c'" "arriving c' [] s"
    "unfragmented (core c') = answered (pings_of ms) (unfragmented (core c1))"
    "\<forall>h'. h' \<noteq> h \<longrightarrow> hm_get (ws_connections ws') h' = hm_get (ws_connections ?ws) h'"
    by auto
  then show ?case
    using r c1(3) by (intro exI [of _ ws'] exI [of _ c']) (simp add: pings_of_def answered_append put_connection_def)
qed

lemma receives_whole_frames:
  assumes "list_all message_ok ms" and "list_all chunk_ok chunks" and "concat chunks = concat (map message_frames ms)"
    and "idle_on h ws c" and "cn_read_buf c = []" and "ts_in (cn_stream c) = arrivals chunks @- s"
  shows "\<exists>ws' c'. receives (length ms) h ws = Some (map delivery ms, ws') \<and> idle_on h ws' c' \<and> cn_read_buf c' = [] \<and>
    cn_stream c' = (cn_stream (answered (pings_of ms) c))\<lparr>ts_in := s\<rparr> \<and>
    (\<forall>h'. h' \<noteq> h \<longrightarrow> hm_get (ws_connections ws') h' = hm_get (ws_connections ws) h')"
proof -
  have "arriving c (concat (map message_frames ms)) s"
    unfolding arriving_def using assms(2, 3, 5, 6) by (intro exI [of _ "[]"] exI [of _ chunks]) simp
  from receives_messages [OF assms(1, 4) this] obtain ws' c' where
    r: "receives (length ms) h ws = Some (map delivery ms, ws')" "idle_on h ws' c'" "arriving c' [] s"
    "unfragmented (core c') = answered (pings_of ms) (unfragmented (core c))"
    "\<forall>h'. h' \<noteq> h \<longrightarrow> hm_get (ws_connections ws') h' = hm_get (ws_connections ws) h'"
    by blast
  have "core (unfragmented c') = core (unfragmented (answered (pings_of ms) c))"
    using r(4) by (simp add: core_unfragmented(1) core_answered answered_unfragmented)
  from core_eqD [OF this] have "cn_stream c' = (cn_stream (answered (pings_of ms) c))\<lparr>ts_in := s\<rparr>"
    using arriving_done [OF r(3)] by (intro tcp_stream.equality) (simp_all add: unfragmented_def)
  with r arriving_done [OF r(3)] show ?thesis by blast
qed

lemma receive_loop_stuck:
  assumes "cn_read_buf c \<noteq> []" and "read_frame (cn_read_buf c) = Incomplete"
  shows "receive_loop c = None"
proof (rule ccontr)
  assume "receive_loop c \<noteq> None"
  then obtain r where "receive_loop c = Some r" by blast
  then have "\<not> (cn_read_buf c \<noteq> [] \<and> read_frame (cn_read_buf c) = Incomplete)"
    by (rule receive_loop.raw_induct [where P = "\<lambda>c r. \<not> (cn_read_buf c \<noteq> [] \<and> read_frame (cn_read_buf c) = Incomplete)", rotated])
      (fastforce simp: next_buf_def parse_frame_def)
  with assms show False by blast
qed

lemma part_of_frame_stuck:
  assumes "\<not> ws_poisoned ws" and "hm_get (ws_connections ws) h = Some c" and "\<not> cn_close_received c"
    and "cn_read_buf c = []" and "ts_in (cn_stream c) = Arrived p ## s"
    and "frame_ok f" and "wire f = p @ q" and "p \<noteq> []" and "q \<noteq> []" and "length p \<le> 65536"
  shows "receive h ws = None"
proof -
  let ?c = "c\<lparr>cn_stream := (cn_stream c)\<lparr>ts_in := s\<rparr>\<rparr>"
  have i: "read_frame p = Incomplete" using strict_prefix_incomplete [OF assms(6, 7, 9)] .
  have "receive_loop c = receive_loop (?c\<lparr>cn_read_buf := p\<rparr>)"
    using assms(4, 5, 8, 10) by (subst receive_loop_turn) (simp add: next_buf_def tcp_read_def parse_frame_def i resume_def)
  also have "\<dots> = None" using assms(8) i by (intro receive_loop_stuck) simp_all
  finally show ?thesis using assms(1-3) by (simp add: receive_def)
qed

lemma receives_stuck:
  "receives n h ws = Some (rs, ws') \<Longrightarrow> receive h ws' = None \<Longrightarrow> receives (Suc n) h ws = None"
proof (induction n arbitrary: ws rs)
  case (Suc n)
  then obtain r ws1 rs1 where "receive h ws = Some (r, ws1)" "receives n h ws1 = Some (rs1, ws')"
    by (auto split: option.splits)
  with Suc.IH [of ws1 rs1] Suc.prems(2) show ?case by (simp only: receives.simps(2) [of "Suc n" h ws]) simp
qed simp

lemma or_80: "unat x < 128 \<Longrightarrow> x OR 0x80 = (x + 0x80 :: u8)"
  using and_80 [of x] by (intro disjunctive_add_eq_or [symmetric]) simp

lemma encode_frame_wire:
  "encode_frame data kind masked =
     wire \<lparr>wf_fin = True, wf_opcode = opcode_for kind, wf_mask = (if masked then Some (replicate 4 0) else None), wf_payload = data\<rparr>"
proof -
  have "unmask (Some (replicate 4 0)) data = data"
  proof (rule nth_equalityI)
    fix i
    assume "i < length (unmask (Some (replicate 4 0)) data)"
    then have "i < length data" by simp
    moreover have "i mod 4 < 4" by simp
    then have "replicate 4 0 ! (i mod 4) = (0 :: u8)" by (rule nth_replicate)
    ultimately show "unmask (Some (replicate 4 0)) data ! i = data ! i"
      by (simp add: unmask_def nth_enumerate_eq)
  qed simp
  moreover have "unmask None data = data" by (simp add: unmask_def)
  moreover have "(0x80 :: u8) OR opcode_for kind = of_nat (128 + unat (opcode_for kind))" by (cases kind) simp_all
  moreover have "(of_nat n :: u8) OR 0x80 = of_nat (128 + n)" if "n < 128" for n
    using or_80 [of "of_nat n"] that by (simp add: unat_of_nat add.commute)
  note this [of "length data"] this [of 126] this [of 127]
  ultimately show ?thesis by (simp add: encode_frame_def wire_def wire_length_def wire_mask_def Let_def)
qed


lemma opcode_small: "opcode_for kind < 16"
  by (cases kind) (simp_all add: word_less_nat_alt)

text \<open>Round trip of frames. Whatever follows it in the buffer, a frame that \<open>encode_frame\<close> builds, masked or
  not, is read back as one final frame with the opcode and the data it was built from, and the rest is kept.\<close>

theorem frame_roundtrip:
  assumes "length data + 14 < 2 ^ 64"
  shows "read_frame (encode_frame data kind masked @ rest) = FrameRead True (opcode_for kind) data rest"
proof -
  have "frame_ok \<lparr>wf_fin = True, wf_opcode = opcode_for kind, wf_mask = (if masked then Some (replicate 4 0) else None), wf_payload = data\<rparr>"
    using assms opcode_small by (simp add: frame_ok_def)
  from read_frame_wire [OF this] show ?thesis by (simp add: encode_frame_wire)
qed

text \<open>Claim C14 (delivery of messages). A client sends text and binary messages in any number of parts, with pings and
  pongs between the parts, masked or not, and every read brings a number of whole frames. Then as many calls of
  \<open>receive\<close> return exactly the messages, in order and reassembled; the only bytes written are one pong with the
  same payload for every ping; nothing of another connection changes.\<close>

theorem messages_delivered:
  assumes "list_all message_ok ms" and "list_all chunk_ok chunks" and "concat chunks = concat (map message_frames ms)"
    and "idle_on h ws c" and "cn_read_buf c = []" and "ts_in (cn_stream c) = arrivals chunks @- s"
  shows "\<exists>ws' c'. receives (length ms) h ws = Some (map delivery ms, ws') \<and> idle_on h ws' c' \<and> cn_read_buf c' = [] \<and>
    cn_stream c' = (cn_stream (answered (pings_of ms) c))\<lparr>ts_in := s\<rparr> \<and>
    (\<forall>h'. h' \<noteq> h \<longrightarrow> hm_get (ws_connections ws') h' = hm_get (ws_connections ws) h')"
  using assms by (rule receives_whole_frames)

text \<open>Claim C31 (a split frame). When a read ends inside a frame, the call of \<open>receive\<close> that comes to it never
  returns, whatever the peer sends after, the rest of the frame included: the incomplete bytes are put back into
  the buffer, and the loop reads from the stream only when the buffer is empty. The messages before it are delivered.\<close>

theorem split_frame_never_received:
  assumes "list_all message_ok ms" and "list_all chunk_ok chunks" and "concat chunks = concat (map message_frames ms)"
    and "idle_on h ws c" and "cn_read_buf c = []" and "ts_in (cn_stream c) = arrivals chunks @- Arrived p ## s"
    and "frame_ok f" and "wire f = p @ q" and "p \<noteq> []" and "q \<noteq> []" and "length p \<le> 65536"
  shows "(\<exists>ws'. receives (length ms) h ws = Some (map delivery ms, ws')) \<and> receives (Suc (length ms)) h ws = None"
proof -
  obtain ws' c' where w: "receives (length ms) h ws = Some (map delivery ms, ws')" "idle_on h ws' c'" "cn_read_buf c' = []"
    "ts_in (cn_stream c') = Arrived p ## s"
    using receives_whole_frames [OF assms(1-6)] by auto
  have "receive h ws' = None"
    using part_of_frame_stuck [OF _ _ _ w(3, 4) assms(7-11)] w(2) unfolding idle_on_def by blast
  with receives_stuck [OF w(1)] w(1) show ?thesis by simp
qed

lemma poisoned_calls:
  "ws_poisoned ws \<Longrightarrow> receive h ws = Some (Panicked, ws) \<and> send h data kind ws = (Panicked, ws) \<and> close h info ws = (Panicked, None, ws)"
  by (simp add: receive_def send_def close_def)

lemma read_frame_overflow:
  assumes "length key = 4" and "n < 2 ^ 64" and "2 ^ 64 \<le> n + 14"
  shows "read_frame ([b, 0xFF] @ be_bytes 8 n @ key @ rest) = FramePanic"
proof -
  have "payload_len ([b, 0xFF] @ be_bytes 8 n @ key @ rest) = Some (n, 10)"
    using assms(2) by (simp add: payload_len_def from_be_bytes_of)
  then show ?thesis using assms by (simp add: read_frame_def Let_def)
qed

text \<open>Claim C33 (a frame header disables the app). A client can send the header of a frame whose length is at most 14
  below \<open>2 ^ 64\<close>. The call of \<open>receive\<close> that reads it panics while it holds the lock of all connections, and
  from then on every call of \<open>receive\<close>, \<open>send\<close> and \<open>close\<close>, on every connection, panics.\<close>

theorem frame_header_poisons:
  assumes "idle_on h ws c" and "cn_read_buf c = []"
    and "ts_in (cn_stream c) = Arrived ([b, 0xFF] @ be_bytes 8 n @ key @ rest) ## s"
    and "length key = 4" and "length rest \<le> 60000" and "n < 2 ^ 64" and "2 ^ 64 \<le> n + 14"
  shows "\<exists>ws'. receive h ws = Some (Panicked, ws') \<and>
    (\<forall>h' data kind info. receive h' ws' = Some (Panicked, ws') \<and> send h' data kind ws' = (Panicked, ws') \<and>
       close h' info ws' = (Panicked, None, ws'))"
proof -
  let ?p = "[b, 0xFF] @ be_bytes 8 n @ key @ rest"
  have "next_buf c = (Inr ?p, c\<lparr>cn_stream := (cn_stream c)\<lparr>ts_in := s\<rparr>\<rparr>)"
    using assms(2-5) by (simp add: next_buf_def tcp_read_def)
  then have "\<exists>c'. receive_loop c = Some (Panicked, c')"
    using read_frame_overflow [OF assms(4, 6, 7), of b rest] by (subst receive_loop_turn) (simp add: parse_frame_def)
  then obtain c' where "receive_loop c = Some (Panicked, c')" ..
  then have "receive h ws = Some (Panicked, put_connection h c' ws\<lparr>ws_poisoned := True\<rparr>)"
    using assms(1) by (simp add: receive_def idle_on_def)
  then show ?thesis by (simp add: poisoned_calls)
qed

section \<open>The handshake\<close>

abbreviation header_end :: bytes where
  "header_end \<equiv> as_bytes (CRLF @ CRLF)"

lemma contains_sub_iff: "contains_sub p xs \<longleftrightarrow> (\<exists>a b. xs = a @ p @ b)"
proof (induction xs)
  case (Cons x xs)
  have "take (length p) (x # xs) = p \<longleftrightarrow> (\<exists>b. x # xs = p @ b)"
    by (metis append_eq_conv_conj append_take_drop_id)
  with Cons.IH show ?case by (auto simp: Cons_eq_append_conv)
qed auto

lemma contains_sub_prefix: "contains_sub p xs \<Longrightarrow> contains_sub p (xs @ ys)"
  unfolding contains_sub_iff by (metis append.assoc)

fun event_bytes :: "read_event \<Rightarrow> bytes" where
  "event_bytes (Arrived bs) = bs"
| "event_bytes _ = []"

definition request_events :: "read_event list \<Rightarrow> bool" where
  "request_events evs \<longleftrightarrow> list_all (\<lambda>ev. ev = WouldBlock \<or> event_bytes ev \<noteq> []) evs"

lemma read_request_blocks: "read_request buf (ts\<lparr>ts_in := WouldBlock ## s\<rparr>) = read_request buf (ts\<lparr>ts_in := s\<rparr>)"
  by (subst read_request.simps) (simp add: tcp_read_def)

lemma read_request_arrived:
  assumes "bs \<noteq> []" and "length buf + length bs \<le> 4096"
  shows "read_request buf (ts\<lparr>ts_in := Arrived bs ## s\<rparr>) =
      (if contains_sub header_end (buf @ bs) then Some (Inr (buf @ bs), ts\<lparr>ts_in := s\<rparr>)
       else if length (buf @ bs) \<ge> 4096 then Some (Inl ''request header too large'', ts\<lparr>ts_in := s\<rparr>)
       else read_request (buf @ bs) (ts\<lparr>ts_in := s\<rparr>))"
proof -
  have "length bs \<le> 4096 - length buf" using assms(2) by simp
  then have "tcp_read (4096 - length buf) (ts\<lparr>ts_in := Arrived bs ## s\<rparr>) = (Arrived bs, ts\<lparr>ts_in := s\<rparr>)"
    by (simp add: tcp_read_def)
  then show ?thesis using assms(1) by (subst read_request.simps) simp
qed

lemmas read_request_turn = read_request_blocks read_request_arrived

lemma read_request_gathers:
  assumes "request_events evs" and "evs \<noteq> []" and "last evs \<noteq> WouldBlock"
    and "request = buf @ concat (map event_bytes evs)" and "length request \<le> 4096"
    and "contains_sub header_end request" and "\<not> contains_sub header_end (butlast request)"
  shows "read_request buf (ts\<lparr>ts_in := evs @- s\<rparr>) = Some (Inr request, ts\<lparr>ts_in := s\<rparr>)"
  using assms
proof (induction evs arbitrary: buf)
  case (Cons ev evs)
  show ?case
  proof (cases ev)
    case WouldBlock
    then have "evs \<noteq> []" using Cons.prems(3) by auto
    then show ?thesis using Cons WouldBlock by (simp add: request_events_def read_request_turn)
  next
    case (ReadFailed e)
    then show ?thesis using Cons.prems(1) by (simp add: request_events_def)
  next
    case (Arrived bs)
    have bs: "bs \<noteq> []" "length buf + length bs \<le> 4096" using Cons.prems(1, 4, 5) Arrived by (auto simp: request_events_def)
    show ?thesis
    proof (cases "evs = []")
      case True
      then show ?thesis using Cons.prems(4, 6) bs Arrived by (simp add: read_request_turn)
    next
      case False
      define more where "more = concat (map event_bytes evs)"
      have m: "more \<noteq> []"
        unfolding more_def using Cons.prems(1, 3) False by (auto simp: request_events_def list_all_iff) (metis last_in_set)+
      have "request = buf @ bs @ more" using Cons.prems(4) Arrived by (simp add: more_def)
      with m Cons.prems(5) have l: "length (buf @ bs) < 4096" "butlast request = buf @ bs @ butlast more"
        by (cases more; simp add: butlast_append)+
      then have "\<not> contains_sub header_end (buf @ bs)"
        using Cons.prems(7) contains_sub_prefix [of header_end "buf @ bs"] by auto
      moreover have "read_request (buf @ bs) (ts\<lparr>ts_in := evs @- s\<rparr>) = Some (Inr request, ts\<lparr>ts_in := s\<rparr>)"
        using Cons.prems False Arrived by (intro Cons.IH) (simp_all add: request_events_def)
      ultimately show ?thesis using bs l(1) Arrived by (simp add: read_request_turn)
    qed
  qed
qed simp

lemma read_request_overflows:
  assumes "request_events evs" and "length buf < 4096" and "4096 \<le> length (buf @ concat (map event_bytes evs))"
    and "\<not> contains_sub header_end (take 4096 (buf @ concat (map event_bytes evs)))"
  shows "\<exists>s'. read_request buf (ts\<lparr>ts_in := evs @- s\<rparr>) = Some (Inl ''request header too large'', ts\<lparr>ts_in := s'\<rparr>)"
  using assms
proof (induction evs arbitrary: buf)
  case (Cons ev evs)
  show ?case
  proof (cases ev)
    case (Arrived bs)
    let ?more = "concat (map event_bytes evs)"
    have none: "\<not> contains_sub header_end (take 4096 (buf @ bs @ ?more))"
      using Cons.prems(4) unfolding Arrived list.map concat.simps event_bytes.simps .
    have bs: "bs \<noteq> []" using Cons.prems(1) Arrived by (simp add: request_events_def)
    show ?thesis
    proof (cases "length buf + length bs \<le> 4096")
      case True
      then have "take 4096 (buf @ bs @ ?more) = (buf @ bs) @ take (4096 - length (buf @ bs)) ?more" by simp
      with none contains_sub_prefix [of header_end "buf @ bs"] have no: "\<not> contains_sub header_end (buf @ bs)" by metis
      show ?thesis
      proof (cases "length (buf @ bs) < 4096")
        case True
        then have "\<exists>s'. read_request (buf @ bs) (ts\<lparr>ts_in := evs @- s\<rparr>) = Some (Inl ''request header too large'', ts\<lparr>ts_in := s'\<rparr>)"
          using Cons.prems Arrived by (intro Cons.IH) (simp_all add: request_events_def)
        with True no bs show ?thesis by (simp add: Arrived read_request_arrived)
      next
        case False
        with True no bs show ?thesis by (auto simp: Arrived read_request_arrived)
      qed
    next
      case False
      let ?part = "take (4096 - length buf) bs"
      have "take 4096 (buf @ bs @ ?more) = buf @ ?part" using False Cons.prems(2) by simp
      with none have no: "\<not> contains_sub header_end (buf @ ?part)" by metis
      have "\<not> length bs \<le> 4096 - length buf" using False Cons.prems(2) by simp
      then have "tcp_read (4096 - length buf) (ts\<lparr>ts_in := Arrived bs ## evs @- s\<rparr>) =
          (Arrived ?part, ts\<lparr>ts_in := Arrived (drop (4096 - length buf) bs) ## evs @- s\<rparr>)"
        by (simp add: tcp_read_def)
      then show ?thesis using False no bs Cons.prems(2)
        by (subst read_request.simps) (auto simp: Arrived)
    qed
  qed (use Cons in \<open>auto simp: request_events_def read_request_turn\<close>)
qed simp

text \<open>A request as a client writes it, and what its headers ask for.\<close>

definition plain_char :: "char \<Rightarrow> bool" where
  "plain_char c \<longleftrightarrow> (of_char c :: nat) < 128 \<and> c \<noteq> CHR 0x0D \<and> c \<noteq> CHR 0x0A"

definition trimmed :: "string \<Rightarrow> bool" where
  "trimmed s \<longleftrightarrow> s = [] \<or> \<not> may_ws (hd s) \<and> \<not> may_ws (last s)"

definition header_ok :: "string \<times> string \<Rightarrow> bool" where
  "header_ok = (\<lambda>(name, val). list_all plain_char (name @ val) \<and> trimmed name \<and> trimmed val \<and> CHR '':'' \<notin> set name)"

definition header_line :: "string \<times> string \<Rightarrow> string" where
  "header_line = (\<lambda>(name, val). name @ '': '' @ val)"

definition request_text :: "string \<Rightarrow> (string \<times> string) list \<Rightarrow> string" where
  "request_text path hs =
     concat (map (\<lambda>l. l @ CRLF) ((''GET '' @ path @ '' HTTP/1.1'') # map header_line hs @ [[]]))"

definition named :: "string \<Rightarrow> (string \<times> string) list \<Rightarrow> string list" where
  "named n hs = map snd (filter (\<lambda>(name, _). to_ascii_lowercase name = n) hs)"

definition handshake_verdict :: "(string \<times> string) list \<Rightarrow> string + string" where
  "handshake_verdict hs =
     (if \<not> list_ex (\<lambda>v. to_ascii_lowercase v = ''websocket'') (named ''upgrade'' hs) then Inl ''missing Upgrade: websocket header''
      else if \<not> list_ex (\<lambda>v. contains_sub ''upgrade'' (to_ascii_lowercase v)) (named ''connection'' hs)
      then Inl ''missing Connection: Upgrade header''
      else if named ''sec-websocket-key'' hs = [] then Inl ''missing Sec-WebSocket-Key header''
      else Inr (last (named ''sec-websocket-key'' hs)))"

lemma to_lowercase_ascii: "list_all plain_char s \<Longrightarrow> to_lowercase s = to_ascii_lowercase s"
  by (induction s rule: to_lowercase.induct) (auto simp: to_ascii_lowercase_def plain_char_def starts_with_def)

lemma see_header_line:
  assumes "header_ok (name, val)"
  shows "see_header (header_line (name, val)) seen =
    (let k = to_ascii_lowercase name; v = to_ascii_lowercase val
     in if k = ''upgrade'' \<and> v = ''websocket'' then seen\<lparr>us_upgrade := True\<rparr>
        else if k = ''connection'' \<and> contains_sub ''upgrade'' v then seen\<lparr>us_connection := True\<rparr>
        else if k = ''sec-websocket-key'' then seen\<lparr>us_key := Some val\<rparr>
        else seen)"
proof -
  have "split_once (CHR '':'') (header_line (name, val)) = Some (name, CHR '' '' # val)"
    using assms split_once_append [of "CHR '':''" name "CHR '' '' # val"] by (simp add: header_line_def header_ok_def)
  moreover have "trim name = name" "trim val = val" "to_lowercase name = to_ascii_lowercase name"
    "to_lowercase val = to_ascii_lowercase val"
    using assms by (simp_all add: header_ok_def trimmed_def trim_id to_lowercase_ascii)
  moreover have "trim (CHR '' '' # val) = val"
    using assms trim_pad(2) [of val] by (cases "val = []") (auto simp: header_ok_def trimmed_def trim_def strip_leading.simps leading_space leading_def WHITE_SPACE_def starts_with_def)
  moreover have "to_ascii_lowercase ''websocket'' = ''websocket''" by (simp add: to_ascii_lowercase_def ascii_lower_def)
  ultimately show ?thesis by (simp add: see_header_def eq_ignore_ascii_case_def Let_def)
qed

lemma headers_seen:
  assumes "list_all header_ok hs"
  shows "fold see_header (map header_line hs) seen =
    \<lparr>us_upgrade = (us_upgrade seen \<or> list_ex (\<lambda>v. to_ascii_lowercase v = ''websocket'') (named ''upgrade'' hs)),
     us_connection = (us_connection seen \<or> list_ex (\<lambda>v. contains_sub ''upgrade'' (to_ascii_lowercase v)) (named ''connection'' hs)),
     us_key = (if named ''sec-websocket-key'' hs = [] then us_key seen else Some (last (named ''sec-websocket-key'' hs)))\<rparr>"
  using assms
proof (induction hs arbitrary: seen)
  case (Cons h hs)
  obtain name val where h: "h = (name, val)" by fastforce
  with Cons.prems have ok: "header_ok (name, val)" "list_all header_ok hs" by simp_all
  show ?case
    unfolding list.map fold_simps o_apply h see_header_line [OF ok(1)] Cons.IH [OF ok(2)] Let_def
    by (auto simp: named_def)
qed (simp add: named_def)

lemma split_ws_plain: "list_all (\<lambda>c. \<not> may_ws c) a \<Longrightarrow> split_ws w (a @ s) = split_ws (w @ a) s"
  by (induction a arbitrary: w) (simp_all add: leading_None)

lemma split_ws_space: "split_ws w (CHR '' '' # s) = (if w = [] then [] else [w]) @ split_ws [] s"
  by (simp add: leading_space)

definition path_ok :: "string \<Rightarrow> bool" where
  "path_ok path \<longleftrightarrow> list_all (\<lambda>c. \<not> may_ws c) path"

lemma get_line:
  assumes "path_ok path"
  shows "\<exists>p ps. split_whitespace (''GET '' @ path @ '' HTTP/1.1'') = ''GET'' # p # ps"
proof -
  have "split_whitespace (''GET '' @ path @ '' HTTP/1.1'') = split_ws [] (''GET'' @ CHR '' '' # path @ CHR '' '' # ''HTTP/1.1'' @ [])"
    by (simp add: split_whitespace_def)
  also have "\<dots> = [''GET''] @ split_ws [] (path @ CHR '' '' # ''HTTP/1.1'' @ [])"
    by (subst split_ws_plain) (simp_all add: may_ws_def split_ws_space del: split_ws.simps)
  also have "\<dots> = [''GET''] @ (if path = [] then [] else [path]) @ split_ws [] (''HTTP/1.1'' @ [])"
    using assms by (subst split_ws_plain) (simp_all add: path_ok_def split_ws_space del: split_ws.simps)
  also have "split_ws [] (''HTTP/1.1'' @ []) = [''HTTP/1.1'']"
    by (subst split_ws_plain) (simp_all add: may_ws_def)
  finally show ?thesis by simp
qed

lemma lines_back:
  assumes "list_all (list_all plain_char) ls"
  shows "map strip_cr (split_lines (concat (map (\<lambda>l. l @ CRLF) ls))) = ls"
  using assms
proof (induction ls)
  case (Cons l ls)
  then have "CHR 0x0A \<notin> set (l @ [CHR 0x0D])" by (auto simp: plain_char_def list_all_iff)
  from split_lines_line [OF this] have "split_lines (concat (map (\<lambda>l. l @ CRLF) (l # ls))) =
      (l @ [CHR 0x0D]) # split_lines (concat (map (\<lambda>l. l @ CRLF) ls))"
    by (simp add: CRLF_def)
  moreover have "strip_suffix [CHR 0x0D] (l @ [CHR 0x0D]) = Some l" by (simp add: strip_suffix_Some)
  ultimately show ?case using Cons by (simp add: strip_cr_def)
qed simp

lemma contains_end_plain: "list_all plain_char l \<Longrightarrow> contains_sub (CRLF @ CRLF) (l @ x) = contains_sub (CRLF @ CRLF) x"
  by (induction l) (auto simp: CRLF_def plain_char_def)

lemma no_early_end:
  assumes "list_all (\<lambda>l. l \<noteq> [] \<and> list_all plain_char l) ls"
  shows "\<not> contains_sub (CRLF @ CRLF) (concat (map (\<lambda>l. l @ CRLF) ls) @ [CHR 0x0D])"
  using assms
proof (induction ls)
  case (Cons l ls)
  let ?r = "concat (map (\<lambda>l. l @ CRLF) ls) @ [CHR 0x0D]"
  have "take 2 ?r \<noteq> CRLF"
  proof (cases ls)
    case (Cons k ks)
    then obtain c k' where "k = c # k'" "plain_char c" using Cons.prems by (cases k) auto
    then show ?thesis using Cons by (auto simp: CRLF_def plain_char_def)
  qed (simp add: CRLF_def)
  then have "contains_sub (CRLF @ CRLF) (CRLF @ ?r) = contains_sub (CRLF @ CRLF) ?r"
    by (auto simp: CRLF_def numeral_2_eq_2)
  then show ?case using Cons contains_end_plain [of l] by simp
qed (simp add: CRLF_def)

lemma contains_as_bytes: "contains_sub (as_bytes p) (as_bytes s) = contains_sub p s"
proof -
  have "take (length p) (as_bytes s) = as_bytes p \<longleftrightarrow> take (length p) s = p" for s
    by (metis as_bytes_def as_bytes_inj take_map)
  from this [of "_ # _"] show ?thesis by (induction s) (auto simp: as_bytes_eq_iff of_bytes_def)
qed


lemma plain_lossy:
  assumes "list_all (\<lambda>c. (of_char c :: nat) < 128) t"
  shows "from_utf8_lossy (as_bytes t) = t"
proof -
  have "list_all (\<lambda>b. b < 0x80) (as_bytes t)"
    using assms by (auto simp: list_all_iff as_bytes_def word_less_nat_alt)
  from from_utf8_lossy_ok [OF ascii_utf8_ok [OF this]] show ?thesis by simp
qed

lemma not_ws_plain: "\<not> may_ws c \<Longrightarrow> plain_char c"
  by (simp add: may_ws_def plain_char_def)

lemma request_lines_plain:
  assumes "path_ok path" and "list_all header_ok hs"
  shows "list_all (\<lambda>l. l \<noteq> [] \<and> list_all plain_char l) ((''GET '' @ path @ '' HTTP/1.1'') # map header_line hs)"
proof -
  have "list_all plain_char path" using assms(1) not_ws_plain by (simp add: path_ok_def list_all_iff)
  moreover have "list_all plain_char ''GET ''" "list_all plain_char '' HTTP/1.1''" "list_all plain_char '': ''"
    by (simp_all add: plain_char_def)
  ultimately have "list_all plain_char (''GET '' @ path @ '' HTTP/1.1'')" "list_all plain_char '': ''"
    by (simp_all only: list_all_append)
  moreover from this(2) have "header_ok h \<Longrightarrow> header_line h \<noteq> [] \<and> list_all plain_char (header_line h)" for h
    by (cases h) (simp add: header_ok_def header_line_def)
  then have "list_all (\<lambda>l. l \<noteq> [] \<and> list_all plain_char l) (map header_line hs)"
    using assms(2) by (induction hs) simp_all
  ultimately show ?thesis by simp
qed

lemma upgrade_key_request:
  assumes "path_ok path" and "list_all header_ok hs"
  shows "upgrade_key (as_bytes (request_text path hs)) = handshake_verdict hs"
proof -
  let ?ls = "(''GET '' @ path @ '' HTTP/1.1'') # map header_line hs"
  have p: "list_all (list_all plain_char) (?ls @ [[]])" "\<forall>l \<in> set ?ls. l \<noteq> []"
    using request_lines_plain [OF assms] by (auto simp: list_all_iff)
  have "request_text path hs = concat (map (\<lambda>l. l @ CRLF) (?ls @ [[]]))" by (simp add: request_text_def)
  moreover have "list_all (\<lambda>c. (of_char c :: nat) < 128) (concat (map (\<lambda>l. l @ CRLF) (?ls @ [[]])))"
    using p(1) by (auto simp: list_all_iff plain_char_def CRLF_def)
  ultimately have l: "map strip_cr (split_lines (from_utf8_lossy (as_bytes (request_text path hs)))) = ?ls @ [[]]"
    using lines_back [OF p(1)] by (simp only: plain_lossy)
  obtain w ws where w: "split_whitespace (''GET '' @ path @ '' HTTP/1.1'') = ''GET'' # w # ws"
    using get_line [OF assms(1)] by blast
  have t: "takeWhile (\<lambda>l. l \<noteq> []) (map header_line hs @ [[]]) = map header_line hs"
  proof -
    have "l \<in> set (map header_line hs) \<Longrightarrow> l \<noteq> []" for l using p(2) unfolding list.set by blast
    then show ?thesis by (subst takeWhile_append2) simp_all
  qed
  have "tl (?ls @ [[]]) = map header_line hs @ [[]]" by simp
  then show ?thesis
    unfolding upgrade_key_def l Let_def list.sel append_Cons t headers_seen [OF assms(2)]
    using w by (simp add: handshake_verdict_def t)
qed

lemma request_text_end:
  assumes "path_ok path" and "list_all header_ok hs"
  shows "contains_sub (CRLF @ CRLF) (request_text path hs)"
    and "\<not> contains_sub (CRLF @ CRLF) (butlast (request_text path hs))"
proof -
  let ?ls = "(''GET '' @ path @ '' HTTP/1.1'') # map header_line hs"
  have r: "request_text path hs = (concat (map (\<lambda>l. l @ CRLF) ?ls) @ [CHR 0x0D]) @ [CHR 0x0A]"
    by (simp add: request_text_def CRLF_def)
  obtain ks k where "?ls = ks @ [k]" by (metis list.distinct(1) rev_exhaust)
  from arg_cong [OF this, of "\<lambda>ls. concat (map (\<lambda>l. l @ CRLF) ls)"]
  have "request_text path hs = (concat (map (\<lambda>l. l @ CRLF) ks) @ k) @ (CRLF @ CRLF) @ []" by (simp add: request_text_def)
  then show "contains_sub (CRLF @ CRLF) (request_text path hs)" unfolding contains_sub_iff by blast
  show "\<not> contains_sub (CRLF @ CRLF) (butlast (request_text path hs))"
    unfolding r butlast_snoc using no_early_end [OF request_lines_plain [OF assms]] .
qed

text \<open>Claim C20 (the handshake). Let a client send a GET request with any headers in plain ASCII, without blanks around
  their names and values, in whatever pieces and with whatever pauses, and nothing after the header until it is
  answered. A request of at most 4096 bytes is answered by its headers: names are compared without case; without an
  \<open>Upgrade: websocket\<close> header, a \<open>Connection\<close> header that mentions the upgrade and a key it is refused with the error
  for the first that is missing, and else the answer is the 101 response for the last key. A longer one is refused as
  too large, and nothing is written.\<close>

theorem handshake_exact:
  assumes "path_ok path" and "list_all header_ok hs" and "request_events evs" and "evs \<noteq> []" and "last evs \<noteq> WouldBlock"
    and "concat (map event_bytes evs) = as_bytes (request_text path hs)"
  shows "if length (request_text path hs) \<le> 4096
    then perform_upgrade ah (ts\<lparr>ts_in := evs @- s\<rparr>) =
      Some (case handshake_verdict hs of
              Inl e \<Rightarrow> (Some e, ts\<lparr>ts_in := s\<rparr>)
            | Inr key \<Rightarrow>
                apfst (map_option (\<lambda>e. ''write upgrade response: '' @ e))
                  (write_all (as_bytes (switching_protocols (compute_accept_key ah key))) (ts\<lparr>ts_in := s\<rparr>)))
    else \<exists>s'. perform_upgrade ah (ts\<lparr>ts_in := evs @- s\<rparr>) = Some (Some ''request header too large'', ts\<lparr>ts_in := s'\<rparr>)"
proof (cases "length (request_text path hs) \<le> 4096")
  case True
  have "butlast (as_bytes (request_text path hs)) = as_bytes (butlast (request_text path hs))"
    by (simp add: as_bytes_def map_butlast)
  then have "read_request [] (ts\<lparr>ts_in := evs @- s\<rparr>) = Some (Inr (as_bytes (request_text path hs)), ts\<lparr>ts_in := s\<rparr>)"
    using True request_text_end [OF assms(1, 2)]
    by (intro read_request_gathers [OF assms(3-5)]) (simp_all only: contains_as_bytes assms(6) append_Nil as_bytes_simps(4) not_False_eq_True)
  with True show ?thesis
    by (simp add: perform_upgrade_def upgrade_key_request [OF assms(1, 2)] split: sum.split prod.split option.split)
next
  case False
  let ?r = "request_text path hs"
  have "butlast ?r = take 4096 ?r @ drop 4096 (butlast ?r)"
    using False append_take_drop_id [of 4096 "butlast ?r"] by (simp add: butlast_conv_take)
  then have "\<not> contains_sub (CRLF @ CRLF) (take 4096 ?r)"
    using request_text_end(2) [OF assms(1, 2)] contains_sub_prefix [of "CRLF @ CRLF" "take 4096 ?r"] by metis
  moreover have "take 4096 (as_bytes ?r) = as_bytes (take 4096 ?r)" by (simp add: as_bytes_def take_map)
  ultimately have "\<exists>s'. read_request [] (ts\<lparr>ts_in := evs @- s\<rparr>) = Some (Inl ''request header too large'', ts\<lparr>ts_in := s'\<rparr>)"
    using False by (intro read_request_overflows [OF assms(3)]) (simp_all only: contains_as_bytes assms(6) append_Nil as_bytes_simps(4) list.size, simp_all)
  with False show ?thesis by (auto simp: perform_upgrade_def)
qed

lemma read_request_silent:
  assumes "ts_in ts = sconst WouldBlock"
  shows "read_request buf ts = None"
proof (rule ccontr)
  assume "read_request buf ts \<noteq> None"
  then obtain r where "read_request buf ts = Some r" by blast
  then have "ts_in ts \<noteq> sconst WouldBlock"
    by (rule read_request.raw_induct [where P = "\<lambda>buf ts r. ts_in ts \<noteq> sconst WouldBlock", rotated])
      (fastforce simp: tcp_read_def)
  with assms show False by blast
qed


lemma read_request_pauses:
  assumes "request_events evs" and "length (buf @ concat (map event_bytes evs)) < 4096"
    and "\<not> contains_sub header_end (buf @ concat (map event_bytes evs))"
  shows "read_request buf (ts\<lparr>ts_in := evs @- sconst WouldBlock\<rparr>) = None"
  using assms
proof (induction evs arbitrary: buf)
  case Nil
  show ?case unfolding shift.simps by (rule read_request_silent) simp
next
  case (Cons ev evs)
  show ?case
  proof (cases ev)
    case (Arrived bs)
    with Cons.prems(3) have "\<not> contains_sub header_end (buf @ bs)"
      using contains_sub_prefix [of header_end "buf @ bs"] by auto
    with Arrived Cons show ?thesis by (simp add: request_events_def read_request_turn)
  qed (use Cons in \<open>simp_all add: request_events_def read_request_turn\<close>)
qed

text \<open>A silent client. The host sets a read time-out of five seconds before the handshake. A client that
  connects, sends no more than a part of a request header and then stays silent nevertheless blocks
  \<open>accept\<close> for ever: a read that times out is tried again.\<close>

theorem silent_client_blocks_accept:
  assumes "hm_get (ws_listeners ws) listener = Some l" and "ae_accept (env l) = Inr (ts\<lparr>ts_in := evs @- sconst WouldBlock\<rparr>)"
    and "request_events evs" and "length (concat (map event_bytes evs)) < 4096"
    and "\<not> contains_sub header_end (concat (map event_bytes evs))"
    and "ae_read_timeout (env l) = None" and "ae_write_timeout (env l) = None"
  shows "accept ah env listener ws = None"
  using assms read_request_pauses [of evs "[]" ts]
  by (simp add: accept_def accept_upgrade_def perform_upgrade_def)

section \<open>Handles\<close>

text \<open>The states of the table after a number of allocated handles.\<close>

inductive ws_reach :: "nat \<Rightarrow> 'l web_socket \<Rightarrow> bool" where
  reach_new: "ws_reach 0 web_socket_new"
| reach_listen: "ws_reach n ws \<Longrightarrow> listen bind port ws = (r, ws') \<Longrightarrow> ws_reach (if isl r then n else Suc n) ws'"
| reach_accept:
    "ws_reach n ws \<Longrightarrow> accept ah env l ws = Some (r, ws') \<Longrightarrow>
     ws_reach (if ws_next_handle ws' = ws_next_handle ws then n else Suc n) ws'"
| reach_send: "ws_reach n ws \<Longrightarrow> send h data kind ws = (r, ws') \<Longrightarrow> ws_reach n ws'"
| reach_receive: "ws_reach n ws \<Longrightarrow> receive h ws = Some (r, ws') \<Longrightarrow> ws_reach n ws'"
| reach_close: "ws_reach n ws \<Longrightarrow> close h info ws = (r, ts, ws') \<Longrightarrow> ws_reach n ws'"

definition in_use :: "'l web_socket \<Rightarrow> u32 \<Rightarrow> bool" where
  "in_use ws h \<longleftrightarrow> hm_contains (ws_listeners ws) h \<or> hm_contains (ws_connections ws) h"

definition handles_below :: "nat \<Rightarrow> 'l web_socket \<Rightarrow> bool" where
  "handles_below n ws \<longleftrightarrow>
     ws_next_handle ws = of_nat (Suc n) \<and> (\<forall>h. in_use ws h \<longrightarrow> 0 < unat h \<and> unat h \<le> n) \<and>
     (\<forall>h. \<not> (hm_contains (ws_listeners ws) h \<and> hm_contains (ws_connections ws) h))"

lemma handles_below_same:
  assumes "handles_below n ws" and "ws_next_handle ws' = ws_next_handle ws"
    and "\<And>h. hm_contains (ws_listeners ws') h \<Longrightarrow> hm_contains (ws_listeners ws) h"
    and "\<And>h. hm_contains (ws_connections ws') h \<Longrightarrow> hm_contains (ws_connections ws) h"
  shows "handles_below n ws'"
  using assms unfolding handles_below_def in_use_def by metis

lemma fresh_handle:
  assumes "handles_below n ws" and "n < 2 ^ 32 - 1"
  shows "unat (ws_next_handle ws) = Suc n" and "\<not> in_use ws (ws_next_handle ws)"
proof -
  show u: "unat (ws_next_handle ws) = Suc n" using assms by (simp only: handles_below_def unat_of_nat) simp
  then show "\<not> in_use ws (ws_next_handle ws)" using assms(1) by (auto simp: handles_below_def)
qed

lemma handles_below_new:
  assumes "handles_below n ws" and "n < 2 ^ 32 - 1" and "ws_next_handle ws' = ws_next_handle ws + 1"
    and "ws_listeners ws' = ws_listeners ws \<and> (\<forall>h. hm_contains (ws_connections ws') h \<longrightarrow> h = ws_next_handle ws \<or> hm_contains (ws_connections ws) h) \<or>
         ws_connections ws' = ws_connections ws \<and> (\<forall>h. hm_contains (ws_listeners ws') h \<longrightarrow> h = ws_next_handle ws \<or> hm_contains (ws_listeners ws) h)"
  shows "handles_below (Suc n) ws'"
proof -
  note f = fresh_handle [OF assms(1, 2)]
  have "ws_next_handle ws' = of_nat (Suc (Suc n))" using assms(1, 3) by (simp add: handles_below_def)
  moreover have "h = ws_next_handle ws \<or> in_use ws h" if "in_use ws' h" for h
    using assms(4) that unfolding in_use_def by metis
  then have "0 < unat h \<and> unat h \<le> Suc n" if "in_use ws' h" for h
    using that f(1) assms(1) unfolding handles_below_def by (metis le_SucI le_refl zero_less_Suc)
  moreover have "\<not> (hm_contains (ws_listeners ws') h \<and> hm_contains (ws_connections ws') h)" for h
    using assms(1, 4) f(2) unfolding handles_below_def in_use_def by metis
  ultimately show ?thesis by (simp add: handles_below_def)
qed

lemma reach_handles:
  assumes "ws_reach n ws" and "n < 2 ^ 32"
  shows "handles_below n ws"
  using assms
proof (induction rule: ws_reach.induct)
  case reach_new
  show ?case by (simp add: handles_below_def web_socket_new_def in_use_def hm_contains_def)
next
  case (reach_listen n ws bind port r ws')
  then show ?case
    by (cases "bind port") (auto simp: listen_def alloc_handle_def hm_contains_def intro!: handles_below_new [of n ws])
next
  case (reach_accept n ws ah env l r ws')
  have "ws_next_handle ws + 1 \<noteq> ws_next_handle ws" by simp
  with reach_accept show ?case
    by (auto simp: accept_def alloc_handle_def hm_contains_def intro!: handles_below_new [of n ws]
        split: option.splits sum.splits if_splits)
next
  case (reach_send n ws h data kind r ws')
  then show ?case
    by (auto simp: send_def Let_def put_connection_def hm_contains_def intro!: handles_below_same [of n ws]
        split: option.splits prod.splits if_splits)
next
  case (reach_receive n ws h r ws')
  then show ?case
    by (auto simp: receive_def put_connection_def hm_contains_def intro!: handles_below_same [of n ws]
        split: option.splits prod.splits if_splits)
next
  case (reach_close n ws h info r ts ws')
  then show ?case
    by (auto simp: close_def Let_def hm_contains_def intro!: handles_below_same [of n ws] split: option.splits if_splits)
qed

text \<open>Handles. Before the counter of \<open>2 ^ 32\<close> handles wraps around, whatever is called in whatever order, no
  handle stands for both a listener and a connection, and the handle that the next \<open>listen\<close> or \<open>accept\<close> returns is
  neither zero nor in use.\<close>

theorem handles_unique:
  assumes "ws_reach n ws" and "n < 2 ^ 32 - 1"
  shows "ws_next_handle ws \<noteq> 0" and "\<not> in_use ws (ws_next_handle ws)"
    and "\<not> (hm_contains (ws_listeners ws) h \<and> hm_contains (ws_connections ws) h)"
proof -
  have b: "handles_below n ws" using reach_handles assms by fastforce
  show "ws_next_handle ws \<noteq> 0" "\<not> in_use ws (ws_next_handle ws)"
    using fresh_handle [OF b assms(2)] by auto
  show "\<not> (hm_contains (ws_listeners ws) h \<and> hm_contains (ws_connections ws) h)"
    using b by (auto simp: handles_below_def)
qed

section \<open>Examples\<close>

definition sample_stream :: "read_event stream \<Rightarrow> tcp_stream" where
  "sample_stream evs = \<lparr>ts_in = evs, ts_out = [], ts_faults = sconst None\<rparr>"

definition sample_socket :: "read_event stream \<Rightarrow> nat web_socket" where
  "sample_socket evs =
     \<lparr>ws_next_handle = 3, ws_listeners = [(1, 0)], ws_connections = [(2, new_connection (sample_stream evs))], ws_poisoned = False\<rparr>"

definition hello_message :: client_message where
  "hello_message = \<lparr>cm_kind = Text, cm_parts = [([], Some [1, 2, 3, 4], [72]), ([PingFrame None [9]], None, [73])]\<rparr>"

definition upgrade_headers :: "(string \<times> string) list" where
  "upgrade_headers = [(''Upgrade'', ''websocket''), (''Connection'', ''Upgrade''), (''Sec-WebSocket-Key'', ''abc'')]"

lemma hello_ok: "message_ok hello_message" "chunk_ok (message_frames hello_message)"
  by (simp_all add: hello_message_def message_ok_def message_frames_def frame_ok_def word_less_nat_alt chunk_ok_def
      wire_def wire_length_def wire_mask_def Let_def)

lemma sample_idle: "idle_on 2 (sample_socket evs) (new_connection (sample_stream evs))"
  by (simp add: idle_on_def sample_socket_def new_connection_def hm_get_def)

theorem frame_roundtrip_witness:
  "read_frame (encode_frame [1, 2, 3] Text True @ [7]) = FrameRead True 1 [1, 2, 3] [7]"
  using frame_roundtrip [of "[1, 2, 3]" Text True "[7]"] by simp

theorem messages_delivered_witness:
  "\<exists>ws'. receives 1 2 (sample_socket (arrivals [message_frames hello_message] @- sconst WouldBlock)) =
     Some ([Returned (Inr ([72, 73], Text))], ws')"
proof -
  let ?evs = "arrivals [message_frames hello_message] @- sconst WouldBlock"
  obtain ws' where "receives (length [hello_message]) 2 (sample_socket ?evs) = Some (map delivery [hello_message], ws')"
    using messages_delivered [of "[hello_message]" "[message_frames hello_message]" 2 "sample_socket ?evs"
        "new_connection (sample_stream ?evs)" "sconst WouldBlock"] sample_idle [of ?evs] hello_ok
    by (auto simp: new_connection_def sample_stream_def)
  moreover have "map delivery [hello_message] = [Returned (Inr ([72, 73], Text))]"
    by (simp add: delivery_def hello_message_def parts_payload_def)
  ultimately show ?thesis by auto
qed

theorem split_frame_never_received_witness:
  "receives 2 2 (sample_socket (arrivals [message_frames hello_message] @- Arrived [0x81] ## Arrived [1, 72] ## sconst WouldBlock)) = None"
proof -
  let ?evs = "arrivals [message_frames hello_message] @- Arrived [0x81] ## Arrived [1, 72] ## sconst WouldBlock"
  let ?f = "\<lparr>wf_fin = True, wf_opcode = 1, wf_mask = None, wf_payload = [72]\<rparr>"
  have "frame_ok ?f" "wire ?f = [0x81] @ [1, 72]"
    by (simp_all add: frame_ok_def wire_def wire_length_def wire_mask_def unmask_def word_less_nat_alt)
  from split_frame_never_received [of "[hello_message]" "[message_frames hello_message]" 2 "sample_socket ?evs"
      "new_connection (sample_stream ?evs)" "[0x81]" _ ?f, OF _ _ _ _ _ _ this]
  have "receives (Suc (length [hello_message])) 2 (sample_socket ?evs) = None"
    using sample_idle [of ?evs] hello_ok by (simp add: new_connection_def sample_stream_def)
  then show ?thesis by (simp only: list.size numeral_2_eq_2 add_0_right)  simp
qed

theorem frame_header_poisons_witness:
  "\<exists>ws'. receive 2 (sample_socket (Arrived ([0x82, 0xFF] @ be_bytes 8 (2 ^ 64 - 1) @ replicate 4 0 @ []) ## sconst WouldBlock)) =
     Some (Panicked, ws') \<and> send 7 [1] Text ws' = (Panicked, ws')"
proof -
  let ?evs = "Arrived ([0x82, 0xFF] @ be_bytes 8 (2 ^ 64 - 1) @ replicate 4 0 @ []) ## sconst WouldBlock"
  show ?thesis
    using frame_header_poisons [where b = "0x82" and n = "2 ^ 64 - 1" and key = "replicate 4 0" and rest = "[]" and s = "sconst WouldBlock",
      OF sample_idle [of ?evs]]
    by (force simp: new_connection_def sample_stream_def)
qed

theorem handshake_exact_witness:
  "perform_upgrade \<lparr>ah_sha1 = (\<lambda>b. b), ah_base64 = of_bytes\<rparr>
     (sample_stream ([WouldBlock, Arrived (as_bytes (request_text ''/ws'' upgrade_headers))] @- sconst WouldBlock)) =
   Some (None, (sample_stream (sconst WouldBlock))\<lparr>ts_out := as_bytes (switching_protocols (''abc'' @ WS_GUID))\<rparr>)"
proof -
  let ?ah = "\<lparr>ah_sha1 = (\<lambda>b. b), ah_base64 = of_bytes\<rparr>"
  let ?evs = "[WouldBlock, Arrived (as_bytes (request_text ''/ws'' upgrade_headers))]"
  have h: "path_ok ''/ws''" "list_all header_ok upgrade_headers" and l: "length (request_text ''/ws'' upgrade_headers) \<le> 4096"
    by (simp_all add: path_ok_def may_ws_def upgrade_headers_def header_ok_def plain_char_def trimmed_def request_text_def
        CRLF_def header_line_def)
  have e: "request_events ?evs" "?evs \<noteq> []" "last ?evs \<noteq> WouldBlock"
    "concat (map event_bytes ?evs) = as_bytes (request_text ''/ws'' upgrade_headers)"
    by (simp_all add: request_events_def as_bytes_eq_iff of_bytes_def request_text_def CRLF_def)
  have "handshake_verdict upgrade_headers = Inr ''abc''"
    by code_simp
  moreover have "compute_accept_key ?ah ''abc'' = ''abc'' @ WS_GUID"
    unfolding compute_accept_key_def by (simp only: accept_hash.simps as_bytes_simps(3) [symmetric] of_bytes_as_bytes)
  moreover have "(sample_stream x)\<lparr>ts_in := y\<rparr> = sample_stream y" for x y by (simp add: sample_stream_def)
  ultimately show ?thesis
    using handshake_exact [where ah = ?ah and ts = "sample_stream undefined" and s = "sconst WouldBlock", OF h e] l
    by (simp add: write_all_def sample_stream_def apfst_def)
qed

theorem silent_client_blocks_accept_witness:
  "accept \<lparr>ah_sha1 = (\<lambda>b. b), ah_base64 = of_bytes\<rparr>
     (\<lambda>_. \<lparr>ae_accept = Inr (sample_stream ([Arrived (as_bytes ''GET /'')] @- sconst WouldBlock)), ae_read_timeout = None, ae_write_timeout = None\<rparr>)
     1 (sample_socket (sconst WouldBlock)) = None"
  by (rule silent_client_blocks_accept [where ts = "sample_stream undefined" and l = 0 and evs = "[Arrived (as_bytes ''GET /'')]"])
    (simp_all add: sample_socket_def hm_get_def sample_stream_def request_events_def CRLF_def)

end
