(* ===== verification/Edge_Spool.thy ===== *)
theory Edge_Spool
  imports Edge_Prelude
begin

text \<open>
  The disk spool of the worker, \<open>edge-spool/src/lib.rs\<close>: an append-only file of JSON lines with
  \<open>append\<close>, \<open>drain\<close> (all of it, or only the newest bytes up to a limit) and \<open>rotate_when_over\<close>.

  A file is its bytes, or \<open>None\<close> when it does not exist; the state has the active file and the
  \<open>.draining\<close> file. The JSON library is the pair \<open>ser\<close>, \<open>de\<close> over an arbitrary type of batches; what
  the spool relies on is \<open>json_lines\<close>: parsing inverts printing, and a printed value is not empty
  and has no newline byte. An I/O failure in the middle of \<open>drain\<close> is the argument \<open>fault\<close>, which
  names the step that fails. An append may fail on opening the file, or after some bytes of the line
  have been written, which then stay in the file.
\<close>

section \<open>State and operations\<close>

type_synonym byte_string = "u8 list"

record spool =
  sp_active :: "byte_string option"
  sp_draining :: "byte_string option"

datatype drain_fault = NoFault | RenameFault | StatFault | ReadFault | HeadFault | TailFault | UnlinkFault

datatype append_io = AppendOk | OpenFailed | WriteFailed nat

datatype spool_error = SpoolIo | SpoolParse nat

abbreviation NL :: u8 where "NL \<equiv> 10"

definition spool_open :: "spool \<Rightarrow> spool" where
  "spool_open sp = sp"

definition spool_size :: "spool \<Rightarrow> nat" where
  "spool_size sp = (case sp_active sp of Some c \<Rightarrow> length c | None \<Rightarrow> 0)"

definition spool_append ::
  "('j \<Rightarrow> byte_string) \<Rightarrow> append_io \<Rightarrow> 'j \<Rightarrow> spool \<Rightarrow> (spool_error + unit) \<times> spool" where
  "spool_append ser io batch sp =
     (let line = ser batch @ [NL];
          old = (case sp_active sp of Some c \<Rightarrow> c | None \<Rightarrow> [])
      in case io of
           OpenFailed \<Rightarrow> (Inl SpoolIo, sp)
         | WriteFailed n \<Rightarrow> (Inl SpoolIo, sp\<lparr>sp_active := Some (old @ take n line)\<rparr>)
         | AppendOk \<Rightarrow> (Inr (), sp\<lparr>sp_active := Some (old @ line)\<rparr>))"

text \<open>\<open>AsyncBufReadExt::read_until\<close>: the bytes up to and including the newline, or to the end.\<close>

fun read_until :: "byte_string \<Rightarrow> byte_string \<times> byte_string" where
  "read_until [] = ([], [])"
| "read_until (b # bs) =
     (if b = NL then ([b], bs) else (case read_until bs of (l, r) \<Rightarrow> (b # l, r)))"

lemma read_until_append: "read_until bs = (l, r) \<Longrightarrow> bs = l @ r"
  by (induction bs arbitrary: l) (auto split: if_splits prod.splits)

lemma read_until_progress: "read_until bs = (l, r) \<Longrightarrow> bs \<noteq> [] \<Longrightarrow> length r < length bs"
  by (cases bs) (auto split: if_splits prod.splits dest: read_until_append)

function find_last_newline_loop :: "byte_string \<Rightarrow> nat \<Rightarrow> nat \<Rightarrow> nat" where
  "find_last_newline_loop src pos found =
     (if src = [] then found
      else case read_until src of
             (l, r) \<Rightarrow> find_last_newline_loop r (pos + length l)
                        (if last l = NL then pos + length l else found))"
  by pat_completeness auto
termination
  by (relation "measure (\<lambda>(src, _, _). length src)") (auto dest!: sym [of "(_, _)"] dest: read_until_progress)

declare find_last_newline_loop.simps [simp del]

definition find_last_newline_in_range :: "byte_string \<Rightarrow> nat \<Rightarrow> nat" where
  "find_last_newline_in_range src range_bytes = find_last_newline_loop (take range_bytes src) 0 0"

text \<open>\<open>buf.iter().position(|&b| b == b'\n')\<close>\<close>

fun newline_position :: "byte_string \<Rightarrow> nat option" where
  "newline_position [] = None"
| "newline_position (b # bs) = (if b = NL then Some 0 else map_option Suc (newline_position bs))"

text \<open>The limited branch of \<open>drain\<close>: the line-aligned head that is copied back, the two halves of the
  straddling line, and the bytes to parse.\<close>

record drain_split =
  ds_head :: byte_string
  ds_head_suffix :: byte_string
  ds_tail_prefix :: byte_string
  ds_raw :: byte_string

definition split_drain :: "byte_string \<Rightarrow> nat \<Rightarrow> drain_split" where
  "split_drain content limit =
     (let file_len = length content;
          head_bytes = file_len - limit;
          head_end = find_last_newline_in_range content head_bytes;
          head_suffix = (if head_end < head_bytes then take (head_bytes - head_end) (drop head_end content) else []);
          tail_offset = file_len - limit;
          buf = take limit (drop tail_offset content);
          at_line_boundary = (tail_offset = 0 \<or> content ! (tail_offset - 1) = NL);
          (tail_prefix, raw) =
            (if at_line_boundary then ([], buf)
             else case newline_position buf of
                    Some i \<Rightarrow> (take (i + 1) buf, drop (i + 1) buf)
                  | None \<Rightarrow> (buf, []))
      in \<lparr>ds_head = take head_end content, ds_head_suffix = head_suffix, ds_tail_prefix = tail_prefix,
          ds_raw = raw\<rparr>)"

text \<open>\<open>raw.split(|b| *b == b'\n')\<close>\<close>

fun split_newline :: "byte_string \<Rightarrow> byte_string list" where
  "split_newline [] = [[]]"
| "split_newline (b # bs) =
     (if b = NL then [] # split_newline bs
      else case split_newline bs of l # ls \<Rightarrow> (b # l) # ls | [] \<Rightarrow> [[b]])"

fun parse_lines :: "(byte_string \<Rightarrow> 'j option) \<Rightarrow> nat \<Rightarrow> byte_string list \<Rightarrow> spool_error + 'j list" where
  "parse_lines de i [] = Inr []"
| "parse_lines de i (l # ls) =
     (if l = [] then parse_lines de (i + 1) ls
      else case de l of
             None \<Rightarrow> Inl (SpoolParse i)
           | Some v \<Rightarrow> (case parse_lines de (i + 1) ls of Inl e \<Rightarrow> Inl e | Inr vs \<Rightarrow> Inr (v # vs)))"

definition effective_limit :: "nat option \<Rightarrow> nat \<Rightarrow> nat option" where
  "effective_limit limit_bytes file_len =
     (case limit_bytes of Some n \<Rightarrow> if n > 0 \<and> n < file_len then Some n else None | None \<Rightarrow> None)"

definition drain_parse :: "(byte_string \<Rightarrow> 'j option) \<Rightarrow> byte_string \<Rightarrow> spool_error + 'j list" where
  "drain_parse de raw = (if raw = [] then Inr [] else parse_lines de 0 (split_newline raw))"

definition spool_drain ::
  "(byte_string \<Rightarrow> 'j option) \<Rightarrow> drain_fault \<Rightarrow> nat option \<Rightarrow> spool \<Rightarrow> (spool_error + 'j list) \<times> spool" where
  "spool_drain de fault limit_bytes sp =
     (case sp_active sp of
        None \<Rightarrow> (Inr [], sp)
      | Some content \<Rightarrow>
          if fault = RenameFault then (Inl SpoolIo, sp)
          else
            let sp1 = sp\<lparr>sp_active := None, sp_draining := Some content\<rparr> in
            if fault = StatFault then (Inl SpoolIo, sp\<lparr>sp_active := Some content, sp_draining := None\<rparr>)
            else (case effective_limit limit_bytes (length content) of
                    Some limit \<Rightarrow>
                      let d = split_drain content limit in
                      if fault = HeadFault then (Inl SpoolIo, sp1)
                      else if fault = TailFault then (Inl SpoolIo, sp1\<lparr>sp_active := Some (ds_head d)\<rparr>)
                      else
                        (drain_parse de (ds_raw d),
                         sp1\<lparr>sp_active := Some (ds_head d @ ds_head_suffix d @ ds_tail_prefix d),
                             sp_draining := (if fault = UnlinkFault then Some content else None)\<rparr>)
                  | None \<Rightarrow>
                      if fault = ReadFault then (Inl SpoolIo, sp\<lparr>sp_active := Some content, sp_draining := None\<rparr>)
                      else (drain_parse de content,
                            sp1\<lparr>sp_draining := (if fault = UnlinkFault then Some content else None)\<rparr>)))"

text \<open>Phase 1 of the rotation: the number of lines to drop and the offset behind them, or no offset
  at the end of the file.\<close>

function rotate_loop :: "nat \<Rightarrow> nat \<Rightarrow> byte_string \<Rightarrow> nat \<Rightarrow> nat \<Rightarrow> nat \<times> nat option" where
  "rotate_loop file_len cap rest dropped drop_prefix =
     (if rest = [] then (dropped, None)
      else case read_until rest of
             (l, r) \<Rightarrow>
               let survivor_len = file_len - (drop_prefix + length l) in
               if survivor_len \<le> cap then (dropped + 1, Some (drop_prefix + length l))
               else rotate_loop file_len cap r (dropped + 1) (drop_prefix + length l))"
  by pat_completeness auto
termination
  by (relation "measure (\<lambda>(_, _, rest, _, _). length rest)") (auto dest!: sym [of "(_, _)"] dest: read_until_progress)

declare rotate_loop.simps [simp del]

definition rotate_when_over :: "nat \<Rightarrow> spool \<Rightarrow> nat \<times> spool" where
  "rotate_when_over cap_bytes sp =
     (case sp_active sp of
        None \<Rightarrow> (0, sp)
      | Some content \<Rightarrow>
          if length content \<le> cap_bytes then (0, sp)
          else (case rotate_loop (length content) cap_bytes content 0 0 of
                  (dropped, None) \<Rightarrow> (dropped, sp)
                | (dropped, Some off) \<Rightarrow> (dropped, sp\<lparr>sp_active := Some (drop off content)\<rparr>)))"

section \<open>Lines\<close>

definition json_lines :: "('j \<Rightarrow> byte_string) \<Rightarrow> (byte_string \<Rightarrow> 'j option) \<Rightarrow> bool" where
  "json_lines ser de \<longleftrightarrow> (\<forall>v. de (ser v) = Some v \<and> ser v \<noteq> [] \<and> NL \<notin> set (ser v))"

definition line_of :: "('j \<Rightarrow> byte_string) \<Rightarrow> 'j \<Rightarrow> byte_string" where
  "line_of ser v = ser v @ [NL]"

definition file_of :: "('j \<Rightarrow> byte_string) \<Rightarrow> 'j list \<Rightarrow> byte_string" where
  "file_of ser vs = concat (map (line_of ser) vs)"

lemma file_of_simps [simp]:
  "file_of ser [] = []"
  "file_of ser (v # vs) = line_of ser v @ file_of ser vs"
  "file_of ser (vs @ ws) = file_of ser vs @ file_of ser ws"
  by (simp_all add: file_of_def)

lemma line_of_length [simp]: "0 < length (line_of ser v)"
  by (simp add: line_of_def)

lemma read_until_line: "NL \<notin> set w \<Longrightarrow> read_until (w @ NL # r) = (w @ [NL], r)"
  by (induction w) auto

lemma newline_position_line: "NL \<notin> set w \<Longrightarrow> newline_position (w @ NL # r) = Some (length w)"
  by (induction w) auto

lemma newline_position_None: "newline_position w = None \<longleftrightarrow> NL \<notin> set w"
  by (induction w) auto

lemma split_newline_line: "NL \<notin> set w \<Longrightarrow> split_newline (w @ NL # r) = w # split_newline r"
  by (induction w) auto

lemma parse_file:
  assumes "json_lines ser de"
  shows "parse_lines de i (split_newline (file_of ser vs)) = Inr vs"
proof (induction vs arbitrary: i)
  case (Cons v vs)
  from assms have "NL \<notin> set (ser v)" "ser v \<noteq> []" "de (ser v) = Some v" by (auto simp: json_lines_def)
  with Cons [of "Suc i"] show ?case by (simp add: line_of_def split_newline_line)
qed simp

lemma drain_parse_file: "json_lines ser de \<Longrightarrow> drain_parse de (file_of ser vs) = Inr vs"
  using parse_file [of ser de 0 vs] by (cases vs) (auto simp: drain_parse_def)

text \<open>How many lines from the front reach a byte offset: the count both the limited drain and the
  rotation compute.\<close>

fun lines_to :: "('j \<Rightarrow> byte_string) \<Rightarrow> nat \<Rightarrow> 'j list \<Rightarrow> nat" where
  "lines_to ser h [] = 0"
| "lines_to ser h (v # vs) =
     (if h = 0 then 0 else Suc (lines_to ser (h - length (line_of ser v)) vs))"

lemma lines_to_0 [simp]: "lines_to ser 0 vs = 0"
  by (cases vs) auto

lemma lines_to_le: "lines_to ser h vs \<le> length vs"
  by (induction vs arbitrary: h) auto

lemma lines_to_reaches:
  "h \<le> length (file_of ser vs) \<Longrightarrow> h \<le> length (file_of ser (take (lines_to ser h vs) vs))"
proof (induction vs arbitrary: h)
  case (Cons v vs)
  have "h - length (line_of ser v) \<le> length (file_of ser vs)" using Cons.prems by simp
  from Cons.IH [OF this] show ?case by (cases "h = 0") simp_all
qed simp

lemma lines_to_least:
  "k < lines_to ser h vs \<Longrightarrow> length (file_of ser (take k vs)) < h"
proof (induction vs arbitrary: h k)
  case (Cons v vs)
  show ?case
  proof (cases k)
    case (Suc k')
    with Cons.prems have "k' < lines_to ser (h - length (line_of ser v)) vs" by (simp split: if_splits)
    from Cons.IH [OF this] Suc show ?thesis by simp
  qed (use Cons.prems in \<open>simp split: if_splits\<close>)
qed simp

section \<open>The limited drain\<close>

text \<open>The position where the drain cuts the file: the offset of the limit, or the end of the line
  around it.\<close>

definition cut_position :: "byte_string \<Rightarrow> nat \<Rightarrow> nat" where
  "cut_position c h =
     (if h = 0 \<or> c ! (h - 1) = NL then h
      else case newline_position (drop h c) of Some i \<Rightarrow> h + i + 1 | None \<Rightarrow> length c)"

lemma find_last_newline_le:
  "find_last_newline_loop src pos found \<le> max found (pos + length src)"
proof (induction src pos found rule: find_last_newline_loop.induct)
  case (1 src pos found)
  show ?case
  proof (cases "src = []")
    case False
    obtain l r where lr: "read_until src = (l, r)" by fastforce
    then have "length src = length l + length r" using read_until_append by fastforce
    with "1.IH" [OF False lr [symmetric]] False lr show ?thesis
      by (subst find_last_newline_loop.simps) auto
  qed (simp add: find_last_newline_loop.simps)
qed

lemma find_last_newline_in_range_le: "find_last_newline_in_range c h \<le> h"
  using find_last_newline_le [of "take h c" 0 0] by (simp add: find_last_newline_in_range_def)

lemma split_drain_cut:
  assumes "limit \<le> length c"
  shows "ds_head (split_drain c limit) @ ds_head_suffix (split_drain c limit) @ ds_tail_prefix (split_drain c limit) =
           take (cut_position c (length c - limit)) c"
    and "ds_raw (split_drain c limit) = drop (cut_position c (length c - limit)) c"
proof -
  let ?h = "length c - limit"
  let ?e = "find_last_newline_in_range c ?h"
  have e: "?e \<le> ?h" by (rule find_last_newline_in_range_le)
  have head: "take ?e c @ (if ?e < ?h then take (?h - ?e) (drop ?e c) else []) = take ?h c"
    using e take_add [of ?e "?h - ?e" c] by (cases "?e < ?h") auto
  have buf: "take limit (drop ?h c) = drop ?h c" by simp
  have "take ?h c @ take (i + 1) (drop ?h c) = take (?h + i + 1) c" for i
    using take_add [of ?h "i + 1" c] by (simp add: add.assoc)
  then show "ds_head (split_drain c limit) @ ds_head_suffix (split_drain c limit) @ ds_tail_prefix (split_drain c limit) =
           take (cut_position c ?h) c"
    using head append_take_drop_id [of ?h c]
    by (auto simp: split_drain_def Let_def buf cut_position_def append_assoc [symmetric] simp del: append_assoc
        split: option.splits)
  show "ds_raw (split_drain c limit) = drop (cut_position c ?h) c"
    by (auto simp: split_drain_def Let_def buf cut_position_def add.commute split: option.splits)
qed

lemma cut_position_file:
  assumes "json_lines ser de"
  shows "h \<le> length (file_of ser vs) \<Longrightarrow>
     cut_position (file_of ser vs) h = length (file_of ser (take (lines_to ser h vs) vs))"
proof (induction vs arbitrary: h)
  case (Cons v vs)
  let ?w = "ser v" and ?c = "file_of ser vs"
  have w: "NL \<notin> set ?w" using assms by (simp add: json_lines_def)
  have fl: "file_of ser (v # vs) = ?w @ NL # ?c" by (simp add: line_of_def)
  consider "h = 0" | "0 < h" "h \<le> length ?w" | "length ?w < h" by linarith
  then show ?case
  proof cases
    case 2
    have "h - 1 < length ?w" using 2 by simp
    moreover from this w have "?w ! (h - 1) \<noteq> NL" by (metis nth_mem)
    ultimately have "(?w @ NL # ?c) ! (h - 1) \<noteq> NL" by (simp add: nth_append)
    moreover have "newline_position (drop h (?w @ NL # ?c)) = Some (length ?w - h)"
      using 2 w newline_position_line [of "drop h ?w" ?c] by (auto dest: in_set_dropD)
    ultimately have "cut_position (file_of ser (v # vs)) h = length ?w + 1"
      using 2 unfolding fl by (simp add: cut_position_def)
    moreover have "h - length (line_of ser v) = 0" using 2 by (simp add: line_of_def)
    ultimately show ?thesis using 2 by (simp add: line_of_def)
  next
    case 3
    then obtain h' where h: "h = Suc (length ?w + h')" by (metis less_imp_Suc_add)
    have nth: "(?w @ NL # ?c) ! (h - 1) = (if h' = 0 then NL else ?c ! (h' - 1))"
      by (simp add: h nth_append nth_Cons')
    have dr: "drop h (?w @ NL # ?c) = drop h' ?c" by (simp add: h)
    have "cut_position (file_of ser (v # vs)) h = Suc (length ?w) + cut_position ?c h'"
      unfolding fl cut_position_def nth dr by (auto simp: h split: option.splits)
    moreover have "cut_position ?c h' = length (file_of ser (take (lines_to ser h' vs) vs))"
      using Cons by (simp add: h line_of_def)
    ultimately show ?thesis by (simp add: h line_of_def)
  qed (simp add: cut_position_def)
qed (simp add: cut_position_def)

section \<open>What the operations do to the batches\<close>

definition pending :: "spool \<Rightarrow> byte_string" where
  "pending sp = (case sp_active sp of Some c \<Rightarrow> c | None \<Rightarrow> [])"

lemma spool_append_pending:
  "spool_append ser AppendOk v sp = (Inr (), sp\<lparr>sp_active := Some (pending sp @ line_of ser v)\<rparr>)"
  by (simp add: spool_append_def pending_def line_of_def Let_def)

lemma file_of_take_drop: "file_of ser (take k vs) @ file_of ser (drop k vs) = file_of ser vs"
  using file_of_simps(3) [of ser "take k vs" "drop k vs"] by simp

lemma lines_to_fits:
  assumes "length (file_of ser vs) > n" and k: "k = lines_to ser (length (file_of ser vs) - n) vs"
  shows "length (file_of ser (drop k vs)) \<le> n" and "j < k \<Longrightarrow> n < length (file_of ser (drop j vs))"
proof -
  have len: "length (file_of ser (take i vs)) + length (file_of ser (drop i vs)) = length (file_of ser vs)" for i
    using file_of_take_drop [of ser i vs] by (metis length_append)
  have "length (file_of ser vs) - n \<le> length (file_of ser (take k vs))"
    unfolding k by (rule lines_to_reaches) simp
  with len [of k] show "length (file_of ser (drop k vs)) \<le> n" by linarith
  show "n < length (file_of ser (drop j vs))" if "j < k"
    using lines_to_least [OF that [unfolded k]] len [of j] by linarith
qed

lemma rotate_loop_file:
  assumes "json_lines ser de"
  shows "cap < length (file_of ser vs) \<Longrightarrow>
     rotate_loop (off + length (file_of ser vs)) cap (file_of ser vs) d off =
       (d + lines_to ser (length (file_of ser vs) - cap) vs,
        Some (off + length (file_of ser (take (lines_to ser (length (file_of ser vs) - cap) vs) vs))))"
proof (induction vs arbitrary: d off)
  case (Cons v vs)
  have "NL \<notin> set (ser v)" using assms by (simp add: json_lines_def)
  then have ru: "read_until (file_of ser (v # vs)) = (line_of ser v, file_of ser vs)"
    by (simp add: line_of_def read_until_line)
  have ne: "file_of ser (v # vs) \<noteq> []" by (simp add: line_of_def)
  let ?w = "length (line_of ser v)" and ?f = "length (file_of ser vs)"
  have step: "rotate_loop (off + length (file_of ser (v # vs))) cap (file_of ser (v # vs)) d off =
      (if ?f \<le> cap then (d + 1, Some (off + ?w))
       else rotate_loop (off + ?w + ?f) cap (file_of ser vs) (d + 1) (off + ?w))"
    by (subst rotate_loop.simps) (use ne ru in \<open>simp add: add.assoc\<close>)
  show ?case
  proof (cases "?f \<le> cap")
    case True
    then have "?w + ?f - cap - ?w = 0" by simp
    with True Cons.prems show ?thesis unfolding step by simp
  next
    case False
    then have "?w + ?f - cap - ?w = ?f - cap" by simp
    with False Cons.prems Cons.IH [of "off + ?w" "d + 1"] show ?thesis unfolding step by (simp add: add.assoc)
  qed
qed simp

text \<open>Claim C7 (draining loses nothing). From a spool that holds the batches \<open>vs\<close>, a drain without
  limit returns all of them in order and leaves the spool empty. With a limit of \<open>n\<close> bytes it
  returns the newest batches that fit, and exactly the older ones stay in the spool for the next
  drain: no batch is lost, duplicated or cut, also when the limit falls inside a line.\<close>

theorem spool_drain_exact:
  assumes "json_lines ser de" and "pending sp = file_of ser vs"
  shows "\<exists>k \<le> length vs. fst (spool_drain de NoFault lim sp) = Inr (drop k vs) \<and>
     pending (snd (spool_drain de NoFault lim sp)) = file_of ser (take k vs) \<and>
     (if lim = None \<or> lim = Some 0 then k = 0
      else length (file_of ser (drop k vs)) \<le> the lim \<and>
           (\<forall>j < k. the lim < length (file_of ser (drop j vs))))"
proof (cases "sp_active sp")
  case None
  with assms(2) have "file_of ser vs = []" by (simp add: pending_def)
  then have "vs = []" by (cases vs) (auto simp: line_of_def)
  with None show ?thesis by (simp add: spool_drain_def pending_def)
next
  case (Some c)
  with assms(2) have c: "c = file_of ser vs" by (simp add: pending_def)
  show ?thesis
  proof (cases "effective_limit lim (length c)")
    case None
    then have lim: "if lim = None \<or> lim = Some 0 then True else length (file_of ser vs) \<le> the lim"
      by (auto simp: effective_limit_def c split: option.splits if_splits)
    have "spool_drain de NoFault lim sp = (Inr vs, sp\<lparr>sp_active := None, sp_draining := None\<rparr>)"
      using Some None drain_parse_file [OF assms(1), of vs] by (simp add: spool_drain_def c Let_def)
    with lim show ?thesis by (intro exI [of _ 0]) (auto simp: pending_def split: if_splits)
  next
    case (Some n)
    let ?k = "lines_to ser (length (file_of ser vs) - n) vs"
    from Some have n: "lim = Some n" "0 < n" "n < length (file_of ser vs)"
      by (auto simp: effective_limit_def c split: option.splits if_splits)
    have cut: "cut_position c (length c - n) = length (file_of ser (take ?k vs))"
      unfolding c by (rule cut_position_file [OF assms(1)]) simp
    have "take (length (file_of ser (take ?k vs))) c = file_of ser (take ?k vs)"
      "drop (length (file_of ser (take ?k vs))) c = file_of ser (drop ?k vs)"
      unfolding c by (metis append_eq_conv_conj file_of_take_drop)+
    then have "spool_drain de NoFault lim sp =
        (Inr (drop ?k vs), sp\<lparr>sp_active := Some (file_of ser (take ?k vs)), sp_draining := None\<rparr>)"
      using \<open>sp_active sp = Some c\<close> Some n split_drain_cut [of n c] drain_parse_file [OF assms(1)]
      by (simp add: spool_drain_def Let_def cut c [symmetric])
    with n lines_to_fits [OF n(3) refl] lines_to_le [of ser _ vs] show ?thesis
      by (intro exI [of _ ?k]) (auto simp: pending_def)
  qed
qed

text \<open>Rotation keeps the newest batches. Rotating a spool to a cap drops the fewest oldest
  batches that bring it under the cap and reports their number; the spool is at most the cap
  afterwards. Nothing bounds what that drops: when the newest batch alone exceeds the cap, every
  batch is dropped, where the code's comment expects to leave the file as it is.\<close>

theorem rotate_exact:
  assumes "json_lines ser de" and "pending sp = file_of ser vs"
  shows "\<exists>k \<le> length vs. fst (rotate_when_over cap sp) = k \<and>
     pending (snd (rotate_when_over cap sp)) = file_of ser (drop k vs) \<and>
     length (file_of ser (drop k vs)) \<le> cap \<and> (\<forall>j < k. cap < length (file_of ser (drop j vs)))"
proof (cases "sp_active sp")
  case None
  with assms(2) show ?thesis by (intro exI [of _ 0]) (simp add: rotate_when_over_def pending_def)
next
  case (Some c)
  with assms(2) have c: "c = file_of ser vs" by (simp add: pending_def)
  show ?thesis
  proof (cases "length c \<le> cap")
    case True
    with Some c show ?thesis by (intro exI [of _ 0]) (simp add: rotate_when_over_def pending_def)
  next
    case False
    let ?k = "lines_to ser (length c - cap) vs"
    have "rotate_loop (length c) cap c 0 0 = (?k, Some (length (file_of ser (take ?k vs))))"
      using rotate_loop_file [OF assms(1), of cap vs 0 0] False by (simp add: c)
    moreover have "drop (length (file_of ser (take ?k vs))) c = file_of ser (drop ?k vs)"
      unfolding c by (metis append_eq_conv_conj file_of_take_drop)
    ultimately have "rotate_when_over cap sp = (?k, sp\<lparr>sp_active := Some (file_of ser (drop ?k vs))\<rparr>)"
      using Some False by (simp add: rotate_when_over_def)
    moreover from False have "length (file_of ser vs) > cap" by (simp add: c)
    ultimately show ?thesis
      using lines_to_fits [of cap ser vs ?k] lines_to_le [of ser _ vs]
      by (intro exI [of _ ?k]) (auto simp: pending_def c)
  qed
qed

definition flag_ser :: "bool \<Rightarrow> byte_string" where
  "flag_ser b = (if b then [116] else [102])"

definition flag_de :: "byte_string \<Rightarrow> bool option" where
  "flag_de s = (if s = [116] then Some True else if s = [102] then Some False else None)"

lemma flag_json_lines: "json_lines flag_ser flag_de"
  by (simp add: json_lines_def flag_ser_def flag_de_def)

theorem spool_drain_exact_witness:
  "fst (spool_drain flag_de NoFault (Some 3)
     \<lparr>sp_active = Some [116, NL, 102, NL], sp_draining = None\<rparr>) = Inr [False] \<and>
   pending (snd (spool_drain flag_de NoFault (Some 3)
     \<lparr>sp_active = Some [116, NL, 102, NL], sp_draining = None\<rparr>)) = [116, NL]"
proof -
  let ?sp = "\<lparr>sp_active = Some [116, NL, 102, NL], sp_draining = None\<rparr>"
  have "pending ?sp = file_of flag_ser [True, False]" by (simp add: pending_def line_of_def flag_ser_def)
  from spool_drain_exact [OF flag_json_lines this, of "Some 3"]
  obtain k where k: "k \<le> length [True, False]" "fst (spool_drain flag_de NoFault (Some 3) ?sp) = Inr (drop k [True, False])"
    "pending (snd (spool_drain flag_de NoFault (Some 3) ?sp)) = file_of flag_ser (take k [True, False])"
    "length (file_of flag_ser (drop k [True, False])) \<le> 3"
    "\<forall>j < k. 3 < length (file_of flag_ser (drop j [True, False]))" by auto
  have "k \<noteq> 0" using k(4) by (intro notI) (simp add: line_of_def flag_ser_def)
  moreover have "\<not> 1 < k" using k(5) by (intro notI) (auto simp: line_of_def flag_ser_def)
  ultimately have "k = 1" by simp
  with k show ?thesis by (simp add: line_of_def flag_ser_def)
qed

theorem rotate_exact_witness:
  "pending (snd (rotate_when_over 3 \<lparr>sp_active = Some [116, NL, 102, NL], sp_draining = None\<rparr>)) = [102, NL]"
proof -
  let ?sp = "\<lparr>sp_active = Some [116, NL, 102, NL], sp_draining = None\<rparr>"
  have "pending ?sp = file_of flag_ser [True, False]" by (simp add: pending_def line_of_def flag_ser_def)
  from rotate_exact [OF flag_json_lines this, of 3]
  obtain k where k: "k \<le> length [True, False]"
    "pending (snd (rotate_when_over 3 ?sp)) = file_of flag_ser (drop k [True, False])"
    "length (file_of flag_ser (drop k [True, False])) \<le> 3"
    "\<forall>j < k. 3 < length (file_of flag_ser (drop j [True, False]))" by auto
  have "k \<noteq> 0" using k(3) by (intro notI) (simp add: line_of_def flag_ser_def)
  moreover have "\<not> 1 < k" using k(4) by (intro notI) (auto simp: line_of_def flag_ser_def)
  ultimately have "k = 1" by simp
  with k show ?thesis by (simp add: line_of_def flag_ser_def)
qed

section \<open>Failures\<close>

text \<open>A step of the limited drain that fails after the rename leaves the batches in the \<open>.draining\<close>
  file. The next append creates a new active file, and the next drain renames it over that file:
  the stranded batches are gone. A leftover \<open>.draining\<close> file is never read again, where the comment
  says that it would be drained again on the next call.\<close>

lemma stranded_batches_are_lost:
  assumes "json_lines ser de" and "sp_active sp = Some c" and "effective_limit lim (length c) \<noteq> None"
    and sp1: "sp1 = snd (spool_drain de HeadFault lim sp)" and sp2: "sp2 = snd (spool_append ser AppendOk v sp1)"
  shows "sp_draining sp1 = Some c"
    and "spool_drain de NoFault None sp2 = (Inr [v], \<lparr>sp_active = None, sp_draining = None\<rparr>)"
proof -
  have sp1': "sp1 = sp\<lparr>sp_active := None, sp_draining := Some c\<rparr>"
    using assms(2,3) by (auto simp: sp1 spool_drain_def Let_def)
  then show "sp_draining sp1 = Some c" by simp
  have "sp_active sp2 = Some (file_of ser [v])"
    by (simp add: sp2 sp1' spool_append_def line_of_def Let_def)
  then show "spool_drain de NoFault None sp2 = (Inr [v], \<lparr>sp_active = None, sp_draining = None\<rparr>)"
    using drain_parse_file [OF assms(1), of "[v]"]
    by (simp add: spool_drain_def effective_limit_def Let_def)
qed

lemma leftover_draining_file_ignored:
  "spool_drain de NoFault lim \<lparr>sp_active = None, sp_draining = Some c\<rparr> =
     (Inr [], \<lparr>sp_active = None, sp_draining = Some c\<rparr>)"
  by (simp add: spool_drain_def)

text \<open>One line that does not parse fails the whole drain, after the file has been removed.\<close>

lemma corrupt_line_loses_drain:
  assumes "json_lines ser de" and "w \<noteq> []" and "NL \<notin> set w" and "de w = None"
  shows "\<exists>e. spool_drain de NoFault None \<lparr>sp_active = Some (file_of ser vs @ w @ [NL]), sp_draining = None\<rparr> =
     (Inl e, \<lparr>sp_active = None, sp_draining = None\<rparr>)"
proof -
  have "\<exists>e. parse_lines de i (split_newline (file_of ser vs @ w @ [NL])) = Inl e" for i
  proof (induction vs arbitrary: i)
    case Nil
    then show ?case using assms by (simp add: split_newline_line)
  next
    case (Cons v vs)
    from assms(1) have "NL \<notin> set (ser v)" "ser v \<noteq> []" "de (ser v) = Some v" by (auto simp: json_lines_def)
    with Cons [of "Suc i"] show ?case
      by (auto simp: line_of_def split_newline_line)
  qed
  from this [of 0] show ?thesis by (auto simp: spool_drain_def effective_limit_def drain_parse_def Let_def)
qed

text \<open>The bytes an append leaves in the file.\<close>

definition appended :: "('j \<Rightarrow> byte_string) \<Rightarrow> append_io \<Rightarrow> 'j \<Rightarrow> byte_string" where
  "appended ser io v =
     (case io of AppendOk \<Rightarrow> line_of ser v | OpenFailed \<Rightarrow> [] | WriteFailed n \<Rightarrow> take n (line_of ser v))"

lemma pending_append [simp]: "pending (snd (spool_append ser io v sp)) = pending sp @ appended ser io v"
  by (auto simp: spool_append_def pending_def appended_def line_of_def Let_def split: option.splits append_io.splits)

text \<open>A torn append is glued to the next one: the part of the line that was written and the next
  batch are one line, so that batch is lost with it, and when that line does not parse, so is everything
  else in the spool.\<close>

lemma torn_append_loses_drain:
  assumes "json_lines ser de" and "sp_active sp = Some (file_of ser vs)" and "n \<le> length (ser v)"
    and "de (take n (ser v) @ ser v') = None" and sp1: "sp1 = snd (spool_append ser (WriteFailed n) v sp)"
    and sp2: "sp2 = snd (spool_append ser AppendOk v' sp1)" and "sp_draining sp = None"
  shows "\<exists>e. spool_drain de NoFault None sp2 = (Inl e, \<lparr>sp_active = None, sp_draining = None\<rparr>)"
proof -
  let ?w = "take n (ser v) @ ser v'"
  have "ser v' \<noteq> []" "NL \<notin> set (ser v)" "NL \<notin> set (ser v')" using assms(1) by (auto simp: json_lines_def)
  then have w: "?w \<noteq> []" "NL \<notin> set ?w" by (auto dest: in_set_takeD)
  have "sp2 = \<lparr>sp_active = Some (file_of ser vs @ ?w @ [NL]), sp_draining = None\<rparr>"
    using assms(2,3,7) by (simp add: sp2 sp1 spool_append_def Let_def)
  with corrupt_line_loses_drain [OF assms(1) w assms(4), of vs] show ?thesis by simp
qed

end
