(* ===== verification/Worker_Logs.thy ===== *)
theory Worker_Logs
  imports Edge_Spool "HOL-Library.Countable"
begin

text \<open>
  The log forwarder of the worker, \<open>edge-worker/src/log_forwarder.rs\<close>: \<open>push\<close> from the guests, the
  flush of the buffer to the control plane, the spool for the batches that could not be delivered,
  and their replay at start-up.

  A flush holds no lock while its request is in flight, and pushes go on meanwhile: it is two
  steps, \<open>flush_begin\<close> (the guard and the swap of the buffer) and \<open>flush_end\<close> (the response). The
  flag \<open>flush_in_flight\<close> is \<open>lf_in_flight \<noteq> None\<close>. The control plane's answer and whether the append
  to the spool succeeds are arguments.
\<close>

section \<open>State\<close>

datatype log_level = LvError | LvWarn | LvInfo | LvDebug | LvTrace

record log_record =
  lr_level :: log_level
  lr_message :: string
  lr_labels :: "(string \<times> string) list"

record app_log_context =
  lc_app_name :: string
  lc_tenant_id :: string
  lc_deployment_id :: string

record wire_entry =
  we_tenant_id :: string
  we_deployment_id :: string
  we_app_name :: string
  we_worker_id :: string
  we_region :: string
  we_level :: string
  we_message :: string
  we_labels :: json

record forwarder =
  lf_buffer :: "wire_entry list"
  lf_buffered_bytes :: nat
  lf_notified :: bool
  lf_in_flight :: "wire_entry list option"
  lf_worker_id :: string
  lf_region :: string
  lf_max_buffer_len :: nat
  lf_hard_cap :: nat
  lf_byte_notify_threshold :: nat
  lf_spool :: "spool option"

definition DEFAULT_MAX_BUFFER_LEN :: nat where "DEFAULT_MAX_BUFFER_LEN = 100"
definition HARD_CAP_MULT :: nat where "HARD_CAP_MULT = 10"
definition BYTE_NOTIFY_THRESHOLD :: nat where "BYTE_NOTIFY_THRESHOLD = 768 * 1024"
definition BYTE_OVERHEAD_PER_ENTRY :: nat where "BYTE_OVERHEAD_PER_ENTRY = 200"

definition new_with_spool :: "string \<Rightarrow> string \<Rightarrow> spool option \<Rightarrow> forwarder" where
  "new_with_spool worker_id region spool =
     \<lparr>lf_buffer = [], lf_buffered_bytes = 0, lf_notified = False, lf_in_flight = None,
      lf_worker_id = worker_id, lf_region = region, lf_max_buffer_len = DEFAULT_MAX_BUFFER_LEN,
      lf_hard_cap = DEFAULT_MAX_BUFFER_LEN * HARD_CAP_MULT,
      lf_byte_notify_threshold = BYTE_NOTIFY_THRESHOLD, lf_spool = spool\<rparr>"

section \<open>Wire format\<close>

fun log_level_to_string :: "log_level \<Rightarrow> string" where
  "log_level_to_string LvError = ''error''"
| "log_level_to_string LvWarn = ''warn''"
| "log_level_to_string LvInfo = ''info''"
| "log_level_to_string LvDebug = ''debug''"
| "log_level_to_string LvTrace = ''trace''"

definition labels_to_json :: "(string \<times> string) list \<Rightarrow> json" where
  "labels_to_json labels = JObj (hm_collect (map (\<lambda>(k, v). (k, JStr v)) labels))"

definition entry_to_json :: "wire_entry \<Rightarrow> json" where
  "entry_to_json e =
     JObj [(''tenant_id'', JStr (we_tenant_id e)), (''deployment_id'', JStr (we_deployment_id e)),
           (''app_name'', JStr (we_app_name e)), (''worker_id'', JStr (we_worker_id e)),
           (''region'', JStr (we_region e)), (''level'', JStr (we_level e)),
           (''message'', JStr (we_message e)), (''labels'', we_labels e)]"

definition body_to_json :: "wire_entry list \<Rightarrow> json" where
  "body_to_json es = JObj [(''entries'', JArr (map entry_to_json es))]"

definition jstr :: "string \<Rightarrow> json \<Rightarrow> string option" where
  "jstr k j = Option.bind (jget k j) as_str"

definition entry_of_json :: "json \<Rightarrow> wire_entry option" where
  "entry_of_json j =
     (case (jstr ''tenant_id'' j, jstr ''deployment_id'' j, jstr ''app_name'' j, jstr ''worker_id'' j,
            jstr ''region'' j, jstr ''level'' j, jstr ''message'' j, jget ''labels'' j) of
        (Some t, Some d, Some a, Some w, Some r, Some l, Some m, Some ls) \<Rightarrow>
          Some \<lparr>we_tenant_id = t, we_deployment_id = d, we_app_name = a, we_worker_id = w, we_region = r,
                we_level = l, we_message = m, we_labels = ls\<rparr>
      | _ \<Rightarrow> None)"

fun entries_of_json :: "json list \<Rightarrow> wire_entry list option" where
  "entries_of_json [] = Some []"
| "entries_of_json (j # js) =
     (case entry_of_json j of
        None \<Rightarrow> None
      | Some e \<Rightarrow> (case entries_of_json js of None \<Rightarrow> None | Some es \<Rightarrow> Some (e # es)))"

definition body_of_json :: "json \<Rightarrow> wire_entry list option" where
  "body_of_json j = (case jget ''entries'' j of Some (JArr js) \<Rightarrow> entries_of_json js | _ \<Rightarrow> None)"

section \<open>Operations\<close>

definition byte_delta :: "log_record \<Rightarrow> nat" where
  "byte_delta r = length (lr_message r) + BYTE_OVERHEAD_PER_ENTRY +
     sum_list (map (\<lambda>(k, v). length k + length v + 6) (lr_labels r))"

definition wire_entry_of :: "forwarder \<Rightarrow> log_record \<Rightarrow> app_log_context \<Rightarrow> wire_entry" where
  "wire_entry_of f r ctx =
     \<lparr>we_tenant_id = lc_tenant_id ctx, we_deployment_id = lc_deployment_id ctx,
      we_app_name = lc_app_name ctx, we_worker_id = lf_worker_id f, we_region = lf_region f,
      we_level = log_level_to_string (lr_level r), we_message = lr_message r,
      we_labels = labels_to_json (lr_labels r)\<rparr>"

definition lf_push :: "log_record \<Rightarrow> app_log_context \<Rightarrow> forwarder \<Rightarrow> forwarder" where
  "lf_push r ctx f =
     (if length (lf_buffer f) \<ge> lf_hard_cap f then f
      else
        let f' = f\<lparr>lf_buffer := lf_buffer f @ [wire_entry_of f r ctx],
                   lf_buffered_bytes := lf_buffered_bytes f + byte_delta r\<rparr>
        in if (length (lf_buffer f') \<ge> lf_max_buffer_len f'
               \<or> lf_buffered_bytes f' > lf_byte_notify_threshold f') \<and> lf_in_flight f' = None
           then f'\<lparr>lf_notified := True\<rparr> else f')"

datatype post_outcome = Status nat | HttpError

fun is_success :: "nat \<Rightarrow> bool" where "is_success s = (200 \<le> s \<and> s \<le> 299)"
fun is_client_error :: "nat \<Rightarrow> bool" where "is_client_error s = (400 \<le> s \<and> s \<le> 499)"

definition flush_begin :: "forwarder \<Rightarrow> forwarder" where
  "flush_begin f =
     (if lf_in_flight f \<noteq> None then f
      else if lf_buffer f = [] then f
      else f\<lparr>lf_buffer := [], lf_buffered_bytes := 0, lf_in_flight := Some (lf_buffer f)\<rparr>)"

definition persist_failed_batch ::
  "(json \<Rightarrow> byte_string) \<Rightarrow> append_io \<Rightarrow> wire_entry list \<Rightarrow> forwarder \<Rightarrow> forwarder" where
  "persist_failed_batch ser io body f =
     (case lf_spool f of
        None \<Rightarrow> f
      | Some sp \<Rightarrow> f\<lparr>lf_spool := Some (snd (spool_append ser io (body_to_json body) sp))\<rparr>)"

definition flush_end :: "(json \<Rightarrow> byte_string) \<Rightarrow> post_outcome \<Rightarrow> append_io \<Rightarrow> forwarder \<Rightarrow> forwarder" where
  "flush_end ser outcome io f =
     (case lf_in_flight f of
        None \<Rightarrow> f
      | Some body \<Rightarrow>
          let f' = (case outcome of
                      Status s \<Rightarrow>
                        if is_success s then f
                        else if s = 429 then f
                        else if is_client_error s then f
                        else persist_failed_batch ser io body f
                    | HttpError \<Rightarrow> persist_failed_batch ser io body f)
          in f'\<lparr>lf_in_flight := None\<rparr>)"

text \<open>Replay: the answer for the \<open>i\<close>-th batch that is posted and the outcome of its re-append are
  \<open>outs i\<close>; the result lists the bodies that were posted.\<close>

fun replay_batches ::
  "(json \<Rightarrow> byte_string) \<Rightarrow> (nat \<Rightarrow> post_outcome \<times> append_io) \<Rightarrow> nat \<Rightarrow> json list \<Rightarrow> spool \<Rightarrow>
   wire_entry list list \<times> spool" where
  "replay_batches ser outs i [] sp = ([], sp)"
| "replay_batches ser outs i (batch # batches) sp =
     (case body_of_json batch of
        None \<Rightarrow> replay_batches ser outs i batches sp
      | Some body \<Rightarrow>
          let (outcome, io) = outs i;
              sp' = (case outcome of
                       Status s \<Rightarrow>
                         if is_success s then sp
                         else if is_client_error s then sp
                         else snd (spool_append ser io batch sp)
                     | HttpError \<Rightarrow> snd (spool_append ser io batch sp));
              (posted, sp'') = replay_batches ser outs (i + 1) batches sp'
          in (body # posted, sp''))"

definition replay_spool ::
  "(json \<Rightarrow> byte_string) \<Rightarrow> (byte_string \<Rightarrow> json option) \<Rightarrow> drain_fault \<Rightarrow> (nat \<Rightarrow> post_outcome \<times> append_io) \<Rightarrow>
   forwarder \<Rightarrow> wire_entry list list \<times> forwarder" where
  "replay_spool ser de fault outs f =
     (case lf_spool f of
        None \<Rightarrow> ([], f)
      | Some sp \<Rightarrow>
          (case spool_drain de fault None sp of
             (Inl _, sp') \<Rightarrow> ([], f\<lparr>lf_spool := Some sp'\<rparr>)
           | (Inr batches, sp') \<Rightarrow>
               (case replay_batches ser outs 0 batches sp' of
                  (posted, sp'') \<Rightarrow> (posted, f\<lparr>lf_spool := Some sp''\<rparr>))))"

section \<open>Lemmas\<close>

lemma entry_of_to_json [simp]: "entry_of_json (entry_to_json e) = Some e"
  by (simp add: entry_of_json_def entry_to_json_def jstr_def)

lemma entries_of_to_json [simp]: "entries_of_json (map entry_to_json es) = Some es"
  by (induction es) simp_all

lemma body_of_to_json [simp]: "body_of_json (body_to_json es) = Some es"
  by (simp add: body_of_json_def body_to_json_def)

lemma drain_all:
  assumes "json_lines ser de" and "pending sp = file_of ser vs"
  shows "fst (spool_drain de NoFault None sp) = Inr vs \<and> pending (snd (spool_drain de NoFault None sp)) = []"
proof (cases "sp_active sp")
  case None
  with assms(2) have "file_of ser vs = []" by (simp add: pending_def)
  then have "vs = []" by (cases vs) (auto simp: line_of_def)
  with None show ?thesis by (simp add: spool_drain_def pending_def)
next
  case (Some c)
  with assms show ?thesis
    using drain_parse_file [OF assms(1), of vs] by (simp add: spool_drain_def effective_limit_def pending_def)
qed

lemma file_of_append [simp]: "file_of ser (vs @ ws) = file_of ser vs @ file_of ser ws"
  by (simp add: file_of_def)

section \<open>Histories\<close>

text \<open>A history interleaves pushes with the beginnings and ends of flushes, as the pushes of the
  guests interleave with the flush task. The trace records the entries the buffer took, in order,
  and each batch a flush sent with what became of it.\<close>

datatype log_event =
  LPush log_record app_log_context
| LFlushBegin
| LFlushEnd post_outcome append_io

text \<open>A batch is delivered, refused, or its delivery fails. Then it is written to the spool, or torn: the
  append failed after so many bytes, or lost: the spool could not be opened, or there is none. A torn
  or lost batch is not kept anywhere else.\<close>

datatype disposition = Delivered | Rejected | Spooled | Torn nat | Lost

definition append_disposition :: "bool \<Rightarrow> append_io \<Rightarrow> disposition" where
  "append_disposition has_spool io =
     (if \<not> has_spool then Lost
      else case io of AppendOk \<Rightarrow> Spooled | WriteFailed n \<Rightarrow> Torn n | OpenFailed \<Rightarrow> Lost)"

definition disposition_of :: "bool \<Rightarrow> post_outcome \<Rightarrow> append_io \<Rightarrow> disposition" where
  "disposition_of has_spool outcome io =
     (case outcome of
        Status s \<Rightarrow>
          if is_success s then Delivered
          else if is_client_error s then Rejected
          else append_disposition has_spool io
      | HttpError \<Rightarrow> append_disposition has_spool io)"

record log_trace =
  lt_taken :: "wire_entry list"
  lt_sent :: "(wire_entry list \<times> disposition) list"

fun log_step :: "(json \<Rightarrow> byte_string) \<Rightarrow> log_event \<Rightarrow> forwarder \<times> log_trace \<Rightarrow> forwarder \<times> log_trace" where
  "log_step ser (LPush r ctx) (f, t) =
     (lf_push r ctx f,
      if length (lf_buffer f) < lf_hard_cap f
      then t\<lparr>lt_taken := lt_taken t @ [wire_entry_of f r ctx]\<rparr> else t)"
| "log_step ser LFlushBegin (f, t) = (flush_begin f, t)"
| "log_step ser (LFlushEnd outcome io) (f, t) =
     (flush_end ser outcome io f,
      case lf_in_flight f of
        None \<Rightarrow> t
      | Some body \<Rightarrow>
          t\<lparr>lt_sent := lt_sent t @ [(body, disposition_of (lf_spool f \<noteq> None) outcome io)]\<rparr>)"

definition log_run ::
  "(json \<Rightarrow> byte_string) \<Rightarrow> log_event list \<Rightarrow> forwarder \<Rightarrow> forwarder \<times> log_trace" where
  "log_run ser steps f = fold (log_step ser) steps (f, \<lparr>lt_taken = [], lt_sent = []\<rparr>)"

definition in_flight_entries :: "forwarder \<Rightarrow> wire_entry list" where
  "in_flight_entries f = (case lf_in_flight f of None \<Rightarrow> [] | Some b \<Rightarrow> b)"

text \<open>What a batch left in the spool.\<close>

fun spool_share :: "(json \<Rightarrow> byte_string) \<Rightarrow> wire_entry list \<times> disposition \<Rightarrow> byte_string" where
  "spool_share ser (b, Spooled) = line_of ser (body_to_json b)"
| "spool_share ser (b, Torn n) = take n (line_of ser (body_to_json b))"
| "spool_share ser (b, _) = []"

definition spool_bytes :: "(json \<Rightarrow> byte_string) \<Rightarrow> (wire_entry list \<times> disposition) list \<Rightarrow> byte_string" where
  "spool_bytes ser sent = concat (map (spool_share ser) sent)"

definition spool_holds :: "(json \<Rightarrow> byte_string) \<Rightarrow> byte_string \<Rightarrow> forwarder \<times> log_trace \<Rightarrow> bool" where
  "spool_holds ser old = (\<lambda>(f, t). case lf_spool f of
     None \<Rightarrow> spool_bytes ser (lt_sent t) = []
   | Some sp \<Rightarrow> pending sp = old @ spool_bytes ser (lt_sent t))"

definition log_inv :: "(json \<Rightarrow> byte_string) \<Rightarrow> byte_string \<Rightarrow> forwarder \<times> log_trace \<Rightarrow> bool" where
  "log_inv ser old = (\<lambda>(f, t).
     lt_taken t = concat (map fst (lt_sent t)) @ in_flight_entries f @ lf_buffer f \<and>
     length (lf_buffer f) \<le> lf_hard_cap f \<and>
     (\<forall>(b, d) \<in> set (lt_sent t). b \<noteq> [] \<and> length b \<le> lf_hard_cap f) \<and>
     (case lf_in_flight f of None \<Rightarrow> True | Some b \<Rightarrow> b \<noteq> [] \<and> length b \<le> lf_hard_cap f) \<and>
     spool_holds ser old (f, t))"

lemma lf_push_frame [simp]:
  "lf_in_flight (lf_push r ctx f) = lf_in_flight f" "lf_spool (lf_push r ctx f) = lf_spool f"
  "lf_hard_cap (lf_push r ctx f) = lf_hard_cap f"
  by (simp_all add: lf_push_def Let_def)

lemma lf_push_buffer [simp]:
  "lf_buffer (lf_push r ctx f) =
     (if length (lf_buffer f) < lf_hard_cap f then lf_buffer f @ [wire_entry_of f r ctx] else lf_buffer f)"
  by (simp add: lf_push_def Let_def)

lemma flush_end_frame [simp]:
  "lf_buffer (flush_end ser out io f) = lf_buffer f" "lf_hard_cap (flush_end ser out io f) = lf_hard_cap f"
  "lf_in_flight (flush_end ser out io f) = None"
  by (auto simp: flush_end_def persist_failed_batch_def Let_def split: option.splits post_outcome.splits)

lemma spool_share_disposition:
  "spool_share ser (b, disposition_of h out io) =
     (if disposition_of h out io \<in> {Delivered, Rejected} \<or> \<not> h then [] else appended ser io (body_to_json b))"
  by (auto simp: disposition_of_def append_disposition_def appended_def split: post_outcome.splits append_io.splits)

lemma flush_end_spool:
  "lf_in_flight f = Some b \<Longrightarrow> lf_spool (flush_end ser out io f) =
     (case lf_spool f of
        None \<Rightarrow> None
      | Some sp \<Rightarrow> Some (if disposition_of True out io \<in> {Delivered, Rejected} then sp
                        else snd (spool_append ser io (body_to_json b) sp)))"
  by (auto simp: flush_end_def persist_failed_batch_def disposition_of_def append_disposition_def Let_def
      split: option.splits post_outcome.splits append_io.splits)

lemma spool_holds_step:
  assumes "spool_holds ser old (f, t)" and "lf_in_flight f = Some b"
  shows "spool_holds ser old
     (flush_end ser out io f, t\<lparr>lt_sent := lt_sent t @ [(b, disposition_of (lf_spool f \<noteq> None) out io)]\<rparr>)"
  using assms by (cases "lf_spool f")
    (simp_all add: spool_holds_def flush_end_spool spool_bytes_def spool_share_disposition)

lemma log_inv_step: "log_inv ser old (f, t) \<Longrightarrow> log_inv ser old (log_step ser st (f, t))"
proof (cases st)
  case (LPush r ctx)
  assume "log_inv ser old (f, t)"
  with LPush show ?thesis
    by (auto simp: log_inv_def spool_holds_def in_flight_entries_def split: option.splits)
next
  case LFlushBegin
  assume "log_inv ser old (f, t)"
  with LFlushBegin show ?thesis
    by (auto simp: log_inv_def spool_holds_def in_flight_entries_def flush_begin_def
        split: option.splits)
next
  case (LFlushEnd out io)
  assume inv: "log_inv ser old (f, t)"
  show ?thesis
  proof (cases "lf_in_flight f")
    case None
    with LFlushEnd inv show ?thesis by (simp add: log_inv_def flush_end_def in_flight_entries_def)
  next
    case (Some b)
    with inv have "spool_holds ser old (f, t)" by (simp add: log_inv_def)
    note spool_holds_step [OF this Some, of out io]
    with LFlushEnd Some inv show ?thesis by (auto simp: log_inv_def in_flight_entries_def)
  qed
qed

lemma log_inv_run:
  "log_inv ser old (f, t) \<Longrightarrow> log_inv ser old (fold (log_step ser) steps (f, t))"
proof (induction steps arbitrary: f t)
  case (Cons st steps)
  obtain f' t' where "log_step ser st (f, t) = (f', t')" by fastforce
  with Cons.IH [of f' t'] log_inv_step [OF Cons.prems, of st] show ?case by simp
qed simp

lemma log_step_frame:
  "lf_hard_cap (fst (log_step ser st (f, t))) = lf_hard_cap f"
  "lf_spool (fst (log_step ser st (f, t))) = None \<longleftrightarrow> lf_spool f = None"
  by (cases st; auto simp: flush_begin_def flush_end_def persist_failed_batch_def Let_def
      split: option.splits post_outcome.splits)+

lemma log_run_frame:
  "lf_hard_cap (fst (fold (log_step ser) steps (f, t))) = lf_hard_cap f \<and>
   (lf_spool (fst (fold (log_step ser) steps (f, t))) = None \<longleftrightarrow> lf_spool f = None)"
proof (induction steps arbitrary: f t)
  case (Cons st steps)
  obtain f' t' where "log_step ser st (f, t) = (f', t')" by fastforce
  with Cons.IH [of f' t'] log_step_frame [of ser st f t] show ?case by simp
qed simp

lemma replay_batches_exact:
  "fst (replay_batches ser outs i (map body_to_json bs) sp) = bs \<and>
   pending (snd (replay_batches ser outs i (map body_to_json bs) sp)) =
     pending sp @ spool_bytes ser (map (\<lambda>(b, out, io). (b, disposition_of True out io))
       (zip bs (map outs [i..<i + length bs])))"
proof (induction bs arbitrary: i sp)
  case (Cons b bs)
  obtain out io where o: "outs i = (out, io)" by fastforce
  define sp' where "sp' = (if disposition_of True out io \<in> {Delivered, Rejected} then sp
    else snd (spool_append ser io (body_to_json b) sp))"
  have rec: "replay_batches ser outs i (map body_to_json (b # bs)) sp =
      (case replay_batches ser outs (i + 1) (map body_to_json bs) sp' of (ps, sp'') \<Rightarrow> (b # ps, sp''))"
    by (auto simp: o sp'_def disposition_of_def append_disposition_def split: post_outcome.splits append_io.splits)
  have "pending sp' = pending sp @ spool_share ser (b, disposition_of True out io)"
    by (simp add: sp'_def spool_share_disposition)
  moreover define js where "js = [i + 1..<i + 1 + length bs]"
  then have "[i..<i + length (b # bs)] = i # js" by (subst upt_conv_Cons) simp_all
  ultimately show ?case using Cons.IH [of "i + 1" sp', folded js_def] unfolding rec
    by (auto simp: o spool_bytes_def split: prod.splits)
qed (simp add: spool_bytes_def)

text \<open>Without a failed append, what the spool got is the file of the spooled batches.\<close>

lemma spool_bytes_whole:
  assumes "\<forall>(b, d) \<in> set sent. \<forall>n. d \<noteq> Torn n"
  shows "spool_bytes ser sent = file_of ser (map (body_to_json \<circ> fst) (filter (\<lambda>(_, d). d = Spooled) sent))"
  using assms
proof (induction sent)
  case (Cons x sent)
  obtain b d where x: "x = (b, d)" by fastforce
  from Cons show ?case by (cases d) (simp_all add: x spool_bytes_def)
qed (simp add: spool_bytes_def)

text \<open>Claim C8 (what becomes of every log entry). For every interleaving of pushes and flushes from a
  new forwarder, and every outcome of the deliveries and of the appends to the spool: the entries the
  buffer took are, in their order, the batches that were sent, then the batch in flight, then the
  buffer, so no entry is duplicated or reordered and each is in exactly one batch; no batch is empty;
  buffer and batches never hold more than 1000 entries. The spool holds what it held before, followed,
  oldest first, by what the batches whose delivery failed left there: the whole line of a batch whose
  append succeeded, and the bytes that had been written of a batch whose append failed. A batch whose
  append failed is kept nowhere else: \<open>append\<close> asks its caller to put it back into the buffer, which
  \<open>persist_failed_batch\<close> does not do.\<close>

theorem log_history_exact:
  "case log_run ser steps (new_with_spool w reg (Some sp)) of (f, t) \<Rightarrow>
     lt_taken t = concat (map fst (lt_sent t)) @ in_flight_entries f @ lf_buffer f \<and>
     length (lf_buffer f) \<le> 1000 \<and> length (in_flight_entries f) \<le> 1000 \<and>
     list_all (\<lambda>(b, d). b \<noteq> [] \<and> length b \<le> 1000) (lt_sent t) \<and>
     map_option pending (lf_spool f) = Some (pending sp @ spool_bytes ser (lt_sent t))"
proof -
  let ?f = "new_with_spool w reg (Some sp)" and ?t = "\<lparr>lt_taken = [], lt_sent = []\<rparr>"
  obtain f t where r: "log_run ser steps ?f = (f, t)" by fastforce
  have "log_inv ser (pending sp) (?f, ?t)"
    by (simp add: log_inv_def new_with_spool_def in_flight_entries_def spool_holds_def spool_bytes_def)
  from log_inv_run [OF this, of steps] r have inv: "log_inv ser (pending sp) (f, t)" by (simp add: log_run_def)
  have frame: "lf_hard_cap f = 1000" "lf_spool f \<noteq> None"
    using log_run_frame [of ser steps ?f ?t] r
    by (simp_all add: log_run_def new_with_spool_def DEFAULT_MAX_BUFFER_LEN_def HARD_CAP_MULT_def)
  have "list_all (\<lambda>(b, d). b \<noteq> [] \<and> length b \<le> 1000) (lt_sent t)"
    using inv frame(1) by (auto simp: log_inv_def list_all_iff)
  with inv frame r show ?thesis
    by (auto simp: log_inv_def in_flight_entries_def spool_holds_def split: option.splits)
qed

text \<open>Replay. When the log forwarder starts over a spool of batches that an earlier run
  left behind, the replay posts every one of them, in the order they were spooled. A batch the
  control plane takes (2xx) or refuses (4xx, 429 included) leaves the spool; a batch whose delivery
  fails again is appended again, in the same order, as far as the append gets.\<close>

theorem replay_exact:
  assumes "json_lines ser de" and "lf_spool f = Some sp" and "pending sp = file_of ser (map body_to_json bs)"
  shows "fst (replay_spool ser de NoFault outs f) = bs \<and>
    map_option pending (lf_spool (snd (replay_spool ser de NoFault outs f))) =
      Some (spool_bytes ser (map (\<lambda>(b, out, io). (b, disposition_of True out io))
        (zip bs (map outs [0..<length bs]))))"
proof -
  obtain sp' where sp': "spool_drain de NoFault None sp = (Inr (map body_to_json bs), sp')" "pending sp' = []"
    using drain_all [OF assms(1,3)] by (metis prod.collapse)
  show ?thesis using replay_batches_exact [of ser outs 0 bs sp'] sp' assms(2)
    by (auto simp: replay_spool_def split: prod.splits)
qed

text \<open>A line format for JSON values, as the witness of the hypothesis on \<open>serde_json\<close>.\<close>

instance json :: countable
  by countable_datatype

definition unary_ser :: "json \<Rightarrow> byte_string" where
  "unary_ser v = replicate (Suc (to_nat v)) 49"

definition unary_de :: "byte_string \<Rightarrow> json option" where
  "unary_de s = Some (from_nat (length s - 1))"

lemma unary_json_lines: "json_lines unary_ser unary_de"
  by (auto simp: json_lines_def unary_ser_def unary_de_def)

theorem replay_exact_witness:
  "fst (replay_spool unary_ser unary_de NoFault (\<lambda>i. (if i = 0 then HttpError else Status 200, AppendOk))
     (new_with_spool ''w1'' ''fra'' (Some \<lparr>sp_active = Some (file_of unary_ser (map body_to_json [[], []])),
        sp_draining = None\<rparr>))) = [[], []]"
  using replay_exact [OF unary_json_lines, of
      "new_with_spool ''w1'' ''fra'' (Some \<lparr>sp_active = Some (file_of unary_ser (map body_to_json [[], []])),
        sp_draining = None\<rparr>)" _ "[[], []]" "\<lambda>i. (if i = 0 then HttpError else Status 200, AppendOk)"]
  by (simp add: new_with_spool_def pending_def)

section \<open>Limits of the replay\<close>

text \<open>A single line that does not parse, or a drain that fails, and the replay posts nothing; after a
  parse error the drained batches are gone. A flush never reads the spool: a batch that was spooled
  is sent again only after a restart.\<close>

lemma replay_after_parse_error:
  assumes "lf_spool f = Some sp" and "sp_active sp = Some c" and "drain_parse de c = Inl e"
  shows "fst (replay_spool ser de NoFault outs f) = [] \<and>
    map_option pending (lf_spool (snd (replay_spool ser de NoFault outs f))) = Some []"
  using assms by (simp add: replay_spool_def spool_drain_def effective_limit_def pending_def Let_def)

lemma flush_keeps_spooled:
  assumes "lf_spool f = Some sp"
  shows "lf_spool (flush_begin f) = Some sp"
    and "\<exists>sp' added. lf_spool (flush_end ser out io f) = Some sp' \<and> pending sp' = pending sp @ added"
proof -
  show "lf_spool (flush_begin f) = Some sp" using assms by (simp add: flush_begin_def)
  show "\<exists>sp' added. lf_spool (flush_end ser out io f) = Some sp' \<and> pending sp' = pending sp @ added"
    by (cases "lf_in_flight f") (auto simp: flush_end_spool assms, simp add: flush_end_def assms)
qed

text \<open>The early flush is signalled when the soft cap or the byte threshold is reached and no flush is
  in flight.\<close>

lemma push_signals:
  assumes "length (lf_buffer f) < lf_hard_cap f" and "lf_in_flight f = None"
  shows "lf_notified (lf_push r ctx f) \<longleftrightarrow>
    lf_notified f \<or> Suc (length (lf_buffer f)) \<ge> lf_max_buffer_len f
    \<or> lf_buffered_bytes f + byte_delta r > lf_byte_notify_threshold f"
  using assms by (auto simp: lf_push_def Let_def)

end
