(* ===== verification/Runtime_Observe.thy ===== *)
theory Runtime_Observe
  imports Worker_Logs Complex_Main
begin

text \<open>
  \<open>edge:observe\<close> (\<open>edge-runtime/src/interfaces/observe.rs\<close>): the metrics of an app and the path of its log records
  to the log forwarder, with the samples that the heartbeat takes from the metrics
  (\<open>build_heartbeat\<close> of \<open>edge-worker/src/supervisor.rs\<close>).

  The value of a gauge or of a histogram sample is of an arbitrary type. The tokens of the rate limiter are rational
  numbers, as every finite \<open>f64\<close> is, and \<open>rnd\<close> is the rounding of IEEE 754 that follows each operation.
\<close>

section \<open>Token buckets\<close>

record token_bucket =
  tb_tokens :: rat
  tb_last_refill :: instant
  tb_max_tokens :: rat
  tb_refill_rate_per_sec :: rat

definition tb_new :: "nat \<Rightarrow> nat \<Rightarrow> instant \<Rightarrow> token_bucket" where
  "tb_new rate_per_sec burst now =
     (let mx = of_nat (max burst rate_per_sec)
      in \<lparr>tb_tokens = mx, tb_last_refill = now, tb_max_tokens = mx, tb_refill_rate_per_sec = of_nat rate_per_sec\<rparr>)"

definition as_secs_f64 :: "(rat \<Rightarrow> rat) \<Rightarrow> duration \<Rightarrow> rat" where
  "as_secs_f64 rnd d = rnd (rnd (of_nat (d div 10 ^ 9)) + rnd (of_nat (d mod 10 ^ 9) / 10 ^ 9))"

definition try_take :: "(rat \<Rightarrow> rat) \<Rightarrow> instant \<Rightarrow> token_bucket \<Rightarrow> bool \<times> token_bucket" where
  "try_take rnd now b =
     (let elapsed = as_secs_f64 rnd (now - tb_last_refill b);
          tokens = min (rnd (tb_tokens b + rnd (elapsed * tb_refill_rate_per_sec b))) (tb_max_tokens b);
          b = b\<lparr>tb_tokens := tokens, tb_last_refill := now\<rparr>
      in if tokens \<ge> 1 then (True, b\<lparr>tb_tokens := rnd (tokens - 1)\<rparr>) else (False, b))"

section \<open>Metrics\<close>

type_synonym metric_labels = "(string \<times> string) list"

fun series_key :: "string \<Rightarrow> metric_labels \<Rightarrow> string" where
  "series_key name [] = name"
| "series_key name ((k, v) # labels) = series_key (name @ CHR 0x00 # k @ CHR 0x00 # v) labels"

record 'v metrics_accumulator =
  ma_counters :: "(string, u64 \<times> metric_labels) hashmap"
  ma_gauges :: "(string, 'v \<times> metric_labels) hashmap"
  ma_histograms :: "(string, ('v \<times> metric_labels) list) hashmap"

definition ma_new :: "'v metrics_accumulator" where
  "ma_new = \<lparr>ma_counters = [], ma_gauges = [], ma_histograms = []\<rparr>"

record 'v metric_entry =
  me_name :: string
  me_value :: 'v
  me_labels :: metric_labels

record 'v metrics_snapshot =
  ms_counters :: "u64 metric_entry list"
  ms_gauges :: "'v metric_entry list"
  ms_histograms :: "(string, ('v \<times> metric_labels) list) hashmap"

definition entry_of :: "string \<times> 'v \<times> metric_labels \<Rightarrow> 'v metric_entry" where
  "entry_of = (\<lambda>(key, val, lbls).
     \<lparr>me_name = (case split_once (CHR 0x00) key of Some (n, _) \<Rightarrow> n | None \<Rightarrow> key), me_value = val, me_labels = lbls\<rparr>)"

definition ma_snapshot :: "'v metrics_accumulator \<Rightarrow> 'v metrics_snapshot \<times> 'v metrics_accumulator" where
  "ma_snapshot acc =
     (\<lparr>ms_counters = map entry_of (ma_counters acc), ms_gauges = map entry_of (ma_gauges acc),
       ms_histograms = ma_histograms acc\<rparr>,
      acc\<lparr>ma_histograms := []\<rparr>)"

definition increment :: "string \<Rightarrow> metric_labels \<Rightarrow> 'v metrics_accumulator \<Rightarrow> 'v metrics_accumulator" where
  "increment name labels acc =
     (let key = series_key name labels;
          entry = (case hm_get (ma_counters acc) key of Some e \<Rightarrow> e | None \<Rightarrow> (0, labels))
      in acc\<lparr>ma_counters := hm_insert key (fst entry + 1, snd entry) (ma_counters acc)\<rparr>)"

definition set_gauge :: "string \<Rightarrow> 'v \<Rightarrow> metric_labels \<Rightarrow> 'v metrics_accumulator \<Rightarrow> 'v metrics_accumulator" where
  "set_gauge name val labels acc =
     acc\<lparr>ma_gauges := hm_insert (series_key name labels) (val, labels) (ma_gauges acc)\<rparr>"

definition add_histogram :: "string \<Rightarrow> 'v \<Rightarrow> metric_labels \<Rightarrow> 'v metrics_accumulator \<Rightarrow> 'v metrics_accumulator" where
  "add_histogram name val labels acc =
     (let entry = (case hm_get (ma_histograms acc) name of Some e \<Rightarrow> e | None \<Rightarrow> [])
      in acc\<lparr>ma_histograms := hm_insert name (entry @ [(val, labels)]) (ma_histograms acc)\<rparr>)"

section \<open>Samples of the heartbeat\<close>

datatype metric_kind = Counter | Gauge | HistogramSample

record 'v metric_sample =
  sm_name :: string
  sm_kind :: metric_kind
  sm_value :: 'v
  sm_labels :: metric_labels

definition sample_of :: "metric_kind \<Rightarrow> 'v metric_entry \<Rightarrow> 'v metric_sample" where
  "sample_of kind e = \<lparr>sm_name = me_name e, sm_kind = kind, sm_value = me_value e, sm_labels = me_labels e\<rparr>"

text \<open>The part of \<open>build_heartbeat\<close> that fills \<open>observer_metrics\<close>; \<open>to_f64\<close> is the conversion \<open>as f64\<close>.\<close>

definition observer_metrics ::
  "(u64 \<Rightarrow> 'v) \<Rightarrow> 'v metrics_accumulator option \<Rightarrow> 'v metric_sample list \<times> 'v metrics_accumulator option" where
  "observer_metrics to_f64 metrics_acc =
     (case metrics_acc of
        None \<Rightarrow> ([], None)
      | Some acc \<Rightarrow>
          (case ma_snapshot acc of
             (msnap, acc) \<Rightarrow>
               (map (\<lambda>c. sample_of Counter \<lparr>me_name = me_name c, me_value = to_f64 (me_value c), me_labels = me_labels c\<rparr>)
                  (ms_counters msnap) @
                map (sample_of Gauge) (ms_gauges msnap) @
                concat (map (\<lambda>(name, entries). map (\<lambda>(val, labels).
                  \<lparr>sm_name = name, sm_kind = HistogramSample, sm_value = val, sm_labels = labels\<rparr>) entries) (ms_histograms msnap)),
                Some acc)))"

section \<open>Log records\<close>

definition MAX_LOG_MESSAGE_BYTES :: nat where
  "MAX_LOG_MESSAGE_BYTES = 16 * 1024"

definition from_level_str :: "string \<Rightarrow> log_level" where
  "from_level_str s =
     (if s = ''error'' then LvError else if s = ''warn'' then LvWarn else if s = ''info'' then LvInfo
      else if s = ''debug'' then LvDebug else LvTrace)"

text \<open>The order of \<open>tracing::Level\<close>.\<close>

fun to_tracing_level :: "log_level \<Rightarrow> nat" where
  "to_tracing_level LvError = 1"
| "to_tracing_level LvWarn = 2"
| "to_tracing_level LvInfo = 3"
| "to_tracing_level LvDebug = 4"
| "to_tracing_level LvTrace = 5"

record 'v observe_config =
  oc_min_log_level :: log_level
  oc_app_ctx :: app_log_context
  oc_metrics_acc :: "'v metrics_accumulator option"

record 'v observer =
  ob_acc :: "'v metrics_accumulator"
  ob_app_ctx :: app_log_context
  ob_min_log_level :: log_level
  ob_dropped_size_cap_count :: u64
  ob_rate_limiters :: "(string, token_bucket) hashmap"

definition oc_default :: "app_log_context \<Rightarrow> 'v metrics_accumulator option \<Rightarrow> 'v observe_config" where
  "oc_default ctx acc = \<lparr>oc_min_log_level = LvInfo, oc_app_ctx = ctx, oc_metrics_acc = acc\<rparr>"

definition from_config :: "'v observe_config \<Rightarrow> 'v observer" where
  "from_config config =
     \<lparr>ob_acc = (case oc_metrics_acc config of Some acc \<Rightarrow> acc | None \<Rightarrow> ma_new),
      ob_app_ctx = oc_app_ctx config, ob_min_log_level = oc_min_log_level config,
      ob_dropped_size_cap_count = 0, ob_rate_limiters = []\<rparr>"

definition check_rate_limit :: "(rat \<Rightarrow> rat) \<Rightarrow> instant \<Rightarrow> string \<Rightarrow> 'v observer \<Rightarrow> bool \<times> 'v observer" where
  "check_rate_limit rnd now tenant_id ob =
     (let rate = 1000;
          bucket = (case hm_get (ob_rate_limiters ob) tenant_id of Some b \<Rightarrow> b | None \<Rightarrow> tb_new rate (rate * 2) now);
          (ok, bucket) = try_take rnd now bucket
      in (ok, ob\<lparr>ob_rate_limiters := hm_insert tenant_id bucket (ob_rate_limiters ob)\<rparr>))"

text \<open>\<open>emit_log_record_inner\<close> with the log forwarder as its sink. The local output of \<open>tracing\<close> is left out.\<close>

definition emit_log_record :: "(rat \<Rightarrow> rat) \<Rightarrow> instant \<Rightarrow> log_record \<Rightarrow> 'v observer \<times> forwarder \<Rightarrow> 'v observer \<times> forwarder" where
  "emit_log_record rnd now r = (\<lambda>(ob, f).
     if to_tracing_level (lr_level r) > to_tracing_level (ob_min_log_level ob) then (ob, f)
     else if length (lr_message r) > MAX_LOG_MESSAGE_BYTES
     then (ob\<lparr>ob_dropped_size_cap_count := ob_dropped_size_cap_count ob + 1\<rparr>, f)
     else
       let (ok, ob) = check_rate_limit rnd now (lc_tenant_id (ob_app_ctx ob)) ob
       in if \<not> ok then (ob, f) else (ob, lf_push r (ob_app_ctx ob) f))"

definition emit_log ::
  "(rat \<Rightarrow> rat) \<Rightarrow> instant \<Rightarrow> string \<Rightarrow> string \<Rightarrow> metric_labels \<Rightarrow> 'v observer \<times> forwarder \<Rightarrow> 'v observer \<times> forwarder" where
  "emit_log rnd now level message labels =
     emit_log_record rnd now \<lparr>lr_level = from_level_str level, lr_message = message, lr_labels = labels\<rparr>"

definition increment_counter :: "string \<Rightarrow> metric_labels \<Rightarrow> 'v observer \<Rightarrow> 'v observer" where
  "increment_counter name labels ob = ob\<lparr>ob_acc := increment name labels (ob_acc ob)\<rparr>"

definition record_gauge :: "string \<Rightarrow> 'v \<Rightarrow> metric_labels \<Rightarrow> 'v observer \<Rightarrow> 'v observer" where
  "record_gauge name val labels ob = ob\<lparr>ob_acc := set_gauge name val labels (ob_acc ob)\<rparr>"

definition record_histogram :: "string \<Rightarrow> 'v \<Rightarrow> metric_labels \<Rightarrow> 'v observer \<Rightarrow> 'v observer" where
  "record_histogram name val labels ob = ob\<lparr>ob_acc := add_histogram name val labels (ob_acc ob)\<rparr>"

section \<open>Series\<close>

definition nul_free :: "string \<Rightarrow> metric_labels \<Rightarrow> bool" where
  "nul_free name labels \<longleftrightarrow> CHR 0x00 \<notin> set name \<and> list_all (\<lambda>(k, v). CHR 0x00 \<notin> set k \<and> CHR 0x00 \<notin> set v) labels"

fun labels_key :: "metric_labels \<Rightarrow> string" where
  "labels_key [] = []"
| "labels_key ((k, v) # labels) = CHR 0x00 # k @ CHR 0x00 # v @ labels_key labels"

lemma series_key_append: "series_key name labels = name @ labels_key labels"
  by (induction name labels rule: series_key.induct) simp_all

lemma labels_key_cases: "labels_key l = [] \<or> (\<exists>s. labels_key l = CHR 0x00 # s)"
  by (cases l) auto

lemma sep_tails:
  fixes a b x y :: string
  assumes "a @ x = b @ y" and "CHR 0x00 \<notin> set a" and "CHR 0x00 \<notin> set b"
    and "x = [] \<or> (\<exists>s. x = CHR 0x00 # s)" and "y = [] \<or> (\<exists>s. y = CHR 0x00 # s)"
  shows "a = b \<and> x = y"
proof -
  have t: "takeWhile (\<lambda>c. c \<noteq> CHR 0x00) (u @ w) = u" if "CHR 0x00 \<notin> set u" "w = [] \<or> (\<exists>s. w = CHR 0x00 # s)" for u w :: string
  proof -
    have "takeWhile (\<lambda>c. c \<noteq> CHR 0x00) (u @ w) = u @ takeWhile (\<lambda>c. c \<noteq> CHR 0x00) w"
      by (rule takeWhile_append2) (use that(1) in metis)
    then show ?thesis using that(2) by auto
  qed
  have "a = b" using t [OF assms(2, 4)] t [OF assms(3, 5)] assms(1) by simp
  with assms(1) show ?thesis by simp
qed

lemma labels_key_inj:
  assumes "labels_key l = labels_key l'" and "nul_free [] l" and "nul_free [] l'"
  shows "l = l'"
  using assms
proof (induction l arbitrary: l' rule: labels_key.induct)
  case 1
  then show ?case by (cases l') auto
next
  case (2 k v l)
  obtain k' v' m where l': "l' = (k', v') # m" using "2.prems"(1) by (cases l') auto
  have n: "CHR 0x00 \<notin> set k" "CHR 0x00 \<notin> set k'" "CHR 0x00 \<notin> set v" "CHR 0x00 \<notin> set v'" "nul_free [] l" "nul_free [] m"
    using "2.prems"(2, 3) l' by (auto simp: nul_free_def)
  have "k @ CHR 0x00 # (v @ labels_key l) = k' @ CHR 0x00 # (v' @ labels_key m)" using "2.prems"(1) l' by simp
  then have k: "k = k'" "v @ labels_key l = v' @ labels_key m" unfolding append_sep_inj [OF n(1, 2)] by auto
  from sep_tails [OF k(2) n(3, 4) labels_key_cases labels_key_cases] "2.IH" n(5, 6) k(1) l' show ?case by auto
qed

lemma series_key_inj:
  assumes "series_key n l = series_key n' l'" and "nul_free n l" and "nul_free n' l'"
  shows "n = n' \<and> l = l'"
proof -
  have "n = n' \<and> labels_key l = labels_key l'"
    using assms by (intro sep_tails) (auto simp: series_key_append nul_free_def labels_key_cases)
  moreover have "nul_free [] l" "nul_free [] l'" using assms(2, 3) by (auto simp: nul_free_def)
  ultimately show ?thesis using labels_key_inj by blast
qed

lemma series_name:
  assumes "nul_free n l"
  shows "(case split_once (CHR 0x00) (series_key n l) of Some (a, _) \<Rightarrow> a | None \<Rightarrow> series_key n l) = n"
proof (cases l)
  case Nil
  then show ?thesis using assms split_once_None [of "CHR 0x00" n] by (simp add: nul_free_def)
next
  case (Cons kv ls)
  then obtain s where "labels_key l = CHR 0x00 # s" using labels_key_cases [of l] by (cases kv) auto
  then show ?thesis using assms split_once_append [of "CHR 0x00" n s] by (simp add: series_key_append nul_free_def)
qed

section \<open>Histories of the metrics\<close>

text \<open>The accumulator of an app is shared by the observers of all its requests and by the supervisor. A history is a
  sequence of their calls.\<close>

datatype 'v metric_op =
    MIncrement string metric_labels
  | MGauge string 'v metric_labels
  | MHistogram string 'v metric_labels
  | MHeartbeat

fun metric_step :: "'v metric_op \<Rightarrow> 'v metrics_accumulator \<Rightarrow> 'v metrics_accumulator" where
  "metric_step (MIncrement name labels) acc = increment name labels acc"
| "metric_step (MGauge name v labels) acc = set_gauge name v labels acc"
| "metric_step (MHistogram name v labels) acc = add_histogram name v labels acc"
| "metric_step MHeartbeat acc = snd (ma_snapshot acc)"

definition metric_run :: "'v metric_op list \<Rightarrow> 'v metrics_accumulator" where
  "metric_run ops = fold metric_step ops ma_new"

fun op_nul_free :: "'v metric_op \<Rightarrow> bool" where
  "op_nul_free (MIncrement n l) = nul_free n l"
| "op_nul_free (MGauge n v l) = nul_free n l"
| "op_nul_free (MHistogram n v l) = nul_free n l"
| "op_nul_free MHeartbeat = True"

definition increments :: "string \<Rightarrow> metric_labels \<Rightarrow> 'v metric_op list \<Rightarrow> nat" where
  "increments n l ops = length (filter (\<lambda>op. op = MIncrement n l) ops)"

fun gauge_now :: "string \<Rightarrow> metric_labels \<Rightarrow> 'v metric_op list \<Rightarrow> 'v list" where
  "gauge_now n l [] = []"
| "gauge_now n l (op # ops) =
     (case op of MGauge n' v l' \<Rightarrow> if n' = n \<and> l' = l \<and> gauge_now n l ops = [] then [v] else gauge_now n l ops
      | _ \<Rightarrow> gauge_now n l ops)"

fun observed :: "string \<Rightarrow> 'v metric_op list \<Rightarrow> ('v \<times> metric_labels) list" where
  "observed n [] = []"
| "observed n (op # ops) =
     (case op of MHistogram n' v l \<Rightarrow> if n' = n then (v, l) # observed n ops else observed n ops
      | _ \<Rightarrow> observed n ops)"

definition since_heartbeat :: "'v metric_op list \<Rightarrow> 'v metric_op list" where
  "since_heartbeat ops = rev (takeWhile (\<lambda>op. op \<noteq> MHeartbeat) (rev ops))"

definition last_gauge :: "string \<Rightarrow> metric_labels \<Rightarrow> 'v metric_op list \<Rightarrow> 'v option" where
  "last_gauge n l ops = (case gauge_now n l ops of v # _ \<Rightarrow> Some v | [] \<Rightarrow> None)"

definition acc_holds :: "'v metric_op list \<Rightarrow> 'v metrics_accumulator \<Rightarrow> bool" where
  "acc_holds ops acc \<longleftrightarrow>
     hm_wf (ma_counters acc) \<and> hm_wf (ma_gauges acc) \<and> hm_wf (ma_histograms acc) \<and>
     (\<forall>k e. hm_get (ma_counters acc) k = Some e \<longrightarrow> (\<exists>n l. nul_free n l \<and> k = series_key n l)) \<and>
     (\<forall>k e. hm_get (ma_gauges acc) k = Some e \<longrightarrow> (\<exists>n l. nul_free n l \<and> k = series_key n l)) \<and>
     (\<forall>n l. nul_free n l \<longrightarrow> hm_get (ma_counters acc) (series_key n l) =
        (if increments n l ops = 0 then None else Some (of_nat (increments n l ops), l))) \<and>
     (\<forall>n l. nul_free n l \<longrightarrow> hm_get (ma_gauges acc) (series_key n l) = map_option (\<lambda>v. (v, l)) (last_gauge n l ops)) \<and>
     (\<forall>n. (case hm_get (ma_histograms acc) n of Some es \<Rightarrow> es | None \<Rightarrow> []) = observed n (since_heartbeat ops))"

lemma gauge_now_snoc:
  "gauge_now n l (ops @ [op]) = (case op of MGauge n' v l' \<Rightarrow> if n' = n \<and> l' = l then [v] else gauge_now n l ops | _ \<Rightarrow> gauge_now n l ops)"
  by (induction ops) (auto split: metric_op.splits)

lemma observed_snoc:
  "observed n (ops @ [op]) = observed n ops @ (case op of MHistogram n' v l \<Rightarrow> if n' = n then [(v, l)] else [] | _ \<Rightarrow> [])"
  by (induction ops) (auto split: metric_op.splits)

lemma since_heartbeat_snoc:
  "since_heartbeat (ops @ [op]) = (if op = MHeartbeat then [] else since_heartbeat ops @ [op])"
  by (simp add: since_heartbeat_def)

lemma increments_snoc: "increments n l (ops @ [op]) = increments n l ops + (if op = MIncrement n l then 1 else 0)"
  by (simp add: increments_def)

lemma acc_holds_run:
  assumes "list_all op_nul_free ops"
  shows "acc_holds ops (metric_run ops)"
  using assms
proof (induction ops rule: rev_induct)
  case Nil
  show ?case by (auto simp: acc_holds_def metric_run_def ma_new_def increments_def last_gauge_def since_heartbeat_def)
next
  case (snoc op ops)
  then have IH: "acc_holds ops (metric_run ops)" by simp
  have r: "metric_run (ops @ [op]) = metric_step op (metric_run ops)" by (simp add: metric_run_def)
  show ?case
  proof (cases op)
    case (MIncrement n l)
    then have "nul_free n l" using snoc.prems by simp
    with IH MIncrement show ?thesis unfolding r
      by (auto simp: acc_holds_def increment_def Let_def increments_snoc gauge_now_snoc last_gauge_def since_heartbeat_snoc
          observed_snoc dest: series_key_inj split: if_splits)
  next
    case (MGauge n v l)
    then have "nul_free n l" using snoc.prems by simp
    with IH MGauge show ?thesis unfolding r
      by (auto simp: acc_holds_def set_gauge_def Let_def increments_snoc gauge_now_snoc last_gauge_def since_heartbeat_snoc
          observed_snoc dest: series_key_inj split: if_splits)
  next
    case (MHistogram n v l)
    with IH show ?thesis unfolding r
      by (auto simp: acc_holds_def add_histogram_def Let_def increments_snoc gauge_now_snoc last_gauge_def since_heartbeat_snoc
          observed_snoc split: if_splits option.splits)
  next
    case MHeartbeat
    with IH show ?thesis unfolding r
      by (auto simp: acc_holds_def ma_snapshot_def increments_snoc gauge_now_snoc last_gauge_def since_heartbeat_snoc
          observed_snoc)
  qed
qed

definition samples_of :: "metric_kind \<Rightarrow> string \<Rightarrow> metric_labels \<Rightarrow> 'v metric_sample list \<Rightarrow> 'v list" where
  "samples_of kind n l ss = map sm_value (filter (\<lambda>s. sm_kind s = kind \<and> sm_name s = n \<and> sm_labels s = l) ss)"

definition histogram_of :: "string \<Rightarrow> 'v metric_sample list \<Rightarrow> ('v \<times> metric_labels) list" where
  "histogram_of n ss = map (\<lambda>s. (sm_value s, sm_labels s)) (filter (\<lambda>s. sm_kind s = HistogramSample \<and> sm_name s = n) ss)"

lemma filter_key:
  assumes "hm_wf m"
  shows "filter (\<lambda>(k, v). k = key) m = (case hm_get m key of None \<Rightarrow> [] | Some v \<Rightarrow> [(key, v)])"
  using assms
proof (induction m)
  case (Cons kv m)
  obtain k v where kv: "kv = (k, v)" by fastforce
  have wf: "hm_wf m" and k: "k \<notin> fst ` set m" using Cons.prems kv by (auto simp: hm_wf_def)
  have "hm_get m k = None" using k by (simp add: hm_get_def map_of_eq_None_iff)
  then show ?case using Cons.IH [OF wf] kv by (auto simp: hm_get_Cons)
qed simp

lemma series_entries:
  assumes "hm_wf m" and "nul_free n l"
    and "\<And>k e. hm_get m k = Some e \<Longrightarrow> \<exists>n l. nul_free n l \<and> k = series_key n l"
    and "\<And>n l. nul_free n l \<Longrightarrow> hm_get m (series_key n l) = map_option (\<lambda>v. (v, l)) (value_of n l)"
  shows "filter (\<lambda>e. me_name e = n \<and> me_labels e = l) (map entry_of m) =
    (case value_of n l of None \<Rightarrow> [] | Some v \<Rightarrow> [\<lparr>me_name = n, me_value = v, me_labels = l\<rparr>])"
proof -
  have e: "me_name (entry_of (k, e)) = n \<and> me_labels (entry_of (k, e)) = l \<longleftrightarrow> k = series_key n l" if "(k, e) \<in> set m" for k e
  proof -
    have g: "hm_get m k = Some e" using that assms(1) by (simp add: hm_in_iff_get)
    with assms(3) obtain n' l' where k: "nul_free n' l'" "k = series_key n' l'" by blast
    with g assms(4) obtain v where "e = (v, l')" by fastforce
    then have "entry_of (k, e) = \<lparr>me_name = n', me_value = v, me_labels = l'\<rparr>"
      using series_name [OF k(1)] by (simp add: entry_of_def k(2))
    then show ?thesis using series_key_inj [OF _ k(1) assms(2)] k(2) by auto
  qed
  have "filter (\<lambda>e. me_name e = n \<and> me_labels e = l) (map entry_of m) = map entry_of (filter (\<lambda>(k, e). k = series_key n l) m)"
    using e by (auto simp: filter_map comp_def intro!: arg_cong [where f = "map entry_of"] filter_cong)
  also have "\<dots> = (case value_of n l of None \<Rightarrow> [] | Some v \<Rightarrow> [\<lparr>me_name = n, me_value = v, me_labels = l\<rparr>])"
    unfolding filter_key [OF assms(1)] assms(4) [OF assms(2)]
    using series_name [OF assms(2)] by (simp add: entry_of_def split: option.split)
  finally show ?thesis .
qed

lemma samples_of_parts [simp]:
  "samples_of k n l (xs @ ys) = samples_of k n l xs @ samples_of k n l ys"
  "samples_of k n l (map (sample_of k) es) = map me_value (filter (\<lambda>e. me_name e = n \<and> me_labels e = l) es)"
  "k' \<noteq> k \<Longrightarrow> samples_of k n l (map (sample_of k') es) = []"
  by (simp_all add: samples_of_def sample_of_def filter_map comp_def)

lemma histogram_of_parts [simp]:
  "histogram_of n (xs @ ys) = histogram_of n xs @ histogram_of n ys"
  "k \<noteq> HistogramSample \<Longrightarrow> histogram_of n (map (sample_of k) es) = []"
  by (simp_all add: histogram_of_def sample_of_def filter_map comp_def)

lemma histogram_entries:
  assumes "hm_wf m"
  shows "histogram_of n (concat (map (\<lambda>(name, entries). map (\<lambda>(val, labels).
      \<lparr>sm_name = name, sm_kind = HistogramSample, sm_value = val, sm_labels = labels\<rparr>) entries) m)) =
    (case hm_get m n of Some es \<Rightarrow> es | None \<Rightarrow> [])"
  using assms
proof (induction m)
  case (Cons kv m)
  obtain k es where kv: "kv = (k, es)" by fastforce
  have wf: "hm_wf m" and k: "k \<notin> fst ` set m" using Cons.prems kv by (auto simp: hm_wf_def)
  have "hm_get m k = None" using k by (simp add: hm_get_def map_of_eq_None_iff)
  moreover have "histogram_of n (map (\<lambda>(val, labels). \<lparr>sm_name = k, sm_kind = HistogramSample, sm_value = val, sm_labels = labels\<rparr>) es) =
      (if k = n then es else [])"
    by (induction es) (auto simp: histogram_of_def)
  ultimately show ?case using Cons.IH [OF wf] kv by (auto simp: hm_get_Cons)
qed (simp add: histogram_of_def)

lemma histogram_no_samples:
  "k \<noteq> HistogramSample \<Longrightarrow> samples_of k n l (concat (map (\<lambda>(name, entries). map (\<lambda>(val, labels).
      \<lparr>sm_name = name, sm_kind = HistogramSample, sm_value = val, sm_labels = labels\<rparr>) entries) m)) = []"
  by (auto simp: samples_of_def filter_empty_conv)

text \<open>Claim C22 (metrics). For names and labels without the character NUL: after any history of calls, the next heartbeat
  reports for every name and set of labels one counter, with the number of increments since the app started, if there
  was one; one gauge, with the value recorded last; and for every name the histogram samples since the heartbeat
  before, in order.\<close>

theorem metrics_history_exact:
  assumes "list_all op_nul_free ops" and "nul_free n l"
    and "ss = fst (observer_metrics to_f64 (Some (metric_run ops)))"
  shows "samples_of Counter n l ss = (if increments n l ops = 0 then [] else [to_f64 (of_nat (increments n l ops))]) \<and>
    samples_of Gauge n l ss = (case last_gauge n l ops of None \<Rightarrow> [] | Some v \<Rightarrow> [v]) \<and>
    histogram_of n ss = observed n (since_heartbeat ops)"
proof -
  let ?acc = "metric_run ops"
  let ?count = "\<lambda>n l. if increments n l ops = 0 then None else Some (of_nat (increments n l ops) :: u64)"
  let ?conv = "\<lambda>c. \<lparr>me_name = me_name c, me_value = to_f64 (me_value c), me_labels = me_labels c\<rparr>"
  note h = acc_holds_run [OF assms(1), unfolded acc_holds_def]
  have c: "filter (\<lambda>e. me_name e = n \<and> me_labels e = l) (map entry_of (ma_counters ?acc)) =
      (case ?count n l of None \<Rightarrow> [] | Some v \<Rightarrow> [\<lparr>me_name = n, me_value = v, me_labels = l\<rparr>])"
    using h by (intro series_entries [OF _ assms(2)]) auto
  have g: "filter (\<lambda>e. me_name e = n \<and> me_labels e = l) (map entry_of (ma_gauges ?acc)) =
      (case last_gauge n l ops of None \<Rightarrow> [] | Some v \<Rightarrow> [\<lparr>me_name = n, me_value = v, me_labels = l\<rparr>])"
    using h by (intro series_entries [OF _ assms(2)]) auto
  have p: "samples_of Counter n l (map (\<lambda>c. sample_of Counter (?conv c)) es) =
      map (to_f64 \<circ> me_value) (filter (\<lambda>e. me_name e = n \<and> me_labels e = l) es)"
    "samples_of Gauge n l (map (\<lambda>c. sample_of Counter (?conv c)) es) = []"
    "histogram_of n (map (\<lambda>c. sample_of Counter (?conv c)) es) = []" for es
    by (simp_all add: samples_of_def histogram_of_def sample_of_def filter_map comp_def)
  show ?thesis
    unfolding assms(3) observer_metrics_def ma_snapshot_def option.case prod.case fst_conv metrics_snapshot.simps
      samples_of_parts(1) histogram_of_parts(1) p c
    using h by (simp add: g histogram_entries histogram_no_samples split: option.split del: map_map)
qed


text \<open>The comment at \<open>series_key\<close> rules a collision out. A name or a label with NUL in it collides: the calls below count
  one series, under the labels of whichever came first.\<close>

lemma series_collision:
  "series_key ''hits'' [(''a'', ''b'')] = series_key (''hits'' @ [CHR 0x00] @ ''a'' @ [CHR 0x00] @ ''b'') []"
  by simp

section \<open>Bursts of log records\<close>

text \<open>What the limiter relies on of \<open>f64\<close>: integers up to \<open>2 ^ 53\<close> are exact.\<close>

definition f64_rounding :: "(rat \<Rightarrow> rat) \<Rightarrow> bool" where
  "f64_rounding rnd \<longleftrightarrow> (\<forall>k :: nat. k \<le> 2 ^ 53 \<longrightarrow> rnd (of_nat k) = of_nat k)"

definition admissible :: "log_level \<Rightarrow> log_record \<Rightarrow> bool" where
  "admissible lvl r \<longleftrightarrow> to_tracing_level (lr_level r) \<le> to_tracing_level lvl \<and> length (lr_message r) \<le> MAX_LOG_MESSAGE_BYTES"

definition bucket_with :: "nat \<Rightarrow> instant \<Rightarrow> token_bucket" where
  "bucket_with k now = \<lparr>tb_tokens = of_nat k, tb_last_refill = now, tb_max_tokens = 2000, tb_refill_rate_per_sec = 1000\<rparr>"

lemma try_take_at_once:
  assumes "f64_rounding rnd" and "k \<le> 2000"
  shows "try_take rnd now (bucket_with k now) = (0 < k, bucket_with (k - 1) now)"
proof -
  have i: "rnd (of_nat m) = of_nat m" if "m \<le> 2000" for m using assms(1) that by (simp add: f64_rounding_def)
  have z: "rnd 0 = 0" using i [of 0] by simp
  then have "as_secs_f64 rnd 0 = 0" by (simp add: as_secs_f64_def)
  moreover have "min (rnd (of_nat k)) 2000 = of_nat k" using i [OF assms(2)] assms(2)
    by (simp add: min_def)
  moreover have "0 < k \<Longrightarrow> rnd (of_nat k - 1) = of_nat (k - 1)" using i [of "k - 1"] assms(2) by (simp add: of_nat_diff)
  moreover have "(1 :: rat) \<le> of_nat k \<longleftrightarrow> 0 < k" by (metis One_nat_def Suc_leI of_nat_1 of_nat_le_iff not_less_eq_eq le_simps(3))
  ultimately show ?thesis using z by (auto simp: try_take_def bucket_with_def Let_def)
qed

definition limited :: "nat \<Rightarrow> instant \<Rightarrow> 'v observer \<Rightarrow> bool" where
  "limited k now ob \<longleftrightarrow>
     hm_get (ob_rate_limiters ob) (lc_tenant_id (ob_app_ctx ob)) = Some (bucket_with k now) \<or>
     k = 2000 \<and> hm_get (ob_rate_limiters ob) (lc_tenant_id (ob_app_ctx ob)) = None"

lemma check_rate_limit_at_once:
  assumes "f64_rounding rnd" and "k \<le> 2000" and "limited k now ob"
  shows "\<exists>ls. check_rate_limit rnd now (lc_tenant_id (ob_app_ctx ob)) ob = (0 < k, ob\<lparr>ob_rate_limiters := ls\<rparr>) \<and>
    limited (k - 1) now (ob\<lparr>ob_rate_limiters := ls\<rparr>)"
proof -
  have "tb_new 1000 2000 now = bucket_with 2000 now" by (simp add: tb_new_def bucket_with_def)
  then have "(case hm_get (ob_rate_limiters ob) (lc_tenant_id (ob_app_ctx ob)) of Some b \<Rightarrow> b | None \<Rightarrow> tb_new 1000 (1000 * 2) now) = bucket_with k now"
    using assms(3) by (auto simp: limited_def)
  then show ?thesis
    using try_take_at_once [OF assms(1, 2)] by (auto simp: check_rate_limit_def Let_def limited_def)
qed

lemma burst_push:
  assumes "f64_rounding rnd" and "k \<le> 2000" and "limited k now ob"
  shows "snd (fold (emit_log_record rnd now) rs (ob, f)) =
    fold (\<lambda>r. lf_push r (ob_app_ctx ob)) (take k (filter (admissible (ob_min_log_level ob)) rs)) f"
  using assms(2, 3)
proof (induction rs arbitrary: k ob f)
  case (Cons r rs)
  let ?lvl = "ob_min_log_level ob"
  show ?case
  proof (cases "admissible ?lvl r")
    case True
    obtain ls where ls: "check_rate_limit rnd now (lc_tenant_id (ob_app_ctx ob)) ob = (0 < k, ob\<lparr>ob_rate_limiters := ls\<rparr>)"
      "limited (k - 1) now (ob\<lparr>ob_rate_limiters := ls\<rparr>)"
      using check_rate_limit_at_once [OF assms(1) Cons.prems] by blast
    have "emit_log_record rnd now r (ob, f) =
        (ob\<lparr>ob_rate_limiters := ls\<rparr>, if 0 < k then lf_push r (ob_app_ctx ob) f else f)"
      using True ls(1) by (simp add: emit_log_record_def admissible_def)
    then show ?thesis using Cons.IH [OF _ ls(2)] Cons.prems(1) True by (cases k) simp_all
  next
    case False
    let ?ob = "if to_tracing_level (lr_level r) > to_tracing_level ?lvl then ob
      else ob\<lparr>ob_dropped_size_cap_count := ob_dropped_size_cap_count ob + 1\<rparr>"
    have "emit_log_record rnd now r (ob, f) = (?ob, f)"
      using False by (cases "to_tracing_level (lr_level r) > to_tracing_level ?lvl") (simp_all add: emit_log_record_def admissible_def not_le)
    moreover have "limited k now ?ob" "ob_min_log_level ?ob = ?lvl" "ob_app_ctx ?ob = ob_app_ctx ob"
      using Cons.prems(2) by (simp_all add: limited_def)
    ultimately show ?thesis using Cons.IH [OF Cons.prems(1), of ?ob] False by (simp only: fold_simps filter.simps if_False)
  qed
qed simp

text \<open>Bursts of log records. The requests of an app, each with an observer of its own, emit any log records at
  one moment. The log forwarder gets, in order, of every request the first 2000 records of at least the level
  \<open>info\<close> and at most 16 KiB, and no others: the limit of the records per second of a tenant starts afresh with
  every request.\<close>

theorem log_burst_exact:
  assumes "f64_rounding rnd"
  shows "fold (\<lambda>rs f. snd (fold (emit_log_record rnd now) rs (from_config (oc_default ctx acc), f))) requests f =
    fold (\<lambda>r. lf_push r ctx) (concat (map (take 2000 \<circ> filter (admissible LvInfo)) requests)) f"
proof (induction requests arbitrary: f)
  case (Cons rs requests)
  have "limited 2000 now (from_config (oc_default ctx acc))" by (simp add: limited_def from_config_def)
  from burst_push [OF assms _ this] show ?case using Cons.IH by (simp add: from_config_def oc_default_def)
qed simp

section \<open>Examples\<close>

theorem metrics_history_exact_witness:
  "histogram_of ''lat'' (fst (observer_metrics (\<lambda>w. uint w) (Some (metric_run
     [MIncrement ''hits'' [(''a'', ''b'')], MHistogram ''lat'' 5 [], MHeartbeat, MHistogram ''lat'' 7 [], MIncrement ''hits'' [(''a'', ''b'')]])))) =
     [(7, [])] \<and>
   samples_of Counter ''hits'' [(''a'', ''b'')] (fst (observer_metrics (\<lambda>w. uint w) (Some (metric_run
     [MIncrement ''hits'' [(''a'', ''b'')], MHistogram ''lat'' 5 [], MHeartbeat, MHistogram ''lat'' 7 [], MIncrement ''hits'' [(''a'', ''b'')]])))) = [2]"
  using metrics_history_exact [of "[MIncrement ''hits'' [(''a'', ''b'')], MHistogram ''lat'' 5 [], MHeartbeat,
      MHistogram ''lat'' 7 [], MIncrement ''hits'' [(''a'', ''b'')]]" "''hits''" "[(''a'', ''b'')]" _ "\<lambda>w. uint w", OF _ _ refl]
    metrics_history_exact [of "[MIncrement ''hits'' [(''a'', ''b'')], MHistogram ''lat'' 5 [], MHeartbeat,
      MHistogram ''lat'' 7 [], MIncrement ''hits'' [(''a'', ''b'')]]" "''lat''" "[]" _ "\<lambda>w. uint w", OF _ _ refl]
  by (simp add: nul_free_def increments_def since_heartbeat_def)

definition sample_ctx :: app_log_context where
  "sample_ctx = \<lparr>lc_app_name = ''web'', lc_tenant_id = ''acme'', lc_deployment_id = ''d1''\<rparr>"

theorem log_burst_exact_witness:
  "fold (\<lambda>rs f. snd (fold (emit_log_record id 5) rs (from_config (oc_default sample_ctx (None :: nat metrics_accumulator option)), f)))
     [[\<lparr>lr_level = LvDebug, lr_message = ''x'', lr_labels = []\<rparr>, \<lparr>lr_level = LvInfo, lr_message = ''y'', lr_labels = []\<rparr>]]
     (new_with_spool ''w1'' ''eu'' None) =
   lf_push \<lparr>lr_level = LvInfo, lr_message = ''y'', lr_labels = []\<rparr> sample_ctx (new_with_spool ''w1'' ''eu'' None)"
  using log_burst_exact [of id 5 sample_ctx "None :: nat metrics_accumulator option"
      "[[\<lparr>lr_level = LvDebug, lr_message = ''x'', lr_labels = []\<rparr>, \<lparr>lr_level = LvInfo, lr_message = ''y'', lr_labels = []\<rparr>]]"]
  by (simp add: f64_rounding_def admissible_def MAX_LOG_MESSAGE_BYTES_def)

end
