(* ===== verification/Runtime_Egress.thy ===== *)
theory Runtime_Egress
  imports Edge_Prelude
begin

text \<open>
  Outbound traffic of a guest component: \<open>edge-runtime/src/egress.rs\<close> (the tenant's allowlist and
  the hard-denied address ranges), \<open>socket_egress.rs\<close> (the check of \<open>wasi:sockets\<close>) and
  \<open>egress_transport.rs\<close> with \<open>EgressHttpHooks::send_request\<close> of \<open>runtime.rs\<close> (the check of
  \<open>wasi:http\<close>).

  An address is the four octets or the eight segments that \<open>std::net\<close> reads; a policy is its
  allowlist. The \<open>url\<close> crate is the parameter \<open>url_parse\<close>, which returns the parse error or the
  host of the URL; the network is the record \<open>net_env\<close>: what the resolver, the TCP stack, the TLS
  library and the HTTP client answer. The handler returns, beside its result, the addresses it
  opened a connection to, which is what the policy is about.
\<close>

section \<open>Addresses\<close>

datatype ipv4_addr = Ipv4Addr u8 u8 u8 u8

datatype ipv6_addr = Ipv6Addr u16 u16 u16 u16 u16 u16 u16 u16

datatype ip_addr = IpV4 ipv4_addr | IpV6 ipv6_addr

type_synonym socket_addr = "ip_addr \<times> u16"

fun v4_is_loopback :: "ipv4_addr \<Rightarrow> bool" where
  "v4_is_loopback (Ipv4Addr a b c d) = (a = 127)"

fun v4_is_link_local :: "ipv4_addr \<Rightarrow> bool" where
  "v4_is_link_local (Ipv4Addr a b c d) = (a = 169 \<and> b = 254)"

fun v4_is_private :: "ipv4_addr \<Rightarrow> bool" where
  "v4_is_private (Ipv4Addr a b c d) =
     (a = 10 \<or> a = 172 \<and> 16 \<le> b \<and> b \<le> 31 \<or> a = 192 \<and> b = 168)"

fun v4_is_multicast :: "ipv4_addr \<Rightarrow> bool" where
  "v4_is_multicast (Ipv4Addr a b c d) = (224 \<le> a \<and> a \<le> 239)"

fun v4_is_broadcast :: "ipv4_addr \<Rightarrow> bool" where
  "v4_is_broadcast (Ipv4Addr a b c d) = (a = 255 \<and> b = 255 \<and> c = 255 \<and> d = 255)"

fun v4_is_unspecified :: "ipv4_addr \<Rightarrow> bool" where
  "v4_is_unspecified (Ipv4Addr a b c d) = (a = 0 \<and> b = 0 \<and> c = 0 \<and> d = 0)"

definition is_blocked_ipv4 :: "ipv4_addr \<Rightarrow> bool" where
  "is_blocked_ipv4 v4 =
     (v4_is_loopback v4 \<or> v4_is_link_local v4 \<or> v4_is_private v4 \<or> v4_is_multicast v4
      \<or> v4_is_broadcast v4 \<or> v4_is_unspecified v4 \<or> v4 = Ipv4Addr 168 63 129 16)"

unbundle bit_operations_syntax

fun to_ipv4_mapped :: "ipv6_addr \<Rightarrow> ipv4_addr option" where
  "to_ipv4_mapped (Ipv6Addr a b c d e f g h) =
     (if a = 0 \<and> b = 0 \<and> c = 0 \<and> d = 0 \<and> e = 0 \<and> f = 0xFFFF
      then Some (Ipv4Addr (ucast (drop_bit 8 g)) (ucast g) (ucast (drop_bit 8 h)) (ucast h))
      else None)"

fun v6_is_loopback :: "ipv6_addr \<Rightarrow> bool" where
  "v6_is_loopback ip = (ip = Ipv6Addr 0 0 0 0 0 0 0 1)"

fun v6_is_unspecified :: "ipv6_addr \<Rightarrow> bool" where
  "v6_is_unspecified ip = (ip = Ipv6Addr 0 0 0 0 0 0 0 0)"

fun v6_is_multicast :: "ipv6_addr \<Rightarrow> bool" where
  "v6_is_multicast (Ipv6Addr a b c d e f g h) = (a AND 0xFF00 = 0xFF00)"

fun v6_is_unique_local :: "ipv6_addr \<Rightarrow> bool" where
  "v6_is_unique_local (Ipv6Addr a b c d e f g h) = (a AND 0xFE00 = 0xFC00)"

fun v6_is_unicast_link_local :: "ipv6_addr \<Rightarrow> bool" where
  "v6_is_unicast_link_local (Ipv6Addr a b c d e f g h) = (a AND 0xFFC0 = 0xFE80)"

fun is_blocked_ip :: "ip_addr \<Rightarrow> bool" where
  "is_blocked_ip (IpV4 v4) = is_blocked_ipv4 v4"
| "is_blocked_ip (IpV6 v6) =
     (case to_ipv4_mapped v6 of
        Some mapped \<Rightarrow> is_blocked_ipv4 mapped
      | None \<Rightarrow> v6_is_loopback v6 \<or> v6_is_multicast v6 \<or> v6_is_unspecified v6
                \<or> v6_is_unique_local v6 \<or> v6_is_unicast_link_local v6)"

text \<open>The textual form of an address, as \<open>Display\<close> of \<open>std::net\<close> prints it: dotted decimal, and
  for IPv6 lowercase hexadecimal segments with the first longest run of at least two zero
  segments written \<open>::\<close>.\<close>

definition join :: "string \<Rightarrow> string list \<Rightarrow> string" where
  "join sep xs = (case xs of [] \<Rightarrow> [] | y # ys \<Rightarrow> y @ concat (map (\<lambda>z. sep @ z) ys))"

fun v4_to_string :: "ipv4_addr \<Rightarrow> string" where
  "v4_to_string (Ipv4Addr a b c d) =
     join ''.'' [dec (unat a), dec (unat b), dec (unat c), dec (unat d)]"

fun v6_segments :: "ipv6_addr \<Rightarrow> u16 list" where
  "v6_segments (Ipv6Addr a b c d e f g h) = [a, b, c, d, e, f, g, h]"

text \<open>The scan for the run: position, runent run and longest run so far as (start, length).\<close>

fun longest_zeroes ::
  "nat \<Rightarrow> u16 list \<Rightarrow> nat \<times> nat \<Rightarrow> nat \<times> nat \<Rightarrow> nat \<times> nat" where
  "longest_zeroes i [] run longest = longest"
| "longest_zeroes i (s # ss) run longest =
     (if s = 0
      then let run' = (if snd run = 0 then i else fst run, snd run + 1)
           in longest_zeroes (i + 1) ss run' (if snd run' > snd longest then run' else longest)
      else longest_zeroes (i + 1) ss (0, 0) longest)"

definition v6_to_string :: "ipv6_addr \<Rightarrow> string" where
  "v6_to_string ip =
     (case to_ipv4_mapped ip of
        Some v4 \<Rightarrow> ''::ffff:'' @ v4_to_string v4
      | None \<Rightarrow>
          let ss = v6_segments ip;
              fmt = (\<lambda>xs. join '':'' (map (\<lambda>s. hex_of (unat s)) xs));
              (st, len) = longest_zeroes 0 ss (0, 0) (0, 0)
          in if len > 1 then fmt (take st ss) @ ''::'' @ fmt (drop (st + len) ss) else fmt ss)"

section \<open>The egress policy\<close>

record egress_policy =
  ep_allowlist :: "string list"

definition egress_new :: "string list \<Rightarrow> egress_policy" where
  "egress_new al = \<lparr>ep_allowlist = filter (\<lambda>e. e \<noteq> ''*'') al\<rparr>"

definition egress_allow_all :: egress_policy where
  "egress_allow_all = \<lparr>ep_allowlist = [''*'']\<rparr>"

text \<open>The reasons of a denial, one constructor for each message of the source.\<close>

datatype egress_error =
    InvalidUrl string
  | NoUrlHost
  | BlockedV4 ipv4_addr
  | BlockedV6 ipv6_addr
  | BlockedHostname string
  | NoAllowlist string
  | NoAllowlistIp ip_addr
  | NotInAllowlist string
  | ResolvedToBlocked ip_addr

datatype url_host = Domain string | HostV4 ipv4_addr | HostV6 ipv6_addr

type_synonym url_parser = "string \<Rightarrow> string + url_host option"

definition is_blocked_hostname :: "string \<Rightarrow> bool" where
  "is_blocked_hostname host =
     (host \<in> {''metadata.google.internal'', ''instance-data.ec2.internal'',
              ''metadata.azure.internal''})"

definition check_resolved_ip :: "egress_policy \<Rightarrow> ip_addr \<Rightarrow> egress_error + unit" where
  "check_resolved_ip pol ip = (if is_blocked_ip ip then Inl (ResolvedToBlocked ip) else Inr ())"

definition check_address :: "egress_policy \<Rightarrow> socket_addr \<Rightarrow> egress_error + unit" where
  "check_address pol addr =
     (case check_resolved_ip pol (fst addr) of
        Inl e \<Rightarrow> Inl e
      | Inr _ \<Rightarrow>
          if ep_allowlist pol = [] then Inl (NoAllowlistIp (fst addr))
          else if \<exists>e \<in> set (ep_allowlist pol). e = ''*'' then Inr ()
          else Inr ())"

definition hostname_pinned_match ::
  "egress_policy \<Rightarrow> socket_addr \<Rightarrow> (string, ip_addr set) hashmap \<Rightarrow> bool" where
  "hostname_pinned_match pol addr cache =
     (if ep_allowlist pol = [] then False
      else if \<exists>e \<in> set (ep_allowlist pol). e = ''*''
      then \<exists>s \<in> set (hm_values cache). fst addr \<in> s
      else \<exists>entry \<in> set (ep_allowlist pol).
             (case hm_get cache entry of Some s \<Rightarrow> fst addr \<in> s | None \<Rightarrow> False))"

fun host_to_string :: "url_host \<Rightarrow> string" where
  "host_to_string (Domain name) = name"
| "host_to_string (HostV4 v4) = v4_to_string v4"
| "host_to_string (HostV6 v6) = v6_to_string v6"

fun hard_deny :: "url_host \<Rightarrow> egress_error option" where
  "hard_deny (HostV4 v4) = (if is_blocked_ip (IpV4 v4) then Some (BlockedV4 v4) else None)"
| "hard_deny (HostV6 v6) = (if is_blocked_ip (IpV6 v6) then Some (BlockedV6 v6) else None)"
| "hard_deny (Domain name) = (if is_blocked_hostname name then Some (BlockedHostname name) else None)"

text \<open>One iteration of the matching loop: the entry \<open>*.stripe.com\<close> accepts \<open>stripe.com\<close> and one
  label in front of \<open>.stripe.com\<close>.\<close>

definition entry_matches :: "string \<Rightarrow> string \<Rightarrow> bool" where
  "entry_matches entry host_str =
     (case strip_prefix ''*.'' entry of
        Some bare \<Rightarrow>
          host_str = bare
          \<or> (case strip_suffix (tl entry) host_str of
               Some label \<Rightarrow> label \<noteq> [] \<and> CHR ''.'' \<notin> set label
             | None \<Rightarrow> False)
      | None \<Rightarrow> entry = host_str)"

definition egress_check :: "url_parser \<Rightarrow> egress_policy \<Rightarrow> string \<Rightarrow> egress_error + unit" where
  "egress_check url_parse pol url =
     (case url_parse url of
        Inl e \<Rightarrow> Inl (InvalidUrl e)
      | Inr None \<Rightarrow> Inl NoUrlHost
      | Inr (Some host) \<Rightarrow>
          (case hard_deny host of
             Some e \<Rightarrow> Inl e
           | None \<Rightarrow>
               let host_str = host_to_string host in
               if ep_allowlist pol = [] then Inl (NoAllowlist host_str)
               else if \<exists>e \<in> set (ep_allowlist pol). e = ''*'' then Inr ()
               else if \<exists>entry \<in> set (ep_allowlist pol). entry_matches entry host_str then Inr ()
               else Inl (NotInAllowlist host_str)))"

section \<open>The check of wasi:sockets\<close>

datatype socket_egress_policy = BlockAll | AllowList | AllowAll | HostnamePinned

datatype socket_addr_use = TcpBind | TcpConnect | UdpBind | UdpConnect | UdpOutgoingDatagram

definition socket_mode_from_str :: "string \<Rightarrow> string + socket_egress_policy" where
  "socket_mode_from_str s =
     (let l = to_ascii_lowercase s in
      if l = ''block-all'' then Inr BlockAll
      else if l = ''allowlist'' then Inr AllowList
      else if l = ''allow-all'' then Inr AllowAll
      else if l = ''hostname-pinned'' then Inr HostnamePinned
      else Inl l)"

fun socket_mode_to_string :: "socket_egress_policy \<Rightarrow> string" where
  "socket_mode_to_string BlockAll = ''block-all''"
| "socket_mode_to_string AllowList = ''allowlist''"
| "socket_mode_to_string AllowAll = ''allow-all''"
| "socket_mode_to_string HostnamePinned = ''hostname-pinned''"

definition socket_mode_from_env :: "string option \<Rightarrow> socket_egress_policy" where
  "socket_mode_from_env var =
     (case var of
        Some s \<Rightarrow> (case socket_mode_from_str s of Inr m \<Rightarrow> m | Inl _ \<Rightarrow> BlockAll)
      | None \<Rightarrow> BlockAll)"

text \<open>The process-wide memory of the last mode that was logged; the second component tells whether
  this call writes a log line.\<close>

fun socket_mode_code :: "socket_egress_policy \<Rightarrow> u8" where
  "socket_mode_code BlockAll = 0"
| "socket_mode_code AllowList = 1"
| "socket_mode_code AllowAll = 2"
| "socket_mode_code HostnamePinned = 3"

definition log_if_changed :: "socket_egress_policy \<Rightarrow> u8 \<Rightarrow> u8 \<times> bool" where
  "log_if_changed mode last_logged =
     (let next = socket_mode_code mode in (next, last_logged \<noteq> next))"

type_synonym hostname_pinning = "(string, ip_addr set) hashmap"

definition hp_new :: hostname_pinning where
  "hp_new = []"

definition hp_record :: "string \<Rightarrow> ip_addr list \<Rightarrow> hostname_pinning \<Rightarrow> hostname_pinning" where
  "hp_record hostname ips hp = hm_insert hostname (set ips) hp"

definition hp_snapshot :: "hostname_pinning \<Rightarrow> hostname_pinning" where
  "hp_snapshot hp = hp"

fun is_bind :: "socket_addr_use \<Rightarrow> bool" where
  "is_bind TcpBind = True"
| "is_bind UdpBind = True"
| "is_bind _ = False"

definition socket_addr_check ::
  "egress_policy \<Rightarrow> socket_egress_policy \<Rightarrow> hostname_pinning \<Rightarrow> socket_addr \<Rightarrow> socket_addr_use \<Rightarrow> bool"
where
  "socket_addr_check egress mode hp addr use =
     (case mode of
        BlockAll \<Rightarrow> False
      | AllowAll \<Rightarrow> True
      | AllowList \<Rightarrow>
          if is_bind use then True
          else (case check_address egress addr of Inr _ \<Rightarrow> True | Inl _ \<Rightarrow> False)
      | HostnamePinned \<Rightarrow>
          if is_bind use then True
          else (case check_resolved_ip egress (fst addr) of
                  Inl _ \<Rightarrow> False
                | Inr _ \<Rightarrow> hostname_pinned_match egress addr (hp_snapshot hp)))"

section \<open>The outgoing HTTP transport\<close>

datatype error_code =
    InternalError egress_error
  | AllBlocked string "ip_addr list"
  | DnsError string
  | ConnectionTimeout
  | ConnectionRefused
  | ConnectionReadTimeout
  | HttpRequestUriInvalid
  | TlsProtocolError
  | HyperError string

datatype lookup_outcome = LookupTimeout | LookupFailed string | Addresses "socket_addr list"

datatype connect_outcome =
  ConnectTimedOut | AddrNotAvailable | LookupInfoFailed | OtherConnectError | Connected

datatype 'a io_outcome = IoTimeout | IoErr string | IoOk 'a

record http_request =
  rq_uri :: string
  rq_authority :: "(string \<times> string \<times> u16 option) option"
  rq_host_header :: "string option"
  rq_path_and_query :: "string option"

record http_response =
  rs_status :: u16
  rs_location :: "string option"

record net_env =
  net_lookup :: "string \<Rightarrow> u16 \<Rightarrow> lookup_outcome"
  net_connect :: "socket_addr \<Rightarrow> connect_outcome"
  net_header_ok :: "string \<Rightarrow> bool"
  net_server_name :: "string \<Rightarrow> bool"
  net_tls :: "string \<Rightarrow> socket_addr \<Rightarrow> bool"
  net_handshake :: "socket_addr \<Rightarrow> unit io_outcome"
  net_send :: "socket_addr \<Rightarrow> http_request \<Rightarrow> http_response io_outcome"

text \<open>The loop over the resolved addresses: the first one that is not blocked, otherwise the
  blocked ones seen.\<close>

fun pick_addr :: "egress_policy \<Rightarrow> socket_addr list \<Rightarrow> ip_addr list \<Rightarrow> ip_addr list + socket_addr" where
  "pick_addr egress [] blocked = Inl blocked"
| "pick_addr egress (addr # rest) blocked =
     (case check_resolved_ip egress (fst addr) of
        Inr _ \<Rightarrow> Inr addr
      | Inl _ \<Rightarrow> pick_addr egress rest (blocked @ [fst addr]))"

definition resolve_validated ::
  "net_env \<Rightarrow> egress_policy \<Rightarrow> string \<Rightarrow> u16 \<Rightarrow> error_code + socket_addr" where
  "resolve_validated env egress host port =
     (case net_lookup env host port of
        LookupTimeout \<Rightarrow> Inl ConnectionTimeout
      | LookupFailed e \<Rightarrow> Inl (DnsError e)
      | Addresses addrs \<Rightarrow>
          (case pick_addr egress addrs [] of
             Inr addr \<Rightarrow> Inr addr
           | Inl blocked \<Rightarrow>
               if blocked \<noteq> [] then Inl (AllBlocked host blocked)
               else Inl (DnsError ''no addresses returned'')))"

text \<open>A \<open>Location\<close> value is ASCII text or undecodable (\<open>HeaderValue::to_str\<close> fails), which the
  model writes as a non-ASCII string.\<close>

definition header_to_str :: "string \<Rightarrow> string option" where
  "header_to_str v = (if list_all (\<lambda>c. of_char c < (128::nat)) v then Some v else None)"

definition validate_location ::
  "url_parser \<Rightarrow> string option \<Rightarrow> egress_policy \<Rightarrow> egress_error + unit" where
  "validate_location url_parse location egress =
     (case location of
        None \<Rightarrow> Inr ()
      | Some v \<Rightarrow>
          (case header_to_str v of
             None \<Rightarrow> Inr ()
           | Some loc_str \<Rightarrow>
               if \<not> (starts_with ''http://'' loc_str \<or> starts_with ''https://'' loc_str) then Inr ()
               else egress_check url_parse egress loc_str))"

text \<open>What the request looks like on the wire: the \<open>Host\<close> header from the authority when the guest
  set none, and only path and query in the request line.\<close>

definition with_host_header :: "net_env \<Rightarrow> http_request \<Rightarrow> http_request" where
  "with_host_header env rq =
     (if rq_host_header rq \<noteq> None then rq
      else case rq_authority rq of
             Some (auth, _, _) \<Rightarrow>
               if net_header_ok env auth then rq\<lparr>rq_host_header := Some auth\<rparr> else rq
           | None \<Rightarrow> rq)"

definition strip_uri :: "http_request \<Rightarrow> http_request" where
  "strip_uri rq =
     (let pq = (case rq_path_and_query rq of Some p \<Rightarrow> p | None \<Rightarrow> ''/'')
      in rq\<lparr>rq_uri := pq, rq_authority := None, rq_path_and_query := Some pq\<rparr>)"

definition connect_error :: "connect_outcome \<Rightarrow> error_code option" where
  "connect_error out =
     (case out of
        ConnectTimedOut \<Rightarrow> Some ConnectionTimeout
      | AddrNotAvailable \<Rightarrow> Some (DnsError ''address not available'')
      | LookupInfoFailed \<Rightarrow> Some (DnsError ''address not available'')
      | OtherConnectError \<Rightarrow> Some ConnectionRefused
      | Connected \<Rightarrow> None)"

text \<open>The steps after the TCP connection: TLS when asked for (refused without the \<open>egress-tls\<close>
  feature), the HTTP handshake, the request, and the check of a redirect target.\<close>

definition open_sender ::
  "net_env \<Rightarrow> bool \<Rightarrow> bool \<Rightarrow> string \<Rightarrow> socket_addr \<Rightarrow> error_code + unit" where
  "open_sender env egress_tls use_tls host addr =
     (if use_tls \<and> \<not> egress_tls then Inl TlsProtocolError
      else if use_tls \<and> \<not> net_server_name env host then Inl (DnsError ''invalid dns name'')
      else if use_tls \<and> \<not> net_tls env host addr then Inl TlsProtocolError
      else case net_handshake env addr of
             IoTimeout \<Rightarrow> Inl ConnectionTimeout
           | IoErr e \<Rightarrow> Inl (HyperError e)
           | IoOk _ \<Rightarrow> Inr ())"

definition exchange ::
  "url_parser \<Rightarrow> net_env \<Rightarrow> egress_policy \<Rightarrow> socket_addr \<Rightarrow> http_request \<Rightarrow> error_code + http_response"
where
  "exchange url_parse env egress addr rq =
     (case net_send env addr (strip_uri rq) of
        IoTimeout \<Rightarrow> Inl ConnectionReadTimeout
      | IoErr e \<Rightarrow> Inl (HyperError e)
      | IoOk response \<Rightarrow>
          if 300 \<le> rs_status response \<and> rs_status response < 400
          then (case validate_location url_parse (rs_location response) egress of
                  Inl reason \<Rightarrow> Inl (InternalError reason)
                | Inr _ \<Rightarrow> Inr response)
          else Inr response)"

definition send_request_handler ::
  "url_parser \<Rightarrow> net_env \<Rightarrow> bool \<Rightarrow> bool \<Rightarrow> egress_policy \<Rightarrow> http_request \<Rightarrow>
   socket_addr list \<times> (error_code + http_response)" where
  "send_request_handler url_parse env egress_tls use_tls egress request =
     (let rq = with_host_header env request in
      case rq_authority rq of
        None \<Rightarrow> ([], Inl HttpRequestUriInvalid)
      | Some (_, host, auth_port) \<Rightarrow>
          let port = (case auth_port of Some p \<Rightarrow> p | None \<Rightarrow> if use_tls then 443 else 80) in
          (case resolve_validated env egress host port of
             Inl e \<Rightarrow> ([], Inl e)
           | Inr addr \<Rightarrow>
               ([addr],
                case connect_error (net_connect env addr) of
                  Some e \<Rightarrow> Inl e
                | None \<Rightarrow>
                    (case open_sender env egress_tls use_tls host addr of
                       Inl e \<Rightarrow> Inl e
                     | Inr _ \<Rightarrow> exchange url_parse env egress addr rq))))"

definition hooks_send_request ::
  "url_parser \<Rightarrow> net_env \<Rightarrow> bool \<Rightarrow> bool \<Rightarrow> egress_policy \<Rightarrow> http_request \<Rightarrow>
   socket_addr list \<times> (error_code + http_response)" where
  "hooks_send_request url_parse env egress_tls use_tls egress request =
     (case egress_check url_parse egress (rq_uri request) of
        Inl reason \<Rightarrow> ([], Inl (InternalError reason))
      | Inr _ \<Rightarrow> send_request_handler url_parse env egress_tls use_tls egress request)"

section \<open>The hard-denied ranges\<close>

text \<open>The intended meaning of \<open>is_blocked_ipv4\<close>: a list of networks in CIDR form. An address is a
  number below \<open>2^32\<close>, and it is in a network when the leading bits agree.\<close>

fun v4_num :: "ipv4_addr \<Rightarrow> nat" where
  "v4_num (Ipv4Addr a b c d) = unat a * 2 ^ 24 + unat b * 2 ^ 16 + unat c * 2 ^ 8 + unat d"

definition in_cidr :: "nat \<Rightarrow> ipv4_addr \<times> nat \<Rightarrow> bool" where
  "in_cidr n r = (n div 2 ^ (32 - snd r) = v4_num (fst r) div 2 ^ (32 - snd r))"

definition hard_denied_ranges :: "(ipv4_addr \<times> nat) list" where
  "hard_denied_ranges =
     [(Ipv4Addr 0 0 0 0, 32), (Ipv4Addr 10 0 0 0, 8), (Ipv4Addr 127 0 0 0, 8),
      (Ipv4Addr 168 63 129 16, 32), (Ipv4Addr 169 254 0 0, 16), (Ipv4Addr 172 16 0 0, 12),
      (Ipv4Addr 192 168 0 0, 16), (Ipv4Addr 224 0 0 0, 4), (Ipv4Addr 255 255 255 255, 32)]"

lemma octets_eq_iff:
  fixes b b' :: nat
  assumes "b < m" "b' < m"
  shows "a * m + b = a' * m + b' \<longleftrightarrow> a = a' \<and> b = b'"
proof
  assume eq: "a * m + b = a' * m + b'"
  have "a = (a * m + b) div m" and "a' = (a' * m + b') div m" using assms by simp_all
  then have "a = a'" using eq by simp
  then show "a = a' \<and> b = b'" using eq by simp
qed simp

lemma u8_lt: "unat (x :: u8) < 256"
  using unsigned_less [of x] by simp

lemma v4_num_inj [simp]: "v4_num x = v4_num y \<longleftrightarrow> x = y"
proof (cases x; cases y)
  fix a b c d a' b' c' d'
  assume "x = Ipv4Addr a b c d" and "y = Ipv4Addr a' b' c' d'"
  moreover have "v4_num (Ipv4Addr a b c d) =
      ((unat a * 256 + unat b) * 256 + unat c) * 256 + unat d" for a b c d by simp
  ultimately show ?thesis
    by (simp only: octets_eq_iff u8_lt ipv4_addr.inject word_unat_eq_iff conj_assoc)
qed

lemma v4_num_div:
  "v4_num (Ipv4Addr a b c d) div 16777216 = unat a"
  "v4_num (Ipv4Addr a b c d) div 65536 = unat a * 256 + unat b"
  "v4_num (Ipv4Addr a b c d) div 1048576 = unat a * 16 + unat b div 16"
  "v4_num (Ipv4Addr a b c d) div 268435456 = unat a div 16"
  using u8_lt [of a] u8_lt [of b] u8_lt [of c] u8_lt [of d] by simp_all

lemma in_cidr_32 [simp]: "in_cidr (v4_num x) (y, 32) \<longleftrightarrow> x = y"
  by (simp add: in_cidr_def)

lemma in_cidr_8 [simp]: "in_cidr (v4_num (Ipv4Addr a b c d)) (Ipv4Addr a' 0 0 0, 8) \<longleftrightarrow> a = a'"
  by (simp add: in_cidr_def v4_num_div word_unat_eq_iff del: v4_num.simps)

lemma in_cidr_16 [simp]:
  "in_cidr (v4_num (Ipv4Addr a b c d)) (Ipv4Addr a' b' 0 0, 16) \<longleftrightarrow> a = a' \<and> b = b'"
  by (simp add: in_cidr_def v4_num_div octets_eq_iff [OF u8_lt u8_lt] word_unat_eq_iff
      del: v4_num.simps)

lemma in_cidr_private_b:
  "in_cidr (v4_num (Ipv4Addr a b c d)) (Ipv4Addr 172 16 0 0, 12) \<longleftrightarrow> a = 172 \<and> 16 \<le> b \<and> b \<le> 31"
proof -
  have "in_cidr (v4_num (Ipv4Addr a b c d)) (Ipv4Addr 172 16 0 0, 12) \<longleftrightarrow>
        unat a * 16 + unat b div 16 = 172 * 16 + 1"
    by (simp add: in_cidr_def v4_num_div del: v4_num.simps)
  also have "\<dots> \<longleftrightarrow> unat a = 172 \<and> unat b div 16 = 1"
    using octets_eq_iff [of "unat b div 16" 16 1 "unat a" 172] u8_lt [of b] by simp
  also have "\<dots> \<longleftrightarrow> a = 172 \<and> 16 \<le> b \<and> b \<le> 31"
    by (auto simp: word_unat_eq_iff word_le_nat_alt)
  finally show ?thesis .
qed

lemma in_cidr_multicast:
  "in_cidr (v4_num (Ipv4Addr a b c d)) (Ipv4Addr 224 0 0 0, 4) \<longleftrightarrow> 224 \<le> a \<and> a \<le> 239"
proof -
  have "in_cidr (v4_num (Ipv4Addr a b c d)) (Ipv4Addr 224 0 0 0, 4) \<longleftrightarrow> unat a div 16 = 14"
    by (simp add: in_cidr_def v4_num_div del: v4_num.simps)
  also have "\<dots> \<longleftrightarrow> 224 \<le> a \<and> a \<le> 239" by (auto simp: word_le_nat_alt)
  finally show ?thesis .
qed

lemma blocked_ipv4_ranges:
  "is_blocked_ipv4 ip \<longleftrightarrow> (\<exists>r \<in> set hard_denied_ranges. in_cidr (v4_num ip) r)"
proof (cases ip)
  case (Ipv4Addr a b c d)
  show ?thesis unfolding Ipv4Addr is_blocked_ipv4_def hard_denied_ranges_def
    by (auto simp: in_cidr_private_b in_cidr_multicast simp del: v4_num.simps)
qed

section \<open>What the policy permits\<close>

text \<open>An entry without \<open>*.\<close> permits exactly its own name; \<open>*.base\<close> permits the apex \<open>base\<close> and the
  names one non-empty label below it.\<close>

lemma entry_matches_exact:
  "entry_matches entry h \<longleftrightarrow>
     (if starts_with ''*.'' entry
      then \<exists>base. entry = ''*.'' @ base \<and>
             (h = base \<or> (\<exists>label. label \<noteq> [] \<and> CHR ''.'' \<notin> set label \<and> h = label @ ''.'' @ base))
      else h = entry)"
proof (cases "strip_prefix ''*.'' entry")
  case None
  then show ?thesis by (auto simp: entry_matches_def starts_with_def)
next
  case (Some base)
  then have e: "entry = ''*.'' @ base" by (simp add: strip_prefix_Some)
  define one_label where
    "one_label b = (\<exists>label. label \<noteq> [] \<and> CHR ''.'' \<notin> set label \<and> h = label @ ''.'' @ b)" for b
  have "(case strip_suffix (CHR ''.'' # base) h of
           Some label \<Rightarrow> label \<noteq> [] \<and> CHR ''.'' \<notin> set label | None \<Rightarrow> False) \<longleftrightarrow> one_label base"
  proof (cases "strip_suffix (CHR ''.'' # base) h")
    case None
    then have "h \<noteq> r @ ''.'' @ base" for r using strip_suffix_Some [of "CHR ''.'' # base" h r] by simp
    then show ?thesis by (simp add: one_label_def None)
  next
    case (Some label)
    then have "h = r @ ''.'' @ base \<longleftrightarrow> r = label" for r
      using strip_suffix_Some [of "CHR ''.'' # base" h r] by auto
    then show ?thesis by (simp add: one_label_def Some)
  qed
  then have "entry_matches entry h \<longleftrightarrow> h = base \<or> one_label base"
    by (simp add: entry_matches_def Some e)
  moreover have "starts_with ''*.'' entry" by (simp add: starts_with_def Some)
  moreover have "(\<exists>b. entry = ''*.'' @ b \<and> (h = b \<or> one_label b)) \<longleftrightarrow> h = base \<or> one_label base"
    by (simp add: e)
  ultimately show ?thesis unfolding one_label_def by simp
qed

definition host_permitted :: "egress_policy \<Rightarrow> url_host \<Rightarrow> bool" where
  "host_permitted pol h =
     (hard_deny h = None \<and>
      (\<exists>e \<in> set (ep_allowlist pol). e = ''*'' \<or> entry_matches e (host_to_string h)))"

lemma egress_check_exact:
  "egress_check url_parse pol url = Inr () \<longleftrightarrow>
     (\<exists>h. url_parse url = Inr (Some h) \<and> host_permitted pol h)"
  by (auto simp: egress_check_def host_permitted_def Let_def
      split: sum.splits option.splits if_splits)

lemma egress_check_isl: "(\<exists>e. egress_check url_parse pol url = Inl e) \<longleftrightarrow>
    \<not> (\<exists>h. url_parse url = Inr (Some h) \<and> host_permitted pol h)"
  unfolding egress_check_exact [symmetric] by (cases "egress_check url_parse pol url") auto

lemma host_permitted_allow_all: "host_permitted egress_allow_all h \<longleftrightarrow> hard_deny h = None"
  by (simp add: host_permitted_def egress_allow_all_def)

lemma host_permitted_new:
  "host_permitted (egress_new al) h \<longleftrightarrow>
     hard_deny h = None \<and> (\<exists>e \<in> set al. e \<noteq> ''*'' \<and> entry_matches e (host_to_string h))"
  by (auto simp: host_permitted_def egress_new_def)

lemma pick_addr_Inr:
  "pick_addr pol addrs blocked = Inr a \<longleftrightarrow>
     (\<exists>pre post. addrs = pre @ a # post \<and> \<not> is_blocked_ip (fst a) \<and>
                 list_all (\<lambda>b. is_blocked_ip (fst b)) pre)"
proof -
  have "pick_addr pol addrs blocked = Inr a \<longleftrightarrow> find (\<lambda>b. \<not> is_blocked_ip (fst b)) addrs = Some a"
    by (induction addrs arbitrary: blocked) (auto simp: check_resolved_ip_def)
  then show ?thesis by (simp add: find_split)
qed

lemma pick_addr_Inl:
  "pick_addr pol addrs blocked = Inl bs \<longleftrightarrow>
     list_all (\<lambda>b. is_blocked_ip (fst b)) addrs \<and> bs = blocked @ map fst addrs"
  by (induction addrs arbitrary: blocked) (auto simp: check_resolved_ip_def)

lemma resolve_validated_Inr:
  "resolve_validated env pol host port = Inr a \<longleftrightarrow>
     (\<exists>pre post. net_lookup env host port = Addresses (pre @ a # post) \<and>
        \<not> is_blocked_ip (fst a) \<and> list_all (\<lambda>b. is_blocked_ip (fst b)) pre)"
proof (cases "net_lookup env host port")
  case (Addresses addrs)
  have "resolve_validated env pol host port = Inr a \<longleftrightarrow> pick_addr pol addrs [] = Inr a"
    by (auto simp: resolve_validated_def Addresses split: sum.splits if_splits)
  then show ?thesis by (auto simp: pick_addr_Inr Addresses)
qed (auto simp: resolve_validated_def)

definition dial_port :: "bool \<Rightarrow> u16 option \<Rightarrow> u16" where
  "dial_port use_tls p = (case p of Some q \<Rightarrow> q | None \<Rightarrow> if use_tls then 443 else 80)"

lemma authority_with_host_header [simp]:
  "rq_authority (with_host_header env rq) = rq_authority rq"
  by (auto simp: with_host_header_def split: option.splits)

lemma send_request_handler_trace:
  "fst (send_request_handler url_parse env tls use_tls pol rq) =
     (case rq_authority rq of
        None \<Rightarrow> []
      | Some (_, host, p) \<Rightarrow>
          (case resolve_validated env pol host (dial_port use_tls p) of
             Inl _ \<Rightarrow> [] | Inr a \<Rightarrow> [a]))"
  by (auto simp: send_request_handler_def Let_def dial_port_def split: option.splits sum.splits)

lemma handler_trace_iff:
  "a \<in> set (fst (send_request_handler url_parse env tls use_tls pol rq)) \<longleftrightarrow>
     (\<exists>auth host p. rq_authority rq = Some (auth, host, p) \<and>
        resolve_validated env pol host (dial_port use_tls p) = Inr a)"
proof (cases "rq_authority rq")
  case (Some t)
  obtain auth host p where t: "t = (auth, host, p)" by (cases t)
  show ?thesis
    by (cases "resolve_validated env pol host (dial_port use_tls p)")
      (auto simp: send_request_handler_trace Some t)
qed (simp add: send_request_handler_trace)

lemma hooks_trace:
  "fst (hooks_send_request url_parse env tls use_tls pol rq) =
     (if egress_check url_parse pol (rq_uri rq) = Inr ()
      then fst (send_request_handler url_parse env tls use_tls pol rq) else [])"
  by (cases "egress_check url_parse pol (rq_uri rq)") (auto simp: hooks_send_request_def)

text \<open>Claim C4 (outgoing HTTP). A guest's request opens a connection to an address exactly when the
  policy permits the host of the URL - it is not hard-denied and the allowlist has \<open>*\<close> or an entry
  that matches it - the request has an authority, and the address is the first one the resolver
  returned for it that is outside the hard-denied ranges. The addresses before it may all be
  blocked: a poisoned record does not refuse the request as long as a clean one follows, although
  the comment of \<open>resolve_validated\<close> says that any blocked candidate refuses it. Whatever the
  resolver answers, no blocked address is connected to, and at most one connection is opened.\<close>

theorem http_egress_exact:
  "(a \<in> set (fst (hooks_send_request url_parse env tls use_tls pol rq)) \<longleftrightarrow>
     (\<exists>h. url_parse (rq_uri rq) = Inr (Some h) \<and> host_permitted pol h) \<and>
     (\<exists>auth host p pre post.
        rq_authority rq = Some (auth, host, p) \<and>
        net_lookup env host (dial_port use_tls p) = Addresses (pre @ a # post) \<and>
        \<not> is_blocked_ip (fst a) \<and> list_all (\<lambda>b. is_blocked_ip (fst b)) pre)) \<and>
   length (fst (hooks_send_request url_parse env tls use_tls pol rq)) \<le> 1"
proof (intro conjI)
  show "(a \<in> set (fst (hooks_send_request url_parse env tls use_tls pol rq))) =
     ((\<exists>h. url_parse (rq_uri rq) = Inr (Some h) \<and> host_permitted pol h) \<and>
     (\<exists>auth host p pre post.
        rq_authority rq = Some (auth, host, p) \<and>
        net_lookup env host (dial_port use_tls p) = Addresses (pre @ a # post) \<and>
        \<not> is_blocked_ip (fst a) \<and> list_all (\<lambda>b. is_blocked_ip (fst b)) pre))"
    unfolding hooks_trace egress_check_exact [symmetric]
    by (auto simp: handler_trace_iff resolve_validated_Inr)
  show "length (fst (hooks_send_request url_parse env tls use_tls pol rq)) \<le> 1"
    unfolding hooks_trace send_request_handler_trace by (auto split: option.splits sum.splits)
qed

theorem http_egress_exact_witness:
  "fst (hooks_send_request (\<lambda>u. Inr (Some (Domain ''api.stripe.com'')))
     \<lparr>net_lookup = (\<lambda>h p. Addresses [(IpV4 (Ipv4Addr 169 254 169 254), p), (IpV4 (Ipv4Addr 3 18 12 63), p)]),
      net_connect = (\<lambda>_. Connected), net_header_ok = (\<lambda>_. True), net_server_name = (\<lambda>_. True),
      net_tls = (\<lambda>_ _. True), net_handshake = (\<lambda>_. IoOk ()),
      net_send = (\<lambda>_ _. IoOk \<lparr>rs_status = 200, rs_location = None\<rparr>)\<rparr>
     True True (egress_new [''*.stripe.com''])
     \<lparr>rq_uri = ''https://api.stripe.com/v1'', rq_authority = Some (''api.stripe.com'', ''api.stripe.com'', None),
      rq_host_header = None, rq_path_and_query = Some ''/v1''\<rparr>) =
   [(IpV4 (Ipv4Addr 3 18 12 63), 443)]" (is "fst (hooks_send_request ?p ?env _ _ ?pol ?rq) = _")
proof -
  have blocked: "is_blocked_ip (IpV4 (Ipv4Addr 169 254 169 254))"
    and clean: "\<not> is_blocked_ip (IpV4 (Ipv4Addr 3 18 12 63))" by (simp_all add: is_blocked_ipv4_def)
  have "host_permitted ?pol (Domain ''api.stripe.com'')"
    by (simp add: host_permitted_new is_blocked_hostname_def entry_matches_def strip_suffix_def)
  moreover have "rq_authority ?rq = Some (''api.stripe.com'', ''api.stripe.com'', None) \<and>
      net_lookup ?env ''api.stripe.com'' (dial_port True None) =
        Addresses ([(IpV4 (Ipv4Addr 169 254 169 254), 443)] @ (IpV4 (Ipv4Addr 3 18 12 63), 443) # []) \<and>
      \<not> is_blocked_ip (fst (IpV4 (Ipv4Addr 3 18 12 63), 443 :: u16)) \<and>
      list_all (\<lambda>b. is_blocked_ip (fst b)) [(IpV4 (Ipv4Addr 169 254 169 254), 443 :: u16)]"
    using blocked clean by (simp add: dial_port_def del: is_blocked_ip.simps)
  ultimately have "(IpV4 (Ipv4Addr 3 18 12 63), 443) \<in> set (fst (hooks_send_request ?p ?env True True ?pol ?rq))"
    using http_egress_exact [of "(IpV4 (Ipv4Addr 3 18 12 63), 443)" ?p ?env True True ?pol ?rq] by blast
  then show ?thesis
    using http_egress_exact [of "(IpV4 (Ipv4Addr 3 18 12 63), 443)" ?p ?env True True ?pol ?rq]
    by (cases "fst (hooks_send_request ?p ?env True True ?pol ?rq)") (simp_all del: is_blocked_ip.simps)
qed

section \<open>What the socket check permits\<close>

lemma hp_get_records:
  "hm_get (fold (\<lambda>(h, ips). hp_record h ips) recs hp) h =
     (case map_of (rev recs) h of Some ips \<Rightarrow> Some (set ips) | None \<Rightarrow> hm_get hp h)"
  by (induction recs arbitrary: hp) (auto simp: hp_record_def map_add_def split: option.splits)

lemma hp_wf_records: "hm_wf hp \<Longrightarrow> hm_wf (fold (\<lambda>(h, ips). hp_record h ips) recs hp)"
  by (induction recs arbitrary: hp) (auto simp: hp_record_def)

lemma pinned_match_exact:
  "hostname_pinned_match pol addr (fold (\<lambda>(h, ips). hp_record h ips) recs hp_new) \<longleftrightarrow>
     (\<exists>h ips. map_of (rev recs) h = Some ips \<and> fst addr \<in> set ips \<and>
        (''*'' \<in> set (ep_allowlist pol) \<or> h \<in> set (ep_allowlist pol)))"
  (is "?l \<longleftrightarrow> ?r")
proof -
  let ?hp = "fold (\<lambda>(h, ips). hp_record h ips) recs hp_new"
  have get: "hm_get ?hp h = Some s \<longleftrightarrow> (\<exists>ips. map_of (rev recs) h = Some ips \<and> s = set ips)" for h s
    by (auto simp: hp_get_records hp_new_def split: option.splits)
  have wf: "hm_wf ?hp" by (rule hp_wf_records) (simp add: hp_new_def)
  have pinned: "(case hm_get ?hp e of Some s \<Rightarrow> fst addr \<in> s | None \<Rightarrow> False) \<longleftrightarrow>
      (\<exists>ips. map_of (rev recs) e = Some ips \<and> fst addr \<in> set ips)" for e
    by (auto simp: hp_get_records hp_new_def split: option.splits)
  have any: "(\<exists>s \<in> set (hm_values ?hp). fst addr \<in> s) \<longleftrightarrow>
      (\<exists>h ips. map_of (rev recs) h = Some ips \<and> fst addr \<in> set ips)"
    unfolding Bex_def hm_values_iff [OF wf] get by blast
  show ?thesis unfolding hostname_pinned_match_def pinned any
    by (cases "ep_allowlist pol = []") auto
qed

text \<open>Claim C23 (raw sockets). The check of \<open>wasi:sockets\<close> permits an operation exactly in these cases:
  the mode is \<open>allow-all\<close>; it is a bind and the mode is not \<open>block-all\<close>; or the address is outside
  the hard-denied ranges, the allowlist is not empty, and the mode is \<open>allowlist\<close>, or
  \<open>hostname-pinned\<close> with the address in the last recorded resolution of a hostname that the
  allowlist names (of any hostname, when the allowlist has \<open>*\<close>). Only \<open>allow-all\<close> reaches a
  hard-denied address, and a pinned hostname loses the addresses an earlier resolution gave it.\<close>

theorem socket_egress_exact:
  "socket_addr_check pol mode (fold (\<lambda>(h, ips). hp_record h ips) recs hp_new) addr use \<longleftrightarrow>
     mode = AllowAll \<or>
     (mode \<noteq> BlockAll \<and> is_bind use) \<or>
     (\<not> is_blocked_ip (fst addr) \<and> ep_allowlist pol \<noteq> [] \<and>
       (mode = AllowList \<or>
        mode = HostnamePinned \<and>
          (\<exists>h ips. map_of (rev recs) h = Some ips \<and> fst addr \<in> set ips \<and>
             (''*'' \<in> set (ep_allowlist pol) \<or> h \<in> set (ep_allowlist pol)))))"
proof (cases mode)
  case HostnamePinned
  then show ?thesis
    unfolding pinned_match_exact [of pol addr recs, symmetric]
    by (auto simp: socket_addr_check_def check_resolved_ip_def hp_snapshot_def hostname_pinned_match_def
        split: if_splits)
qed (auto simp: socket_addr_check_def check_address_def check_resolved_ip_def)

lemma ascii_lower_mode [simp]: "to_ascii_lowercase (socket_mode_to_string m) = socket_mode_to_string m"
  by (cases m) (simp_all add: to_ascii_lowercase_def ascii_lower_def)

text \<open>Socket modes, text form. Parsing accepts a text exactly when its ASCII-lowercase form
  is the printed form of a mode, and gives that mode; so printing a mode and parsing it back is
  the identity.\<close>

theorem socket_mode_roundtrip:
  "(socket_mode_from_str s = Inr m \<longleftrightarrow> to_ascii_lowercase s = socket_mode_to_string m) \<and>
   socket_mode_from_str (socket_mode_to_string m) = Inr m"
proof -
  have iff: "socket_mode_from_str s = Inr m \<longleftrightarrow> to_ascii_lowercase s = socket_mode_to_string m" for s
    by (cases m) (auto simp: socket_mode_from_str_def Let_def)
  then show ?thesis by simp
qed

end
