(* ===== verification/Worker_Messages.thy ===== *)
theory Worker_Messages
  imports Runtime_Egress "HOL-Library.Monad_Syntax"
begin

text \<open>
  The messages of the control plane to the worker (\<open>edge-worker/src/messages.rs\<close>): the types, how
  \<open>serde\<close> reads them from a JSON value (which fields are required, which default, which have a
  deserialiser of their own) and the expansion of weighted routes into deployments.

  A field of a type other than the expected one is an error, an absent or \<open>null\<close> optional field is
  \<open>None\<close>, and unknown fields are ignored.
\<close>

section \<open>Types\<close>

datatype purge_reason = AppDeleted | TenantOffboarded

record deployment_route =
  dr_deployment_id :: string
  dr_deployment_hash :: string
  dr_deployment_signature :: "string option"
  dr_signing_key_id :: "string option"
  dr_weight :: u8

record app_spec =
  ap_deployment_id :: string
  ap_deployment_hash :: string
  ap_deployment_signature :: "string option"
  ap_signing_key_id :: "string option"
  ap_routes :: "deployment_route list option"
  ap_env :: "(string, string) hashmap"
  ap_allowlist :: "string list option"
  ap_socket_mode :: "socket_egress_policy option"
  ap_max_memory_mb :: u64
  ap_cpu_budget_ms :: "u64 option"
  ap_preview_id :: "string option"
  ap_preview_pr_number :: "u32 option"

datatype task_message =
  TaskUpdate string "(string, app_spec) hashmap"
| FullSync string "(string, app_spec) hashmap"
| TaskPurge string string purge_reason

section \<open>Deserialisation\<close>

fun as_uint :: "nat \<Rightarrow> json \<Rightarrow> nat option" where
  "as_uint bound (JNum i) = (if 0 \<le> i \<and> i < int bound then Some (nat i) else None)"
| "as_uint bound _ = None"

fun as_array :: "json \<Rightarrow> json list option" where
  "as_array (JArr js) = Some js"
| "as_array _ = None"

fun traverse :: "('a \<Rightarrow> 'b option) \<Rightarrow> 'a list \<Rightarrow> 'b list option" where
  "traverse f [] = Some []"
| "traverse f (x # xs) = do { y \<leftarrow> f x; ys \<leftarrow> traverse f xs; Some (y # ys) }"

definition required :: "(json \<Rightarrow> 'a option) \<Rightarrow> string \<Rightarrow> json \<Rightarrow> 'a option" where
  "required f k j = do { v \<leftarrow> jget k j; f v }"

definition optional :: "(json \<Rightarrow> 'a option) \<Rightarrow> string \<Rightarrow> json \<Rightarrow> 'a option option" where
  "optional f k j =
     (case jget k j of
        None \<Rightarrow> Some None
      | Some JNull \<Rightarrow> Some None
      | Some v \<Rightarrow> map_option Some (f v))"

definition as_strings :: "json \<Rightarrow> string list option" where
  "as_strings j = do { js \<leftarrow> as_array j; traverse as_str js }"

definition map_of_json :: "(json \<Rightarrow> 'a option) \<Rightarrow> json \<Rightarrow> (string, 'a) hashmap option" where
  "map_of_json f j =
     do { kvs \<leftarrow> as_object j;
          pairs \<leftarrow> traverse (\<lambda>(k, v). map_option (Pair k) (f v)) kvs;
          Some (hm_collect pairs) }"

definition deserialize_allowlist :: "json \<Rightarrow> string list option option" where
  "deserialize_allowlist j =
     map_option (\<lambda>v. case v of
         None \<Rightarrow> None
       | Some xs \<Rightarrow> if xs \<noteq> [] \<and> \<not> list_all (\<lambda>e. e = ''*'') xs then Some xs else None)
       (optional as_strings ''allowlist'' j)"

definition deserialize_socket_mode :: "json \<Rightarrow> socket_egress_policy option option" where
  "deserialize_socket_mode j =
     map_option (\<lambda>v. case v of
         None \<Rightarrow> None
       | Some s \<Rightarrow> if s = [] then None
                   else (case socket_mode_from_str s of Inr m \<Rightarrow> Some m | Inl _ \<Rightarrow> None))
       (optional as_str ''socket_mode'' j)"

definition route_of_json :: "json \<Rightarrow> deployment_route option" where
  "route_of_json j =
     do { did \<leftarrow> required as_str ''deployment_id'' j;
          hash \<leftarrow> required as_str ''deployment_hash'' j;
          sig \<leftarrow> optional as_str ''deployment_signature'' j;
          kid \<leftarrow> optional as_str ''signing_key_id'' j;
          weight \<leftarrow> required (as_uint (2 ^ 8)) ''weight'' j;
          Some \<lparr>dr_deployment_id = did, dr_deployment_hash = hash, dr_deployment_signature = sig,
                dr_signing_key_id = kid, dr_weight = of_nat weight\<rparr> }"

definition spec_of_json :: "json \<Rightarrow> app_spec option" where
  "spec_of_json j =
     do { did \<leftarrow> required as_str ''deployment_id'' j;
          hash \<leftarrow> required as_str ''deployment_hash'' j;
          sig \<leftarrow> optional as_str ''deployment_signature'' j;
          kid \<leftarrow> optional as_str ''signing_key_id'' j;
          routes \<leftarrow> optional (\<lambda>v. do { js \<leftarrow> as_array v; traverse route_of_json js }) ''routes'' j;
          env \<leftarrow> required (map_of_json as_str) ''env'' j;
          allowlist \<leftarrow> deserialize_allowlist j;
          socket_mode \<leftarrow> deserialize_socket_mode j;
          mem \<leftarrow> required (as_uint (2 ^ 64)) ''max_memory_mb'' j;
          cpu \<leftarrow> optional (as_uint (2 ^ 64)) ''cpu_budget_ms'' j;
          preview \<leftarrow> optional as_str ''preview_id'' j;
          pr \<leftarrow> optional (as_uint (2 ^ 32)) ''preview_pr_number'' j;
          Some \<lparr>ap_deployment_id = did, ap_deployment_hash = hash, ap_deployment_signature = sig,
                ap_signing_key_id = kid, ap_routes = routes, ap_env = env, ap_allowlist = allowlist,
                ap_socket_mode = socket_mode, ap_max_memory_mb = of_nat mem,
                ap_cpu_budget_ms = map_option of_nat cpu, ap_preview_id = preview,
                ap_preview_pr_number = map_option of_nat pr\<rparr> }"

definition reason_of_json :: "json \<Rightarrow> purge_reason option" where
  "reason_of_json j =
     (case j of
        JStr s \<Rightarrow> if s = ''app_deleted'' then Some AppDeleted
                  else if s = ''tenant_offboarded'' then Some TenantOffboarded else None
      | _ \<Rightarrow> None)"

text \<open>The field \<open>type\<close> selects the variant; \<open>app_name\<close> of a purge defaults to the empty string.\<close>

definition task_of_json :: "json \<Rightarrow> task_message option" where
  "task_of_json j =
     do { tag \<leftarrow> required as_str ''type'' j;
          _ \<leftarrow> required as_str ''timestamp'' j;
          tenant_id \<leftarrow> required as_str ''tenant_id'' j;
          if tag = ''task_update'' then
            do { apps \<leftarrow> required (map_of_json spec_of_json) ''apps'' j; Some (TaskUpdate tenant_id apps) }
          else if tag = ''full_sync'' then
            do { apps \<leftarrow> required (map_of_json spec_of_json) ''apps'' j; Some (FullSync tenant_id apps) }
          else if tag = ''task_purge'' then
            do { app_name \<leftarrow> (case jget ''app_name'' j of None \<Rightarrow> Some [] | Some v \<Rightarrow> as_str v);
                 reason \<leftarrow> required reason_of_json ''reason'' j;
                 Some (TaskPurge tenant_id app_name reason) }
          else None }"

section \<open>Routes\<close>

definition route_spec :: "app_spec \<Rightarrow> deployment_route \<Rightarrow> app_spec" where
  "route_spec spec route =
     spec\<lparr>ap_deployment_id := dr_deployment_id route, ap_deployment_hash := dr_deployment_hash route,
          ap_deployment_signature := dr_deployment_signature route,
          ap_signing_key_id := dr_signing_key_id route\<rparr>"

fun expand_app :: "string \<times> app_spec \<Rightarrow> (string \<times> string \<times> app_spec) list" where
  "expand_app (app_name, spec) =
     (case ap_routes spec of
        None \<Rightarrow> [(app_name, ap_deployment_id spec, spec)]
      | Some routes \<Rightarrow> map (\<lambda>r. (app_name, dr_deployment_id r, route_spec spec r)) routes)"

definition expand_routes :: "(string, app_spec) hashmap \<Rightarrow> (string \<times> string \<times> app_spec) list" where
  "expand_routes apps = concat (map expand_app apps)"

section \<open>Policies\<close>

definition allowlist_to_egress_policy :: "string list option \<Rightarrow> egress_policy" where
  "allowlist_to_egress_policy allowlist =
     (case allowlist of None \<Rightarrow> egress_allow_all | Some xs \<Rightarrow> egress_new xs)"

definition socket_mode_for_spec :: "app_spec \<Rightarrow> socket_egress_policy \<Rightarrow> socket_egress_policy" where
  "socket_mode_for_spec spec worker_default =
     (case ap_socket_mode spec of Some m \<Rightarrow> m | None \<Rightarrow> worker_default)"

section \<open>Properties\<close>

lemma traverse_Some: "traverse f xs = Some ys \<longleftrightarrow> list_all2 (\<lambda>x y. f x = Some y) xs ys"
proof (induction xs arbitrary: ys)
  case (Cons x xs)
  then show ?case by (cases ys) (auto simp: list_all2_Cons1 bind_eq_Some_conv)
qed auto

lemma traverse_JStr [simp]: "traverse as_str (map JStr xs) = Some xs"
  by (induction xs) simp_all

lemma spec_of_json_allowlist: "spec_of_json j = Some spec \<Longrightarrow> deserialize_allowlist j = Some (ap_allowlist spec)"
  by (auto simp: spec_of_json_def bind_eq_Some_conv)

lemma expand_app_pairs: "(app, did, spec') \<in> set (expand_app (name, spec)) \<Longrightarrow> app = name \<and> ap_deployment_id spec' = did"
  by (auto simp: route_spec_def split: option.splits)

lemma expand_routes_spec: "(app, did, spec) \<in> set (expand_routes apps) \<Longrightarrow> ap_deployment_id spec = did"
  using expand_app_pairs by (fastforce simp: expand_routes_def)

text \<open>Each deployment of a weighted split runs with the environment, the limits and the policies of
  the app, and with the hash and the signature of its own route.\<close>

lemma expand_routes_inherit:
  assumes "(app, did, s) \<in> set (expand_routes apps)"
  shows "\<exists>spec. (app, spec) \<in> set apps \<and> ap_env s = ap_env spec \<and> ap_allowlist s = ap_allowlist spec \<and>
    ap_socket_mode s = ap_socket_mode spec \<and> ap_max_memory_mb s = ap_max_memory_mb spec \<and>
    (ap_routes spec = None \<and> s = spec \<or>
     (\<exists>r \<in> set (the (ap_routes spec)). did = dr_deployment_id r \<and> ap_deployment_hash s = dr_deployment_hash r \<and>
        ap_deployment_signature s = dr_deployment_signature r \<and> ap_signing_key_id s = dr_signing_key_id r))"
  using assms by (fastforce simp: expand_routes_def route_spec_def split: option.splits)

text \<open>Claim C32 (the allowlist of a message). For a message whose allowlist is the array \<open>xs\<close>, the guest may
  reach a host iff the host is not denied outright and either \<open>xs\<close> is empty or consists of stars
  (no restriction), or an entry other than the star matches the host. A star next to other entries
  opens nothing.\<close>

theorem wire_allowlist_exact:
  assumes "spec_of_json j = Some spec" and "jget ''allowlist'' j = Some (JArr (map JStr xs))"
  shows "host_permitted (allowlist_to_egress_policy (ap_allowlist spec)) h \<longleftrightarrow>
    hard_deny h = None \<and>
    (list_all (\<lambda>e. e = ''*'') xs \<or> (\<exists>e \<in> set xs. e \<noteq> ''*'' \<and> entry_matches e (host_to_string h)))"
proof -
  have "deserialize_allowlist j = Some (ap_allowlist spec)" by (rule spec_of_json_allowlist [OF assms(1)])
  then have "ap_allowlist spec = (if xs \<noteq> [] \<and> \<not> list_all (\<lambda>e. e = ''*'') xs then Some xs else None)"
    using assms(2) by (simp add: deserialize_allowlist_def optional_def as_strings_def)
  then show ?thesis
    by (auto simp: allowlist_to_egress_policy_def host_permitted_allow_all host_permitted_new list_all_iff)
qed

theorem wire_allowlist_exact_witness:
  "\<exists>spec. spec_of_json (JObj [(''deployment_id'', JStr ''d1''), (''deployment_hash'', JStr ''00''), (''env'', JObj []),
       (''allowlist'', JArr [JStr ''*'', JStr ''api.test'']), (''max_memory_mb'', JNum 64)]) = Some spec \<and>
     \<not> host_permitted (allowlist_to_egress_policy (ap_allowlist spec)) (Domain ''other.test'')"
proof -
  let ?j = "JObj [(''deployment_id'', JStr ''d1''), (''deployment_hash'', JStr ''00''), (''env'', JObj []),
       (''allowlist'', JArr (map JStr [''*'', ''api.test''])), (''max_memory_mb'', JNum 64)]"
  have "\<exists>spec. spec_of_json ?j = Some spec"
    by (simp add: spec_of_json_def required_def optional_def deserialize_allowlist_def deserialize_socket_mode_def
        as_strings_def map_of_json_def)
  then obtain spec where spec: "spec_of_json ?j = Some spec" ..
  have "\<not> entry_matches ''api.test'' (host_to_string (Domain ''other.test''))"
    by (simp add: entry_matches_def to_ascii_lowercase_def ascii_lower_def)
  then have "\<not> host_permitted (allowlist_to_egress_policy (ap_allowlist spec)) (Domain ''other.test'')"
    using wire_allowlist_exact [OF spec, of "[''*'', ''api.test'']" "Domain ''other.test''"] by simp
  with spec show ?thesis by auto
qed

text \<open>A message of an older control plane, without any of the optional fields, is accepted.\<close>

lemma legacy_spec:
  assumes "jget ''deployment_id'' j = Some (JStr did)" and "jget ''deployment_hash'' j = Some (JStr h)"
    and "jget ''env'' j = Some (JObj (map (\<lambda>(k, v). (k, JStr v)) env))" and "jget ''max_memory_mb'' j = Some (JNum m)"
    and "0 \<le> m" and "m < 2 ^ 64"
    and "\<forall>k \<in> {''deployment_signature'', ''signing_key_id'', ''routes'', ''allowlist'', ''socket_mode'',
      ''cpu_budget_ms'', ''preview_id'', ''preview_pr_number''}. jget k j = None"
  shows "spec_of_json j = Some \<lparr>ap_deployment_id = did, ap_deployment_hash = h, ap_deployment_signature = None,
    ap_signing_key_id = None, ap_routes = None, ap_env = hm_collect env, ap_allowlist = None, ap_socket_mode = None,
    ap_max_memory_mb = of_nat (nat m), ap_cpu_budget_ms = None, ap_preview_id = None, ap_preview_pr_number = None\<rparr>"
proof -
  have "traverse (\<lambda>(k, v). map_option (Pair k) (as_str v)) (map (\<lambda>(k, v). (k, JStr v)) env) = Some env"
    by (induction env) auto
  then show ?thesis
    using assms by (simp add: spec_of_json_def required_def optional_def deserialize_allowlist_def
        deserialize_socket_mode_def map_of_json_def)
qed

end
