(* ===== verification/Worker_Util.thy ===== *)
theory Worker_Util
  imports Edge_Prelude
begin

unbundle bit_operations_syntax

text \<open>
  The self-contained parts of the worker (\<open>edge-worker/src\<close>): the pool of app ports (\<open>port_pool.rs\<close>),
  the retry backoff (\<open>backoff.rs\<close>), the deduplication ids of metering deltas (\<open>metering_dedupe.rs\<close>)
  and the recognition of handler components (\<open>detect.rs\<close>).

  The \<open>HashSet\<close> of available ports is a list without duplicates whose order stands for the
  iteration order. The shared random state of the backoff is the argument \<open>state\<close>.
\<close>

section \<open>App ports\<close>

record worker_port_pool =
  wp_next_port :: u16
  wp_starting_port :: u16
  wp_cooldown_secs :: u64
  wp_available :: "u16 list"
  wp_cooling_down :: "(u16 \<times> instant) list"

definition wp_with_capacity :: "u16 \<Rightarrow> u64 \<Rightarrow> u32 \<Rightarrow> worker_port_pool" where
  "wp_with_capacity starting_port cooldown_secs capacity =
     (let max' = - 1 - starting_port :: u16;
          cap = min (ucast capacity) max' :: u16;
          end' = saturating_add starting_port cap
      in \<lparr>wp_next_port = starting_port, wp_starting_port = starting_port,
          wp_cooldown_secs = cooldown_secs,
          wp_available = map (\<lambda>i. starting_port + of_nat i) [0..<unat end' - unat starting_port],
          wp_cooling_down = []\<rparr>)"

definition wp_new :: "u16 \<Rightarrow> u64 \<Rightarrow> worker_port_pool" where
  "wp_new starting_port cooldown_secs = wp_with_capacity starting_port cooldown_secs 100"

definition wp_reap_cooled_ports :: "instant \<Rightarrow> worker_port_pool \<Rightarrow> worker_port_pool" where
  "wp_reap_cooled_ports now p =
     p\<lparr>wp_available := fold List.insert
          (map fst (filter (\<lambda>(_, release_time). now \<ge> release_time) (wp_cooling_down p)))
          (wp_available p),
       wp_cooling_down := filter (\<lambda>(_, release_time). \<not> now \<ge> release_time) (wp_cooling_down p)\<rparr>"

text \<open>The sequential fallback; the number counts the attempts left of the 1000 the loop makes.\<close>

fun wp_fallback :: "nat \<Rightarrow> worker_port_pool \<Rightarrow> u16 option \<times> worker_port_pool" where
  "wp_fallback 0 p = (None, p)"
| "wp_fallback (Suc n) p =
     (let port = wp_next_port p;
          next = saturating_add (wp_next_port p) 1;
          p' = p\<lparr>wp_next_port := if next = - 1 then wp_starting_port p else next\<rparr>
      in if \<not> list_ex (\<lambda>(q, _). q = port) (wp_cooling_down p') then (Some port, p')
         else wp_fallback n p')"

definition wp_acquire :: "instant \<Rightarrow> worker_port_pool \<Rightarrow> u16 option \<times> worker_port_pool" where
  "wp_acquire now p =
     (let p = wp_reap_cooled_ports now p
      in case wp_available p of
           port # rest \<Rightarrow> (Some port, p\<lparr>wp_available := rest\<rparr>)
         | [] \<Rightarrow> wp_fallback 1000 p)"

definition wp_free_slots :: "instant \<Rightarrow> worker_port_pool \<Rightarrow> u32 \<times> worker_port_pool" where
  "wp_free_slots now p =
     (let p = wp_reap_cooled_ports now p in (of_nat (length (wp_available p)), p))"

definition wp_release :: "instant \<Rightarrow> u16 \<Rightarrow> worker_port_pool \<Rightarrow> worker_port_pool" where
  "wp_release now port p =
     (if list_ex (\<lambda>(q, _). q = port) (wp_cooling_down p) then p
      else p\<lparr>wp_cooling_down := wp_cooling_down p @ [(port, now + secs (unat (wp_cooldown_secs p)))]\<rparr>)"

section \<open>Backoff\<close>

definition saturating_mul :: "'a::len word \<Rightarrow> 'a word \<Rightarrow> 'a word" where
  "saturating_mul a b = (if unat a * unat b < 2 ^ LENGTH('a) then a * b else - 1)"

text \<open>One round of the generator: the value it returns is also its next state.\<close>

definition xorshift_uniform_u64 :: "u64 \<Rightarrow> u64" where
  "xorshift_uniform_u64 state =
     (let x = state XOR push_bit 13 state;
          x = x XOR drop_bit 7 x;
          x = x XOR push_bit 17 x
      in x * 0x2545F4914F6CDD1D)"

definition compute_backoff_ms :: "u64 \<Rightarrow> u32 \<Rightarrow> u64 \<Rightarrow> u64 \<Rightarrow> u64" where
  "compute_backoff_ms state attempt base_ms cap_ms =
     (let exp = min (saturating_sub attempt 1) 31;
          raw = saturating_mul base_ms (push_bit (unat exp) 1);
          capped = min raw cap_ms;
          jitter_factor = (xorshift_uniform_u64 state mod 51) + 75
      in saturating_mul capped jitter_factor div 100)"

section \<open>Deduplication ids\<close>

definition HEARTBEAT_BUCKET_SECS :: int where
  "HEARTBEAT_BUCKET_SECS = 30"

text \<open>Division of signed integers truncates toward zero.\<close>

definition trunc_div :: "int \<Rightarrow> int \<Rightarrow> int" where
  "trunc_div a b = sgn a * sgn b * (\<bar>a\<bar> div \<bar>b\<bar>)"

definition dec_int :: "int \<Rightarrow> string" where
  "dec_int i = (if i < 0 then ''-'' @ dec (nat (- i)) else dec (nat i))"

definition dedupe_id :: "string \<Rightarrow> string \<Rightarrow> int \<Rightarrow> string" where
  "dedupe_id worker_id deployment_id now_unix_secs =
     (let bucket = trunc_div now_unix_secs HEARTBEAT_BUCKET_SECS
      in worker_id @ '':'' @ deployment_id @ '':'' @ dec_int bucket)"

section \<open>Handler components\<close>

definition HANDLER_EXPORT :: string where
  "HANDLER_EXPORT = ''wasi:http/incoming-handler''"

definition is_handler_export :: "string \<Rightarrow> bool" where
  "is_handler_export name \<longleftrightarrow>
     name = HANDLER_EXPORT \<or>
     (case strip_prefix HANDLER_EXPORT name of
        Some (c # _) \<Rightarrow> c = CHR ''@''
      | _ \<Rightarrow> False)"

datatype execution_model = LongRunning | Handler

text \<open>\<open>exports\<close> are the names the component exports.\<close>

definition detect_execution_model :: "string list \<Rightarrow> execution_model" where
  "detect_execution_model exports =
     (if list_ex is_handler_export exports then Handler else LongRunning)"

section \<open>Properties of the port pool\<close>

fun acquire_times :: "instant \<Rightarrow> nat \<Rightarrow> worker_port_pool \<Rightarrow> u16 option list \<times> worker_port_pool" where
  "acquire_times now 0 p = ([], p)"
| "acquire_times now (Suc n) p =
     (case wp_acquire now p of (r, p') \<Rightarrow>
        (case acquire_times now n p' of (rs, p'') \<Rightarrow> (r # rs, p'')))"

lemma wp_acquire_quiet:
  assumes "wp_cooling_down p = []"
  shows "wp_acquire now p =
    (case wp_available p of
       port # rest \<Rightarrow> (Some port, p\<lparr>wp_available := rest\<rparr>)
     | [] \<Rightarrow> (Some (wp_next_port p), p\<lparr>wp_next_port :=
               if saturating_add (wp_next_port p) 1 = - 1 then wp_starting_port p
               else saturating_add (wp_next_port p) 1\<rparr>))"
proof -
  have reap: "wp_reap_cooled_ports now p = p" using assms by (simp add: wp_reap_cooled_ports_def)
  have n: "(1000 :: nat) = Suc 999" by simp
  have "wp_fallback 1000 p = (Some (wp_next_port p), p\<lparr>wp_next_port :=
      if saturating_add (wp_next_port p) 1 = - 1 then wp_starting_port p
      else saturating_add (wp_next_port p) 1\<rparr>)"
    using assms unfolding n wp_fallback.simps(2) Let_def by simp
  then show ?thesis by (simp add: wp_acquire_def reap split: list.split)
qed

lemma acquire_drains:
  "wp_cooling_down p = [] \<Longrightarrow>
   fst (acquire_times now (length (wp_available p) + 1) p) =
     map Some (wp_available p) @ [Some (wp_next_port p)]"
proof (induction "wp_available p" arbitrary: p)
  case Nil
  then show ?case by (simp add: wp_acquire_quiet)
next
  case (Cons q qs)
  let ?p' = "p\<lparr>wp_available := qs\<rparr>"
  have "wp_acquire now p = (Some q, ?p')"
    using Cons.hyps(2) [symmetric] Cons.prems by (simp add: wp_acquire_quiet)
  then have "fst (acquire_times now (Suc (Suc (length qs))) p) =
      Some q # fst (acquire_times now (Suc (length qs)) ?p')"
    by (subst acquire_times.simps(2)) (simp only: prod.case case_prod_beta fst_conv snd_conv)
  moreover have "fst (acquire_times now (Suc (length qs)) ?p') = map Some qs @ [Some (wp_next_port p)]"
    using Cons.hyps(1) [of ?p'] Cons.prems by (simp del: acquire_times.simps)
  ultimately show ?case
    using Cons.hyps(2) [symmetric] by (simp del: acquire_times.simps)
qed

text \<open>The worker's pool can hand out a port that is in use. On a fresh pool with a non-empty
  stock, taking one port more than the stock holds, with none released in between, yields the whole
  stock and then the starting port again - which is part of the stock and still held.\<close>

theorem worker_pool_reuses_held_port:
  assumes "wp_available (wp_with_capacity s cd capacity) \<noteq> []"
  shows "fst (acquire_times now (length (wp_available (wp_with_capacity s cd capacity)) + 1)
      (wp_with_capacity s cd capacity)) =
    map Some (wp_available (wp_with_capacity s cd capacity)) @ [Some s] \<and>
    s \<in> set (wp_available (wp_with_capacity s cd capacity))"
proof -
  let ?p = "wp_with_capacity s cd capacity"
  have "wp_next_port ?p = s" "wp_cooling_down ?p = []"
    by (simp_all add: wp_with_capacity_def Let_def)
  moreover have "s \<in> set (wp_available ?p)"
  proof -
    obtain n where av: "wp_available ?p = map (\<lambda>i. s + of_nat i) [0..<n]"
      by (simp add: wp_with_capacity_def Let_def)
    with assms have "0 \<in> set [0..<n]" by simp
    then have "s + of_nat 0 \<in> (\<lambda>i. s + of_nat i) ` set [0..<n]" by (rule imageI)
    then show ?thesis unfolding av by (simp del: set_upt)
  qed
  ultimately show ?thesis using acquire_drains [of ?p now] by simp
qed

theorem worker_pool_reuses_held_port_witness:
  "fst (acquire_times 0 3 (wp_with_capacity 8081 60 2)) = [Some 8081, Some 8082, Some 8081]"
proof -
  have av: "wp_available (wp_with_capacity 8081 60 2) = [8081, 8082]"
    by (simp add: wp_with_capacity_def Let_def saturating_add_def min_def word_le_nat_alt upt_rec)
  with worker_pool_reuses_held_port [of 8081 60 2 0] show ?thesis
    by (simp add: numeral_eq_Suc)
qed

text \<open>\<open>capacity as u16\<close> keeps the low 16 bits instead of clamping.\<close>

lemma capacity_65536_is_empty: "wp_available (wp_with_capacity 8081 60 65536) = []"
  by (simp add: wp_with_capacity_def Let_def saturating_add_def)

section \<open>Properties of the backoff\<close>

lemma unat_saturating_mul:
  "unat (saturating_mul a b) = min (unat a * unat b) (2 ^ LENGTH('a) - 1)"
  for a b :: "'a::len word"
proof -
  have "unat (- 1 :: 'a word) = 2 ^ LENGTH('a) - 1"
    by (simp only: unsigned_minus_1_eq_mask mask_eq_exp_minus_1)
  moreover have "unat a * unat b < 2 ^ LENGTH('a) \<Longrightarrow> unat (a * b) = unat a * unat b"
    by (subst unat_mult_lem [symmetric])
  ultimately show ?thesis
    unfolding saturating_mul_def by (auto simp only: min_def if_True if_False split: if_splits)
qed

lemma unat_min_word: "unat (min a b) = min (unat a) (unat b)" for a b :: "'a::len word"
  by (simp add: min_def word_le_nat_alt)

lemma unat_shift_one: "n \<le> 31 \<Longrightarrow> unat (push_bit n 1 :: u64) = 2 ^ n"
proof -
  assume "n \<le> 31"
  then have "(2 :: nat) ^ n < 2 ^ LENGTH(64)"
    by (intro power_strict_increasing) auto
  then have "unat (of_nat (2 ^ n) :: u64) = 2 ^ n"
    by (simp only: unsigned_of_nat take_bit_nat_eq_self of_nat_id)
  then show ?thesis by (simp add: push_bit_eq_mult)
qed

lemma jitter_range:
  "75 \<le> unat ((x mod 51) + 75 :: u64) \<and> unat ((x mod 51) + 75 :: u64) \<le> 125"
proof -
  have m: "unat (x mod 51) = unat x mod 51" by (simp add: unat_mod_distrib)
  then have "unat (x mod 51) < 51" by simp
  then have "unat (x mod 51) + unat (75 :: u64) < 2 ^ LENGTH(64)" by simp
  from this [unfolded unat_add_lem] m show ?thesis by simp
qed

text \<open>The backoff stays in its band. For every state of the generator, the delay lies between
  75% and 125% of the exponential delay capped at \<open>cap_ms\<close>, where the exponent is the number of the
  attempt less one and at most 31; no multiplication wraps, as long as 125 times the cap fits in 64
  bits.\<close>

lemma compute_backoff_band:
  assumes "unat cap_ms * 125 < 2 ^ 64"
  shows "let capped = min (unat base_ms * 2 ^ min (unat attempt - 1) 31) (unat cap_ms)
    in capped * 75 div 100 \<le> unat (compute_backoff_ms state attempt base_ms cap_ms) \<and>
       unat (compute_backoff_ms state attempt base_ms cap_ms) \<le> capped * 125 div 100"
proof -
  let ?e = "min (saturating_sub attempt 1) 31"
  let ?j = "unat ((xorshift_uniform_u64 state mod 51) + 75)"
  define capped where "capped = min (unat base_ms * 2 ^ min (unat attempt - 1) 31) (unat cap_ms)"
  have e: "unat ?e = min (unat attempt - 1) 31"
    by (simp add: unat_min_word unat_saturating_sub)
  have "unat (push_bit (unat ?e) 1 :: u64) = 2 ^ min (unat attempt - 1) 31"
    unfolding e by (rule unat_shift_one) simp
  then have "unat (saturating_mul base_ms (push_bit (unat ?e) 1)) =
      min (unat base_ms * 2 ^ min (unat attempt - 1) 31) (2 ^ LENGTH(64) - 1)"
    by (simp only: unat_saturating_mul)
  moreover have "unat cap_ms \<le> 2 ^ LENGTH(64) - 1" using assms by simp
  ultimately have "unat (min (saturating_mul base_ms (push_bit (unat ?e) 1)) cap_ms) = capped"
    unfolding capped_def unat_min_word by (simp only: min.assoc min.absorb2)
  moreover have "capped * ?j \<le> 2 ^ 64 - 1"
  proof -
    have "capped * ?j \<le> unat cap_ms * 125"
      using jitter_range by (intro mult_le_mono) (auto simp: capped_def)
    with assms show ?thesis by simp
  qed
  ultimately have "unat (compute_backoff_ms state attempt base_ms cap_ms) = capped * ?j div 100"
    by (simp add: compute_backoff_ms_def Let_def unat_div_distrib unat_saturating_mul min.absorb1)
  moreover have "capped * 75 div 100 \<le> capped * ?j div 100"
    by (intro div_le_mono mult_le_mono2 jitter_range [THEN conjunct1])
  moreover have "capped * ?j div 100 \<le> capped * 125 div 100"
    by (intro div_le_mono mult_le_mono2 jitter_range [THEN conjunct2])
  ultimately show ?thesis unfolding Let_def capped_def [symmetric] by simp
qed

section \<open>Properties of the ids\<close>

lemma dec_int_inj: "dec_int a = dec_int b \<longleftrightarrow> a = b"
proof -
  have "CHR ''-'' # s \<noteq> dec n" for s n
    using dec_digits [of n] by (auto simp: is_digit_def dest: sym)
  then show ?thesis by (auto simp: dec_int_def dec_inj dest: sym)
qed

text \<open>Deduplication ids. For worker and deployment names without a colon, two ids are equal
  iff worker, deployment and bucket are: redelivery within a bucket is recognised, and no two
  workers, deployments or buckets collide. For times from the epoch on, the bucket is the number of
  whole half minutes.\<close>

theorem dedupe_id_exact:
  assumes "CHR '':'' \<notin> set w" and "CHR '':'' \<notin> set w'" and "CHR '':'' \<notin> set d" and "CHR '':'' \<notin> set d'"
    and "0 \<le> t" and "0 \<le> t'"
  shows "dedupe_id w d t = dedupe_id w' d' t' \<longleftrightarrow> w = w' \<and> d = d' \<and> t div 30 = t' div 30"
proof -
  have b: "trunc_div s 30 = s div 30" if "0 \<le> s" for s
    using that by (cases "s = 0") (auto simp: trunc_div_def)
  show ?thesis
    using assms
    by (simp add: dedupe_id_def HEARTBEAT_BUCKET_SECS_def Let_def b append_sep_inj dec_int_inj)
qed

theorem dedupe_id_exact_witness:
  "dedupe_id ''w1'' ''d1'' 100 = dedupe_id ''w1'' ''d1'' 119 \<and>
   dedupe_id ''w1'' ''d1'' 119 \<noteq> dedupe_id ''w1'' ''d1'' 120"
  using dedupe_id_exact [of "''w1''" "''w1''" "''d1''" "''d1''" 100 119]
    dedupe_id_exact [of "''w1''" "''w1''" "''d1''" "''d1''" 119 120]
  by simp

text \<open>The suffix check accepts any text after the at sign.\<close>

lemma handler_export_any_version: "is_handler_export (HANDLER_EXPORT @ ''@0.2.1-evil'')"
  by (simp add: is_handler_export_def HANDLER_EXPORT_def)

lemma handler_export_other_name: "\<not> is_handler_export (HANDLER_EXPORT @ ''-foo'')"
  by (simp add: is_handler_export_def HANDLER_EXPORT_def)

end
