(* ===== verification/Worker_Download.thy ===== *)
theory Worker_Download
  imports Worker_Util Edge_Bytes
begin

text \<open>
  How the worker obtains the code it runs: the keyring and the artifact signatures
  (\<open>edge-worker/src/verifier.rs\<close>) and the download with its retries, its size cap and its cache
  (\<open>edge-worker/src/downloader.rs\<close>).

  SHA-256, Ed25519 and Base64 are the record \<open>crypto\<close>. The cache directory is a pair of maps from
  deployment ids to the contents of the \<open>.wasm\<close> and \<open>.cwasm\<close> files. Whether reading, removing and
  writing a file succeeds is given by \<open>file_env\<close>; what each HTTP attempt meets by \<open>attempt\<close>.
\<close>

section \<open>Hexadecimal\<close>

definition is_lower_hex :: "u8 \<Rightarrow> bool" where
  "is_lower_hex b \<longleftrightarrow> 48 \<le> b \<and> b \<le> 57 \<or> 97 \<le> b \<and> b \<le> 102"

definition hex_nibble :: "u8 \<Rightarrow> u8 option" where
  "hex_nibble b =
     (if 48 \<le> b \<and> b \<le> 57 then Some (b - 48)
      else if 97 \<le> b \<and> b \<le> 102 then Some (b - 97 + 10)
      else None)"

fun decode_hex :: "bytes \<Rightarrow> bytes option" where
  "decode_hex (h # l # bs) =
     (case (hex_nibble h, hex_nibble l) of
        (Some hi, Some lo) \<Rightarrow>
          (case decode_hex bs of Some out \<Rightarrow> Some (or (push_bit 4 hi) lo # out) | None \<Rightarrow> None)
      | _ \<Rightarrow> None)"
| "decode_hex _ = Some []"

text \<open>The digits of one byte, and of a byte string (\<open>{b:02x}\<close>).\<close>

definition hex_char :: "u8 \<Rightarrow> char" where
  "hex_char n = (if n < 10 then char_of (48 + unat n) else char_of (87 + unat n))"

definition hex_encode :: "bytes \<Rightarrow> string" where
  "hex_encode bs = concat (map (\<lambda>b. [hex_char (drop_bit 4 b), hex_char (and b 15)]) bs)"

section \<open>Keyring\<close>

record ('key, 'sig) crypto =
  cr_sha256 :: "bytes \<Rightarrow> bytes"
  cr_verifying_key :: "bytes \<Rightarrow> 'key option"
  cr_base64url :: "string \<Rightarrow> bytes option"
  cr_signature :: "bytes \<Rightarrow> 'sig option"
  cr_verify :: "'key \<Rightarrow> bytes \<Rightarrow> 'sig \<Rightarrow> bool"

type_synonym 'key keyring = "(string, 'key) hashmap"

datatype keyring_error =
  NoEquals nat string
| EmptyKid nat
| DuplicateKid nat string
| BadPubkey nat
| EmptyKeyring

definition DEFAULT_KID :: string where
  "DEFAULT_KID = ''default''"

definition parse_pubkey_hex :: "('key, 'sig) crypto \<Rightarrow> string \<Rightarrow> 'key option" where
  "parse_pubkey_hex c s =
     (if length s \<noteq> 64 then None
      else if \<not> list_all is_lower_hex (as_bytes s) then None
      else Option.bind (decode_hex (as_bytes s)) (cr_verifying_key c))"

fun keyring_lines ::
  "('key, 'sig) crypto \<Rightarrow> nat \<Rightarrow> string list \<Rightarrow> 'key keyring \<Rightarrow> keyring_error + 'key keyring" where
  "keyring_lines c lineno [] keys = Inr keys"
| "keyring_lines c lineno (line # lines) keys =
     (let trimmed = trim line
      in if trimmed = [] \<or> hd trimmed = CHR ''#'' then keyring_lines c (lineno + 1) lines keys
         else case split_once (CHR ''='') trimmed of
           None \<Rightarrow> Inl (NoEquals (lineno + 1) trimmed)
         | Some (kid_part, pk_part) \<Rightarrow>
             let kid = trim kid_part; pk_hex = trim pk_part
             in if kid = [] then Inl (EmptyKid (lineno + 1))
                else if hm_contains keys kid then Inl (DuplicateKid (lineno + 1) kid)
                else (case parse_pubkey_hex c pk_hex of
                        None \<Rightarrow> Inl (BadPubkey (lineno + 1))
                      | Some pub_key \<Rightarrow> keyring_lines c (lineno + 1) lines (hm_insert kid pub_key keys)))"

definition from_inline :: "('key, 'sig) crypto \<Rightarrow> string \<Rightarrow> keyring_error + 'key keyring" where
  "from_inline c raw =
     (case keyring_lines c 0 (map strip_cr (split_lines raw)) [] of
        Inl e \<Rightarrow> Inl e
      | Inr keys \<Rightarrow> if keys = [] then Inl EmptyKeyring else Inr keys)"

definition keyring_single :: "'key \<Rightarrow> 'key keyring" where
  "keyring_single pub_key = hm_insert DEFAULT_KID pub_key []"

datatype sig_error =
  InvalidBase64
| WrongLength nat
| InvalidHex string
| EmptyDeploymentID
| InvalidEd25519
| UnknownKey string

definition parse_hash_hex :: "string \<Rightarrow> sig_error + bytes" where
  "parse_hash_hex s =
     (if s = [] then Inl (InvalidHex ''empty'')
      else if length s \<noteq> 64 then Inl (InvalidHex ''length'')
      else if \<not> list_all is_lower_hex (as_bytes s) then Inl (InvalidHex ''chars'')
      else (case decode_hex (as_bytes s) of Some h \<Rightarrow> Inr h | None \<Rightarrow> Inl (InvalidHex ''decode'')))"

definition resolve_kid :: "string option \<Rightarrow> string" where
  "resolve_kid kid = (case kid of None \<Rightarrow> DEFAULT_KID | Some k \<Rightarrow> if k = [] then DEFAULT_KID else k)"

definition keyring_verify ::
  "('key, 'sig) crypto \<Rightarrow> 'key keyring \<Rightarrow> string \<Rightarrow> string \<Rightarrow> string \<Rightarrow> string option \<Rightarrow> sig_error + bool" where
  "keyring_verify c keys hash_hex deployment_id signature_b64 kid =
     (if deployment_id = [] then Inl EmptyDeploymentID
      else let resolved_kid = resolve_kid kid
      in case hm_get keys resolved_kid of
        None \<Rightarrow> Inl (UnknownKey resolved_kid)
      | Some pub_key \<Rightarrow>
      (case parse_hash_hex hash_hex of
         Inl e \<Rightarrow> Inl e
       | Inr hash_bytes \<Rightarrow>
      (case cr_base64url c signature_b64 of
         None \<Rightarrow> Inl InvalidBase64
       | Some sig_bytes \<Rightarrow>
           if length sig_bytes \<noteq> 64 then Inl (WrongLength (length sig_bytes))
           else let msg = hash_bytes @ as_bytes deployment_id
           in case cr_signature c sig_bytes of
                None \<Rightarrow> Inl InvalidEd25519
              | Some sig \<Rightarrow> Inr (cr_verify c pub_key msg sig))))"

section \<open>Verification of an artifact\<close>

datatype download_error =
  HashEmpty | HashLength nat | HashChars | HashDecode | HashMismatch string
| NoSignature | SignatureEmpty | SignatureFalse | SignatureMalformed sig_error
| BadStatus nat | TransportError | OverCap | StreamError | CacheIo

definition verify_hash :: "('key, 'sig) crypto \<Rightarrow> bytes \<Rightarrow> string \<Rightarrow> download_error option" where
  "verify_hash c data expected_hex =
     (if expected_hex = [] then Some HashEmpty
      else if length expected_hex \<noteq> 64 then Some (HashLength (length expected_hex))
      else if \<not> list_all is_lower_hex (as_bytes expected_hex) then Some HashChars
      else (case decode_hex (as_bytes expected_hex) of
              None \<Rightarrow> Some HashDecode
            | Some expected_bytes \<Rightarrow>
                if cr_sha256 c data \<noteq> expected_bytes then Some (HashMismatch (hex_encode (cr_sha256 c data)))
                else None))"

definition verify_signature ::
  "('key, 'sig) crypto \<Rightarrow> string \<Rightarrow> string option \<Rightarrow> string option \<Rightarrow> string \<Rightarrow> 'key keyring option \<Rightarrow>
   download_error option" where
  "verify_signature c expected_hash expected_signature kid deployment_id keyring =
     (case keyring of
        None \<Rightarrow> None
      | Some keys \<Rightarrow>
          (case expected_signature of
             None \<Rightarrow> Some NoSignature
           | Some sig \<Rightarrow>
               if sig = [] then Some SignatureEmpty
               else (case keyring_verify c keys expected_hash deployment_id sig kid of
                       Inr True \<Rightarrow> None
                     | Inr False \<Rightarrow> Some SignatureFalse
                     | Inl e \<Rightarrow> Some (SignatureMalformed e))))"

section \<open>Download\<close>

definition MAX_ARTIFACT_DOWNLOAD_BYTES :: nat where "MAX_ARTIFACT_DOWNLOAD_BYTES = 100 * 1024 * 1024"
definition MAX_DOWNLOAD_ATTEMPTS :: nat where "MAX_DOWNLOAD_ATTEMPTS = 3"
definition RETRY_BASE_MS :: u64 where "RETRY_BASE_MS = 200"
definition RETRY_CAP_MS :: u64 where "RETRY_CAP_MS = 3200"

text \<open>What one request meets: a transport error (\<open>True\<close> for a builder error), or a response with its
  status, its Content-Length and its body, a list of chunks in which \<open>None\<close> is a broken stream.\<close>

datatype attempt = Transport bool | Reply nat "nat option" "bytes option list"

definition is_retryable_response_status :: "nat \<Rightarrow> bool" where
  "is_retryable_response_status s \<longleftrightarrow> 500 \<le> s \<and> s \<le> 599 \<or> s = 408"

definition is_retryable_error :: "bool \<Rightarrow> bool" where
  "is_retryable_error is_builder \<longleftrightarrow> \<not> is_builder"

fun read_stream :: "nat \<Rightarrow> bytes \<Rightarrow> bytes option list \<Rightarrow> download_error + bytes" where
  "read_stream cap buf [] = Inr buf"
| "read_stream cap buf (None # chunks) = Inl StreamError"
| "read_stream cap buf (Some chunk # chunks) =
     (if length buf + length chunk > cap then Inl OverCap
      else read_stream cap (buf @ chunk) chunks)"

definition read_body :: "nat \<Rightarrow> nat option \<Rightarrow> bytes option list \<Rightarrow> download_error + bytes" where
  "read_body cap content_length chunks =
     (case content_length of
        Some cl \<Rightarrow> if cl > cap then Inl OverCap else read_stream cap [] chunks
      | None \<Rightarrow> read_stream cap [] chunks)"

text \<open>The loop over the attempts; \<open>left\<close> counts those that remain. The result lists the pauses that
  were slept, for the random numbers \<open>rnd\<close>.\<close>

fun fetch_loop :: "nat \<Rightarrow> (nat \<Rightarrow> u64) \<Rightarrow> (nat \<Rightarrow> attempt) \<Rightarrow> nat \<Rightarrow> (download_error + bytes) \<times> u64 list" where
  "fetch_loop cap rnd net 0 = (Inl TransportError, [])"
| "fetch_loop cap rnd net (Suc left) =
     (let attempt = MAX_DOWNLOAD_ATTEMPTS - left;
          pause = compute_backoff_ms (rnd attempt) (of_nat attempt) RETRY_BASE_MS RETRY_CAP_MS;
          again = (case fetch_loop cap rnd net left of (r, ps) \<Rightarrow> (r, pause # ps))
      in case net attempt of
           Transport is_builder \<Rightarrow>
             if attempt < MAX_DOWNLOAD_ATTEMPTS \<and> is_retryable_error is_builder then again
             else (Inl TransportError, [])
         | Reply status content_length chunks \<Rightarrow>
             if 400 \<le> status \<and> status \<le> 599 then
               (if attempt < MAX_DOWNLOAD_ATTEMPTS \<and> is_retryable_response_status status then again
                else (Inl (BadStatus status), []))
             else (read_body cap content_length chunks, []))"

definition fetch_body_with_retry ::
  "nat \<Rightarrow> (nat \<Rightarrow> u64) \<Rightarrow> (nat \<Rightarrow> attempt) \<Rightarrow> (download_error + bytes) \<times> u64 list" where
  "fetch_body_with_retry cap rnd net = fetch_loop cap rnd net MAX_DOWNLOAD_ATTEMPTS"

record cache_files =
  cf_wasm :: "(string, bytes) hashmap"
  cf_cwasm :: "(string, bytes) hashmap"

datatype write_outcome = WriteOk | DirFailed | WritePartial nat

record file_env =
  fe_read_ok :: bool
  fe_remove_ok :: bool
  fe_write :: write_outcome

definition remove_cached :: "file_env \<Rightarrow> string \<Rightarrow> cache_files \<Rightarrow> cache_files" where
  "remove_cached fe deployment_id fs =
     (if fe_remove_ok fe
      then fs\<lparr>cf_wasm := hm_remove deployment_id (cf_wasm fs), cf_cwasm := hm_remove deployment_id (cf_cwasm fs)\<rparr>
      else fs)"

record ('key, 'sig) downloader =
  dl_crypto :: "('key, 'sig) crypto"
  dl_signature_verifier :: "'key keyring option"
  dl_max_download_bytes :: nat

text \<open>The part of \<open>get_artifact\<close> after the cache: download, verify, write.\<close>

definition download_artifact ::
  "('key, 'sig) downloader \<Rightarrow> file_env \<Rightarrow> (nat \<Rightarrow> u64) \<Rightarrow> (nat \<Rightarrow> attempt) \<Rightarrow> string \<Rightarrow> string \<Rightarrow> string option \<Rightarrow>
   string option \<Rightarrow> cache_files \<Rightarrow> (download_error + bytes) \<times> cache_files" where
  "download_artifact d fe rnd net deployment_id expected_hash expected_signature kid fs =
     (if dl_signature_verifier d \<noteq> None \<and> expected_signature = None then (Inl NoSignature, fs)
      else case fst (fetch_body_with_retry (dl_max_download_bytes d) rnd net) of
        Inl e \<Rightarrow> (Inl e, fs)
      | Inr data \<Rightarrow>
      (case verify_hash (dl_crypto d) data expected_hash of
         Some e \<Rightarrow> (Inl e, fs)
       | None \<Rightarrow>
      (case verify_signature (dl_crypto d) expected_hash expected_signature kid deployment_id
              (dl_signature_verifier d) of
         Some e \<Rightarrow> (Inl e, fs)
       | None \<Rightarrow>
           (case fe_write fe of
              WriteOk \<Rightarrow> (Inr data, fs\<lparr>cf_wasm := hm_insert deployment_id data (cf_wasm fs)\<rparr>)
            | DirFailed \<Rightarrow> (Inl CacheIo, fs)
            | WritePartial n \<Rightarrow>
                (Inl CacheIo, fs\<lparr>cf_wasm := hm_insert deployment_id (take n data) (cf_wasm fs)\<rparr>)))))"

definition get_artifact ::
  "('key, 'sig) downloader \<Rightarrow> file_env \<Rightarrow> (nat \<Rightarrow> u64) \<Rightarrow> (nat \<Rightarrow> attempt) \<Rightarrow> string \<Rightarrow> string \<Rightarrow> string option \<Rightarrow>
   string option \<Rightarrow> cache_files \<Rightarrow> (download_error + bytes) \<times> cache_files" where
  "get_artifact d fe rnd net deployment_id expected_hash expected_signature kid fs =
     (let download = download_artifact d fe rnd net deployment_id expected_hash expected_signature kid
      in case hm_get (cf_wasm fs) deployment_id of
           None \<Rightarrow> download fs
         | Some data \<Rightarrow>
             if \<not> fe_read_ok fe then download (remove_cached fe deployment_id fs)
             else (case verify_hash (dl_crypto d) data expected_hash of
                     Some _ \<Rightarrow> download (remove_cached fe deployment_id fs)
                   | None \<Rightarrow>
                       (case verify_signature (dl_crypto d) expected_hash expected_signature kid deployment_id
                               (dl_signature_verifier d) of
                          None \<Rightarrow> (Inr data, fs)
                        | Some e \<Rightarrow> (Inl e, remove_cached fe deployment_id fs))))"

text \<open>The signal sent to the control plane when an app is given up: the path of the request, or an
  error before anything is sent.\<close>

definition str_contains :: "string \<Rightarrow> string \<Rightarrow> bool" where
  "str_contains s sub \<longleftrightarrow> list_ex (\<lambda>i. take (length sub) (drop i s) = sub) [0..<Suc (length s)]"

definition auto_rollback_url :: "string \<Rightarrow> string \<Rightarrow> string option" where
  "auto_rollback_url control_plane_url app_name =
     (if app_name = [] \<or> CHR ''/'' \<in> set app_name \<or> CHR 0x5C \<in> set app_name \<or> str_contains app_name ''..''
      then None
      else Some (control_plane_url @ ''/api/internal/apps/'' @ app_name @ ''/auto-rollback''))"

section \<open>Hexadecimal, lemmas\<close>

lemma decode_hex_length: "decode_hex bs = Some out \<Longrightarrow> length out = length bs div 2"
  by (induction bs arbitrary: out rule: decode_hex.induct) (auto split: option.splits)

lemma hex_nibble_None [simp]: "hex_nibble b = None \<longleftrightarrow> \<not> is_lower_hex b"
  by (auto simp: hex_nibble_def is_lower_hex_def)

lemma decode_hex_Some: "list_all is_lower_hex bs \<Longrightarrow> \<exists>out. decode_hex bs = Some out"
proof (induction bs rule: decode_hex.induct)
  case (1 h l bs)
  then obtain hi lo where "hex_nibble h = Some hi" "hex_nibble l = Some lo"
    by (metis hex_nibble_None list.pred_inject(2) option.exhaust)
  moreover from this 1 obtain out where "decode_hex bs = Some out" by auto
  ultimately show ?case by simp
qed simp_all

lemma unat_hex_char: "n < 16 \<Longrightarrow> unat (of_char (hex_char n) :: u8) = (if n < 10 then 48 + unat n else 87 + unat n)"
  by (auto simp: hex_char_def word_less_nat_alt of_char_mod_256)

lemma hex_nibble_char: "n < 16 \<Longrightarrow> hex_nibble (of_char (hex_char n)) = Some n"
proof -
  assume n: "n < 16"
  have "hex_nibble b = Some n" if "unat b = (if n < 10 then 48 + unat n else 87 + unat n)" for b
    using n that by (auto simp: hex_nibble_def word_le_nat_alt word_less_nat_alt word_unat_eq_iff unat_sub
        split: if_splits)
  then show ?thesis using unat_hex_char [OF n] by blast
qed


lemma nibbles_join: "or (push_bit 4 (drop_bit 4 b)) (and b 15) = b" for b :: u8
proof (rule bit_eqI)
  fix n
  have "bit (15 :: u8) n \<longleftrightarrow> n < 4"
    using bit_mask_iff [where 'a = u8, of 4 n] by (auto simp: mask_eq_decr_exp)
  then show "bit (or (push_bit 4 (drop_bit 4 b)) (and b 15)) n = bit b n"
    by (cases "n < 4") (auto simp: bit_simps dest: bit_imp_le_length)
qed

lemma nibbles_less: "drop_bit 4 b < 16" "and b 15 < 16" for b :: u8
proof -
  have "unat (drop_bit 4 b) = unat b div 16" by (simp add: drop_bit_eq_div unat_div)
  moreover have "unat b < 256" using unsigned_less [of b] by simp
  ultimately show "drop_bit 4 b < 16" by (simp add: word_less_nat_alt less_mult_imp_div_less)
  have "and b 15 = b mod 16" using take_bit_eq_mask [of 4 b] by (simp add: mask_eq_decr_exp take_bit_eq_mod)
  then show "and b 15 < 16" by (simp add: word_less_nat_alt unat_mod)
qed

lemma decode_hex_encode: "decode_hex (as_bytes (hex_encode bs)) = Some bs"
  by (induction bs) (simp_all add: hex_encode_def hex_nibble_char nibbles_less nibbles_join)

lemma hex_encode_lower: "list_all is_lower_hex (as_bytes (hex_encode bs))"
proof (induction bs)
  case (Cons b bs)
  have "is_lower_hex (of_char (hex_char n))" if "n < 16" for n
    using hex_nibble_char [OF that] hex_nibble_None by (metis option.distinct(1))
  with Cons nibbles_less [of b] show ?case by (simp add: hex_encode_def)
qed (simp add: hex_encode_def)

lemma hex_encode_length [simp]: "length (hex_encode bs) = 2 * length bs"
  by (induction bs) (simp_all add: hex_encode_def)

section \<open>Verification, lemmas\<close>

lemma verify_hash_None:
  "verify_hash c data h = None \<longleftrightarrow>
     length h = 64 \<and> list_all is_lower_hex (as_bytes h) \<and> decode_hex (as_bytes h) = Some (cr_sha256 c data)"
  by (auto simp: verify_hash_def split: option.splits)

lemma verify_signature_None:
  "verify_signature c h sig kid did (Some keys) = None \<longleftrightarrow>
     (\<exists>s. sig = Some s \<and> s \<noteq> [] \<and> keyring_verify c keys h did s kid = Inr True)"
  by (auto simp: verify_signature_def split: option.splits sum.splits bool.splits)

lemma keyring_verify_True:
  "keyring_verify c keys h did s kid = Inr True \<Longrightarrow>
     \<exists>k hash sb sig. did \<noteq> [] \<and> hm_get keys (resolve_kid kid) = Some k \<and> decode_hex (as_bytes h) = Some hash \<and>
       length hash = 32 \<and> cr_base64url c s = Some sb \<and> length sb = 64 \<and> cr_signature c sb = Some sig \<and>
       cr_verify c k (hash @ as_bytes did) sig"
  by (auto simp: keyring_verify_def parse_hash_hex_def Let_def decode_hex_length
      split: option.splits sum.splits if_splits)

definition accepted ::
  "('key, 'sig) downloader \<Rightarrow> string \<Rightarrow> string \<Rightarrow> string option \<Rightarrow> string option \<Rightarrow> bytes \<Rightarrow> bool" where
  "accepted d did h sig kid data \<longleftrightarrow>
     verify_hash (dl_crypto d) data h = None \<and>
     verify_signature (dl_crypto d) h sig kid did (dl_signature_verifier d) = None"

lemma download_artifact_accepted:
  "download_artifact d fe rnd net did h sig kid fs = (Inr data, fs') \<Longrightarrow> accepted d did h sig kid data"
  by (auto simp: download_artifact_def accepted_def split: if_splits sum.splits option.splits write_outcome.splits)

lemma get_artifact_accepted:
  "get_artifact d fe rnd net did h sig kid fs = (Inr data, fs') \<Longrightarrow> accepted d did h sig kid data"
  by (auto simp: get_artifact_def Let_def dest: download_artifact_accepted
      split: if_splits option.splits) (auto simp: accepted_def)

section \<open>Properties\<close>

definition unforgeable :: "('key, 'sig) crypto \<Rightarrow> ('key \<Rightarrow> (bytes \<times> string) set) \<Rightarrow> bool" where
  "unforgeable c signed_by \<longleftrightarrow>
     (\<forall>k m s. cr_verify c k m s \<longrightarrow> (\<exists>(h, i) \<in> signed_by k. length h = 32 \<and> m = h @ as_bytes i))"

lemma accepted_signed:
  assumes "unforgeable (dl_crypto d) signed_by" and "dl_signature_verifier d = Some keys"
    and acc: "accepted d did h sig kid data"
  shows "\<exists>k. hm_get keys (resolve_kid kid) = Some k \<and> (cr_sha256 (dl_crypto d) data, did) \<in> signed_by k"
proof -
  obtain s where "keyring_verify (dl_crypto d) keys h did s kid = Inr True"
    using acc assms(2) by (auto simp: accepted_def verify_signature_None)
  from keyring_verify_True [OF this] obtain k hash sg where k: "hm_get keys (resolve_kid kid) = Some k"
    "decode_hex (as_bytes h) = Some hash" "length hash = 32" "cr_verify (dl_crypto d) k (hash @ as_bytes did) sg"
    by auto
  with assms(1) have "\<exists>(h', i) \<in> signed_by k. length h' = 32 \<and> hash @ as_bytes did = h' @ as_bytes i"
    unfolding unforgeable_def by blast
  then obtain h' i where "(h', i) \<in> signed_by k" "length h' = 32" "hash @ as_bytes did = h' @ as_bytes i"
    by blast
  with k acc show ?thesis by (auto simp: accepted_def verify_hash_None)
qed

text \<open>Only signed code is handed out. Let \<open>signed_by k\<close> be the pairs of hash and deployment the
  holder of key \<open>k\<close> has signed, and suppose that no other signature verifies. For a worker with a
  keyring, whatever the cache directory holds, whatever the control plane answers, whichever file
  operations fail and whatever the task message claims: an artifact that \<open>get_artifact\<close> returns has
  been signed, under the key the message names (or the default key), for exactly this deployment. A
  signature cannot be moved to another deployment or another artifact.\<close>

theorem artifact_authentic:
  assumes "unforgeable (dl_crypto d) signed_by" and "dl_signature_verifier d = Some keys"
    and "get_artifact d fe rnd net did h sig kid fs = (Inr data, fs')"
  shows "\<exists>k. hm_get keys (resolve_kid kid) = Some k \<and> (cr_sha256 (dl_crypto d) data, did) \<in> signed_by k"
  by (rule accepted_signed [OF assms(1,2) get_artifact_accepted [OF assms(3)]])

definition transient :: "attempt \<Rightarrow> bool" where
  "transient a = (case a of Transport is_builder \<Rightarrow> \<not> is_builder | Reply s _ _ \<Rightarrow> s = 408 \<or> 500 \<le> s \<and> s \<le> 599)"

definition attempt_result :: "nat \<Rightarrow> attempt \<Rightarrow> download_error + bytes" where
  "attempt_result cap a =
     (case a of
        Transport _ \<Rightarrow> Inl TransportError
      | Reply s cl chunks \<Rightarrow> if 400 \<le> s \<and> s \<le> 599 then Inl (BadStatus s) else read_body cap cl chunks)"

lemmas fetch_simps = MAX_DOWNLOAD_ATTEMPTS_def transient_def attempt_result_def
  is_retryable_error_def is_retryable_response_status_def

lemma fetch_unroll:
  "fetch_body_with_retry cap rnd net =
     (let pause = (\<lambda>j. compute_backoff_ms (rnd j) (of_nat j) RETRY_BASE_MS RETRY_CAP_MS)
      in if \<not> transient (net 1) then (attempt_result cap (net 1), [])
         else if \<not> transient (net 2) then (attempt_result cap (net 2), [pause 1])
         else (attempt_result cap (net 3), [pause 1, pause 2]))"
proof -
  let ?f = "fetch_loop cap rnd net"
  have f1: "?f (Suc 0) = (attempt_result cap (net 3), [])"
    by (auto simp: fetch_simps Let_def split: attempt.splits)
  have f2: "?f (Suc (Suc 0)) =
      (if transient (net 2) then (case ?f (Suc 0) of (r, ps) \<Rightarrow>
         (r, compute_backoff_ms (rnd 2) (of_nat 2) RETRY_BASE_MS RETRY_CAP_MS # ps))
       else (attempt_result cap (net 2), []))"
    by (subst fetch_loop.simps(2), simp only: f1) (auto simp: fetch_simps Let_def split: attempt.splits)
  have "?f (Suc (Suc (Suc 0))) =
      (if transient (net 1) then (case ?f (Suc (Suc 0)) of (r, ps) \<Rightarrow>
         (r, compute_backoff_ms (rnd 1) (of_nat 1) RETRY_BASE_MS RETRY_CAP_MS # ps))
       else (attempt_result cap (net 1), []))"
    by (subst fetch_loop.simps(2), simp only: f2 f1) (auto simp: fetch_simps Let_def split: attempt.splits)
  moreover have "fetch_body_with_retry cap rnd net = ?f (Suc (Suc (Suc 0)))"
    by (simp add: fetch_body_with_retry_def MAX_DOWNLOAD_ATTEMPTS_def numeral_3_eq_3)
  ultimately show ?thesis by (simp only: f2 f1) (simp add: Let_def)
qed

lemma retry_pauses:
  "150 \<le> unat (compute_backoff_ms r 1 RETRY_BASE_MS RETRY_CAP_MS) \<and> unat (compute_backoff_ms r 1 RETRY_BASE_MS RETRY_CAP_MS) \<le> 250"
  "300 \<le> unat (compute_backoff_ms r 2 RETRY_BASE_MS RETRY_CAP_MS) \<and> unat (compute_backoff_ms r 2 RETRY_BASE_MS RETRY_CAP_MS) \<le> 500"
  using compute_backoff_band [of RETRY_CAP_MS RETRY_BASE_MS 1 r] compute_backoff_band [of RETRY_CAP_MS RETRY_BASE_MS 2 r]
  by (simp_all add: RETRY_CAP_MS_def RETRY_BASE_MS_def)

text \<open>Claim C21 (the retries of a download). The download makes one, two or three requests. It goes on
  after a request exactly when that request met a transient failure (a transport error that is not a
  builder error, status 408 or 5xx) and fewer than three were made; the result is that of the last
  request. The pauses between the requests are 150 to 250 and 300 to 500 milliseconds.\<close>

theorem fetch_exact:
  "\<exists>k \<in> {1..3}. (\<forall>j \<in> {1..<k}. transient (net j)) \<and> (k = 3 \<or> \<not> transient (net k)) \<and>
     fst (fetch_body_with_retry cap rnd net) = attempt_result cap (net k) \<and>
     list_all2 (\<lambda>(lo, hi) p. lo \<le> unat p \<and> unat p \<le> hi)
       (take (k - 1) [(150, 250), (300, 500)]) (snd (fetch_body_with_retry cap rnd net))"
proof (cases "transient (net 1)"; cases "transient (net 2)")
  assume t: "transient (net 1)" "transient (net 2)"
  moreover have "j = 1 \<or> j = 2" if "j \<in> {1..<3}" for j :: nat using that by auto
  ultimately have "\<forall>j \<in> {1..<3}. transient (net j)" by blast
  with t retry_pauses show ?thesis by (intro bexI [of _ 3]) (auto simp: fetch_unroll)
next
  assume "transient (net 1)" "\<not> transient (net 2)"
  with retry_pauses(1) show ?thesis by (intro bexI [of _ 2]) (auto simp: fetch_unroll numeral_2_eq_2)
qed (intro bexI [of _ 1], auto simp: fetch_unroll)+

text \<open>Claim C37 (a poisoned cache heals). Whatever the cached file of a deployment holds, if the control
  plane serves a body that passes the checks and can be written, \<open>get_artifact\<close> returns an artifact
  with the expected hash, and the cached file holds that artifact afterwards: a truncated, tampered or
  unreadable file costs a download and never an error.\<close>

theorem artifact_available:
  assumes "accepted d did h sig kid body" and "fst (fetch_body_with_retry (dl_max_download_bytes d) rnd net) = Inr body"
    and "fe_write fe = WriteOk"
  shows "\<exists>data fs'. get_artifact d fe rnd net did h sig kid fs = (Inr data, fs') \<and>
    cr_sha256 (dl_crypto d) data = cr_sha256 (dl_crypto d) body \<and> hm_get (cf_wasm fs') did = Some data"
proof -
  have sig: "\<not> (dl_signature_verifier d \<noteq> None \<and> sig = None)"
    using assms(1) by (auto simp: accepted_def verify_signature_def split: option.splits)
  have dl: "download_artifact d fe rnd net did h sig kid fs' =
      (Inr body, fs'\<lparr>cf_wasm := hm_insert did body (cf_wasm fs')\<rparr>)" for fs'
    unfolding download_artifact_def if_not_P [OF sig] using assms by (simp add: accepted_def)
  show ?thesis
  proof (cases "\<exists>data. hm_get (cf_wasm fs) did = Some data \<and> fe_read_ok fe \<and> verify_hash (dl_crypto d) data h = None")
    case True
    then obtain data where "hm_get (cf_wasm fs) did = Some data" "fe_read_ok fe" "verify_hash (dl_crypto d) data h = None"
      by blast
    moreover from this have "cr_sha256 (dl_crypto d) data = cr_sha256 (dl_crypto d) body"
      using assms(1) by (simp add: accepted_def verify_hash_None)
    ultimately show ?thesis using assms(1) by (simp add: get_artifact_def accepted_def)
  next
    case False
    then have "get_artifact d fe rnd net did h sig kid fs \<in>
        {download_artifact d fe rnd net did h sig kid fs,
         download_artifact d fe rnd net did h sig kid (remove_cached fe did fs)}"
      by (auto simp: get_artifact_def Let_def split: option.splits)
    then show ?thesis by (auto simp: dl hm_simps)
  qed
qed

definition plain_kid :: "string \<Rightarrow> bool" where
  "plain_kid kid \<longleftrightarrow> kid \<noteq> [] \<and> list_all (\<lambda>c. \<not> may_ws c \<and> c \<noteq> CHR ''#'' \<and> c \<noteq> CHR ''='') kid"

definition keyring_line :: "string \<times> bytes \<Rightarrow> string" where
  "keyring_line = (\<lambda>(kid, raw). kid @ '' = '' @ hex_encode raw)"

definition keyring_text :: "(string \<times> bytes) list \<Rightarrow> string" where
  "keyring_text entries = concat (map (\<lambda>e. keyring_line e @ [CHR 0x0A]) entries)"

lemma hex_chars_plain: "c \<in> set (hex_encode bs) \<Longrightarrow> \<not> may_ws c \<and> c \<noteq> CHR ''=''"
proof -
  assume "c \<in> set (hex_encode bs)"
  then have "(of_char c :: u8) \<in> set (as_bytes (hex_encode bs))" by (simp add: as_bytes_def)
  then have "is_lower_hex (of_char c)" using hex_encode_lower [of bs] by (auto simp: list_all_iff)
  then have "48 \<le> (of_char c :: nat) \<and> of_char c \<le> (57 :: nat) \<or> 97 \<le> (of_char c :: nat) \<and> of_char c \<le> (102 :: nat)"
    by (simp add: is_lower_hex_def word_le_nat_alt)
  then show ?thesis by (auto simp: may_ws_def)
qed

lemma hd_last_hex: "raw \<noteq> [] \<Longrightarrow> \<not> may_ws (hd (hex_encode raw)) \<and> \<not> may_ws (last (hex_encode raw))"
proof -
  assume "raw \<noteq> []"
  then have "hex_encode raw \<noteq> []" using hex_encode_length [of raw] by (metis length_0_conv mult_eq_0_iff zero_neq_numeral)
  then show ?thesis using hex_chars_plain by (meson hd_in_set last_in_set)
qed

lemma keyring_line_parts:
  assumes "plain_kid kid" and "length raw = 32"
  shows "trim (keyring_line (kid, raw)) = keyring_line (kid, raw)"
    and "split_once (CHR ''='') (keyring_line (kid, raw)) = Some (kid @ '' '', '' '' @ hex_encode raw)"
    and "trim (kid @ '' '') = kid" and "trim ('' '' @ hex_encode raw) = hex_encode raw"
    and "hd (keyring_line (kid, raw)) \<noteq> CHR ''#''" and "keyring_line (kid, raw) \<noteq> []"
    and "CHR 0x0A \<notin> set (keyring_line (kid, raw))" and "strip_cr (keyring_line (kid, raw)) = keyring_line (kid, raw)"
proof -
  have raw: "raw \<noteq> []" using assms(2) by auto
  have k: "kid \<noteq> []" "\<not> may_ws (hd kid)" "\<not> may_ws (last kid)" "hd kid \<noteq> CHR ''#''" "CHR ''='' \<notin> set kid"
    "\<forall>c \<in> set kid. \<not> may_ws c"
    using assms(1) by (auto simp: plain_kid_def list_all_iff)
  have h: "hex_encode raw \<noteq> []" using raw hex_encode_length [of raw] by (metis length_0_conv mult_eq_0_iff zero_neq_numeral)
  show "trim (keyring_line (kid, raw)) = keyring_line (kid, raw)"
    using k h hd_last_hex [OF raw] by (intro trim_id) (simp add: keyring_line_def)
  show "split_once (CHR ''='') (keyring_line (kid, raw)) = Some (kid @ '' '', '' '' @ hex_encode raw)"
    using split_once_append [of "CHR ''=''" "kid @ '' ''" "'' '' @ hex_encode raw"] k(5) by (simp add: keyring_line_def)
  show "trim (kid @ '' '') = kid" using k by (simp add: trim_pad(1) [simplified])
  show "trim ('' '' @ hex_encode raw) = hex_encode raw" using trim_pad(2) [OF h] hd_last_hex [OF raw] by simp
  show "hd (keyring_line (kid, raw)) \<noteq> CHR ''#''" "keyring_line (kid, raw) \<noteq> []"
    using k by (simp_all add: keyring_line_def)
  show "strip_cr (keyring_line (kid, raw)) = keyring_line (kid, raw)"
    using h hd_last_hex [OF raw] by (intro strip_cr_id) (auto simp: keyring_line_def may_ws_def)
  have "may_ws (CHR 0x0A)" by (simp add: may_ws_def)
  then show "CHR 0x0A \<notin> set (keyring_line (kid, raw))"
    using k(6) hex_chars_plain [of "CHR 0x0A" raw] by (auto simp: keyring_line_def)
qed

lemma keyring_lines_text:
  assumes "\<forall>(kid, raw) \<in> set entries. plain_kid kid \<and> length raw = 32 \<and> cr_verifying_key c raw = Some (key_of raw)"
    and "distinct (map fst entries)" and "\<forall>kid \<in> fst ` set entries. \<not> hm_contains keys kid"
  shows "keyring_lines c n (map strip_cr (split_lines (keyring_text entries))) keys =
    Inr (fold (\<lambda>(k, v). hm_insert k v) (map (apsnd key_of) entries) keys)"
  using assms
proof (induction entries arbitrary: n keys)
  case (Cons e entries)
  obtain kid raw where e: "e = (kid, raw)" by fastforce
  with Cons.prems(1) have kid: "plain_kid kid" and raw: "length raw = 32" and key: "cr_verifying_key c raw = Some (key_of raw)"
    by auto
  have pk: "parse_pubkey_hex c (hex_encode raw) = Some (key_of raw)"
    using raw key hex_encode_lower [of raw] decode_hex_encode [of raw] by (simp add: parse_pubkey_hex_def)
  have "kid \<noteq> []" using kid by (simp add: plain_kid_def)
  moreover have "\<not> hm_contains keys kid" using Cons.prems(3) e by auto
  moreover have "split_lines (keyring_text (e # entries)) = keyring_line (kid, raw) # split_lines (keyring_text entries)"
    using keyring_line_parts(7) [OF kid raw] by (simp add: keyring_text_def e split_lines_line)
  ultimately have "keyring_lines c n (map strip_cr (split_lines (keyring_text (e # entries)))) keys =
      keyring_lines c (n + 1) (map strip_cr (split_lines (keyring_text entries))) (hm_insert kid (key_of raw) keys)"
    by (simp add: keyring_line_parts [OF kid raw, simplified] pk Let_def)
  also have "\<dots> = Inr (fold (\<lambda>(k, v). hm_insert k v) (map (apsnd key_of) entries) (hm_insert kid (key_of raw) keys))"
    using Cons.prems e by (intro Cons.IH) (auto simp: hm_contains_def)
  finally show ?case by (simp add: e)
qed (simp add: keyring_text_def)

text \<open>Keyring files. A file with one line \<open>kid = hex\<close> per key, for distinct non-empty key ids
  of ASCII characters without white space, hash mark and equals sign and keys that Ed25519 accepts, is read as exactly
  those keys under those ids.\<close>

theorem keyring_roundtrip:
  assumes "entries \<noteq> []" and "distinct (map fst entries)"
    and "\<forall>(kid, raw) \<in> set entries. plain_kid kid \<and> length raw = 32 \<and> cr_verifying_key c raw = Some (key_of raw)"
  shows "\<exists>keys. from_inline c (keyring_text entries) = Inr keys \<and>
    (\<forall>kid. hm_get keys kid = map_option key_of (map_of entries kid))"
proof -
  let ?keys = "hm_collect (map (apsnd key_of) entries)"
  have lookup: "hm_get ?keys kid = map_option key_of (map_of entries kid)" for kid
  proof -
    have "distinct (map fst (map (apsnd key_of) entries))" using assms(2) by (simp add: comp_def)
    then have "hm_get ?keys kid = map_of (map (apsnd key_of) entries) kid"
      using hm_get_collect_id [of "map (apsnd key_of) entries" kid] by (simp only: hm_wf_def hm_get_def)
    also have "\<dots> = map_option key_of (map_of entries kid)" by (induction entries) auto
    finally show ?thesis .
  qed
  have "keyring_lines c 0 (map strip_cr (split_lines (keyring_text entries))) [] = Inr ?keys"
    unfolding hm_collect_def by (rule keyring_lines_text [OF assms(3,2)]) (simp add: hm_contains_def)
  moreover have "?keys \<noteq> []"
  proof -
    obtain kid raw where "(kid, raw) \<in> set entries" using assms(1) by (cases entries) auto
    then have "map_of entries kid \<noteq> None" by (metis weak_map_of_SomeI option.distinct(1))
    then show ?thesis using lookup [of kid] by auto
  qed
  ultimately have "from_inline c (keyring_text entries) = Inr ?keys" by (simp add: from_inline_def)
  with lookup show ?thesis by blast
qed

section \<open>Witnesses\<close>

text \<open>A signature scheme in which one pair of hash and deployment has been signed.\<close>

definition one_signed :: "(bytes, bytes) crypto" where
  "one_signed = \<lparr>cr_sha256 = (\<lambda>_. replicate 32 0), cr_verifying_key = Some, cr_base64url = Some \<circ> as_bytes,
     cr_signature = Some, cr_verify = (\<lambda>k m s. m = replicate 32 0 @ as_bytes ''d1'')\<rparr>"

definition one_downloader :: "(bytes, bytes) downloader" where
  "one_downloader = \<lparr>dl_crypto = one_signed, dl_signature_verifier = Some [(''default'', [7])],
     dl_max_download_bytes = 100\<rparr>"

definition good_files :: file_env where
  "good_files = \<lparr>fe_read_ok = True, fe_remove_ok = True, fe_write = WriteOk\<rparr>"

lemma decode_zeros: "decode_hex (replicate (2 * n) 48) = Some (replicate n 0)"
  by (induction n) (simp_all add: hex_nibble_def)

lemma zero_hash: "decode_hex (as_bytes (replicate 64 (CHR ''0''))) = Some (replicate 32 0)"
  "list_all is_lower_hex (as_bytes (replicate 64 (CHR ''0'')))"
  using decode_zeros [of 32] by (simp_all add: as_bytes_def is_lower_hex_def list_all_iff)

lemma one_accepted:
  "accepted one_downloader ''d1'' (replicate 64 (CHR ''0'')) (Some (replicate 64 (CHR ''a''))) None data"
proof -
  have "keyring_verify one_signed [(''default'', [7])] (replicate 64 (CHR ''0'')) ''d1'' (replicate 64 (CHR ''a'')) None = Inr True"
    using zero_hash by (simp add: keyring_verify_def resolve_kid_def DEFAULT_KID_def hm_simps parse_hash_hex_def one_signed_def)
  then show ?thesis using zero_hash
    by (simp add: accepted_def verify_hash_None verify_signature_None one_downloader_def one_signed_def)
qed

theorem artifact_authentic_witness:
  "\<exists>k. hm_get [(''default'', [7 :: u8])] (resolve_kid None) = Some k \<and>
     (cr_sha256 (dl_crypto one_downloader) [1, 2], ''d1'') \<in> {(replicate 32 0, ''d1'')}"
proof -
  let ?signed = "\<lambda>k :: bytes. {(replicate 32 (0 :: u8), ''d1'')}"
  have "unforgeable (dl_crypto one_downloader) ?signed"
    by (simp add: unforgeable_def one_downloader_def one_signed_def)
  moreover have "dl_signature_verifier one_downloader = Some [(''default'', [7])]" by (simp add: one_downloader_def)
  moreover have "get_artifact one_downloader good_files (\<lambda>_. 0) (\<lambda>_. Transport True) ''d1'' (replicate 64 (CHR ''0''))
      (Some (replicate 64 (CHR ''a''))) None \<lparr>cf_wasm = [(''d1'', [1, 2])], cf_cwasm = []\<rparr> =
      (Inr [1, 2], \<lparr>cf_wasm = [(''d1'', [1, 2])], cf_cwasm = []\<rparr>)"
    using one_accepted by (simp add: get_artifact_def accepted_def good_files_def hm_simps)
  ultimately show ?thesis by (rule artifact_authentic [where signed_by = ?signed])
qed

theorem fetch_exact_witness:
  "fst (fetch_body_with_retry 10 (\<lambda>_. 1)
     (\<lambda>j. if j = 1 then Reply 503 None [] else Reply 200 (Some 2) [Some [1], Some [2]])) = Inr [1, 2]"
proof -
  let ?net = "\<lambda>j :: nat. if j = 1 then Reply 503 None [] else Reply 200 (Some 2) [Some [1], Some [2]]"
  from fetch_exact [of ?net 10 "\<lambda>_. 1"] obtain k where
    "k = 3 \<or> \<not> transient (?net k)" "fst (fetch_body_with_retry 10 (\<lambda>_. 1) ?net) = attempt_result 10 (?net k)"
    by blast
  moreover from this(1) have "k \<noteq> 1" by (auto simp: transient_def)
  ultimately show ?thesis by (simp add: attempt_result_def read_body_def)
qed

theorem artifact_available_witness:
  "\<exists>data fs'. get_artifact one_downloader good_files (\<lambda>_. 0) (\<lambda>_. Reply 200 None [Some [1, 2]]) ''d1''
     (replicate 64 (CHR ''0'')) (Some (replicate 64 (CHR ''a''))) None \<lparr>cf_wasm = [], cf_cwasm = []\<rparr> = (Inr data, fs') \<and>
   cr_sha256 (dl_crypto one_downloader) data = cr_sha256 (dl_crypto one_downloader) [1, 2] \<and>
   hm_get (cf_wasm fs') ''d1'' = Some data"
  by (rule artifact_available [OF one_accepted])
    (simp_all add: fetch_unroll attempt_result_def transient_def read_body_def good_files_def one_downloader_def Let_def)

theorem keyring_roundtrip_witness:
  "\<exists>keys. from_inline one_signed (keyring_text [(''k1'', replicate 32 1), (''k2'', replicate 32 2)]) = Inr keys \<and>
     hm_get keys ''k2'' = Some (replicate 32 2)"
proof -
  have "\<forall>(kid, raw) \<in> set [(''k1'', replicate 32 1), (''k2'', replicate 32 2)].
      plain_kid kid \<and> length raw = 32 \<and> cr_verifying_key one_signed raw = Some (id raw)"
    by (auto simp: plain_kid_def may_ws_def one_signed_def)
  from keyring_roundtrip [OF _ _ this] obtain keys where
    "from_inline one_signed (keyring_text [(''k1'', replicate 32 1), (''k2'', replicate 32 2)]) = Inr keys"
    "\<forall>kid. hm_get keys kid = map_option id (map_of [(''k1'', replicate 32 1), (''k2'', replicate 32 2)] kid)"
    by auto
  then show ?thesis by (intro exI [of _ keys]) simp
qed

section \<open>Limits\<close>

text \<open>The compiled form of an artifact is removed with a cached artifact that fails its checks, and
  only then: when the \<open>.wasm\<close> file is missing, a \<open>.cwasm\<close> file of the deployment stays, whatever the
  download brings.\<close>

lemma compiled_file_survives:
  "hm_get (cf_wasm fs) did = None \<Longrightarrow> cf_cwasm (snd (get_artifact d fe rnd net did h sig kid fs)) = cf_cwasm fs"
  by (auto simp: get_artifact_def download_artifact_def Let_def split: sum.splits option.splits write_outcome.splits)

text \<open>A body whose stream breaks is not requested again, although a broken transport is.\<close>

lemma broken_stream_not_retried:
  "net 1 = Reply 200 cl [None] \<Longrightarrow> \<exists>e. fetch_body_with_retry cap rnd net = (Inl e, [])"
  by (auto simp: fetch_unroll transient_def attempt_result_def read_body_def split: option.splits)

text \<open>Without a keyring every signature is ignored, also one that would not verify.\<close>

lemma no_keyring_ignores_signature: "verify_signature c h sig kid did None = None"
  by (simp add: verify_signature_def)

end
