(* ===== verification/Runtime_State.thy ===== *)
theory Runtime_State
  imports Runtime_Egress Runtime_Kv Runtime_Cache Runtime_Scheduling
begin

text \<open>
  The state of a guest invocation and the process-wide state behind it: \<open>edge-runtime/src/runtime.rs\<close>
  (store registries, preview keys, purge of a tenant), \<open>metering.rs\<close> (the counters a heartbeat
  reports), \<open>interfaces/process.rs\<close> (environment and exit code) and \<open>interfaces/mod.rs\<close> (names that
  are safe as a directory).

  A registry holds one shared store per key. Sharing is explicit: the registry maps keys to
  addresses, the heap maps addresses to stores, and \<open>held\<close> tells which addresses a running guest
  still references, which is what \<open>Arc::get_mut\<close> observes.
\<close>

section \<open>Names\<close>

definition is_safe_tenant_id :: "string \<Rightarrow> bool" where
  "is_safe_tenant_id t =
     (t \<noteq> [] \<and> length t \<le> 64 \<and>
      list_all (\<lambda>c. is_ascii_alphanumeric c \<or> c = CHR ''-'' \<or> c = CHR ''_'') t)"

definition is_windows_reserved_name :: "string \<Rightarrow> bool" where
  "is_windows_reserved_name s =
     (to_ascii_uppercase s \<in> set
       ([''CON'', ''PRN'', ''AUX'', ''NUL''] @
        map (\<lambda>d. ''COM'' @ dec d) [1..<10] @ map (\<lambda>d. ''LPT'' @ dec d) [1..<10]))"

definition is_safe_path_component :: "string \<Rightarrow> bool" where
  "is_safe_path_component s =
     (if s = [] \<or> s = ''.'' \<or> s = ''..'' then False
      else if CHR ''/'' \<in> set s \<or> CHR 0x5C \<in> set s \<or> CHR 0x00 \<in> set s \<or> CHR '':'' \<in> set s then False
      else \<not> is_windows_reserved_name s)"

section \<open>Process environment\<close>

definition BLOCKED_ENV_PREFIXES :: "string list" where
  "BLOCKED_ENV_PREFIXES =
     [''AWS_'', ''AZURE_'', ''EDGE_SECRET'', ''EDGE_API_KEY'', ''DATABASE_URL'', ''GCP_'',
      ''NATS_CREDS'', ''NATS_TOKEN'', ''REDIS_PASSWORD'', ''REDIS_URL'', ''JWT_SECRET'', ''JWT_TOKEN'',
      ''AUTH_TOKEN'', ''BEARER_TOKEN'', ''STRIPE_'', ''TWILIO_'', ''SENDGRID_'', ''PASSWORD'', ''SECRET'',
      ''PRIVATE_KEY'', ''API_KEY'', ''ACCESS_TOKEN'', ''SESSION_TOKEN'']"

definition is_blocked_env_key :: "string \<Rightarrow> bool" where
  "is_blocked_env_key key = list_ex (\<lambda>p. starts_with p key) BLOCKED_ENV_PREFIXES"

definition filter_env_vars :: "(string \<times> string) list \<Rightarrow> (string \<times> string) list" where
  "filter_env_vars kvs = filter (\<lambda>(k, _). \<not> is_blocked_env_key k) kvs"

record process =
  pr_env :: "(string, string) hashmap"
  pr_exit_code :: u32

definition process_get_env :: "process \<Rightarrow> string \<Rightarrow> string option" where
  "process_get_env p key = hm_get (pr_env p) key"

definition process_get_all_env :: "process \<Rightarrow> (string \<times> string) list" where
  "process_get_all_env p = pr_env p"

definition process_exit :: "u32 \<Rightarrow> process \<Rightarrow> process" where
  "process_exit code p = p\<lparr>pr_exit_code := code\<rparr>"

definition exit_requested :: "process \<Rightarrow> u32 option" where
  "exit_requested p = (if pr_exit_code p = 0 then None else Some (pr_exit_code p))"

section \<open>Metering\<close>

text \<open>The counters are atomic \<open>u64\<close> cells: additions and subtractions wrap around.\<close>

record meter =
  mt_tenant_id :: string
  mt_deployment_id :: string
  mt_count :: u64
  mt_outbound_bytes :: u64
  mt_resident_seconds :: u64
  mt_duration_ms :: u64
  mt_errors :: u64

record meter_snap =
  ms_tenant_id :: string
  ms_deployment_id :: string
  ms_request_count :: u64
  ms_outbound_bytes :: u64
  ms_resident_seconds :: u64
  ms_duration_ms :: u64
  ms_errors :: u64

definition meter_new :: "string \<Rightarrow> string \<Rightarrow> meter" where
  "meter_new tenant_id deployment_id =
     \<lparr>mt_tenant_id = tenant_id, mt_deployment_id = deployment_id, mt_count = 0, mt_outbound_bytes = 0,
      mt_resident_seconds = 0, mt_duration_ms = 0, mt_errors = 0\<rparr>"

definition record_request :: "meter \<Rightarrow> meter" where
  "record_request m = m\<lparr>mt_count := mt_count m + 1\<rparr>"

definition record_outbound_bytes :: "u64 \<Rightarrow> meter \<Rightarrow> meter" where
  "record_outbound_bytes n m = m\<lparr>mt_outbound_bytes := mt_outbound_bytes m + n\<rparr>"

definition record_resident_seconds :: "u64 \<Rightarrow> meter \<Rightarrow> meter" where
  "record_resident_seconds n m = m\<lparr>mt_resident_seconds := mt_resident_seconds m + n\<rparr>"

definition record_duration :: "duration \<Rightarrow> meter \<Rightarrow> meter" where
  "record_duration d m = m\<lparr>mt_duration_ms := mt_duration_ms m + of_nat (d div 1000000)\<rparr>"

definition record_error :: "meter \<Rightarrow> meter" where
  "record_error m = m\<lparr>mt_errors := mt_errors m + 1\<rparr>"

definition subtract_delta :: "u64 \<Rightarrow> u64 \<Rightarrow> meter \<Rightarrow> meter" where
  "subtract_delta count_delta bytes_delta m =
     m\<lparr>mt_count := mt_count m - count_delta, mt_outbound_bytes := mt_outbound_bytes m - bytes_delta\<rparr>"

definition subtract_resident_seconds :: "u64 \<Rightarrow> meter \<Rightarrow> meter" where
  "subtract_resident_seconds n m = m\<lparr>mt_resident_seconds := mt_resident_seconds m - n\<rparr>"

definition subtract_duration_ms :: "u64 \<Rightarrow> meter \<Rightarrow> meter" where
  "subtract_duration_ms ms_delta m = m\<lparr>mt_duration_ms := mt_duration_ms m - ms_delta\<rparr>"

definition subtract_error_delta :: "u64 \<Rightarrow> meter \<Rightarrow> meter" where
  "subtract_error_delta errors_delta m = m\<lparr>mt_errors := mt_errors m - errors_delta\<rparr>"

definition meter_snapshot :: "meter \<Rightarrow> meter_snap" where
  "meter_snapshot m =
     \<lparr>ms_tenant_id = mt_tenant_id m, ms_deployment_id = mt_deployment_id m,
      ms_request_count = mt_count m, ms_outbound_bytes = mt_outbound_bytes m,
      ms_resident_seconds = mt_resident_seconds m, ms_duration_ms = mt_duration_ms m,
      ms_errors = mt_errors m\<rparr>"

section \<open>Store registries\<close>

record ('s) registry =
  rg_map :: "(string, nat) hashmap"
  rg_heap :: "(nat, 's) hashmap"
  rg_next :: nat

text \<open>\<open>get_or_create_kv_store\<close>, \<open>get_or_create_cache\<close> and \<open>get_or_create_scheduler\<close> have the same body;
  \<open>mk\<close> is the constructor for a tenant.\<close>

definition get_or_create :: "(string \<Rightarrow> 's) \<Rightarrow> string \<Rightarrow> 's registry \<Rightarrow> nat \<times> 's registry" where
  "get_or_create mk key reg =
     (case hm_get (rg_map reg) key of
        Some a \<Rightarrow> (a, reg)
      | None \<Rightarrow>
          (rg_next reg,
           reg\<lparr>rg_map := hm_insert key (rg_next reg) (rg_map reg),
               rg_heap := hm_insert (rg_next reg) (mk key) (rg_heap reg),
               rg_next := rg_next reg + 1\<rparr>))"

text \<open>The three constructors: with a base directory the persistent store, or an ephemeral one when
  loading fails; without it an ephemeral store. \<open>file\<close> is the content of the store's file.\<close>

definition make_kv_store_for_tenant ::
  "('b, 'f) kv_codec \<Rightarrow> nat \<Rightarrow> bool \<Rightarrow> string option \<Rightarrow> 'f option \<Rightarrow> 'f kv_store" where
  "make_kv_store_for_tenant c now readable base file =
     (case base of
        Some _ \<Rightarrow> (case kv_with_persistence c now readable file of Inr s \<Rightarrow> s | Inl _ \<Rightarrow> kv_new file)
      | None \<Rightarrow> kv_new file)"

definition make_cache_for_tenant ::
  "'l lru_ops \<Rightarrow> ('b, 'f) cache_codec \<Rightarrow> nat \<Rightarrow> bool \<Rightarrow> string option \<Rightarrow> 'f option \<Rightarrow>
   ('l, 'f) cache outcome" where
  "make_cache_for_tenant L c now readable base file =
     (case base of
        Some _ \<Rightarrow> (case cache_with_persistence L c now readable 1000 file of
                     Returned (Inr s) \<Rightarrow> Returned s
                   | Returned (Inl _) \<Rightarrow> cache_new L 1000 file
                   | CallPanics \<Rightarrow> CallPanics)
      | None \<Rightarrow> cache_new L 1000 file)"

definition make_scheduler_for_tenant ::
  "('b, 'f) sched_codec \<Rightarrow> time_refs \<Rightarrow> nat \<Rightarrow> bool \<Rightarrow> string option \<Rightarrow> 'f option \<Rightarrow> 'f scheduler" where
  "make_scheduler_for_tenant c boot now readable base file =
     (case base of
        Some _ \<Rightarrow> (case sched_with_persistence c boot now readable file of
                     Inr s \<Rightarrow> s | Inl _ \<Rightarrow> sched_new file)
      | None \<Rightarrow> sched_new file)"

text \<open>Dropping a key: the store is cleared only when nobody else references it. Clearing a persistent
  store flushes it, and may panic.\<close>

definition registry_purge ::
  "('s \<Rightarrow> unit outcome \<times> 's) \<Rightarrow> (nat \<Rightarrow> bool) \<Rightarrow> string \<Rightarrow> 's registry \<Rightarrow> unit outcome \<times> 's registry" where
  "registry_purge clear held key reg =
     (case hm_get (rg_map reg) key of
        None \<Rightarrow> (Returned (), reg)
      | Some a \<Rightarrow>
          let reg' = reg\<lparr>rg_map := hm_remove key (rg_map reg)\<rparr> in
          if held a then (Returned (), reg')
          else (case hm_get (rg_heap reg') a of
                  Some s \<Rightarrow> (fst (clear s), reg'\<lparr>rg_heap := hm_insert a (snd (clear s)) (rg_heap reg')\<rparr>)
                | None \<Rightarrow> (Returned (), reg')))"

datatype rm_outcome = Removed | NotFound | RmFailed string

definition resolve_tenant_purge_paths :: "(string \<Rightarrow> string option) \<Rightarrow> string \<Rightarrow> string list" where
  "resolve_tenant_purge_paths env_var tenant_id =
     List.map_filter (\<lambda>var. map_option (\<lambda>base. base @ ''/'' @ tenant_id) (env_var var))
       [''EDGE_KV_STORE_PATH'', ''EDGE_CACHE_PATH'', ''EDGE_SCHEDULING_PATH'']"

text \<open>Every configured directory is removed; the first failure is reported at the end.\<close>

fun remove_dirs :: "(string \<Rightarrow> rm_outcome) \<Rightarrow> string list \<Rightarrow> string option" where
  "remove_dirs rm [] = None"
| "remove_dirs rm (p # ps) =
     (case rm p of
        RmFailed e \<Rightarrow> Some e
      | _ \<Rightarrow> remove_dirs rm ps)"

datatype purge_error = UnsafeTenantId string | DirRemoval string

record ('k, 'c, 's) stores =
  rs_kv :: "'k registry"
  rs_cache :: "'c registry"
  rs_sched :: "'s registry"

text \<open>What \<open>purge_tenant\<close> needs: how the stores are cleared, which are still shared, the environment and
  the file system.\<close>

record ('k, 'c, 's) purge_env =
  pe_clear_kv :: "'k \<Rightarrow> unit outcome \<times> 'k"
  pe_clear_cache :: "'c \<Rightarrow> unit outcome \<times> 'c"
  pe_abort :: "'s \<Rightarrow> 's"
  pe_held_kv :: "nat \<Rightarrow> bool"
  pe_held_cache :: "nat \<Rightarrow> bool"
  pe_held_sched :: "nat \<Rightarrow> bool"
  pe_env_var :: "string \<Rightarrow> string option"
  pe_rm :: "string \<Rightarrow> rm_outcome"

text \<open>The second component is the list of the directories whose removal was tried.\<close>

definition purge_tenant ::
  "('k, 'c, 's) purge_env \<Rightarrow> string \<Rightarrow> ('k, 'c, 's) stores \<Rightarrow>
   (purge_error + unit) outcome \<times> string list \<times> ('k, 'c, 's) stores" where
  "purge_tenant pe tenant_id st =
     (if \<not> is_safe_tenant_id tenant_id then (Returned (Inl (UnsafeTenantId tenant_id)), [], st)
      else
        let (_, sched) = registry_purge (\<lambda>s. (Returned (), pe_abort pe s)) (pe_held_sched pe) tenant_id (rs_sched st);
            st = st\<lparr>rs_sched := sched\<rparr>
        in case registry_purge (pe_clear_kv pe) (pe_held_kv pe) tenant_id (rs_kv st) of
             (CallPanics, kv) \<Rightarrow> (CallPanics, [], st\<lparr>rs_kv := kv\<rparr>)
           | (Returned _, kv) \<Rightarrow>
               let st = st\<lparr>rs_kv := kv\<rparr>
               in case registry_purge (pe_clear_cache pe) (pe_held_cache pe) tenant_id (rs_cache st) of
                    (CallPanics, ca) \<Rightarrow> (CallPanics, [], st\<lparr>rs_cache := ca\<rparr>)
                  | (Returned _, ca) \<Rightarrow>
                      let paths = resolve_tenant_purge_paths (pe_env_var pe) tenant_id
                      in (Returned (case remove_dirs (pe_rm pe) paths of Some e \<Rightarrow> Inl (DirRemoval e) | None \<Rightarrow> Inr ()),
                          paths, st\<lparr>rs_cache := ca\<rparr>))"

section \<open>Building the state of an invocation\<close>

text \<open>The key of the tenant's stores; a preview deployment has its own.\<close>

definition store_key :: "string \<Rightarrow> string option \<Rightarrow> string" where
  "store_key tenant_id preview_id =
     (case preview_id of Some pid \<Rightarrow> tenant_id @ ''/preview-'' @ pid | None \<Rightarrow> tenant_id)"

record runtime_state =
  rt_process :: process
  rt_wasi_env :: "(string \<times> string) list"
  rt_tenant_id :: string
  rt_app_name :: string
  rt_egress :: egress_policy
  rt_socket_mode :: socket_egress_policy
  rt_kv :: nat
  rt_cache :: nat
  rt_sched :: nat

definition build_wasi_env :: "(string, string) hashmap \<Rightarrow> (string \<times> string) list" where
  "build_wasi_env env = filter_env_vars env"

definition with_env_and_meter_preview ::
  "(string \<Rightarrow> 'k) \<Rightarrow> (string \<Rightarrow> 'c) \<Rightarrow> (string \<Rightarrow> 's) \<Rightarrow> (string, string) hashmap \<Rightarrow> string \<Rightarrow> string \<Rightarrow>
   string option \<Rightarrow> u32 option \<Rightarrow> egress_policy \<Rightarrow> socket_egress_policy \<Rightarrow> ('k, 'c, 's) stores \<Rightarrow>
   runtime_state \<times> ('k, 'c, 's) stores" where
  "with_env_and_meter_preview mk_kv mk_cache mk_sched env tenant_id app_name preview_id preview_pr_number
     egress socket_mode st =
     (let env' = (case preview_pr_number of
                    Some pr \<Rightarrow> hm_insert ''EDGE_PREVIEW_PR_NUMBER'' (dec (unat pr)) env
                  | None \<Rightarrow> env);
          key = store_key tenant_id preview_id;
          (kv, kv_reg) = get_or_create mk_kv key (rs_kv st);
          (ca, ca_reg) = get_or_create mk_cache key (rs_cache st);
          (sc, sc_reg) = get_or_create mk_sched key (rs_sched st)
      in (\<lparr>rt_process = \<lparr>pr_env = env', pr_exit_code = 0\<rparr>, rt_wasi_env = build_wasi_env env',
           rt_tenant_id = tenant_id, rt_app_name = app_name, rt_egress = egress,
           rt_socket_mode = socket_mode, rt_kv = kv, rt_cache = ca, rt_sched = sc\<rparr>,
          st\<lparr>rs_kv := kv_reg, rs_cache := ca_reg, rs_sched := sc_reg\<rparr>))"

section \<open>Names and keys\<close>

lemma safe_tenant_id_chars:
  assumes "is_safe_tenant_id t"
  shows "CHR ''/'' \<notin> set t" and "CHR ''.'' \<notin> set t" and "CHR '':'' \<notin> set t" and "t \<noteq> []"
  using assms by (auto simp: is_safe_tenant_id_def list_all_iff is_ascii_alphanumeric_def Let_def)

lemma safe_tenant_id_one_component:
  "is_safe_tenant_id t \<Longrightarrow> CHR ''/'' \<notin> set t \<and> t \<noteq> ''.'' \<and> t \<noteq> ''..'' \<and> t \<noteq> []"
  using safe_tenant_id_chars [of t] by auto

text \<open>The two validators with this name disagree: the worker accepts a Windows device name that the
  constructors \<open>from_env_for_tenant\<close> of the stores refuse.\<close>

lemma tenant_id_validators_disagree:
  "is_safe_tenant_id ''CON'' \<and> \<not> is_safe_path_component ''CON''"
  by (simp add: is_safe_tenant_id_def is_safe_path_component_def is_windows_reserved_name_def
      is_ascii_alphanumeric_def to_ascii_uppercase_def ascii_upper_def)

lemma store_key_inj:
  assumes "is_safe_tenant_id t" and "is_safe_tenant_id t'"
  shows "store_key t p = store_key t' p' \<longleftrightarrow> t = t' \<and> p = p'"
proof -
  note s = safe_tenant_id_chars(1) [OF assms(1)] safe_tenant_id_chars(1) [OF assms(2)]
  have pre: "t @ ''/preview-'' @ q = u \<Longrightarrow> CHR ''/'' \<in> set u" for t q u :: string by auto
  show ?thesis
  proof (cases p; cases p')
    fix q q'
    assume "p = Some q" "p' = Some q'"
    then show ?thesis
      using append_sep_inj [OF s, of "''preview-'' @ q" "''preview-'' @ q'"]
      by (simp add: store_key_def)
  qed (use s in \<open>auto simp: store_key_def\<close>)
qed

section \<open>The registries\<close>

definition registry_wf :: "'s registry \<Rightarrow> bool" where
  "registry_wf reg \<longleftrightarrow>
     hm_wf (rg_map reg) \<and>
     (\<forall>k a. hm_get (rg_map reg) k = Some a \<longrightarrow> a < rg_next reg) \<and>
     (\<forall>k k' a. hm_get (rg_map reg) k = Some a \<longrightarrow> hm_get (rg_map reg) k' = Some a \<longrightarrow> k = k')"

lemma registry_wf_empty: "registry_wf \<lparr>rg_map = [], rg_heap = [], rg_next = 0\<rparr>"
  by (simp add: registry_wf_def)

lemma registry_wf_get_or_create:
  assumes "registry_wf reg"
  shows "registry_wf (snd (get_or_create mk key reg))"
  using assms
  by (auto simp: registry_wf_def get_or_create_def split: option.splits if_splits)
    (metis less_Suc_eq less_irrefl_nat)+

lemma registry_wf_purge:
  assumes "registry_wf reg"
  shows "registry_wf (snd (registry_purge clear held key reg))"
  using assms by (auto simp: registry_wf_def registry_purge_def Let_def split: option.splits if_splits)

lemma get_or_create_registered:
  "hm_get (rg_map (snd (get_or_create mk key reg))) key = Some (fst (get_or_create mk key reg))"
  by (simp add: get_or_create_def split: option.splits)

lemma get_or_create_keeps:
  "hm_get (rg_map reg) k = Some a \<Longrightarrow> hm_get (rg_map (snd (get_or_create mk key reg))) k = Some a"
  by (auto simp: get_or_create_def split: option.splits)

lemma registry_purge_map:
  "hm_get (rg_map (snd (registry_purge clear held key reg))) k = (if k = key then None else hm_get (rg_map reg) k)"
  by (simp add: registry_purge_def Let_def split: option.splits)

lemma registry_purge_next: "rg_next (snd (registry_purge clear held key reg)) = rg_next reg"
  by (simp add: registry_purge_def Let_def split: option.splits)

text \<open>What a registry has become of an earlier one, when the keys in \<open>S\<close> were dropped since: an entry
  is still there exactly when its key was not dropped, and the other entries have new addresses.\<close>

definition reg_later :: "'s registry \<Rightarrow> string set \<Rightarrow> 's registry \<Rightarrow> bool" where
  "reg_later reg S reg' \<longleftrightarrow>
     rg_next reg \<le> rg_next reg' \<and>
     (\<forall>k a. hm_get (rg_map reg) k = Some a \<and> k \<notin> S \<longrightarrow> hm_get (rg_map reg') k = Some a) \<and>
     (\<forall>k a. hm_get (rg_map reg') k = Some a \<and> a < rg_next reg \<longrightarrow> k \<notin> S \<and> hm_get (rg_map reg) k = Some a)"

lemma reg_later_refl: "reg_later reg {} reg"
  by (simp add: reg_later_def)

lemma reg_laterI:
  assumes "rg_next reg \<le> rg_next reg'"
    and "\<And>k a. hm_get (rg_map reg) k = Some a \<Longrightarrow> k \<notin> S \<Longrightarrow> hm_get (rg_map reg') k = Some a"
    and "\<And>k a. hm_get (rg_map reg') k = Some a \<Longrightarrow> a < rg_next reg \<Longrightarrow> k \<notin> S \<and> hm_get (rg_map reg) k = Some a"
  shows "reg_later reg S reg'"
  unfolding reg_later_def using assms by blast

lemma reg_laterD:
  assumes "reg_later reg S reg'"
  shows "rg_next reg \<le> rg_next reg'"
    and "hm_get (rg_map reg) k = Some a \<Longrightarrow> k \<notin> S \<Longrightarrow> hm_get (rg_map reg') k = Some a"
    and "hm_get (rg_map reg') k = Some a \<Longrightarrow> a < rg_next reg \<Longrightarrow> k \<notin> S \<and> hm_get (rg_map reg) k = Some a"
  using assms unfolding reg_later_def by blast+

lemma reg_later_create:
  assumes "reg_later reg S r"
  shows "reg_later reg S (snd (get_or_create mk key r))"
proof (cases "hm_get (rg_map r) key")
  case None
  note later = reg_laterD [OF assms]
  show ?thesis
  proof (rule reg_laterI)
    fix k a
    assume "hm_get (rg_map (snd (get_or_create mk key r))) k = Some a" "a < rg_next reg"
    then have "hm_get (rg_map r) k = Some a" using None later(1) by (simp add: get_or_create_def split: if_splits)
    from later(3) [OF this \<open>a < rg_next reg\<close>] show "k \<notin> S \<and> hm_get (rg_map reg) k = Some a" .
  qed (use None later(1,2) in \<open>auto simp: get_or_create_def\<close>)
qed (use assms in \<open>simp add: get_or_create_def\<close>)

lemma reg_later_purge:
  assumes "reg_later reg S r"
  shows "reg_later reg (insert key S) (snd (registry_purge clear held key r))"
proof (rule reg_laterI)
  fix k a
  assume "hm_get (rg_map (snd (registry_purge clear held key r))) k = Some a" "a < rg_next reg"
  then have "k \<noteq> key" "hm_get (rg_map r) k = Some a" by (simp_all add: registry_purge_map split: if_splits)
  with reg_laterD(3) [OF assms this(2) \<open>a < rg_next reg\<close>]
  show "k \<notin> insert key S \<and> hm_get (rg_map reg) k = Some a" by simp
qed (use reg_laterD(1,2) [OF assms] in \<open>simp_all add: registry_purge_map registry_purge_next\<close>)

text \<open>Two invocations share a store exactly when they use the same key and it was not dropped in
  between.\<close>

lemma get_or_create_shares:
  assumes "registry_wf reg" and "get_or_create mk k reg = (a, reg1)" and "reg_later reg1 S r"
  shows "fst (get_or_create mk k' r) = a \<longleftrightarrow> k = k' \<and> k \<notin> S"
proof -
  have wf: "registry_wf reg1" and own: "hm_get (rg_map reg1) k = Some a"
    using registry_wf_get_or_create [OF assms(1), of mk k] get_or_create_registered [of mk k reg] assms(2) by simp_all
  then have less: "a < rg_next reg1" by (simp add: registry_wf_def)
  note later = reg_laterD [OF assms(3)]
  show ?thesis
  proof (cases "hm_get (rg_map r) k'")
    case None
    then have "k = k' \<Longrightarrow> k \<in> S" using later(2) [OF own] by auto
    with None less later(1) show ?thesis by (auto simp: get_or_create_def)
  next
    case (Some b)
    have "b = a \<Longrightarrow> k' \<notin> S \<and> k = k'"
      using later(3) [OF Some] less own wf unfolding registry_wf_def by blast
    moreover have "k = k' \<Longrightarrow> k \<notin> S \<Longrightarrow> b = a" using later(2) [OF own] Some by simp
    ultimately show ?thesis using Some by (auto simp: get_or_create_def)
  qed
qed

definition stores_wf :: "('k, 'c, 's) stores \<Rightarrow> bool" where
  "stores_wf st \<longleftrightarrow> registry_wf (rs_kv st) \<and> registry_wf (rs_cache st) \<and> registry_wf (rs_sched st)"

lemma with_env_stores:
  "snd (with_env_and_meter_preview mk_kv mk_ca mk_sc env t app p pr eg sm st) =
     st\<lparr>rs_kv := snd (get_or_create mk_kv (store_key t p) (rs_kv st)),
        rs_cache := snd (get_or_create mk_ca (store_key t p) (rs_cache st)),
        rs_sched := snd (get_or_create mk_sc (store_key t p) (rs_sched st))\<rparr>"
  "rt_kv (fst (with_env_and_meter_preview mk_kv mk_ca mk_sc env t app p pr eg sm st)) =
     fst (get_or_create mk_kv (store_key t p) (rs_kv st))"
  "rt_cache (fst (with_env_and_meter_preview mk_kv mk_ca mk_sc env t app p pr eg sm st)) =
     fst (get_or_create mk_ca (store_key t p) (rs_cache st))"
  "rt_sched (fst (with_env_and_meter_preview mk_kv mk_ca mk_sc env t app p pr eg sm st)) =
     fst (get_or_create mk_sc (store_key t p) (rs_sched st))"
  by (simp_all add: with_env_and_meter_preview_def Let_def split_def)

lemma stores_wf_with_env:
  "stores_wf st \<Longrightarrow> stores_wf (snd (with_env_and_meter_preview mk_kv mk_ca mk_sc env t app p pr eg sm st))"
  by (simp add: stores_wf_def with_env_stores registry_wf_get_or_create)

section \<open>Invocations and purges over time\<close>

datatype ('k, 'c, 's) runtime_op =
  Invoke "(string, string) hashmap" string string "string option" "u32 option" egress_policy socket_egress_policy
| Purge "('k, 'c, 's) purge_env" string

fun runtime_step ::
  "(string \<Rightarrow> 'k) \<Rightarrow> (string \<Rightarrow> 'c) \<Rightarrow> (string \<Rightarrow> 's) \<Rightarrow> ('k, 'c, 's) runtime_op \<Rightarrow> ('k, 'c, 's) stores \<Rightarrow>
   ('k, 'c, 's) stores" where
  "runtime_step mk_kv mk_cache mk_sched (Invoke env t app p pr eg sm) st =
     snd (with_env_and_meter_preview mk_kv mk_cache mk_sched env t app p pr eg sm st)"
| "runtime_step mk_kv mk_cache mk_sched (Purge pe t) st = snd (snd (purge_tenant pe t st))"

definition runtime_run ::
  "(string \<Rightarrow> 'k) \<Rightarrow> (string \<Rightarrow> 'c) \<Rightarrow> (string \<Rightarrow> 's) \<Rightarrow> ('k, 'c, 's) runtime_op list \<Rightarrow> ('k, 'c, 's) stores \<Rightarrow>
   ('k, 'c, 's) stores" where
  "runtime_run mk_kv mk_cache mk_sched ops st = fold (runtime_step mk_kv mk_cache mk_sched) ops st"

text \<open>The tenants a history purged: their key-value store and scheduler are dropped by every purge, the
  cache only when clearing the key-value store did not panic.\<close>

fun purged :: "('k, 'c, 's) runtime_op list \<Rightarrow> string set" where
  "purged [] = {}"
| "purged (Purge pe t # ops) = (if is_safe_tenant_id t then insert t (purged ops) else purged ops)"
| "purged (_ # ops) = purged ops"

fun purged_caches ::
  "(string \<Rightarrow> 'k) \<Rightarrow> (string \<Rightarrow> 'c) \<Rightarrow> (string \<Rightarrow> 's) \<Rightarrow> ('k, 'c, 's) runtime_op list \<Rightarrow> ('k, 'c, 's) stores \<Rightarrow>
   string set" where
  "purged_caches mk_kv mk_cache mk_sched [] st = {}"
| "purged_caches mk_kv mk_cache mk_sched (op # ops) st =
     (case op of
        Purge pe t \<Rightarrow>
          if is_safe_tenant_id t \<and> fst (registry_purge (pe_clear_kv pe) (pe_held_kv pe) t (rs_kv st)) = Returned ()
          then {t} else {}
      | _ \<Rightarrow> {}) \<union>
     purged_caches mk_kv mk_cache mk_sched ops (runtime_step mk_kv mk_cache mk_sched op st)"

lemma purge_tenant_kv:
  assumes "is_safe_tenant_id t"
  shows "rs_kv (snd (snd (purge_tenant pe t st))) = snd (registry_purge (pe_clear_kv pe) (pe_held_kv pe) t (rs_kv st))"
    and "rs_sched (snd (snd (purge_tenant pe t st))) =
      snd (registry_purge (\<lambda>s. (Returned (), pe_abort pe s)) (pe_held_sched pe) t (rs_sched st))"
    and "rs_cache (snd (snd (purge_tenant pe t st))) =
      (if fst (registry_purge (pe_clear_kv pe) (pe_held_kv pe) t (rs_kv st)) = Returned ()
       then snd (registry_purge (pe_clear_cache pe) (pe_held_cache pe) t (rs_cache st)) else rs_cache st)"
  using assms by (simp_all add: purge_tenant_def Let_def split: prod.splits outcome.splits)

lemma purge_tenant_unsafe: "\<not> is_safe_tenant_id t \<Longrightarrow> snd (snd (purge_tenant pe t st)) = st"
  by (simp add: purge_tenant_def)

lemma stores_wf_purge: "stores_wf st \<Longrightarrow> stores_wf (snd (snd (purge_tenant pe t st)))"
  by (cases "is_safe_tenant_id t") (simp_all add: stores_wf_def purge_tenant_kv purge_tenant_unsafe registry_wf_purge)

lemma stores_wf_run: "stores_wf st \<Longrightarrow> stores_wf (runtime_run mk_kv mk_ca mk_sc ops st)"
  unfolding runtime_run_def
proof (induction ops arbitrary: st)
  case (Cons op ops)
  then show ?case by (cases op) (simp_all add: stores_wf_with_env stores_wf_purge)
qed simp

lemma runtime_run_later:
  assumes "reg_later kv A (rs_kv st)" and "reg_later ca B (rs_cache st)" and "reg_later sc A (rs_sched st)"
  shows "reg_later kv (A \<union> purged ops) (rs_kv (runtime_run mk_kv mk_ca mk_sc ops st)) \<and>
    reg_later ca (B \<union> purged_caches mk_kv mk_ca mk_sc ops st) (rs_cache (runtime_run mk_kv mk_ca mk_sc ops st)) \<and>
    reg_later sc (A \<union> purged ops) (rs_sched (runtime_run mk_kv mk_ca mk_sc ops st))"
  using assms
proof (induction ops arbitrary: st A B)
  case (Cons op ops)
  let ?st = "runtime_step mk_kv mk_ca mk_sc op st"
  let ?A = "A \<union> purged [op]" and ?B = "B \<union> purged_caches mk_kv mk_ca mk_sc [op] st"
  have "reg_later kv ?A (rs_kv ?st) \<and> reg_later ca ?B (rs_cache ?st) \<and> reg_later sc ?A (rs_sched ?st)"
  proof (cases op)
    case (Invoke env t app p pr eg sm)
    then show ?thesis using Cons.prems by (simp add: with_env_stores reg_later_create)
  next
    case (Purge pe t)
    then show ?thesis using Cons.prems
      by (cases "is_safe_tenant_id t") (simp_all add: purge_tenant_kv purge_tenant_unsafe reg_later_purge)
  qed
  with Cons.IH [of ?A ?st ?B] have
    "reg_later kv (?A \<union> purged ops) (rs_kv (runtime_run mk_kv mk_ca mk_sc ops ?st)) \<and>
     reg_later ca (?B \<union> purged_caches mk_kv mk_ca mk_sc ops ?st) (rs_cache (runtime_run mk_kv mk_ca mk_sc ops ?st)) \<and>
     reg_later sc (?A \<union> purged ops) (rs_sched (runtime_run mk_kv mk_ca mk_sc ops ?st))" by blast
  moreover have "purged (op # ops) = purged [op] \<union> purged ops" by (cases op) auto
  ultimately show ?case by (simp add: runtime_run_def Un_assoc)
qed (simp add: runtime_run_def)

lemma store_key_tenant:
  assumes "is_safe_tenant_id t" and "is_safe_tenant_id u"
  shows "store_key t p = u \<longleftrightarrow> p = None \<and> t = u"
  using store_key_inj [OF assms, of p None] by (auto simp: store_key_def)

lemma purged_safe: "u \<in> purged ops \<Longrightarrow> is_safe_tenant_id u"
  by (induction ops rule: purged.induct) (auto split: if_splits)

lemma purged_caches_safe: "u \<in> purged_caches mk_kv mk_ca mk_sc ops st \<Longrightarrow> is_safe_tenant_id u"
  by (induction ops arbitrary: st) (auto split: runtime_op.splits if_splits)

text \<open>Claim C16 (tenants and previews are isolated). Take two invocations of valid tenants, with any
  sequence of invocations and purges of any tenants between them. They get the same key-value store
  and the same scheduler exactly when they are of the same tenant, both outside a preview or both in
  the same preview, and, outside a preview, no purge of the tenant came in between; the same holds
  for the cache, except that a purge in which clearing the key-value store panics leaves the cache
  registered. Which app an invocation runs does not matter.\<close>

theorem tenant_stores_isolated:
  assumes "stores_wf st" and "is_safe_tenant_id t" and "is_safe_tenant_id t'"
    and "with_env_and_meter_preview mk_kv mk_ca mk_sc env t app p pr eg sm st = (r, st1)"
    and "st2 = runtime_run mk_kv mk_ca mk_sc ops st1"
    and "with_env_and_meter_preview mk_kv mk_ca mk_sc env' t' app' p' pr' eg' sm' st2 = (r', st3)"
  shows "(rt_kv r = rt_kv r' \<longleftrightarrow> t = t' \<and> p = p' \<and> (p = None \<longrightarrow> t \<notin> purged ops)) \<and>
         (rt_cache r = rt_cache r' \<longleftrightarrow>
            t = t' \<and> p = p' \<and> (p = None \<longrightarrow> t \<notin> purged_caches mk_kv mk_ca mk_sc ops st1)) \<and>
         (rt_sched r = rt_sched r' \<longleftrightarrow> t = t' \<and> p = p' \<and> (p = None \<longrightarrow> t \<notin> purged ops)) \<and> stores_wf st3"
proof -
  have r: "r = fst (with_env_and_meter_preview mk_kv mk_ca mk_sc env t app p pr eg sm st)"
    and st1: "st1 = snd (with_env_and_meter_preview mk_kv mk_ca mk_sc env t app p pr eg sm st)"
    and r': "r' = fst (with_env_and_meter_preview mk_kv mk_ca mk_sc env' t' app' p' pr' eg' sm' st2)"
    and st3: "st3 = snd (with_env_and_meter_preview mk_kv mk_ca mk_sc env' t' app' p' pr' eg' sm' st2)"
    using assms(4,6) by simp_all
  have wf3: "stores_wf st3" unfolding st3 assms(5) st1 by (intro stores_wf_with_env stores_wf_run assms(1))
  let ?k = "store_key t p" and ?C = "purged_caches mk_kv mk_ca mk_sc ops st1"
  have later: "reg_later (rs_kv st1) (purged ops) (rs_kv st2)" "reg_later (rs_cache st1) ?C (rs_cache st2)"
    "reg_later (rs_sched st1) (purged ops) (rs_sched st2)"
    using runtime_run_later [of "rs_kv st1" "{}" st1 "rs_cache st1" "{}" "rs_sched st1" ops mk_kv mk_ca mk_sc]
    by (simp_all add: reg_later_refl assms(5))
  have wf: "registry_wf (rs_kv st)" "registry_wf (rs_cache st)" "registry_wf (rs_sched st)"
    using assms(1) by (simp_all add: stores_wf_def)
  have first: "get_or_create mk_kv ?k (rs_kv st) = (rt_kv r, rs_kv st1)"
    "get_or_create mk_ca ?k (rs_cache st) = (rt_cache r, rs_cache st1)"
    "get_or_create mk_sc ?k (rs_sched st) = (rt_sched r, rs_sched st1)"
    by (simp_all add: r st1 with_env_stores)
  have key: "?k = store_key t' p' \<longleftrightarrow> t = t' \<and> p = p'" by (rule store_key_inj [OF assms(2,3)])
  have dropped: "?k \<notin> purged ops \<longleftrightarrow> (p = None \<longrightarrow> t \<notin> purged ops)" "?k \<notin> ?C \<longleftrightarrow> (p = None \<longrightarrow> t \<notin> ?C)"
    using store_key_tenant [OF assms(2)] purged_safe purged_caches_safe by metis+
  have "rt_kv r' = rt_kv r \<longleftrightarrow> t = t' \<and> p = p' \<and> (p = None \<longrightarrow> t \<notin> purged ops)"
    using get_or_create_shares [OF wf(1) first(1) later(1), of "store_key t' p'"]
    by (simp only: r' with_env_stores key dropped conj_assoc)
  moreover have "rt_cache r' = rt_cache r \<longleftrightarrow> t = t' \<and> p = p' \<and> (p = None \<longrightarrow> t \<notin> ?C)"
    using get_or_create_shares [OF wf(2) first(2) later(2), of "store_key t' p'"]
    by (simp only: r' with_env_stores key dropped conj_assoc)
  moreover have "rt_sched r' = rt_sched r \<longleftrightarrow> t = t' \<and> p = p' \<and> (p = None \<longrightarrow> t \<notin> purged ops)"
    using get_or_create_shares [OF wf(3) first(3) later(3), of "store_key t' p'"]
    by (simp only: r' with_env_stores key dropped conj_assoc)
  ultimately show ?thesis using wf3 by (simp only: eq_commute [of "rt_kv r"] eq_commute [of "rt_cache r"]
      eq_commute [of "rt_sched r"])
qed

definition empty_stores :: "(unit, unit, unit) stores" where
  "empty_stores =
     \<lparr>rs_kv = \<lparr>rg_map = [], rg_heap = [], rg_next = 0\<rparr>, rs_cache = \<lparr>rg_map = [], rg_heap = [], rg_next = 0\<rparr>,
      rs_sched = \<lparr>rg_map = [], rg_heap = [], rg_next = 0\<rparr>\<rparr>"

definition plain_invocation ::
  "string \<Rightarrow> string option \<Rightarrow> (unit, unit, unit) stores \<Rightarrow> runtime_state \<times> (unit, unit, unit) stores" where
  "plain_invocation t p st =
     with_env_and_meter_preview (\<lambda>_. ()) (\<lambda>_. ()) (\<lambda>_. ()) [] t ''api'' p None egress_allow_all BlockAll st"

definition plain_purge :: "(unit, unit, unit) purge_env" where
  "plain_purge =
     \<lparr>pe_clear_kv = (\<lambda>s. (Returned (), s)), pe_clear_cache = (\<lambda>s. (Returned (), s)), pe_abort = (\<lambda>s. s),
      pe_held_kv = (\<lambda>_. False), pe_held_cache = (\<lambda>_. False), pe_held_sched = (\<lambda>_. False),
      pe_env_var = (\<lambda>_. None), pe_rm = (\<lambda>_. Removed)\<rparr>"

text \<open>Another tenant's invocation and purge do not separate a tenant from its store; its own purge does.\<close>

theorem tenant_stores_isolated_witness:
  "(let mid = [Invoke [] ''other'' ''web'' None None egress_allow_all BlockAll, Purge plain_purge ''other''];
        (r, st1) = plain_invocation ''acme'' None empty_stores;
        r' = fst (plain_invocation ''acme'' None (runtime_run (\<lambda>_. ()) (\<lambda>_. ()) (\<lambda>_. ()) mid st1));
        r'' = fst (plain_invocation ''acme'' None
                (runtime_run (\<lambda>_. ()) (\<lambda>_. ()) (\<lambda>_. ()) (Purge plain_purge ''acme'' # mid) st1))
    in rt_kv r = rt_kv r' \<and> rt_kv r \<noteq> rt_kv r'')"
proof -
  let ?mid = "[Invoke [] ''other'' ''web'' None None egress_allow_all BlockAll, Purge plain_purge ''other'']
    :: (unit, unit, unit) runtime_op list"
  obtain r st1 where first: "plain_invocation ''acme'' None empty_stores = (r, st1)" by fastforce
  have wf: "stores_wf empty_stores" by (simp add: stores_wf_def empty_stores_def registry_wf_empty)
  have safe: "is_safe_tenant_id ''acme''" "is_safe_tenant_id ''other''"
    by (simp_all add: is_safe_tenant_id_def is_ascii_alphanumeric_def)
  have iso: "rt_kv r = rt_kv (fst (plain_invocation ''acme'' None (runtime_run (\<lambda>_. ()) (\<lambda>_. ()) (\<lambda>_. ()) ops st1))) \<longleftrightarrow>
      ''acme'' \<notin> purged ops" for ops
    using tenant_stores_isolated [OF wf safe(1) safe(1) first [unfolded plain_invocation_def] refl, of "[]" "''api''" None None
        egress_allow_all BlockAll ops "fst (plain_invocation ''acme'' None (runtime_run (\<lambda>_. ()) (\<lambda>_. ()) (\<lambda>_. ()) ops st1))"
        "snd (plain_invocation ''acme'' None (runtime_run (\<lambda>_. ()) (\<lambda>_. ()) (\<lambda>_. ()) ops st1))"]
    by (simp add: plain_invocation_def)
  show ?thesis using iso [of ?mid] iso [of "Purge plain_purge ''acme'' # ?mid"] safe by (simp add: first Let_def)
qed

section \<open>Purging a tenant\<close>

lemma registry_purge_heap:
  assumes "registry_wf reg" and "hm_get (rg_map reg) k = Some a" and "k \<noteq> key"
  shows "hm_get (rg_heap (snd (registry_purge clear held key reg))) a = hm_get (rg_heap reg) a"
  using assms by (auto simp: registry_purge_def Let_def registry_wf_def split: option.splits)

lemma registry_purge_own:
  assumes "hm_get (rg_map reg) key = Some a" and "hm_get (rg_heap reg) a = Some s"
  shows "hm_get (rg_heap (snd (registry_purge clear held key reg))) a = Some (if held a then s else snd (clear s))"
  using assms by (simp add: registry_purge_def Let_def)

lemma registry_reopen_fresh:
  assumes "registry_wf reg"
  shows "hm_get (rg_heap (snd (get_or_create mk key (snd (registry_purge clear held key reg)))))
           (fst (get_or_create mk key (snd (registry_purge clear held key reg)))) = Some (mk key)"
  by (simp add: get_or_create_def registry_purge_map)

text \<open>What a tenant purge removes. A purge of a valid tenant that returns unregisters the tenant's
  key-value store, cache and scheduler, so that the next invocation builds new ones, and tries to
  remove every configured directory of the tenant. The store an app still references keeps its
  contents (the app goes on using it). The stores of the tenant's previews are registered under
  another key: they stay registered with their contents, and a later preview invocation gets them
  back, although the purge is meant to remove every piece of state the runtime owns for the
  tenant. The stores of the other tenants are untouched.\<close>

theorem purge_tenant_exact:
  assumes "stores_wf st" and "is_safe_tenant_id t"
    and "purge_tenant pe t st = (Returned res, paths, st')"
  shows "fst (get_or_create mk t (rs_kv st')) = rg_next (rs_kv st') \<and>
     hm_get (rg_heap (snd (get_or_create mk t (rs_kv st')))) (fst (get_or_create mk t (rs_kv st'))) = Some (mk t) \<and>
     set paths = {base @ ''/'' @ t | base var. pe_env_var pe var = Some base \<and>
        var \<in> {''EDGE_KV_STORE_PATH'', ''EDGE_CACHE_PATH'', ''EDGE_SCHEDULING_PATH''}} \<and>
     (\<forall>a s. hm_get (rg_map (rs_kv st)) t = Some a \<and> hm_get (rg_heap (rs_kv st)) a = Some s \<longrightarrow>
        hm_get (rg_heap (rs_kv st')) a = Some (if pe_held_kv pe a then s else snd (pe_clear_kv pe s))) \<and>
     (\<forall>k a. k \<noteq> t \<and> hm_get (rg_map (rs_kv st)) k = Some a \<longrightarrow>
        hm_get (rg_map (rs_kv st')) k = Some a \<and>
        hm_get (rg_heap (rs_kv st')) a = hm_get (rg_heap (rs_kv st)) a) \<and>
     (\<forall>pid. store_key t (Some pid) \<noteq> t)"
proof -
  from assms(2,3) have kv: "rs_kv st' = snd (registry_purge (pe_clear_kv pe) (pe_held_kv pe) t (rs_kv st))"
    and paths: "paths = resolve_tenant_purge_paths (pe_env_var pe) t"
    by (auto simp: purge_tenant_def Let_def split: prod.splits outcome.splits)
  from assms(1) have wf: "registry_wf (rs_kv st)" by (simp add: stores_wf_def)
  have none: "hm_get (rg_map (rs_kv st')) t = None" by (simp add: kv registry_purge_map)
  have "set paths = {base @ ''/'' @ t | base var. pe_env_var pe var = Some base \<and>
        var \<in> {''EDGE_KV_STORE_PATH'', ''EDGE_CACHE_PATH'', ''EDGE_SCHEDULING_PATH''}}"
    unfolding paths resolve_tenant_purge_paths_def by (auto simp: map_filter_simps split: option.splits)
  moreover have "fst (get_or_create mk t (rs_kv st')) = rg_next (rs_kv st')"
    using none by (simp add: get_or_create_def)
  moreover have "hm_get (rg_heap (snd (get_or_create mk t (rs_kv st')))) (fst (get_or_create mk t (rs_kv st'))) = Some (mk t)"
    unfolding kv by (rule registry_reopen_fresh [OF wf])
  moreover have "hm_get (rg_map (rs_kv st')) k = Some a \<and>
      hm_get (rg_heap (rs_kv st')) a = hm_get (rg_heap (rs_kv st)) a"
    if "k \<noteq> t" "hm_get (rg_map (rs_kv st)) k = Some a" for k a
    using that registry_purge_heap [OF wf that(2,1)] by (simp add: kv registry_purge_map)
  moreover have "hm_get (rg_heap (rs_kv st')) a = Some (if pe_held_kv pe a then s else snd (pe_clear_kv pe s))"
    if "hm_get (rg_map (rs_kv st)) t = Some a" "hm_get (rg_heap (rs_kv st)) a = Some s" for a s
    unfolding kv by (rule registry_purge_own [OF that])
  moreover have "store_key t (Some pid) \<noteq> t" for pid by (simp add: store_key_def)
  ultimately show ?thesis by blast
qed

theorem purge_tenant_exact_witness:
  "\<exists>res paths st'. purge_tenant
      (\<lparr>pe_clear_kv = (\<lambda>_. (Returned (), 0)), pe_clear_cache = (\<lambda>s. (Returned (), s)), pe_abort = (\<lambda>s. s),
        pe_held_kv = (\<lambda>_. False), pe_held_cache = (\<lambda>_. False), pe_held_sched = (\<lambda>_. False),
        pe_env_var = (\<lambda>_. None), pe_rm = (\<lambda>_. Removed)\<rparr>) ''acme''
      \<lparr>rs_kv = \<lparr>rg_map = [(''acme'', 0), (''acme/preview-7f'', 1)], rg_heap = [(0, 5 :: nat), (1, 6)], rg_next = 2\<rparr>,
       rs_cache = \<lparr>rg_map = [], rg_heap = ([] :: (nat, nat) hashmap), rg_next = 0\<rparr>,
       rs_sched = \<lparr>rg_map = [], rg_heap = ([] :: (nat, nat) hashmap), rg_next = 0\<rparr>\<rparr> = (Returned res, paths, st') \<and>
     hm_get (rg_map (rs_kv st')) ''acme/preview-7f'' = Some 1"
proof -
  let ?st = "\<lparr>rs_kv = \<lparr>rg_map = [(''acme'', 0), (''acme/preview-7f'', 1)], rg_heap = [(0, 5 :: nat), (1, 6)], rg_next = 2\<rparr>,
     rs_cache = \<lparr>rg_map = [], rg_heap = ([] :: (nat, nat) hashmap), rg_next = 0\<rparr>,
     rs_sched = \<lparr>rg_map = [], rg_heap = ([] :: (nat, nat) hashmap), rg_next = 0\<rparr>\<rparr>"
  let ?pe = "\<lparr>pe_clear_kv = (\<lambda>_. (Returned (), 0)), pe_clear_cache = (\<lambda>s. (Returned (), s)), pe_abort = (\<lambda>s. s),
        pe_held_kv = (\<lambda>_. False), pe_held_cache = (\<lambda>_. False), pe_held_sched = (\<lambda>_. False),
        pe_env_var = (\<lambda>_. None), pe_rm = (\<lambda>_. Removed)\<rparr> :: (nat, nat, nat) purge_env"
  have wf: "stores_wf ?st" by (auto simp: stores_wf_def registry_wf_def hm_wf_def hm_get_Cons split: if_splits)
  have safe: "is_safe_tenant_id ''acme''" by (simp add: is_safe_tenant_id_def is_ascii_alphanumeric_def)
  obtain res paths st' where eq: "purge_tenant ?pe ''acme'' ?st = (Returned res, paths, st')"
    using safe by (simp add: purge_tenant_def registry_purge_def hm_get_Cons Let_def)
  have get: "hm_get (rg_map (rs_kv ?st)) ''acme/preview-7f'' = Some 1" by (simp add: hm_get_Cons)
  have ne: "''acme/preview-7f'' \<noteq> ''acme''" by simp
  from purge_tenant_exact [OF wf safe eq, of "\<lambda>_. 0"]
  have others: "\<forall>k a. k \<noteq> ''acme'' \<and> hm_get (rg_map (rs_kv ?st)) k = Some a \<longrightarrow>
      hm_get (rg_map (rs_kv st')) k = Some a \<and>
      hm_get (rg_heap (rs_kv st')) a = hm_get (rg_heap (rs_kv ?st)) a" by (elim conjE)
  have "hm_get (rg_map (rs_kv st')) ''acme/preview-7f'' = Some 1"
    by (rule others [THEN spec, THEN spec, THEN mp, OF conjI, OF ne get, THEN conjunct1])
  with eq show ?thesis by blast
qed

text \<open>The purge of a tenant with a persistent key-value store panics. The supervisor calls
  \<open>purge_tenant\<close> on an executor thread; there \<open>clear\<close> empties the map of the store nobody references
  any more and then panics in its flush. The cache stays registered with its contents, no directory
  is removed, and the file of the store still holds all the tenant's data.\<close>

theorem purge_panics:
  assumes "is_safe_tenant_id t" and "hm_get (rg_map (rs_kv st)) t = Some a" and "hm_get (rg_heap (rs_kv st)) a = Some s"
    and "kv_persistence s" and "\<not> pe_held_kv pe a" and "pe_clear_kv pe = kv_clear c env" and "se_thread env = ExecutorThread"
    and "purge_tenant pe t st = (res, paths, st')"
  shows "res = CallPanics \<and> paths = [] \<and> rs_cache st' = rs_cache st \<and>
     map_option kv_file (hm_get (rg_heap (rs_kv st')) a) = Some (kv_file s)"
  using assms by (auto simp: purge_tenant_def registry_purge_def kv_clear_def kv_flush_if_persistent_def Let_def
      split: prod.splits)

theorem purge_panics_witness:
  "fst (purge_tenant
      \<lparr>pe_clear_kv = kv_clear plain_codec (on_thread ExecutorThread 0), pe_clear_cache = (\<lambda>s. (Returned (), s)),
       pe_abort = (\<lambda>s. s), pe_held_kv = (\<lambda>_. False), pe_held_cache = (\<lambda>_. False), pe_held_sched = (\<lambda>_. False),
       pe_env_var = (\<lambda>_. Some ''/data''), pe_rm = (\<lambda>_. Removed)\<rparr> ''acme''
      \<lparr>rs_kv = \<lparr>rg_map = [(''acme'', 0)],
         rg_heap = [(0, \<lparr>kv_data = [], kv_op_counter = 0, kv_persistence = True, kv_file = None\<rparr>)], rg_next = 1\<rparr>,
       rs_cache = \<lparr>rg_map = [], rg_heap = ([] :: (nat, unit) hashmap), rg_next = 0\<rparr>,
       rs_sched = \<lparr>rg_map = [], rg_heap = ([] :: (nat, unit) hashmap), rg_next = 0\<rparr>\<rparr>) = CallPanics"
proof -
  let ?s = "\<lparr>kv_data = [], kv_op_counter = 0, kv_persistence = True, kv_file = None\<rparr> :: bytes persisted_store kv_store"
  let ?st = "\<lparr>rs_kv = \<lparr>rg_map = [(''acme'', 0)], rg_heap = [(0, ?s)], rg_next = 1\<rparr>,
       rs_cache = \<lparr>rg_map = [], rg_heap = ([] :: (nat, unit) hashmap), rg_next = 0\<rparr>,
       rs_sched = \<lparr>rg_map = [], rg_heap = ([] :: (nat, unit) hashmap), rg_next = 0\<rparr>\<rparr>"
  let ?pe = "\<lparr>pe_clear_kv = kv_clear plain_codec (on_thread ExecutorThread 0), pe_clear_cache = (\<lambda>s. (Returned (), s)),
       pe_abort = (\<lambda>s. s), pe_held_kv = (\<lambda>_. False), pe_held_cache = (\<lambda>_. False), pe_held_sched = (\<lambda>_. False),
       pe_env_var = (\<lambda>_. Some ''/data''), pe_rm = (\<lambda>_. Removed)\<rparr>"
  have "is_safe_tenant_id ''acme''" by (simp add: is_safe_tenant_id_def is_ascii_alphanumeric_def)
  moreover have "hm_get (rg_map (rs_kv ?st)) ''acme'' = Some 0" "hm_get (rg_heap (rs_kv ?st)) 0 = Some ?s"
    by (simp_all add: hm_get_Cons)
  ultimately show ?thesis
    using purge_panics [of "''acme''" ?st 0 ?s ?pe plain_codec "on_thread ExecutorThread 0"]
    by (cases "purge_tenant ?pe ''acme'' ?st") (simp add: on_thread_def)
qed

section \<open>What the guest sees of its environment\<close>

text \<open>The WASI environment hides the variables whose name starts with a blocked prefix; the
  \<open>edge:cloud/process\<close> interface is built from the unfiltered map and shows all of them. The comment
  of \<open>build_wasi_ctx_for_tenant\<close> says that the worker has filtered that map.\<close>

lemma guest_env_exact:
  assumes "hm_wf env" and
    "with_env_and_meter_preview mk_kv mk_ca mk_sc env t app p None eg sm st = (r, st')"
  shows "hm_get (rt_wasi_env r) k = (if is_blocked_env_key k then None else hm_get env k)"
    and "process_get_env (rt_process r) k = hm_get env k"
proof -
  from assms(2) have r: "rt_wasi_env r = filter_env_vars env" "pr_env (rt_process r) = env"
    by (auto simp: with_env_and_meter_preview_def Let_def split_def build_wasi_env_def)
  show "hm_get (rt_wasi_env r) k = (if is_blocked_env_key k then None else hm_get env k)"
    using hm_get_filter [OF assms(1), of "\<lambda>k _. \<not> is_blocked_env_key k" k]
    by (auto simp: r filter_env_vars_def split: option.splits)
  show "process_get_env (rt_process r) k = hm_get env k" by (simp add: process_get_env_def r)
qed

text \<open>The filter matches prefixes only: a name that merely contains \<open>SECRET\<close> or \<open>API_KEY\<close> passes,
  where the comment reads \<open>*SECRET*\<close> and \<open>*API_KEY*\<close>.\<close>

lemma env_filter_is_prefix_only:
  "\<not> is_blocked_env_key ''MY_SECRET''" "\<not> is_blocked_env_key ''OPENAI_API_KEY''" "is_blocked_env_key ''SECRET_X''"
  by (simp_all add: is_blocked_env_key_def BLOCKED_ENV_PREFIXES_def starts_with_def)

text \<open>\<open>exit(0)\<close> cannot be told from not exiting.\<close>

lemma exit_zero_not_requested: "exit_requested (process_exit 0 p) = None"
  by (simp add: exit_requested_def process_exit_def)

section \<open>Counters\<close>

text \<open>Subtracting a snapshot leaves what was added since it was taken, whatever the counters were.\<close>

lemma subtract_snapshot:
  assumes "ms = meter_snapshot m"
    and "mt_count m' = mt_count m + dc" and "mt_outbound_bytes m' = mt_outbound_bytes m + db"
    and "mt_resident_seconds m' = mt_resident_seconds m + dr"
    and "mt_duration_ms m' = mt_duration_ms m + dd" and "mt_errors m' = mt_errors m + de"
  shows "let m'' = subtract_error_delta (ms_errors ms) (subtract_duration_ms (ms_duration_ms ms)
           (subtract_resident_seconds (ms_resident_seconds ms)
             (subtract_delta (ms_request_count ms) (ms_outbound_bytes ms) m')))
         in mt_count m'' = dc \<and> mt_outbound_bytes m'' = db \<and> mt_resident_seconds m'' = dr \<and>
            mt_duration_ms m'' = dd \<and> mt_errors m'' = de"
  using assms
  by (simp add: meter_snapshot_def subtract_delta_def subtract_resident_seconds_def
      subtract_duration_ms_def subtract_error_delta_def Let_def)

end
