(* ===== verification/Ingress_Heartbeats.thy ===== *)
theory Ingress_Heartbeats
  imports Ingress_Caches Ingress_Config
begin

text \<open>
  The heartbeat subscriber and the pruner (\<open>edge-ingress/src/heartbeats.rs\<close>): how a heartbeat of a
  worker changes the two routing tables and the port pool, and how stale routes leave them. The
  types of the message are those of \<open>edge-worker/src/messages.rs\<close>, which the ingress re-exports;
  the list \<open>observer_metrics\<close>, which the ingress never reads, is left out of \<open>app_status\<close>.

  The state the tasks of the ingress share is the record \<open>ingress\<close>. The relation \<open>ig_step\<close> is the
  interleaving of the tasks: each rule is one task handling one message or one tick. The pruner and
  the subscriber take the locks of the tables and of the pool one after the other; the relation
  does not split a tick between two of them. Its parameter \<open>cp\<close> is the assignment of public ports
  persisted by the control plane.

  A single reading \<open>now\<close> of the clock stands for the readings made while one heartbeat or one
  prune tick is processed.
\<close>

section \<open>Heartbeat messages\<close>

record app_status =
  as_deployment_id :: string
  as_status :: string
  as_exit_code :: "32 word option"
  as_request_count :: u64
  as_outbound_bytes :: u64
  as_tenant_id :: string
  as_protocol :: string
  as_port :: u16
  as_ws_port :: "u16 option"
  as_dedupe_id :: "string option"
  as_last_error :: "string option"
  as_resident_seconds :: "u64 option"
  as_duration_ms_total :: u64
  as_status_5xx_count :: u64

record heartbeat =
  hb_msg_type :: string
  hb_timestamp :: string
  hb_worker_id :: string
  hb_region :: string
  hb_worker_addr :: "string option"
  hb_tenant_id :: "string option"
  hb_apps :: "(string, app_status) hashmap"
  hb_port_pool_exhausted_count :: u64

section \<open>Applying a heartbeat\<close>

text \<open>The key of an app in the message is \<open>name\<close> or \<open>name:deployment\<close>.\<close>

definition split_app_key :: "string \<Rightarrow> string \<times> string option" where
  "split_app_key key =
     (case split_once (CHR '':'') key of
        Some (name, id') \<Rightarrow> (name, Some id')
      | None \<Rightarrow> (key, None))"

definition app_protocol :: "app_status \<Rightarrow> string" where
  "app_protocol app = (if as_protocol app = [] then ''http'' else as_protocol app)"

definition resolve_l4_port ::
  "instant \<Rightarrow> string \<Rightarrow> l4_port_cache \<Rightarrow> string \<Rightarrow> string \<Rightarrow> l4_routing_table \<Rightarrow> l4_port_pool
    \<Rightarrow> u16 option \<times> l4_port_pool" where
  "resolve_l4_port now worker_addr cache tenant_id app_name l4_table l4_ports =
     (let existing = (case l4_lookup l4_table tenant_id app_name of
                        Some e \<Rightarrow> if le_worker_addr e = worker_addr then Some e else None
                      | None \<Rightarrow> None)
      in case existing of
           Some entry \<Rightarrow> (Some (le_public_port entry), l4_ports)
         | None \<Rightarrow>
             (let cache_key = l4_app_key_new tenant_id app_name;
                  cached = (if lc_is_fresh now cache cache_key
                            then map_option cp_public_port (lc_get cache cache_key) else None)
              in case cached of
                   Some p \<Rightarrow> (Some p, l4_ports)
                 | None \<Rightarrow> lp_acquire now l4_ports))"

definition apply_tcp ::
  "instant \<Rightarrow> string \<Rightarrow> l4_port_cache \<Rightarrow> string \<Rightarrow> app_status
    \<Rightarrow> bool \<times> l4_routing_table \<times> l4_port_pool \<Rightarrow> bool \<times> l4_routing_table \<times> l4_port_pool" where
  "apply_tcp now worker_addr cache app_name app = (\<lambda>(changed, l4_table, l4_ports).
     case resolve_l4_port now worker_addr cache (as_tenant_id app) app_name l4_table l4_ports of
       (None, l4_ports') \<Rightarrow> (changed, l4_table, l4_ports')
     | (Some public_port, l4_ports') \<Rightarrow>
         (True, l4_upsert now (as_tenant_id app) app_name public_port worker_addr (as_port app)
                  (as_status app) l4_table, l4_ports'))"

definition apply_http ::
  "instant \<Rightarrow> string \<Rightarrow> string \<Rightarrow> string option \<Rightarrow> app_status \<Rightarrow> routing_table \<Rightarrow> routing_table" where
  "apply_http now worker_addr app_name deployment_id app table =
     (let table = rt_upsert now (as_tenant_id app) app_name deployment_id 100 worker_addr
                    (as_port app) (as_status app) table
      in case as_ws_port app of
           None \<Rightarrow> table
         | Some ws_port \<Rightarrow>
             rt_upsert now (as_tenant_id app) (app_name @ ''-ws'')
               (map_option (\<lambda>d. d @ ''-ws'') deployment_id) 100 worker_addr ws_port
               (as_status app) table)"

type_synonym hb_state = "bool \<times> routing_table \<times> l4_routing_table \<times> l4_port_pool"

definition apply_app ::
  "instant \<Rightarrow> string \<Rightarrow> l4_port_cache \<Rightarrow> string \<times> app_status \<Rightarrow> hb_state \<Rightarrow> hb_state" where
  "apply_app now worker_addr cache = (\<lambda>(key, app) (changed, table, l4_table, l4_ports).
     let (app_name, deployment_id) = split_app_key key
     in if app_protocol app = ''tcp''
        then (case apply_tcp now worker_addr cache app_name app (changed, l4_table, l4_ports) of
                (changed', l4_table', l4_ports') \<Rightarrow> (changed', table, l4_table', l4_ports'))
        else (True, apply_http now worker_addr app_name deployment_id app table,
              l4_table, l4_ports))"

text \<open>The final heartbeat of a worker: no apps.\<close>

definition release_worker_ports ::
  "instant \<Rightarrow> string \<Rightarrow> l4_route_entry list \<Rightarrow> l4_port_pool \<Rightarrow> l4_port_pool" where
  "release_worker_ports now worker_addr l4_before l4_ports =
     fold (\<lambda>entry p. if le_worker_addr entry = worker_addr
                     then lp_release now (le_public_port entry) p else p)
       l4_before l4_ports"

definition apply_heartbeat ::
  "instant \<Rightarrow> l4_port_cache \<Rightarrow> heartbeat \<Rightarrow> routing_table \<times> l4_routing_table \<times> l4_port_pool
    \<Rightarrow> hb_state" where
  "apply_heartbeat now cache hb = (\<lambda>(table, l4_table, l4_ports).
     let worker_addr = (case hb_worker_addr hb of Some a \<Rightarrow> a | None \<Rightarrow> [])
     in if worker_addr = [] then (False, table, l4_table, l4_ports)
        else if hb_apps hb = [] then
          (let l4_before = l4_snapshot l4_table;
               (removed_http, table) = rt_remove_worker worker_addr table;
               (removed_l4, l4_table) = l4_remove_worker worker_addr l4_table;
               l4_ports = release_worker_ports now worker_addr l4_before l4_ports
           in (removed_http \<noteq> [] \<or> removed_l4 \<noteq> [], table, l4_table, l4_ports))
        else fold (apply_app now worker_addr cache) (hb_apps hb)
               (False, table, l4_table, l4_ports))"

section \<open>The pruner\<close>

definition release_pruned_ports ::
  "instant \<Rightarrow> l4_app_key list \<Rightarrow> l4_route_entry list \<Rightarrow> l4_port_pool \<Rightarrow> l4_port_pool" where
  "release_pruned_ports now removed_l4 l4_before l4_ports =
     fold (\<lambda>entry p. if list_ex (\<lambda>k. lk_tenant_id k = le_tenant_id entry \<and>
                                     lk_app_name k = le_app_name entry) removed_l4
                     then lp_release now (le_public_port entry) p else p)
       l4_before l4_ports"

definition prune_tick ::
  "instant \<Rightarrow> config \<Rightarrow> routing_table \<times> l4_routing_table \<times> l4_port_pool \<Rightarrow> hb_state" where
  "prune_tick now cfg = (\<lambda>(table, l4_table, l4_ports).
     let (removed_http, table) = rt_remove_stale now (stale_timeout cfg) table;
         l4_snapshot_before = l4_snapshot l4_table;
         (removed_l4, l4_table) = l4_remove_stale now (stale_timeout cfg) l4_table;
         l4_ports = release_pruned_ports now removed_l4 l4_snapshot_before l4_ports
     in (removed_http \<noteq> [] \<or> removed_l4 \<noteq> [], table, l4_table, l4_ports))"

section \<open>The shared state and its tasks\<close>

record ingress =
  ig_table :: routing_table
  ig_l4_table :: l4_routing_table
  ig_l4_ports :: l4_port_pool
  ig_l4_cache :: l4_port_cache

definition ig_init :: "config \<Rightarrow> ingress" where
  "ig_init cfg =
     \<lparr>ig_table = rt_new, ig_l4_table = l4_new,
      ig_l4_ports = lp_new (l4_port_range_start cfg) (l4_port_range_end cfg) (l4_port_cooldown_secs cfg),
      ig_l4_cache = lc_new\<rparr>"

definition ig_put :: "hb_state \<Rightarrow> ingress \<Rightarrow> ingress" where
  "ig_put = (\<lambda>(_, table, l4_table, l4_ports) s.
     s\<lparr>ig_table := table, ig_l4_table := l4_table, ig_l4_ports := l4_ports\<rparr>)"

definition ig_heartbeat :: "instant \<Rightarrow> heartbeat \<Rightarrow> ingress \<Rightarrow> ingress" where
  "ig_heartbeat now hb s =
     ig_put (apply_heartbeat now (ig_l4_cache s) hb (ig_table s, ig_l4_table s, ig_l4_ports s)) s"

definition ig_prune :: "instant \<Rightarrow> config \<Rightarrow> ingress \<Rightarrow> ingress" where
  "ig_prune now cfg s = ig_put (prune_tick now cfg (ig_table s, ig_l4_table s, ig_l4_ports s)) s"

definition ig_fetch_ports :: "u16 http \<Rightarrow> instant \<Rightarrow> string \<Rightarrow> string option \<Rightarrow> ingress \<Rightarrow> ingress" where
  "ig_fetch_ports http now api_url token s =
     s\<lparr>ig_l4_cache := snd (lc_process_tick http now api_url (l4_snapshot (ig_l4_table s)) token
                             (ig_l4_cache s))\<rparr>"

definition ig_poll :: "domain list \<Rightarrow> ingress \<Rightarrow> ingress" where
  "ig_poll ds s = s\<lparr>ig_table := snd (apply_poll_snapshot ds (ig_table s))\<rparr>"

text \<open>The control plane answers a port request from its persisted assignment.\<close>

definition answers_from :: "(l4_app_key \<Rightarrow> u16 option) \<Rightarrow> u16 http \<Rightarrow> bool" where
  "answers_from cp http \<longleftrightarrow>
     (\<forall>url t a token port.
        fetch_l4_port http url t a token = Some port \<longrightarrow> cp (l4_app_key_new t a) = Some port)"

inductive ig_step :: "config \<Rightarrow> (l4_app_key \<Rightarrow> u16 option) \<Rightarrow> ingress \<Rightarrow> ingress \<Rightarrow> bool"
  for cfg :: config and cp :: "l4_app_key \<Rightarrow> u16 option" where
  heartbeat: "ig_step cfg cp s (ig_heartbeat now hb s)"
| prune: "ig_step cfg cp s (ig_prune now cfg s)"
| fetch_ports: "answers_from cp http \<Longrightarrow> ig_step cfg cp s (ig_fetch_ports http now url token s)"
| poll: "ig_step cfg cp s (ig_poll ds s)"

inductive ig_reachable :: "config \<Rightarrow> (l4_app_key \<Rightarrow> u16 option) \<Rightarrow> ingress \<Rightarrow> bool"
  for cfg :: config and cp :: "l4_app_key \<Rightarrow> u16 option" where
  init: "ig_reachable cfg cp (ig_init cfg)"
| step: "ig_reachable cfg cp s \<Longrightarrow> ig_step cfg cp s s' \<Longrightarrow> ig_reachable cfg cp s'"

section \<open>Public ports of the L4 table\<close>

text \<open>Every L4 route has a public port of its own: taken from the pool, or the one the control plane
  assigned to its app.\<close>

definition l4_hold :: "(l4_app_key \<Rightarrow> u16 option) \<Rightarrow> l4_route_entry set \<Rightarrow> l4_port_pool \<Rightarrow> bool" where
  "l4_hold cp = lp.hold_ok le_public_port (\<lambda>e. cp (l4_key e))"

definition l4_ext :: "(l4_app_key \<Rightarrow> u16 option) \<Rightarrow> l4_port_pool \<Rightarrow> bool" where
  "l4_ext cp = lp.ext_ok l4_key (\<lambda>e. cp (l4_key e))"

definition cache_from :: "(l4_app_key \<Rightarrow> u16 option) \<Rightarrow> l4_port_cache \<Rightarrow> bool" where
  "cache_from cp c \<longleftrightarrow> (\<forall>k e. lc_get c k = Some e \<longrightarrow> cp k = Some (cp_public_port e))"

definition cp_apart :: "config \<Rightarrow> (l4_app_key \<Rightarrow> u16 option) \<Rightarrow> bool" where
  "cp_apart cfg cp \<longleftrightarrow>
     (\<forall>k w. cp k = Some w \<longrightarrow> w \<notin> {l4_port_range_start cfg..l4_port_range_end cfg}) \<and>
     (\<forall>k k' w. cp k = Some w \<and> cp k' = Some w \<longrightarrow> k = k')"

lemma l4_ext_cp_apart:
  assumes "cp_apart cfg cp" and "lp_range p = {l4_port_range_start cfg..l4_port_range_end cfg}"
  shows "l4_ext cp p"
  using assms by (auto simp: cp_apart_def l4_ext_def lp.ext_ok_def)

lemma resolve_l4_port_cases:
  assumes "resolve_l4_port now addr cache tn a t p = (r, p')" and "cache_from cp cache"
  obtains (existing) e where "l4_get t (l4_app_key_new tn a) = Some e" and "le_worker_addr e = addr"
      and "r = Some (le_public_port e)" and "p' = p"
    | (cached) port where "cp (l4_app_key_new tn a) = Some port" and "r = Some port" and "p' = p"
    | (pool) "lp_acquire now p = (r, p')"
  using assms
  by (auto simp: resolve_l4_port_def l4_lookup_get cache_from_def Let_def
      split: option.splits if_splits)

lemma l4_hold_resolve:
  assumes "l4_inv t" and "l4_hold cp (set (l4_snapshot t)) p" and "l4_ext cp p"
    and "cache_from cp cache"
    and "resolve_l4_port now addr cache tn a t p = (Some q, p')"
    and e': "l4_key e' = l4_app_key_new tn a" "le_public_port e' = q"
  shows "l4_hold cp (insert e' {x \<in> set (l4_snapshot t). l4_key x \<noteq> l4_key e'}) p'"
  using assms(5,4)
proof (cases rule: resolve_l4_port_cases)
  case (existing e)
  from existing(1) assms(1) e' have e: "e \<in> set (l4_snapshot t)" "l4_key e = l4_key e'"
    using l4.lookup_key [OF assms(1) existing(1)] by (simp_all add: l4.snapshot_iff)
  with existing(3) assms(2) e' have "l4_hold cp (insert e' (set (l4_snapshot t) - {e})) p"
    unfolding l4_hold_def by (intro lp.hold_refresh) auto
  with existing(4) e(2) show ?thesis
    unfolding l4_hold_def by (auto elim!: lp.hold_subset)
next
  case (cached port)
  have "l4_hold cp {x \<in> set (l4_snapshot t). l4_key x \<noteq> l4_key e'} p"
    using assms(2) unfolding l4_hold_def by (auto elim!: lp.hold_subset)
  with cached assms(3) e' show ?thesis
    unfolding l4_hold_def l4_ext_def by (auto intro!: lp.hold_external)
next
  case pool
  with assms(2,3) e'(2) have "l4_hold cp (insert e' (set (l4_snapshot t))) p'"
    unfolding l4_hold_def l4_ext_def by (auto intro: lp.hold_acquire)
  then show ?thesis
    unfolding l4_hold_def by (auto elim!: lp.hold_subset)
qed

lemma resolve_l4_port_None:
  assumes "resolve_l4_port now addr cache tn a t p = (None, p')" and "l4_hold cp H p"
  shows "l4_hold cp H p'"
  using assms unfolding l4_hold_def
  by (auto simp: resolve_l4_port_def Let_def split: option.splits if_splits
      intro: lp.hold_acquire_None)

lemma resolve_l4_port_range:
  assumes "resolve_l4_port now addr cache tn a t p = (r, p')" and "lp_inv p"
  shows "lp_range p' = lp_range p"
  using assms lp.acquire_range [of p now]
  by (auto simp: resolve_l4_port_def Let_def split: option.splits if_splits)

lemma l4_key_entry [simp]:
  "l4_key (l4_entry now tn a q addr up) = l4_app_key_new tn a"
  "le_public_port (l4_entry now tn a q addr up) = q"
  by (simp_all add: l4_key_def l4_entry_def)

lemma apply_tcp_hold:
  assumes "apply_tcp now addr cache name app (ch, t, p) = (ch', t', p')"
    and "l4_inv t" and "l4_hold cp (set (l4_snapshot t)) p" and "l4_ext cp p"
    and "cache_from cp cache"
  shows "l4_inv t' \<and> l4_hold cp (set (l4_snapshot t')) p' \<and> lp_range p' = lp_range p"
proof -
  obtain r p1 where r: "resolve_l4_port now addr cache (as_tenant_id app) name t p = (r, p1)"
    by fastforce
  have "lp_inv p" using assms(3) by (simp add: l4_hold_def lp.hold_ok_def)
  note range = resolve_l4_port_range [OF r this]
  show ?thesis
  proof (cases r)
    case None
    with assms r range resolve_l4_port_None show ?thesis by (auto simp: apply_tcp_def)
  next
    case (Some q)
    from l4_hold_resolve [OF assms(2-5) r [unfolded Some],
        of "l4_entry now (as_tenant_id app) name q addr (as_port app)"]
    have "l4_hold cp (insert (l4_entry now (as_tenant_id app) name q addr (as_port app))
        {x \<in> set (l4_snapshot t). l4_key x \<noteq> l4_app_key_new (as_tenant_id app) name}) p1"
      by simp
    then show ?thesis
      using assms(1,2) r Some range unfolding l4_hold_def
      by (auto simp: apply_tcp_def l4_upsert_put l4.inv_upsert l4.snapshot_upsert
          elim!: lp.hold_subset split: if_splits)
  qed
qed

section \<open>The invariant of the shared state\<close>

definition core_inv ::
  "(l4_app_key \<Rightarrow> u16 option) \<Rightarrow> u16 set \<Rightarrow> routing_table \<Rightarrow> l4_routing_table \<Rightarrow> l4_port_pool \<Rightarrow> bool" where
  "core_inv cp R table l4_table l4_ports \<longleftrightarrow>
     rt_inv table \<and> l4_inv l4_table \<and> l4_hold cp (set (l4_snapshot l4_table)) l4_ports \<and>
     lp_range l4_ports = R"

lemma rt_inv_apply_http: "rt_inv rt \<Longrightarrow> rt_inv (apply_http now addr name did app rt)"
  by (auto simp: apply_http_def Let_def rt_inv_upsert split: option.split)

lemma apply_app_inv:
  assumes "apply_app now addr cache ka (ch, rt, t, p) = (ch', rt', t', p')"
    and "core_inv cp R rt t p" and "\<forall>p. lp_range p = R \<longrightarrow> l4_ext cp p" and "cache_from cp cache"
  shows "core_inv cp R rt' t' p'"
proof -
  obtain key app where ka: "ka = (key, app)" by (cases ka)
  obtain name did where nd: "split_app_key key = (name, did)" by fastforce
  obtain c1 t1 p1 where tcp: "apply_tcp now addr cache name app (ch, t, p) = (c1, t1, p1)"
    by (metis prod_cases3)
  show ?thesis
    using assms apply_tcp_hold [OF tcp, of cp] tcp
    by (auto simp: apply_app_def ka nd core_inv_def rt_inv_apply_http split: if_splits)
qed

lemma apply_apps_inv:
  assumes "\<forall>p. lp_range p = R \<longrightarrow> l4_ext cp p" and "cache_from cp cache"
  shows "fold (apply_app now addr cache) kas (ch, rt, t, p) = (ch', rt', t', p') \<Longrightarrow>
    core_inv cp R rt t p \<Longrightarrow> core_inv cp R rt' t' p'"
proof (induction kas arbitrary: ch rt t p)
  case (Cons ka kas)
  obtain c1 r1 t1 p1 where s: "apply_app now addr cache ka (ch, rt, t, p) = (c1, r1, t1, p1)"
    by (metis prod_cases4)
  with Cons apply_app_inv [OF s Cons.prems(2) assms] show ?case by simp
qed simp

lemma fold_if_filter: "fold (\<lambda>x s. if P x then f x s else s) xs s = fold f (filter P xs) s"
  by (induction xs arbitrary: s) auto

lemma release_worker_ports_fold:
  "release_worker_ports now addr es p =
     fold (lp_release now) (map le_public_port (filter (\<lambda>e. le_worker_addr e = addr) es)) p"
  by (simp add: release_worker_ports_def fold_if_filter fold_map o_def)

lemma release_pruned_ports_fold:
  "release_pruned_ports now ks es p =
     fold (lp_release now) (map le_public_port (filter (\<lambda>e. l4_key e \<in> set ks) es)) p"
proof -
  have "(lk_tenant_id k = le_tenant_id e \<and> lk_app_name k = le_app_name e) \<longleftrightarrow> k = l4_key e" for k e
    by (cases k) (auto simp: l4_key_def l4_app_key_new_def)
  then have "list_ex (\<lambda>k. lk_tenant_id k = le_tenant_id e \<and> lk_app_name k = le_app_name e) ks \<longleftrightarrow>
      l4_key e \<in> set ks" for e
    by (simp add: list_ex_iff)
  then show ?thesis
    by (simp add: release_pruned_ports_def fold_if_filter fold_map o_def)
qed

lemma l4_hold_release:
  assumes "l4_hold cp (set es) p" and "H = {e \<in> set es. \<not> P e}"
  shows "l4_hold cp H (fold (lp_release now) (map le_public_port (filter P es)) p)"
proof -
  from assms(1) have "inj_on le_public_port (set es)"
    by (simp add: l4_hold_def lp.hold_ok_def)
  with assms show ?thesis
    unfolding l4_hold_def by (intro lp.hold_release_all) (auto dest: inj_onD)
qed

lemma final_heartbeat_inv:
  assumes "core_inv cp R rt t p"
  shows "core_inv cp R (snd (rt_remove_worker addr rt)) (snd (l4_remove_worker addr t))
    (release_worker_ports now addr (l4_snapshot t) p)"
  using assms unfolding core_inv_def release_worker_ports_fold
  by (auto simp: http.inv_worker l4.inv_worker l4.snapshot_worker lp.range_release_all
      intro!: l4_hold_release)

lemma prune_tick_eq:
  "prune_tick now cfg (rt, t, p) =
     (let d = stale_timeout cfg
      in (fst (rt_remove_stale now d rt) \<noteq> [] \<or> fst (l4_remove_stale now d t) \<noteq> [],
          snd (rt_remove_stale now d rt), snd (l4_remove_stale now d t),
          release_pruned_ports now (fst (l4_remove_stale now d t)) (l4_snapshot t) p))"
  by (simp add: prune_tick_def Let_def case_prod_beta)

lemma apply_heartbeat_final:
  assumes "hb_worker_addr hb = Some addr" and "addr \<noteq> []" and "hb_apps hb = []"
  shows "apply_heartbeat now cache hb (rt, t, p) =
     (fst (rt_remove_worker addr rt) \<noteq> [] \<or> fst (l4_remove_worker addr t) \<noteq> [],
      snd (rt_remove_worker addr rt), snd (l4_remove_worker addr t),
      release_worker_ports now addr (l4_snapshot t) p)"
  using assms by (simp add: apply_heartbeat_def Let_def case_prod_beta)

lemma apply_heartbeat_apps:
  assumes "hb_worker_addr hb = Some addr" and "addr \<noteq> []" and "hb_apps hb \<noteq> []"
  shows "apply_heartbeat now cache hb (rt, t, p) =
     fold (apply_app now addr cache) (hb_apps hb) (False, rt, t, p)"
  using assms by (simp add: apply_heartbeat_def Let_def)

lemma prune_inv:
  assumes "core_inv cp R rt t p"
  shows "core_inv cp R (snd (rt_remove_stale now d rt)) (snd (l4_remove_stale now d t))
    (release_pruned_ports now (fst (l4_remove_stale now d t)) (l4_snapshot t) p)"
proof -
  have inv: "l4_inv t" using assms by (simp add: core_inv_def)
  have "{e \<in> set (l4_snapshot t). \<not> le_last_seen e < now - d} =
      {e \<in> set (l4_snapshot t). \<not> l4_key e \<in> set (fst (l4_remove_stale now d t))}"
    using inv l4.snapshot_key_inj [OF inv] by (auto simp: l4.keys_stale_snapshot)
  with assms show ?thesis
    unfolding core_inv_def release_pruned_ports_fold
    by (auto simp: http.inv_stale l4.inv_stale l4.snapshot_stale lp.range_release_all
        intro!: l4_hold_release)
qed

lemma apply_heartbeat_inv:
  assumes "apply_heartbeat now cache hb (rt, t, p) = (ch', rt', t', p')"
    and "core_inv cp R rt t p" and "\<forall>p. lp_range p = R \<longrightarrow> l4_ext cp p" and "cache_from cp cache"
  shows "core_inv cp R rt' t' p'"
  using assms final_heartbeat_inv [OF assms(2), of "the (hb_worker_addr hb)" now]
    apply_apps_inv [OF assms(3,4) _ assms(2), of now]
  by (auto simp: apply_heartbeat_def Let_def split: if_splits option.splits prod.splits)

definition ig_inv :: "config \<Rightarrow> (l4_app_key \<Rightarrow> u16 option) \<Rightarrow> ingress \<Rightarrow> bool" where
  "ig_inv cfg cp s \<longleftrightarrow>
     core_inv cp {l4_port_range_start cfg..l4_port_range_end cfg}
       (ig_table s) (ig_l4_table s) (ig_l4_ports s) \<and>
     cache_from cp (ig_l4_cache s)"

lemma ig_inv_init:
  assumes "config_ok cfg"
  shows "ig_inv cfg cp (ig_init cfg)"
  using assms lp_inv_new [of "l4_port_range_start cfg" "l4_port_range_end cfg"]
  by (auto simp: ig_inv_def ig_init_def core_inv_def config_ok_def l4_hold_def cache_from_def
      lc_new_def lc_get_def l4_snapshot_def l4_new_def hm_values_def lp_new_def lp_range_def
      intro!: lp.hold_empty l4_inv_new [unfolded l4_new_def])

lemma l4_app_key_eta: "l4_app_key_new (lk_tenant_id k) (lk_app_name k) = k"
  by (cases k) (simp add: l4_app_key_new_def)

lemma cache_from_tick:
  assumes "answers_from cp http" and "cache_from cp c"
  shows "cache_from cp (snd (lc_process_tick http now url es token c))"
proof -
  have ans: "cp k = Some port"
    if "fetch_l4_port http url (lk_tenant_id k) (lk_app_name k) token = Some port" for k port
    using assms(1) that l4_app_key_eta unfolding answers_from_def by metis
  have step: "cache_from cp (snd (lc_tick_step http now url token k (n, c)))"
    if "cache_from cp c" for k n c
    using that by (auto simp: cache_from_def lc.lookup_step lc_upd_def ans split: option.splits)
  have "cache_from cp (snd (fold (lc_tick_step http now url token) ks (n, c)))"
    if "cache_from cp c" for ks n
    using that
  proof (induction ks arbitrary: n c)
    case (Cons k ks)
    then show ?case
      using step [OF Cons.prems, of k n] by (metis fold_simps(2) prod.collapse)
  qed simp
  with assms(2) show ?thesis by (simp add: lc_process_tick_keys)
qed

lemma ig_inv_step:
  assumes "ig_step cfg cp s s'" and "ig_inv cfg cp s" and "cp_apart cfg cp"
  shows "ig_inv cfg cp s'"
proof -
  let ?R = "{l4_port_range_start cfg..l4_port_range_end cfg}"
  have ext: "\<forall>p. lp_range p = ?R \<longrightarrow> l4_ext cp p"
    using l4_ext_cp_apart [OF assms(3)] by blast
  from assms(1,2) show ?thesis
  proof cases
    case (heartbeat now hb)
    obtain ch rt t p where hb: "apply_heartbeat now (ig_l4_cache s) hb
        (ig_table s, ig_l4_table s, ig_l4_ports s) = (ch, rt, t, p)" by (metis prod_cases4)
    with heartbeat assms(2) apply_heartbeat_inv [OF hb _ ext] show ?thesis
      by (simp add: ig_inv_def ig_heartbeat_def ig_put_def)
  next
    case (prune now)
    with assms(2) prune_inv [of cp ?R "ig_table s" "ig_l4_table s" "ig_l4_ports s" now] show ?thesis
      by (simp add: ig_inv_def ig_prune_def ig_put_def prune_tick_eq Let_def)
  next
    case (fetch_ports http now url token)
    with assms(2) show ?thesis
      by (simp add: ig_inv_def ig_fetch_ports_def cache_from_tick)
  next
    case (poll ds)
    with assms(2) show ?thesis
      by (simp add: ig_inv_def ig_poll_def core_inv_def rt_inv_poll)
  qed
qed

lemma ig_inv_reachable:
  assumes "ig_reachable cfg cp s" and "config_ok cfg" and "cp_apart cfg cp"
  shows "ig_inv cfg cp s"
  using assms(1) by induction (auto intro: ig_inv_init [OF assms(2)] ig_inv_step [OF _ _ assms(3)])

section \<open>What a heartbeat touches\<close>

definition http_key :: "string \<times> app_status \<Rightarrow> app_key" where
  "http_key = (\<lambda>(key, app). case split_app_key key of (name, did) \<Rightarrow>
     \<lparr>ak_tenant_id = as_tenant_id app, ak_app_name = name, ak_deployment_id = did\<rparr>)"

definition ws_key :: "string \<times> app_status \<Rightarrow> app_key" where
  "ws_key = (\<lambda>(key, app). case split_app_key key of (name, did) \<Rightarrow>
     \<lparr>ak_tenant_id = as_tenant_id app, ak_app_name = name @ ''-ws'',
      ak_deployment_id = map_option (\<lambda>d. d @ ''-ws'') did\<rparr>)"

definition http_touches :: "string \<times> app_status \<Rightarrow> app_key set" where
  "http_touches ka =
     (if app_protocol (snd ka) = ''tcp'' then {}
      else insert (http_key ka) (if as_ws_port (snd ka) = None then {} else {ws_key ka}))"

definition l4_touches :: "string \<times> app_status \<Rightarrow> l4_app_key set" where
  "l4_touches ka =
     (if app_protocol (snd ka) = ''tcp''
      then {l4_app_key_new (as_tenant_id (snd ka)) (fst (split_app_key (fst ka)))} else {})"

definition hb_table :: "hb_state \<Rightarrow> routing_table" where
  "hb_table = (\<lambda>(_, rt, _, _). rt)"

definition hb_l4_table :: "hb_state \<Rightarrow> l4_routing_table" where
  "hb_l4_table = (\<lambda>(_, _, t, _). t)"

definition hb_pool :: "hb_state \<Rightarrow> l4_port_pool" where
  "hb_pool = (\<lambda>(_, _, _, p). p)"

lemmas hb_sels = hb_table_def hb_l4_table_def hb_pool_def

lemma entry_key_upsert [simp]:
  "entry_key (upsert_entry now tn a did w addr port st) =
     \<lparr>ak_tenant_id = tn, ak_app_name = a, ak_deployment_id = did\<rparr>"
  by (simp add: entry_key_def upsert_entry_def)

lemma hb_table_apply_app:
  "hb_table (apply_app now addr cache (key, app) s) =
     (if app_protocol app = ''tcp'' then hb_table s
      else apply_http now addr (fst (split_app_key key)) (snd (split_app_key key)) app (hb_table s))"
  by (auto simp: apply_app_def hb_table_def split: prod.splits)

lemma rt_lookup_apply_http:
  assumes "rt_inv rt"
  shows "rt_lookup (apply_http now addr name did app rt) k =
     (if k = \<lparr>ak_tenant_id = as_tenant_id app, ak_app_name = name, ak_deployment_id = did\<rparr>
      then if routable (as_status app)
           then Some (upsert_entry now (as_tenant_id app) name did 100 addr (as_port app) (as_status app))
           else None
      else case as_ws_port app of
          None \<Rightarrow> rt_lookup rt k
        | Some wp \<Rightarrow>
            if k = \<lparr>ak_tenant_id = as_tenant_id app, ak_app_name = name @ ''-ws'',
                    ak_deployment_id = map_option (\<lambda>d. d @ ''-ws'') did\<rparr>
            then if routable (as_status app)
                 then Some (upsert_entry now (as_tenant_id app) (name @ ''-ws'')
                        (map_option (\<lambda>d. d @ ''-ws'') did) 100 addr wp (as_status app))
                 else None
            else rt_lookup rt k)"
  using assms
  by (auto simp: apply_http_def Let_def rt_upsert_put http.lookup_upsert http.inv_upsert
      split: option.split)

lemma rt_inv_apply_app:
  "rt_inv (hb_table s) \<Longrightarrow> rt_inv (hb_table (apply_app now addr cache ka s))"
  by (cases ka) (simp add: hb_table_apply_app rt_inv_apply_http)

lemma rt_inv_apply_apps:
  "rt_inv (hb_table s) \<Longrightarrow> rt_inv (hb_table (fold (apply_app now addr cache) kas s))"
  by (induction kas arbitrary: s) (simp_all add: rt_inv_apply_app)

lemma apply_app_http_frame:
  assumes "rt_inv (hb_table s)" and "k \<notin> http_touches ka"
  shows "rt_lookup (hb_table (apply_app now addr cache ka s)) k = rt_lookup (hb_table s) k"
  using assms
  by (cases ka)
    (auto simp: hb_table_apply_app rt_lookup_apply_http http_touches_def http_key_def ws_key_def
      split: option.splits if_splits prod.splits)

lemma apply_apps_http_frame:
  "rt_inv (hb_table s) \<Longrightarrow> (\<forall>ka \<in> set kas. k \<notin> http_touches ka) \<Longrightarrow>
   rt_lookup (hb_table (fold (apply_app now addr cache) kas s)) k = rt_lookup (hb_table s) k"
  by (induction kas arbitrary: s) (simp_all add: rt_inv_apply_app apply_app_http_frame)

lemma apply_tcp_l4:
  assumes "l4_inv t" and "apply_tcp now addr cache name app (ch, t, p) = (ch', t', p')"
  shows "l4_inv t' \<and> (\<forall>k. k \<noteq> l4_app_key_new (as_tenant_id app) name \<longrightarrow> l4_get t' k = l4_get t k)"
  using assms
  by (auto simp: apply_tcp_def l4_upsert_put l4.lookup_upsert l4.inv_upsert
      split: option.splits prod.splits)

lemma apply_app_l4_frame:
  assumes "l4_inv (hb_l4_table s)"
  shows "l4_inv (hb_l4_table (apply_app now addr cache ka s)) \<and>
    (\<forall>k. k \<notin> l4_touches ka \<longrightarrow>
       l4_get (hb_l4_table (apply_app now addr cache ka s)) k = l4_get (hb_l4_table s) k)"
proof -
  obtain key app where ka: "ka = (key, app)" by (cases ka)
  obtain ch rt t p where s: "s = (ch, rt, t, p)" by (metis prod_cases4)
  obtain name did where nd: "split_app_key key = (name, did)" by fastforce
  obtain c1 t1 p1 where tcp: "apply_tcp now addr cache name app (ch, t, p) = (c1, t1, p1)"
    by (metis prod_cases3)
  from assms apply_tcp_l4 [OF _ tcp] show ?thesis
    by (auto simp: ka s nd apply_app_def tcp hb_l4_table_def l4_touches_def)
qed

lemma apply_apps_l4_frame:
  "l4_inv (hb_l4_table s) \<Longrightarrow> (\<forall>ka \<in> set kas. k \<notin> l4_touches ka) \<Longrightarrow>
   l4_get (hb_l4_table (fold (apply_app now addr cache) kas s)) k = l4_get (hb_l4_table s) k"
  by (induction kas arbitrary: s) (simp_all add: apply_app_l4_frame)

section \<open>Properties\<close>

lemma distinct_l4_snapshot:
  assumes "l4_inv t"
  shows "distinct (l4_snapshot t)"
proof -
  have "map fst (l4_by_app t) = map l4_key (l4_snapshot t)"
    using assms by (auto simp: l4_inv_def l4_snapshot_def hm_values_def hm_in_iff_get [symmetric])
  with assms show ?thesis
    by (metis distinct_map hm_wf_def l4_inv_def)
qed

text \<open>Sample messages for the witnesses.\<close>

definition sample_app :: "string \<Rightarrow> string \<Rightarrow> u16 \<Rightarrow> string \<Rightarrow> app_status" where
  "sample_app tenant proto port status =
     \<lparr>as_deployment_id = ''d1'', as_status = status, as_exit_code = None, as_request_count = 0,
      as_outbound_bytes = 0, as_tenant_id = tenant, as_protocol = proto, as_port = port,
      as_ws_port = None, as_dedupe_id = None, as_last_error = None, as_resident_seconds = None,
      as_duration_ms_total = 0, as_status_5xx_count = 0\<rparr>"

definition sample_hb :: "string \<Rightarrow> (string \<times> app_status) list \<Rightarrow> heartbeat" where
  "sample_hb addr apps =
     \<lparr>hb_msg_type = ''heartbeat'', hb_timestamp = ''2026-01-01T00:00:00Z'', hb_worker_id = ''w1'',
      hb_region = ''eu'', hb_worker_addr = Some addr, hb_tenant_id = None, hb_apps = apps,
      hb_port_pool_exhausted_count = 0\<rparr>"

definition sample_config :: config where
  "sample_config = config_of_env (\<lambda>_. None) (\<lambda>_. None) ''eu'' ''cert.pem'' ''key.pem'' 31000 31001"

lemma sample_config_ok: "config_ok sample_config"
  using domain_poll_interval_pos
  by (simp add: config_ok_def sample_config_def env_or_def)

lemma sample_sel [simp]:
  "hb_worker_addr (sample_hb addr apps) = Some addr" "hb_apps (sample_hb addr apps) = apps"
  "as_status (sample_app t pr po st) = st" "as_tenant_id (sample_app t pr po st) = t"
  "as_port (sample_app t pr po st) = po" "as_ws_port (sample_app t pr po st) = None"
  "app_protocol (sample_app t pr po st) = (if pr = [] then ''http'' else pr)"
  by (simp_all add: sample_hb_def sample_app_def app_protocol_def)

text \<open>Claim C5 (no two L4 routes share a public port). In every state the tasks of the ingress can
  reach, in any interleaving, the public ports of the L4 table are pairwise different and each is
  taken from the pool or is the port the control plane assigned to that app - provided the control
  plane assigns different ports to different apps and none out of the range the ingress hands out
  itself. The condition holds in particular when no port is assigned centrally. It is one on the
  deployment: the ingress does not check it, and a control plane configured with the same range as
  the ingress breaks it.\<close>

theorem l4_public_ports_distinct:
  assumes "ig_reachable cfg cp s" and "config_ok cfg" and "cp_apart cfg cp"
  shows "distinct (map le_public_port (l4_snapshot (ig_l4_table s))) \<and>
    (\<forall>e \<in> set (l4_snapshot (ig_l4_table s)).
       le_public_port e \<in> lp_taken (ig_l4_ports s) \<or> cp (l4_key e) = Some (le_public_port e)) \<and>
    rt_inv (ig_table s) \<and> l4_inv (ig_l4_table s) \<and> lp_inv (ig_l4_ports s)"
  using ig_inv_reachable [OF assms]
  by (auto simp: ig_inv_def core_inv_def l4_hold_def lp.hold_ok_def distinct_map distinct_l4_snapshot)

lemmas hb_eval = ig_heartbeat_def ig_put_def apply_heartbeat_def apply_app_def apply_tcp_def
  apply_http_def resolve_l4_port_def split_app_key_def l4_lookup_def lc_is_fresh_def lc_get_def
  l4_upsert_def l4_app_key_new_def Let_def hm_get_Cons

theorem l4_public_ports_distinct_witness:
  "distinct (map le_public_port (l4_snapshot (ig_l4_table
     (ig_heartbeat 7 (sample_hb ''10.0.0.5'' [(''db'', sample_app ''t_a'' ''tcp'' 9000 ''running''),
                                              (''mq'', sample_app ''t_a'' ''tcp'' 9001 ''running'')])
        (ig_init sample_config)))))"
proof -
  let ?s = "ig_heartbeat 7 (sample_hb ''10.0.0.5''
      [(''db'', sample_app ''t_a'' ''tcp'' 9000 ''running''),
       (''mq'', sample_app ''t_a'' ''tcp'' 9001 ''running'')]) (ig_init sample_config)"
  have "ig_reachable sample_config (\<lambda>_. None) ?s"
    by (rule ig_reachable.step [OF ig_reachable.init ig_step.heartbeat])
  moreover have "cp_apart sample_config (\<lambda>_. None)" by (simp add: cp_apart_def)
  ultimately show ?thesis
    using l4_public_ports_distinct sample_config_ok by blast
qed

text \<open>A heartbeat changes only the routes it names. Whatever the message, the HTTP routes
  and the L4 routes whose keys no app of the message has stay as they were.\<close>

theorem heartbeat_frame:
  assumes "hb_worker_addr hb = Some addr" and "addr \<noteq> []" and "hb_apps hb \<noteq> []"
    and "rt_inv rt" and "l4_inv t"
  shows "(\<forall>k. (\<forall>ka \<in> set (hb_apps hb). k \<notin> http_touches ka) \<longrightarrow>
       rt_lookup (hb_table (apply_heartbeat now cache hb (rt, t, p))) k = rt_lookup rt k) \<and>
    (\<forall>k. (\<forall>ka \<in> set (hb_apps hb). k \<notin> l4_touches ka) \<longrightarrow>
       l4_get (hb_l4_table (apply_heartbeat now cache hb (rt, t, p))) k = l4_get t k)"
  using assms
    apply_apps_http_frame [of "(False, rt, t, p)" "hb_apps hb" _ now addr cache]
    apply_apps_l4_frame [of "(False, rt, t, p)" "hb_apps hb" _ now addr cache]
  by (simp add: apply_heartbeat_apps hb_sels)

theorem heartbeat_frame_witness:
  "rt_lookup (hb_table (apply_heartbeat 9 lc_new
       (sample_hb ''10.0.0.5'' [(''web:d1'', sample_app ''t_a'' [] 8080 ''crashed'')])
       (rt_upsert 3 ''t_b'' ''web'' (Some ''d1'') 100 ''10.0.0.5'' 8081 ''running'' rt_new, l4_new,
        lp_new 31000 31001 60)))
     \<lparr>ak_tenant_id = ''t_b'', ak_app_name = ''web'', ak_deployment_id = Some ''d1''\<rparr> =
   Some (upsert_entry 3 ''t_b'' ''web'' (Some ''d1'') 100 ''10.0.0.5'' 8081 ''running'')"
  using heartbeat_frame [of "sample_hb ''10.0.0.5'' [(''web:d1'', sample_app ''t_a'' [] 8080 ''crashed'')]"
      "''10.0.0.5''"
      "rt_upsert 3 ''t_b'' ''web'' (Some ''d1'') 100 ''10.0.0.5'' 8081 ''running'' rt_new" l4_new
      9 lc_new "lp_new 31000 31001 60"]
  by (simp add: http.inv_upsert http_touches_def http_key_def split_app_key_def rt_upsert_put
      http.lookup_upsert routable_def)

lemma heartbeat_route_lookup:
  assumes "hb_worker_addr hb = Some addr" and "addr \<noteq> []"
    and "hb_apps hb = before @ (key, app) # later" and "split_app_key key = (name, did)"
    and "app_protocol app \<noteq> ''tcp''" and "\<forall>ka \<in> set later. http_key (key, app) \<notin> http_touches ka"
    and "rt_inv rt"
  shows "rt_lookup (hb_table (apply_heartbeat now cache hb (rt, t, p)))
      \<lparr>ak_tenant_id = as_tenant_id app, ak_app_name = name, ak_deployment_id = did\<rparr> =
    (if routable (as_status app)
     then Some (upsert_entry now (as_tenant_id app) name did 100 addr (as_port app) (as_status app))
     else None)"
proof -
  let ?s = "fold (apply_app now addr cache) before (False, rt, t, p)"
  let ?s' = "apply_app now addr cache (key, app) ?s"
  have inv: "rt_inv (hb_table ?s)"
    using assms(7) by (intro rt_inv_apply_apps) (simp add: hb_table_def)
  have key: "http_key (key, app) =
      \<lparr>ak_tenant_id = as_tenant_id app, ak_app_name = name, ak_deployment_id = did\<rparr>"
    using assms(4) by (simp add: http_key_def)
  have "rt_lookup (hb_table (fold (apply_app now addr cache) later ?s')) (http_key (key, app)) =
      rt_lookup (hb_table ?s') (http_key (key, app))"
    using assms(6) by (intro apply_apps_http_frame rt_inv_apply_app inv)
  also have "\<dots> = (if routable (as_status app)
     then Some (upsert_entry now (as_tenant_id app) name did 100 addr (as_port app) (as_status app))
     else None)"
    using assms(4,5) inv by (simp add: key hb_table_apply_app rt_lookup_apply_http)
  finally show ?thesis
    using assms(1-3) by (simp add: apply_heartbeat_apps key)
qed

text \<open>The last word of a heartbeat on a route. For an HTTP app of the message whose key no
  later app of the message names again, the table afterwards has exactly the reported route - worker
  address, port, weight 100 or 0 when draining, the current time - when the app is running or
  draining, and no route under that key otherwise.\<close>

theorem heartbeat_sets_route:
  assumes "hb_worker_addr hb = Some addr" and "addr \<noteq> []"
    and "hb_apps hb = before @ (key, app) # later" and "split_app_key key = (name, did)"
    and "app_protocol app \<noteq> ''tcp''" and "\<forall>ka \<in> set later. http_key (key, app) \<notin> http_touches ka"
    and "rt_inv rt"
  shows "rt_lookup (hb_table (apply_heartbeat now cache hb (rt, t, p)))
      \<lparr>ak_tenant_id = as_tenant_id app, ak_app_name = name, ak_deployment_id = did\<rparr> =
    (if routable (as_status app)
     then Some (upsert_entry now (as_tenant_id app) name did 100 addr (as_port app) (as_status app))
     else None)"
  by (rule heartbeat_route_lookup [OF assms])

theorem heartbeat_sets_route_witness:
  "rt_lookup (hb_table (apply_heartbeat 9 lc_new
       (sample_hb ''10.0.0.5'' [(''web:d1'', sample_app ''t_a'' [] 8080 ''running''),
                                (''web:d2'', sample_app ''t_a'' [] 8081 ''draining'')])
       (rt_new, l4_new, lp_new 31000 31001 60)))
     \<lparr>ak_tenant_id = ''t_a'', ak_app_name = ''web'', ak_deployment_id = Some ''d1''\<rparr> =
   Some (upsert_entry 9 ''t_a'' ''web'' (Some ''d1'') 100 ''10.0.0.5'' 8080 ''running'')"
  using heartbeat_sets_route [of "sample_hb ''10.0.0.5''
        [(''web:d1'', sample_app ''t_a'' [] 8080 ''running''),
         (''web:d2'', sample_app ''t_a'' [] 8081 ''draining'')]" "''10.0.0.5''" "[]" "''web:d1''"
      "sample_app ''t_a'' [] 8080 ''running''" "[(''web:d2'', sample_app ''t_a'' [] 8081 ''draining'')]"
      "''web''" "Some ''d1''" rt_new 9 lc_new l4_new "lp_new 31000 31001 60"]
  by (simp add: http_touches_def http_key_def split_app_key_def routable_def)

text \<open>The final heartbeat of a worker. A message without apps removes exactly the routes
  of its worker from both tables, returns exactly the public ports of those L4 routes to the pool,
  and asks for a reload iff it removed something.\<close>

theorem final_heartbeat_exact:
  assumes "hb_worker_addr hb = Some addr" and "addr \<noteq> []" and "hb_apps hb = []"
    and "rt_inv rt" and "l4_inv t" and "lp_inv p"
    and "apply_heartbeat now cache hb (rt, t, p) = (changed, rt', t', p')"
  shows "set (rt_snapshot rt') = {e \<in> set (rt_snapshot rt). re_worker_addr e \<noteq> addr} \<and>
    set (l4_snapshot t') = {e \<in> set (l4_snapshot t). le_worker_addr e \<noteq> addr} \<and>
    lp_taken p' = lp_taken p - le_public_port ` {e \<in> set (l4_snapshot t). le_worker_addr e = addr} \<and>
    by_fqdn rt' = by_fqdn rt \<and>
    (changed \<longleftrightarrow> (\<exists>e \<in> set (rt_snapshot rt). re_worker_addr e = addr) \<or>
                  (\<exists>e \<in> set (l4_snapshot t). le_worker_addr e = addr))"
proof -
  have "fst (rt_remove_worker addr rt) \<noteq> [] \<longleftrightarrow> (\<exists>e \<in> set (rt_snapshot rt). re_worker_addr e = addr)"
    using http.keys_worker_snapshot [OF assms(4), of addr]
    by (metis (mono_tags, lifting) Collect_empty_eq image_is_empty set_empty)
  moreover have "fst (l4_remove_worker addr t) \<noteq> [] \<longleftrightarrow>
      (\<exists>e \<in> set (l4_snapshot t). le_worker_addr e = addr)"
    using l4.keys_worker_snapshot [OF assms(5), of addr]
    by (metis (mono_tags, lifting) Collect_empty_eq image_is_empty set_empty)
  ultimately show ?thesis
    using assms(7) unfolding apply_heartbeat_final [OF assms(1-3)]
    by (auto simp: http.snapshot_worker [OF assms(4)] l4.snapshot_worker [OF assms(5)]
        release_worker_ports_fold lp.taken_release_all [OF assms(6)] by_app_worker)
qed

theorem final_heartbeat_exact_witness:
  "set (rt_snapshot (hb_table (apply_heartbeat 9 lc_new (sample_hb ''10.0.0.5'' [])
      (rt_upsert 3 ''t_b'' ''web'' None 100 ''10.0.0.5'' 8081 ''running'' rt_new, l4_new,
       lp_new 31000 31001 60)))) = {}"
proof -
  let ?rt = "rt_upsert 3 ''t_b'' ''web'' None 100 ''10.0.0.5'' 8081 ''running'' rt_new"
  obtain ch rt' t' p' where eq: "apply_heartbeat 9 lc_new (sample_hb ''10.0.0.5'' [])
      (?rt, l4_new, lp_new 31000 31001 60) = (ch, rt', t', p')" by (metis prod_cases4)
  have "set (rt_snapshot rt') = {e \<in> set (rt_snapshot ?rt). re_worker_addr e \<noteq> ''10.0.0.5''}"
    by (rule final_heartbeat_exact [OF _ _ _ _ _ _ eq, THEN conjunct1])
      (simp_all add: rt_inv_upsert lp_inv_new)
  also have "\<dots> = {}"
    by (simp add: rt_upsert_put http.snapshot_upsert routable_def upsert_entry_def)
      (simp add: rt_snapshot_def rt_new_def hm_values_def)
  finally show ?thesis unfolding eq by (simp add: hb_table_def)
qed

text \<open>The pruner. A prune tick keeps exactly the routes seen within the stale timeout in
  both tables, returns exactly the public ports of the L4 routes it removed, and asks for a reload
  iff it removed something.\<close>

theorem prune_tick_exact:
  assumes "rt_inv rt" and "l4_inv t" and "lp_inv p"
    and "prune_tick now cfg (rt, t, p) = (changed, rt', t', p')"
  shows "set (rt_snapshot rt') =
      {e \<in> set (rt_snapshot rt). \<not> re_last_seen e < now - stale_timeout cfg} \<and>
    set (l4_snapshot t') = {e \<in> set (l4_snapshot t). \<not> le_last_seen e < now - stale_timeout cfg} \<and>
    lp_taken p' = lp_taken p - le_public_port `
      {e \<in> set (l4_snapshot t). le_last_seen e < now - stale_timeout cfg} \<and>
    (changed \<longleftrightarrow> (\<exists>e \<in> set (rt_snapshot rt). re_last_seen e < now - stale_timeout cfg) \<or>
                  (\<exists>e \<in> set (l4_snapshot t). le_last_seen e < now - stale_timeout cfg))"
proof -
  let ?d = "stale_timeout cfg"
  have "fst (rt_remove_stale now ?d rt) \<noteq> [] \<longleftrightarrow>
      (\<exists>e \<in> set (rt_snapshot rt). re_last_seen e < now - ?d)"
    using http.keys_stale_snapshot [OF assms(1), of now ?d]
    by (metis (mono_tags, lifting) Collect_empty_eq image_is_empty set_empty)
  moreover have "fst (l4_remove_stale now ?d t) \<noteq> [] \<longleftrightarrow>
      (\<exists>e \<in> set (l4_snapshot t). le_last_seen e < now - ?d)"
    using l4.keys_stale_snapshot [OF assms(2), of now ?d]
    by (metis (mono_tags, lifting) Collect_empty_eq image_is_empty set_empty)
  moreover have "{e \<in> set (l4_snapshot t). l4_key e \<in> set (fst (l4_remove_stale now ?d t))} =
      {e \<in> set (l4_snapshot t). le_last_seen e < now - ?d}"
    using l4.snapshot_key_inj [OF assms(2)] by (auto simp: l4.keys_stale_snapshot [OF assms(2)])
  then have "lp_taken (release_pruned_ports now (fst (l4_remove_stale now ?d t)) (l4_snapshot t) p) =
      lp_taken p - le_public_port ` {e \<in> set (l4_snapshot t). le_last_seen e < now - ?d}"
    by (simp add: release_pruned_ports_fold lp.taken_release_all [OF assms(3)])
  ultimately show ?thesis
    using assms(4) http.snapshot_stale [OF assms(1), of now ?d] l4.snapshot_stale [OF assms(2), of now ?d]
    unfolding prune_tick_eq Let_def by (elim Pair_inject) simp
qed

theorem prune_tick_exact_witness:
  "fst (prune_tick (secs 100) sample_config
      (rt_upsert (secs 5) ''t_b'' ''web'' None 100 ''10.0.0.5'' 8081 ''running'' rt_new, l4_new,
       lp_new 31000 31001 60))"
proof -
  let ?rt = "rt_upsert (secs 5) ''t_b'' ''web'' None 100 ''10.0.0.5'' 8081 ''running'' rt_new"
  obtain ch rt' t' p' where eq: "prune_tick (secs 100) sample_config
      (?rt, l4_new, lp_new 31000 31001 60) = (ch, rt', t', p')" by (metis prod_cases4)
  have "ch \<longleftrightarrow>
      (\<exists>e \<in> set (rt_snapshot ?rt). re_last_seen e < secs 100 - stale_timeout sample_config) \<or>
      (\<exists>e \<in> set (l4_snapshot l4_new). le_last_seen e < secs 100 - stale_timeout sample_config)"
    by (rule prune_tick_exact [OF _ _ _ eq, THEN conjunct2, THEN conjunct2, THEN conjunct2])
      (simp_all add: rt_inv_upsert lp_inv_new)
  moreover have "stale_timeout sample_config = secs 60"
    by (simp add: sample_config_def config_of_env_def env_duration_def)
  ultimately have ch
    by (simp add: rt_upsert_put http.snapshot_upsert routable_def upsert_entry_def)
  then show ?thesis unfolding eq by simp
qed

subsection \<open>Ports the heartbeat path loses or hands out twice\<close>

text \<open>A heartbeat with one TCP app that finds no usable port in the table or in the cache.\<close>

lemma single_tcp_heartbeat:
  assumes "hb_worker_addr hb = Some addr" and "addr \<noteq> []" and "hb_apps hb = [(key, app)]"
    and "app_protocol app = ''tcp''" and "fst (split_app_key key) = name"
    and "case l4_get t (l4_app_key_new (as_tenant_id app) name) of
           Some e \<Rightarrow> le_worker_addr e \<noteq> addr | None \<Rightarrow> True"
    and "\<not> lc_is_fresh now cache (l4_app_key_new (as_tenant_id app) name)"
    and "lp_acquire now p = (Some q, p')"
  shows "apply_heartbeat now cache hb (rt, t, p) =
    (True, rt, l4_put (routable (as_status app))
       (l4_entry now (as_tenant_id app) name q addr (as_port app)) t, p')"
  using assms
  by (auto simp: apply_heartbeat_apps apply_app_def apply_tcp_def resolve_l4_port_def Let_def
      l4_lookup_get l4_upsert_put routable_def split: option.splits prod.splits)

text \<open>A crashed TCP app costs a port. When a worker reports a TCP app that is neither
  running nor draining and has no L4 route, the heartbeat takes a fresh public port from the pool,
  installs no route for it, and does not give the port back: it stays taken although no entry of
  the table uses it.\<close>

theorem crashed_tcp_app_leaks_port:
  assumes "hb_worker_addr hb = Some addr" and "addr \<noteq> []" and "hb_apps hb = [(key, app)]"
    and "app_protocol app = ''tcp''" and "fst (split_app_key key) = name"
    and "\<not> routable (as_status app)"
    and "l4_inv t" and "l4_get t (l4_app_key_new (as_tenant_id app) name) = None"
    and "\<not> lc_is_fresh now cache (l4_app_key_new (as_tenant_id app) name)"
    and "lp_inv p" and "lp_acquire now p = (Some q, p1)"
    and "le_public_port ` set (l4_snapshot t) \<subseteq> lp_taken p"
    and "apply_heartbeat now cache hb (rt, t, p) = (changed, rt', t', p')"
  shows "set (l4_snapshot t') = set (l4_snapshot t) \<and> lp_taken p' = insert q (lp_taken p) \<and>
    q \<notin> le_public_port ` set (l4_snapshot t')"
proof -
  have t': "t' = l4_put False (l4_entry now (as_tenant_id app) name q addr (as_port app)) t"
    and p': "p' = p1"
    using assms(13) single_tcp_heartbeat [OF assms(1-5) _ assms(9,11), of t rt] assms(6,8) by auto
  have "x \<in> set (l4_snapshot t) \<Longrightarrow> l4_key x \<noteq> l4_app_key_new (as_tenant_id app) name" for x
    using assms(7,8) by (auto simp: l4.snapshot_iff)
  then have "set (l4_snapshot t') = set (l4_snapshot t)"
    by (auto simp: t' l4.snapshot_upsert [OF assms(7)])
  moreover have "q \<notin> lp_taken p \<and> lp_taken p1 = insert q (lp_taken p)"
    using lp.acquire_Some [OF assms(10,11)] by blast
  ultimately show ?thesis
    using assms(12) p' by auto
qed

theorem crashed_tcp_app_leaks_port_witness:
  "lp_taken (hb_pool (apply_heartbeat 9 lc_new
      (sample_hb ''10.0.0.5'' [(''db'', sample_app ''t_a'' ''tcp'' 9000 ''crashed'')])
      (rt_new, l4_new, lp_new 31000 31001 60))) = {31000}"
proof -
  obtain ch rt' t' p' where eq: "apply_heartbeat 9 lc_new
      (sample_hb ''10.0.0.5'' [(''db'', sample_app ''t_a'' ''tcp'' 9000 ''crashed'')])
      (rt_new, l4_new, lp_new 31000 31001 60) = (ch, rt', t', p')" by (metis prod_cases4)
  obtain p1 where acq: "lp_acquire 9 (lp_new 31000 31001 60) = (Some 31000, p1)"
    by (simp add: lp_eval)
  have "lp_taken p' = insert 31000 (lp_taken (lp_new 31000 31001 60))"
    by (rule crashed_tcp_app_leaks_port [OF _ _ _ _ _ _ _ _ _ _ acq _ eq, where addr = "''10.0.0.5''"
          and key = "''db''" and app = "sample_app ''t_a'' ''tcp'' 9000 ''crashed''" and name = "''db''",
          THEN conjunct2, THEN conjunct1])
      (simp_all add: split_app_key_def routable_def lc_is_fresh_def lc_new_def l4_get_def l4_new_def
        l4_snapshot_def hm_values_def lp_inv_new l4_inv_new [unfolded l4_new_def])
  then show ?thesis unfolding eq by (simp add: hb_pool_def lp_new_def)
qed

text \<open>A moved TCP app costs a port. When a running TCP app reappears under another worker
  address its route moves to a fresh public port of the pool; the port it had is not released, and
  no entry of the table uses it any more.\<close>

theorem moved_tcp_app_leaks_port:
  assumes "hb_worker_addr hb = Some addr" and "addr \<noteq> []" and "hb_apps hb = [(key, app)]"
    and "app_protocol app = ''tcp''" and "fst (split_app_key key) = name"
    and "routable (as_status app)"
    and "l4_inv t" and "l4_get t (l4_app_key_new (as_tenant_id app) name) = Some e"
    and "le_worker_addr e \<noteq> addr" and "le_public_port e \<in> lp_taken p"
    and "\<not> lc_is_fresh now cache (l4_app_key_new (as_tenant_id app) name)"
    and "lp_inv p" and "lp_acquire now p = (Some q, p1)"
    and "inj_on le_public_port (set (l4_snapshot t))"
    and "apply_heartbeat now cache hb (rt, t, p) = (changed, rt', t', p')"
  shows "l4_get t' (l4_app_key_new (as_tenant_id app) name) =
      Some (l4_entry now (as_tenant_id app) name q addr (as_port app)) \<and>
    q \<noteq> le_public_port e \<and> le_public_port e \<in> lp_taken p' \<and>
    le_public_port e \<notin> le_public_port ` set (l4_snapshot t')"
proof -
  let ?e = "l4_entry now (as_tenant_id app) name q addr (as_port app)"
  have t': "t' = l4_put True ?e t" and p': "p' = p1"
    using assms(15) single_tcp_heartbeat [OF assms(1-5) _ assms(11,13), of t rt] assms(6,8,9) by auto
  have q: "q \<notin> lp_taken p" "lp_taken p1 = insert q (lp_taken p)"
    using lp.acquire_Some [OF assms(12,13)] by auto
  have key: "l4_key e = l4_app_key_new (as_tenant_id app) name"
    by (rule l4.lookup_key [OF assms(7,8)])
  with assms(7,8) have "e \<in> set (l4_snapshot t)" by (simp add: l4.snapshot_iff)
  with assms(14) have "le_public_port e \<noteq> le_public_port x"
    if "x \<in> set (l4_snapshot t)" "l4_key x \<noteq> l4_key e" for x
    using that by (auto dest: inj_onD)
  with assms(10) q key have "le_public_port e \<notin> le_public_port ` set (l4_snapshot t')"
    by (auto simp: t' l4.snapshot_upsert [OF assms(7)])
  with assms(10) q show ?thesis
    by (auto simp: t' p' l4.lookup_upsert [OF assms(7)])
qed

lemma l4_put_new:
  "l4_get (l4_put True e l4_new) k = (if k = l4_key e then Some e else None)"
  "set (l4_snapshot (l4_put True e l4_new)) = {e}"
  by (simp_all add: l4.lookup_upsert l4.snapshot_upsert)
    (simp_all add: l4_get_def l4_snapshot_def l4_new_def hm_values_def)

theorem moved_tcp_app_leaks_port_witness:
  "31000 \<in> lp_taken (hb_pool (apply_heartbeat 9 lc_new
      (sample_hb ''10.0.0.6'' [(''db'', sample_app ''t_a'' ''tcp'' 9000 ''running'')])
      (rt_new, l4_put True (l4_entry 3 ''t_a'' ''db'' 31000 ''10.0.0.5'' 9000) l4_new,
       (lp_new 31000 31001 60)\<lparr>lp_next_port := 31001, lp_taken := {31000}\<rparr>)))"
proof -
  let ?e = "l4_entry 3 ''t_a'' ''db'' 31000 ''10.0.0.5'' 9000"
  let ?p = "(lp_new 31000 31001 60)\<lparr>lp_next_port := 31001, lp_taken := {31000}\<rparr>"
  obtain ch rt' t' p' where eq: "apply_heartbeat 9 lc_new
      (sample_hb ''10.0.0.6'' [(''db'', sample_app ''t_a'' ''tcp'' 9000 ''running'')])
      (rt_new, l4_put True ?e l4_new, ?p) = (ch, rt', t', p')" by (metis prod_cases4)
  obtain p1 where acq: "lp_acquire 9 ?p = (Some 31001, p1)"
    by (simp add: lp_eval)
  have inv: "lp_inv ?p"
    by (simp add: lp_inv_def lp_new_def lp_range_def lp_is_in_cooldown_def)
  have "le_public_port ?e \<in> lp_taken p'"
    by (rule moved_tcp_app_leaks_port [OF _ _ _ _ _ _ _ _ _ _ _ inv acq _ eq, where addr = "''10.0.0.6''"
          and key = "''db''" and app = "sample_app ''t_a'' ''tcp'' 9000 ''running''" and name = "''db''"
          and e = ?e, THEN conjunct2, THEN conjunct2, THEN conjunct1])
      (simp_all add: split_app_key_def routable_def lc_is_fresh_def lc_new_def l4_put_new l4.inv_upsert,
       simp_all add: l4_entry_def lp_new_def)
  then show ?thesis unfolding eq by (simp add: hb_pool_def)
qed

text \<open>A port assigned by the control plane can be handed out again. The pool does not know
  the ports that came from the control plane: when the pool hands out a port that the route of
  another app already uses, the heartbeat installs a second route on the same public port. The
  disjointness that the distinctness of the public ports needs is therefore not enforced by the
  ingress itself.\<close>

theorem assigned_port_handed_out_twice:
  assumes "hb_worker_addr hb = Some addr" and "addr \<noteq> []" and "hb_apps hb = [(key, app)]"
    and "app_protocol app = ''tcp''" and "fst (split_app_key key) = name"
    and "routable (as_status app)"
    and "l4_inv t" and "l4_get t (l4_app_key_new (as_tenant_id app) name) = None"
    and "\<not> lc_is_fresh now cache (l4_app_key_new (as_tenant_id app) name)"
    and "other \<in> set (l4_snapshot t)" and "lp_acquire now p = (Some (le_public_port other), p1)"
    and "apply_heartbeat now cache hb (rt, t, p) = (changed, rt', t', p')"
  shows "\<exists>new. {other, new} \<subseteq> set (l4_snapshot t') \<and> l4_key new \<noteq> l4_key other \<and>
    le_public_port new = le_public_port other"
proof (intro exI conjI)
  let ?new = "l4_entry now (as_tenant_id app) name (le_public_port other) addr (as_port app)"
  have t': "t' = l4_put True ?new t"
    using assms(12) single_tcp_heartbeat [OF assms(1-5) _ assms(9,11), of t rt] assms(6,8) by auto
  show keys: "l4_key ?new \<noteq> l4_key other"
    using assms(7,8,10) by (auto simp: l4.snapshot_iff)
  show "{other, ?new} \<subseteq> set (l4_snapshot t')"
    using assms(10) keys by (auto simp: t' l4.snapshot_upsert [OF assms(7)])
  show "le_public_port ?new = le_public_port other" by simp
qed

theorem assigned_port_handed_out_twice_witness:
  "\<exists>new. {l4_entry 3 ''t_b'' ''mq'' 31000 ''10.0.0.5'' 9000, new} \<subseteq>
       set (l4_snapshot (hb_l4_table (apply_heartbeat 9 lc_new
         (sample_hb ''10.0.0.6'' [(''db'', sample_app ''t_a'' ''tcp'' 9000 ''running'')])
         (rt_new, l4_put True (l4_entry 3 ''t_b'' ''mq'' 31000 ''10.0.0.5'' 9000) l4_new,
          lp_new 31000 31001 60)))) \<and>
     l4_key new \<noteq> l4_key (l4_entry 3 ''t_b'' ''mq'' 31000 ''10.0.0.5'' 9000) \<and>
     le_public_port new = 31000"
proof -
  let ?e = "l4_entry 3 ''t_b'' ''mq'' 31000 ''10.0.0.5'' 9000"
  obtain ch rt' t' p' where eq: "apply_heartbeat 9 lc_new
      (sample_hb ''10.0.0.6'' [(''db'', sample_app ''t_a'' ''tcp'' 9000 ''running'')])
      (rt_new, l4_put True ?e l4_new, lp_new 31000 31001 60) = (ch, rt', t', p')" by (metis prod_cases4)
  obtain p1 where acq: "lp_acquire 9 (lp_new 31000 31001 60) = (Some (le_public_port ?e), p1)"
    by (simp add: lp_eval l4_entry_def)
  have "\<exists>new. {?e, new} \<subseteq> set (l4_snapshot t') \<and> l4_key new \<noteq> l4_key ?e \<and>
      le_public_port new = le_public_port ?e"
    by (rule assigned_port_handed_out_twice [OF _ _ _ _ _ _ _ _ _ _ acq eq, where addr = "''10.0.0.6''"
          and key = "''db''" and app = "sample_app ''t_a'' ''tcp'' 9000 ''running''" and name = "''db''"])
      (simp_all add: split_app_key_def routable_def lc_is_fresh_def lc_new_def l4_put_new l4.inv_upsert,
       simp_all add: l4_app_key_new_def)
  then show ?thesis unfolding eq by (simp add: hb_l4_table_def)
qed

end
