(* ===== verification/Worker_Supervisor.thy ===== *)
theory Worker_Supervisor
  imports Worker_Messages Worker_Download Runtime_State Ingress_Heartbeats
begin

text \<open>
  The supervisor of a worker (\<open>edge-worker/src/supervisor.rs\<close>, \<open>state.rs\<close>): starting and stopping apps,
  reconciling the running apps with the messages of the control plane, purging a tenant, the loop
  that restarts a crashed app, the heartbeat and the metering it carries.

  The operations take and return the supervisor's state. What is decided outside the source is in
  \<open>start_env\<close>: the clock, the file system, the network, \<open>wasmparser\<close> (the names of the first export
  section), \<open>wasmtime\<close> (compiling, deserialising, linking) and the Prometheus registry. Components are
  values of the type \<open>'comp\<close>. An \<open>AppStatus\<close> and a \<open>HeartbeatMessage\<close> are the wire records of
  \<open>Ingress_Heartbeats\<close>, the heartbeat extended by the fields the ingress does not read; the samples of
  \<open>edge:observe\<close> are left out.
\<close>

section \<open>State\<close>

datatype instance_status = StStarting | StRunning | StDraining | StStopping | StCrashed u32 | StHung

text \<open>What a guest is started with: \<open>HandlerConfig\<close> of a handler, the arguments of \<open>run_app_loop\<close> of
  a long-running app.\<close>

record launch =
  ln_env :: "(string, string) hashmap"
  ln_egress :: egress_policy
  ln_socket_mode :: socket_egress_policy
  ln_max_memory_mb :: u64
  ln_cpu_budget_ms :: u64
  ln_preview_id :: "string option"
  ln_preview_pr_number :: "u32 option"

record 'comp app_instance =
  ai_deployment_id :: string
  ai_app_name :: string
  ai_tenant_id :: string
  ai_port :: u16
  ai_status :: instance_status
  ai_meter :: meter
  ai_component :: "'comp option"
  ai_execution_model :: execution_model
  ai_ws_port :: "u16 option"
  ai_protocol :: string
  ai_last_error :: "string option"
  ai_launch :: launch

record worker_config =
  wc_worker_id :: string
  wc_region :: string
  wc_worker_addr :: string
  wc_worker_tenant_id :: string
  wc_require_signature :: bool
  wc_socket_mode :: socket_egress_policy
  wc_max_memory_mb :: u64
  wc_handler_request_budget_ms :: u64

type_synonym app_triple = "string \<times> string \<times> string"

record ('key, 'sig, 'comp) supervisor =
  sv_config :: worker_config
  sv_apps :: "(app_triple, 'comp app_instance) hashmap"
  sv_pool :: worker_port_pool
  sv_exhausted :: u64
  sv_downloader :: "('key, 'sig) downloader"
  sv_files :: cache_files

record 'comp start_env =
  st_now :: instant
  st_later :: instant
  st_files :: file_env
  st_rnd :: "nat \<Rightarrow> u64"
  st_net :: "string \<Rightarrow> nat \<Rightarrow> attempt"
  st_exports :: "bytes \<Rightarrow> string list option"
  st_cwasm_read_ok :: bool
  st_cwasm_write_ok :: bool
  st_deserialize :: "bytes \<Rightarrow> 'comp option"
  st_compile :: "bytes \<Rightarrow> 'comp option"
  st_serialize :: "'comp \<Rightarrow> bytes option"
  st_linker_ok :: bool
  st_instantiate :: "'comp \<Rightarrow> bool"
  st_register_ok :: bool
  st_dispatch_ok :: bool

datatype start_error =
  UnsafeTenant | NoHttpPort | NoWsPort | Unsigned | NoVerifier | DownloadFailed download_error
| CompileFailed | LinkerFailed | InstantiateFailed | RegisterFailed | DispatchFailed

section \<open>Starting an app\<close>

definition detect_execution_model_from_bytes :: "(bytes \<Rightarrow> string list option) \<Rightarrow> bytes \<Rightarrow> execution_model" where
  "detect_execution_model_from_bytes exports artifact =
     (case exports artifact of
        Some names \<Rightarrow> if list_ex (\<lambda>n. str_contains n ''wasi:http/incoming-handler'') names then Handler else LongRunning
      | None \<Rightarrow> LongRunning)"

definition build_app_env ::
  "(string, string) hashmap \<Rightarrow> u16 \<Rightarrow> u16 option \<Rightarrow> (string, string) hashmap" where
  "build_app_env spec_env raw_port ws_port =
     (let env = hm_insert ''EDGE_HTTP_SERVER_PORT'' (dec (unat raw_port)) spec_env
      in case ws_port of Some ws \<Rightarrow> hm_insert ''EDGE_WS_PORT'' (dec (unat ws)) env | None \<Rightarrow> env)"

definition acquire_ports ::
  "instant \<Rightarrow> bool \<Rightarrow> ('key, 'sig, 'comp) supervisor \<Rightarrow>
   (start_error + u16 \<times> u16 option) \<times> ('key, 'sig, 'comp) supervisor" where
  "acquire_ports now wants_ws sv =
     (let (_, pool) = wp_free_slots now (sv_pool sv)
      in case wp_acquire now pool of
           (None, pool) \<Rightarrow> (Inl NoHttpPort, sv\<lparr>sv_pool := pool, sv_exhausted := sv_exhausted sv + 1\<rparr>)
         | (Some raw_port, pool) \<Rightarrow>
             if wants_ws then
               (let (_, pool) = wp_free_slots now pool
                in case wp_acquire now pool of
                     (None, pool) \<Rightarrow>
                       (Inl NoWsPort,
                        sv\<lparr>sv_pool := wp_release now raw_port pool, sv_exhausted := sv_exhausted sv + 1\<rparr>)
                   | (Some ws, pool) \<Rightarrow> (Inr (raw_port, Some ws), sv\<lparr>sv_pool := pool\<rparr>))
             else (Inr (raw_port, None), sv\<lparr>sv_pool := pool\<rparr>))"

definition release_ports ::
  "instant \<Rightarrow> u16 \<Rightarrow> u16 option \<Rightarrow> ('key, 'sig, 'comp) supervisor \<Rightarrow> ('key, 'sig, 'comp) supervisor" where
  "release_ports now port ws_port sv =
     (let pool = wp_release now port (sv_pool sv)
      in sv\<lparr>sv_pool := (case ws_port of Some ws \<Rightarrow> wp_release now ws pool | None \<Rightarrow> pool)\<rparr>)"

text \<open>The compiled component of a long-running app: the AOT cache first, then the compiler, whose
  output is written to the cache.\<close>

definition load_component ::
  "'comp start_env \<Rightarrow> string \<Rightarrow> bytes \<Rightarrow> cache_files \<Rightarrow> 'comp option \<times> cache_files" where
  "load_component env deployment_id artifact fs =
     (let (cached, fs) =
        (case hm_get (cf_cwasm fs) deployment_id of
           None \<Rightarrow> (None, fs)
         | Some cwasm_bytes \<Rightarrow>
             if \<not> st_cwasm_read_ok env then (None, fs)
             else (case st_deserialize env cwasm_bytes of
                     Some c \<Rightarrow> (Some c, fs)
                   | None \<Rightarrow>
                       (None, if fe_remove_ok (st_files env)
                              then fs\<lparr>cf_cwasm := hm_remove deployment_id (cf_cwasm fs)\<rparr> else fs)))
      in case cached of
           Some c \<Rightarrow> (Some c, fs)
         | None \<Rightarrow>
             (case st_compile env artifact of
                None \<Rightarrow> (None, fs)
              | Some c \<Rightarrow>
                  (Some c,
                   case st_serialize env c of
                     Some b \<Rightarrow> if st_cwasm_write_ok env
                                then fs\<lparr>cf_cwasm := hm_insert deployment_id b (cf_cwasm fs)\<rparr> else fs
                   | None \<Rightarrow> fs)))"

definition prepare_component ::
  "'comp start_env \<Rightarrow> execution_model \<Rightarrow> string \<Rightarrow> bytes \<Rightarrow> cache_files \<Rightarrow>
   (start_error + 'comp option) \<times> cache_files" where
  "prepare_component env model deployment_id artifact fs =
     (if model = LongRunning then
        (case load_component env deployment_id artifact fs of
           (None, fs) \<Rightarrow> (Inl CompileFailed, fs)
         | (Some c, fs) \<Rightarrow>
             if \<not> st_linker_ok env then (Inl LinkerFailed, fs)
             else if \<not> st_instantiate env c then (Inl InstantiateFailed, fs)
             else (Inr (Some c), fs))
      else (Inr None, fs))"

definition launch_of ::
  "worker_config \<Rightarrow> app_spec \<Rightarrow> execution_model \<Rightarrow> (string, string) hashmap \<Rightarrow> launch" where
  "launch_of cfg spec model env =
     \<lparr>ln_env = env, ln_egress = allowlist_to_egress_policy (ap_allowlist spec),
      ln_socket_mode = socket_mode_for_spec spec (wc_socket_mode cfg),
      ln_max_memory_mb =
        (if model = LongRunning \<and> \<not> ap_max_memory_mb spec > 0 then wc_max_memory_mb cfg else ap_max_memory_mb spec),
      ln_cpu_budget_ms = (case ap_cpu_budget_ms spec of Some ms \<Rightarrow> ms | None \<Rightarrow> wc_handler_request_budget_ms cfg),
      ln_preview_id = ap_preview_id spec, ln_preview_pr_number = ap_preview_pr_number spec\<rparr>"

definition new_instance ::
  "worker_config \<Rightarrow> string \<Rightarrow> app_spec \<Rightarrow> string \<Rightarrow> u16 \<Rightarrow> u16 option \<Rightarrow> execution_model \<Rightarrow> 'comp option \<Rightarrow>
   'comp app_instance" where
  "new_instance cfg app_name spec tenant_id raw_port ws_port model component =
     (let env = build_app_env (ap_env spec) raw_port ws_port
      in \<lparr>ai_deployment_id = ap_deployment_id spec, ai_app_name = app_name, ai_tenant_id = tenant_id,
          ai_port = raw_port, ai_status = StRunning, ai_meter = meter_new tenant_id (ap_deployment_id spec),
          ai_component = component, ai_execution_model = model, ai_ws_port = ws_port,
          ai_protocol = (case hm_get env ''EDGE_PROTOCOL'' of Some p \<Rightarrow> p | None \<Rightarrow> ''http''),
          ai_last_error = None, ai_launch = launch_of cfg spec model env\<rparr>)"

text \<open>The early returns that release the ports, and those that do not.\<close>

definition start_app ::
  "'comp start_env \<Rightarrow> string \<Rightarrow> app_spec \<Rightarrow> string \<Rightarrow> ('key, 'sig, 'comp) supervisor \<Rightarrow>
   (start_error + unit) \<times> ('key, 'sig, 'comp) supervisor" where
  "start_app env app_name spec tenant_id sv =
     (if \<not> is_safe_tenant_id tenant_id then (Inl UnsafeTenant, sv)
      else case acquire_ports (st_now env) (hm_contains (ap_env spec) ''EDGE_WS_PORT'') sv of
        (Inl e, sv) \<Rightarrow> (Inl e, sv)
      | (Inr (raw_port, ws_port), sv) \<Rightarrow>
          let released = release_ports (st_later env) raw_port ws_port;
              cfg = sv_config sv;
              did = ap_deployment_id spec
          in if wc_require_signature cfg \<and> ap_deployment_signature spec = None then (Inl Unsigned, released sv)
             else if wc_require_signature cfg \<and> dl_signature_verifier (sv_downloader sv) = None
             then (Inl NoVerifier, sv)
             else case get_artifact (sv_downloader sv) (st_files env) (st_rnd env) (st_net env did) did
                    (ap_deployment_hash spec) (ap_deployment_signature spec) (ap_signing_key_id spec) (sv_files sv) of
               (Inl e, fs) \<Rightarrow> (Inl (DownloadFailed e), released (sv\<lparr>sv_files := fs\<rparr>))
             | (Inr artifact, fs) \<Rightarrow>
                 (let model = detect_execution_model_from_bytes (st_exports env) artifact
                  in case prepare_component env model did artifact fs of
                       (Inl LinkerFailed, fs) \<Rightarrow> (Inl LinkerFailed, sv\<lparr>sv_files := fs\<rparr>)
                     | (Inl e, fs) \<Rightarrow> (Inl e, released (sv\<lparr>sv_files := fs\<rparr>))
                     | (Inr component, fs) \<Rightarrow>
                         if \<not> st_register_ok env then (Inl RegisterFailed, sv\<lparr>sv_files := fs\<rparr>)
                         else if model = Handler \<and> \<not> st_dispatch_ok env
                         then (Inl DispatchFailed, sv\<lparr>sv_files := fs\<rparr>)
                         else (Inr (),
                               sv\<lparr>sv_files := fs,
                                  sv_apps := hm_insert (tenant_id, app_name, did)
                                    (new_instance cfg app_name spec tenant_id raw_port ws_port model component)
                                    (sv_apps sv)\<rparr>)))"

section \<open>Stopping an app\<close>

definition set_app_status ::
  "app_triple \<Rightarrow> instance_status \<Rightarrow> ('key, 'sig, 'comp) supervisor \<Rightarrow> ('key, 'sig, 'comp) supervisor" where
  "set_app_status key st sv =
     (case hm_get (sv_apps sv) key of
        Some inst \<Rightarrow> sv\<lparr>sv_apps := hm_insert key (inst\<lparr>ai_status := st\<rparr>) (sv_apps sv)\<rparr>
      | None \<Rightarrow> sv)"

text \<open>Draining, then stopping, then removal from the map and release of both ports. The task of the
  app and its tickers are outside the model.\<close>

definition stop_app ::
  "instant \<Rightarrow> app_triple \<Rightarrow> ('key, 'sig, 'comp) supervisor \<Rightarrow> ('key, 'sig, 'comp) supervisor" where
  "stop_app now key sv =
     (case hm_get (sv_apps sv) key of
        None \<Rightarrow> sv
      | Some inst \<Rightarrow>
          let sv = set_app_status key StDraining sv;
              sv = set_app_status key StStopping sv;
              sv = sv\<lparr>sv_apps := hm_remove key (sv_apps sv)\<rparr>
          in release_ports now (ai_port inst) (ai_ws_port inst) sv)"

definition stop_all_apps :: "instant \<Rightarrow> ('key, 'sig, 'comp) supervisor \<Rightarrow> ('key, 'sig, 'comp) supervisor" where
  "stop_all_apps now sv = fold (stop_app now) (hm_keys (sv_apps sv)) sv"

section \<open>Heartbeat\<close>

record worker_heartbeat = heartbeat +
  hb_app_slots :: u32
  hb_free_slots :: u32

fun app_status_to_string :: "instance_status \<Rightarrow> string" where
  "app_status_to_string StRunning = ''running''"
| "app_status_to_string StStarting = ''starting''"
| "app_status_to_string StDraining = ''draining''"
| "app_status_to_string StStopping = ''stopping''"
| "app_status_to_string (StCrashed _) = ''crashed''"
| "app_status_to_string StHung = ''hung''"

fun app_status_exit_code :: "instance_status \<Rightarrow> 32 word option" where
  "app_status_exit_code (StCrashed _) = Some 1"
| "app_status_exit_code StHung = Some 1"
| "app_status_exit_code _ = None"

definition wire_key :: "string \<Rightarrow> string \<Rightarrow> string" where
  "wire_key app_name deployment_id = app_name @ '':'' @ deployment_id"

definition status_of :: "string \<Rightarrow> int \<Rightarrow> 'comp app_instance \<Rightarrow> app_status" where
  "status_of worker_id now_unix_secs inst =
     (let snap = meter_snapshot (ai_meter inst)
      in \<lparr>as_deployment_id = ai_deployment_id inst, as_status = app_status_to_string (ai_status inst),
          as_exit_code = app_status_exit_code (ai_status inst), as_request_count = ms_request_count snap,
          as_outbound_bytes = ms_outbound_bytes snap, as_tenant_id = ai_tenant_id inst,
          as_protocol = ai_protocol inst, as_port = ai_port inst, as_ws_port = ai_ws_port inst,
          as_dedupe_id = Some (dedupe_id worker_id (ai_deployment_id inst) now_unix_secs),
          as_last_error = ai_last_error inst,
          as_resident_seconds =
            (if ai_execution_model inst = LongRunning then Some (ms_resident_seconds snap) else None),
          as_duration_ms_total = ms_duration_ms snap, as_status_5xx_count = ms_errors snap\<rparr>)"

definition build_heartbeat ::
  "instant \<Rightarrow> string \<Rightarrow> int \<Rightarrow> ('key, 'sig, 'comp) supervisor \<Rightarrow> worker_heartbeat \<times> ('key, 'sig, 'comp) supervisor" where
  "build_heartbeat now timestamp now_unix_secs sv =
     (let cfg = sv_config sv;
          apps = fold (\<lambda>((_, app_name, deployment_id), inst).
                    hm_insert (wire_key app_name deployment_id) (status_of (wc_worker_id cfg) now_unix_secs inst))
                  (sv_apps sv) [];
          (free, pool) = wp_free_slots now (sv_pool sv)
      in (\<lparr>hb_msg_type = ''heartbeat'', hb_timestamp = timestamp, hb_worker_id = wc_worker_id cfg,
           hb_region = wc_region cfg, hb_worker_addr = Some (wc_worker_addr cfg),
           hb_tenant_id = Some (wc_worker_tenant_id cfg), hb_apps = apps,
           hb_port_pool_exhausted_count = sv_exhausted sv, hb_app_slots = free, hb_free_slots = free\<rparr>,
          sv\<lparr>sv_pool := pool\<rparr>))"

text \<open>The meters after a heartbeat was published.\<close>

definition reset_meter :: "app_status \<Rightarrow> meter \<Rightarrow> meter" where
  "reset_meter st m =
     (let m = subtract_delta (as_request_count st) (as_outbound_bytes st) m;
          m = subtract_resident_seconds (case as_resident_seconds st of Some s \<Rightarrow> s | None \<Rightarrow> 0) m;
          m = subtract_duration_ms (as_duration_ms_total st) m
      in subtract_error_delta (as_status_5xx_count st) m)"

definition reset_meters_after ::
  "(string, app_status) hashmap \<Rightarrow> ('key, 'sig, 'comp) supervisor \<Rightarrow> ('key, 'sig, 'comp) supervisor" where
  "reset_meters_after apps sv =
     fold (\<lambda>(key, st) sv.
       case split_once (CHR '':'') key of
         None \<Rightarrow> sv
       | Some (app_name, deployment_id) \<Rightarrow>
           (case hm_get (sv_apps sv) (as_tenant_id st, app_name, deployment_id) of
              None \<Rightarrow> sv
            | Some inst \<Rightarrow>
                if ai_deployment_id inst \<noteq> as_deployment_id st then sv
                else sv\<lparr>sv_apps := hm_insert (as_tenant_id st, app_name, deployment_id)
                          (inst\<lparr>ai_meter := reset_meter st (ai_meter inst)\<rparr>) (sv_apps sv)\<rparr>))
       apps sv"

section \<open>Reconciliation\<close>

record app_diff =
  apps_to_stop :: "(string \<times> string) list"
  apps_to_start :: "(string \<times> string \<times> app_spec) list"

definition compute_app_diff ::
  "(string \<times> string \<times> instance_status) list \<Rightarrow> (string \<times> string \<times> app_spec) list \<Rightarrow> app_diff" where
  "compute_app_diff current_apps desired_specs =
     (let desired_pairs = hm_collect (map (\<lambda>(n, d, spec). ((n, d), spec)) desired_specs);
          current_pairs = hm_collect (map (\<lambda>(n, d, s). ((n, d), s)) current_apps)
      in \<lparr>apps_to_stop = map (\<lambda>(n, d, _). (n, d))
            (filter (\<lambda>(n, d, _). \<not> hm_contains desired_pairs (n, d)) current_apps),
          apps_to_start = filter (\<lambda>(n, d, _). \<not> hm_contains current_pairs (n, d)) desired_specs\<rparr>)"

definition snapshot_current_apps ::
  "string \<Rightarrow> ('key, 'sig, 'comp) supervisor \<Rightarrow> (string \<times> string \<times> instance_status) list" where
  "snapshot_current_apps tenant_id sv =
     map (\<lambda>((t, n, d), inst). (n, d, ai_status inst)) (filter (\<lambda>((t, _, _), _). t = tenant_id) (sv_apps sv))"

fun start_apps ::
  "(string \<Rightarrow> 'comp start_env) \<Rightarrow> string \<Rightarrow> (string \<times> string \<times> app_spec) list \<Rightarrow> ('key, 'sig, 'comp) supervisor \<Rightarrow>
   (start_error + unit) \<times> ('key, 'sig, 'comp) supervisor" where
  "start_apps env tenant_id [] sv = (Inr (), sv)"
| "start_apps env tenant_id ((app_name, did, spec) # rest) sv =
     (case start_app (env did) app_name spec tenant_id sv of
        (Inl e, sv) \<Rightarrow> (Inl e, sv)
      | (Inr _, sv) \<Rightarrow> start_apps env tenant_id rest sv)"

text \<open>The first component tells whether the message had any effect to report: the immediate heartbeat
  is published exactly then, and only if no start failed.\<close>

definition reconcile ::
  "instant \<Rightarrow> (string \<Rightarrow> 'comp start_env) \<Rightarrow> string \<Rightarrow> (string, app_spec) hashmap \<Rightarrow>
   ('key, 'sig, 'comp) supervisor \<Rightarrow> (start_error + bool) \<times> ('key, 'sig, 'comp) supervisor" where
  "reconcile now env tenant_id desired_apps sv =
     (let desired_specs = expand_routes desired_apps;
          diff = compute_app_diff (snapshot_current_apps tenant_id sv) desired_specs;
          has_changes = apps_to_stop diff \<noteq> [] \<or> apps_to_start diff \<noteq> [];
          sv = fold (\<lambda>(n, d). stop_app now (tenant_id, n, d)) (apps_to_stop diff) sv
      in case start_apps env tenant_id (apps_to_start diff) sv of
           (Inl e, sv) \<Rightarrow> (Inl e, sv)
         | (Inr _, sv) \<Rightarrow> (Inr has_changes, sv))"

section \<open>Purging a tenant\<close>

definition purge_targets ::
  "string \<Rightarrow> string \<Rightarrow> ('key, 'sig, 'comp) supervisor \<Rightarrow> (string \<times> string) list" where
  "purge_targets tenant_id app_name sv =
     (let current = snapshot_current_apps tenant_id sv
      in if app_name = [] then map (\<lambda>(n, d, _). (n, d)) current
         else if list_ex (\<lambda>(n, _, _). n = app_name) current
         then map (\<lambda>(n, d, _). (n, d)) (filter (\<lambda>(n, _, _). n = app_name) current)
         else [])"

text \<open>An error of \<open>purge_tenant\<close> is logged and dropped; a panic goes on through the handler.\<close>

definition handle_purge ::
  "instant \<Rightarrow> ('k, 'c, 's) purge_env \<Rightarrow> string \<Rightarrow> string \<Rightarrow> ('key, 'sig, 'comp) supervisor \<times> ('k, 'c, 's) stores \<Rightarrow>
   (start_error + unit) outcome \<times> ('key, 'sig, 'comp) supervisor \<times> ('k, 'c, 's) stores" where
  "handle_purge now pe tenant_id app_name = (\<lambda>(sv, st).
     if \<not> is_safe_tenant_id tenant_id then (Returned (Inl UnsafeTenant), sv, st)
     else
       let sv = fold (\<lambda>(n, d). stop_app now (tenant_id, n, d)) (purge_targets tenant_id app_name sv) sv
       in case purge_tenant pe tenant_id st of
            (Returned _, _, st) \<Rightarrow> (Returned (Inr ()), sv, st)
          | (CallPanics, _, st) \<Rightarrow> (CallPanics, sv, st))"

definition handle_task_message ::
  "instant \<Rightarrow> (string \<Rightarrow> 'comp start_env) \<Rightarrow> ('k, 'c, 's) purge_env \<Rightarrow> task_message \<Rightarrow>
   ('key, 'sig, 'comp) supervisor \<times> ('k, 'c, 's) stores \<Rightarrow>
   (start_error + bool) outcome \<times> ('key, 'sig, 'comp) supervisor \<times> ('k, 'c, 's) stores" where
  "handle_task_message now env pe msg = (\<lambda>(sv, st).
     case msg of
       TaskPurge tenant_id app_name _ \<Rightarrow>
         (case handle_purge now pe tenant_id app_name (sv, st) of
            (r, sv, st) \<Rightarrow> (map_outcome (map_sum id (\<lambda>_. False)) r, sv, st))
     | TaskUpdate tenant_id apps \<Rightarrow> (case reconcile now env tenant_id apps sv of (r, sv) \<Rightarrow> (Returned r, sv, st))
     | FullSync tenant_id apps \<Rightarrow> (case reconcile now env tenant_id apps sv of (r, sv) \<Rightarrow> (Returned r, sv, st)))"

datatype flow_control = Ack | Nack "nat option" | Term

text \<open>What is sent back for a message; \<open>ack_ok\<close> tells whether the ack reached the server. When the handler
  panics nothing is sent, and the task that reads the messages ends.\<close>

definition process_task_message ::
  "(bytes \<Rightarrow> json option) \<Rightarrow> bool \<Rightarrow> instant \<Rightarrow> (string \<Rightarrow> 'comp start_env) \<Rightarrow> ('k, 'c, 's) purge_env \<Rightarrow> bytes \<Rightarrow>
   ('key, 'sig, 'comp) supervisor \<times> ('k, 'c, 's) stores \<Rightarrow>
   flow_control list \<times> ('key, 'sig, 'comp) supervisor \<times> ('k, 'c, 's) stores" where
  "process_task_message de ack_ok now env pe payload s =
     (case Option.bind (de payload) task_of_json of
        None \<Rightarrow> ([Term], s)
      | Some msg \<Rightarrow>
          (case handle_task_message now env pe msg s of
             (Returned (Inr _), s) \<Rightarrow> (Ack # (if ack_ok then [] else [Nack (Some 30)]), s)
           | (Returned (Inl _), s) \<Rightarrow> ([Nack None], s)
           | (CallPanics, s) \<Rightarrow> ([], s)))"

section \<open>The loop of a long-running app\<close>

text \<open>How one execution of a guest ends for \<open>run_app_loop\<close>, or the shutdown signal.\<close>

datatype exec_event =
  ShutdownSignal
| ReturnedNormally
| CalledExit
| Trapped string
| Panicked string bool
| TimedOut

datatype loop_end = LoopShutdown | LoopExited | LoopGaveUp | LoopRunning

definition MAX_RESTARTS :: u32 where "MAX_RESTARTS = 5"

definition backoff_secs :: "u32 \<Rightarrow> nat" where
  "backoff_secs restart_count = min (2 ^ (unat restart_count - 1)) 60"

definition note_crash ::
  "app_triple \<Rightarrow> instance_status option \<Rightarrow> string option \<Rightarrow> (app_triple, 'comp app_instance) hashmap \<Rightarrow>
   (app_triple, 'comp app_instance) hashmap" where
  "note_crash key status err apps =
     (case hm_get apps key of
        None \<Rightarrow> apps
      | Some inst \<Rightarrow>
          hm_insert key
            (inst\<lparr>ai_status := (case status of Some st \<Rightarrow> st | None \<Rightarrow> ai_status inst),
                  ai_last_error := (case err of Some e \<Rightarrow> Some e | None \<Rightarrow> ai_last_error inst)\<rparr>)
            apps)"

text \<open>\<open>True\<close>: the restart cap is reached. The auto-rollback is requested exactly then.\<close>

definition handle_app_crash ::
  "app_triple \<Rightarrow> u32 \<Rightarrow> instance_status \<Rightarrow> string option \<Rightarrow> (app_triple, 'comp app_instance) hashmap \<Rightarrow>
   bool \<times> (app_triple, 'comp app_instance) hashmap" where
  "handle_app_crash key restart_count terminal_status err apps =
     (if restart_count \<ge> MAX_RESTARTS then (True, note_crash key (Some terminal_status) err apps)
      else (False, if err = None then apps else note_crash key None err apps))"

fun crash_of :: "exec_event \<Rightarrow> u32 \<Rightarrow> (instance_status \<times> string option) option" where
  "crash_of (Trapped e) n = Some (StCrashed n, Some e)"
| "crash_of (Panicked e is_panic) n =
     Some (StCrashed n, Some ((if is_panic then ''app task panicked: '' else ''app task aborted: '') @ e))"
| "crash_of TimedOut n = Some (StHung, None)"
| "crash_of _ n = None"

fun run_app_loop ::
  "app_triple \<Rightarrow> exec_event list \<Rightarrow> u32 \<Rightarrow> (app_triple, 'comp app_instance) hashmap \<Rightarrow>
   loop_end \<times> nat list \<times> (app_triple, 'comp app_instance) hashmap" where
  "run_app_loop key [] restart_count apps = (LoopRunning, [], apps)"
| "run_app_loop key (ev # evs) restart_count apps =
     (case ev of
        ShutdownSignal \<Rightarrow> (LoopShutdown, [], apps)
      | ReturnedNormally \<Rightarrow> run_app_loop key evs restart_count apps
      | CalledExit \<Rightarrow> (LoopExited, [], apps)
      | _ \<Rightarrow>
          let restart_count = restart_count + 1
          in case crash_of ev restart_count of
               None \<Rightarrow> (LoopRunning, [], apps)
             | Some (terminal_status, err) \<Rightarrow>
                 (case handle_app_crash key restart_count terminal_status err apps of
                    (True, apps) \<Rightarrow> (LoopGaveUp, [], apps)
                  | (False, apps) \<Rightarrow>
                      (case run_app_loop key evs restart_count apps of
                         (r, pauses, apps) \<Rightarrow> (r, backoff_secs restart_count # pauses, apps))))"

definition calculate_backoff :: "u32 \<Rightarrow> nat" where
  "calculate_backoff restart_count =
     (if restart_count = 0 then 1
      else min (if unat restart_count - 1 < 64 then 2 ^ (unat restart_count - 1) else 2 ^ 64 - 1) 60)"

text \<open>The memory limit of a store: none at all for zero.\<close>

definition store_memory_limit :: "u64 \<Rightarrow> u64 option" where
  "store_memory_limit max_memory_mb = (if max_memory_mb > 0 then Some (max_memory_mb * 1024 * 1024) else None)"

end
