(* ===== verification/Worker_Lifecycle.thy ===== *)
theory Worker_Lifecycle
  imports Worker_Supervisor
begin

text \<open>
  Properties of the supervisor: reconciliation reaches exactly the desired apps and leaves the other
  tenants alone, what a failed start does with its ports, which code a started app runs, the restart
  loop, the purge of a tenant, metering across heartbeats, and what the ingress makes of a worker's
  heartbeat.
\<close>

section \<open>Frame lemmas\<close>

lemma release_ports_frame [simp]:
  "sv_apps (release_ports now p ws sv) = sv_apps sv" "sv_files (release_ports now p ws sv) = sv_files sv"
  "sv_config (release_ports now p ws sv) = sv_config sv"
  by (simp_all add: release_ports_def Let_def)

lemma acquire_ports_frame:
  "acquire_ports now ws sv = (r, sv') \<Longrightarrow>
     sv_apps sv' = sv_apps sv \<and> sv_files sv' = sv_files sv \<and> sv_config sv' = sv_config sv \<and>
     sv_downloader sv' = sv_downloader sv"
  by (auto simp: acquire_ports_def Let_def split: prod.splits option.splits if_splits)

lemma set_app_status_get:
  "hm_get (sv_apps (set_app_status key st sv)) k =
     (if k = key then map_option (\<lambda>i. i\<lparr>ai_status := st\<rparr>) (hm_get (sv_apps sv) key) else hm_get (sv_apps sv) k)"
  by (auto simp: set_app_status_def split: option.splits)

lemma stop_app_get [simp]:
  "hm_get (sv_apps (stop_app now key sv)) k = (if k = key then None else hm_get (sv_apps sv) k)"
  by (auto simp: stop_app_def set_app_status_get Let_def split: option.splits)

lemma stop_apps_get:
  "hm_get (sv_apps (fold (\<lambda>(n, d). stop_app now (t, n, d)) keys sv)) k =
     (if \<exists>(n, d) \<in> set keys. k = (t, n, d) then None else hm_get (sv_apps sv) k)"
  by (induction keys arbitrary: sv) auto

text \<open>The two outcomes of a start: the pool and the map of apps.\<close>

definition keeps_ports :: "start_error \<Rightarrow> bool" where
  "keeps_ports e \<longleftrightarrow> e \<in> {NoVerifier, LinkerFailed, RegisterFailed, DispatchFailed}"

lemma prepare_component_errors:
  "prepare_component env model did artifact fs = (Inl e, fs') \<Longrightarrow> e \<in> {CompileFailed, LinkerFailed, InstantiateFailed}"
  by (auto simp: prepare_component_def split: if_splits prod.splits option.splits)

lemma start_app_Inl:
  assumes "start_app env name spec t sv = (Inl e, sv')"
  shows "sv_apps sv' = sv_apps sv"
proof -
  obtain r sv1 where a: "acquire_ports (st_now env) (hm_contains (ap_env spec) ''EDGE_WS_PORT'') sv = (r, sv1)"
    by fastforce
  note f = acquire_ports_frame [OF a]
  show ?thesis
    using assms f by (auto simp: start_app_def a Let_def split: if_splits sum.splits prod.splits start_error.splits)
qed

lemma start_app_Inr:
  assumes "start_app env name spec t sv = (Inr u, sv')"
  shows "\<exists>raw ws sv1 artifact fs component fs'.
     is_safe_tenant_id t \<and>
     acquire_ports (st_now env) (hm_contains (ap_env spec) ''EDGE_WS_PORT'') sv = (Inr (raw, ws), sv1) \<and>
     get_artifact (sv_downloader sv) (st_files env) (st_rnd env) (st_net env (ap_deployment_id spec))
       (ap_deployment_id spec) (ap_deployment_hash spec) (ap_deployment_signature spec) (ap_signing_key_id spec)
       (sv_files sv) = (Inr artifact, fs) \<and>
     (wc_require_signature (sv_config sv) \<longrightarrow> dl_signature_verifier (sv_downloader sv) \<noteq> None) \<and>
     prepare_component env (detect_execution_model_from_bytes (st_exports env) artifact) (ap_deployment_id spec)
       artifact fs = (Inr component, fs') \<and>
     sv' = sv1\<lparr>sv_files := fs', sv_apps := hm_insert (t, name, ap_deployment_id spec)
       (new_instance (sv_config sv) name spec t raw ws
          (detect_execution_model_from_bytes (st_exports env) artifact) component) (sv_apps sv)\<rparr>"
proof -
  obtain r sv1 where a: "acquire_ports (st_now env) (hm_contains (ap_env spec) ''EDGE_WS_PORT'') sv = (r, sv1)"
    by fastforce
  note f = acquire_ports_frame [OF a]
  show ?thesis
    using assms f by (auto simp: start_app_def a Let_def split: if_splits sum.splits prod.splits start_error.splits)
qed

lemma start_app_get:
  assumes "start_app env name spec t sv = (r, sv')" and "k \<noteq> (t, name, ap_deployment_id spec)"
  shows "hm_get (sv_apps sv') k = hm_get (sv_apps sv) k"
  using assms(2) by (cases r) (use start_app_Inl start_app_Inr assms(1) in \<open>fastforce\<close>)+

lemma start_app_contains:
  "start_app env name spec t sv = (Inr u, sv') \<Longrightarrow> hm_contains (sv_apps sv') (t, name, ap_deployment_id spec)"
  using start_app_Inr [of env name spec t sv u sv'] by (auto simp: hm_contains_def)

definition specs_ok :: "(string \<times> string \<times> app_spec) list \<Rightarrow> bool" where
  "specs_ok specs \<longleftrightarrow> (\<forall>(n, d, spec) \<in> set specs. ap_deployment_id spec = d)"

lemma start_apps_get:
  assumes "start_apps env t specs sv = (r, sv')" and "specs_ok specs"
    and "\<forall>(n, d, _) \<in> set specs. k \<noteq> (t, n, d)"
  shows "hm_get (sv_apps sv') k = hm_get (sv_apps sv) k"
  using assms
proof (induction specs arbitrary: sv)
  case (Cons s specs)
  obtain n d spec where s: "s = (n, d, spec)" by (cases s) auto
  obtain r1 sv1 where st: "start_app (env d) n spec t sv = (r1, sv1)" by fastforce
  have "hm_get (sv_apps sv1) k = hm_get (sv_apps sv) k"
    using start_app_get [OF st, of k] Cons.prems(2,3) by (auto simp: s specs_ok_def)
  with Cons.IH [of sv1] Cons.prems st show ?case by (auto simp: s specs_ok_def split: sum.splits)
qed simp

lemma start_apps_all:
  assumes "start_apps env t specs sv = (Inr u, sv')" and "specs_ok specs"
  shows "(\<forall>(n, d, _) \<in> set specs. hm_contains (sv_apps sv') (t, n, d)) \<and>
    (\<forall>k. hm_contains (sv_apps sv) k \<longrightarrow> hm_contains (sv_apps sv') k)"
  using assms
proof (induction specs arbitrary: sv)
  case (Cons s specs)
  obtain n d spec where s: "s = (n, d, spec)" by (cases s) auto
  with Cons.prems(1) obtain u1 sv1 where st: "start_app (env d) n spec t sv = (Inr u1, sv1)"
    "start_apps env t specs sv1 = (Inr u, sv')"
    by (auto split: sum.splits prod.splits)
  have d: "ap_deployment_id spec = d" using Cons.prems(2) by (simp add: s specs_ok_def)
  have "hm_contains (sv_apps sv1) (t, n, d)" using start_app_contains [OF st(1)] d by simp
  moreover have "hm_contains (sv_apps sv1) k" if "hm_contains (sv_apps sv) k" for k
    using that calculation start_app_get [OF st(1), of k] d by (cases "k = (t, n, d)") (auto simp: hm_contains_def)
  ultimately show ?case using Cons.IH [OF st(2)] Cons.prems(2) by (auto simp: s specs_ok_def)
qed simp

lemma specs_ok_expand: "specs_ok (expand_routes apps)"
  using expand_routes_spec by (auto simp: specs_ok_def)

lemma pairs_contains:
  "hm_contains (hm_collect (map (\<lambda>(n, d, x). ((n, d), x)) xs)) (n, d) \<longleftrightarrow> (\<exists>x. (n, d, x) \<in> set xs)"
proof -
  have "map_of (rev (map (\<lambda>(n, d, x). ((n, d), x)) xs)) (n, d) = None \<longleftrightarrow> \<not> (\<exists>x. (n, d, x) \<in> set xs)"
    unfolding map_of_eq_None_iff by (force simp: image_iff)
  then show ?thesis by (simp add: hm_contains_def hm_get_collect)
qed

lemma diff_stop: "(n, d) \<in> set (apps_to_stop (compute_app_diff current desired)) \<longleftrightarrow>
    (\<exists>s. (n, d, s) \<in> set current) \<and> \<not> (\<exists>spec. (n, d, spec) \<in> set desired)"
  by (auto simp: compute_app_diff_def Let_def pairs_contains image_iff split: prod.splits)

lemma diff_start: "(n, d, spec) \<in> set (apps_to_start (compute_app_diff current desired)) \<longleftrightarrow>
    (n, d, spec) \<in> set desired \<and> \<not> (\<exists>s. (n, d, s) \<in> set current)"
  by (auto simp: compute_app_diff_def Let_def pairs_contains)

lemma in_snapshot: "hm_wf (sv_apps sv) \<Longrightarrow>
    (\<exists>s. (n, d, s) \<in> set (snapshot_current_apps t sv)) \<longleftrightarrow> hm_contains (sv_apps sv) (t, n, d)"
  by (force simp: snapshot_current_apps_def hm_contains_def hm_get_def map_of_eq_None_iff)

section \<open>Reconciliation\<close>

definition desired_keys :: "string \<Rightarrow> (string, app_spec) hashmap \<Rightarrow> app_triple set" where
  "desired_keys t apps = {(t, n, d) | n d. \<exists>spec. (n, d, spec) \<in> set (expand_routes apps)}"

lemma reconcile_split:
  assumes "reconcile now env t apps sv = (r, sv')" and "hm_wf (sv_apps sv)"
  shows "\<exists>specs sv1 r1. start_apps env t specs sv1 = (r1, sv') \<and> specs_ok specs \<and>
    (\<forall>n d. (\<exists>spec. (n, d, spec) \<in> set specs) \<longleftrightarrow> (t, n, d) \<in> desired_keys t apps \<and> \<not> hm_contains (sv_apps sv) (t, n, d)) \<and>
    (\<forall>k. hm_get (sv_apps sv1) k =
       (if fst k = t \<and> k \<notin> desired_keys t apps then None else hm_get (sv_apps sv) k)) \<and>
    (\<forall>ch. r = Inr ch \<longrightarrow> r1 = Inr () \<and>
       (ch \<longleftrightarrow> specs \<noteq> [] \<or> (\<exists>k. fst k = t \<and> k \<notin> desired_keys t apps \<and> hm_contains (sv_apps sv) k)))"
proof -
  let ?diff = "compute_app_diff (snapshot_current_apps t sv) (expand_routes apps)"
  let ?sv1 = "fold (\<lambda>(n, d). stop_app now (t, n, d)) (apps_to_stop ?diff) sv"
  obtain r1 sv2 where st: "start_apps env t (apps_to_start ?diff) ?sv1 = (r1, sv2)" by fastforce
  have stop: "(n, d) \<in> set (apps_to_stop ?diff) \<longleftrightarrow> hm_contains (sv_apps sv) (t, n, d) \<and> (t, n, d) \<notin> desired_keys t apps" for n d
    by (auto simp: diff_stop in_snapshot [OF assms(2)] desired_keys_def)
  have start: "(\<exists>spec. (n, d, spec) \<in> set (apps_to_start ?diff)) \<longleftrightarrow>
      (t, n, d) \<in> desired_keys t apps \<and> \<not> hm_contains (sv_apps sv) (t, n, d)" for n d
    by (auto simp: diff_start in_snapshot [OF assms(2)] desired_keys_def)
  have "hm_get (sv_apps ?sv1) k = (if fst k = t \<and> k \<notin> desired_keys t apps then None else hm_get (sv_apps sv) k)" for k
    using stop [of "fst (snd k)" "snd (snd k)"] by (cases k) (auto simp: stop_apps_get hm_contains_def)
  moreover have "specs_ok (apps_to_start ?diff)"
    using specs_ok_expand [of apps] by (auto simp: specs_ok_def diff_start)
  moreover have "apps_to_stop ?diff \<noteq> [] \<longleftrightarrow> (\<exists>k. fst k = t \<and> k \<notin> desired_keys t apps \<and> hm_contains (sv_apps sv) k)"
  proof -
    have "apps_to_stop ?diff \<noteq> [] \<longleftrightarrow> (\<exists>n d. (n, d) \<in> set (apps_to_stop ?diff))"
      by (metis empty_iff empty_set last_in_set surj_pair)
    then show ?thesis unfolding stop by auto
  qed
  ultimately show ?thesis using st start assms(1)
    by (intro exI [of _ "apps_to_start ?diff"] exI [of _ ?sv1] exI [of _ r1])
      (auto simp: reconcile_def Let_def split: sum.splits)
qed

text \<open>Claim C2 (reconciliation reaches the desired state). When a message of a tenant is handled without
  an error, the deployments of that tenant that run afterwards are exactly those of the message, one
  for each weighted route; a deployment that was wanted and already there is the same instance as
  before, with its port and its meters; the apps of all other tenants are untouched; and the
  immediate heartbeat is sent iff a deployment was stopped or started.\<close>

theorem reconcile_exact:
  assumes "hm_wf (sv_apps sv)" and "reconcile now env t apps sv = (Inr ch, sv')"
  shows "(\<forall>k. fst k = t \<longrightarrow> hm_contains (sv_apps sv') k = (k \<in> desired_keys t apps)) \<and>
    (\<forall>k. fst k \<noteq> t \<longrightarrow> hm_get (sv_apps sv') k = hm_get (sv_apps sv) k) \<and>
    (\<forall>k \<in> desired_keys t apps. hm_contains (sv_apps sv) k \<longrightarrow> hm_get (sv_apps sv') k = hm_get (sv_apps sv) k) \<and>
    (ch \<longleftrightarrow> (\<exists>k. fst k = t \<and> hm_contains (sv_apps sv) k \<noteq> (k \<in> desired_keys t apps)))"
proof -
  obtain specs sv1 where st: "start_apps env t specs sv1 = (Inr (), sv')" "specs_ok specs"
    and new: "\<And>n d. (\<exists>spec. (n, d, spec) \<in> set specs) \<longleftrightarrow> (t, n, d) \<in> desired_keys t apps \<and> \<not> hm_contains (sv_apps sv) (t, n, d)"
    and kept: "\<And>k. hm_get (sv_apps sv1) k = (if fst k = t \<and> k \<notin> desired_keys t apps then None else hm_get (sv_apps sv) k)"
    and ch: "ch \<longleftrightarrow> specs \<noteq> [] \<or> (\<exists>k. fst k = t \<and> k \<notin> desired_keys t apps \<and> hm_contains (sv_apps sv) k)"
    using reconcile_split [OF assms(2,1)] by blast
  have same: "hm_get (sv_apps sv') k = hm_get (sv_apps sv1) k"
    if "\<not> (fst k = t \<and> k \<in> desired_keys t apps \<and> \<not> hm_contains (sv_apps sv) k)" for k
    using start_apps_get [OF st, of k] that new by (cases k) (auto split: prod.splits)
  have started: "hm_contains (sv_apps sv') k" if "fst k = t" "k \<in> desired_keys t apps" "\<not> hm_contains (sv_apps sv) k" for k
    using start_apps_all [OF st] that new by (cases k) fastforce
  have "specs \<noteq> [] \<longleftrightarrow> (\<exists>k. fst k = t \<and> k \<in> desired_keys t apps \<and> \<not> hm_contains (sv_apps sv) k)"
  proof -
    have "specs \<noteq> [] \<longleftrightarrow> (\<exists>n d spec. (n, d, spec) \<in> set specs)" by (metis empty_iff empty_set last_in_set prod_cases3)
    then show ?thesis using new by auto
  qed
  then have "ch \<longleftrightarrow> (\<exists>k. fst k = t \<and> hm_contains (sv_apps sv) k \<noteq> (k \<in> desired_keys t apps))"
    unfolding ch by blast
  moreover have "hm_contains (sv_apps sv') k = (k \<in> desired_keys t apps)" if "fst k = t" for k
  proof (cases "k \<in> desired_keys t apps \<and> \<not> hm_contains (sv_apps sv) k")
    case True
    with started that show ?thesis by blast
  next
    case False
    with same [of k] kept [of k] that show ?thesis by (auto simp: hm_contains_def)
  qed
  ultimately show ?thesis using same kept by (auto simp: hm_contains_def)
qed

text \<open>After an error the apps of the other tenants and the wanted apps that were there are untouched, and
  every app the message no longer names has been stopped; no heartbeat reports that.\<close>

lemma reconcile_error:
  assumes "hm_wf (sv_apps sv)" and "reconcile now env t apps sv = (Inl e, sv')"
  shows "(\<forall>k. fst k \<noteq> t \<longrightarrow> hm_get (sv_apps sv') k = hm_get (sv_apps sv) k) \<and>
    (\<forall>k \<in> desired_keys t apps. hm_contains (sv_apps sv) k \<longrightarrow> hm_get (sv_apps sv') k = hm_get (sv_apps sv) k) \<and>
    (\<forall>k. fst k = t \<longrightarrow> k \<notin> desired_keys t apps \<longrightarrow> \<not> hm_contains (sv_apps sv') k)"
proof -
  obtain specs sv1 r1 where st: "start_apps env t specs sv1 = (r1, sv')" "specs_ok specs"
    and new: "\<And>n d. (\<exists>spec. (n, d, spec) \<in> set specs) \<longleftrightarrow> (t, n, d) \<in> desired_keys t apps \<and> \<not> hm_contains (sv_apps sv) (t, n, d)"
    and kept: "\<And>k. hm_get (sv_apps sv1) k = (if fst k = t \<and> k \<notin> desired_keys t apps then None else hm_get (sv_apps sv) k)"
    using reconcile_split [OF assms(2,1)] by blast
  have "hm_get (sv_apps sv') k = hm_get (sv_apps sv1) k"
    if "\<not> (fst k = t \<and> k \<in> desired_keys t apps \<and> \<not> hm_contains (sv_apps sv) k)" for k
    using start_apps_get [OF st, of k] that new by (cases k) (auto split: prod.splits)
  with kept show ?thesis by (auto simp: hm_contains_def)
qed

section \<open>Ports of a failed start\<close>

text \<open>The ports of a start that fails. A start that fails before it has both ports holds none; a
  start that fails later puts both ports into their cooldown, except when the verifier is missing,
  the linker cannot be built, the metrics cannot be registered or the dispatcher cannot be created:
  then the pool is left as it was after both ports were taken, and nothing records them any more.\<close>

theorem start_failure_ports:
  assumes "start_app env name spec t sv = (Inl e, sv')" and "is_safe_tenant_id t"
    and "acquire_ports (st_now env) (hm_contains (ap_env spec) ''EDGE_WS_PORT'') sv = (Inr (raw, ws), sv1)"
  shows "sv_apps sv' = sv_apps sv \<and>
    sv_pool sv' = (if keeps_ports e then sv_pool sv1 else sv_pool (release_ports (st_later env) raw ws sv1))"
proof
  show "sv_apps sv' = sv_apps sv" by (rule start_app_Inl [OF assms(1)])
  show "sv_pool sv' = (if keeps_ports e then sv_pool sv1 else sv_pool (release_ports (st_later env) raw ws sv1))"
    using assms prepare_component_errors
    by (fastforce simp: start_app_def Let_def keeps_ports_def release_ports_def
        split: if_splits sum.splits prod.splits start_error.splits)
qed

section \<open>The code an app runs\<close>

lemma load_component_fresh:
  "hm_get (cf_cwasm fs) did = None \<Longrightarrow> load_component env did artifact fs = (r, fs') \<Longrightarrow> r = st_compile env artifact"
  by (auto simp: load_component_def split: option.splits)

lemma load_component_cached:
  assumes "hm_get (cf_cwasm fs) did = Some b" and "st_cwasm_read_ok env" and "st_deserialize env b = Some c"
  shows "load_component env did artifact fs = (Some c, fs)"
  using assms by (simp add: load_component_def)

lemma get_artifact_keeps_compiled:
  assumes "get_artifact d fe rnd net did h sig kid fs = (Inr data, fs')"
    and "hm_get (cf_wasm fs) did = None \<or> fe_read_ok fe \<and> (\<exists>a. hm_get (cf_wasm fs) did = Some a \<and> verify_hash (dl_crypto d) a h = None)"
  shows "cf_cwasm fs' = cf_cwasm fs"
  using assms by (auto simp: get_artifact_def download_artifact_def Let_def
      split: if_splits sum.splits option.splits write_outcome.splits)

lemma get_artifact_no_compiled:
  "get_artifact d fe rnd net did h sig kid fs = (r, fs') \<Longrightarrow> hm_get (cf_cwasm fs) did = None \<Longrightarrow> hm_get (cf_cwasm fs') did = None"
  by (auto simp: get_artifact_def download_artifact_def remove_cached_def Let_def
      split: if_splits sum.splits option.splits write_outcome.splits)

text \<open>Claim C3 (a started app runs signed code). For a worker that requires signatures, when no compiled
  form of the deployment is in the AOT cache: if a start succeeds, the task message carried a
  signature, and the component of a long-running app is the compilation of an artifact that the
  holder of the named key has signed for exactly this deployment.\<close>

theorem started_code_authentic:
  assumes "start_app env name spec t sv = (Inr u, sv')" and "wc_require_signature (sv_config sv)"
    and "unforgeable (dl_crypto (sv_downloader sv)) signed_by"
    and "hm_get (cf_cwasm (sv_files sv)) (ap_deployment_id spec) = None"
  shows "\<exists>inst artifact keys k. hm_get (sv_apps sv') (t, name, ap_deployment_id spec) = Some inst \<and>
    ai_status inst = StRunning \<and> ap_deployment_signature spec \<noteq> None \<and>
    dl_signature_verifier (sv_downloader sv) = Some keys \<and>
    hm_get keys (resolve_kid (ap_signing_key_id spec)) = Some k \<and>
    (cr_sha256 (dl_crypto (sv_downloader sv)) artifact, ap_deployment_id spec) \<in> signed_by k \<and>
    ai_execution_model inst = detect_execution_model_from_bytes (st_exports env) artifact \<and>
    (ai_execution_model inst = LongRunning \<longrightarrow> ai_component inst = st_compile env artifact)"
proof -
  let ?did = "ap_deployment_id spec"
  from start_app_Inr [OF assms(1)] obtain raw ws sv1 artifact fs component fs' where
    get: "get_artifact (sv_downloader sv) (st_files env) (st_rnd env) (st_net env ?did) ?did (ap_deployment_hash spec)
      (ap_deployment_signature spec) (ap_signing_key_id spec) (sv_files sv) = (Inr artifact, fs)"
    and ver: "dl_signature_verifier (sv_downloader sv) \<noteq> None"
    and prep: "prepare_component env (detect_execution_model_from_bytes (st_exports env) artifact) ?did artifact fs =
      (Inr component, fs')"
    and sv': "sv' = sv1\<lparr>sv_files := fs', sv_apps := hm_insert (t, name, ?did)
       (new_instance (sv_config sv) name spec t raw ws
          (detect_execution_model_from_bytes (st_exports env) artifact) component) (sv_apps sv)\<rparr>"
    using assms(2) by blast
  from ver obtain keys where keys: "dl_signature_verifier (sv_downloader sv) = Some keys" by blast
  have acc: "accepted (sv_downloader sv) ?did (ap_deployment_hash spec) (ap_deployment_signature spec)
      (ap_signing_key_id spec) artifact" by (rule get_artifact_accepted [OF get])
  have comp: "component = st_compile env artifact"
    if "detect_execution_model_from_bytes (st_exports env) artifact = LongRunning"
    using prep that load_component_fresh [OF get_artifact_no_compiled [OF get assms(4)]]
    by (auto simp: prepare_component_def split: if_splits prod.splits option.splits)
  from acc keys have "ap_deployment_signature spec \<noteq> None" by (auto simp: accepted_def verify_signature_None)
  with accepted_signed [OF assms(3) keys acc] keys comp show ?thesis
    by (auto simp: sv' new_instance_def Let_def)
qed

text \<open>The AOT cache is trusted. When a file with a compiled form of the deployment exists, next
  to a missing or intact \<open>.wasm\<close> file, a started long-running app runs what that file deserialises
  to, whatever artifact was downloaded and verified: neither hash nor signature covers it.\<close>

theorem aot_cache_unverified:
  assumes "start_app env name spec t sv = (Inr u, sv')"
    and "hm_get (cf_wasm (sv_files sv)) (ap_deployment_id spec) = None \<or>
      fe_read_ok (st_files env) \<and> (\<exists>a. hm_get (cf_wasm (sv_files sv)) (ap_deployment_id spec) = Some a \<and>
        verify_hash (dl_crypto (sv_downloader sv)) a (ap_deployment_hash spec) = None)"
    and "hm_get (cf_cwasm (sv_files sv)) (ap_deployment_id spec) = Some b" and "st_cwasm_read_ok env"
    and "st_deserialize env b = Some c" and "\<forall>a. detect_execution_model_from_bytes (st_exports env) a = LongRunning"
  shows "map_option ai_component (hm_get (sv_apps sv') (t, name, ap_deployment_id spec)) = Some (Some c)"
proof -
  let ?did = "ap_deployment_id spec"
  from start_app_Inr [OF assms(1)] obtain raw ws sv1 artifact fs component fs' where
    get: "get_artifact (sv_downloader sv) (st_files env) (st_rnd env) (st_net env ?did) ?did (ap_deployment_hash spec)
      (ap_deployment_signature spec) (ap_signing_key_id spec) (sv_files sv) = (Inr artifact, fs)"
    and prep: "prepare_component env LongRunning ?did artifact fs = (Inr component, fs')"
    and sv': "sv' = sv1\<lparr>sv_files := fs', sv_apps := hm_insert (t, name, ?did)
       (new_instance (sv_config sv) name spec t raw ws LongRunning component) (sv_apps sv)\<rparr>"
    using assms(6) by auto
  have "cf_cwasm fs = cf_cwasm (sv_files sv)" by (rule get_artifact_keeps_compiled [OF get assms(2)])
  with prep load_component_cached [OF _ assms(4,5), of fs ?did artifact] assms(3) have "component = Some c"
    by (auto simp: prepare_component_def split: if_splits)
  then show ?thesis by (simp add: sv' new_instance_def Let_def)
qed

section \<open>The restart loop\<close>

definition is_crash :: "exec_event \<Rightarrow> bool" where
  "is_crash ev \<longleftrightarrow> ev \<notin> {ShutdownSignal, CalledExit, ReturnedNormally}"

text \<open>The crashes before the loop is told to stop or the guest exits.\<close>

definition crashes :: "exec_event list \<Rightarrow> exec_event list" where
  "crashes evs = filter is_crash (takeWhile (\<lambda>ev. ev \<noteq> ShutdownSignal \<and> ev \<noteq> CalledExit) evs)"

lemma crash_of_Some: "is_crash ev \<Longrightarrow> \<exists>st err. crash_of ev n = Some (st, err)"
  by (cases ev) (auto simp: is_crash_def)

lemma run_app_loop_crash:
  "is_crash ev \<Longrightarrow> crash_of ev (n + 1) = Some (st, err) \<Longrightarrow>
   run_app_loop key (ev # evs) n apps =
     (case handle_app_crash key (n + 1) st err apps of
        (True, apps) \<Rightarrow> (LoopGaveUp, [], apps)
      | (False, apps) \<Rightarrow> (case run_app_loop key evs (n + 1) apps of
                            (r, ps, apps) \<Rightarrow> (r, backoff_secs (n + 1) # ps, apps)))"
  by (cases ev) (auto simp: is_crash_def Let_def)

lemma crashes_simps:
  "crashes [] = []" "crashes (ShutdownSignal # evs) = []" "crashes (CalledExit # evs) = []"
  "crashes (ReturnedNormally # evs) = crashes evs" "is_crash ev \<Longrightarrow> crashes (ev # evs) = ev # crashes evs"
  by (auto simp: crashes_def is_crash_def)

lemma note_crash_get:
  "hm_get (note_crash key st err apps) k =
     (if k = key then map_option (\<lambda>i. i\<lparr>ai_status := (case st of Some s \<Rightarrow> s | None \<Rightarrow> ai_status i),
        ai_last_error := (case err of Some e \<Rightarrow> Some e | None \<Rightarrow> ai_last_error i)\<rparr>) (hm_get apps key) else hm_get apps k)"
  by (auto simp: note_crash_def split: option.splits)

definition loop_status :: "nat \<Rightarrow> exec_event list \<Rightarrow> instance_status \<Rightarrow> instance_status" where
  "loop_status n cs st = (if 5 \<le> n + length cs then fst (the (crash_of (cs ! (4 - n)) 5)) else st)"

lemma run_app_loop_general:
  assumes "n < 5" and "hm_get apps key = Some inst" and "run_app_loop key evs (of_nat n) apps = (r, pauses, apps')"
  shows "(r = LoopGaveUp \<longleftrightarrow> 5 \<le> n + length (crashes evs)) \<and>
    pauses = take (length (crashes evs)) (drop n [1, 2, 4, 8]) \<and>
    map_option ai_status (hm_get apps' key) = Some (loop_status n (crashes evs) (ai_status inst)) \<and>
    (\<forall>k. k \<noteq> key \<longrightarrow> hm_get apps' k = hm_get apps k)"
  using assms
proof (induction evs arbitrary: n apps inst pauses)
  case (Cons ev evs)
  show ?case
  proof (cases "is_crash ev")
    case False
    then consider "ev = ShutdownSignal" | "ev = CalledExit" | "ev = ReturnedNormally" by (auto simp: is_crash_def)
    then show ?thesis
      using Cons.IH [of n apps inst pauses] Cons.prems by cases (auto simp: crashes_simps loop_status_def)
  next
    case True
    have cnt: "unat ((of_nat n :: u32) + 1) = Suc n"
    proof -
      have "(of_nat n :: u32) + 1 = of_nat (Suc n)" by simp
      moreover have "unat (of_nat (Suc n) :: u32) = Suc n"
        using Cons.prems(1) by (simp only: unsigned_of_nat of_nat_id) (rule take_bit_nat_eq_self, simp)
      ultimately show ?thesis by (simp only:)
    qed
    obtain st err where c: "crash_of ev (of_nat n + 1) = Some (st, err)" using crash_of_Some [OF True] by blast
    note step = run_app_loop_crash [OF True c, of key evs apps]
    show ?thesis
    proof (cases "n = 4")
      case True
      then have "handle_app_crash key (of_nat n + 1) st err apps = (True, note_crash key (Some st) err apps)"
        using cnt by (simp add: handle_app_crash_def MAX_RESTARTS_def word_le_nat_alt)
      with step Cons.prems(2,3) c True show ?thesis
        by (auto simp: crashes_simps(5) [OF \<open>is_crash ev\<close>] note_crash_get loop_status_def)
    next
      case False
      then have n: "Suc n < 5" "\<not> of_nat n + 1 \<ge> MAX_RESTARTS"
        using Cons.prems(1) cnt by (simp_all add: MAX_RESTARTS_def word_le_nat_alt)
      define apps1 where "apps1 = (if err = None then apps else note_crash key None err apps)"
      obtain inst1 where i1: "hm_get apps1 key = Some inst1" "ai_status inst1 = ai_status inst"
        using Cons.prems(2) by (cases "err = None") (auto simp: apps1_def note_crash_get)
      have frame: "hm_get apps1 k = hm_get apps k" if "k \<noteq> key" for k using that by (simp add: apps1_def note_crash_get)
      obtain ps where rec: "run_app_loop key evs (of_nat (Suc n)) apps1 = (r, ps, apps')"
        and pauses: "pauses = backoff_secs (of_nat n + 1) # ps"
        using step Cons.prems(3) n(2)
        by (auto simp: handle_app_crash_def apps1_def add.commute split: prod.splits)
      have "backoff_secs (of_nat n + 1) # take m (drop (Suc n) [1, 2, 4, 8]) = take (Suc m) (drop n [1, 2, 4, 8])" for m
        using False Cons.prems(1) unfolding backoff_secs_def cnt
        by (auto simp: less_Suc_eq numeral_eq_Suc)
      with Cons.IH [OF n(1) i1(1) rec] pauses frame i1(2) False Cons.prems(1) show ?thesis
        by (auto simp: crashes_simps(5) [OF \<open>is_crash ev\<close>] loop_status_def nth_Cons' Suc_diff_Suc)
    qed
  qed
qed (auto simp: crashes_simps loop_status_def)

text \<open>Claim C25 (restarts). An app is given up exactly when it crashes - traps, panics or times out - five times
  before it is stopped or exits, no matter how long it ran in between: the count is never reset. It is
  restarted after the first four crashes, after 1, 2, 4 and 8 seconds. Its status then is that of
  the fifth crash; in every other case the status stays what it was, so an app that has exited goes
  on being reported as running. No other app is touched.\<close>

theorem app_loop_exact:
  assumes "hm_get apps key = Some inst" and "run_app_loop key evs 0 apps = (r, pauses, apps')"
  shows "(r = LoopGaveUp \<longleftrightarrow> 5 \<le> length (crashes evs)) \<and> pauses = take (length (crashes evs)) [1, 2, 4, 8] \<and>
    map_option ai_status (hm_get apps' key) =
      Some (if 5 \<le> length (crashes evs) then fst (the (crash_of (crashes evs ! 4) 5)) else ai_status inst) \<and>
    (\<forall>k. k \<noteq> key \<longrightarrow> hm_get apps' k = hm_get apps k)"
  using run_app_loop_general [of 0 apps key inst evs r pauses apps'] assms by (auto simp: loop_status_def)

section \<open>Purge\<close>

lemma purge_targets_iff:
  assumes "hm_wf (sv_apps sv)"
  shows "(n, d) \<in> set (purge_targets t app sv) \<longleftrightarrow> hm_contains (sv_apps sv) (t, n, d) \<and> (app = [] \<or> n = app)"
proof -
  have "(n, d) \<in> set (purge_targets t app sv) \<longleftrightarrow>
      (\<exists>s. (n, d, s) \<in> set (snapshot_current_apps t sv)) \<and> (app = [] \<or> n = app)"
    by (force simp: purge_targets_def Let_def list_ex_iff)
  then show ?thesis by (simp add: in_snapshot [OF assms])
qed

text \<open>The purge of one app purges its tenant. A purge message for an app of a valid tenant, when its
  handler returns, stops
  exactly the deployments of that app, or of the whole tenant when the name is empty. In either case
  the key-value store, the cache and the scheduler of the whole tenant are unregistered and cleared,
  also when no deployment of the app was running, and while the tenant's other apps go on running.\<close>

theorem purge_message_exact:
  assumes "hm_wf (sv_apps sv)" and "is_safe_tenant_id t"
    and "handle_purge now pe t app (sv, st) = (Returned r, sv', st')"
  shows "r = Inr () \<and>
    (\<forall>k. hm_get (sv_apps sv') k =
       (if fst k = t \<and> (app = [] \<or> fst (snd k) = app) then None else hm_get (sv_apps sv) k)) \<and>
    (hm_get (rg_map (rs_kv st')) t = None \<and> hm_get (rg_map (rs_cache st')) t = None \<and>
     hm_get (rg_map (rs_sched st')) t = None) \<and>
    (\<forall>a s. hm_get (rg_map (rs_kv st)) t = Some a \<and> hm_get (rg_heap (rs_kv st)) a = Some s \<and> \<not> pe_held_kv pe a \<longrightarrow>
       hm_get (rg_heap (rs_kv st')) a = Some (snd (pe_clear_kv pe s)))"
proof -
  from assms(2,3) obtain res paths where p: "purge_tenant pe t st = (Returned res, paths, st')" and r: "r = Inr ()"
    and sv': "sv' = fold (\<lambda>(n, d). stop_app now (t, n, d)) (purge_targets t app sv) sv"
    by (auto simp: handle_purge_def Let_def split: prod.splits outcome.splits)
  then have st': "st' = snd (snd (purge_tenant pe t st))" by simp
  have "hm_get (sv_apps sv') k =
      (if fst k = t \<and> (app = [] \<or> fst (snd k) = app) then None else hm_get (sv_apps sv) k)" for k
    unfolding sv' stop_apps_get using purge_targets_iff [OF assms(1), of _ _ t app]
    by (cases k) (auto simp: hm_contains_def)
  moreover have "fst (registry_purge (pe_clear_kv pe) (pe_held_kv pe) t (rs_kv st)) = Returned ()"
    using p assms(2) by (auto simp: purge_tenant_def Let_def split: prod.splits outcome.splits)
  ultimately show ?thesis using r registry_purge_own [of "rs_kv st" t]
    by (simp add: st' purge_tenant_kv [OF assms(2)] registry_purge_map)
qed

section \<open>Metering\<close>

definition sv_ok :: "('key, 'sig, 'comp) supervisor \<Rightarrow> bool" where
  "sv_ok sv \<longleftrightarrow> hm_wf (sv_apps sv) \<and>
     (\<forall>((t, n, d), inst) \<in> set (sv_apps sv). ai_tenant_id inst = t \<and> ai_app_name inst = n \<and> ai_deployment_id inst = d)"

definition wire_keys :: "('key, 'sig, 'comp) supervisor \<Rightarrow> string list" where
  "wire_keys sv = map (\<lambda>((_, n, d), _). wire_key n d) (sv_apps sv)"

lemma hm_insert_new: "k \<notin> fst ` set m \<Longrightarrow> hm_insert k v m = m @ [(k, v)]"
  unfolding hm_insert_def by (induction m) auto

lemma fold_insert_new:
  "distinct (map fst m @ map f xs) \<Longrightarrow> fold (\<lambda>x. hm_insert (f x) (g x)) xs m = m @ map (\<lambda>x. (f x, g x)) xs"
proof (induction xs arbitrary: m)
  case (Cons x xs)
  then have "hm_insert (f x) (g x) m = m @ [(f x, g x)]" by (intro hm_insert_new) auto
  with Cons.IH [of "m @ [(f x, g x)]"] Cons.prems show ?case by simp
qed simp

lemma heartbeat_apps:
  assumes "distinct (wire_keys sv)"
  shows "hb_apps (fst (build_heartbeat now ts secs' sv)) =
    map (\<lambda>((_, n, d), inst). (wire_key n d, status_of (wc_worker_id (sv_config sv)) secs' inst)) (sv_apps sv)"
proof -
  let ?f = "\<lambda>((_ :: string, n, d), _). wire_key n d" and ?g = "\<lambda>(_, inst). status_of (wc_worker_id (sv_config sv)) secs' inst"
  have "fold (\<lambda>x. hm_insert (?f x) (?g x)) (sv_apps sv) [] = [] @ map (\<lambda>x. (?f x, ?g x)) (sv_apps sv)"
    using assms by (intro fold_insert_new) (simp add: wire_keys_def)
  then show ?thesis by (simp add: build_heartbeat_def Let_def case_prod_unfold split: prod.splits)
qed

definition after_reset :: "app_status \<Rightarrow> 'comp app_instance \<Rightarrow> 'comp app_instance" where
  "after_reset st inst =
     (if ai_deployment_id inst \<noteq> as_deployment_id st then inst
      else inst\<lparr>ai_meter := reset_meter st (ai_meter inst)\<rparr>)"

lemma wire_key_split: "CHR '':'' \<notin> set n \<Longrightarrow> split_once (CHR '':'') (wire_key n d) = Some (n, d)"
  using split_once_append [of "CHR '':''" n d] by (simp add: wire_key_def)

lemma status_of_sel [simp]:
  "as_tenant_id (status_of w s inst) = ai_tenant_id inst" "as_deployment_id (status_of w s inst) = ai_deployment_id inst"
  "as_port (status_of w s inst) = ai_port inst" "as_protocol (status_of w s inst) = ai_protocol inst"
  "as_status (status_of w s inst) = app_status_to_string (ai_status inst)" "as_ws_port (status_of w s inst) = ai_ws_port inst"
  by (simp_all add: status_of_def Let_def)

lemma reset_one:
  assumes "CHR '':'' \<notin> set n" and "as_tenant_id st = t"
  shows "hm_get (sv_apps (reset_meters_after [(wire_key n d, st)] cur)) k =
    (if k = (t, n, d) then map_option (after_reset st) (hm_get (sv_apps cur) k) else hm_get (sv_apps cur) k)"
  using assms by (auto simp: reset_meters_after_def wire_key_split after_reset_def split: option.splits)

lemma reset_meters_Cons:
  "reset_meters_after (x # xs) cur = reset_meters_after xs (reset_meters_after [x] cur)"
  by (simp add: reset_meters_after_def)

lemma reset_all:
  assumes "distinct (map fst es)"
    and "\<forall>((t, n, d), inst) \<in> set es. ai_tenant_id inst = t \<and> CHR '':'' \<notin> set n"
  shows "hm_get (sv_apps (reset_meters_after
      (map (\<lambda>((_, n, d), inst). (wire_key n d, status_of w s inst)) es) cur)) k =
    (case map_of es k of
       None \<Rightarrow> hm_get (sv_apps cur) k
     | Some inst \<Rightarrow> map_option (after_reset (status_of w s inst)) (hm_get (sv_apps cur) k))"
  using assms
proof (induction es arbitrary: cur)
  case Nil
  then show ?case by (simp add: reset_meters_after_def)
next
  case (Cons e es)
  obtain t n d inst where e: "e = ((t, n, d), inst)" by (metis prod.exhaust)
  have one: "hm_get (sv_apps (reset_meters_after [(wire_key n d, status_of w s inst)] cur)) k =
      (if k = (t, n, d) then map_option (after_reset (status_of w s inst)) (hm_get (sv_apps cur) k)
       else hm_get (sv_apps cur) k)" for k
    using Cons.prems(2) by (intro reset_one) (auto simp: e)
  define cur1 where "cur1 = reset_meters_after [(wire_key n d, status_of w s inst)] cur"
  have "distinct (map fst es)" "\<forall>((t, n, d), inst) \<in> set es. ai_tenant_id inst = t \<and> CHR '':'' \<notin> set n"
    using Cons.prems by auto
  note ih = Cons.IH [OF this, of cur1]
  have step: "reset_meters_after (map (\<lambda>((_, n, d), inst). (wire_key n d, status_of w s inst)) (e # es)) cur =
      reset_meters_after (map (\<lambda>((_, n, d), inst). (wire_key n d, status_of w s inst)) es) cur1"
    unfolding cur1_def by (simp only: list.map e prod.case) (rule reset_meters_Cons)
  have "map_of es (t, n, d) = None" using Cons.prems(1) by (auto simp: e map_of_eq_None_iff)
  then show ?case
    unfolding step ih using one [of k, folded cur1_def] by (cases "k = (t, n, d)") (simp_all add: e split: option.split)
qed

lemma reset_meters_keys: "map fst (sv_apps (reset_meters_after apps cur)) = map fst (sv_apps cur)"
proof (induction apps arbitrary: cur)
  case (Cons x apps)
  obtain key st where x: "x = (key, st)" by fastforce
  have "map fst (sv_apps (reset_meters_after [(key, st)] cur)) = map fst (sv_apps cur)"
    by (auto simp: reset_meters_after_def hm_insert_def update_keys hm_get_def
        split: option.splits dest!: map_of_SomeD intro: rev_image_eqI)
  with Cons.IH show ?case unfolding x reset_meters_Cons [of "(key, st)" apps] by simp
qed (simp add: reset_meters_after_def)

lemma heartbeat_reports:
  assumes "distinct (wire_keys sv)" and "hm_get (sv_apps sv) (t, n, d) = Some inst"
  shows "hm_get (hb_apps (fst (build_heartbeat now ts unix sv))) (wire_key n d) =
    Some (status_of (wc_worker_id (sv_config sv)) unix inst)"
proof -
  let ?F = "\<lambda>((_ :: string, n, d), inst). (wire_key n d, status_of (wc_worker_id (sv_config sv)) unix inst)"
  have "map fst (map ?F (sv_apps sv)) = wire_keys sv" by (auto simp: wire_keys_def)
  moreover have "(wire_key n d, status_of (wc_worker_id (sv_config sv)) unix inst) \<in> set (map ?F (sv_apps sv))"
    using assms(2) by (force simp: hm_get_def dest: map_of_SomeD)
  ultimately show ?thesis
    unfolding heartbeat_apps [OF assms(1)] hm_get_def using assms(1) by (intro map_of_is_SomeI) simp_all
qed

text \<open>The instance under a key after the meters were reset.\<close>

lemma reset_after_heartbeat:
  assumes "sv_ok sv" and "distinct (wire_keys sv)" and "\<forall>((t, n, d), inst) \<in> set (sv_apps sv). CHR '':'' \<notin> set n"
    and "hm_get (sv_apps cur) (t, n, d) = Some inst'"
  shows "hm_get (sv_apps (reset_meters_after (hb_apps (fst (build_heartbeat now ts unix sv))) cur)) (t, n, d) =
    Some (case hm_get (sv_apps sv) (t, n, d) of
            None \<Rightarrow> inst'
          | Some inst \<Rightarrow> after_reset (status_of (wc_worker_id (sv_config sv)) unix inst) inst')"
proof -
  have "distinct (map fst (sv_apps sv))" using assms(1) by (simp add: sv_ok_def hm_wf_def)
  moreover have "\<forall>((t, n, d), inst) \<in> set (sv_apps sv). ai_tenant_id inst = t \<and> CHR '':'' \<notin> set n"
    using assms(1,3) by (fastforce simp: sv_ok_def)
  note reset = reset_all [OF calculation this, of "wc_worker_id (sv_config sv)" unix cur "(t, n, d)", folded hm_get_def]
  show ?thesis unfolding heartbeat_apps [OF assms(2)] reset assms(4) by (simp split: option.split)
qed

text \<open>What a meter is after a guest's activity was recorded in it: each counter grows by the counter of
  \<open>dl\<close>.\<close>

definition meter_add :: "meter \<Rightarrow> meter \<Rightarrow> meter" where
  "meter_add m dl =
     m\<lparr>mt_count := mt_count m + mt_count dl, mt_outbound_bytes := mt_outbound_bytes m + mt_outbound_bytes dl,
       mt_resident_seconds := mt_resident_seconds m + mt_resident_seconds dl,
       mt_duration_ms := mt_duration_ms m + mt_duration_ms dl, mt_errors := mt_errors m + mt_errors dl\<rparr>"

lemmas reset_counters = after_reset_def reset_meter_def status_of_def meter_snapshot_def subtract_delta_def
  subtract_resident_seconds_def subtract_duration_ms_def subtract_error_delta_def meter_add_def Let_def

text \<open>Claim C15 (metering across a heartbeat). Let a heartbeat be built and published, let the meters be
  reset afterwards, in a state in which guests may have recorded more and apps may have come and
  gone, and let the next heartbeat be built then. It reports the meters of every app as the reset left
  them. The meter of an app that was not reported is untouched; every counter of a reported deployment
  is what it was less what the heartbeat carried, modulo \<open>2 ^ 64\<close>. So when the running instance is the
  one that was reported, and its counters have grown by \<open>dl\<close> since, the next heartbeat carries exactly
  \<open>dl\<close>: what was recorded in between is reported once.\<close>

theorem metering_exact:
  assumes "sv_ok sv" and "distinct (wire_keys sv)" and "\<forall>((t, n, d), inst) \<in> set (sv_apps sv). CHR '':'' \<notin> set n"
    and "hm_get (sv_apps cur) (t, n, d) = Some inst'" and "ai_deployment_id inst' = d" and "distinct (wire_keys cur)"
    and "cur' = reset_meters_after (hb_apps (fst (build_heartbeat now ts unix sv))) cur"
  shows "\<exists>inst'' st. hm_get (sv_apps cur') (t, n, d) = Some inst'' \<and>
    hm_get (hb_apps (fst (build_heartbeat now' ts' unix' cur'))) (wire_key n d) = Some st \<and>
    (as_request_count st = mt_count (ai_meter inst'') \<and> as_outbound_bytes st = mt_outbound_bytes (ai_meter inst'') \<and>
     as_resident_seconds st =
       (if ai_execution_model inst'' = LongRunning then Some (mt_resident_seconds (ai_meter inst'')) else None) \<and>
     as_duration_ms_total st = mt_duration_ms (ai_meter inst'') \<and> as_status_5xx_count st = mt_errors (ai_meter inst'')) \<and>
    (case hm_get (sv_apps sv) (t, n, d) of
       None \<Rightarrow> inst'' = inst'
     | Some inst \<Rightarrow>
         (mt_count (ai_meter inst'') = mt_count (ai_meter inst') - mt_count (ai_meter inst) \<and>
          mt_outbound_bytes (ai_meter inst'') = mt_outbound_bytes (ai_meter inst') - mt_outbound_bytes (ai_meter inst) \<and>
          mt_resident_seconds (ai_meter inst'') = mt_resident_seconds (ai_meter inst') -
            (if ai_execution_model inst = LongRunning then mt_resident_seconds (ai_meter inst) else 0) \<and>
          mt_duration_ms (ai_meter inst'') = mt_duration_ms (ai_meter inst') - mt_duration_ms (ai_meter inst) \<and>
          mt_errors (ai_meter inst'') = mt_errors (ai_meter inst') - mt_errors (ai_meter inst)) \<and>
         (ai_meter inst' = meter_add (ai_meter inst) dl \<and> ai_execution_model inst' = ai_execution_model inst \<longrightarrow>
          as_request_count st = mt_count dl \<and> as_outbound_bytes st = mt_outbound_bytes dl \<and>
          as_resident_seconds st = (if ai_execution_model inst = LongRunning then Some (mt_resident_seconds dl) else None) \<and>
          as_duration_ms_total st = mt_duration_ms dl \<and> as_status_5xx_count st = mt_errors dl))"
proof -
  let ?inst'' = "case hm_get (sv_apps sv) (t, n, d) of
      None \<Rightarrow> inst' | Some inst \<Rightarrow> after_reset (status_of (wc_worker_id (sv_config sv)) unix inst) inst'"
  have get: "hm_get (sv_apps cur') (t, n, d) = Some ?inst''"
    unfolding assms(7) by (rule reset_after_heartbeat [OF assms(1-4)])
  have "wire_keys cur' = wire_keys cur"
    using arg_cong [OF reset_meters_keys, of "map (\<lambda>(_, n, d). wire_key n d)"]
    by (simp add: wire_keys_def assms(7) comp_def case_prod_unfold)
  then have rep: "hm_get (hb_apps (fst (build_heartbeat now' ts' unix' cur'))) (wire_key n d) =
      Some (status_of (wc_worker_id (sv_config cur')) unix' ?inst'')"
    using heartbeat_reports [OF _ get] assms(6) by simp
  show ?thesis
  proof (cases "hm_get (sv_apps sv) (t, n, d)")
    case None
    with get rep show ?thesis by (simp add: status_of_def meter_snapshot_def Let_def)
  next
    case (Some inst)
    then have "ai_deployment_id inst = d" using assms(1) by (fastforce simp: sv_ok_def hm_get_def dest: map_of_SomeD)
    with get rep Some assms(5) show ?thesis
      by (cases "ai_execution_model inst = LongRunning") (simp_all add: reset_counters)
  qed
qed

lemma unat_uminus:
  fixes x :: u64
  assumes "x \<noteq> 0"
  shows "unat (- x) = 2 ^ 64 - unat x"
proof -
  have "unat x < 2 ^ LENGTH(64)" by (rule unsigned_less)
  then have "unat x \<le> 2 ^ 64" by simp
  then have "- x = word_of_nat (2 ^ 64 - unat x)" by (simp add: of_nat_diff)
  moreover have "0 < unat x" using assms by (simp add: unat_gt_0)
  ultimately show ?thesis by (simp add: unat_of_nat)
qed

text \<open>A deployment that was stopped and started again between the heartbeat and the reset has a fresh
  meter under the same key and the same deployment id. The guard on the deployment id lets it pass,
  and the subtraction wraps around: the next heartbeat of the deployment carries \<open>2 ^ 64\<close> less what was
  already reported, although the comment says that the new instance's meter must not be reduced.\<close>

theorem restarted_meter_wraps:
  assumes "sv_ok sv" and "distinct (wire_keys sv)" and "\<forall>((t, n, d), inst) \<in> set (sv_apps sv). CHR '':'' \<notin> set n"
    and "hm_get (sv_apps sv) (t, n, d) = Some inst" and "mt_count (ai_meter inst) \<noteq> 0"
    and "hm_get (sv_apps cur) (t, n, d) = Some inst'" and "ai_deployment_id inst' = d"
    and "ai_meter inst' = meter_new t d" and "distinct (wire_keys cur)"
    and "cur' = reset_meters_after (hb_apps (fst (build_heartbeat now ts unix sv))) cur"
  shows "\<exists>st. hm_get (hb_apps (fst (build_heartbeat now' ts' unix' cur'))) (wire_key n d) = Some st \<and>
    unat (as_request_count st) = 2 ^ 64 - unat (mt_count (ai_meter inst))"
proof -
  let ?inst'' = "after_reset (status_of (wc_worker_id (sv_config sv)) unix inst) inst'"
  have get: "hm_get (sv_apps cur') (t, n, d) = Some ?inst''"
    using reset_after_heartbeat [OF assms(1-3,6)] assms(4) by (simp add: assms(10))
  have "wire_keys cur' = wire_keys cur"
    using arg_cong [OF reset_meters_keys, of "map (\<lambda>(_, n, d). wire_key n d)"]
    by (simp add: wire_keys_def assms(10) comp_def case_prod_unfold)
  then have rep: "hm_get (hb_apps (fst (build_heartbeat now' ts' unix' cur'))) (wire_key n d) =
      Some (status_of (wc_worker_id (sv_config cur')) unix' ?inst'')"
    using heartbeat_reports [OF _ get] assms(9) by simp
  have "ai_deployment_id inst = d" using assms(1,4) by (fastforce simp: sv_ok_def hm_get_def dest: map_of_SomeD)
  with assms(7,8) have "mt_count (ai_meter ?inst'') = - mt_count (ai_meter inst)"
    by (simp add: reset_counters meter_new_def)
  with rep assms(5) show ?thesis
    by (simp add: status_of_def meter_snapshot_def Let_def unat_uminus)
qed

section \<open>The ingress and the heartbeat of a worker\<close>

definition wire_heartbeat ::
  "instant \<Rightarrow> string \<Rightarrow> int \<Rightarrow> ('key, 'sig, 'comp) supervisor \<Rightarrow> heartbeat" where
  "wire_heartbeat now ts unix sv = heartbeat.truncate (fst (build_heartbeat now ts unix sv))"

text \<open>App names and deployment ids as the wire format assumes them: no colon in a name, no two apps
  with the same key, and no app that has the name and the deployment id of another app's WebSocket
  route.\<close>

definition names_apart :: "('key, 'sig, 'comp) supervisor \<Rightarrow> bool" where
  "names_apart sv \<longleftrightarrow> distinct (wire_keys sv) \<and>
     (\<forall>((t, n, d), inst) \<in> set (sv_apps sv). CHR '':'' \<notin> set n \<and>
        (\<forall>((t', n', d'), inst') \<in> set (sv_apps sv). (t', n', d') \<noteq> (t, n @ ''-ws'', d @ ''-ws'')))"

lemma wire_heartbeat_sel [simp]:
  "hb_worker_addr (wire_heartbeat now ts unix sv) = Some (wc_worker_addr (sv_config sv))"
  "distinct (wire_keys sv) \<Longrightarrow> hb_apps (wire_heartbeat now ts unix sv) =
     map (\<lambda>((_, n, d), inst). (wire_key n d, status_of (wc_worker_id (sv_config sv)) unix inst)) (sv_apps sv)"
proof -
  show "hb_worker_addr (wire_heartbeat now ts unix sv) = Some (wc_worker_addr (sv_config sv))"
    by (simp add: wire_heartbeat_def heartbeat.truncate_def build_heartbeat_def Let_def split: prod.splits)
  assume "distinct (wire_keys sv)"
  from heartbeat_apps [OF this, of now ts unix]
  show "hb_apps (wire_heartbeat now ts unix sv) =
     map (\<lambda>((_, n, d), inst). (wire_key n d, status_of (wc_worker_id (sv_config sv)) unix inst)) (sv_apps sv)"
    by (simp add: wire_heartbeat_def heartbeat.truncate_def)
qed

lemma wire_touches:
  assumes "CHR '':'' \<notin> set n" and "ai_tenant_id inst = t"
  shows "http_touches (wire_key n d, status_of w s inst) \<subseteq>
    {\<lparr>ak_tenant_id = t, ak_app_name = n, ak_deployment_id = Some d\<rparr>,
     \<lparr>ak_tenant_id = t, ak_app_name = n @ ''-ws'', ak_deployment_id = Some (d @ ''-ws'')\<rparr>}"
    and "http_key (wire_key n d, status_of w s inst) = \<lparr>ak_tenant_id = t, ak_app_name = n, ak_deployment_id = Some d\<rparr>"
  using assms by (auto simp: http_touches_def http_key_def ws_key_def split_app_key_def wire_key_split)

lemma other_app_apart:
  assumes "sv_ok sv" and "names_apart sv" and "((t, n, d), inst) \<in> set (sv_apps sv)"
    and "((t', n', d'), inst') \<in> set (sv_apps sv)" and "(t', n', d') \<noteq> (t, n, d)"
  shows "\<lparr>ak_tenant_id = t, ak_app_name = n, ak_deployment_id = Some d\<rparr> \<notin>
    http_touches (wire_key n' d', status_of w s inst')"
proof -
  have colon: "CHR '':'' \<notin> set n'"
    and ws: "\<forall>((t'', n'', d''), _) \<in> set (sv_apps sv). (t'', n'', d'') \<noteq> (t', n' @ ''-ws'', d' @ ''-ws'')"
    using bspec [OF conjunct2 [OF assms(2) [unfolded names_apart_def]] assms(4)] by simp_all
  have "ai_tenant_id inst' = t'"
    using bspec [OF conjunct2 [OF assms(1) [unfolded sv_ok_def]] assms(4)] by simp
  with colon have "CHR '':'' \<notin> set n'" "ai_tenant_id inst' = t'" by simp_all
  note touches = wire_touches(1) [OF this, of d' w s]
  have "(t, n, d) \<noteq> (t', n' @ ''-ws'', d' @ ''-ws'')" using bspec [OF ws assms(3)] by simp
  then have "\<lparr>ak_tenant_id = t, ak_app_name = n, ak_deployment_id = Some d\<rparr> \<notin>
    {\<lparr>ak_tenant_id = t', ak_app_name = n', ak_deployment_id = Some d'\<rparr>,
     \<lparr>ak_tenant_id = t', ak_app_name = n' @ ''-ws'', ak_deployment_id = Some (d' @ ''-ws'')\<rparr>}"
    using assms(5) by auto
  with touches show ?thesis by blast
qed

lemma app_protocol_status: "app_protocol (status_of w s inst) = (if ai_protocol inst = [] then ''http'' else ai_protocol inst)"
  by (simp add: app_protocol_def)

lemma hm_remove_insert: "hm_remove k (hm_insert k v m) = hm_remove k m"
  unfolding hm_remove_def hm_insert_def AList.delete_eq by (induction m) auto

lemma stop_app_apps: "sv_apps (stop_app now key sv) = hm_remove key (sv_apps sv)"
proof (cases "hm_get (sv_apps sv) key")
  case None
  then have "\<forall>(k, _) \<in> set (sv_apps sv). k \<noteq> key" by (force simp: hm_get_def map_of_eq_None_iff)
  then have "hm_remove key (sv_apps sv) = sv_apps sv"
    unfolding hm_remove_def AList.delete_eq by (intro filter_True) auto
  with None show ?thesis by (simp add: stop_app_def)
next
  case (Some inst)
  then show ?thesis by (simp add: stop_app_def set_app_status_def Let_def hm_remove_insert)
qed

lemma stop_app_config [simp]: "sv_config (stop_app now key sv) = sv_config sv"
  by (simp add: stop_app_def set_app_status_def Let_def split: option.splits)

lemma stop_app_pool:
  "hm_get (sv_apps sv) key = Some inst \<Longrightarrow> sv_pool (stop_app now key sv) =
     sv_pool (release_ports now (ai_port inst) (ai_ws_port inst) sv)"
  by (simp add: stop_app_def set_app_status_def Let_def release_ports_def split: option.split)

text \<open>Claim C6 (from the worker to the ingress). When the ingress applies the heartbeat of a worker, each
  HTTP app the worker has - under its tenant, name and deployment - gets exactly the route to that
  worker's address and to the port the supervisor gave the app, with the reported status, if the app is running
  or draining; if it is starting, stopping, crashed or hung, it has no route under that key.\<close>

theorem worker_app_routed:
  assumes "sv_ok sv" and "names_apart sv" and "wc_worker_addr (sv_config sv) \<noteq> []"
    and "hm_get (sv_apps sv) (t, n, d) = Some inst" and "ai_protocol inst \<noteq> ''tcp''" and "rt_inv rt"
  shows "rt_lookup (hb_table (apply_heartbeat now' cache (wire_heartbeat now ts unix sv) (rt, tb, p)))
      \<lparr>ak_tenant_id = t, ak_app_name = n, ak_deployment_id = Some d\<rparr> =
    (if ai_status inst = StRunning \<or> ai_status inst = StDraining
     then Some (upsert_entry now' t n (Some d) 100 (wc_worker_addr (sv_config sv)) (ai_port inst)
       (app_status_to_string (ai_status inst)))
     else None)"
proof -
  let ?F = "\<lambda>((_ :: string, n, d), inst). (wire_key n d, status_of (wc_worker_id (sv_config sv)) unix inst)"
  from assms(4) have mem: "((t, n, d), inst) \<in> set (sv_apps sv)" by (simp add: hm_get_def map_of_SomeD)
  then obtain before later where sp: "sv_apps sv = before @ ((t, n, d), inst) # later" by (meson split_list)
  have dist: "distinct (wire_keys sv)" and colon: "CHR '':'' \<notin> set n"
    using assms(2) bspec [OF conjunct2 [OF assms(2) [unfolded names_apart_def]] mem] by (simp_all add: names_apart_def)
  have ten: "ai_tenant_id inst = t" using bspec [OF conjunct2 [OF assms(1) [unfolded sv_ok_def]] mem] by simp
  have apart: "\<forall>ka \<in> set (map ?F later). http_key (?F ((t, n, d), inst)) \<notin> http_touches ka"
  proof
    fix ka assume "ka \<in> set (map ?F later)"
    then obtain t' n' d' inst' where e: "((t', n', d'), inst') \<in> set later" "ka = ?F ((t', n', d'), inst')" by auto
    have "distinct (map fst (sv_apps sv))" using assms(1) by (simp add: sv_ok_def hm_wf_def)
    then have "(t, n, d) \<notin> set (map fst later)" by (simp add: sp)
    moreover have "(t', n', d') \<in> set (map fst later)" using e(1) by (metis fst_conv image_eqI set_map)
    ultimately have "(t', n', d') \<noteq> (t, n, d)" by metis
    moreover have "((t', n', d'), inst') \<in> set (sv_apps sv)" using e(1) by (simp add: sp)
    ultimately have "\<lparr>ak_tenant_id = t, ak_app_name = n, ak_deployment_id = Some d\<rparr> \<notin> http_touches ka"
      unfolding e(2) prod.case by (intro other_app_apart [OF assms(1,2) mem])
    then show "http_key (?F ((t, n, d), inst)) \<notin> http_touches ka" by (simp add: wire_touches(2) [OF colon ten])
  qed
  have hb: "hb_apps (wire_heartbeat now ts unix sv) =
      map ?F before @ (wire_key n d, status_of (wc_worker_id (sv_config sv)) unix inst) # map ?F later"
    using dist by (simp add: sp)
  have key: "split_app_key (wire_key n d) = (n, Some d)" by (simp add: split_app_key_def wire_key_split [OF colon])
  have proto: "app_protocol (status_of (wc_worker_id (sv_config sv)) unix inst) \<noteq> ''tcp''"
    using assms(5) by (simp add: app_protocol_status)
  have "routable (app_status_to_string (ai_status inst)) \<longleftrightarrow> ai_status inst = StRunning \<or> ai_status inst = StDraining"
    by (cases "ai_status inst") (simp_all add: routable_def)
  then show ?thesis
    using heartbeat_route_lookup [OF wire_heartbeat_sel(1) assms(3) hb key proto apart [unfolded prod.case] assms(6),
        of now' cache tb p]
    by (simp only: status_of_sel ten)
qed

text \<open>A stopped app keeps its route. After the supervisor has stopped one of several apps and put
  its port into the cooldown, the next heartbeat of the worker does not mention the app, and the
  ingress keeps whatever route it had: traffic for the app still goes to the released port until
  the route is pruned for age.\<close>

theorem stopped_app_keeps_route:
  assumes "sv_ok sv" and "names_apart sv" and "wc_worker_addr (sv_config sv) \<noteq> []"
    and "hm_get (sv_apps sv) (t, n, d) = Some inst" and "sv' = stop_app now (t, n, d) sv" and "sv_apps sv' \<noteq> []"
    and "rt_inv rt"
  shows "rt_lookup (hb_table (apply_heartbeat now' cache (wire_heartbeat later ts unix sv') (rt, tb, p)))
      \<lparr>ak_tenant_id = t, ak_app_name = n, ak_deployment_id = Some d\<rparr> =
    rt_lookup rt \<lparr>ak_tenant_id = t, ak_app_name = n, ak_deployment_id = Some d\<rparr> \<and>
    ai_port inst \<in> fst ` set (wp_cooling_down (sv_pool sv'))"
proof -
  let ?F = "\<lambda>((_ :: string, n, d), inst). (wire_key n d, status_of (wc_worker_id (sv_config sv)) unix inst)"
  from assms(4) have mem: "((t, n, d), inst) \<in> set (sv_apps sv)" by (simp add: hm_get_def map_of_SomeD)
  have apps: "sv_apps sv' = filter (\<lambda>(k, _). (t, n, d) \<noteq> k) (sv_apps sv)"
    by (simp add: assms(5) stop_app_apps hm_remove_def AList.delete_eq)
  have "distinct (wire_keys sv')" using assms(2) unfolding names_apart_def wire_keys_def apps
    by (auto intro: distinct_map_filter)
  then have hb: "hb_apps (wire_heartbeat later ts unix sv') = map ?F (sv_apps sv')" by (simp add: assms(5))
  have apart: "\<forall>ka \<in> set (map ?F (sv_apps sv')).
      \<lparr>ak_tenant_id = t, ak_app_name = n, ak_deployment_id = Some d\<rparr> \<notin> http_touches ka"
  proof
    fix ka assume "ka \<in> set (map ?F (sv_apps sv'))"
    then obtain t' n' d' inst' where e: "((t', n', d'), inst') \<in> set (sv_apps sv)" "(t', n', d') \<noteq> (t, n, d)"
      "ka = (wire_key n' d', status_of (wc_worker_id (sv_config sv)) unix inst')"
      by (auto simp: apps)
    show "\<lparr>ak_tenant_id = t, ak_app_name = n, ak_deployment_id = Some d\<rparr> \<notin> http_touches ka"
      unfolding e(3) by (rule other_app_apart [OF assms(1,2) mem e(1,2)])
  qed
  have cfg: "sv_config sv' = sv_config sv" by (simp add: assms(5))
  have "rt_lookup (hb_table (apply_heartbeat now' cache (wire_heartbeat later ts unix sv') (rt, tb, p)))
      \<lparr>ak_tenant_id = t, ak_app_name = n, ak_deployment_id = Some d\<rparr> =
    rt_lookup rt \<lparr>ak_tenant_id = t, ak_app_name = n, ak_deployment_id = Some d\<rparr>"
    using apply_apps_http_frame [OF _ apart, of "(False, rt, tb, p)" now' "wc_worker_addr (sv_config sv)" cache] assms(3,6,7)
    by (simp add: apply_heartbeat_apps [OF wire_heartbeat_sel(1)] hb cfg hb_table_def)
  moreover have "ai_port inst \<in> fst ` set (wp_cooling_down (sv_pool sv'))"
    unfolding assms(5) stop_app_pool [OF assms(4)]
    by (force simp: release_ports_def wp_release_def Let_def list_ex_iff split: option.splits)
  ultimately show ?thesis by blast
qed

section \<open>Reachable states\<close>

text \<open>The states of a supervisor: it starts without apps, and changes by messages (also ones that fail),
  by stops, by heartbeats, by resets after them and by the crashes that the loop of an app records.\<close>

inductive sv_reachable :: "('key, 'sig, 'comp) supervisor \<Rightarrow> bool" where
  boot: "sv_apps sv = [] \<Longrightarrow> sv_reachable sv"
| message: "sv_reachable sv \<Longrightarrow> reconcile now env t apps sv = (r, sv') \<Longrightarrow> sv_reachable sv'"
| stop: "sv_reachable sv \<Longrightarrow> sv_reachable (stop_app now key sv)"
| heartbeat: "sv_reachable sv \<Longrightarrow> sv_reachable (snd (build_heartbeat now ts unix sv))"
| reset: "sv_reachable sv \<Longrightarrow> sv_reachable (reset_meters_after apps sv)"
| crash: "sv_reachable sv \<Longrightarrow> run_app_loop key evs n (sv_apps sv) = (r, pauses, apps) \<Longrightarrow>
    sv_reachable (sv\<lparr>sv_apps := apps\<rparr>)"

lemma reachable_stops: "sv_reachable sv \<Longrightarrow> sv_reachable (fold (\<lambda>(n, d). stop_app now (t, n, d)) keys sv)"
  by (induction keys arbitrary: sv) (auto intro: sv_reachable.stop)

text \<open>The messages of the control plane are among the steps: what a purge does to the apps is a
  sequence of stops.\<close>

lemma reachable_message:
  assumes "sv_reachable sv" and "handle_task_message now env pe msg (sv, st) = (r, sv', st')"
  shows "sv_reachable sv'"
  using assms reachable_stops [OF assms(1)]
  by (auto simp: handle_task_message_def handle_purge_def Let_def intro: sv_reachable.message
      split: task_message.splits prod.splits if_splits outcome.splits)

text \<open>What every entry of the map satisfies: the key is the identity of the instance, the tenant id is a
  safe path component, a long-running app has a component, and the guest's environment names the
  ports and the protocol the supervisor reports for it.\<close>

definition entry_ok :: "app_triple \<times> 'comp app_instance \<Rightarrow> bool" where
  "entry_ok = (\<lambda>((t, n, d), inst).
     ai_tenant_id inst = t \<and> ai_app_name inst = n \<and> ai_deployment_id inst = d \<and> is_safe_tenant_id t \<and>
     (ai_execution_model inst = LongRunning \<longrightarrow> ai_component inst \<noteq> None) \<and>
     hm_get (ln_env (ai_launch inst)) ''EDGE_HTTP_SERVER_PORT'' = Some (dec (unat (ai_port inst))) \<and>
     hm_get (ln_env (ai_launch inst)) ''EDGE_WS_PORT'' = map_option (\<lambda>ws. dec (unat ws)) (ai_ws_port inst) \<and>
     ai_protocol inst = (case hm_get (ln_env (ai_launch inst)) ''EDGE_PROTOCOL'' of Some p \<Rightarrow> p | None \<Rightarrow> ''http''))"

definition apps_ok :: "(app_triple, 'comp app_instance) hashmap \<Rightarrow> bool" where
  "apps_ok apps \<longleftrightarrow> hm_wf apps \<and> (\<forall>e \<in> set apps. entry_ok e)"

lemma apps_ok_iff: "apps_ok apps \<longleftrightarrow> hm_wf apps \<and> (\<forall>k inst. hm_get apps k = Some inst \<longrightarrow> entry_ok (k, inst))"
  by (auto simp: apps_ok_def hm_in_iff_get [symmetric])

lemma apps_ok_insert: "apps_ok apps \<Longrightarrow> entry_ok (k, inst) \<Longrightarrow> apps_ok (hm_insert k inst apps)"
  by (simp add: apps_ok_iff)

lemma apps_ok_remove: "apps_ok apps \<Longrightarrow> apps_ok (hm_remove k apps)"
  by (simp add: apps_ok_iff)

lemma apps_ok_get: "apps_ok apps \<Longrightarrow> hm_get apps k = Some inst \<Longrightarrow> entry_ok (k, inst)"
  by (cases k) (auto simp: apps_ok_iff)

lemma entry_ok_update [simp]:
  "entry_ok (k, inst\<lparr>ai_status := st\<rparr>) = entry_ok (k, inst)" "entry_ok (k, inst\<lparr>ai_meter := m\<rparr>) = entry_ok (k, inst)"
  "entry_ok (k, inst\<lparr>ai_last_error := e\<rparr>) = entry_ok (k, inst)"
  by (simp_all add: entry_ok_def split: prod.splits)

lemma acquire_ports_ws:
  "acquire_ports now wants sv = (Inr (raw, ws), sv') \<Longrightarrow> ws = None \<longleftrightarrow> \<not> wants"
  by (auto simp: acquire_ports_def Let_def split: prod.splits option.splits if_splits)

lemma entry_ok_new:
  assumes "is_safe_tenant_id t" and "model = LongRunning \<longrightarrow> component \<noteq> None"
    and "ws = None \<longleftrightarrow> \<not> hm_contains (ap_env spec) ''EDGE_WS_PORT''"
  shows "entry_ok ((t, n, ap_deployment_id spec), new_instance cfg n spec t raw ws model component)"
  using assms by (auto simp: entry_ok_def new_instance_def launch_of_def build_app_env_def hm_contains_def Let_def
      split: option.splits)

lemma apps_ok_start:
  assumes "apps_ok (sv_apps sv)" and "start_app env n spec t sv = (r, sv')"
  shows "apps_ok (sv_apps sv')"
proof (cases r)
  case (Inl e)
  with assms start_app_Inl [of env n spec t sv e sv'] show ?thesis by simp
next
  case (Inr u)
  with assms(2) have "start_app env n spec t sv = (Inr u, sv')" by simp
  from start_app_Inr [OF this] obtain raw ws sv1 artifact fs component fs' where
    t: "is_safe_tenant_id t"
    and acq: "acquire_ports (st_now env) (hm_contains (ap_env spec) ''EDGE_WS_PORT'') sv = (Inr (raw, ws), sv1)"
    and prep: "prepare_component env (detect_execution_model_from_bytes (st_exports env) artifact) (ap_deployment_id spec)
       artifact fs = (Inr component, fs')"
    and sv': "sv' = sv1\<lparr>sv_files := fs', sv_apps := hm_insert (t, n, ap_deployment_id spec)
       (new_instance (sv_config sv) n spec t raw ws
          (detect_execution_model_from_bytes (st_exports env) artifact) component) (sv_apps sv)\<rparr>"
    by blast
  have "detect_execution_model_from_bytes (st_exports env) artifact = LongRunning \<longrightarrow> component \<noteq> None"
    using prep by (auto simp: prepare_component_def split: if_splits prod.splits option.splits)
  from entry_ok_new [OF t this acquire_ports_ws [OF acq]] assms(1) show ?thesis by (simp add: sv' apps_ok_insert)
qed

lemma apps_ok_stop: "apps_ok (sv_apps sv) \<Longrightarrow> apps_ok (sv_apps (stop_app now key sv))"
  by (simp add: stop_app_apps apps_ok_remove)

lemma apps_ok_stops:
  "apps_ok (sv_apps sv) \<Longrightarrow> apps_ok (sv_apps (fold (\<lambda>(n, d). stop_app now (t, n, d)) keys sv))"
  by (induction keys arbitrary: sv) (auto intro: apps_ok_stop)

lemma apps_ok_starts:
  "apps_ok (sv_apps sv) \<Longrightarrow> start_apps env t specs sv = (r, sv') \<Longrightarrow> apps_ok (sv_apps sv')"
  by (induction env t specs sv rule: start_apps.induct) (auto dest: apps_ok_start split: prod.splits sum.splits)

lemma apps_ok_note: "apps_ok apps \<Longrightarrow> apps_ok (note_crash key st err apps)"
  by (auto simp: note_crash_def intro!: apps_ok_insert dest: apps_ok_get split: option.splits)

lemma apps_ok_crash: "apps_ok apps \<Longrightarrow> handle_app_crash key n st err apps = (b, apps') \<Longrightarrow> apps_ok apps'"
  by (auto simp: handle_app_crash_def apps_ok_note split: if_splits)

lemma apps_ok_loop: "apps_ok apps \<Longrightarrow> run_app_loop key evs n apps = (r, pauses, apps') \<Longrightarrow> apps_ok apps'"
proof (induction evs arbitrary: n apps pauses)
  case (Cons ev evs)
  show ?case
  proof (cases "is_crash ev")
    case True
    then obtain st err where c: "crash_of ev (n + 1) = Some (st, err)" using crash_of_Some by blast
    obtain b apps1 where h: "handle_app_crash key (n + 1) st err apps = (b, apps1)" by fastforce
    show ?thesis using Cons.prems(2) apps_ok_crash [OF Cons.prems(1) h] Cons.IH
      unfolding run_app_loop_crash [OF True c] h by (auto split: bool.splits prod.splits)
  next
    case False
    then show ?thesis using Cons by (cases ev) (auto simp: is_crash_def)
  qed
qed simp

lemma apps_ok_reset: "apps_ok (sv_apps sv) \<Longrightarrow> apps_ok (sv_apps (reset_meters_after apps sv))"
proof (induction apps arbitrary: sv)
  case (Cons x apps)
  obtain key st where x: "x = (key, st)" by (cases x)
  have "apps_ok (sv_apps (reset_meters_after [(key, st)] sv))"
    using Cons.prems by (auto simp: reset_meters_after_def intro!: apps_ok_insert dest: apps_ok_get split: option.splits)
  with Cons.IH show ?case unfolding x reset_meters_Cons [of "(key, st)" apps] by blast
qed (simp add: reset_meters_after_def)

lemma apps_ok_reconcile:
  assumes "apps_ok (sv_apps sv)" and "reconcile now env t apps sv = (r, sv')"
  shows "apps_ok (sv_apps sv')"
  using assms apps_ok_stops [OF assms(1)]
  by (auto simp: reconcile_def Let_def dest: apps_ok_starts split: prod.splits sum.splits)

text \<open>Claim C18 (the entries of a supervisor are well-formed). In every reachable state of a supervisor - after any
  sequence of messages, also failing ones, purges, stops, crashes, heartbeats and resets - no two
  apps share a key, each instance is filed under its own tenant, name and deployment, the tenant id
  is safe to use in a path, a long-running app has a component, and the port variables and the
  protocol in the guest's environment are those the supervisor reports in its heartbeats.\<close>

theorem supervisor_well_formed:
  assumes "sv_reachable sv"
  shows "hm_wf (sv_apps sv) \<and> (\<forall>e \<in> set (sv_apps sv). entry_ok e)"
proof -
  from assms have "apps_ok (sv_apps sv)"
  proof induction
    case (boot sv)
    then show ?case by (simp add: apps_ok_def)
  next
    case (heartbeat sv now ts unix)
    then show ?case by (simp add: build_heartbeat_def Let_def split: prod.splits)
  qed (auto intro: apps_ok_reconcile apps_ok_reset apps_ok_loop apps_ok_stop)
  then show ?thesis by (simp add: apps_ok_def)
qed

section \<open>A worker\<close>

text \<open>A worker that requires signatures, with one cached artifact and two free ports; an environment in
  which everything succeeds; one signed deployment.\<close>

definition sample_sv :: "(bytes, bytes, nat) supervisor" where
  "sample_sv =
     \<lparr>sv_config = \<lparr>wc_worker_id = ''w1'', wc_region = ''fra'', wc_worker_addr = ''10.0.0.5'', wc_worker_tenant_id = ''acme'',
        wc_require_signature = True, wc_socket_mode = BlockAll, wc_max_memory_mb = 128, wc_handler_request_budget_ms = 100\<rparr>,
      sv_apps = [],
      sv_pool = \<lparr>wp_next_port = 9000, wp_starting_port = 9000, wp_cooldown_secs = 30, wp_available = [9000, 9001],
        wp_cooling_down = []\<rparr>,
      sv_exhausted = 0, sv_downloader = one_downloader, sv_files = \<lparr>cf_wasm = [(''d1'', [1, 2])], cf_cwasm = []\<rparr>\<rparr>"

definition good_env :: "nat start_env" where
  "good_env =
     \<lparr>st_now = 0, st_later = 1, st_files = good_files, st_rnd = (\<lambda>_. 0), st_net = (\<lambda>_ _. Transport True),
      st_exports = (\<lambda>_. None), st_cwasm_read_ok = True, st_cwasm_write_ok = True, st_deserialize = (\<lambda>_. Some 7),
      st_compile = (\<lambda>_. Some 3), st_serialize = (\<lambda>_. None), st_linker_ok = True, st_instantiate = (\<lambda>_. True),
      st_register_ok = True, st_dispatch_ok = True\<rparr>"

definition sample_spec :: app_spec where
  "sample_spec =
     \<lparr>ap_deployment_id = ''d1'', ap_deployment_hash = replicate 64 (CHR ''0''),
      ap_deployment_signature = Some (replicate 64 (CHR ''a'')), ap_signing_key_id = None, ap_routes = None, ap_env = [],
      ap_allowlist = None, ap_socket_mode = None, ap_max_memory_mb = 0, ap_cpu_budget_ms = None, ap_preview_id = None,
      ap_preview_pr_number = None\<rparr>"

definition sample_instance :: "nat app_instance" where
  "sample_instance = new_instance (sv_config sample_sv) ''api'' sample_spec ''acme'' 9000 None LongRunning (Some 3)"

definition sample_started :: "(bytes, bytes, nat) supervisor" where
  "sample_started = sample_sv
     \<lparr>sv_apps := [((''acme'', ''api'', ''d1''), sample_instance)], sv_pool := (sv_pool sample_sv)\<lparr>wp_available := [9001]\<rparr>\<rparr>"

lemma sample_tenant: "is_safe_tenant_id ''acme''"
  by (simp add: is_safe_tenant_id_def is_ascii_alphanumeric_def)

lemma sample_ports: "acquire_ports 0 False sample_sv = (Inr (9000, None), sample_sv\<lparr>sv_pool := (sv_pool sample_sv)\<lparr>wp_available := [9001]\<rparr>\<rparr>)"
  by (simp add: acquire_ports_def wp_free_slots_def wp_reap_cooled_ports_def wp_acquire_def sample_sv_def)

lemma sample_get:
  "get_artifact one_downloader good_files (\<lambda>_. 0) (\<lambda>_. Transport True) ''d1'' (replicate 64 (CHR ''0''))
      (Some (replicate 64 (CHR ''a''))) None \<lparr>cf_wasm = [(''d1'', [1, 2])], cf_cwasm = c\<rparr> =
   (Inr [1, 2], \<lparr>cf_wasm = [(''d1'', [1, 2])], cf_cwasm = c\<rparr>)"
  using one_accepted by (simp add: get_artifact_def accepted_def good_files_def hm_simps)

lemma good_env_sel [simp]:
  "st_now good_env = 0" "st_later good_env = 1" "st_files good_env = good_files" "st_rnd good_env = (\<lambda>_. 0)"
  "st_net good_env did = (\<lambda>_. Transport True)" "st_exports good_env = (\<lambda>_. None)" "st_cwasm_read_ok good_env"
  "st_deserialize good_env b = Some 7" "st_compile good_env b = Some 3" "st_serialize good_env c = None"
  "st_linker_ok good_env" "st_instantiate good_env c" "st_register_ok good_env"
  by (simp_all add: good_env_def)

lemma sample_spec_sel [simp]:
  "ap_deployment_id sample_spec = ''d1''" "ap_deployment_hash sample_spec = replicate 64 (CHR ''0'')"
  "ap_deployment_signature sample_spec = Some (replicate 64 (CHR ''a''))" "ap_signing_key_id sample_spec = None"
  "ap_env sample_spec = []" "ap_routes sample_spec = None"
  by (simp_all add: sample_spec_def)

lemma sample_sv_sel [simp]:
  "wc_require_signature (sv_config sample_sv)" "sv_downloader sample_sv = one_downloader"
  "sv_files sample_sv = \<lparr>cf_wasm = [(''d1'', [1, 2])], cf_cwasm = []\<rparr>" "sv_apps sample_sv = []"
  "dl_signature_verifier one_downloader = Some [(''default'', [7])]" "wc_worker_addr (sv_config sample_sv) = ''10.0.0.5''"
  by (simp_all add: sample_sv_def one_downloader_def)

lemma sample_detect: "detect_execution_model_from_bytes (\<lambda>_. None) a = LongRunning"
  by (simp add: detect_execution_model_from_bytes_def)

lemma sample_prepare:
  "prepare_component good_env LongRunning ''d1'' [1, 2] \<lparr>cf_wasm = [(''d1'', [1, 2])], cf_cwasm = []\<rparr> =
     (Inr (Some 3), \<lparr>cf_wasm = [(''d1'', [1, 2])], cf_cwasm = []\<rparr>)"
  "prepare_component good_env LongRunning ''d1'' [1, 2] \<lparr>cf_wasm = [(''d1'', [1, 2])], cf_cwasm = [(''d1'', [9])]\<rparr> =
     (Inr (Some 7), \<lparr>cf_wasm = [(''d1'', [1, 2])], cf_cwasm = [(''d1'', [9])]\<rparr>)"
  by (simp_all add: prepare_component_def load_component_def hm_get_Cons)

lemma sample_start: "start_app good_env ''api'' sample_spec ''acme'' sample_sv = (Inr (), sample_started)"
  by (simp add: start_app_def sample_tenant sample_ports sample_get sample_detect sample_prepare sample_started_def
      sample_instance_def hm_insert_def hm_contains_def Let_def)

lemma sample_started_sel [simp]:
  "sv_apps sample_started = [((''acme'', ''api'', ''d1''), sample_instance)]" "sv_config sample_started = sv_config sample_sv"
  by (simp_all add: sample_started_def)

lemma sample_instance_sel [simp]:
  "ai_tenant_id sample_instance = ''acme''" "ai_app_name sample_instance = ''api''" "ai_deployment_id sample_instance = ''d1''"
  "ai_port sample_instance = 9000" "ai_ws_port sample_instance = None" "ai_status sample_instance = StRunning"
  "ai_protocol sample_instance = ''http''" "ai_execution_model sample_instance = LongRunning"
  by (simp_all add: sample_instance_def new_instance_def build_app_env_def hm_get_Cons Let_def)

lemma sample_started_ok: "hm_wf (sv_apps sample_started)" "sv_ok sample_started" "names_apart sample_started"
  by (simp_all add: sv_ok_def names_apart_def wire_keys_def hm_wf_def)

lemma sample_expand: "expand_routes [(''api'', sample_spec)] = [(''api'', ''d1'', sample_spec)]"
  by (simp add: expand_routes_def)

lemma sample_reconcile:
  "reconcile 0 (\<lambda>_. good_env) ''acme'' [(''api'', sample_spec)] sample_sv = (Inr True, sample_started)"
  by (simp add: reconcile_def sample_expand compute_app_diff_def snapshot_current_apps_def hm_contains_def hm_get_collect
      sample_start)

theorem reconcile_exact_witness:
  "hm_contains (sv_apps (snd (reconcile 0 (\<lambda>_. good_env) ''acme'' [(''api'', sample_spec)] sample_sv))) (''acme'', ''api'', ''d1'')"
proof -
  have "hm_wf (sv_apps sample_sv)" by (simp add: hm_wf_def)
  moreover have "(''acme'', ''api'', ''d1'') \<in> desired_keys ''acme'' [(''api'', sample_spec)]"
    by (simp add: desired_keys_def sample_expand)
  ultimately show ?thesis using reconcile_exact [OF _ sample_reconcile] sample_reconcile by fastforce
qed

theorem start_failure_ports_witness:
  "sv_pool (snd (start_app good_env ''api'' (sample_spec\<lparr>ap_deployment_signature := None\<rparr>) ''acme'' sample_sv)) =
     sv_pool (release_ports 1 9000 None (sample_sv\<lparr>sv_pool := (sv_pool sample_sv)\<lparr>wp_available := [9001]\<rparr>\<rparr>))"
proof -
  let ?spec = "sample_spec\<lparr>ap_deployment_signature := None\<rparr>"
  have "start_app good_env ''api'' ?spec ''acme'' sample_sv =
      (Inl Unsigned, snd (start_app good_env ''api'' ?spec ''acme'' sample_sv))"
    by (simp add: start_app_def sample_tenant sample_ports hm_contains_def Let_def)
  from start_failure_ports [OF this sample_tenant, of 9000 None] sample_ports show ?thesis
    by (simp add: hm_contains_def keeps_ports_def)
qed

theorem started_code_authentic_witness:
  "\<exists>inst artifact. hm_get (sv_apps sample_started) (''acme'', ''api'', ''d1'') = Some inst \<and>
     (cr_sha256 (dl_crypto one_downloader) artifact, ''d1'') \<in> {(replicate 32 0, ''d1'')} \<and>
     ai_component inst = st_compile good_env artifact"
proof -
  let ?signed = "\<lambda>k :: bytes. {(replicate 32 (0 :: u8), ''d1'')}"
  have "unforgeable (dl_crypto (sv_downloader sample_sv)) ?signed"
    by (simp add: unforgeable_def one_downloader_def one_signed_def)
  from started_code_authentic [OF sample_start _ this] show ?thesis by (auto simp: sample_detect)
qed

theorem aot_cache_unverified_witness:
  "map_option ai_component (hm_get (sv_apps (snd (start_app good_env ''api'' sample_spec ''acme''
     (sample_sv\<lparr>sv_files := \<lparr>cf_wasm = [(''d1'', [1, 2])], cf_cwasm = [(''d1'', [9])]\<rparr>\<rparr>))))
     (''acme'', ''api'', ''d1'')) = Some (Some 7)"
proof -
  let ?sv = "sample_sv\<lparr>sv_files := \<lparr>cf_wasm = [(''d1'', [1, 2])], cf_cwasm = [(''d1'', [9])]\<rparr>\<rparr>"
  have "acquire_ports 0 False ?sv = (Inr (9000, None), ?sv\<lparr>sv_pool := (sv_pool sample_sv)\<lparr>wp_available := [9001]\<rparr>\<rparr>)"
    by (simp add: acquire_ports_def wp_free_slots_def wp_reap_cooled_ports_def wp_acquire_def sample_sv_def)
  then have "start_app good_env ''api'' sample_spec ''acme'' ?sv =
      (Inr (), snd (start_app good_env ''api'' sample_spec ''acme'' ?sv))"
    by (simp add: start_app_def sample_tenant sample_get sample_detect sample_prepare hm_contains_def Let_def)
  moreover have "verify_hash (dl_crypto one_downloader) [1, 2] (replicate 64 (CHR ''0'')) = None"
    using one_accepted by (simp add: accepted_def)
  ultimately show ?thesis
    using aot_cache_unverified [of good_env "''api''" sample_spec "''acme''" ?sv "()" _ "[9]" 7]
    by (auto simp: sample_detect good_files_def hm_get_Cons)
qed

theorem app_loop_exact_witness:
  "fst (run_app_loop (''acme'', ''api'', ''d1'') (ReturnedNormally # replicate 5 (Trapped ''oom'')) 0 (sv_apps sample_started)) =
     LoopGaveUp"
proof -
  let ?evs = "ReturnedNormally # replicate 5 (Trapped ''oom'')"
  obtain r ps apps where run: "run_app_loop (''acme'', ''api'', ''d1'') ?evs 0 (sv_apps sample_started) = (r, ps, apps)"
    by (metis prod.exhaust)
  have "crashes ?evs = replicate 5 (Trapped ''oom'')" by (simp add: crashes_def is_crash_def)
  with app_loop_exact [OF _ run, of sample_instance] run show ?thesis by (simp add: hm_get_Cons)
qed

text \<open>The same worker with a second app.\<close>

definition sample_two :: "(bytes, bytes, nat) supervisor" where
  "sample_two = sample_started
     \<lparr>sv_apps := [((''acme'', ''api'', ''d1''), sample_instance),
        ((''acme'', ''web'', ''d2''), sample_instance\<lparr>ai_app_name := ''web'', ai_deployment_id := ''d2'', ai_port := 9001\<rparr>)]\<rparr>"

lemma sample_two_ok: "hm_wf (sv_apps sample_two)" "sv_ok sample_two" "names_apart sample_two"
  by (simp_all add: sv_ok_def names_apart_def wire_keys_def wire_key_def hm_wf_def sample_two_def)

lemma sample_two_sel [simp]:
  "hm_get (sv_apps sample_two) (''acme'', ''api'', ''d1'') = Some sample_instance"
  "wc_worker_addr (sv_config sample_two) = ''10.0.0.5''"
  by (simp_all add: sample_two_def hm_get_Cons)

definition sample_stores :: "(nat, nat, nat) stores" where
  "sample_stores =
     \<lparr>rs_kv = \<lparr>rg_map = [(''acme'', 0)], rg_heap = [(0, 5)], rg_next = 1\<rparr>,
      rs_cache = \<lparr>rg_map = [], rg_heap = [], rg_next = 0\<rparr>, rs_sched = \<lparr>rg_map = [], rg_heap = [], rg_next = 0\<rparr>\<rparr>"

definition sample_purge :: "(nat, nat, nat) purge_env" where
  "sample_purge =
     \<lparr>pe_clear_kv = (\<lambda>_. (Returned (), 0)), pe_clear_cache = (\<lambda>_. (Returned (), 0)), pe_abort = (\<lambda>_. 0), pe_held_kv = (\<lambda>_. False),
      pe_held_cache = (\<lambda>_. False), pe_held_sched = (\<lambda>_. False), pe_env_var = (\<lambda>_. None), pe_rm = (\<lambda>_. Removed)\<rparr>"

theorem purge_message_exact_witness:
  "\<exists>sv st. handle_purge 0 sample_purge ''acme'' ''web'' (sample_two, sample_stores) = (Returned (Inr ()), sv, st) \<and>
     hm_get (sv_apps sv) (''acme'', ''api'', ''d1'') = Some sample_instance \<and>
     hm_get (sv_apps sv) (''acme'', ''web'', ''d2'') = None \<and> hm_get (rg_heap (rs_kv st)) 0 = Some 0"
proof -
  obtain r sv st where h: "handle_purge 0 sample_purge ''acme'' ''web'' (sample_two, sample_stores) = (Returned r, sv, st)"
    using sample_tenant by (simp add: handle_purge_def purge_tenant_def registry_purge_def sample_purge_def
        sample_stores_def hm_get_Cons Let_def)
  have "hm_get (rg_map (rs_kv sample_stores)) ''acme'' = Some 0" "hm_get (rg_heap (rs_kv sample_stores)) 0 = Some 5"
    "\<not> pe_held_kv sample_purge 0" "snd (pe_clear_kv sample_purge 5) = 0"
    by (simp_all add: sample_stores_def sample_purge_def hm_get_Cons)
  with purge_message_exact [OF sample_two_ok(1) sample_tenant h] h show ?thesis
    by (intro exI [of _ sv] exI [of _ st]) auto
qed

theorem metering_exact_witness:
  "\<exists>st. hm_get (hb_apps (fst (build_heartbeat 1 ''ts2'' 90
       (reset_meters_after (hb_apps (fst (build_heartbeat 0 ''ts'' 60 sample_two)))
        (sample_two\<lparr>sv_apps := [((''acme'', ''api'', ''d1''), sample_instance\<lparr>ai_meter := record_request (ai_meter sample_instance)\<rparr>)]\<rparr>)))))
      (wire_key ''api'' ''d1'') = Some st \<and> as_request_count st = 1"
proof -
  let ?inst = "sample_instance\<lparr>ai_meter := record_request (ai_meter sample_instance)\<rparr>"
  let ?cur = "sample_two\<lparr>sv_apps := [((''acme'', ''api'', ''d1''), ?inst)]\<rparr>"
  let ?dl = "(meter_new ''acme'' ''d1'')\<lparr>mt_count := 1\<rparr>"
  have keys: "distinct (wire_keys sample_two)" using sample_two_ok(3) by (simp add: names_apart_def)
  have names: "\<forall>((t, n, d), inst) \<in> set (sv_apps sample_two). CHR '':'' \<notin> set n" by (simp add: sample_two_def)
  have cur: "hm_get (sv_apps ?cur) (''acme'', ''api'', ''d1'') = Some ?inst" "ai_deployment_id ?inst = ''d1''"
    by (simp_all add: hm_get_Cons)
  have keys': "distinct (wire_keys ?cur)" by (simp add: wire_keys_def)
  have "ai_meter ?inst = meter_add (ai_meter sample_instance) ?dl"
    by (simp add: meter_add_def record_request_def meter_new_def)
  then show ?thesis using metering_exact [OF sample_two_ok(2) keys names cur keys' refl, of 0 "''ts''" 60 1 "''ts2''" 90 ?dl]
    by auto
qed

theorem restarted_meter_wraps_witness:
  "\<exists>st. hm_get (hb_apps (fst (build_heartbeat 1 ''ts2'' 90
       (reset_meters_after (hb_apps (fst (build_heartbeat 0 ''ts'' 60
          (sample_two\<lparr>sv_apps := [((''acme'', ''api'', ''d1''), sample_instance\<lparr>ai_meter := (meter_new ''acme'' ''d1'')\<lparr>mt_count := 3\<rparr>\<rparr>)]\<rparr>))))
        (sample_two\<lparr>sv_apps := [((''acme'', ''api'', ''d1''), sample_instance\<lparr>ai_meter := meter_new ''acme'' ''d1''\<rparr>)]\<rparr>)))))
      (wire_key ''api'' ''d1'') = Some st \<and> unat (as_request_count st) = 2 ^ 64 - 3"
proof -
  let ?old = "sample_instance\<lparr>ai_meter := (meter_new ''acme'' ''d1'')\<lparr>mt_count := 3\<rparr>\<rparr>"
  let ?new = "sample_instance\<lparr>ai_meter := meter_new ''acme'' ''d1''\<rparr>"
  let ?sv = "sample_two\<lparr>sv_apps := [((''acme'', ''api'', ''d1''), ?old)]\<rparr>"
  let ?cur = "sample_two\<lparr>sv_apps := [((''acme'', ''api'', ''d1''), ?new)]\<rparr>"
  have ok: "sv_ok ?sv" using sample_two_ok(2) by (simp add: sv_ok_def hm_wf_def sample_two_def)
  have "hm_get (sv_apps ?sv) (''acme'', ''api'', ''d1'') = Some ?old"
    "hm_get (sv_apps ?cur) (''acme'', ''api'', ''d1'') = Some ?new" by (simp_all add: hm_get_Cons)
  moreover have "distinct (wire_keys ?sv)" "distinct (wire_keys ?cur)" by (simp_all add: wire_keys_def)
  ultimately show ?thesis
    using restarted_meter_wraps [OF ok, of "''acme''" "''api''" "''d1''" ?old ?cur ?new _ 0 "''ts''" 60 1 "''ts2''" 90]
    by simp
qed

theorem worker_app_routed_witness:
  "rt_lookup (hb_table (apply_heartbeat 9 lc_new (wire_heartbeat 0 ''ts'' 60 sample_two) (rt_new, l4_new, lp_new 31000 31001 60)))
      \<lparr>ak_tenant_id = ''acme'', ak_app_name = ''api'', ak_deployment_id = Some ''d1''\<rparr> =
   Some (upsert_entry 9 ''acme'' ''api'' (Some ''d1'') 100 ''10.0.0.5'' 9000 ''running'')"
  using worker_app_routed [OF sample_two_ok(2,3), of "''acme''" "''api''" "''d1''" sample_instance rt_new 9 lc_new 0 "''ts''" 60
      l4_new "lp_new 31000 31001 60"]
  by simp

theorem stopped_app_keeps_route_witness:
  "rt_lookup (hb_table (apply_heartbeat 9 lc_new
        (wire_heartbeat 0 ''ts'' 60 (stop_app 3 (''acme'', ''api'', ''d1'') sample_two))
        (rt_upsert 5 ''acme'' ''api'' (Some ''d1'') 100 ''10.0.0.5'' 9000 ''running'' rt_new, l4_new, lp_new 31000 31001 60)))
      \<lparr>ak_tenant_id = ''acme'', ak_app_name = ''api'', ak_deployment_id = Some ''d1''\<rparr> =
    rt_lookup (rt_upsert 5 ''acme'' ''api'' (Some ''d1'') 100 ''10.0.0.5'' 9000 ''running'' rt_new)
      \<lparr>ak_tenant_id = ''acme'', ak_app_name = ''api'', ak_deployment_id = Some ''d1''\<rparr> \<and>
    9000 \<in> fst ` set (wp_cooling_down (sv_pool (stop_app 3 (''acme'', ''api'', ''d1'') sample_two)))"
proof -
  let ?rt = "rt_upsert 5 ''acme'' ''api'' (Some ''d1'') 100 ''10.0.0.5'' 9000 ''running'' rt_new"
  have "rt_inv ?rt" by (simp add: rt_upsert_put http.inv_intros)
  moreover have "sv_apps (stop_app 3 (''acme'', ''api'', ''d1'') sample_two) \<noteq> []"
    by (simp add: stop_app_apps hm_remove_def sample_two_def)
  ultimately show ?thesis
    using stopped_app_keeps_route [OF sample_two_ok(2,3), of "''acme''" "''api''" "''d1''" sample_instance _ 3 ?rt 9 lc_new
        0 "''ts''" 60 l4_new "lp_new 31000 31001 60"]
    by simp
qed

theorem supervisor_well_formed_witness: "hm_wf (sv_apps sample_started) \<and> list_all entry_ok (sv_apps sample_started)"
proof -
  have "sv_reachable sample_sv" by (rule sv_reachable.boot) simp
  then have "sv_reachable sample_started" using sample_reconcile by (rule sv_reachable.message)
  from supervisor_well_formed [OF this] show ?thesis by (simp add: list_all_iff)
qed

end
