(* ===== verification/Worker_Dispatch.thy ===== *)
theory Worker_Dispatch
  imports Worker_Supervisor
begin

text \<open>
  The HTTP dispatcher of a handler app (\<open>edge-worker/src/dispatch.rs\<close>), the pool of spare engines and
  the eviction of idle components (\<open>edge-worker/src/supervisor.rs\<close>).

  A handler component is compiled at its first request, on an engine of the pool. Engines are values
  of the type \<open>'e\<close>, components of the type \<open>'comp\<close>. What Wasmtime, the guest and the file system answer
  is an argument. A lock that is waited for forever is the value \<open>None\<close>.
\<close>

section \<open>Diagnostics\<close>

fun rposition :: "('a \<Rightarrow> bool) \<Rightarrow> 'a list \<Rightarrow> nat option" where
  "rposition P [] = None"
| "rposition P (x # xs) =
     (case rposition P xs of Some i \<Rightarrow> Some (Suc i) | None \<Rightarrow> if P x then Some 0 else None)"

definition truncate_diagnostic :: "bytes \<Rightarrow> bytes" where
  "truncate_diagnostic diagnostic =
     (if length diagnostic \<le> 1024 then diagnostic
      else let cut = (case rposition (\<lambda>b. sint b \<ge> - 0x40) (take 1024 diagnostic) of Some i \<Rightarrow> i | None \<Rightarrow> 0)
           in if from_utf8_ok (take cut diagnostic) then take cut diagnostic
              else as_bytes ''non-utf8 diagnostic'')"

section \<open>Responses and their accounting\<close>

datatype frame = DataFrame bytes | TrailersFrame

record reply =
  rp_status :: nat
  rp_headers :: "(string \<times> string) list"
  rp_frames :: "frame list"

text \<open>The Prometheus counters of an app.\<close>

record metrics_handle =
  mh_requests :: u64
  mh_outbound_bytes :: u64
  mh_duration_ms :: u64
  mh_status_5xx :: u64

record accounts =
  ac_meter :: meter
  ac_metrics :: "metrics_handle option"

definition count_request :: "accounts \<Rightarrow> accounts" where
  "count_request a =
     a\<lparr>ac_meter := record_request (ac_meter a),
       ac_metrics := map_option (\<lambda>h. h\<lparr>mh_requests := mh_requests h + 1\<rparr>) (ac_metrics a)\<rparr>"

definition count_outbound :: "u64 \<Rightarrow> accounts \<Rightarrow> accounts" where
  "count_outbound len a =
     a\<lparr>ac_meter := record_outbound_bytes len (ac_meter a),
       ac_metrics := map_option (\<lambda>h. h\<lparr>mh_outbound_bytes := mh_outbound_bytes h + len\<rparr>) (ac_metrics a)\<rparr>"

definition stamp_duration :: "duration \<Rightarrow> accounts \<Rightarrow> accounts" where
  "stamp_duration d a =
     a\<lparr>ac_meter := record_duration d (ac_meter a),
       ac_metrics := map_option (\<lambda>h. h\<lparr>mh_duration_ms := mh_duration_ms h + of_nat (d div 1000000)\<rparr>) (ac_metrics a)\<rparr>"

definition count_error :: "accounts \<Rightarrow> accounts" where
  "count_error a =
     a\<lparr>ac_meter := record_error (ac_meter a),
       ac_metrics := map_option (\<lambda>h. h\<lparr>mh_status_5xx := mh_status_5xx h + 1\<rparr>) (ac_metrics a)\<rparr>"

definition synthetic_response :: "nat \<Rightarrow> bytes \<Rightarrow> accounts \<Rightarrow> reply \<times> accounts" where
  "synthetic_response status diagnostic a =
     (let body = truncate_diagnostic diagnostic;
          len = length body
      in (\<lparr>rp_status = status,
           rp_headers = [(''content-type'', ''text/plain; charset=utf-8''), (''content-length'', dec len)],
           rp_frames = [DataFrame body]\<rparr>,
          count_outbound (of_nat len) a))"

definition synthetic_500 :: "bytes \<Rightarrow> accounts \<Rightarrow> reply \<times> accounts" where
  "synthetic_500 diagnostic a = synthetic_response 500 diagnostic (count_error a)"

definition synthetic_413 :: "u64 \<Rightarrow> u64 \<Rightarrow> accounts \<Rightarrow> reply \<times> accounts" where
  "synthetic_413 content_length cap a =
     synthetic_response 413
       (as_bytes (''request body of '' @ dec (unat content_length) @ '' bytes exceeds per-app cap of '' @
          dec (unat cap) @ '' bytes'')) a"

definition check_body_cap :: "u64 option \<Rightarrow> u64 \<Rightarrow> accounts \<Rightarrow> (reply \<times> accounts) option" where
  "check_body_cap content_length cap a =
     (if cap = 0 then None
      else case content_length of
             Some len \<Rightarrow> if len > cap then Some (synthetic_413 len cap a) else None
           | None \<Rightarrow> None)"

text \<open>\<open>CountingBody::poll_frame\<close>: what the server does with each frame of a guest's response that it
  reads.\<close>

fun counting_poll :: "frame \<Rightarrow> accounts \<Rightarrow> accounts" where
  "counting_poll (DataFrame b) a = count_outbound (of_nat (length b)) a"
| "counting_poll TrailersFrame a = a"

section \<open>Spare engines\<close>

record 'e standby_pool =
  sp_capacity :: nat
  sp_engines :: "'e list"

fun prewarm :: "(nat \<Rightarrow> 'e option) \<Rightarrow> nat \<Rightarrow> 'e list option" where
  "prewarm create_engine 0 = Some []"
| "prewarm create_engine (Suc n) =
     (case prewarm create_engine n of
        None \<Rightarrow> None
      | Some es \<Rightarrow> (case create_engine n of Some e \<Rightarrow> Some (es @ [e]) | None \<Rightarrow> None))"

definition sp_new :: "(nat \<Rightarrow> 'e option) \<Rightarrow> nat \<Rightarrow> 'e standby_pool option" where
  "sp_new create_engine size' =
     map_option (\<lambda>es. \<lparr>sp_capacity = max size' 1, sp_engines = es\<rparr>) (prewarm create_engine size')"

definition sp_release :: "'e \<Rightarrow> 'e standby_pool \<Rightarrow> 'e standby_pool" where
  "sp_release e p = (if length (sp_engines p) < sp_capacity p then p\<lparr>sp_engines := sp_engines p @ [e]\<rparr> else p)"

section \<open>Dispatchers\<close>

text \<open>The part of \<open>HandlerDispatch\<close> and of its \<open>HandlerConfig\<close> that requests change. \<open>proxy_pre\<close> is the
  pre-instantiated component with its engine.\<close>

record ('e, 'comp) dispatch =
  hd_proxy_pre :: "('e \<times> 'comp) option"
  hd_last_request_at :: "instant option"
  hd_in_flight :: u64
  hd_accounts :: accounts

text \<open>The constant part.\<close>

record handler_config =
  hc_deployment_id :: string
  hc_tick_ms :: u64
  hc_max_request_body_bytes :: u64
  hc_socket_mode_for_app :: socket_egress_policy
  hc_hostname_pinning_enabled :: bool
  hc_hostname_pinning :: hostname_pinning
  hc_max_memory_mb :: u64
  hc_cpu_budget_ms :: u64

text \<open>All dispatchers, the keys of the handler apps in the map of the worker in the order of its
  iteration, the pool and the files of the artifact cache.\<close>

record ('e, 'comp) dispatchers =
  ds_all :: "(app_triple, ('e, 'comp) dispatch) hashmap"
  ds_registered :: "app_triple list"
  ds_pool :: "'e standby_pool"
  ds_files :: cache_files

definition ds_update ::
  "app_triple \<Rightarrow> (('e, 'comp) dispatch \<Rightarrow> ('e, 'comp) dispatch) \<Rightarrow> ('e, 'comp) dispatchers \<Rightarrow> ('e, 'comp) dispatchers" where
  "ds_update key f s =
     (case hm_get (ds_all s) key of
        Some d \<Rightarrow> s\<lparr>ds_all := hm_insert key (f d) (ds_all s)\<rparr>
      | None \<Rightarrow> s)"

definition hd_evict ::
  "app_triple \<Rightarrow> ('e, 'comp) dispatchers \<Rightarrow> 'e option \<times> ('e, 'comp) dispatchers" where
  "hd_evict key s =
     (case hm_get (ds_all s) key of
        None \<Rightarrow> (None, s)
      | Some d \<Rightarrow> (map_option fst (hd_proxy_pre d), ds_update key (\<lambda>d. d\<lparr>hd_proxy_pre := None\<rparr>) s))"

text \<open>\<open>evict_lru_app\<close>: the scan for the least recently used app. \<open>has_engine\<close> reads \<open>proxy_pre\<close>, and waits
  while a request of that app holds its write lock (\<open>locked\<close>).\<close>

fun lru_scan ::
  "('k \<Rightarrow> bool) \<Rightarrow> ('k, ('e, 'comp) dispatch) hashmap \<Rightarrow> 'k list \<Rightarrow>
   (instant \<times> 'k) option \<Rightarrow> (instant \<times> 'k) option option" where
  "lru_scan locked all [] candidate = Some candidate"
| "lru_scan locked all (key # rest) candidate =
     (case hm_get all key of
        None \<Rightarrow> lru_scan locked all rest candidate
      | Some d \<Rightarrow>
          if locked key then None
          else if hd_proxy_pre d = None then lru_scan locked all rest candidate
          else (case hd_last_request_at d of
                  None \<Rightarrow> lru_scan locked all rest candidate
                | Some last_req \<Rightarrow>
                    (case candidate of
                       None \<Rightarrow> lru_scan locked all rest (Some (last_req, key))
                     | Some (oldest_req, _) \<Rightarrow>
                         lru_scan locked all rest (if last_req < oldest_req then Some (last_req, key) else candidate))))"

definition evict_lru_app ::
  "(app_triple \<Rightarrow> bool) \<Rightarrow> ('e, 'comp) dispatchers \<Rightarrow> ('e option \<times> ('e, 'comp) dispatchers) option" where
  "evict_lru_app locked s =
     (case lru_scan locked (ds_all s) (ds_registered s) None of
        None \<Rightarrow> None
      | Some None \<Rightarrow> Some (None, s)
      | Some (Some (_, key)) \<Rightarrow> Some (hd_evict key s))"

text \<open>\<open>arrived\<close> is an engine that is released while the pool is empty and waited for; \<open>fresh\<close> is a new
  engine.\<close>

definition sp_acquire ::
  "(app_triple \<Rightarrow> bool) \<Rightarrow> 'e option \<Rightarrow> 'e \<Rightarrow> ('e, 'comp) dispatchers \<Rightarrow> ('e \<times> ('e, 'comp) dispatchers) option" where
  "sp_acquire locked arrived fresh s =
     (case sp_engines (ds_pool s) of
        e # es \<Rightarrow> Some (e, s\<lparr>ds_pool := (ds_pool s)\<lparr>sp_engines := es\<rparr>\<rparr>)
      | [] \<Rightarrow>
          (case arrived of
             Some e \<Rightarrow> Some (e, s)
           | None \<Rightarrow>
               (case evict_lru_app locked s of
                  None \<Rightarrow> None
                | Some (Some e, s) \<Rightarrow> Some (e, s)
                | Some (None, s) \<Rightarrow> Some (fresh, s))))"

section \<open>Loading the component\<close>

datatype cold_error = WasmUnreadable | JitFailed | HandlerLinkFailed | ResourcesExhausted

definition handler_component ::
  "'comp start_env \<Rightarrow> string \<Rightarrow> cache_files \<Rightarrow> (cold_error + 'comp) \<times> cache_files" where
  "handler_component env did fs =
     (let cached = (case hm_get (cf_cwasm fs) did of
                      Some cwasm_bytes \<Rightarrow> if st_cwasm_read_ok env then st_deserialize env cwasm_bytes else None
                    | None \<Rightarrow> None)
      in case cached of
           Some c \<Rightarrow> (Inr c, fs)
         | None \<Rightarrow>
             (case hm_get (cf_wasm fs) did of
                None \<Rightarrow> (Inl WasmUnreadable, fs)
              | Some wasm \<Rightarrow>
                  if \<not> fe_read_ok (st_files env) then (Inl WasmUnreadable, fs)
                  else (case st_compile env wasm of
                          None \<Rightarrow> (Inl JitFailed, fs)
                        | Some c \<Rightarrow>
                            (Inr c,
                             case st_serialize env c of
                               Some b \<Rightarrow> if st_cwasm_write_ok env
                                          then fs\<lparr>cf_cwasm := hm_insert did b (cf_cwasm fs)\<rparr> else fs
                             | None \<Rightarrow> fs))))"

definition cold_start ::
  "(app_triple \<Rightarrow> bool) \<Rightarrow> 'e option \<Rightarrow> 'e \<Rightarrow> 'comp start_env \<Rightarrow> string \<Rightarrow> app_triple \<Rightarrow> ('e, 'comp) dispatchers \<Rightarrow>
   ((cold_error + unit) \<times> ('e, 'comp) dispatchers) option" where
  "cold_start locked arrived fresh env did key s =
     (case sp_acquire locked arrived fresh s of
        None \<Rightarrow> None
      | Some (engine, s) \<Rightarrow>
          (case handler_component env did (ds_files s) of
             (Inl e, fs) \<Rightarrow> Some (Inl e, s\<lparr>ds_files := fs\<rparr>)
           | (Inr c, fs) \<Rightarrow>
               if \<not> st_linker_ok env \<or> \<not> st_instantiate env c then Some (Inl HandlerLinkFailed, s\<lparr>ds_files := fs\<rparr>)
               else Some (Inr (), ds_update key (\<lambda>d. d\<lparr>hd_proxy_pre := Some (engine, c)\<rparr>) (s\<lparr>ds_files := fs\<rparr>))))"

section \<open>A request\<close>

text \<open>How the guest answers: with a response, with an error code, or not at all - then the exit code it
  left and the error of its task are looked at. \<open>rq_polled\<close> is the number of frames of a guest's response
  that the server reads before the body ends or the client goes away.\<close>

datatype guest_answer =
  Responds nat "(string \<times> string) list" "frame list"
| RespondsError bytes
| NeverResponds u32 bytes

record request =
  rq_content_length :: "string option"
  rq_resources_ok :: bool
  rq_answer :: guest_answer
  rq_elapsed :: duration
  rq_polled :: nat

definition content_length_of :: "request \<Rightarrow> u64 option" where
  "content_length_of r = map_option of_nat (Option.bind (rq_content_length r) (parse_uint (2 ^ 64)))"

text \<open>The division panics for a tick of zero.\<close>

definition epoch_ticks :: "handler_config \<Rightarrow> u64 option" where
  "epoch_ticks cfg = (if hc_tick_ms cfg = 0 then None else Some (max (hc_cpu_budget_ms cfg div hc_tick_ms cfg) 1))"

definition request_socket_mode :: "handler_config \<Rightarrow> socket_egress_policy \<times> hostname_pinning" where
  "request_socket_mode cfg =
     (if hc_socket_mode_for_app cfg = HostnamePinned \<and> hc_hostname_pinning_enabled cfg
      then (HostnamePinned, hc_hostname_pinning cfg)
      else (hc_socket_mode_for_app cfg, hp_new))"

definition answer_request :: "request \<Rightarrow> accounts \<Rightarrow> reply \<times> accounts" where
  "answer_request r a =
     (let a = count_request a
      in case rq_answer r of
           Responds status headers frames \<Rightarrow>
             (\<lparr>rp_status = status, rp_headers = headers, rp_frames = frames\<rparr>, stamp_duration (rq_elapsed r) a)
         | RespondsError error_code \<Rightarrow>
             synthetic_500 (as_bytes ''guest returned error-code: '' @ error_code) (stamp_duration (rq_elapsed r) a)
         | NeverResponds exit_code e \<Rightarrow>
             if exit_code \<noteq> 0
             then synthetic_500 (as_bytes ''guest cleanly exited'') (stamp_duration (rq_elapsed r) a)
             else synthetic_500 e (stamp_duration (rq_elapsed r) a))"

text \<open>\<open>others\<close> tells which other apps are in the middle of a cold start. The in-flight count goes up at
  the start and down when the response is returned.\<close>

definition enter_request :: "instant \<Rightarrow> app_triple \<Rightarrow> ('e, 'comp) dispatchers \<Rightarrow> ('e, 'comp) dispatchers" where
  "enter_request now key =
     ds_update key (\<lambda>d. d\<lparr>hd_in_flight := hd_in_flight d + 1, hd_last_request_at := Some now\<rparr>)"

definition leave_request :: "app_triple \<Rightarrow> ('e, 'comp) dispatchers \<Rightarrow> ('e, 'comp) dispatchers" where
  "leave_request key = ds_update key (\<lambda>d. d\<lparr>hd_in_flight := hd_in_flight d - 1\<rparr>)"

definition lazy_start ::
  "(app_triple \<Rightarrow> bool) \<Rightarrow> 'e option \<Rightarrow> 'e \<Rightarrow> 'comp start_env \<Rightarrow> string \<Rightarrow> app_triple \<Rightarrow> ('e, 'comp) dispatchers \<Rightarrow>
   ((cold_error + unit) \<times> ('e, 'comp) dispatchers) option" where
  "lazy_start others arrived fresh env did key s =
     (case hm_get (ds_all s) key of
        None \<Rightarrow> Some (Inr (), s)
      | Some d \<Rightarrow>
          if hd_proxy_pre d \<noteq> None then Some (Inr (), s)
          else cold_start (\<lambda>k. k = key \<or> others k) arrived fresh env did key s)"

definition account ::
  "app_triple \<Rightarrow> (accounts \<Rightarrow> 'r \<times> accounts) \<Rightarrow> ('e, 'comp) dispatchers \<Rightarrow> 'r option \<times> ('e, 'comp) dispatchers" where
  "account key f s =
     (case hm_get (ds_all s) key of
        None \<Rightarrow> (None, s)
      | Some d \<Rightarrow>
          (case f (hd_accounts d) of
             (r, a) \<Rightarrow> (Some r, s\<lparr>ds_all := hm_insert key (d\<lparr>hd_accounts := a\<rparr>) (ds_all s)\<rparr>)))"

definition dispatch_step :: "handler_config \<Rightarrow> request \<Rightarrow> accounts \<Rightarrow> (cold_error + reply) \<times> accounts" where
  "dispatch_step cfg r a =
     (case check_body_cap (content_length_of r) (hc_max_request_body_bytes cfg) a of
        Some (resp, a) \<Rightarrow> (Inr resp, a)
      | None \<Rightarrow>
          if \<not> rq_resources_ok r then (Inl ResourcesExhausted, a)
          else (case answer_request r a of (resp, a) \<Rightarrow> (Inr resp, a)))"

definition handle_request ::
  "instant \<Rightarrow> (app_triple \<Rightarrow> bool) \<Rightarrow> 'e option \<Rightarrow> 'e \<Rightarrow> 'comp start_env \<Rightarrow> handler_config \<Rightarrow> request \<Rightarrow> app_triple \<Rightarrow>
   ('e, 'comp) dispatchers \<Rightarrow> ((cold_error + reply) option \<times> ('e, 'comp) dispatchers) option" where
  "handle_request now others arrived fresh env cfg r key s =
     (case lazy_start others arrived fresh env (hc_deployment_id cfg) key (enter_request now key s) of
        None \<Rightarrow> None
      | Some (Inl e, s) \<Rightarrow> Some (Some (Inl e), leave_request key s)
      | Some (Inr _, s) \<Rightarrow>
          (case account key (dispatch_step cfg r) s of (resp, s) \<Rightarrow> Some (resp, leave_request key s)))"

section \<open>Draining and idle eviction\<close>

text \<open>\<open>drain_in_flight\<close>, over the instants and counts its loop observes; \<open>None\<close> while the loop runs.\<close>

fun drain_in_flight :: "instant \<Rightarrow> (instant \<times> u64) list \<Rightarrow> bool option" where
  "drain_in_flight deadline [] = None"
| "drain_in_flight deadline ((now, in_flight) # rest) =
     (if now \<ge> deadline then Some False else if in_flight = 0 then Some True else drain_in_flight deadline rest)"

definition evict_idle_step ::
  "instant \<Rightarrow> duration \<Rightarrow> app_triple \<Rightarrow> ('e, 'comp) dispatchers \<Rightarrow> ('e, 'comp) dispatchers" where
  "evict_idle_step now idle_timeout key s =
     (case hm_get (ds_all s) key of
        None \<Rightarrow> s
      | Some d \<Rightarrow>
          (case hd_last_request_at d of
             Some last_req \<Rightarrow>
               if elapsed now last_req > idle_timeout then
                 (case hd_evict key s of
                    (Some engine, s) \<Rightarrow> s\<lparr>ds_pool := sp_release engine (ds_pool s)\<rparr>
                  | (None, s) \<Rightarrow> s)
               else s
           | None \<Rightarrow> s))"

definition evict_idle_apps ::
  "instant \<Rightarrow> duration \<Rightarrow> ('e, 'comp) dispatchers \<Rightarrow> ('e, 'comp) dispatchers" where
  "evict_idle_apps now idle_timeout s = fold (evict_idle_step now idle_timeout) (ds_registered s) s"

section \<open>Diagnostics are cut at a character\<close>

lemma sint_u8: "sint (b :: u8) = (if uint b < 128 then uint b else uint b - 256)"
proof -
  have u: "0 \<le> uint b" "uint b < 256" using uint_lt2p [of b] by simp_all
  have "sint b = (uint b + 128) mod 256 - 128"
    by (simp add: sint_uint signed_take_bit_eq_take_bit_shift take_bit_eq_mod)
  moreover have "(uint b + 128) mod 256 = (if uint b < 128 then uint b + 128 else uint b - 128)"
  proof (cases "uint b < 128")
    case False
    have "(uint b - 128 + 256) mod 256 = uint b - 128" unfolding mod_add_self2 using u False by simp
    moreover have "uint b - 128 + 256 = uint b + 128" by simp
    ultimately show ?thesis using False by metis
  qed (use u in simp)
  ultimately show ?thesis by simp
qed

lemma sint_cont: "sint (b :: u8) \<ge> - 0x40 \<longleftrightarrow> \<not> is_cont b"
proof -
  have "0 \<le> uint b" "uint b < 256" using uint_lt2p [of b] by simp_all
  then show ?thesis unfolding sint_u8 is_cont_def
    by (auto simp add: word_le_def word_less_def intro: order_trans [of _ 0])
qed

lemma rposition_Some:
  "rposition P xs = Some i \<Longrightarrow> i < length xs \<and> P (xs ! i) \<and> (\<forall>j. i < j \<and> j < length xs \<longrightarrow> \<not> P (xs ! j))"
proof (induction xs arbitrary: i)
  case (Cons x xs)
  have none: "rposition P ys = None \<Longrightarrow> \<not> P (ys ! j)" if "j < length ys" for ys j
    using that by (induction ys arbitrary: j) (auto simp: nth_Cons' split: option.splits if_splits)
  show ?case
  proof (cases "rposition P xs")
    case None
    with Cons.prems none [of _ xs] show ?thesis by (auto simp: nth_Cons' split: if_splits)
  next
    case (Some k)
    with Cons.IH [OF Some] Cons.prems show ?thesis by (auto simp: nth_Cons split: nat.splits)
  qed
qed simp

lemma rposition_ex: "\<exists>j < length xs. P (xs ! j) \<Longrightarrow> rposition P xs \<noteq> None"
proof (induction xs)
  case (Cons x xs)
  then obtain j where "j < length (x # xs)" "P ((x # xs) ! j)" by blast
  then have "P x \<or> (\<exists>j < length xs. P (xs ! j))" by (cases j) auto
  with Cons.IH show ?case by (cases "rposition P xs") auto
qed simp

lemma utf8_take:
  assumes "from_utf8_ok bs" and "i < length bs" and "\<not> is_cont (bs ! i)"
  shows "from_utf8_ok (take i bs)"
  using assms
proof (induction bs arbitrary: i rule: from_utf8_ok.induct)
  case (2 b bs)
  let ?n = "utf8_seq_len b - 1"
  have parts: "utf8_seq_len b \<noteq> 0" "?n \<le> length bs" "list_all is_cont (take ?n bs)"
    "?n > 0 \<longrightarrow> utf8_second_ok b (hd bs)" "from_utf8_ok (drop ?n bs)"
    using "2.prems"(1) by (simp_all add: Let_def)
  show ?case
  proof (cases i)
    case (Suc k)
    have "?n \<le> k"
    proof (rule ccontr)
      assume "\<not> ?n \<le> k"
      then have "is_cont (take ?n bs ! k)" using parts(2,3) by (auto simp: list_all_length)
      with \<open>\<not> ?n \<le> k\<close> "2.prems"(3) show False by (simp add: Suc)
    qed
    then have "from_utf8_ok (take (k - ?n) (drop ?n bs))"
      using "2.IH" [OF refl parts(5), of "k - ?n"] "2.prems"(2,3) by (simp add: Suc)
    then have "from_utf8_ok (drop ?n (take k bs))" by (simp add: drop_take)
    moreover have "take ?n (take k bs) = take ?n bs" "?n \<le> length (take k bs)" "?n > 0 \<longrightarrow> hd (take k bs) = hd bs"
      using \<open>?n \<le> k\<close> parts(2) by (simp_all add: min_def)
    ultimately show ?thesis using parts(1,3,4) unfolding Suc take_Suc_Cons from_utf8_ok.simps Let_def by metis
  qed simp
qed simp

lemma seq_len_cont: "utf8_seq_len b \<noteq> 0 \<Longrightarrow> \<not> is_cont b"
  by (auto simp: utf8_seq_len_def is_cont_def word_le_nat_alt word_less_nat_alt split: if_splits)

lemma utf8_no_four:
  assumes "from_utf8_ok bs" and "i + 3 < length bs"
  shows "\<exists>j. i \<le> j \<and> j \<le> i + 3 \<and> \<not> is_cont (bs ! j)"
  using assms
proof (induction bs arbitrary: i rule: from_utf8_ok.induct)
  case (2 b bs)
  let ?n = "utf8_seq_len b - 1"
  have rest: "from_utf8_ok (drop ?n bs)" and n: "?n \<le> length bs" and len: "utf8_seq_len b \<noteq> 0"
    using "2.prems"(1) by (simp_all add: Let_def)
  have lead: "\<not> is_cont b" by (rule seq_len_cont [OF len])
  have n3: "?n \<le> 3" by (simp add: utf8_seq_len_def)
  show ?case
  proof (cases "i \<le> ?n")
    case True
    show ?thesis
    proof (cases "i = 0 \<or> length bs = ?n")
      case True
      then show ?thesis using lead n3 "2.prems"(2) \<open>i \<le> ?n\<close> by (intro exI [of _ 0]) auto
    next
      case False
      then have d: "drop ?n bs = bs ! ?n # drop (Suc ?n) bs" using n by (simp add: Cons_nth_drop_Suc)
      have "\<not> is_cont (bs ! ?n)"
        using rest unfolding d by (intro seq_len_cont) (simp add: Let_def)
      then show ?thesis using True n3 False by (intro exI [of _ "Suc ?n"]) auto
    qed
  next
    case False
    then obtain k where k: "i = Suc ?n + k" by (metis add_Suc_right less_iff_Suc_add add.commute not_le)
    then have "k + 3 < length (drop ?n bs)" using "2.prems"(2) by simp
    from "2.IH" [OF refl rest this] obtain j where "k \<le> j" "j \<le> k + 3" "\<not> is_cont (drop ?n bs ! j)" by blast
    then show ?thesis using k n by (intro exI [of _ "Suc ?n + j"]) auto
  qed
qed simp

text \<open>Error bodies. The diagnostic of an error response is always a prefix of the full text
  that ends at a character boundary: the text itself up to 1024 bytes, otherwise between 1020 and
  1023 bytes of it. The fallback text is never used.\<close>

theorem truncate_diagnostic_exact:
  assumes "from_utf8_ok d"
  shows "\<exists>n. truncate_diagnostic d = take n d \<and> from_utf8_ok (take n d) \<and>
    (if length d \<le> 1024 then n = length d else 1020 \<le> n \<and> n < 1024)"
proof (cases "length d \<le> 1024")
  case True
  then show ?thesis using assms by (auto simp: truncate_diagnostic_def)
next
  case False
  obtain j where j: "1020 \<le> j" "j \<le> 1023" "\<not> is_cont (d ! j)" using utf8_no_four [OF assms, of 1020] False by auto
  then have "\<exists>j < length (take 1024 d). sint (take 1024 d ! j) \<ge> - 0x40" using False by (intro exI [of _ j]) (simp add: sint_cont)
  from rposition_ex [of "take 1024 d" "\<lambda>b. sint b \<ge> - 0x40", OF this]
  obtain i where i: "rposition (\<lambda>b. sint b \<ge> - 0x40) (take 1024 d) = Some i" by (rule not_None_eq [THEN iffD1, THEN exE])
  note r = rposition_Some [OF i, unfolded sint_cont]
  have len: "length (take 1024 d) = 1024" using False by simp
  have p: "i < 1024" "i < length d" using r False by (simp_all only: len) simp
  have nc: "\<not> is_cont (d ! i)" using conjunct1 [OF conjunct2 [OF r]] p(1) by (simp only: nth_take not_False_eq_True)
  have last: "is_cont (d ! k)" if "i < k" "k < 1024" for k
    using r that unfolding len by (metis nth_take)
  have "j \<le> i" using last [of j] j by (cases "i < j") auto
  then show ?thesis using utf8_take [OF assms p(2) nc] j(1) p(1) False
    by (intro exI [of _ i]) (simp add: truncate_diagnostic_def i Let_def)
qed

section \<open>Cold starts\<close>

lemma ds_update_get [simp]:
  "hm_get (ds_all (ds_update key f s)) k = (if k = key then map_option f (hm_get (ds_all s) key) else hm_get (ds_all s) k)"
  by (auto simp: ds_update_def split: option.splits)

lemma ds_update_frame [simp]:
  "ds_registered (ds_update key f s) = ds_registered s" "ds_pool (ds_update key f s) = ds_pool s"
  "ds_files (ds_update key f s) = ds_files s"
  by (simp_all add: ds_update_def split: option.splits)

lemma lru_scan_None:
  "lru_scan locked all ks cand = None \<longleftrightarrow> (\<exists>k \<in> set ks. hm_get all k \<noteq> None \<and> locked k)"
  by (induction ks arbitrary: cand) (auto split: option.split)

text \<open>The app that is evicted is one with a loaded component whose last request is oldest.\<close>

definition last_used :: "('k, ('e, 'comp) dispatch) hashmap \<Rightarrow> 'k \<Rightarrow> instant \<Rightarrow> bool" where
  "last_used all k t \<longleftrightarrow> (\<exists>d. hm_get all k = Some d \<and> hd_proxy_pre d \<noteq> None \<and> hd_last_request_at d = Some t)"

lemma last_used_unique: "last_used all k t \<Longrightarrow> last_used all k t' \<Longrightarrow> t = t'"
  by (auto simp: last_used_def)

lemma lru_scan_step:
  assumes "lru_scan locked all (key # rest) cand = Some x"
  shows "lru_scan locked all rest
     (case hm_get all key of
        Some d \<Rightarrow> (case (hd_proxy_pre d, hd_last_request_at d) of
           (Some _, Some r) \<Rightarrow> (case cand of Some (o', k') \<Rightarrow> if r < o' then Some (r, key) else cand | None \<Rightarrow> Some (r, key))
         | _ \<Rightarrow> cand)
      | None \<Rightarrow> cand) = Some x"
  using assms by (auto split: option.splits if_splits)

lemma lru_scan_least:
  assumes "lru_scan locked all ks cand = Some (Some (t, k))"
  shows "cand = Some (t, k) \<or> k \<in> set ks \<and> last_used all k t"
    and "\<And>t' k'. cand = Some (t', k') \<Longrightarrow> t \<le> t'"
    and "\<And>t' k'. k' \<in> set ks \<Longrightarrow> last_used all k' t' \<Longrightarrow> t \<le> t'"
proof -
  have "(cand = Some (t, k) \<or> k \<in> set ks \<and> last_used all k t) \<and> (\<forall>t' k'. cand = Some (t', k') \<longrightarrow> t \<le> t') \<and>
    (\<forall>t' k'. k' \<in> set ks \<longrightarrow> last_used all k' t' \<longrightarrow> t \<le> t')"
    using assms
  proof (induction ks arbitrary: cand)
    case (Cons key rest)
    note step = Cons.IH [OF lru_scan_step [OF Cons.prems]]
    show ?case
    proof (cases "\<exists>r. last_used all key r")
      case True
      then obtain d e r where d: "hm_get all key = Some d" "hd_proxy_pre d = Some e" "hd_last_request_at d = Some r"
        by (auto simp: last_used_def)
      then have lu: "last_used all key r" by (auto simp: last_used_def)
      show ?thesis
      proof (cases cand)
        case None
        with step d lu show ?thesis by (auto dest: last_used_unique)
      next
        case (Some c)
        obtain old k0 where c: "c = (old, k0)" by (cases c)
        define cand' where "cand' = (if r < old then Some (r, key) else cand)"
        have s: "cand' = Some (t, k) \<or> k \<in> set rest \<and> last_used all k t" "\<And>t' k'. cand' = Some (t', k') \<Longrightarrow> t \<le> t'"
          "\<And>t' k'. k' \<in> set rest \<Longrightarrow> last_used all k' t' \<Longrightarrow> t \<le> t'"
          using step d Some c unfolding cand'_def by simp_all
        have le: "t \<le> r" "t \<le> old"
          using s(2) [of r key] s(2) [of old k0] unfolding cand'_def Some c by (cases "r < old"; simp)+
        have "cand' = Some (t, k) \<Longrightarrow> cand = Some (t, k) \<or> k = key \<and> t = r"
          unfolding cand'_def by (auto split: if_splits)
        then have "cand = Some (t, k) \<or> k \<in> set (key # rest) \<and> last_used all k t" using s(1) lu by auto
        moreover have "t \<le> t'" if "cand = Some (t', k')" for t' k' using that le(2) Some c by simp
        moreover have "t \<le> t'" if "k' \<in> set (key # rest)" "last_used all k' t'" for t' k'
          using that s(3) le(1) last_used_unique [OF lu] by auto
        ultimately show ?thesis by blast
      qed
    next
      case False
      then have "(case hm_get all key of Some d \<Rightarrow> (case (hd_proxy_pre d, hd_last_request_at d) of
           (Some _, Some r) \<Rightarrow> (case cand of Some (o', k') \<Rightarrow> if r < o' then Some (r, key) else cand | None \<Rightarrow> Some (r, key))
         | _ \<Rightarrow> cand) | None \<Rightarrow> cand) = cand"
        by (auto simp: last_used_def split: option.splits)
      with step False show ?thesis by auto
    qed
  qed simp
  then show "cand = Some (t, k) \<or> k \<in> set ks \<and> last_used all k t" "\<And>t' k'. cand = Some (t', k') \<Longrightarrow> t \<le> t'"
    "\<And>t' k'. k' \<in> set ks \<Longrightarrow> last_used all k' t' \<Longrightarrow> t \<le> t'"
    by blast+
qed

lemma sp_acquire_None:
  "sp_acquire locked arrived fresh s = None \<longleftrightarrow>
     sp_engines (ds_pool s) = [] \<and> arrived = None \<and> (\<exists>k \<in> set (ds_registered s). hm_get (ds_all s) k \<noteq> None \<and> locked k)"
  using lru_scan_None [of locked "ds_all s" "ds_registered s" None]
  by (auto simp: sp_acquire_def evict_lru_app_def split: list.splits option.splits prod.splits)

lemma cold_start_None: "cold_start locked arrived fresh env did key s = None \<longleftrightarrow> sp_acquire locked arrived fresh s = None"
  by (auto simp: cold_start_def split: option.splits prod.splits sum.splits)

text \<open>When a request never returns. A request waits forever exactly when its component is not
  loaded, the pool of engines is empty and stays empty while it waits, and the scan for an app to
  evict meets an app that is being loaded. The app of the request itself is such an app: a cold start
  of a registered app with an empty pool always blocks, on the lock the request holds itself.\<close>

theorem cold_start_blocks_iff:
  "handle_request now others arrived fresh env cfg r key s = None \<longleftrightarrow>
     (\<exists>d. hm_get (ds_all s) key = Some d \<and> hd_proxy_pre d = None) \<and> sp_engines (ds_pool s) = [] \<and> arrived = None \<and>
     (\<exists>k \<in> set (ds_registered s). hm_get (ds_all s) k \<noteq> None \<and> (k = key \<or> others k))"
proof -
  have "handle_request now others arrived fresh env cfg r key s = None \<longleftrightarrow>
      lazy_start others arrived fresh env (hc_deployment_id cfg) key (enter_request now key s) = None"
    by (auto simp: handle_request_def split: option.splits prod.splits sum.splits)
  also have "\<dots> \<longleftrightarrow> (\<exists>d. hm_get (ds_all s) key = Some d \<and> hd_proxy_pre d = None) \<and> sp_engines (ds_pool s) = [] \<and> arrived = None \<and>
     (\<exists>k \<in> set (ds_registered s). hm_get (ds_all s) k \<noteq> None \<and> (k = key \<or> others k))"
  proof (cases "hm_get (ds_all s) key")
    case None
    then show ?thesis by (simp add: lazy_start_def enter_request_def)
  next
    case (Some d)
    have "(\<exists>k \<in> set (ds_registered s). hm_get (ds_all (enter_request now key s)) k \<noteq> None \<and> (k = key \<or> others k)) =
        (\<exists>k \<in> set (ds_registered s). hm_get (ds_all s) k \<noteq> None \<and> (k = key \<or> others k))"
      by (intro bex_cong) (simp_all add: enter_request_def Some)
    then show ?thesis using Some
      by (cases "hd_proxy_pre d") (simp_all add: lazy_start_def cold_start_None sp_acquire_None enter_request_def)
  qed
  finally show ?thesis .
qed

section \<open>Accounting\<close>

definition over_cap :: "handler_config \<Rightarrow> request \<Rightarrow> bool" where
  "over_cap cfg r \<longleftrightarrow> hc_max_request_body_bytes cfg \<noteq> 0 \<and>
     (\<exists>len. content_length_of r = Some len \<and> len > hc_max_request_body_bytes cfg)"

definition reached :: "handler_config \<Rightarrow> request \<Rightarrow> bool" where
  "reached cfg r \<longleftrightarrow> \<not> over_cap cfg r \<and> rq_resources_ok r"

definition frame_bytes :: "frame \<Rightarrow> nat" where
  "frame_bytes f = (case f of DataFrame b \<Rightarrow> length b | TrailersFrame \<Rightarrow> 0)"

definition reply_bytes :: "reply \<Rightarrow> nat" where
  "reply_bytes rp = sum_list (map frame_bytes (rp_frames rp))"

text \<open>One request with the delivery of its body.\<close>

definition serve_request :: "handler_config \<Rightarrow> request \<Rightarrow> accounts \<Rightarrow> (cold_error + reply) \<times> accounts" where
  "serve_request cfg r a =
     (case dispatch_step cfg r a of
        (res, a) \<Rightarrow>
          (case rq_answer r of
             Responds _ _ frames \<Rightarrow> if reached cfg r then (res, fold counting_poll (take (rq_polled r) frames) a) else (res, a)
           | _ \<Rightarrow> (res, a)))"

fun serve_requests :: "handler_config \<Rightarrow> request list \<Rightarrow> accounts \<Rightarrow> (cold_error + reply) list \<times> accounts" where
  "serve_requests cfg [] a = ([], a)"
| "serve_requests cfg (r # rs) a =
     (case serve_request cfg r a of (res, a) \<Rightarrow> (case serve_requests cfg rs a of (ress, a) \<Rightarrow> (res # ress, a)))"

definition answered :: "request \<Rightarrow> bool" where
  "answered r \<longleftrightarrow> (\<exists>st hs fs. rq_answer r = Responds st hs fs)"

text \<open>The bytes a request is billed for: what was read of the guest's body, or the body the dispatcher
  made up.\<close>

definition billed_bytes :: "handler_config \<Rightarrow> request \<Rightarrow> (cold_error + reply) \<Rightarrow> nat" where
  "billed_bytes cfg r res =
     (case res of
        Inl _ \<Rightarrow> 0
      | Inr rp \<Rightarrow> if reached cfg r \<and> answered r then sum_list (map frame_bytes (take (rq_polled r) (rp_frames rp)))
                  else reply_bytes rp)"

text \<open>What a number of requests, errors, milliseconds and bytes add to both sets of counters.\<close>

definition bill :: "u64 \<Rightarrow> u64 \<Rightarrow> u64 \<Rightarrow> u64 \<Rightarrow> accounts \<Rightarrow> accounts" where
  "bill q e d b a =
     a\<lparr>ac_meter := (ac_meter a)\<lparr>mt_count := mt_count (ac_meter a) + q, mt_outbound_bytes := mt_outbound_bytes (ac_meter a) + b,
         mt_duration_ms := mt_duration_ms (ac_meter a) + d, mt_errors := mt_errors (ac_meter a) + e\<rparr>,
       ac_metrics := map_option (\<lambda>h. h\<lparr>mh_requests := mh_requests h + q, mh_outbound_bytes := mh_outbound_bytes h + b,
         mh_duration_ms := mh_duration_ms h + d, mh_status_5xx := mh_status_5xx h + e\<rparr>) (ac_metrics a)\<rparr>"

lemma bill_add: "bill q e d b (bill q' e' d' b' a) = bill (q' + q) (e' + e) (d' + d) (b' + b) a"
  by (simp add: bill_def option.map_comp o_def add.assoc)

lemma bill_zero [simp]: "bill 0 0 0 0 a = a"
  by (simp add: bill_def option.map_ident)

lemma counts_bill:
  "count_request a = bill 1 0 0 0 a" "count_error a = bill 0 1 0 0 a" "count_outbound n a = bill 0 0 0 n a"
  "stamp_duration t a = bill 0 0 (of_nat (t div 1000000)) 0 a"
  by (simp_all add: bill_def count_request_def count_error_def count_outbound_def stamp_duration_def record_request_def
      record_error_def record_outbound_bytes_def record_duration_def)

lemma counting_bill: "fold counting_poll fs a = bill 0 0 0 (of_nat (sum_list (map frame_bytes fs))) a"
proof (induction fs arbitrary: a)
  case (Cons f fs)
  then show ?case by (cases f) (simp_all add: counts_bill bill_add frame_bytes_def)
qed simp

lemma synthetic_bill:
  "synthetic_response st diag a =
     (\<lparr>rp_status = st,
       rp_headers = [(''content-type'', ''text/plain; charset=utf-8''), (''content-length'', dec (length (truncate_diagnostic diag)))],
       rp_frames = [DataFrame (truncate_diagnostic diag)]\<rparr>,
      bill 0 0 0 (of_nat (length (truncate_diagnostic diag))) a)"
  by (simp add: synthetic_response_def counts_bill Let_def)

definition guest_status :: "request \<Rightarrow> nat" where
  "guest_status r = (case rq_answer r of Responds st _ _ \<Rightarrow> st | _ \<Rightarrow> 500)"

lemma serve_request_bill:
  assumes "serve_request cfg r a = (res, a')"
  shows "a' = bill (of_bool (reached cfg r)) (of_bool (reached cfg r \<and> \<not> answered r))
      (if reached cfg r then of_nat (rq_elapsed r div 1000000) else 0) (of_nat (billed_bytes cfg r res)) a \<and>
    map_sum (\<lambda>e. e) rp_status res = (if over_cap cfg r then Inr 413 else if \<not> rq_resources_ok r then Inl ResourcesExhausted
      else Inr (guest_status r))"
proof -
  note parts = serve_request_def dispatch_step_def billed_bytes_def reply_bytes_def frame_bytes_def
  show ?thesis
  proof (cases "over_cap cfg r")
    case True
    then obtain len where "check_body_cap (content_length_of r) (hc_max_request_body_bytes cfg) a =
        Some (synthetic_413 len (hc_max_request_body_bytes cfg) a)"
      by (auto simp: check_body_cap_def over_cap_def)
    with assms True show ?thesis
      by (cases "rq_answer r") (auto simp: parts synthetic_413_def synthetic_bill reached_def)
  next
    case False
    then have cap: "check_body_cap (content_length_of r) (hc_max_request_body_bytes cfg) a = None"
      by (auto simp: check_body_cap_def over_cap_def split: option.split)
    show ?thesis
    proof (cases "rq_resources_ok r")
      case True
      with False have "reached cfg r" by (simp add: reached_def)
      with assms cap True False show ?thesis
        by (cases "rq_answer r") (auto simp: parts answer_request_def synthetic_500_def synthetic_bill counts_bill
            counting_bill bill_add answered_def guest_status_def Let_def split: if_splits)
    next
      case no: False
      with assms cap False show ?thesis by (cases "rq_answer r") (auto simp: parts reached_def)
    qed
  qed
qed

text \<open>Claim C27 (billing of requests). However many requests an app answers, each adds exactly this to the
  meter of the heartbeats, and the same to the Prometheus counters: one to the requests and its
  elapsed milliseconds if it got past the size cap, one to the errors if in addition the guest did not
  answer, and the bytes of the body - the data that was read of a guest's answer, or the whole body of
  an error the dispatcher made up. A request over the cap gets 413, one the guest does not answer 500.\<close>

theorem request_billing_exact:
  "snd (serve_requests cfg rs a) =
     bill (of_nat (length (filter (reached cfg) rs)))
       (of_nat (length (filter (\<lambda>r. reached cfg r \<and> \<not> answered r) rs)))
       (of_nat (sum_list (map (\<lambda>r. rq_elapsed r div 1000000) (filter (reached cfg) rs))))
       (of_nat (sum_list (map2 (billed_bytes cfg) rs (fst (serve_requests cfg rs a))))) a \<and>
   map (map_sum (\<lambda>e. e) rp_status) (fst (serve_requests cfg rs a)) =
     map (\<lambda>r. if over_cap cfg r then Inr 413 else if \<not> rq_resources_ok r then Inl ResourcesExhausted
       else Inr (guest_status r)) rs"
proof (induction rs arbitrary: a)
  case (Cons r rs)
  obtain res a1 where one: "serve_request cfg r a = (res, a1)" by fastforce
  obtain ress a2 where rest: "serve_requests cfg rs a1 = (ress, a2)" by fastforce
  have unfolded: "serve_requests cfg (r # rs) a = (res # ress, a2)" by (simp add: one rest)
  note head = serve_request_bill [OF one]
  have tail: "a2 = bill (of_nat (length (filter (reached cfg) rs)))
      (of_nat (length (filter (\<lambda>r. reached cfg r \<and> \<not> answered r) rs)))
      (of_nat (sum_list (map (\<lambda>r. rq_elapsed r div 1000000) (filter (reached cfg) rs))))
      (of_nat (sum_list (map2 (billed_bytes cfg) rs ress))) a1"
    using Cons.IH [of a1, unfolded rest fst_conv snd_conv] by (rule conjunct1)
  have "map (map_sum (\<lambda>e. e) rp_status) ress = map (\<lambda>r. if over_cap cfg r then Inr 413
      else if \<not> rq_resources_ok r then Inl ResourcesExhausted else Inr (guest_status r)) rs"
    using Cons.IH [of a1, unfolded rest fst_conv snd_conv] by (rule conjunct2)
  then show ?case unfolding unfolded tail conjunct1 [OF head] bill_add
    using conjunct2 [OF head] by simp
qed simp

section \<open>Engines\<close>

text \<open>A failed cold start loses an engine. When the component of an app cannot be loaded, the
  engine that was taken from the pool is neither returned to it nor kept by any dispatcher: the pool
  has one engine less, and every dispatcher has the component it had.\<close>

theorem failed_cold_start_loses_engine:
  assumes "handle_request now others arrived fresh env cfg r key s = Some (Some (Inl e), s')"
    and "hm_get (ds_all s) key = Some d" and "hd_proxy_pre d = None" and "sp_engines (ds_pool s) = engine # engines"
    and "e \<noteq> ResourcesExhausted"
  shows "sp_engines (ds_pool s') = engines \<and>
    (\<forall>k. map_option hd_proxy_pre (hm_get (ds_all s') k) = map_option hd_proxy_pre (hm_get (ds_all s) k))"
proof -
  let ?s1 = "enter_request now key s"
  have s1: "hm_get (ds_all ?s1) key = Some (d\<lparr>hd_in_flight := hd_in_flight d + 1, hd_last_request_at := Some now\<rparr>)"
    using assms(2) by (simp add: enter_request_def)
  have acq: "sp_acquire locked arrived fresh ?s1 = Some (engine, ?s1\<lparr>ds_pool := (ds_pool ?s1)\<lparr>sp_engines := engines\<rparr>\<rparr>)" for locked
    using assms(4) by (simp add: sp_acquire_def enter_request_def)
  obtain res fs where hc: "handler_component env (hc_deployment_id cfg) (ds_files ?s1) = (res, fs)" by fastforce
  have "\<exists>e'. lazy_start others arrived fresh env (hc_deployment_id cfg) key ?s1 =
      Some (Inl e', ?s1\<lparr>ds_pool := (ds_pool ?s1)\<lparr>sp_engines := engines\<rparr>, ds_files := fs\<rparr>)"
  proof (rule ccontr)
    assume no: "\<not> ?thesis"
    have "\<exists>s2. lazy_start others arrived fresh env (hc_deployment_id cfg) key ?s1 = Some (Inr (), s2)"
      using no s1 assms(3) acq hc
      by (auto simp: lazy_start_def cold_start_def enter_request_def split: sum.splits if_splits)
    then have "e = ResourcesExhausted"
      using assms(1) by (auto simp: handle_request_def account_def dispatch_step_def split: option.splits prod.splits if_splits)
    with assms(5) show False by simp
  qed
  then obtain e' where lz: "lazy_start others arrived fresh env (hc_deployment_id cfg) key ?s1 =
      Some (Inl e', ?s1\<lparr>ds_pool := (ds_pool ?s1)\<lparr>sp_engines := engines\<rparr>, ds_files := fs\<rparr>)" by blast
  then have s': "s' = leave_request key (?s1\<lparr>ds_pool := (ds_pool ?s1)\<lparr>sp_engines := engines\<rparr>, ds_files := fs\<rparr>)"
    using assms(1) by (simp add: handle_request_def)
  have "map_option hd_proxy_pre (hm_get (ds_all s') k) = map_option hd_proxy_pre (hm_get (ds_all s) k)" for k
    using assms(2) by (simp add: s' leave_request_def enter_request_def ds_update_def split: option.split)
  then show ?thesis by (simp add: s' leave_request_def ds_update_def split: option.split)
qed

text \<open>An app is idle when its last request is longer ago than the timeout.\<close>

definition idle :: "instant \<Rightarrow> duration \<Rightarrow> ('e, 'comp) dispatch \<Rightarrow> bool" where
  "idle now idle_timeout d = (case hd_last_request_at d of Some t \<Rightarrow> elapsed now t > idle_timeout | None \<Rightarrow> False)"

definition idle_engine :: "instant \<Rightarrow> duration \<Rightarrow> ('e, 'comp) dispatch option \<Rightarrow> 'e list" where
  "idle_engine now idle_timeout d =
     (case d of Some d \<Rightarrow> if idle now idle_timeout d then (case hd_proxy_pre d of Some (engine, _) \<Rightarrow> [engine] | None \<Rightarrow> []) else [] | None \<Rightarrow> [])"

lemma evict_idle_step_all:
  "hm_get (ds_all (evict_idle_step now t key s)) k =
     (if k = key then map_option (\<lambda>d. if idle now t d then d\<lparr>hd_proxy_pre := None\<rparr> else d) (hm_get (ds_all s) k)
      else hm_get (ds_all s) k)"
  by (auto simp: evict_idle_step_def hd_evict_def idle_def split: option.splits)

lemma evict_idle_step_pool:
  "ds_pool (evict_idle_step now t key s) = fold sp_release (idle_engine now t (hm_get (ds_all s) key)) (ds_pool s)"
  by (auto simp: evict_idle_step_def hd_evict_def idle_def idle_engine_def split: option.splits)

lemma evict_idle_fold:
  assumes "distinct keys"
  shows "hm_get (ds_all (fold (evict_idle_step now t) keys s)) k =
      (if k \<in> set keys then map_option (\<lambda>d. if idle now t d then d\<lparr>hd_proxy_pre := None\<rparr> else d) (hm_get (ds_all s) k)
       else hm_get (ds_all s) k) \<and>
    ds_pool (fold (evict_idle_step now t) keys s) =
      fold sp_release (concat (map (\<lambda>k. idle_engine now t (hm_get (ds_all s) k)) keys)) (ds_pool s)"
  using assms
proof (induction keys arbitrary: s)
  case (Cons key keys)
  have "map (\<lambda>k. idle_engine now t (hm_get (ds_all (evict_idle_step now t key s)) k)) keys =
      map (\<lambda>k. idle_engine now t (hm_get (ds_all s) k)) keys"
    using Cons.prems by (intro map_cong refl arg_cong [where f = "idle_engine now t"]) (auto simp: evict_idle_step_all)
  note eq = this
  have d: "distinct keys" "key \<notin> set keys" using Cons.prems by simp_all
  note ih = Cons.IH [OF d(1), of "evict_idle_step now t key s", unfolded eq]
  show ?case using conjunct1 [OF ih] conjunct2 [OF ih] d(2) by (auto simp: evict_idle_step_all evict_idle_step_pool)
qed simp

lemma sp_release_fold:
  "length (sp_engines p) \<le> sp_capacity p \<Longrightarrow>
   fold sp_release es p = p\<lparr>sp_engines := take (sp_capacity p) (sp_engines p @ es)\<rparr>"
proof (induction es arbitrary: p)
  case (Cons e es)
  show ?case
  proof (cases "length (sp_engines p) < sp_capacity p")
    case True
    then have "sp_release e p = p\<lparr>sp_engines := sp_engines p @ [e]\<rparr>" by (simp add: sp_release_def)
    with True Cons.IH [of "sp_release e p"] show ?thesis by simp
  next
    case False
    then have "sp_release e p = p" by (simp add: sp_release_def)
    with False Cons show ?thesis by simp
  qed
qed simp

text \<open>Idle eviction. A pass of the eviction takes the component of exactly those handler apps
  whose last request is longer ago than the timeout - an app that never got a request keeps it -,
  changes nothing else of any app, and puts their engines into the pool, in the order of the apps, as
  long as it has room; the rest are dropped.\<close>

theorem evict_idle_apps_exact:
  assumes "distinct (ds_registered s)" and "length (sp_engines (ds_pool s)) \<le> sp_capacity (ds_pool s)"
  shows "hm_get (ds_all (evict_idle_apps now t s)) k =
      (if k \<in> set (ds_registered s)
       then map_option (\<lambda>d. if idle now t d then d\<lparr>hd_proxy_pre := None\<rparr> else d) (hm_get (ds_all s) k)
       else hm_get (ds_all s) k) \<and>
    sp_engines (ds_pool (evict_idle_apps now t s)) =
      take (sp_capacity (ds_pool s))
        (sp_engines (ds_pool s) @ concat (map (\<lambda>k. idle_engine now t (hm_get (ds_all s) k)) (ds_registered s)))"
  using evict_idle_fold [OF assms(1), of now t s k] by (simp add: evict_idle_apps_def sp_release_fold [OF assms(2)])

text \<open>The pool never holds more engines than its capacity.\<close>

lemma prewarm_length: "prewarm create n = Some es \<Longrightarrow> length es = n"
  by (induction n arbitrary: es) (auto split: option.splits)

lemma sp_new_capacity: "sp_new create n = Some p \<Longrightarrow> length (sp_engines p) \<le> sp_capacity p"
  by (auto simp: sp_new_def dest: prewarm_length)

lemma sp_acquire_capacity:
  "sp_acquire locked arrived fresh s = Some (e, s') \<Longrightarrow> length (sp_engines (ds_pool s)) \<le> sp_capacity (ds_pool s) \<Longrightarrow>
   length (sp_engines (ds_pool s')) \<le> sp_capacity (ds_pool s')"
  by (auto simp: sp_acquire_def evict_lru_app_def hd_evict_def split: list.splits option.splits prod.splits)

section \<open>Further facts\<close>

lemma epoch_ticks_pos: "epoch_ticks cfg = Some n \<Longrightarrow> n > 0"
  by (auto simp: epoch_ticks_def max_def word_gt_0 split: if_splits)

text \<open>A pinned app for which pinning is off gets an empty table of names, which allows no connection.\<close>

lemma unpinned_table_empty:
  "\<not> hc_hostname_pinning_enabled cfg \<Longrightarrow> snd (request_socket_mode cfg) = hp_new"
  by (simp add: request_socket_mode_def)

text \<open>A request that is answered leaves the in-flight count as it was.\<close>

lemma in_flight_balanced:
  "hm_get (ds_all (leave_request key (enter_request now key s))) k =
   map_option (\<lambda>d. if k = key then d\<lparr>hd_last_request_at := Some now\<rparr> else d) (hm_get (ds_all s) k)"
  by (auto simp: leave_request_def enter_request_def option.map_comp o_def option.map_ident)

text \<open>Draining returns at the first observation that is past the deadline or finds no request, and tells
  which it was.\<close>

lemma drain_in_flight_exact:
  "drain_in_flight deadline obs =
     map_option (\<lambda>o'. fst o' < deadline) (find (\<lambda>o'. fst o' \<ge> deadline \<or> snd o' = 0) obs)"
  by (induction deadline obs rule: drain_in_flight.induct) auto

section \<open>Examples\<close>

lemma replicate_ascii_ok: "from_utf8_ok (replicate n 0x61)"
  by (induction n) (simp_all add: utf8_seq_len_def Let_def)

theorem truncate_diagnostic_exact_witness:
  "from_utf8_ok (replicate 2000 0x61) \<and>
   (\<exists>n. truncate_diagnostic (replicate 2000 0x61) = replicate n 0x61 \<and> 1020 \<le> n \<and> n < 1024)"
proof -
  obtain n where "truncate_diagnostic (replicate 2000 0x61) = take n (replicate 2000 0x61)" "1020 \<le> n" "n < 1024"
    using truncate_diagnostic_exact [OF replicate_ascii_ok [of 2000]] by (auto split: if_splits)
  then show ?thesis using replicate_ascii_ok [of 2000] by (intro conjI exI [of _ n]) (simp_all add: min_def)
qed

definition sample_dispatch :: "instant option \<Rightarrow> (nat \<times> nat) option \<Rightarrow> (nat, nat) dispatch" where
  "sample_dispatch t p =
     \<lparr>hd_proxy_pre = p, hd_last_request_at = t, hd_in_flight = 0,
      hd_accounts = \<lparr>ac_meter = meter_new ''acme'' ''d1'', ac_metrics = None\<rparr>\<rparr>"

definition sample_dispatchers :: "(nat, nat) dispatchers" where
  "sample_dispatchers =
     \<lparr>ds_all = [((''acme'', ''api'', ''d1''), sample_dispatch (Some 0) (Some (5, 7))),
         ((''acme'', ''web'', ''d2''), sample_dispatch (Some 90) (Some (6, 7))), ((''acme'', ''new'', ''d3''), sample_dispatch None None)],
      ds_registered = [(''acme'', ''web'', ''d2''), (''acme'', ''api'', ''d1''), (''acme'', ''new'', ''d3'')],
      ds_pool = \<lparr>sp_capacity = 2, sp_engines = [1]\<rparr>, ds_files = \<lparr>cf_wasm = [], cf_cwasm = []\<rparr>\<rparr>"

theorem evict_idle_apps_exact_witness:
  "sp_engines (ds_pool (evict_idle_apps 100 50 sample_dispatchers)) = [1, 5] \<and>
   map_option hd_proxy_pre (hm_get (ds_all (evict_idle_apps 100 50 sample_dispatchers)) (''acme'', ''api'', ''d1'')) = Some None"
proof -
  have d: "distinct (ds_registered sample_dispatchers)"
    and c: "length (sp_engines (ds_pool sample_dispatchers)) \<le> sp_capacity (ds_pool sample_dispatchers)"
    by (simp_all add: sample_dispatchers_def)
  show ?thesis using evict_idle_apps_exact [OF d c, of 100 50 "(''acme'', ''api'', ''d1'')"]
    by (simp add: sample_dispatchers_def sample_dispatch_def idle_def idle_engine_def elapsed_def hm_simps)
qed

definition no_file_env :: "nat start_env" where
  "no_file_env =
     \<lparr>st_now = 0, st_later = 1, st_files = good_files, st_rnd = (\<lambda>_. 0), st_net = (\<lambda>_ _. Transport True),
      st_exports = (\<lambda>_. None), st_cwasm_read_ok = True, st_cwasm_write_ok = True, st_deserialize = (\<lambda>_. None),
      st_compile = (\<lambda>_. None), st_serialize = (\<lambda>_. None), st_linker_ok = True, st_instantiate = (\<lambda>_. True),
      st_register_ok = True, st_dispatch_ok = True\<rparr>"

definition sample_handler :: handler_config where
  "sample_handler =
     \<lparr>hc_deployment_id = ''d3'', hc_tick_ms = 10, hc_max_request_body_bytes = 0, hc_socket_mode_for_app = BlockAll,
      hc_hostname_pinning_enabled = False, hc_hostname_pinning = hp_new, hc_max_memory_mb = 64, hc_cpu_budget_ms = 50\<rparr>"

definition sample_request :: request where
  "sample_request = \<lparr>rq_content_length = None, rq_resources_ok = True, rq_answer = RespondsError [], rq_elapsed = 0, rq_polled = 0\<rparr>"

theorem failed_cold_start_loses_engine_witness:
  "\<exists>s'. handle_request 100 (\<lambda>_. False) None 9 no_file_env sample_handler sample_request (''acme'', ''new'', ''d3'') sample_dispatchers =
      Some (Some (Inl WasmUnreadable), s') \<and> sp_engines (ds_pool s') = []"
proof -
  have get: "hm_get (ds_all sample_dispatchers) (''acme'', ''new'', ''d3'') = Some (sample_dispatch None None)"
    "hd_proxy_pre (sample_dispatch None None) = None" "sp_engines (ds_pool sample_dispatchers) = 1 # []"
    by (simp_all add: sample_dispatchers_def sample_dispatch_def hm_simps)
  have "\<exists>s'. handle_request 100 (\<lambda>_. False) None 9 no_file_env sample_handler sample_request (''acme'', ''new'', ''d3'') sample_dispatchers =
      Some (Some (Inl WasmUnreadable), s')"
    by (simp add: handle_request_def lazy_start_def cold_start_def sp_acquire_def enter_request_def handler_component_def
        no_file_env_def sample_handler_def sample_dispatchers_def sample_dispatch_def ds_update_def hm_simps)
  then obtain s' where ran: "handle_request 100 (\<lambda>_. False) None 9 no_file_env sample_handler sample_request
      (''acme'', ''new'', ''d3'') sample_dispatchers = Some (Some (Inl WasmUnreadable), s')" by blast
  then show ?thesis using failed_cold_start_loses_engine [OF ran get] by auto
qed

end
