(* ===== verification/Worker_Auth.thy ===== *)
theory Worker_Auth
  imports Worker_Download
begin

text \<open>
  The credentials of a worker: its key pair (\<open>edge-worker/src/worker_key.rs\<close>), the record in which it
  keeps the secret it was enrolled with, and the tokens it signs with that secret
  (\<open>edge-worker/src/auth.rs\<close>).

  \<open>jsonwebtoken::encode\<close> is an argument, a function of the key id in the header, the claims and the
  secret. The clocks and the random token id are arguments: an \<open>Instant\<close>, the nanoseconds since the
  epoch, a string. A write that fails, or a crash, is the value of \<open>write_fault\<close>.
\<close>

section \<open>Tokens\<close>

record worker_claims =
  cl_iss :: string
  cl_exp :: nat
  cl_iat :: nat
  cl_jti :: string
  cl_worker_id :: string
  cl_tenant_id :: string
  cl_region :: string
  cl_apps :: "string list"

type_synonym encoder = "string option \<Rightarrow> worker_claims \<Rightarrow> bytes \<Rightarrow> string"

record token_snapshot =
  sn_token :: string
  sn_kid :: "string option"
  sn_secret :: bytes
  sn_expires_at :: instant
  sn_generation :: u64

record signer =
  sg_state :: token_snapshot
  sg_issuer :: string
  sg_worker_id :: string
  sg_region :: string
  sg_tenant_id :: string
  sg_ttl :: duration

text \<open>What a call reads of the clocks, in this order: the monotonic clock when it starts (\<open>sign\<close>), the wall
  clock when it builds the claims, and the monotonic clock after it has encoded the token
  (\<open>install_snapshot\<close>, the constructors).\<close>

record reading =
  rd_now :: instant
  rd_wall :: nat
  rd_later :: instant
  rd_jti :: string

definition REFRESH_LEAD :: duration where
  "REFRESH_LEAD = 300 * 10 ^ 9"

definition DEFAULT_TTL :: duration where
  "DEFAULT_TTL = 86400 * 10 ^ 9"

definition claims :: "signer \<Rightarrow> reading \<Rightarrow> worker_claims" where
  "claims sg rd =
     (let now_unix = rd_wall rd div 10 ^ 9
      in \<lparr>cl_iss = sg_issuer sg, cl_exp = now_unix + sg_ttl sg div 10 ^ 9, cl_iat = now_unix, cl_jti = rd_jti rd,
          cl_worker_id = sg_worker_id sg, cl_tenant_id = sg_tenant_id sg, cl_region = sg_region sg, cl_apps = []\<rparr>)"

definition encode_with :: "encoder \<Rightarrow> bytes \<Rightarrow> string option \<Rightarrow> worker_claims \<Rightarrow> string" where
  "encode_with enc secret kid c = enc kid c secret"

definition swap :: "token_snapshot \<Rightarrow> signer \<Rightarrow> signer" where
  "swap n sg = sg\<lparr>sg_state := n\<rparr>"

definition install_initial_snapshot :: "encoder \<Rightarrow> reading \<Rightarrow> bytes \<Rightarrow> string option \<Rightarrow> signer \<Rightarrow> signer" where
  "install_initial_snapshot enc rd secret kid sg =
     swap \<lparr>sn_token = encode_with enc secret kid (claims sg rd), sn_kid = kid, sn_secret = secret,
           sn_expires_at = rd_later rd + sg_ttl sg, sn_generation = 0\<rparr> sg"

definition signer_empty :: "reading \<Rightarrow> string \<Rightarrow> string \<Rightarrow> string \<Rightarrow> string \<Rightarrow> signer" where
  "signer_empty rd issuer worker_id region tenant_id =
     \<lparr>sg_state = \<lparr>sn_token = [], sn_kid = None, sn_secret = [], sn_expires_at = rd_now rd, sn_generation = 0\<rparr>,
      sg_issuer = issuer, sg_worker_id = worker_id, sg_region = region, sg_tenant_id = tenant_id, sg_ttl = DEFAULT_TTL\<rparr>"

definition signer_new ::
  "encoder \<Rightarrow> reading \<Rightarrow> bytes \<Rightarrow> string option \<Rightarrow> string \<Rightarrow> string \<Rightarrow> string \<Rightarrow> string \<Rightarrow> signer" where
  "signer_new enc rd secret kid issuer worker_id region tenant_id =
     install_initial_snapshot enc rd secret kid
       \<lparr>sg_state = \<lparr>sn_token = [], sn_kid = kid, sn_secret = secret, sn_expires_at = rd_now rd, sn_generation = 0\<rparr>,
        sg_issuer = issuer, sg_worker_id = worker_id, sg_region = region, sg_tenant_id = tenant_id, sg_ttl = DEFAULT_TTL\<rparr>"

text \<open>\<open>sign\<close> and \<open>install_snapshot\<close> read the snapshot, build a new one from what they read, and then swap
  it in. The middle part is a definition of its own, since other calls may come in between.\<close>

definition snapshot_fresh :: "instant \<Rightarrow> token_snapshot \<Rightarrow> bool" where
  "snapshot_fresh now snap \<longleftrightarrow> sn_expires_at snap - now > REFRESH_LEAD \<and> sn_token snap \<noteq> []"

definition re_encode :: "encoder \<Rightarrow> reading \<Rightarrow> signer \<Rightarrow> token_snapshot \<Rightarrow> token_snapshot" where
  "re_encode enc rd sg snap =
     \<lparr>sn_token = encode_with enc (sn_secret snap) (sn_kid snap) (claims sg rd), sn_kid = sn_kid snap,
      sn_secret = sn_secret snap, sn_expires_at = rd_now rd + sg_ttl sg, sn_generation = sn_generation snap\<rparr>"

definition sign :: "encoder \<Rightarrow> reading \<Rightarrow> signer \<Rightarrow> string \<times> signer" where
  "sign enc rd sg =
     (let snap = sg_state sg
      in if snapshot_fresh (rd_now rd) snap then (sn_token snap, sg)
         else let new_snap = re_encode enc rd sg snap in (sn_token new_snap, swap new_snap sg))"

definition next_snapshot ::
  "encoder \<Rightarrow> reading \<Rightarrow> bytes \<Rightarrow> string option \<Rightarrow> signer \<Rightarrow> token_snapshot \<Rightarrow> token_snapshot option" where
  "next_snapshot enc rd new_secret new_kid sg snap =
     (let kid = (case new_kid of Some k \<Rightarrow> Some k | None \<Rightarrow> sn_kid snap)
      in if new_secret = [] then None
         else Some \<lparr>sn_token = encode_with enc new_secret kid (claims sg rd), sn_kid = kid, sn_secret = new_secret,
                    sn_expires_at = rd_later rd + sg_ttl sg, sn_generation = sn_generation snap + 1\<rparr>)"

definition install_snapshot :: "encoder \<Rightarrow> reading \<Rightarrow> bytes \<Rightarrow> string option \<Rightarrow> signer \<Rightarrow> signer" where
  "install_snapshot enc rd new_secret new_kid sg =
     (case next_snapshot enc rd new_secret new_kid sg (sg_state sg) of
        None \<Rightarrow> sg
      | Some new_snap \<Rightarrow> swap new_snap sg)"

section \<open>The record of the enrolment\<close>

record persisted_identity =
  pi_kid :: string
  pi_secret :: bytes
  pi_public_key_hex :: string

definition IDENTITY_RECORD_MAGIC :: u32 where
  "IDENTITY_RECORD_MAGIC = 0x45574953"

definition IDENTITY_RECORD_VERSION :: u8 where
  "IDENTITY_RECORD_VERSION = 1"

definition length_prefixed :: "bytes \<Rightarrow> bytes" where
  "length_prefixed bs = to_be_bytes (of_nat (length bs)) @ bs"

definition to_bytes :: "persisted_identity \<Rightarrow> bytes" where
  "to_bytes i =
     to_be_bytes IDENTITY_RECORD_MAGIC @ [IDENTITY_RECORD_VERSION] @ length_prefixed (as_bytes (pi_kid i)) @
     length_prefixed (pi_secret i) @ length_prefixed (as_bytes (pi_public_key_hex i))"

datatype identity_error =
  TooShort | MagicMismatch | VersionMismatch u8 | TruncatedLength string | TruncatedBody string | TrailingBytes nat
| NotUtf8 string

definition read_length_prefixed :: "bytes \<Rightarrow> nat \<Rightarrow> string \<Rightarrow> identity_error + bytes \<times> nat" where
  "read_length_prefixed bs cur field =
     (if \<not> length bs \<ge> cur + 4 then Inl (TruncatedLength field)
      else let len = from_be_bytes (take 4 (drop cur bs)); cur = cur + 4
           in if \<not> length bs \<ge> cur + len then Inl (TruncatedBody field)
              else Inr (take len (drop cur bs), cur + len))"

definition from_bytes :: "bytes \<Rightarrow> identity_error + persisted_identity" where
  "from_bytes bs =
     (if \<not> length bs > 4 then Inl TooShort
      else if from_be_bytes (take 4 bs) \<noteq> unat IDENTITY_RECORD_MAGIC then Inl MagicMismatch
      else if bs ! 4 \<noteq> IDENTITY_RECORD_VERSION then Inl (VersionMismatch (bs ! 4))
      else case read_length_prefixed bs 5 ''kid'' of
        Inl e \<Rightarrow> Inl e
      | Inr (kid, cur) \<Rightarrow>
          (case read_length_prefixed bs cur ''secret'' of
             Inl e \<Rightarrow> Inl e
           | Inr (secret, cur) \<Rightarrow>
               (case read_length_prefixed bs cur ''public_key_hex'' of
                  Inl e \<Rightarrow> Inl e
                | Inr (pk, cur) \<Rightarrow>
                    if cur \<noteq> length bs then Inl (TrailingBytes (length bs - cur))
                    else if \<not> from_utf8_ok kid then Inl (NotUtf8 ''kid'')
                    else if \<not> from_utf8_ok pk then Inl (NotUtf8 ''public_key_hex'')
                    else Inr \<lparr>pi_kid = of_bytes kid, pi_secret = secret, pi_public_key_hex = of_bytes pk\<rparr>)))"

section \<open>Secret files\<close>

text \<open>A secret file and the temporary file that is renamed onto it, each with its mode and contents.
  \<open>mode(0o600)\<close> is the mode of a file that is created; a file that exists keeps its own.\<close>

record secret_files =
  sf_tmp :: "(nat \<times> bytes) option"
  sf_path :: "(nat \<times> bytes) option"

datatype write_fault = NoFault | DirFails | OpenFails | WriteFails nat | SyncFails | RenameFails | ChmodFails

definition write_secret_file :: "write_fault \<Rightarrow> bytes \<Rightarrow> secret_files \<Rightarrow> bool \<times> secret_files" where
  "write_secret_file fault bs fs =
     (let mode = (case sf_tmp fs of Some (m, _) \<Rightarrow> m | None \<Rightarrow> 0x180)
      in case fault of
           DirFails \<Rightarrow> (False, fs)
         | OpenFails \<Rightarrow> (False, fs)
         | WriteFails n \<Rightarrow> (False, fs\<lparr>sf_tmp := Some (mode, take n bs)\<rparr>)
         | SyncFails \<Rightarrow> (False, fs\<lparr>sf_tmp := Some (mode, bs)\<rparr>)
         | RenameFails \<Rightarrow> (False, fs\<lparr>sf_tmp := Some (mode, bs)\<rparr>)
         | ChmodFails \<Rightarrow> (False, \<lparr>sf_tmp = None, sf_path = Some (mode, bs)\<rparr>)
         | NoFault \<Rightarrow> (True, \<lparr>sf_tmp = None, sf_path = Some (0x180, bs)\<rparr>))"

definition persist_identity :: "write_fault \<Rightarrow> persisted_identity \<Rightarrow> secret_files \<Rightarrow> bool \<times> secret_files" where
  "persist_identity fault i fs = write_secret_file fault (to_bytes i) fs"

text \<open>Reading fails when \<open>readable\<close> is false; a missing file is not an error.\<close>

datatype load_error = Unreadable | Malformed identity_error

definition load_persisted_identity :: "bool \<Rightarrow> secret_files \<Rightarrow> load_error + persisted_identity option" where
  "load_persisted_identity readable fs =
     (case sf_path fs of
        None \<Rightarrow> Inr None
      | Some (_, bs) \<Rightarrow>
          if \<not> readable then Inl Unreadable
          else (case from_bytes bs of Inl e \<Rightarrow> Inl (Malformed e) | Inr i \<Rightarrow> Inr (Some i)))"

section \<open>The key pair\<close>

text \<open>The seed is the private key. \<open>public_of\<close> derives the public key (Ed25519), \<open>hex_dec\<close> and \<open>hex_enc\<close> are
  \<open>hex::decode\<close> and \<open>hex::encode\<close>.\<close>

record worker_identity =
  wi_seed :: bytes
  wi_public_key_hex :: string

definition from_seed :: "(bytes \<Rightarrow> bytes) \<Rightarrow> (bytes \<Rightarrow> string) \<Rightarrow> bytes \<Rightarrow> worker_identity" where
  "from_seed public_of hex_enc seed = \<lparr>wi_seed = seed, wi_public_key_hex = hex_enc (public_of seed)\<rparr>"

datatype key_error = BadSeedLength nat | BadSeedHex | KeyUnreadable | KeyLength nat | NoRandom | KeyWriteFailed

definition parse_hex_seed :: "(string \<Rightarrow> bytes option) \<Rightarrow> string \<Rightarrow> key_error + bytes" where
  "parse_hex_seed hex_dec s =
     (let trimmed = trim s
      in if length trimmed \<noteq> 64 then Inl (BadSeedLength (length trimmed))
         else (case hex_dec trimmed of
                 None \<Rightarrow> Inl BadSeedHex
               | Some bs \<Rightarrow> if length bs \<noteq> 32 then Inl (KeyLength (length bs)) else Inr bs))"

definition load_key ::
  "(bytes \<Rightarrow> bytes) \<Rightarrow> (bytes \<Rightarrow> string) \<Rightarrow> bool \<Rightarrow> secret_files \<Rightarrow> key_error + worker_identity" where
  "load_key public_of hex_enc readable fs =
     (case sf_path fs of
        None \<Rightarrow> Inl KeyUnreadable
      | Some (_, bs) \<Rightarrow>
          if \<not> readable then Inl KeyUnreadable
          else if length bs \<noteq> 32 then Inl (KeyLength (length bs))
          else Inr (from_seed public_of hex_enc bs))"

definition generate_and_persist ::
  "(bytes \<Rightarrow> bytes) \<Rightarrow> (bytes \<Rightarrow> string) \<Rightarrow> bytes option \<Rightarrow> write_fault \<Rightarrow> secret_files \<Rightarrow>
   (key_error + worker_identity) \<times> secret_files" where
  "generate_and_persist public_of hex_enc random fault fs =
     (case random of
        None \<Rightarrow> (Inl NoRandom, fs)
      | Some seed \<Rightarrow>
          (case write_secret_file fault seed fs of
             (True, fs) \<Rightarrow> (Inr (from_seed public_of hex_enc seed), fs)
           | (False, fs) \<Rightarrow> (Inl KeyWriteFailed, fs)))"

definition load_or_create ::
  "(bytes \<Rightarrow> bytes) \<Rightarrow> (bytes \<Rightarrow> string) \<Rightarrow> (string \<Rightarrow> bytes option) \<Rightarrow> string option \<Rightarrow> bool \<Rightarrow> bytes option \<Rightarrow>
   write_fault \<Rightarrow> secret_files \<Rightarrow> (key_error + worker_identity) \<times> secret_files" where
  "load_or_create public_of hex_enc hex_dec inline readable random fault fs =
     (case inline of
        Some s \<Rightarrow>
          (case parse_hex_seed hex_dec s of
             Inl e \<Rightarrow> (Inl e, fs)
           | Inr seed \<Rightarrow> (Inr (from_seed public_of hex_enc seed), fs))
      | None \<Rightarrow>
          if sf_path fs \<noteq> None then (load_key public_of hex_enc readable fs, fs)
          else generate_and_persist public_of hex_enc random fault fs)"

section \<open>The record is read exactly as it is written\<close>

definition identity_ok :: "persisted_identity \<Rightarrow> bool" where
  "identity_ok i \<longleftrightarrow> from_utf8_ok (as_bytes (pi_kid i)) \<and> from_utf8_ok (as_bytes (pi_public_key_hex i)) \<and>
     length (pi_kid i) < 2 ^ 32 \<and> length (pi_secret i) < 2 ^ 32 \<and> length (pi_public_key_hex i) < 2 ^ 32"

lemma length_length_prefixed [simp]: "length (length_prefixed x) = 4 + length x"
  by (simp add: length_prefixed_def)

lemma read_length_prefixed_exact:
  "read_length_prefixed bs cur field = Inr (x, cur') \<longleftrightarrow>
   cur + 4 \<le> length bs \<and> cur' = cur + 4 + length x \<and> length x < 2 ^ 32 \<and> drop cur bs = length_prefixed x @ drop cur' bs"
proof
  let ?len = "from_be_bytes (take 4 (drop cur bs))"
  assume "read_length_prefixed bs cur field = Inr (x, cur')"
  then have fit: "cur + 4 + ?len \<le> length bs" and x: "x = take ?len (drop (cur + 4) bs)" and c: "cur' = cur + 4 + ?len"
    by (auto simp: read_length_prefixed_def Let_def not_less split: if_splits)
  have lx: "length x = ?len" using fit by (simp add: x)
  have l4: "length (take 4 (drop cur bs)) = 4" using fit by simp
  have "length_prefixed x @ drop cur' bs = take 4 (drop cur bs) @ x @ drop cur' bs"
    by (simp add: length_prefixed_def lx to_from_be_bytes [OF l4])
  also have "x @ drop cur' bs = drop (cur + 4) bs"
    using append_take_drop_id [of ?len "drop (cur + 4) bs"] by (simp add: x c add.commute)
  also have "take 4 (drop cur bs) @ drop (cur + 4) bs = drop cur bs"
    using append_take_drop_id [of 4 "drop cur bs"] by (simp add: add.commute)
  finally show "cur + 4 \<le> length bs \<and> cur' = cur + 4 + length x \<and> length x < 2 ^ 32 \<and> drop cur bs = length_prefixed x @ drop cur' bs"
    using fit c lx from_be_bytes_bound [of "take 4 (drop cur bs)"] l4 by simp
next
  assume a: "cur + 4 \<le> length bs \<and> cur' = cur + 4 + length x \<and> length x < 2 ^ 32 \<and> drop cur bs = length_prefixed x @ drop cur' bs"
  then have d: "drop cur bs = to_be_bytes (of_nat (length x)) @ x @ drop cur' bs" by (simp add: length_prefixed_def)
  have len: "from_be_bytes (take 4 (drop cur bs)) = length x"
    using a unfolding d by (simp add: from_to_be_bytes unat_of_nat)
  have d4: "drop (cur + 4) bs = x @ drop cur' bs"
    using arg_cong [OF d, of "drop 4"] by (simp add: add.commute)
  have "length bs - cur = 4 + length x + (length bs - cur')" using arg_cong [OF d, of length] by simp
  then have "cur + 4 + length x \<le> length bs" using a by linarith
  moreover have "cur + 4 \<le> length bs" "cur' = cur + 4 + length x" using a by simp_all
  ultimately show "read_length_prefixed bs cur field = Inr (x, cur')"
    by (simp add: read_length_prefixed_def Let_def len d4 not_less)
qed

lemma from_bytes_chain:
  "from_bytes bs = Inr i \<longleftrightarrow>
   length bs > 4 \<and> take 4 bs = to_be_bytes IDENTITY_RECORD_MAGIC \<and> bs ! 4 = IDENTITY_RECORD_VERSION \<and>
   (\<exists>c1 c2. read_length_prefixed bs 5 ''kid'' = Inr (as_bytes (pi_kid i), c1) \<and>
      read_length_prefixed bs c1 ''secret'' = Inr (pi_secret i, c2) \<and>
      read_length_prefixed bs c2 ''public_key_hex'' = Inr (as_bytes (pi_public_key_hex i), length bs)) \<and>
   from_utf8_ok (as_bytes (pi_kid i)) \<and> from_utf8_ok (as_bytes (pi_public_key_hex i))"
proof -
  have magic: "from_be_bytes (take 4 bs) = unat IDENTITY_RECORD_MAGIC \<longleftrightarrow> take 4 bs = to_be_bytes IDENTITY_RECORD_MAGIC"
    if "length bs > 4"
    using to_from_be_bytes [of "take 4 bs"] from_to_be_bytes [of IDENTITY_RECORD_MAGIC] that by auto
  have eq: "\<lparr>pi_kid = of_bytes kid, pi_secret = secret, pi_public_key_hex = of_bytes pk\<rparr> = i \<longleftrightarrow>
      kid = as_bytes (pi_kid i) \<and> secret = pi_secret i \<and> pk = as_bytes (pi_public_key_hex i)" for kid secret pk
    by (cases i) (auto simp: as_bytes_eq_iff)
  show ?thesis
  proof (cases "length bs > 4")
    case True
    then show ?thesis unfolding from_bytes_def magic [OF True]
      by (auto simp: eq split: sum.splits prod.splits if_splits)
  qed (auto simp: from_bytes_def)
qed

lemma from_bytes_iff: "from_bytes bs = Inr i \<longleftrightarrow> bs = to_bytes i \<and> identity_ok i"
proof
  assume "from_bytes bs = Inr i"
  then obtain c1 c2 where h: "length bs > 4" "take 4 bs = to_be_bytes IDENTITY_RECORD_MAGIC" "bs ! 4 = IDENTITY_RECORD_VERSION"
    and r: "read_length_prefixed bs 5 ''kid'' = Inr (as_bytes (pi_kid i), c1)"
      "read_length_prefixed bs c1 ''secret'' = Inr (pi_secret i, c2)"
      "read_length_prefixed bs c2 ''public_key_hex'' = Inr (as_bytes (pi_public_key_hex i), length bs)"
    and u: "from_utf8_ok (as_bytes (pi_kid i))" "from_utf8_ok (as_bytes (pi_public_key_hex i))"
    unfolding from_bytes_chain by blast
  have "bs = take 4 bs @ bs ! 4 # drop 5 bs"
    using h(1) append_take_drop_id [of 4 bs] Cons_nth_drop_Suc [of 4 bs] by simp
  then have "bs = to_bytes i"
    using r h(2,3) unfolding read_length_prefixed_exact by (simp add: to_bytes_def)
  then show "bs = to_bytes i \<and> identity_ok i"
    using r u unfolding read_length_prefixed_exact by (simp add: identity_ok_def)
next
  assume a: "bs = to_bytes i \<and> identity_ok i"
  let ?h = "to_be_bytes IDENTITY_RECORD_MAGIC @ [IDENTITY_RECORD_VERSION]"
  let ?k = "length_prefixed (as_bytes (pi_kid i))" and ?s = "length_prefixed (pi_secret i)"
    and ?p = "length_prefixed (as_bytes (pi_public_key_hex i))"
  have bs: "bs = ?h @ ?k @ ?s @ ?p" using a by (simp add: to_bytes_def)
  have d5: "drop 5 bs = ?k @ ?s @ ?p" by (simp add: bs)
  have "drop (5 + length ?k) bs = drop (length ?k) (drop 5 bs)" by (simp only: drop_drop add.commute)
  then have d6: "drop (5 + length ?k) bs = ?s @ ?p" by (simp only: d5 drop_append) simp
  have "drop (5 + length ?k + length ?s) bs = drop (length ?s) (drop (5 + length ?k) bs)"
    by (simp only: drop_drop add.commute)
  then have "drop (5 + length ?k + length ?s) bs = ?p" by (simp only: d6 drop_append) simp
  note d = d5 d6 this
  have len: "length bs = 5 + length ?k + length ?s + length ?p" by (simp add: bs)
  have ok: "identity_ok i" using a by simp
  have "read_length_prefixed bs 5 ''kid'' = Inr (as_bytes (pi_kid i), 5 + length ?k)"
    "read_length_prefixed bs (5 + length ?k) ''secret'' = Inr (pi_secret i, 5 + length ?k + length ?s)"
    "read_length_prefixed bs (5 + length ?k + length ?s) ''public_key_hex'' = Inr (as_bytes (pi_public_key_hex i), length bs)"
    unfolding read_length_prefixed_exact d using ok by (simp_all add: len identity_ok_def)
  moreover have "length bs > 4" "take 4 bs = to_be_bytes IDENTITY_RECORD_MAGIC" "bs ! 4 = IDENTITY_RECORD_VERSION"
    by (simp_all add: bs nth_append)
  ultimately show "from_bytes bs = Inr i" unfolding from_bytes_chain using ok by (auto simp: identity_ok_def)
qed

text \<open>Claim C29 (the identity file). A file is accepted as an identity record exactly when it is the
  encoding of that identity - the magic number, the version and three length-prefixed fields, with
  nothing missing and nothing left over -, with both texts in UTF-8 and no field of four gigabytes or
  more. Thus what was written is read back, and no other file is read as the same identity.\<close>

theorem identity_record_exact: "from_bytes bs = Inr i \<longleftrightarrow> bs = to_bytes i \<and> identity_ok i"
  by (rule from_bytes_iff)

section \<open>Writing a secret file\<close>

text \<open>Whatever fails, the file has either its old contents or all of the new ones, and the new contents
  never stand in a file that others may read, unless a temporary file with such a mode was there
  before. The result is true only when the new contents are in place.\<close>

lemma write_secret_file_cases:
  assumes "write_secret_file fault bs fs = (ok, fs')"
  shows "sf_path fs' = sf_path fs \<and> \<not> ok \<or>
    (\<exists>m. sf_path fs' = Some (m, bs) \<and> (m = 0x180 \<or> (\<exists>old. sf_tmp fs = Some (m, old))) \<and> (ok \<longrightarrow> m = 0x180))"
  using assms by (cases fault) (auto simp: write_secret_file_def Let_def split: option.splits)

text \<open>Claim C30 (an interrupted enrolment). Whether storing the identity succeeds, fails or is cut off at
  any point, the next start finds the identity that was stored before or the new one, never a damaged
  record; and if it was reported as stored, the new one.\<close>

theorem persist_identity_atomic:
  assumes "identity_ok i" and "persist_identity fault i fs = (ok, fs')"
  shows "(ok \<longrightarrow> load_persisted_identity True fs' = Inr (Some i)) \<and>
    (load_persisted_identity True fs' = load_persisted_identity True fs \<or> load_persisted_identity True fs' = Inr (Some i))"
proof -
  have written: "from_bytes (to_bytes i) = Inr i" using assms(1) by (simp add: from_bytes_iff)
  from write_secret_file_cases [OF assms(2) [unfolded persist_identity_def]]
  show ?thesis by (auto simp: load_persisted_identity_def written)
qed

text \<open>One key for all restarts. A worker that started with a key file, or made one, gets the
  same key pair at every later start, whatever random bytes it is offered then.\<close>

theorem worker_key_stable:
  assumes "load_or_create public_of hex_enc hex_dec None readable random fault fs = (Inr wid, fs')"
    and "\<And>seed. random = Some seed \<Longrightarrow> length seed = 32"
  shows "load_or_create public_of hex_enc hex_dec None True random' fault' fs' = (Inr wid, fs')"
proof (cases "sf_path fs")
  case (Some f)
  then show ?thesis using assms(1)
    by (auto simp: load_or_create_def load_key_def split: if_splits prod.splits)
next
  case None
  then obtain seed where r: "random = Some seed" "write_secret_file fault seed fs = (True, fs')" "wid = from_seed public_of hex_enc seed"
    using assms(1) by (auto simp: load_or_create_def generate_and_persist_def split: option.splits prod.splits bool.splits)
  have "sf_path fs' = Some (0x180, seed)" using write_secret_file_cases [OF r(2)] by auto
  with r(1,3) show ?thesis using assms(2) by (simp add: load_or_create_def load_key_def)
qed

section \<open>Tokens are fresh and signed with the secret in force\<close>

text \<open>Calls of the signer one after the other. \<open>sign_points\<close> gives, for each call of \<open>sign\<close>, the key id and
  secret that were installed last and the reading of the clocks.\<close>

datatype auth_op = OpSign | OpInstall bytes "string option"

fun auth_run :: "encoder \<Rightarrow> (auth_op \<times> reading) list \<Rightarrow> signer \<Rightarrow> string list \<times> signer" where
  "auth_run enc [] sg = ([], sg)"
| "auth_run enc ((OpSign, rd) # ops) sg =
     (case sign enc rd sg of (t, sg) \<Rightarrow> (case auth_run enc ops sg of (ts, sg) \<Rightarrow> (t # ts, sg)))"
| "auth_run enc ((OpInstall secret kid, rd) # ops) sg = auth_run enc ops (install_snapshot enc rd secret kid sg)"

fun sign_points ::
  "(auth_op \<times> reading) list \<Rightarrow> string option \<times> bytes \<Rightarrow> ((string option \<times> bytes) \<times> reading) list" where
  "sign_points [] pair = []"
| "sign_points ((OpSign, rd) # ops) pair = (pair, rd) # sign_points ops pair"
| "sign_points ((OpInstall secret kid, rd) # ops) pair =
     sign_points ops (if secret = [] then pair else (case kid of Some k \<Rightarrow> Some k | None \<Rightarrow> fst pair, secret))"

text \<open>The two clocks run together, \<open>offset\<close> apart, and a call takes at most \<open>gap\<close> seconds.\<close>

definition in_step :: "nat \<Rightarrow> nat \<Rightarrow> reading \<Rightarrow> bool" where
  "in_step offset gap rd \<longleftrightarrow> rd_now rd + offset \<le> rd_wall rd \<and> rd_wall rd \<le> rd_later rd + offset \<and>
     rd_later rd \<le> rd_now rd + gap * 10 ^ 9"

definition steady :: "nat \<Rightarrow> nat \<Rightarrow> (auth_op \<times> reading) list \<Rightarrow> bool" where
  "steady offset gap ops \<longleftrightarrow> list_all (\<lambda>(_, rd). in_step offset gap rd) ops"

definition same_worker :: "signer \<Rightarrow> signer \<Rightarrow> bool" where
  "same_worker sg sg' \<longleftrightarrow> sg_issuer sg = sg_issuer sg' \<and> sg_worker_id sg = sg_worker_id sg' \<and> sg_region sg = sg_region sg' \<and>
     sg_tenant_id sg = sg_tenant_id sg' \<and> sg_ttl sg = sg_ttl sg'"

definition names_worker :: "signer \<Rightarrow> worker_claims \<Rightarrow> bool" where
  "names_worker sg c \<longleftrightarrow> cl_iss c = sg_issuer sg \<and> cl_worker_id c = sg_worker_id sg \<and> cl_region c = sg_region sg \<and>
     cl_tenant_id c = sg_tenant_id sg"

definition snapshot_valid :: "encoder \<Rightarrow> nat \<Rightarrow> nat \<Rightarrow> signer \<Rightarrow> token_snapshot \<Rightarrow> bool" where
  "snapshot_valid enc offset gap sg snap \<longleftrightarrow>
     sn_token snap = [] \<or>
     (\<exists>c. sn_token snap = enc (sn_kid snap) c (sn_secret snap) \<and> names_worker sg c \<and>
        (sn_expires_at snap + offset) div 10 ^ 9 \<le> cl_exp c + gap)"

lemma claims_named: "names_worker sg (claims sg rd)"
  by (simp add: names_worker_def claims_def Let_def)

lemma claims_exp:
  assumes "sg_ttl sg = DEFAULT_TTL" and "t + offset \<le> rd_wall rd + gap * 10 ^ 9"
  shows "(t + sg_ttl sg + offset) div 10 ^ 9 \<le> cl_exp (claims sg rd) + gap"
proof -
  have "(t + sg_ttl sg + offset) div 10 ^ 9 \<le> (rd_wall rd + (86400 + gap) * 10 ^ 9) div 10 ^ 9"
    using assms by (intro div_le_mono) (simp add: DEFAULT_TTL_def)
  also have "\<dots> = rd_wall rd div 10 ^ 9 + (86400 + gap)" by (subst div_mult_self1) simp_all
  finally show ?thesis by (simp add: claims_def Let_def assms(1) DEFAULT_TTL_def)
qed

lemma re_encode_valid:
  assumes "sg_ttl sg = DEFAULT_TTL" and "in_step offset gap rd"
  shows "snapshot_valid enc offset gap sg (re_encode enc rd sg snap)"
proof -
  have "rd_now rd + offset \<le> rd_wall rd + gap * 10 ^ 9" using assms(2) by (simp add: in_step_def)
  from claims_exp [OF assms(1) this] claims_named [of sg rd] show ?thesis
    by (auto simp: snapshot_valid_def re_encode_def encode_with_def)
qed

lemma later_in_step: "in_step offset gap rd \<Longrightarrow> rd_later rd + offset \<le> rd_wall rd + gap * 10 ^ 9"
  by (simp add: in_step_def)

lemma next_snapshot_valid:
  assumes "sg_ttl sg = DEFAULT_TTL" and "in_step offset gap rd"
    and "next_snapshot enc rd secret kid sg snap = Some n"
  shows "snapshot_valid enc offset gap sg n"
  using claims_exp [OF assms(1) later_in_step [OF assms(2)]] claims_named [of sg rd] assms(3)
  by (auto simp: snapshot_valid_def next_snapshot_def encode_with_def Let_def split: if_splits)

lemma fresh_token_lasts:
  assumes "snapshot_fresh now snap"
  shows "(now + offset) div 10 ^ 9 + 300 \<le> (sn_expires_at snap + offset) div 10 ^ 9"
proof -
  have "now + offset + 300 * 10 ^ 9 \<le> sn_expires_at snap + offset"
    using assms unfolding snapshot_fresh_def REFRESH_LEAD_def by simp linarith
  then have "(now + offset + 300 * 10 ^ 9) div 10 ^ 9 \<le> (sn_expires_at snap + offset) div 10 ^ 9" by (rule div_le_mono)
  moreover have "(now + offset + 300 * 10 ^ 9) div 10 ^ 9 = (now + offset) div 10 ^ 9 + 300" by (subst div_mult_self1) simp_all
  ultimately show ?thesis by simp
qed

lemma sign_valid:
  assumes "sg_ttl sg = DEFAULT_TTL" and "in_step offset gap rd" and "snapshot_valid enc offset gap sg (sg_state sg)"
    and "sign enc rd sg = (t, sg')"
  shows "(\<exists>c. t = enc (sn_kid (sg_state sg)) c (sn_secret (sg_state sg)) \<and> names_worker sg c \<and> (rd_now rd + offset) div 10 ^ 9 + 300 \<le> cl_exp c + gap) \<and>
    snapshot_valid enc offset gap sg' (sg_state sg') \<and> same_worker sg sg' \<and>
    sn_kid (sg_state sg') = sn_kid (sg_state sg) \<and> sn_secret (sg_state sg') = sn_secret (sg_state sg)"
proof (cases "snapshot_fresh (rd_now rd) (sg_state sg)")
  case True
  then have t: "t = sn_token (sg_state sg)" "sg' = sg" "t \<noteq> []"
    using assms(4) by (auto simp: sign_def snapshot_fresh_def)
  then obtain c where "t = enc (sn_kid (sg_state sg)) c (sn_secret (sg_state sg))" "names_worker sg c"
    "(sn_expires_at (sg_state sg) + offset) div 10 ^ 9 \<le> cl_exp c + gap"
    using assms(3) by (auto simp: snapshot_valid_def)
  then show ?thesis using fresh_token_lasts [OF True, of offset] t assms(3) by (auto simp: same_worker_def intro: order_trans)
next
  case False
  let ?n = "re_encode enc rd sg (sg_state sg)"
  have t: "t = sn_token ?n" "sg' = swap ?n sg" using assms(4) False by (auto simp: sign_def Let_def)
  have "t = enc (sn_kid (sg_state sg)) (claims sg rd) (sn_secret (sg_state sg))"
    by (simp add: t re_encode_def encode_with_def)
  moreover have "(rd_now rd + offset) div 10 ^ 9 \<le> rd_wall rd div 10 ^ 9"
    using assms(2) by (intro div_le_mono) (simp add: in_step_def)
  then have "(rd_now rd + offset) div 10 ^ 9 + 300 \<le> cl_exp (claims sg rd) + gap"
    by (simp add: claims_def Let_def assms(1) DEFAULT_TTL_def)
  moreover have "snapshot_valid enc offset gap sg' (sg_state sg')"
    using re_encode_valid [OF assms(1,2), of enc "sg_state sg"]
    by (simp add: t swap_def snapshot_valid_def names_worker_def)
  ultimately show ?thesis using claims_named [of sg rd]
    by (auto simp: t swap_def same_worker_def re_encode_def)
qed

lemma install_valid:
  assumes "sg_ttl sg = DEFAULT_TTL" and "in_step offset gap rd" and "snapshot_valid enc offset gap sg (sg_state sg)"
    and "sg' = install_snapshot enc rd secret kid sg"
  shows "snapshot_valid enc offset gap sg' (sg_state sg') \<and> same_worker sg sg' \<and>
    (sn_kid (sg_state sg'), sn_secret (sg_state sg')) =
      (if secret = [] then (sn_kid (sg_state sg), sn_secret (sg_state sg))
       else (case kid of Some k \<Rightarrow> Some k | None \<Rightarrow> sn_kid (sg_state sg), secret))"
proof (cases "next_snapshot enc rd secret kid sg (sg_state sg)")
  case None
  then show ?thesis using assms(3,4)
    by (auto simp: install_snapshot_def same_worker_def next_snapshot_def Let_def split: if_splits)
next
  case (Some n)
  have "snapshot_valid enc offset gap sg' n"
    using next_snapshot_valid [OF assms(1,2) Some] by (simp add: assms(4) install_snapshot_def Some swap_def snapshot_valid_def names_worker_def)
  then show ?thesis using Some assms(4)
    by (auto simp: install_snapshot_def same_worker_def swap_def next_snapshot_def Let_def split: if_splits)
qed

lemma auth_run_valid:
  assumes "sg_ttl sg = DEFAULT_TTL" and "snapshot_valid enc offset gap sg (sg_state sg)" and "steady offset gap ops"
  shows "list_all2 (\<lambda>t (pair, rd). \<exists>c. t = enc (fst pair) c (snd pair) \<and> names_worker sg c \<and> (rd_now rd + offset) div 10 ^ 9 + 300 \<le> cl_exp c + gap)
    (fst (auth_run enc ops sg)) (sign_points ops (sn_kid (sg_state sg), sn_secret (sg_state sg)))"
  using assms
proof (induction enc ops sg rule: auth_run.induct)
  case (2 enc rd ops sg)
  obtain t sg' where s: "sign enc rd sg = (t, sg')" by fastforce
  obtain ts sg'' where r: "auth_run enc ops sg' = (ts, sg'')" by fastforce
  have wall: "in_step offset gap rd" "steady offset gap ops" using "2.prems"(3) by (simp_all add: steady_def)
  note v = sign_valid [OF "2.prems"(1) wall(1) "2.prems"(2) s]
  have same: "sg_ttl sg' = DEFAULT_TTL" "names_worker sg' = names_worker sg"
    using v "2.prems"(1) by (auto simp: same_worker_def names_worker_def)
  show ?case using "2.IH" [OF s [symmetric] same(1) _ wall(2)] v by (simp add: s r same(2))
next
  case (3 enc secret kid rd ops sg)
  let ?sg = "install_snapshot enc rd secret kid sg"
  have wall: "in_step offset gap rd" "steady offset gap ops" using "3.prems"(3) by (simp_all add: steady_def)
  note v = install_valid [OF "3.prems"(1) wall(1) "3.prems"(2) refl, of secret kid]
  have same: "sg_ttl ?sg = DEFAULT_TTL" "names_worker ?sg = names_worker sg"
    using v "3.prems"(1) by (auto simp: same_worker_def names_worker_def)
  have pair: "(sn_kid (sg_state ?sg), sn_secret (sg_state ?sg)) =
      (if secret = [] then (sn_kid (sg_state sg), sn_secret (sg_state sg))
       else (case kid of Some k \<Rightarrow> Some k | None \<Rightarrow> sn_kid (sg_state sg), secret))" using v by blast
  show ?case using "3.IH" [OF same(1) _ wall(2)] v unfolding pair same(2) by (cases kid) (simp_all split: if_splits)
qed simp

text \<open>Claim C11 (tokens in force). In every sequence of calls of the signer, with clocks that run together,
  each token it hands out is signed with the key id and secret that were installed last, carries the
  issuer, worker, tenant and region of the worker, and stays valid for at least five more minutes, up
  to the time \<open>gap\<close> that a call may take between its two readings of the clocks (with calls that take
  no time, five minutes exactly). A cached token is thus never handed out too late, and installing an
  empty secret changes nothing.\<close>

theorem signed_tokens_fresh:
  assumes "steady offset gap ops" and "in_step offset gap rd"
  shows "list_all2 (\<lambda>t (pair, rd). \<exists>c. t = enc (fst pair) c (snd pair) \<and>
      cl_iss c = issuer \<and> cl_worker_id c = worker_id \<and> cl_region c = region \<and> cl_tenant_id c = tenant_id \<and>
      (rd_now rd + offset) div 10 ^ 9 + 300 \<le> cl_exp c + gap)
    (fst (auth_run enc ops (signer_new enc rd secret kid issuer worker_id region tenant_id))) (sign_points ops (kid, secret))"
proof -
  let ?sg = "signer_new enc rd secret kid issuer worker_id region tenant_id"
  let ?s0 = "\<lparr>sg_state = \<lparr>sn_token = [], sn_kid = kid, sn_secret = secret, sn_expires_at = rd_now rd, sn_generation = 0\<rparr>,
    sg_issuer = issuer, sg_worker_id = worker_id, sg_region = region, sg_tenant_id = tenant_id, sg_ttl = DEFAULT_TTL\<rparr>"
  have "snapshot_valid enc offset gap ?sg (sg_state ?sg)"
    using claims_exp [of ?s0, OF _ later_in_step [OF assms(2)]] claims_named [of ?s0 rd]
    by (auto simp: signer_new_def install_initial_snapshot_def swap_def snapshot_valid_def encode_with_def names_worker_def)
  from auth_run_valid [OF _ this assms(1)] show ?thesis
    by (simp add: signer_new_def install_initial_snapshot_def swap_def names_worker_def)
qed

section \<open>Concurrent calls\<close>

text \<open>The calls of several tasks. A call reads the snapshot at once; what it swaps in later waits in
  \<open>ct_pending\<close>, with a flag that tells whether it is a call of \<open>sign\<close>, which then returns its token.
  \<open>ct_pairs\<close> are the key ids and secrets that calls of \<open>install_snapshot\<close> gave, latest first; a call
  without a key id means the one in force when it started.\<close>

record signer_tasks =
  ct_signer :: signer
  ct_pending :: "(bool \<times> token_snapshot) list"
  ct_returned :: "string list"
  ct_pairs :: "(string option \<times> bytes) list"

inductive sign_step :: "encoder \<Rightarrow> signer_tasks \<Rightarrow> signer_tasks \<Rightarrow> bool" for enc :: encoder where
  Cached: "snapshot_fresh now (sg_state (ct_signer s)) \<Longrightarrow>
    sign_step enc s (s\<lparr>ct_returned := sn_token (sg_state (ct_signer s)) # ct_returned s\<rparr>)"
| Encode: "\<not> snapshot_fresh (rd_now rd) (sg_state (ct_signer s)) \<Longrightarrow>
    sign_step enc s (s\<lparr>ct_pending := ct_pending s @ [(True, re_encode enc rd (ct_signer s) (sg_state (ct_signer s)))]\<rparr>)"
| Install: "next_snapshot enc rd secret kid (ct_signer s) (sg_state (ct_signer s)) = Some n \<Longrightarrow>
    sign_step enc s (s\<lparr>ct_pending := ct_pending s @ [(False, n)], 
      ct_pairs := (case kid of Some k \<Rightarrow> Some k | None \<Rightarrow> sn_kid (sg_state (ct_signer s)), secret) # ct_pairs s\<rparr>)"
| Swap: "ct_pending s = xs @ (signs, n) # ys \<Longrightarrow>
    sign_step enc s (s\<lparr>ct_signer := swap n (ct_signer s), ct_pending := xs @ ys,
      ct_returned := (if signs then [sn_token n] else []) @ ct_returned s\<rparr>)"

definition signer_start :: "signer \<Rightarrow> signer_tasks" where
  "signer_start sg = \<lparr>ct_signer = sg, ct_pending = [], ct_returned = [], ct_pairs = [(sn_kid (sg_state sg), sn_secret (sg_state sg))]\<rparr>"

definition snapshot_whole :: "encoder \<Rightarrow> signer \<Rightarrow> (string option \<times> bytes) list \<Rightarrow> token_snapshot \<Rightarrow> bool" where
  "snapshot_whole enc sg pairs n \<longleftrightarrow> (sn_kid n, sn_secret n) \<in> set pairs \<and>
     (sn_token n = [] \<or> (\<exists>rd. sn_token n = enc (sn_kid n) (claims sg rd) (sn_secret n)))"

definition token_from :: "encoder \<Rightarrow> signer \<Rightarrow> (string option \<times> bytes) list \<Rightarrow> string \<Rightarrow> bool" where
  "token_from enc sg pairs t \<longleftrightarrow> (\<exists>kid secret rd. (kid, secret) \<in> set pairs \<and> t = enc kid (claims sg rd) secret)"

definition tasks_inv :: "encoder \<Rightarrow> signer \<Rightarrow> signer_tasks \<Rightarrow> bool" where
  "tasks_inv enc sg s \<longleftrightarrow> same_worker sg (ct_signer s) \<and> snapshot_whole enc sg (ct_pairs s) (sg_state (ct_signer s)) \<and>
     list_all (\<lambda>(_, n). snapshot_whole enc sg (ct_pairs s) n \<and> token_from enc sg (ct_pairs s) (sn_token n)) (ct_pending s) \<and>
     list_all (token_from enc sg (ct_pairs s)) (ct_returned s)"

lemma same_worker_claims: "same_worker sg sg' \<Longrightarrow> claims sg' = claims sg"
  by (rule ext) (simp add: same_worker_def claims_def)

lemma snapshot_whole_mono: "snapshot_whole enc sg pairs n \<Longrightarrow> set pairs \<subseteq> set pairs' \<Longrightarrow> snapshot_whole enc sg pairs' n"
  by (auto simp: snapshot_whole_def)

lemma token_from_mono: "token_from enc sg pairs t \<Longrightarrow> set pairs \<subseteq> set pairs' \<Longrightarrow> token_from enc sg pairs' t"
  by (auto simp: token_from_def)

lemma re_encode_whole:
  assumes "snapshot_whole enc sg pairs snap" and "same_worker sg sg'"
  shows "snapshot_whole enc sg pairs (re_encode enc rd sg' snap) \<and>
    token_from enc sg pairs (sn_token (re_encode enc rd sg' snap))"
  using assms by (auto simp: snapshot_whole_def token_from_def re_encode_def encode_with_def same_worker_claims)

lemma next_snapshot_whole:
  assumes "next_snapshot enc rd secret kid sg' snap = Some n" and "same_worker sg sg'"
    and "pair = (case kid of Some k \<Rightarrow> Some k | None \<Rightarrow> sn_kid snap, secret)"
  shows "snapshot_whole enc sg (pair # pairs) n \<and> token_from enc sg (pair # pairs) (sn_token n)"
proof -
  have n: "(sn_kid n, sn_secret n) = pair" "sn_token n = enc (fst pair) (claims sg rd) (snd pair)"
    using assms by (auto simp: next_snapshot_def encode_with_def same_worker_claims Let_def split: if_splits)
  have "token_from enc sg (pair # pairs) (sn_token n)"
    unfolding token_from_def n(2) by (rule exI [of _ "fst pair"], rule exI [of _ "snd pair"], rule exI [of _ rd]) simp
  then show ?thesis using n by (auto simp: snapshot_whole_def)
qed

lemma tasks_inv_step: "sign_step enc s s' \<Longrightarrow> tasks_inv enc sg s \<Longrightarrow> tasks_inv enc sg s'"
proof (induction rule: sign_step.induct)
  case (Cached now s)
  then show ?case by (auto simp: tasks_inv_def snapshot_whole_def snapshot_fresh_def token_from_def)
next
  case (Encode rd s)
  then show ?case using re_encode_whole [of enc sg "ct_pairs s" "sg_state (ct_signer s)" "ct_signer s" rd]
    by (auto simp: tasks_inv_def)
next
  case (Install rd secret kid s n)
  let ?pair = "(case kid of Some k \<Rightarrow> Some k | None \<Rightarrow> sn_kid (sg_state (ct_signer s)), secret)"
  have keep: "snapshot_whole enc sg (?pair # ct_pairs s) m" if "snapshot_whole enc sg (ct_pairs s) m" for m
    using that by (rule snapshot_whole_mono) auto
  have keep': "token_from enc sg (?pair # ct_pairs s) t" if "token_from enc sg (ct_pairs s) t" for t
    using that by (rule token_from_mono) auto
  have "same_worker sg (ct_signer s)" using Install(2) by (simp add: tasks_inv_def)
  note next_snapshot_whole [OF Install(1) this refl, of "ct_pairs s"]
  then show ?case using Install(2) by (auto simp: tasks_inv_def split_def list_all_iff intro: keep keep')
next
  case (Swap s xs signs n ys)
  then show ?case by (auto simp: tasks_inv_def swap_def same_worker_def)
qed

lemma tasks_inv_reachable:
  "(sign_step enc)\<^sup>*\<^sup>* s s' \<Longrightarrow> tasks_inv enc sg s \<Longrightarrow> tasks_inv enc sg s'"
  by (induction rule: rtranclp_induct) (auto dest: tasks_inv_step)

text \<open>Claim C28 (no torn tokens). However the calls of several tasks interleave, every token that is
  handed out was signed with a key id and a secret that were given together, to the constructor or to
  one call of \<open>install_snapshot\<close> (a call without a key id keeps the one it finds), and the snapshot of
  the signer holds a key id and a secret that were given together and a token that was signed with
  them.\<close>

theorem tokens_never_torn:
  assumes "(sign_step enc)\<^sup>*\<^sup>* (signer_start (signer_new enc rd secret kid issuer worker_id region tenant_id)) s"
    and "sg = ct_signer s" and "snap = sg_state sg"
  shows "list_all (\<lambda>t. \<exists>kid secret rd. (kid, secret) \<in> set (ct_pairs s) \<and> t = enc kid (claims sg rd) secret) (ct_returned s) \<and>
    (sn_kid snap, sn_secret snap) \<in> set (ct_pairs s) \<and>
    (sn_token snap = [] \<or> (\<exists>rd. sn_token snap = enc (sn_kid snap) (claims sg rd) (sn_secret snap)))"
proof -
  let ?sg = "signer_new enc rd secret kid issuer worker_id region tenant_id"
  have "tasks_inv enc ?sg (signer_start ?sg)"
    by (auto simp: tasks_inv_def signer_start_def snapshot_whole_def same_worker_def signer_new_def install_initial_snapshot_def
        swap_def encode_with_def claims_def)
  from tasks_inv_reachable [OF assms(1) this] have inv: "tasks_inv enc ?sg s" .
  then have "claims sg = claims ?sg" by (auto simp: tasks_inv_def assms(2) intro: same_worker_claims)
  with inv show ?thesis by (simp add: tasks_inv_def snapshot_whole_def token_from_def [abs_def] assms(2,3))
qed

text \<open>A rotation can be undone. A call of \<open>sign\<close> that renews an expired token, and that read the
  snapshot before a new secret was installed, swaps in its snapshot afterwards: the new secret and key
  id are gone, the generation is the old one, and no call is pending.\<close>

theorem rotation_undone:
  assumes "new_secret \<noteq> []"
  shows "\<exists>s. (sign_step enc)\<^sup>*\<^sup>* (signer_start (signer_new enc rd secret kid issuer worker_id region tenant_id)) s \<and>
    ct_pending s = [] \<and> hd (ct_pairs s) = (Some new_kid, new_secret) \<and>
    sn_secret (sg_state (ct_signer s)) = secret \<and> sn_kid (sg_state (ct_signer s)) = kid \<and> sn_generation (sg_state (ct_signer s)) = 0"
proof -
  let ?sg = "signer_new enc rd secret kid issuer worker_id region tenant_id"
  let ?late = "rd\<lparr>rd_now := rd_later rd + DEFAULT_TTL\<rparr>"
  let ?r = "re_encode enc ?late ?sg (sg_state ?sg)"
  obtain n where n: "next_snapshot enc ?late new_secret (Some new_kid) ?sg (sg_state ?sg) = Some n" "sn_kid n = Some new_kid"
    using assms by (auto simp: next_snapshot_def Let_def)
  have snap: "sn_kid (sg_state ?sg) = kid" "sn_secret (sg_state ?sg) = secret"
    "sn_expires_at (sg_state ?sg) = rd_later rd + DEFAULT_TTL" "sn_generation (sg_state ?sg) = 0"
    by (simp_all add: signer_new_def install_initial_snapshot_def swap_def)
  let ?s0 = "signer_start ?sg"
  let ?s1 = "?s0\<lparr>ct_pending := [(True, ?r)]\<rparr>"
  let ?s2 = "?s1\<lparr>ct_pending := [(True, ?r), (False, n)], ct_pairs := [(Some new_kid, new_secret), (kid, secret)]\<rparr>"
  let ?s3 = "?s2\<lparr>ct_signer := swap n ?sg, ct_pending := [(True, ?r)], ct_returned := []\<rparr>"
  let ?s4 = "?s3\<lparr>ct_signer := swap ?r (swap n ?sg), ct_pending := [], ct_returned := [sn_token ?r]\<rparr>"
  have "\<not> snapshot_fresh (rd_now ?late) (sg_state ?sg)" by (simp add: snapshot_fresh_def snap)
  then have "sign_step enc ?s0 ?s1" using sign_step.Encode [of ?late ?s0 enc] by (simp add: signer_start_def)
  moreover have "sign_step enc ?s1 ?s2"
    using sign_step.Install [of enc ?late new_secret "Some new_kid" ?s1 n] n snap by (simp add: signer_start_def)
  moreover have "sign_step enc ?s2 ?s3" using sign_step.Swap [of ?s2 "[(True, ?r)]" False n "[]" enc] by (simp add: signer_start_def)
  moreover have "sign_step enc ?s3 ?s4" using sign_step.Swap [of ?s3 "[]" True ?r "[]" enc] by simp
  ultimately have "(sign_step enc)\<^sup>*\<^sup>* ?s0 ?s4" by (meson converse_rtranclp_into_rtranclp rtranclp.rtrancl_refl)
  moreover have "sn_secret ?r = secret" "sn_kid ?r = kid" "sn_generation ?r = 0" by (simp_all add: re_encode_def snap)
  ultimately show ?thesis by (intro exI [of _ ?s4]) (simp add: swap_def)
qed

section \<open>Examples\<close>

definition plain_encoder :: encoder where
  "plain_encoder kid c secret = cl_worker_id c @ (case kid of Some k \<Rightarrow> ''.'' @ k | None \<Rightarrow> [])"

definition sample_reading :: reading where
  "sample_reading = \<lparr>rd_now = 0, rd_wall = 10 ^ 18, rd_later = 0, rd_jti = ''j''\<rparr>"

definition sample_record :: persisted_identity where
  "sample_record = \<lparr>pi_kid = ''wkr_1'', pi_secret = [1, 2, 255], pi_public_key_hex = ''ab''\<rparr>"

lemma sample_record_ok: "identity_ok sample_record"
  by (simp add: identity_ok_def sample_record_def utf8_seq_len_def Let_def of_char_def)

theorem persist_identity_atomic_witness:
  "load_persisted_identity True (snd (persist_identity NoFault sample_record \<lparr>sf_tmp = None, sf_path = None\<rparr>)) =
     Inr (Some sample_record)"
proof -
  have "persist_identity NoFault sample_record \<lparr>sf_tmp = None, sf_path = None\<rparr> =
      (True, snd (persist_identity NoFault sample_record \<lparr>sf_tmp = None, sf_path = None\<rparr>))"
    by (simp add: persist_identity_def write_secret_file_def)
  from persist_identity_atomic [OF sample_record_ok this] show ?thesis by simp
qed

theorem worker_key_stable_witness:
  "load_or_create (\<lambda>s. s) hex_encode (\<lambda>_. None) None True None NoFault
     (snd (load_or_create (\<lambda>s. s) hex_encode (\<lambda>_. None) None True (Some (replicate 32 7)) NoFault \<lparr>sf_tmp = None, sf_path = None\<rparr>)) =
   (Inr (from_seed (\<lambda>s. s) hex_encode (replicate 32 7)), \<lparr>sf_tmp = None, sf_path = Some (0x180, replicate 32 7)\<rparr>)"
proof -
  have "load_or_create (\<lambda>s. s) hex_encode (\<lambda>_. None) None True (Some (replicate 32 7)) NoFault \<lparr>sf_tmp = None, sf_path = None\<rparr> =
      (Inr (from_seed (\<lambda>s. s) hex_encode (replicate 32 7)), \<lparr>sf_tmp = None, sf_path = Some (0x180, replicate 32 7)\<rparr>)"
    by (simp add: load_or_create_def generate_and_persist_def write_secret_file_def)
  from worker_key_stable [OF this, of None NoFault] this show ?thesis by simp
qed

theorem signed_tokens_fresh_witness:
  "\<exists>c. hd (fst (auth_run plain_encoder [(OpInstall [2] (Some ''k2''), sample_reading), (OpSign, sample_reading)]
      (signer_new plain_encoder sample_reading [1] (Some ''k1'') ''edgecloud'' ''w1'' ''fra'' ''acme''))) = plain_encoder (Some ''k2'') c [2] \<and>
    cl_worker_id c = ''w1'' \<and> 10 ^ 9 + 300 \<le> cl_exp c"
proof -
  let ?ops = "[(OpInstall [2] (Some ''k2''), sample_reading), (OpSign, sample_reading)]"
  have "steady (10 ^ 18) 0 ?ops" "in_step (10 ^ 18) 0 sample_reading"
    by (simp_all add: steady_def in_step_def sample_reading_def)
  from signed_tokens_fresh [OF this, of plain_encoder "''edgecloud''" "''w1''" "''fra''" "''acme''" "[1]" "Some ''k1''"]
  obtain t where "fst (auth_run plain_encoder ?ops
      (signer_new plain_encoder sample_reading [1] (Some ''k1'') ''edgecloud'' ''w1'' ''fra'' ''acme'')) = [t]"
    "\<exists>c. t = plain_encoder (Some ''k2'') c [2] \<and> cl_worker_id c = ''w1'' \<and> (rd_now sample_reading + 10 ^ 18) div 10 ^ 9 + 300 \<le> cl_exp c"
    unfolding sign_points.simps by (auto simp: list_all2_Cons2)
  then show ?thesis by (simp add: sample_reading_def)
qed

theorem tokens_never_torn_witness:
  "\<exists>s. (sign_step plain_encoder)\<^sup>*\<^sup>* (signer_start (signer_new plain_encoder sample_reading [1] (Some ''k1'') ''edgecloud'' ''w1'' ''fra'' ''acme'')) s \<and>
    ct_returned s = [''w1.k1''] \<and> (sn_kid (sg_state (ct_signer s)), sn_secret (sg_state (ct_signer s))) \<in> set (ct_pairs s)"
proof -
  let ?s = "signer_start (signer_new plain_encoder sample_reading [1] (Some ''k1'') ''edgecloud'' ''w1'' ''fra'' ''acme'')"
  let ?s' = "?s\<lparr>ct_returned := [''w1.k1'']\<rparr>"
  have "sign_step plain_encoder ?s ?s'"
    using sign_step.Cached [of 0 ?s plain_encoder]
    by (simp add: signer_start_def signer_new_def install_initial_snapshot_def swap_def snapshot_fresh_def plain_encoder_def encode_with_def
        claims_def Let_def sample_reading_def REFRESH_LEAD_def DEFAULT_TTL_def)
  then have r: "(sign_step plain_encoder)\<^sup>*\<^sup>* ?s ?s'" by blast
  from tokens_never_torn [OF r refl refl] r show ?thesis by (intro exI [of _ ?s']) simp
qed

theorem rotation_undone_witness:
  "\<exists>s. (sign_step plain_encoder)\<^sup>*\<^sup>* (signer_start (signer_new plain_encoder sample_reading [1] (Some ''k1'') ''edgecloud'' ''w1'' ''fra'' ''acme'')) s \<and>
    hd (ct_pairs s) = (Some ''k2'', [2]) \<and> sn_secret (sg_state (ct_signer s)) = [1]"
  using rotation_undone [of "[2]" plain_encoder sample_reading "[1]" "Some ''k1''" "''edgecloud''" "''w1''" "''fra''" "''acme''" "''k2''"] by auto

end
