(* ===== verification/Control_Enrollment.thy ===== *)
theory Control_Enrollment
  imports Worker_Auth
begin

text \<open>
  The control plane's side of the enrolment of a worker, in Go: the two handlers of the handshake
  (\<open>internal/handler/internal.go\<close>), the tokens of its first phase (\<open>internal/middleware/bootstrap.go\<close>), the
  derivation of a worker's secret (\<open>internal/signing/worker_key.go\<close>), and the verification of worker
  tokens with the cache of public keys (\<open>internal/middleware/worker.go\<close>, \<open>worker_key_cache.go\<close>), all
  under \<open>edge-control-plane/\<close>.

  Hashes, signatures, the key derivation and the JWT library are the record \<open>enroll_kit\<close>, together with
  the crates the worker uses for the same purposes. Times are nanoseconds since the epoch. A reply is a
  status and a JSON value. A body is an object with distinct keys, spelled as the struct tags spell them
  (\<open>encoding/json\<close> would also accept other capitals). The rate limiters and the audit log are left out.
\<close>

section \<open>Libraries\<close>

record boot_claims =
  bc_iss :: string
  bc_exp :: nat
  bc_iat :: nat
  bc_nbf :: nat
  bc_id :: string
  bc_worker_id :: string
  bc_tenant_id :: string
  bc_region :: string

record enroll_kit =
  ek_sha256 :: "bytes \<Rightarrow> bytes"
  ek_hmac :: "bytes \<Rightarrow> bytes \<Rightarrow> bytes"
  ek_public :: "bytes \<Rightarrow> bytes"
  ek_sign :: "bytes \<Rightarrow> bytes \<Rightarrow> bytes"
  ek_verify :: "bytes \<Rightarrow> bytes \<Rightarrow> bytes \<Rightarrow> bool"
  ek_hkdf :: "bytes \<Rightarrow> bytes \<Rightarrow> bytes \<Rightarrow> bytes"
  ek_hex_enc :: "bytes \<Rightarrow> string"
  ek_hex_dec :: "string \<Rightarrow> bytes option"
  ek_b64_std :: "string \<Rightarrow> bytes option"
  ek_b64_url :: "string \<Rightarrow> bytes option"
  ek_encode :: encoder
  ek_parse :: "string \<Rightarrow> (string option \<times> worker_claims) option"
  ek_boot_encode :: "boot_claims \<Rightarrow> bytes \<Rightarrow> string"
  ek_boot_parse :: "string \<Rightarrow> boot_claims option"
  ek_hs256_ok :: "string \<Rightarrow> bytes \<Rightarrow> bool"
  ek_time_print :: "nat \<Rightarrow> string"
  ek_time_parse :: "string \<Rightarrow> nat option"

text \<open>\<open>hex.DecodeString\<close> takes both cases; \<open>hex.EncodeToString\<close> is \<open>hex_encode\<close>.\<close>

definition go_hex_decode :: "string \<Rightarrow> bytes option" where
  "go_hex_decode s = (if odd (length s) then None else decode_hex (as_bytes (to_ascii_lowercase s)))"

text \<open>\<open>base64.RawURLEncoding\<close>. The decoder skips line breaks and ignores the bits that are left over.\<close>

definition b64url_char :: "nat \<Rightarrow> char" where
  "b64url_char n =
     (if n < 26 then char_of (65 + n) else if n < 52 then char_of (71 + n) else if n < 62 then char_of (n - 4)
      else if n = 62 then CHR ''-'' else CHR ''_'')"

definition b64url_val :: "char \<Rightarrow> nat option" where
  "b64url_val c =
     (let n = of_char c :: nat
      in if 65 \<le> n \<and> n \<le> 90 then Some (n - 65) else if 97 \<le> n \<and> n \<le> 122 then Some (n - 71)
         else if 48 \<le> n \<and> n \<le> 57 then Some (n + 4) else if n = 45 then Some 62 else if n = 95 then Some 63 else None)"

fun b64_digits :: "nat list \<Rightarrow> nat list" where
  "b64_digits [] = []"
| "b64_digits [a] = [a div 4, a mod 4 * 16]"
| "b64_digits [a, b] = [a div 4, a mod 4 * 16 + b div 16, b mod 16 * 4]"
| "b64_digits (a # b # c # rest) =
     [a div 4, a mod 4 * 16 + b div 16, b mod 16 * 4 + c div 64, c mod 64] @ b64_digits rest"

fun b64_bytes :: "nat list \<Rightarrow> nat list option" where
  "b64_bytes [] = Some []"
| "b64_bytes [w] = None"
| "b64_bytes [w, x] = Some [w * 4 + x div 16]"
| "b64_bytes [w, x, y] = Some [w * 4 + x div 16, x mod 16 * 16 + y div 4]"
| "b64_bytes (w # x # y # z # rest) =
     map_option (\<lambda>bs. [w * 4 + x div 16, x mod 16 * 16 + y div 4, y mod 4 * 64 + z] @ bs) (b64_bytes rest)"

definition raw_url_encode :: "bytes \<Rightarrow> string" where
  "raw_url_encode bs = map b64url_char (b64_digits (map unat bs))"

definition raw_url_decode :: "string \<Rightarrow> bytes option" where
  "raw_url_decode s =
     map_option (map of_nat) (Option.bind (those (map b64url_val (filter (\<lambda>c. c \<noteq> CHR 0x0A \<and> c \<noteq> CHR 0x0D) s))) b64_bytes)"

section \<open>State\<close>

record enrollment_challenge =
  ec_challenge :: string
  ec_public_key :: string
  ec_expires_at :: nat

text \<open>\<open>cp_workers\<close> has the rows of the workers with their public key, which is empty before the first
  enrolment. \<open>cp_key_cache\<close> has public keys with their expiry.\<close>

record control_plane =
  cp_bootstrap_secret :: string
  cp_jwt_secret :: string
  cp_issuer :: string
  cp_active_kid :: string
  cp_keys :: "(string, string) hashmap"
  cp_challenges :: "(string, enrollment_challenge) hashmap"
  cp_workers :: "(string, string) hashmap"
  cp_key_cache :: "(string, string \<times> nat) hashmap"

type_synonym http_answer = "nat \<times> json"

text \<open>A field of a Go struct that \<open>json.Decode\<close> fills: empty when it is absent or null.\<close>

definition go_str :: "string \<Rightarrow> json \<Rightarrow> string option" where
  "go_str k j =
     (case j of
        JNull \<Rightarrow> Some []
      | JObj _ \<Rightarrow> (case jget k j of None \<Rightarrow> Some [] | Some JNull \<Rightarrow> Some [] | Some (JStr s) \<Rightarrow> Some s | Some _ \<Rightarrow> None)
      | _ \<Rightarrow> None)"

fun go_strs :: "string list \<Rightarrow> json \<Rightarrow> string list option" where
  "go_strs [] j = Some []"
| "go_strs (k # ks) j = Option.bind (go_str k j) (\<lambda>v. map_option (\<lambda>vs. v # vs) (go_strs ks j))"

section \<open>Secrets and key ids of workers\<close>

definition DeriveWorkerSecret :: "enroll_kit \<Rightarrow> string \<Rightarrow> string \<Rightarrow> string \<Rightarrow> string \<Rightarrow> string \<Rightarrow> bytes option" where
  "DeriveWorkerSecret kit master worker_id tenant_id region public_key_hex =
     (if master = [] then None
      else Some (ek_hkdf kit (as_bytes master) (as_bytes public_key_hex)
                   (as_bytes (''worker-v1|'' @ worker_id @ ''|'' @ tenant_id @ ''|'' @ region))))"

definition WorkerKID :: "enroll_kit \<Rightarrow> string \<Rightarrow> string" where
  "WorkerKID kit public_key_hex = ''wkr_'' @ take 8 (hex_encode (ek_sha256 kit (as_bytes public_key_hex)))"

definition IsWorkerKID :: "string \<Rightarrow> bool" where
  "IsWorkerKID kid \<longleftrightarrow> length kid > 4 \<and> take 4 kid = ''wkr_''"

section \<open>Challenges\<close>

definition put_challenge :: "string \<Rightarrow> enrollment_challenge \<Rightarrow> control_plane \<Rightarrow> control_plane" where
  "put_challenge worker_id ch cp = cp\<lparr>cp_challenges := hm_insert worker_id ch (cp_challenges cp)\<rparr>"

definition pop_challenge ::
  "string \<Rightarrow> string \<Rightarrow> nat \<Rightarrow> control_plane \<Rightarrow> enrollment_challenge option \<times> control_plane" where
  "pop_challenge worker_id public_key now cp =
     (case hm_get (cp_challenges cp) worker_id of
        None \<Rightarrow> (None, cp)
      | Some ch \<Rightarrow>
          if \<not> now < ec_expires_at ch then (None, cp\<lparr>cp_challenges := hm_remove worker_id (cp_challenges cp)\<rparr>)
          else if ec_public_key ch \<noteq> public_key then (None, cp)
          else (Some ch, cp\<lparr>cp_challenges := hm_remove worker_id (cp_challenges cp)\<rparr>))"

section \<open>First phase\<close>

definition minute :: nat where
  "minute = 60 * 10 ^ 9"

definition IssueBootstrapJWT :: "enroll_kit \<Rightarrow> nat \<Rightarrow> string \<Rightarrow> string \<Rightarrow> string \<Rightarrow> string \<Rightarrow> string" where
  "IssueBootstrapJWT kit now secret worker_id tenant_id region =
     ek_boot_encode kit
       \<lparr>bc_iss = ''edgecloud-bootstrap'', bc_exp = (now + 5 * minute) div 10 ^ 9, bc_iat = now div 10 ^ 9,
        bc_nbf = (now - 30 * 10 ^ 9) div 10 ^ 9, bc_id = ''bs-'' @ dec now, bc_worker_id = worker_id,
        bc_tenant_id = tenant_id, bc_region = region\<rparr> (as_bytes secret)"

text \<open>\<open>challenge_bytes\<close> are the random bytes of the challenge, or \<open>None\<close> if there are none.\<close>

definition Bootstrap ::
  "enroll_kit \<Rightarrow> nat \<Rightarrow> bytes option \<Rightarrow> json \<Rightarrow> control_plane \<Rightarrow> http_answer \<times> control_plane" where
  "Bootstrap kit now challenge_bytes body cp =
     (if cp_bootstrap_secret cp = [] then ((501, JNull), cp)
      else case go_strs [''worker_id'', ''region'', ''tenant_id'', ''timestamp'', ''nonce'', ''signature'', ''public_key''] body of
        Some [worker_id, region, tenant_id, timestamp, nonce, signature, public_key] \<Rightarrow>
          if worker_id = [] \<or> region = [] \<or> tenant_id = [] then ((400, JNull), cp)
          else if timestamp = [] \<or> nonce = [] \<or> signature = [] then ((400, JNull), cp)
          else if public_key = [] \<or> length public_key \<noteq> 64 \<or> go_hex_decode public_key = None then ((400, JNull), cp)
          else (case ek_time_parse kit timestamp of
                  None \<Rightarrow> ((400, JNull), cp)
                | Some ts \<Rightarrow>
                    if now > ts + 5 * minute \<or> now + minute < ts then ((400, JNull), cp)
                    else let payload = worker_id @ '':'' @ region @ '':'' @ tenant_id @ '':'' @ timestamp @ '':'' @ nonce @ '':'' @ public_key;
                             expected_sig = hex_encode (ek_hmac kit (as_bytes (cp_bootstrap_secret cp)) (as_bytes payload))
                         in if signature \<noteq> expected_sig then ((401, JNull), cp)
                            else (case challenge_bytes of
                                    None \<Rightarrow> ((500, JNull), cp)
                                  | Some cb \<Rightarrow>
                                      let token = IssueBootstrapJWT kit now (cp_bootstrap_secret cp) worker_id tenant_id region;
                                          challenge = raw_url_encode cb; expires_at = now + 5 * minute
                                      in ((200, JObj [(''token'', JStr token), (''enrollment_challenge'', JStr challenge),
                                                      (''challenge_expires_at'', JNum (int (expires_at div 10 ^ 9)))]),
                                          put_challenge worker_id
                                            \<lparr>ec_challenge = challenge, ec_public_key = public_key, ec_expires_at = expires_at\<rparr> cp)))
      | _ \<Rightarrow> ((400, JNull), cp))"

section \<open>Second phase\<close>

definition VerifyBootstrapJWT :: "enroll_kit \<Rightarrow> nat \<Rightarrow> string \<Rightarrow> string \<Rightarrow> boot_claims option" where
  "VerifyBootstrapJWT kit now secret token =
     (case ek_boot_parse kit token of
        Some c \<Rightarrow>
          if secret \<noteq> [] \<and> ek_hs256_ok kit token (as_bytes secret) \<and> now < bc_exp c * 10 ^ 9 \<and> bc_nbf c * 10 ^ 9 \<le> now \<and>
             bc_iss c = ''edgecloud-bootstrap''
          then Some c else None
      | None \<Rightarrow> None)"

text \<open>\<open>db_ok\<close> tells whether the database takes the update; it affects no row when there is none for the
  worker.\<close>

definition set_public_key :: "string \<Rightarrow> string \<Rightarrow> control_plane \<Rightarrow> nat \<times> control_plane" where
  "set_public_key worker_id pk cp =
     (if hm_contains (cp_workers cp) worker_id then (1, cp\<lparr>cp_workers := hm_insert worker_id pk (cp_workers cp)\<rparr>) else (0, cp))"

definition invalidate :: "string \<Rightarrow> control_plane \<Rightarrow> control_plane" where
  "invalidate worker_id cp = cp\<lparr>cp_key_cache := hm_remove worker_id (cp_key_cache cp)\<rparr>"

definition enroll_verified ::
  "enroll_kit \<Rightarrow> nat \<Rightarrow> bool \<Rightarrow> boot_claims \<Rightarrow> string \<Rightarrow> control_plane \<Rightarrow> http_answer \<times> control_plane" where
  "enroll_verified kit now db_ok c public_key cp =
     (if \<not> db_ok then ((500, JNull), cp)
      else case set_public_key (bc_worker_id c) public_key cp of
        (affected, cp) \<Rightarrow>
          let cp = invalidate (bc_worker_id c) cp
          in if affected = 0 then ((400, JNull), cp)
             else (case DeriveWorkerSecret kit (cp_jwt_secret cp) (bc_worker_id c) (bc_tenant_id c) (bc_region c) public_key of
                     None \<Rightarrow> ((500, JNull), cp)
                   | Some derived \<Rightarrow>
                       ((200, JObj [(''kid'', JStr (WorkerKID kit public_key)), (''secret'', JStr (raw_url_encode derived)),
                                    (''expires_at'', JNum (int ((now + 24 * 60 * minute) div 10 ^ 9)))]), cp)))"

definition EnrollWorker ::
  "enroll_kit \<Rightarrow> nat \<Rightarrow> bool \<Rightarrow> string \<Rightarrow> json \<Rightarrow> control_plane \<Rightarrow> http_answer \<times> control_plane" where
  "EnrollWorker kit now db_ok bearer body cp =
     (case VerifyBootstrapJWT kit now (cp_bootstrap_secret cp) bearer of
        None \<Rightarrow> ((401, JNull), cp)
      | Some c \<Rightarrow>
          (case go_strs [''worker_id'', ''public_key'', ''enrollment_challenge'', ''signature''] body of
             Some [worker_id, public_key, challenge, signature] \<Rightarrow>
               if worker_id = [] \<or> public_key = [] \<or> challenge = [] \<or> signature = [] then ((400, JNull), cp)
               else if worker_id \<noteq> bc_worker_id c then ((400, JNull), cp)
               else (case (go_hex_decode public_key, go_hex_decode signature, raw_url_decode challenge) of
                       (Some pub_bytes, Some sig_bytes, Some challenge_bytes) \<Rightarrow>
                         if length pub_bytes \<noteq> 32 \<or> length sig_bytes \<noteq> 64 then ((400, JNull), cp)
                         else (case pop_challenge worker_id public_key now cp of
                                 (None, cp) \<Rightarrow> ((401, JNull), cp)
                               | (Some stored, cp) \<Rightarrow>
                                   if raw_url_decode (ec_challenge stored) \<noteq> Some challenge_bytes then ((401, JNull), cp)
                                   else if \<not> ek_verify kit pub_bytes (ek_sha256 kit (pub_bytes @ challenge_bytes)) sig_bytes
                                   then ((401, JNull), cp)
                                   else enroll_verified kit now db_ok c public_key cp)
                     | _ \<Rightarrow> ((400, JNull), cp))
           | _ \<Rightarrow> ((400, JNull), cp)))"

section \<open>Verification of worker tokens\<close>

definition GetOrLoad :: "nat \<Rightarrow> bool \<Rightarrow> string \<Rightarrow> control_plane \<Rightarrow> string option \<times> control_plane" where
  "GetOrLoad now db_ok worker_id cp =
     (if worker_id = [] then (Some [], cp)
      else let cached = (case hm_get (cp_key_cache cp) worker_id of
                           Some (pk, expires_at) \<Rightarrow> if now < expires_at then Some pk else None
                         | None \<Rightarrow> None)
           in case cached of
                Some pk \<Rightarrow> (Some pk, cp)
              | None \<Rightarrow>
                  if \<not> db_ok then (None, cp)
                  else (case hm_get (cp_workers cp) worker_id of
                          None \<Rightarrow> (Some [], cp)
                        | Some pk \<Rightarrow>
                            if pk = [] then (Some [], cp)
                            else (Some pk, cp\<lparr>cp_key_cache := hm_insert worker_id (pk, now + 5 * minute) (cp_key_cache cp)\<rparr>)))"

definition resolveKey ::
  "enroll_kit \<Rightarrow> nat \<Rightarrow> bool \<Rightarrow> string option \<Rightarrow> worker_claims \<Rightarrow> control_plane \<Rightarrow> bytes option \<times> control_plane" where
  "resolveKey kit now db_ok header_kid c cp =
     (let kid = (case header_kid of Some k \<Rightarrow> k | None \<Rightarrow> [])
      in if IsWorkerKID kid then
           if cl_worker_id c = [] then (None, cp)
           else (case GetOrLoad now db_ok (cl_worker_id c) cp of
                   (None, cp) \<Rightarrow> (None, cp)
                 | (Some pk, cp) \<Rightarrow>
                     if pk = [] \<or> kid \<noteq> WorkerKID kit pk then (None, cp)
                     else (DeriveWorkerSecret kit (cp_jwt_secret cp) (cl_worker_id c) (cl_tenant_id c) (cl_region c) pk, cp))
         else if kid \<noteq> [] \<and> hm_get (cp_keys cp) kid \<noteq> None then (map_option as_bytes (hm_get (cp_keys cp) kid), cp)
         else if cp_jwt_secret cp \<noteq> [] then (Some (as_bytes (cp_jwt_secret cp)), cp)
         else if cp_active_kid cp \<noteq> [] then (map_option as_bytes (hm_get (cp_keys cp) (cp_active_kid cp)), cp)
         else (None, cp))"

definition VerifyWorkerJWT ::
  "enroll_kit \<Rightarrow> nat \<Rightarrow> bool \<Rightarrow> string \<Rightarrow> control_plane \<Rightarrow> worker_claims option \<times> control_plane" where
  "VerifyWorkerJWT kit now db_ok token cp =
     (case ek_parse kit token of
        None \<Rightarrow> (None, cp)
      | Some (header_kid, c) \<Rightarrow>
          (case resolveKey kit now db_ok header_kid c cp of
             (None, cp) \<Rightarrow> (None, cp)
           | (Some key, cp) \<Rightarrow>
               if ek_hs256_ok kit token key \<and> now < cl_exp c * 10 ^ 9 \<and> (cp_issuer cp = [] \<or> cl_iss c = cp_issuer cp)
               then (Some c, cp) else (None, cp)))"

section \<open>The codecs\<close>

lemma b64url_val_char: "n < 64 \<Longrightarrow> b64url_val (b64url_char n) = Some n"
  by (auto simp: b64url_val_def b64url_char_def Let_def)

lemma b64url_char_no_break: "n < 64 \<Longrightarrow> b64url_char n \<noteq> CHR 0x0A \<and> b64url_char n \<noteq> CHR 0x0D"
proof -
  assume "n < 64"
  then have "b64url_val (b64url_char n) = Some n" by (rule b64url_val_char)
  then show ?thesis by (auto simp: b64url_val_def Let_def)
qed

lemma b64_digits_bound: "list_all (\<lambda>b. b < 256) bs \<Longrightarrow> list_all (\<lambda>d. d < 64) (b64_digits bs)"
proof (induction bs rule: b64_digits.induct)
  case (4 a b c rest)
  have "a mod 4 < 4" "b mod 16 < 16" by simp_all
  moreover have "b div 16 < 16" "c div 64 < 4" "a div 4 < 64" using "4.prems" by (auto simp: less_mult_imp_div_less)
  ultimately show ?case using 4 by simp linarith
qed (auto simp: less_mult_imp_div_less)

lemma b64_bytes_digits: "list_all (\<lambda>b. b < 256) bs \<Longrightarrow> b64_bytes (b64_digits bs) = Some bs"
proof (induction bs rule: b64_digits.induct)
  case (3 a b)
  have "b div 16 < 16" using "3.prems" by (simp add: less_mult_imp_div_less)
  then show ?case by (simp add: mult.commute)
next
  case (4 a b c rest)
  have "b div 16 < 16" "c div 64 < 4" using "4.prems" by (simp_all add: less_mult_imp_div_less)
  then show ?case using 4 by (simp add: mult.commute)
qed (auto simp: mult.commute)

lemma those_vals: "list_all (\<lambda>d. d < 64) ds \<Longrightarrow> those (map b64url_val (map b64url_char ds)) = Some ds"
  by (induction ds) (simp_all add: b64url_val_char)

lemma raw_url_decode_encode: "raw_url_decode (raw_url_encode bs) = Some bs"
proof -
  have b: "list_all (\<lambda>b. b < 256) (map unat bs)" using byte_lt by (simp add: list_all_iff)
  note d = b64_digits_bound [OF b]
  have "filter (\<lambda>c. c \<noteq> CHR 0x0A \<and> c \<noteq> CHR 0x0D) (map b64url_char (b64_digits (map unat bs))) =
      map b64url_char (b64_digits (map unat bs))"
    using d b64url_char_no_break by (auto simp: filter_id_conv list_all_iff)
  moreover have "map of_nat (map unat bs) = bs" by (simp add: o_def)
  ultimately show ?thesis unfolding raw_url_decode_def raw_url_encode_def
    using those_vals [OF d] b64_bytes_digits [OF b] by (simp del: map_map)
qed

lemma b64_digits_length: "length (b64_digits bs) = (length bs * 4 + 2) div 3"
  by (induction bs rule: b64_digits.induct) auto

lemma raw_url_encode_length: "length (raw_url_encode bs) = (length bs * 4 + 2) div 3"
  by (simp add: raw_url_encode_def b64_digits_length)

lemma go_hex_decode_encode: "go_hex_decode (hex_encode bs) = Some bs"
proof -
  have "ascii_lower c = c" if "c \<in> set (hex_encode bs)" for c
  proof -
    have "is_lower_hex (of_char c)" using that hex_encode_lower [of bs] by (auto simp: list_all_iff as_bytes_def)
    then show ?thesis by (auto simp: is_lower_hex_def ascii_lower_def word_le_nat_alt)
  qed
  then have "to_ascii_lowercase (hex_encode bs) = hex_encode bs" by (simp add: to_ascii_lowercase_def map_idI)
  then show ?thesis by (simp add: go_hex_decode_def decode_hex_encode)
qed

end
