(* ===== verification/Worker_Enrollment.thy ===== *)
theory Worker_Enrollment
  imports Control_Enrollment Worker_Messages "HOL-Library.Countable"
begin

text \<open>
  How a worker gets its secret: the handshake with the control plane (\<open>edge-worker/src/bootstrap.rs\<close>), the
  choice at start-up (\<open>resolve_jwt_secret\<close> of \<open>edge-worker/src/main.rs\<close>) and the loop that renews it
  (\<open>edge-worker/src/jwt_refresh.rs\<close>); and what the two sides of the handshake achieve together.

  \<open>send\<close> delivers a request to the control plane, whose state it threads; \<open>None\<close> is a transport error.
\<close>

section \<open>The handshake\<close>

record bootstrap_client =
  bk_bootstrap_secret :: bytes
  bk_worker_id :: string
  bk_region :: string
  bk_tenant_id :: string

record derived_secret =
  ds_kid :: string
  ds_secret :: bytes
  ds_expires_at :: int

record challenge =
  ch_wire :: string
  ch_bytes :: bytes

datatype handshake_error =
  Unreachable nat | Refused nat nat | BadAnswer nat | ChallengeNotBase64 | ChallengeLength nat | PubkeyNotHex
| PubkeyLength nat | SecretNotBase64 | SecretLength nat | KidPrefix string

definition phase1_payload :: "string \<Rightarrow> string \<Rightarrow> string \<Rightarrow> string \<Rightarrow> string \<Rightarrow> string \<Rightarrow> string" where
  "phase1_payload worker_id region tenant_id timestamp nonce public_key_hex =
     worker_id @ '':'' @ region @ '':'' @ tenant_id @ '':'' @ timestamp @ '':'' @ nonce @ '':'' @ public_key_hex"

fun as_i64 :: "json \<Rightarrow> int option" where
  "as_i64 (JNum i) = (if - (2 ^ 63) \<le> i \<and> i < 2 ^ 63 then Some i else None)"
| "as_i64 _ = None"

definition b64_decode :: "enroll_kit \<Rightarrow> string \<Rightarrow> bytes option" where
  "b64_decode kit s = (case ek_b64_std kit s of Some b \<Rightarrow> Some b | None \<Rightarrow> ek_b64_url kit s)"

definition phase1_request :: "enroll_kit \<Rightarrow> nat \<Rightarrow> string \<Rightarrow> bootstrap_client \<Rightarrow> string \<Rightarrow> json" where
  "phase1_request kit now nonce bk public_key_hex =
     (let timestamp = ek_time_print kit now;
          payload = phase1_payload (bk_worker_id bk) (bk_region bk) (bk_tenant_id bk) timestamp nonce public_key_hex;
          signature = ek_hex_enc kit (ek_hmac kit (bk_bootstrap_secret bk) (as_bytes payload))
      in JObj [(''worker_id'', JStr (bk_worker_id bk)), (''region'', JStr (bk_region bk)), (''tenant_id'', JStr (bk_tenant_id bk)),
               (''timestamp'', JStr timestamp), (''nonce'', JStr nonce), (''signature'', JStr signature),
               (''public_key'', JStr public_key_hex)])"

definition phase1_answer :: "enroll_kit \<Rightarrow> http_answer option \<Rightarrow> handshake_error + string \<times> challenge" where
  "phase1_answer kit answer =
     (case answer of
        None \<Rightarrow> Inl (Unreachable 1)
      | Some (status, body) \<Rightarrow>
          if \<not> (200 \<le> status \<and> status < 300) then Inl (Refused 1 status)
          else (case (required as_str ''token'' body, required as_str ''enrollment_challenge'' body,
                      required as_i64 ''challenge_expires_at'' body) of
                  (Some token, Some wire, Some _) \<Rightarrow>
                    (case b64_decode kit wire of
                       None \<Rightarrow> Inl ChallengeNotBase64
                     | Some decoded \<Rightarrow>
                         if length decoded \<noteq> 32 then Inl (ChallengeLength (length decoded))
                         else Inr (token, \<lparr>ch_wire = wire, ch_bytes = decoded\<rparr>))
                | _ \<Rightarrow> Inl (BadAnswer 1)))"

definition phase2_request :: "enroll_kit \<Rightarrow> bootstrap_client \<Rightarrow> worker_identity \<Rightarrow> challenge \<Rightarrow> handshake_error + json" where
  "phase2_request kit bk wid ch =
     (case ek_hex_dec kit (wi_public_key_hex wid) of
        None \<Rightarrow> Inl PubkeyNotHex
      | Some pubkey_raw \<Rightarrow>
          if length pubkey_raw \<noteq> 32 then Inl (PubkeyLength (length pubkey_raw))
          else let bound = ek_sha256 kit (pubkey_raw @ ch_bytes ch); signature = ek_sign kit (wi_seed wid) bound
               in Inr (JObj [(''worker_id'', JStr (bk_worker_id bk)), (''public_key'', JStr (wi_public_key_hex wid)),
                             (''enrollment_challenge'', JStr (ch_wire ch)), (''signature'', JStr (ek_hex_enc kit signature))]))"

definition phase2_answer :: "enroll_kit \<Rightarrow> http_answer option \<Rightarrow> handshake_error + derived_secret" where
  "phase2_answer kit answer =
     (case answer of
        None \<Rightarrow> Inl (Unreachable 2)
      | Some (status, body) \<Rightarrow>
          if \<not> (200 \<le> status \<and> status < 300) then Inl (Refused 2 status)
          else (case (required as_str ''kid'' body, required as_str ''secret'' body, required as_i64 ''expires_at'' body) of
                  (Some kid, Some text, Some expires_at) \<Rightarrow>
                    (case b64_decode kit text of
                       None \<Rightarrow> Inl SecretNotBase64
                     | Some secret \<Rightarrow>
                         if length secret \<noteq> 32 then Inl (SecretLength (length secret))
                         else if \<not> starts_with ''wkr_'' kid then Inl (KidPrefix kid)
                         else Inr \<lparr>ds_kid = kid, ds_secret = secret, ds_expires_at = expires_at\<rparr>)
                | _ \<Rightarrow> Inl (BadAnswer 2)))"

definition run_handshake ::
  "enroll_kit \<Rightarrow> nat \<Rightarrow> string \<Rightarrow> (json \<Rightarrow> 'cp \<Rightarrow> http_answer option \<times> 'cp) \<Rightarrow>
   (string \<Rightarrow> json \<Rightarrow> 'cp \<Rightarrow> http_answer option \<times> 'cp) \<Rightarrow> bootstrap_client \<Rightarrow> worker_identity \<Rightarrow> 'cp \<Rightarrow>
   (handshake_error + derived_secret) \<times> 'cp" where
  "run_handshake kit now nonce send1 send2 bk wid cp =
     (case send1 (phase1_request kit now nonce bk (wi_public_key_hex wid)) cp of
        (answer1, cp) \<Rightarrow>
          (case phase1_answer kit answer1 of
             Inl e \<Rightarrow> (Inl e, cp)
           | Inr (bootstrap_jwt, ch) \<Rightarrow>
               (case phase2_request kit bk wid ch of
                  Inl e \<Rightarrow> (Inl e, cp)
                | Inr body \<Rightarrow>
                    (case send2 bootstrap_jwt body cp of (answer2, cp) \<Rightarrow> (phase2_answer kit answer2, cp)))))"

section \<open>The secret at start-up\<close>

record auth_config =
  af_worker_jwt_secret :: string
  af_worker_jwt_kid :: "string option"
  af_worker_reenroll_on_boot :: bool
  af_worker_bootstrap_secret :: string
  af_worker_jwt_issuer :: string
  af_worker_id :: string
  af_region :: string
  af_worker_tenant_id :: string

datatype resolve_error = LoadFailed load_error | HandshakeFailed handshake_error | PersistFailed

definition client_of :: "auth_config \<Rightarrow> bootstrap_client" where
  "client_of cfg =
     \<lparr>bk_bootstrap_secret = as_bytes (af_worker_bootstrap_secret cfg), bk_worker_id = af_worker_id cfg,
      bk_region = af_region cfg, bk_tenant_id = af_worker_tenant_id cfg\<rparr>"

text \<open>\<open>handshake\<close> is the handshake with the control plane.\<close>

definition resolve_jwt_secret ::
  "(bootstrap_client \<Rightarrow> worker_identity \<Rightarrow> 'cp \<Rightarrow> (handshake_error + derived_secret) \<times> 'cp) \<Rightarrow> bool \<Rightarrow> write_fault \<Rightarrow>
   auth_config \<Rightarrow> worker_identity \<Rightarrow> secret_files \<Rightarrow> 'cp \<Rightarrow>
   (resolve_error + bytes \<times> string option) \<times> secret_files \<times> 'cp" where
  "resolve_jwt_secret handshake readable fault cfg wid fs cp =
     (if af_worker_jwt_secret cfg \<noteq> [] then (Inr (as_bytes (af_worker_jwt_secret cfg), None), fs, cp)
      else case (if af_worker_reenroll_on_boot cfg then Inr None else load_persisted_identity readable fs) of
        Inl e \<Rightarrow> (Inl (LoadFailed e), fs, cp)
      | Inr (Some persisted) \<Rightarrow> (Inr (pi_secret persisted, Some (pi_kid persisted)), fs, cp)
      | Inr None \<Rightarrow>
          if af_worker_bootstrap_secret cfg = [] then (Inr ([], None), fs, cp)
          else (case handshake (client_of cfg) wid cp of
                  (Inl e, cp) \<Rightarrow> (Inl (HandshakeFailed e), fs, cp)
                | (Inr derived, cp) \<Rightarrow>
                    (case persist_identity fault
                            \<lparr>pi_kid = ds_kid derived, pi_secret = ds_secret derived, pi_public_key_hex = wi_public_key_hex wid\<rparr> fs of
                       (False, fs) \<Rightarrow> (Inl PersistFailed, fs, cp)
                     | (True, fs) \<Rightarrow> (Inr (ds_secret derived, Some (ds_kid derived)), fs, cp))))"

definition make_signer :: "encoder \<Rightarrow> reading \<Rightarrow> auth_config \<Rightarrow> bytes \<times> string option \<Rightarrow> signer" where
  "make_signer enc rd cfg resolved =
     (case resolved of
        (secret, Some kid) \<Rightarrow>
          install_snapshot enc rd secret (Some kid)
            (signer_empty rd (af_worker_jwt_issuer cfg) (af_worker_id cfg) (af_region cfg) (af_worker_tenant_id cfg))
      | (secret, None) \<Rightarrow>
          signer_new enc rd secret (af_worker_jwt_kid cfg) (af_worker_jwt_issuer cfg) (af_worker_id cfg) (af_region cfg)
            (af_worker_tenant_id cfg))"

section \<open>The renewal loop\<close>

datatype refresh_outcome = Rotated "string option" "bytes option" | Noop | Skipped | RefreshFailed

text \<open>One tick: the new count of failures, the signer, and the pause before the next tick.\<close>

definition refresh_tick ::
  "encoder \<Rightarrow> u64 \<Rightarrow> duration \<Rightarrow> refresh_outcome \<Rightarrow> reading \<Rightarrow> u32 \<times> signer \<Rightarrow> (u32 \<times> signer) \<times> u64 option" where
  "refresh_tick enc rnd refresh_lead outcome rd st =
     (case st of (attempt, sg) \<Rightarrow>
        let snap = sg_state sg;
            deadline = (if refresh_lead \<le> sn_expires_at snap then sn_expires_at snap - refresh_lead else sn_expires_at snap)
        in if rd_now rd < deadline then ((0, sg), None)
           else (case outcome of
                   Rotated kid secret \<Rightarrow>
                     ((0, case secret of Some s \<Rightarrow> install_snapshot enc rd s kid sg | None \<Rightarrow> sg), None)
                 | Noop \<Rightarrow> ((0, sg), None)
                 | Skipped \<Rightarrow> ((attempt, sg), None)
                 | RefreshFailed \<Rightarrow>
                     let attempt = (if attempt = - 1 then attempt else attempt + 1)
                     in ((attempt, sg), Some (compute_backoff_ms rnd attempt 5000 300000))))"

text \<open>\<open>refresh_once_serialized\<close>: the gate is held by another call, or the handshake is run.\<close>

definition refresh_once_serialized :: "bool \<Rightarrow> handshake_error + derived_secret \<Rightarrow> refresh_outcome" where
  "refresh_once_serialized gate_held result =
     (if gate_held then Skipped
      else case result of
        Inl _ \<Rightarrow> RefreshFailed
      | Inr derived \<Rightarrow> Rotated (Some (ds_kid derived)) (Some (ds_secret derived)))"

section \<open>Both sides together\<close>

text \<open>What the libraries promise: \<open>hex\<close> writes lower-case digits and reads them back, the padded alphabet
  of \<open>base64\<close> refuses a text whose length is not a multiple of four and the unpadded one reads what Go
  wrote, lengths of keys, hashes and signatures, a signature verifies, a JWT is parsed and verified with
  what it was made of, and a time is printed to the second and read back.\<close>

definition kit_ok :: "enroll_kit \<Rightarrow> bool" where
  "kit_ok kit \<longleftrightarrow>
     (\<forall>bs. ek_hex_enc kit bs = hex_encode bs) \<and> (\<forall>bs. ek_hex_dec kit (hex_encode bs) = Some bs) \<and>
     (\<forall>s. length s mod 4 \<noteq> 0 \<longrightarrow> ek_b64_std kit s = None) \<and> (\<forall>bs. ek_b64_url kit (raw_url_encode bs) = Some bs) \<and>
     (\<forall>bs. length (ek_sha256 kit bs) = 32) \<and> (\<forall>k m. length (ek_hmac kit k m) = 32) \<and> (\<forall>seed. length (ek_public kit seed) = 32) \<and>
     (\<forall>seed m. length (ek_sign kit seed m) = 64) \<and>
     (\<forall>seed m. ek_verify kit (ek_public kit seed) m (ek_sign kit seed m)) \<and>
     (\<forall>ikm salt info. length (ek_hkdf kit ikm salt info) = 32) \<and>
     (\<forall>kid c key. ek_parse kit (ek_encode kit kid c key) = Some (kid, c)) \<and>
     (\<forall>kid c key. ek_hs256_ok kit (ek_encode kit kid c key) key) \<and>
     (\<forall>c key. ek_boot_parse kit (ek_boot_encode kit c key) = Some c) \<and>
     (\<forall>c key. ek_hs256_ok kit (ek_boot_encode kit c key) key) \<and>
     (\<forall>t. ek_time_print kit t \<noteq> [] \<and> ek_time_parse kit (ek_time_print kit t) = Some (t div 10 ^ 9 * 10 ^ 9))"

lemma kit_facts:
  assumes "kit_ok kit"
  shows kit_hex: "ek_hex_enc kit bs = hex_encode bs" "ek_hex_dec kit (hex_encode bs) = Some bs"
    and kit_b64: "length s mod 4 \<noteq> 0 \<Longrightarrow> ek_b64_std kit s = None" "ek_b64_url kit (raw_url_encode bs) = Some bs"
    and kit_lengths: "length (ek_sha256 kit bs) = 32" "length (ek_hmac kit k m) = 32" "length (ek_public kit seed) = 32"
      "length (ek_sign kit seed m) = 64" "length (ek_hkdf kit ikm salt info) = 32"
    and kit_sign: "ek_verify kit (ek_public kit seed) m (ek_sign kit seed m)"
    and kit_jwt: "ek_parse kit (ek_encode kit kid c key) = Some (kid, c)" "ek_hs256_ok kit (ek_encode kit kid c key) key"
    and kit_boot: "ek_boot_parse kit (ek_boot_encode kit bc key) = Some bc" "ek_hs256_ok kit (ek_boot_encode kit bc key) key"
    and kit_time: "ek_time_print kit t \<noteq> []" "ek_time_parse kit (ek_time_print kit t) = Some (t div 10 ^ 9 * 10 ^ 9)"
  using assms unfolding kit_ok_def by simp_all

lemma hex_encode_nonempty: "bs \<noteq> [] \<Longrightarrow> hex_encode bs \<noteq> []"
  using hex_encode_length [of bs] by (metis length_0_conv mult_eq_0_iff zero_neq_numeral)

definition ask_bootstrap ::
  "enroll_kit \<Rightarrow> nat \<Rightarrow> bytes \<Rightarrow> json \<Rightarrow> control_plane \<Rightarrow> http_answer option \<times> control_plane" where
  "ask_bootstrap kit now cb body cp = (case Bootstrap kit now (Some cb) body cp of (answer, cp) \<Rightarrow> (Some answer, cp))"

definition ask_enroll ::
  "enroll_kit \<Rightarrow> nat \<Rightarrow> string \<Rightarrow> json \<Rightarrow> control_plane \<Rightarrow> http_answer option \<times> control_plane" where
  "ask_enroll kit now token body cp = (case EnrollWorker kit now True token body cp of (answer, cp) \<Rightarrow> (Some answer, cp))"

text \<open>Worker and control plane share the bootstrap secret and have names for the worker, its region and
  its tenant; the worker's clock at the first request is at most five minutes behind and one minute
  ahead, and the second request arrives before the first phase expires.\<close>

definition may_enroll :: "bootstrap_client \<Rightarrow> control_plane \<Rightarrow> nat \<Rightarrow> nat \<Rightarrow> nat \<Rightarrow> bool" where
  "may_enroll bk cp tw t1 t2 \<longleftrightarrow>
     cp_bootstrap_secret cp \<noteq> [] \<and> bk_bootstrap_secret bk = as_bytes (cp_bootstrap_secret cp) \<and> cp_jwt_secret cp \<noteq> [] \<and>
     bk_worker_id bk \<noteq> [] \<and> bk_region bk \<noteq> [] \<and> bk_tenant_id bk \<noteq> [] \<and>
     t1 \<le> tw div 10 ^ 9 * 10 ^ 9 + 5 * minute \<and> tw \<le> t1 + minute \<and>
     t1 \<le> t2 \<and> t2 < (t1 + 5 * minute) div 10 ^ 9 * 10 ^ 9"

lemma bootstrap_accepts:
  assumes kit: "kit_ok kit" and may: "may_enroll bk cp tw t1 t2" and nonce: "nonce \<noteq> []" and pub: "length pub = 32"
    and pk: "pk = hex_encode pub"
  shows "Bootstrap kit t1 (Some cb) (phase1_request kit tw nonce bk pk) cp =
    ((200, JObj [(''token'', JStr (IssueBootstrapJWT kit t1 (cp_bootstrap_secret cp) (bk_worker_id bk) (bk_tenant_id bk) (bk_region bk))),
       (''enrollment_challenge'', JStr (raw_url_encode cb)), (''challenge_expires_at'', JNum (int ((t1 + 5 * minute) div 10 ^ 9)))]),
     put_challenge (bk_worker_id bk) \<lparr>ec_challenge = raw_url_encode cb, ec_public_key = pk, ec_expires_at = t1 + 5 * minute\<rparr> cp)"
proof -
  let ?ts = "ek_time_print kit tw"
  let ?sig = "ek_hex_enc kit (ek_hmac kit (bk_bootstrap_secret bk)
    (as_bytes (phase1_payload (bk_worker_id bk) (bk_region bk) (bk_tenant_id bk) ?ts nonce pk)))"
  have fields: "go_strs [''worker_id'', ''region'', ''tenant_id'', ''timestamp'', ''nonce'', ''signature'', ''public_key'']
      (phase1_request kit tw nonce bk pk) =
      Some [bk_worker_id bk, bk_region bk, bk_tenant_id bk, ?ts, nonce, ?sig, pk]"
    by (simp add: phase1_request_def go_str_def Let_def)
  have sig: "?sig = hex_encode (ek_hmac kit (as_bytes (cp_bootstrap_secret cp)) (as_bytes
      (bk_worker_id bk @ '':'' @ bk_region bk @ '':'' @ bk_tenant_id bk @ '':'' @ ?ts @ '':'' @ nonce @ '':'' @ pk)))"
    using may by (simp add: kit_hex [OF kit] may_enroll_def phase1_payload_def)
  have "pub \<noteq> []" using pub by auto
  then have shape: "length pk = 64" "pk \<noteq> []" "go_hex_decode pk = Some pub"
    using pub by (simp_all add: pk go_hex_decode_encode hex_encode_nonempty)
  have "ek_hmac kit k m \<noteq> []" for k m using kit_lengths(2) [OF kit, of k m] by auto
  then have sig_ne: "?sig \<noteq> []" unfolding sig by (rule hex_encode_nonempty)
  have in_time: "\<not> (t1 > tw div 10 ^ 9 * 10 ^ 9 + 5 * minute \<or> t1 + minute < tw div 10 ^ 9 * 10 ^ 9)"
    using may div_times_less_eq_dividend [of tw "10 ^ 9"] unfolding may_enroll_def by linarith
  have given: "cp_bootstrap_secret cp \<noteq> []" "\<not> (bk_worker_id bk = [] \<or> bk_region bk = [] \<or> bk_tenant_id bk = [])"
    "\<not> (?ts = [] \<or> nonce = [] \<or> ?sig = [])"
    using may nonce kit_time(1) [OF kit] sig_ne by (simp_all add: may_enroll_def)
  have pk_ok: "\<not> (pk = [] \<or> length pk \<noteq> 64 \<or> go_hex_decode pk = None)" using shape by simp
  show ?thesis
    unfolding Bootstrap_def fields option.case list.case if_not_P [OF given(1)] if_not_P [OF given(2)] if_not_P [OF given(3)]
      if_not_P [OF pk_ok] kit_time(2) [OF kit] if_not_P [OF in_time] Let_def
    using sig by simp
qed

lemma b64_decode_go:
  assumes "kit_ok kit" and "length bs = 32"
  shows "b64_decode kit (raw_url_encode bs) = Some bs"
  using kit_b64(1) [OF assms(1), of "raw_url_encode bs"] kit_b64(2) [OF assms(1), of bs]
  by (simp add: b64_decode_def raw_url_encode_length assms(2))

lemma boot_token_ok:
  assumes "kit_ok kit" and "may_enroll bk cp tw t1 t2"
  shows "\<exists>c. VerifyBootstrapJWT kit t2 (cp_bootstrap_secret cp)
      (IssueBootstrapJWT kit t1 (cp_bootstrap_secret cp) worker_id tenant_id region) = Some c \<and>
    bc_worker_id c = worker_id \<and> bc_tenant_id c = tenant_id \<and> bc_region c = region"
proof -
  have "(t1 - 30 * 10 ^ 9) div 10 ^ 9 * 10 ^ 9 \<le> t2"
    using assms(2) div_times_less_eq_dividend [of "t1 - 30 * 10 ^ 9" "10 ^ 9"] unfolding may_enroll_def by linarith
  then show ?thesis using assms(2)
    by (simp add: VerifyBootstrapJWT_def IssueBootstrapJWT_def kit_boot [OF assms(1)] may_enroll_def)
qed

lemma phase1_succeeds:
  assumes "kit_ok kit" and "length cb = 32" and "t1 < 2 ^ 63"
  shows "phase1_answer kit (Some (200, JObj [(''token'', JStr token), (''enrollment_challenge'', JStr (raw_url_encode cb)),
      (''challenge_expires_at'', JNum (int ((t1 + 5 * minute) div 10 ^ 9)))])) =
    Inr (token, \<lparr>ch_wire = raw_url_encode cb, ch_bytes = cb\<rparr>)"
proof -
  have "(t1 + 5 * minute) div 10 ^ 9 < 2 ^ 63"
    using assms(3) by (intro le_less_trans [OF div_le_mono less_mult_imp_div_less]) (auto simp: minute_def)
  then have "as_i64 (JNum (int ((t1 + 5 * minute) div 10 ^ 9))) \<noteq> None" by (simp add: minute_def)
  then show ?thesis using assms(2)
    by (auto simp: phase1_answer_def required_def b64_decode_go [OF assms(1,2)] simp del: as_i64.simps split: option.split)
qed

text \<open>The identity of a worker: a seed with the public key that belongs to it.\<close>

definition own_identity :: "enroll_kit \<Rightarrow> worker_identity \<Rightarrow> bool" where
  "own_identity kit wid \<longleftrightarrow> wi_public_key_hex wid = hex_encode (ek_public kit (wi_seed wid))"

lemma from_seed_own: "kit_ok kit \<Longrightarrow> own_identity kit (from_seed (ek_public kit) (ek_hex_enc kit) seed)"
  by (simp add: own_identity_def from_seed_def kit_hex)

lemma phase2_request_ok:
  assumes "kit_ok kit" and "own_identity kit wid"
  shows "phase2_request kit bk wid ch =
    Inr (JObj [(''worker_id'', JStr (bk_worker_id bk)), (''public_key'', JStr (wi_public_key_hex wid)),
      (''enrollment_challenge'', JStr (ch_wire ch)),
      (''signature'', JStr (hex_encode (ek_sign kit (wi_seed wid) (ek_sha256 kit (ek_public kit (wi_seed wid) @ ch_bytes ch)))))])"
  using assms(2) by (simp add: phase2_request_def own_identity_def kit_hex [OF assms(1)] kit_lengths [OF assms(1)] Let_def)

lemma pop_put_challenge:
  assumes "now < ec_expires_at ch" and "ec_public_key ch = pk"
  shows "pop_challenge w pk now (put_challenge w ch cp) =
    (Some ch, cp\<lparr>cp_challenges := hm_remove w (hm_insert w ch (cp_challenges cp))\<rparr>)"
  using assms by (simp add: pop_challenge_def put_challenge_def hm_simps)

lemma enroll_accepts:
  assumes kit: "kit_ok kit" and may: "may_enroll bk cp tw t1 t2" and own: "own_identity kit wid" and cb: "length cb = 32"
    and ch: "ch = \<lparr>ec_challenge = raw_url_encode cb, ec_public_key = wi_public_key_hex wid, ec_expires_at = t1 + 5 * minute\<rparr>"
    and boot: "VerifyBootstrapJWT kit t2 (cp_bootstrap_secret cp) token = Some c" "bc_worker_id c = bk_worker_id bk"
    and body: "phase2_request kit bk wid \<lparr>ch_wire = raw_url_encode cb, ch_bytes = cb\<rparr> = Inr body"
  shows "EnrollWorker kit t2 db_ok token body (put_challenge (bk_worker_id bk) ch cp) =
    enroll_verified kit t2 db_ok c (wi_public_key_hex wid)
      (cp\<lparr>cp_challenges := hm_remove (bk_worker_id bk) (hm_insert (bk_worker_id bk) ch (cp_challenges cp))\<rparr>)"
proof -
  let ?pub = "ek_public kit (wi_seed wid)" and ?pk = "wi_public_key_hex wid" and ?w = "bk_worker_id bk"
  let ?sig = "ek_sign kit (wi_seed wid) (ek_sha256 kit (?pub @ cb))"
  have b: "body = JObj [(''worker_id'', JStr ?w), (''public_key'', JStr ?pk), (''enrollment_challenge'', JStr (raw_url_encode cb)),
      (''signature'', JStr (hex_encode ?sig))]"
    using body unfolding phase2_request_ok [OF kit own] by simp
  have fields: "go_strs [''worker_id'', ''public_key'', ''enrollment_challenge'', ''signature''] body =
      Some [?w, ?pk, raw_url_encode cb, hex_encode ?sig]" by (simp add: b go_str_def)
  have pk: "?pk = hex_encode ?pub" using own by (simp add: own_identity_def)
  have len: "length ?pub = 32" "length ?sig = 64" by (simp_all add: kit_lengths [OF kit])
  have "raw_url_encode cb \<noteq> []" using raw_url_encode_length [of cb] cb by auto
  moreover have "?pk \<noteq> []" "hex_encode ?sig \<noteq> []" unfolding pk using len by (auto intro!: hex_encode_nonempty)
  ultimately have given: "\<not> (?w = [] \<or> ?pk = [] \<or> raw_url_encode cb = [] \<or> hex_encode ?sig = [])"
    using may by (simp add: may_enroll_def)
  have dec: "go_hex_decode ?pk = Some ?pub" "go_hex_decode (hex_encode ?sig) = Some ?sig" "raw_url_decode (raw_url_encode cb) = Some cb"
    by (simp_all add: pk go_hex_decode_encode raw_url_decode_encode)
  have "t2 < t1 + 5 * minute"
    using may div_times_less_eq_dividend [of "t1 + 5 * minute" "10 ^ 9"] unfolding may_enroll_def by linarith
  then have pop: "pop_challenge ?w ?pk t2 (put_challenge ?w ch cp) =
      (Some ch, cp\<lparr>cp_challenges := hm_remove ?w (hm_insert ?w ch (cp_challenges cp))\<rparr>)"
    by (intro pop_put_challenge) (simp_all add: ch)
  have secret: "cp_bootstrap_secret (put_challenge ?w ch cp) = cp_bootstrap_secret cp" by (simp add: put_challenge_def)
  show ?thesis
    unfolding EnrollWorker_def secret boot(1) option.case fields list.case if_not_P [OF given] boot(2) dec prod.case pop
    by (simp add: len ch dec kit_sign [OF kit])
qed

lemma phase2_succeeds:
  assumes "kit_ok kit" and "length secret = 32" and "t2 < 2 ^ 63"
  shows "\<exists>d. phase2_answer kit (Some (200, JObj [(''kid'', JStr (WorkerKID kit pk)), (''secret'', JStr (raw_url_encode secret)),
      (''expires_at'', JNum (int ((t2 + 24 * 60 * minute) div 10 ^ 9)))])) = Inr d \<and> ds_kid d = WorkerKID kit pk \<and> ds_secret d = secret"
proof -
  have "(t2 + 24 * 60 * minute) div 10 ^ 9 < 2 ^ 63"
    using assms(3) by (intro le_less_trans [OF div_le_mono less_mult_imp_div_less]) (auto simp: minute_def)
  then have "as_i64 (JNum (int ((t2 + 24 * 60 * minute) div 10 ^ 9))) \<noteq> None" by (simp add: minute_def)
  then show ?thesis using assms(2)
    by (auto simp: phase2_answer_def required_def b64_decode_go [OF assms(1,2)] WorkerKID_def starts_with_def
        simp del: as_i64.simps split: option.split)
qed

definition handshake ::
  "enroll_kit \<Rightarrow> nat \<Rightarrow> nat \<Rightarrow> nat \<Rightarrow> string \<Rightarrow> bytes \<Rightarrow> bootstrap_client \<Rightarrow> worker_identity \<Rightarrow> control_plane \<Rightarrow>
   (handshake_error + derived_secret) \<times> control_plane" where
  "handshake kit tw t1 t2 nonce cb = run_handshake kit tw nonce (ask_bootstrap kit t1 cb) (ask_enroll kit t2)"

lemma handshake_verified:
  assumes kit: "kit_ok kit" and may: "may_enroll bk cp tw t1 t2" and own: "own_identity kit wid" and nonce: "nonce \<noteq> []"
    and cb: "length cb = 32" and t: "t1 < 2 ^ 63"
  obtains c cp' where "bc_worker_id c = bk_worker_id bk" "bc_tenant_id c = bk_tenant_id bk" "bc_region c = bk_region bk"
    "cp' = cp\<lparr>cp_challenges := cp_challenges cp'\<rparr>"
    "handshake kit tw t1 t2 nonce cb bk wid cp =
      (case enroll_verified kit t2 True c (wi_public_key_hex wid) cp' of (answer, cp'') \<Rightarrow> (phase2_answer kit (Some answer), cp''))"
proof -
  let ?w = "bk_worker_id bk"
  let ?token = "IssueBootstrapJWT kit t1 (cp_bootstrap_secret cp) ?w (bk_tenant_id bk) (bk_region bk)"
  let ?ec = "\<lparr>ec_challenge = raw_url_encode cb, ec_public_key = wi_public_key_hex wid, ec_expires_at = t1 + 5 * minute\<rparr>"
  let ?ch = "\<lparr>ch_wire = raw_url_encode cb, ch_bytes = cb\<rparr>"
  let ?cp = "cp\<lparr>cp_challenges := hm_remove ?w (hm_insert ?w ?ec (cp_challenges cp))\<rparr>"
  obtain c where c: "VerifyBootstrapJWT kit t2 (cp_bootstrap_secret cp) ?token = Some c"
    "bc_worker_id c = ?w" "bc_tenant_id c = bk_tenant_id bk" "bc_region c = bk_region bk"
    using boot_token_ok [OF kit may] by blast
  obtain body where body: "phase2_request kit bk wid ?ch = Inr body" using phase2_request_ok [OF kit own] by blast
  have pk: "wi_public_key_hex wid = hex_encode (ek_public kit (wi_seed wid))" using own by (simp add: own_identity_def)
  note one = bootstrap_accepts [OF kit may nonce kit_lengths(3) [OF kit] pk, of cb]
  note two = enroll_accepts [OF kit may own cb refl c(1,2) body, of True]
  have "handshake kit tw t1 t2 nonce cb bk wid cp =
      (case enroll_verified kit t2 True c (wi_public_key_hex wid) ?cp of (answer, cp'') \<Rightarrow> (phase2_answer kit (Some answer), cp''))"
    unfolding handshake_def run_handshake_def ask_bootstrap_def one prod.case phase1_succeeds [OF kit cb t] sum.case body
      ask_enroll_def two
    by (simp split: prod.split)
  then show thesis using c by (intro that [of c ?cp]) simp_all
qed

text \<open>Claim C9 (enrolment). A registered worker that shares the bootstrap secret and whose clock is close
  enough completes the handshake, whatever its key pair: it gets the secret derived for its id, tenant,
  region and public key with the matching key id, the control plane stores the public key and forgets a
  cached one. Every token it then signs with that secret and key id for itself is accepted until it
  expires, and accepted with exactly its claims.\<close>

theorem enrolled_worker_accepted:
  assumes "kit_ok kit" and "may_enroll bk cp tw t1 t2" and "own_identity kit wid" and "nonce \<noteq> []"
    and "length cb = 32" and "t2 < 2 ^ 63" and "hm_contains (cp_workers cp) (bk_worker_id bk)"
  shows "\<exists>d cp'. handshake kit tw t1 t2 nonce cb bk wid cp = (Inr d, cp') \<and>
    hm_get (cp_workers cp') (bk_worker_id bk) = Some (wi_public_key_hex wid) \<and>
    (\<forall>c now. cl_worker_id c = bk_worker_id bk \<and> cl_tenant_id c = bk_tenant_id bk \<and> cl_region c = bk_region bk \<and>
       cl_iss c = cp_issuer cp \<and> now < cl_exp c * 10 ^ 9 \<longrightarrow>
       fst (VerifyWorkerJWT kit now True (ek_encode kit (Some (ds_kid d)) c (ds_secret d)) cp') = Some c)"
proof -
  let ?w = "bk_worker_id bk" and ?pk = "wi_public_key_hex wid"
  have "t1 < 2 ^ 63" using assms(2,6) by (simp add: may_enroll_def)
  from handshake_verified [OF assms(1-5) this] obtain c cp1 where c: "bc_worker_id c = ?w" "bc_tenant_id c = bk_tenant_id bk"
    "bc_region c = bk_region bk" "cp1 = cp\<lparr>cp_challenges := cp_challenges cp1\<rparr>"
    and run: "handshake kit tw t1 t2 nonce cb bk wid cp =
      (case enroll_verified kit t2 True c ?pk cp1 of (answer, cp'') \<Rightarrow> (phase2_answer kit (Some answer), cp''))" by blast
  have cp1: "cp_workers cp1 = cp_workers cp" "cp_jwt_secret cp1 = cp_jwt_secret cp" "cp_issuer cp1 = cp_issuer cp"
    by (subst c(4), simp)+
  let ?cp2 = "cp1\<lparr>cp_workers := hm_insert ?w ?pk (cp_workers cp), cp_key_cache := hm_remove ?w (cp_key_cache cp1)\<rparr>"
  let ?info = "as_bytes (''worker-v1|'' @ ?w @ ''|'' @ bk_tenant_id bk @ ''|'' @ bk_region bk)"
  let ?secret = "ek_hkdf kit (as_bytes (cp_jwt_secret cp)) (as_bytes ?pk) ?info"
  have "enroll_verified kit t2 True c ?pk cp1 =
      ((200, JObj [(''kid'', JStr (WorkerKID kit ?pk)), (''secret'', JStr (raw_url_encode ?secret)),
         (''expires_at'', JNum (int ((t2 + 24 * 60 * minute) div 10 ^ 9)))]), ?cp2)"
    using assms(2,7) by (simp add: enroll_verified_def set_public_key_def invalidate_def DeriveWorkerSecret_def c(1-3) cp1 may_enroll_def)
  moreover obtain d where d: "phase2_answer kit (Some (200, JObj [(''kid'', JStr (WorkerKID kit ?pk)), (''secret'', JStr (raw_url_encode ?secret)),
      (''expires_at'', JNum (int ((t2 + 24 * 60 * minute) div 10 ^ 9)))])) = Inr d" "ds_kid d = WorkerKID kit ?pk" "ds_secret d = ?secret"
    using phase2_succeeds [OF assms(1) kit_lengths(5) [OF assms(1)] assms(6)] by blast
  ultimately have ran: "handshake kit tw t1 t2 nonce cb bk wid cp = (Inr d, ?cp2)" unfolding run by simp
  have "length ?pk = 64" using assms(3) kit_lengths(3) [OF assms(1), of "wi_seed wid"] by (simp add: own_identity_def)
  then have "?pk \<noteq> []" by auto
  moreover have "IsWorkerKID (WorkerKID kit ?pk)"
    using kit_lengths(1) [OF assms(1), of "as_bytes ?pk"] by (simp add: IsWorkerKID_def WorkerKID_def)
  ultimately have "fst (VerifyWorkerJWT kit now True (ek_encode kit (Some (ds_kid d)) cl (ds_secret d)) ?cp2) = Some cl"
    if "cl_worker_id cl = ?w" "cl_tenant_id cl = bk_tenant_id bk" "cl_region cl = bk_region bk" "cl_iss cl = cp_issuer cp"
      "now < cl_exp cl * 10 ^ 9" for cl now
    using that assms(2) by (simp add: VerifyWorkerJWT_def kit_jwt [OF assms(1)] resolveKey_def GetOrLoad_def d(2,3)
        DeriveWorkerSecret_def cp1 may_enroll_def hm_simps Let_def)
  with ran show ?thesis by (intro exI [of _ d] exI [of _ ?cp2]) (simp add: hm_simps)
qed

text \<open>The first enrolment fails. A worker that has no row yet completes the first phase, but the
  second refuses it and stores nothing. A row is made only by a registration, for which the worker needs
  a token, and by its heartbeats, which it sends only after it has got a secret.\<close>

theorem first_enrolment_refused:
  assumes "kit_ok kit" and "may_enroll bk cp tw t1 t2" and "own_identity kit wid" and "nonce \<noteq> []"
    and "length cb = 32" and "t1 < 2 ^ 63" and "\<not> hm_contains (cp_workers cp) (bk_worker_id bk)"
  shows "\<exists>cp'. handshake kit tw t1 t2 nonce cb bk wid cp = (Inl (Refused 2 400), cp') \<and> cp_workers cp' = cp_workers cp"
proof -
  from handshake_verified [OF assms(1-6)] obtain c cp1 where c: "bc_worker_id c = bk_worker_id bk" "cp1 = cp\<lparr>cp_challenges := cp_challenges cp1\<rparr>"
    and run: "handshake kit tw t1 t2 nonce cb bk wid cp =
      (case enroll_verified kit t2 True c (wi_public_key_hex wid) cp1 of (answer, cp'') \<Rightarrow> (phase2_answer kit (Some answer), cp''))" by blast
  have "cp_workers cp1 = cp_workers cp" by (subst c(2), simp)
  then show ?thesis unfolding run using assms(7)
    by (simp add: enroll_verified_def set_public_key_def invalidate_def phase2_answer_def c(1))
qed

section \<open>A challenge serves once\<close>

lemma enroll_verified_challenges: "cp_challenges (snd (enroll_verified kit now db_ok c pk cp)) = cp_challenges cp"
  by (auto simp: enroll_verified_def set_public_key_def invalidate_def Let_def split: option.split)

definition proves_key :: "enroll_kit \<Rightarrow> nat \<Rightarrow> string \<Rightarrow> json \<Rightarrow> control_plane \<Rightarrow> bool" where
  "proves_key kit now worker_id body cp \<longleftrightarrow>
     (\<exists>ch pub cb sig. hm_get (cp_challenges cp) worker_id = Some ch \<and> now < ec_expires_at ch \<and>
        go_str ''public_key'' body = Some (ec_public_key ch) \<and> go_hex_decode (ec_public_key ch) = Some pub \<and>
        raw_url_decode (ec_challenge ch) = Some cb \<and>
        Option.bind (go_str ''signature'' body) go_hex_decode = Some sig \<and>
        ek_verify kit pub (ek_sha256 kit (pub @ cb)) sig)"

lemma go_strs_enroll:
  "go_strs [''worker_id'', ''public_key'', ''enrollment_challenge'', ''signature''] body = Some [w, pk, ch, sig] \<Longrightarrow>
   go_str ''worker_id'' body = Some w \<and> go_str ''public_key'' body = Some pk \<and> go_str ''signature'' body = Some sig"
  by (auto simp: bind_eq_Some_conv)

lemma enroll_fields:
  assumes "EnrollWorker kit now db_ok bearer body cp = ((st, answer), cp')" and "st \<noteq> 400"
    and "VerifyBootstrapJWT kit now (cp_bootstrap_secret cp) bearer = Some c"
  obtains pk ch sig pub sb cb where
    "go_strs [''worker_id'', ''public_key'', ''enrollment_challenge'', ''signature''] body = Some [bc_worker_id c, pk, ch, sig]"
    "go_hex_decode pk = Some pub" "go_hex_decode sig = Some sb" "raw_url_decode ch = Some cb"
    "(case pop_challenge (bc_worker_id c) pk now cp of
        (None, cp) \<Rightarrow> ((401, JNull), cp)
      | (Some stored, cp) \<Rightarrow>
          if raw_url_decode (ec_challenge stored) \<noteq> Some cb then ((401, JNull), cp)
          else if \<not> ek_verify kit pub (ek_sha256 kit (pub @ cb)) sb then ((401, JNull), cp)
          else enroll_verified kit now db_ok c pk cp) = ((st, answer), cp')"
proof -
  obtain w pk ch sig where f: "go_strs [''worker_id'', ''public_key'', ''enrollment_challenge'', ''signature''] body = Some [w, pk, ch, sig]"
    using assms by (auto simp: EnrollWorker_def simp del: go_strs.simps split: option.splits list.splits)
  have w: "w = bc_worker_id c" using assms unfolding EnrollWorker_def f by (auto split: if_splits)
  obtain pub sb cb where d: "go_hex_decode pk = Some pub" "go_hex_decode sig = Some sb" "raw_url_decode ch = Some cb"
    using assms unfolding EnrollWorker_def f by (auto split: if_splits option.splits)
  show thesis using assms unfolding EnrollWorker_def f d w
    by (intro that [OF f [unfolded w] d]) (auto simp: d simp del: go_strs.simps split: if_splits)
qed

lemma enroll_200:
  assumes "EnrollWorker kit now db_ok bearer body cp = ((200, answer), cp')"
  shows "\<exists>w. go_str ''worker_id'' body = Some w \<and> proves_key kit now w body cp \<and>
    cp_challenges cp' = hm_remove w (cp_challenges cp)"
proof -
  obtain c where c: "VerifyBootstrapJWT kit now (cp_bootstrap_secret cp) bearer = Some c"
    using assms by (auto simp: EnrollWorker_def split: option.splits)
  have "(200::nat) \<noteq> 400" by simp
  from enroll_fields [OF assms this c] obtain pk ch sig pub sb cb where
    f: "go_strs [''worker_id'', ''public_key'', ''enrollment_challenge'', ''signature''] body = Some [bc_worker_id c, pk, ch, sig]"
    and d: "go_hex_decode pk = Some pub" "go_hex_decode sig = Some sb" "raw_url_decode ch = Some cb"
    and run: "(case pop_challenge (bc_worker_id c) pk now cp of
        (None, cp) \<Rightarrow> ((401, JNull), cp)
      | (Some stored, cp) \<Rightarrow>
          if raw_url_decode (ec_challenge stored) \<noteq> Some cb then ((401, JNull), cp)
          else if \<not> ek_verify kit pub (ek_sha256 kit (pub @ cb)) sb then ((401, JNull), cp)
          else enroll_verified kit now db_ok c pk cp) = ((200, answer), cp')" by blast
  obtain stored cp1 where p: "pop_challenge (bc_worker_id c) pk now cp = (Some stored, cp1)"
    using run by (auto split: prod.splits option.splits)
  then have s: "hm_get (cp_challenges cp) (bc_worker_id c) = Some stored" "now < ec_expires_at stored" "ec_public_key stored = pk"
    "cp_challenges cp1 = hm_remove (bc_worker_id c) (cp_challenges cp)"
    by (auto simp: pop_challenge_def split: option.splits if_splits)
  have r: "raw_url_decode (ec_challenge stored) = Some cb" "ek_verify kit pub (ek_sha256 kit (pub @ cb)) sb"
    "enroll_verified kit now db_ok c pk cp1 = ((200, answer), cp')"
    using run by (auto simp: p split: if_splits)
  have "cp_challenges cp' = cp_challenges cp1" using enroll_verified_challenges [of kit now db_ok c pk cp1] by (simp add: r(3))
  then show ?thesis using go_strs_enroll [OF f] s r(1,2) d by (auto simp: proves_key_def)
qed

text \<open>The requests the control plane gets, in any order and from anyone.\<close>

datatype cp_request = BootReq nat "bytes option" json | EnrollReq nat bool string json | VerifyReq nat bool string

fun cp_serve :: "enroll_kit \<Rightarrow> cp_request \<Rightarrow> control_plane \<Rightarrow> nat \<times> control_plane" where
  "cp_serve kit (BootReq now cb body) cp = (case Bootstrap kit now cb body cp of ((st, _), cp) \<Rightarrow> (st, cp))"
| "cp_serve kit (EnrollReq now db_ok bearer body) cp = (case EnrollWorker kit now db_ok bearer body cp of ((st, _), cp) \<Rightarrow> (st, cp))"
| "cp_serve kit (VerifyReq now db_ok token) cp =
     (case VerifyWorkerJWT kit now db_ok token cp of (c, cp) \<Rightarrow> (if c = None then 401 else 200, cp))"

fun cp_serve_all :: "enroll_kit \<Rightarrow> cp_request list \<Rightarrow> control_plane \<Rightarrow> nat list \<times> control_plane" where
  "cp_serve_all kit [] cp = ([], cp)"
| "cp_serve_all kit (r # rs) cp =
     (case cp_serve kit r cp of (st, cp) \<Rightarrow> (case cp_serve_all kit rs cp of (sts, cp) \<Rightarrow> (st # sts, cp)))"

fun boots :: "string \<Rightarrow> cp_request \<Rightarrow> bool" where
  "boots w (BootReq _ _ body) \<longleftrightarrow> go_str ''worker_id'' body = Some w"
| "boots w _ \<longleftrightarrow> False"

fun enrolls :: "string \<Rightarrow> cp_request \<Rightarrow> bool" where
  "enrolls w (EnrollReq _ _ _ body) \<longleftrightarrow> go_str ''worker_id'' body = Some w"
| "enrolls w _ \<longleftrightarrow> False"

definition granted :: "(cp_request \<Rightarrow> bool) \<Rightarrow> cp_request list \<Rightarrow> nat list \<Rightarrow> nat" where
  "granted P rs sts = length (filter (\<lambda>(r, st). P r \<and> st = 200) (zip rs sts))"

text \<open>No request but a granted first phase adds a challenge.\<close>

definition challenged :: "string \<Rightarrow> control_plane \<Rightarrow> bool" where
  "challenged w cp \<longleftrightarrow> hm_get (cp_challenges cp) w \<noteq> None"

lemma pop_challenge_only: "pop_challenge w pk now cp = (res, cp') \<Longrightarrow> challenged k cp' \<Longrightarrow> challenged k cp"
  by (auto simp: pop_challenge_def challenged_def hm_simps split: option.splits if_splits)

lemma enroll_popped_only:
  assumes "(case pop_challenge w pk now cp of
        (None, cp) \<Rightarrow> ((401, JNull), cp)
      | (Some stored, cp) \<Rightarrow>
          if raw_url_decode (ec_challenge stored) \<noteq> Some cb then ((401, JNull), cp)
          else if \<not> ek_verify kit pub (ek_sha256 kit (pub @ cb)) sb then ((401, JNull), cp)
          else enroll_verified kit now db_ok c pk cp) = (a, cp')"
  shows "challenged k cp' \<Longrightarrow> challenged k cp"
proof -
  obtain res cp1 where p: "pop_challenge w pk now cp = (res, cp1)" by fastforce
  have "cp_challenges cp' = cp_challenges cp1"
    using assms enroll_verified_challenges [of kit now db_ok c pk cp1] by (auto simp: p split: option.splits if_splits)
  then show "challenged k cp' \<Longrightarrow> challenged k cp" using pop_challenge_only [OF p, of k] by (simp add: challenged_def)
qed

lemma enroll_only: "EnrollWorker kit now db_ok bearer body cp = (a, cp') \<Longrightarrow> challenged k cp' \<Longrightarrow> challenged k cp"
  unfolding EnrollWorker_def
  by (simp del: go_strs.simps split: option.splits list.splits if_splits) (auto dest: enroll_popped_only)

lemma bootstrap_only:
  assumes "Bootstrap kit now cb body cp = ((st, answer), cp')"
  shows "st \<noteq> 200 \<and> cp_challenges cp' = cp_challenges cp \<or>
    st = 200 \<and> (\<exists>w ch. go_str ''worker_id'' body = Some w \<and> cp_challenges cp' = hm_insert w ch (cp_challenges cp))"
proof (cases "st = 200")
  case True
  then obtain w r t n ts sig pk where
    f: "go_strs [''worker_id'', ''region'', ''tenant_id'', ''timestamp'', ''nonce'', ''signature'', ''public_key''] body =
      Some [w, r, t, ts, n, sig, pk]"
    using assms by (auto simp: Bootstrap_def simp del: go_strs.simps split: if_splits option.splits list.splits)
  moreover have "\<exists>ch. cp' = put_challenge w ch cp"
    using assms True unfolding Bootstrap_def f by (auto simp: Let_def split: if_splits option.splits)
  moreover have "go_str ''worker_id'' body = Some w" using f by (auto simp: bind_eq_Some_conv)
  ultimately show ?thesis using True by (auto simp: put_challenge_def)
next
  case False
  then have "cp' = cp"
    using assms by (auto simp: Bootstrap_def Let_def simp del: go_strs.simps split: if_splits option.splits list.splits)
  with False show ?thesis by simp
qed

lemma verify_only: "VerifyWorkerJWT kit now db_ok token cp = (r, cp') \<Longrightarrow> cp_challenges cp' = cp_challenges cp"
  by (auto simp: VerifyWorkerJWT_def resolveKey_def GetOrLoad_def Let_def split: option.splits prod.splits if_splits)

lemma cp_serve_counts:
  assumes "cp_serve kit r cp = (st, cp')"
  shows "of_bool (enrolls w r \<and> st = 200) + of_bool (challenged w cp') \<le> of_bool (boots w r \<and> st = 200) + (of_bool (challenged w cp) :: nat)"
proof (cases r)
  case (BootReq now cb body)
  then obtain answer where "Bootstrap kit now cb body cp = ((st, answer), cp')" using assms by (auto split: prod.splits)
  from bootstrap_only [OF this] show ?thesis by (auto simp: BootReq challenged_def hm_simps)
next
  case (EnrollReq now db_ok bearer body)
  then obtain answer where e: "EnrollWorker kit now db_ok bearer body cp = ((st, answer), cp')" using assms by (auto split: prod.splits)
  show ?thesis
  proof (cases "enrolls w r \<and> st = 200")
    case True
    with e have "EnrollWorker kit now db_ok bearer body cp = ((200, answer), cp')" "go_str ''worker_id'' body = Some w"
      by (simp_all add: EnrollReq)
    then have "challenged w cp" "\<not> challenged w cp'"
      using enroll_200 [of kit now db_ok bearer body cp answer cp'] by (auto simp: proves_key_def challenged_def hm_simps)
    then show ?thesis by simp
  next
    case False
    then show ?thesis using enroll_only [OF e, of w] by auto
  qed
next
  case (VerifyReq now db_ok token)
  then show ?thesis using assms by (auto simp: challenged_def dest: verify_only split: prod.splits)
qed

lemma cp_serve_all_counts:
  "cp_serve_all kit rs cp = (sts, cp') \<Longrightarrow>
   granted (enrolls w) rs sts + of_bool (challenged w cp') \<le> granted (boots w) rs sts + of_bool (challenged w cp)"
proof (induction rs arbitrary: cp sts)
  case (Cons r rs)
  obtain st cp1 where s: "cp_serve kit r cp = (st, cp1)" by fastforce
  obtain sts1 where t: "cp_serve_all kit rs cp1 = (sts1, cp')" "sts = st # sts1" using Cons.prems by (auto simp: s split: prod.splits)
  have "granted P (r # rs) sts = of_bool (P r \<and> st = 200) + granted P rs sts1" for P by (simp add: granted_def t(2))
  then show ?case using cp_serve_counts [OF s, of w] Cons.IH [OF t(1)] by simp
qed (simp add: granted_def)

text \<open>Claim C10 (a challenge serves once). Whatever requests reach the control plane, in whatever order, an
  id is enrolled at most as often as it was given a challenge; and an enrolment is granted only to a
  request whose signature verifies, under the public key that was named in the first phase, over that key
  and the challenge that is stored for the id and has not expired. The challenge is then gone, so the
  same request is not granted again.\<close>

theorem challenge_serves_once:
  assumes "cp_serve_all kit rs cp = (sts, cp')" and "cp_challenges cp = []"
    and "EnrollWorker kit now db_ok bearer body cp' = ((200, answer), cp'')"
  shows "granted (enrolls w) rs sts \<le> granted (boots w) rs sts \<and>
    (\<exists>w. go_str ''worker_id'' body = Some w \<and> proves_key kit now w body cp' \<and>
       (\<forall>now' db_ok' bearer'. fst (fst (EnrollWorker kit now' db_ok' bearer' body cp'')) \<noteq> 200))"
proof -
  have "granted (enrolls w) rs sts \<le> granted (boots w) rs sts"
    using cp_serve_all_counts [OF assms(1), of w] assms(2) by (simp add: challenged_def hm_simps)
  moreover obtain w' where w': "go_str ''worker_id'' body = Some w'" "proves_key kit now w' body cp'"
    "cp_challenges cp'' = hm_remove w' (cp_challenges cp')" using enroll_200 [OF assms(3)] by blast
  moreover have "fst (fst (EnrollWorker kit now' db_ok' bearer' body cp'')) \<noteq> 200" for now' db_ok' bearer'
  proof
    assume "fst (fst (EnrollWorker kit now' db_ok' bearer' body cp'')) = 200"
    then obtain x y where "EnrollWorker kit now' db_ok' bearer' body cp'' = ((200, x), y)" by (metis prod.collapse)
    from enroll_200 [OF this] w' show False by (auto simp: proves_key_def hm_simps)
  qed
  ultimately show ?thesis by blast
qed

section \<open>Restarts and renewals\<close>

lemma from_to_bytes: "identity_ok i \<Longrightarrow> from_bytes (to_bytes i) = Inr i"
  by (simp add: from_bytes_iff)

text \<open>A restart keeps the secret. A worker that got its secret by the handshake finds the same
  secret and key id at every later start, without asking the control plane, as long as it is not told
  to enrol again and is given no secret directly.\<close>

theorem restart_keeps_secret:
  assumes "resolve_jwt_secret hs readable fault cfg wid fs cp = (Inr (secret, Some kid), fs', cp')"
    and "\<And>d cp''. hs (client_of cfg) wid cp = (Inr d, cp'') \<Longrightarrow>
      identity_ok \<lparr>pi_kid = ds_kid d, pi_secret = ds_secret d, pi_public_key_hex = wi_public_key_hex wid\<rparr>"
    and "\<not> af_worker_reenroll_on_boot cfg'" and "af_worker_jwt_secret cfg' = []"
  shows "resolve_jwt_secret hs' True fault' cfg' wid' fs' cp'' = (Inr (secret, Some kid), fs', cp'')"
proof -
  have load: "load_persisted_identity True fs' = Inr (Some i) \<Longrightarrow> pi_secret i = secret \<Longrightarrow> pi_kid i = kid \<Longrightarrow> ?thesis" for i
    using assms(3,4) by (simp add: resolve_jwt_secret_def)
  have direct: "af_worker_jwt_secret cfg = []" using assms(1) by (auto simp: resolve_jwt_secret_def split: if_splits)
  show ?thesis
  proof (cases "if af_worker_reenroll_on_boot cfg then Inr None else load_persisted_identity readable fs")
    case (Inl e)
    then show ?thesis using assms(1) direct by (simp add: resolve_jwt_secret_def)
  next
    case (Inr found)
    show ?thesis
    proof (cases found)
      case (Some i)
      then have "load_persisted_identity readable fs = Inr (Some i)" using Inr by (auto split: if_splits)
      then have "load_persisted_identity True fs = Inr (Some i)"
        by (auto simp: load_persisted_identity_def split: option.splits prod.splits if_splits sum.splits)
      moreover have "pi_secret i = secret" "pi_kid i = kid" "fs' = fs"
        using assms(1) direct Inr Some by (auto simp: resolve_jwt_secret_def)
      ultimately show ?thesis using load by simp
    next
      case None
      then obtain d cp1 where d: "hs (client_of cfg) wid cp = (Inr d, cp1)" "secret = ds_secret d" "kid = ds_kid d"
        and p: "persist_identity fault \<lparr>pi_kid = ds_kid d, pi_secret = ds_secret d, pi_public_key_hex = wi_public_key_hex wid\<rparr> fs = (True, fs')"
        using assms(1) direct Inr by (auto simp: resolve_jwt_secret_def split: if_splits prod.splits sum.splits bool.splits)
      from write_secret_file_cases [OF p [unfolded persist_identity_def]] assms(2) [OF d(1)]
      have "load_persisted_identity True fs' =
          Inr (Some \<lparr>pi_kid = ds_kid d, pi_secret = ds_secret d, pi_public_key_hex = wi_public_key_hex wid\<rparr>)"
        by (auto simp: load_persisted_identity_def from_to_bytes)
      from load [OF this] d show ?thesis by simp
    qed
  qed
qed

text \<open>Signing postpones the renewal. After every call of \<open>sign\<close>, whether or not it made a new
  token, the renewal loop does not start a handshake at any tick up to five minutes before the expiry of
  the token that was handed out. A call in the last five minutes therefore moves the renewal a day
  ahead, with the old secret.\<close>

theorem sign_postpones_refresh:
  assumes "sign enc rd sg = (t, sg')" and "rd_now tick + REFRESH_LEAD < sn_expires_at (sg_state sg')"
  shows "refresh_tick enc rnd REFRESH_LEAD outcome tick (attempt, sg') = ((0, sg'), None) \<and>
    sn_secret (sg_state sg') = sn_secret (sg_state sg) \<and>
    (rd_now rd + REFRESH_LEAD \<ge> sn_expires_at (sg_state sg) \<longrightarrow> sn_expires_at (sg_state sg') = rd_now rd + sg_ttl sg)"
  using assms
  by (auto simp: refresh_tick_def sign_def snapshot_fresh_def re_encode_def swap_def Let_def split: if_splits)

text \<open>A failed renewal leaves the signer as it is and waits between 3.75 seconds and 6 minutes 15
  seconds.\<close>

lemma failed_refresh_waits:
  assumes "refresh_tick enc rnd lead RefreshFailed rd (attempt, sg) = (st', Some ms)"
  shows "snd st' = sg \<and> 3750 \<le> unat ms \<and> unat ms \<le> 375000"
proof -
  let ?a = "if attempt = - 1 then attempt else attempt + 1"
  have st: "snd st' = sg" "ms = compute_backoff_ms rnd ?a 5000 300000"
    using assms by (auto simp: refresh_tick_def Let_def split: if_splits)
  define capped :: nat where "capped = min (5000 * 2 ^ min (unat ?a - 1) 31) 300000"
  have "5000 * 1 \<le> 5000 * (2::nat) ^ min (unat ?a - 1) 31" by (intro mult_le_mono2) simp
  then have "5000 \<le> capped" "capped \<le> 300000" by (simp_all add: capped_def)
  then have "3750 \<le> capped * 75 div 100" "capped * 125 div 100 \<le> 375000"
    using div_le_mono [of "5000 * 75" "capped * 75" 100] div_le_mono [of "capped * 125" "300000 * 125" 100] by simp_all
  moreover have "unat (300000 :: u64) * 125 < 2 ^ 64" by simp
  from compute_backoff_band [OF this, of 5000 ?a rnd]
  have "capped * 75 div 100 \<le> unat ms" "unat ms \<le> capped * 125 div 100" by (simp_all add: st(2) capped_def Let_def)
  ultimately show ?thesis using st(1) by linarith
qed

section \<open>Examples\<close>

text \<open>An instance of the libraries, which numbers the claims of a token.\<close>

definition number_token :: "string option \<Rightarrow> worker_claims \<Rightarrow> nat" where
  "number_token kid c =
     to_nat (kid, cl_iss c, cl_exp c, cl_iat c, cl_jti c, cl_worker_id c, cl_tenant_id c, cl_region c, cl_apps c)"

definition token_of_number :: "nat \<Rightarrow> string option \<times> worker_claims" where
  "token_of_number n =
     (case from_nat n of (kid, iss, e, i, jti, w, t, r, apps) \<Rightarrow>
        (kid, \<lparr>cl_iss = iss, cl_exp = e, cl_iat = i, cl_jti = jti, cl_worker_id = w, cl_tenant_id = t, cl_region = r, cl_apps = apps\<rparr>))"

definition number_boot :: "boot_claims \<Rightarrow> nat" where
  "number_boot c = to_nat (bc_iss c, bc_exp c, bc_iat c, bc_nbf c, bc_id c, bc_worker_id c, bc_tenant_id c, bc_region c)"

definition boot_of_number :: "nat \<Rightarrow> boot_claims" where
  "boot_of_number n =
     (case from_nat n of (iss, e, i, nb, k, w, t, r) \<Rightarrow>
        \<lparr>bc_iss = iss, bc_exp = e, bc_iat = i, bc_nbf = nb, bc_id = k, bc_worker_id = w, bc_tenant_id = t, bc_region = r\<rparr>)"

definition sample_kit :: enroll_kit where
  "sample_kit =
     \<lparr>ek_sha256 = (\<lambda>_. replicate 32 7), ek_hmac = (\<lambda>_ _. replicate 32 8), ek_public = (\<lambda>seed. take 32 (seed @ replicate 32 0)),
      ek_sign = (\<lambda>seed m. take 64 (seed @ replicate 64 0)), ek_verify = (\<lambda>pub _ sig. take 32 sig = pub), ek_hkdf = (\<lambda>_ _ _. replicate 32 9),
      ek_hex_enc = hex_encode, ek_hex_dec = go_hex_decode, ek_b64_std = (\<lambda>_. None), ek_b64_url = raw_url_decode,
      ek_encode = (\<lambda>kid c _. replicate (number_token kid c) (CHR ''t'')), ek_parse = (\<lambda>s. Some (token_of_number (length s))),
      ek_boot_encode = (\<lambda>c _. replicate (number_boot c) (CHR ''b'')), ek_boot_parse = (\<lambda>s. Some (boot_of_number (length s))),
      ek_hs256_ok = (\<lambda>_ _. True), ek_time_print = (\<lambda>t. dec (t div 10 ^ 9)), ek_time_parse = (\<lambda>s. Some (undec s * 10 ^ 9))\<rparr>"

lemma sample_kit_ok: "kit_ok sample_kit"
  by (auto simp: kit_ok_def sample_kit_def go_hex_decode_encode raw_url_decode_encode number_token_def token_of_number_def
      number_boot_def boot_of_number_def min_def)

definition sample_client :: bootstrap_client where
  "sample_client = \<lparr>bk_bootstrap_secret = as_bytes ''boot'', bk_worker_id = ''w1'', bk_region = ''fra'', bk_tenant_id = ''acme''\<rparr>"

definition sample_cp :: "(string, string) hashmap \<Rightarrow> control_plane" where
  "sample_cp rows =
     \<lparr>cp_bootstrap_secret = ''boot'', cp_jwt_secret = ''master'', cp_issuer = ''edgecloud'', cp_active_kid = [], cp_keys = [],
      cp_challenges = [], cp_workers = rows, cp_key_cache = []\<rparr>"

definition sample_identity :: worker_identity where
  "sample_identity = from_seed (ek_public sample_kit) (ek_hex_enc sample_kit) (replicate 32 1)"

lemma sample_may: "may_enroll sample_client (sample_cp rows) (10 ^ 12) (10 ^ 12) (10 ^ 12 + 10 ^ 9)"
  by (simp add: may_enroll_def sample_client_def sample_cp_def minute_def)

lemmas sample_handshake = sample_kit_ok sample_may from_seed_own [OF sample_kit_ok, of "replicate 32 1", folded sample_identity_def]

theorem enrolled_worker_accepted_witness:
  "\<exists>d cp'. handshake sample_kit (10 ^ 12) (10 ^ 12) (10 ^ 12 + 10 ^ 9) ''n'' (replicate 32 5) sample_client sample_identity
      (sample_cp [(''w1'', [])]) = (Inr d, cp') \<and>
    hm_get (cp_workers cp') ''w1'' = Some (wi_public_key_hex sample_identity) \<and>
    fst (VerifyWorkerJWT sample_kit (10 ^ 12 + 2 * 10 ^ 9) True
      (ek_encode sample_kit (Some (ds_kid d))
        \<lparr>cl_iss = ''edgecloud'', cl_exp = 90000, cl_iat = 1000, cl_jti = ''j'', cl_worker_id = ''w1'', cl_tenant_id = ''acme'',
         cl_region = ''fra'', cl_apps = []\<rparr> (ds_secret d)) cp') =
      Some \<lparr>cl_iss = ''edgecloud'', cl_exp = 90000, cl_iat = 1000, cl_jti = ''j'', cl_worker_id = ''w1'', cl_tenant_id = ''acme'',
         cl_region = ''fra'', cl_apps = []\<rparr>"
proof -
  let ?cp = "sample_cp [(''w1'', [])]"
  have "''n'' \<noteq> []" "length (replicate 32 (5 :: u8)) = 32" "10 ^ 12 + 10 ^ 9 < (2 :: nat) ^ 63"
    and "hm_contains (cp_workers ?cp) (bk_worker_id sample_client)"
    by (simp_all add: sample_cp_def sample_client_def hm_contains_def hm_simps)
  from enrolled_worker_accepted [OF sample_handshake this] obtain d cp' where
    "handshake sample_kit (10 ^ 12) (10 ^ 12) (10 ^ 12 + 10 ^ 9) ''n'' (replicate 32 5) sample_client sample_identity ?cp = (Inr d, cp')"
    "hm_get (cp_workers cp') (bk_worker_id sample_client) = Some (wi_public_key_hex sample_identity)"
    and ok: "\<And>c now. cl_worker_id c = bk_worker_id sample_client \<Longrightarrow> cl_tenant_id c = bk_tenant_id sample_client \<Longrightarrow>
      cl_region c = bk_region sample_client \<Longrightarrow> cl_iss c = cp_issuer ?cp \<Longrightarrow> now < cl_exp c * 10 ^ 9 \<Longrightarrow>
      fst (VerifyWorkerJWT sample_kit now True (ek_encode sample_kit (Some (ds_kid d)) c (ds_secret d)) cp') = Some c"
    by blast
  then show ?thesis by (intro exI [of _ d] exI [of _ cp'] conjI ok) (simp_all add: sample_client_def sample_cp_def)
qed

theorem first_enrolment_refused_witness:
  "\<exists>cp'. handshake sample_kit (10 ^ 12) (10 ^ 12) (10 ^ 12 + 10 ^ 9) ''n'' (replicate 32 5) sample_client sample_identity (sample_cp []) =
    (Inl (Refused 2 400), cp') \<and> cp_workers cp' = []"
proof -
  have "''n'' \<noteq> []" "length (replicate 32 (5 :: u8)) = 32" "10 ^ 12 < (2 :: nat) ^ 63"
    and "\<not> hm_contains (cp_workers (sample_cp [])) (bk_worker_id sample_client)"
    by (simp_all add: sample_cp_def hm_contains_def hm_simps)
  from first_enrolment_refused [OF sample_handshake this] show ?thesis by (simp add: sample_cp_def)
qed

theorem sign_postpones_refresh_witness:
  "let enc = (\<lambda>kid c secret. ''token'');
       rd = \<lparr>rd_now = 0, rd_wall = 0, rd_later = 0, rd_jti = ''j''\<rparr>;
       sg = signer_new enc rd [1] None ''edgecloud'' ''w1'' ''fra'' ''acme'';
       late = \<lparr>rd_now = 86399 * 10 ^ 9, rd_wall = 0, rd_later = 86399 * 10 ^ 9, rd_jti = ''k''\<rparr>;
       tick = \<lparr>rd_now = 100000 * 10 ^ 9, rd_wall = 0, rd_later = 100000 * 10 ^ 9, rd_jti = ''l''\<rparr>
   in refresh_tick enc 0 REFRESH_LEAD RefreshFailed tick (3, snd (sign enc late sg)) = ((0, snd (sign enc late sg)), None)"
proof -
  let ?enc = "\<lambda>kid c secret. ''token''"
  let ?sg = "signer_new ?enc \<lparr>rd_now = 0, rd_wall = 0, rd_later = 0, rd_jti = ''j''\<rparr> [1] None ''edgecloud'' ''w1'' ''fra'' ''acme''"
  let ?late = "\<lparr>rd_now = 86399 * 10 ^ 9, rd_wall = 0, rd_later = 86399 * 10 ^ 9, rd_jti = ''k''\<rparr>"
  let ?tick = "\<lparr>rd_now = 100000 * 10 ^ 9, rd_wall = 0, rd_later = 100000 * 10 ^ 9, rd_jti = ''l''\<rparr>"
  have "rd_now ?tick + REFRESH_LEAD < sn_expires_at (sg_state (snd (sign ?enc ?late ?sg)))"
    by (simp add: sign_def signer_new_def install_initial_snapshot_def swap_def snapshot_fresh_def re_encode_def
        REFRESH_LEAD_def DEFAULT_TTL_def Let_def)
  from sign_postpones_refresh [OF prod.collapse [symmetric] this] show ?thesis unfolding Let_def by blast
qed

theorem restart_keeps_secret_witness:
  "let cfg = \<lparr>af_worker_jwt_secret = [], af_worker_jwt_kid = None, af_worker_reenroll_on_boot = False,
         af_worker_bootstrap_secret = ''boot'', af_worker_jwt_issuer = ''edgecloud'', af_worker_id = ''w1'', af_region = ''fra'',
         af_worker_tenant_id = ''acme''\<rparr>;
       hs = (\<lambda>_ _ cp. (Inr \<lparr>ds_kid = ''wkr_1'', ds_secret = [1, 2], ds_expires_at = 0\<rparr>, cp));
       down = (\<lambda>_ _ cp. (Inl (Unreachable 1), cp));
       fs = fst (snd (resolve_jwt_secret hs True NoFault cfg \<lparr>wi_seed = [], wi_public_key_hex = ''ab''\<rparr> \<lparr>sf_tmp = None, sf_path = None\<rparr> ()))
   in resolve_jwt_secret down True NoFault cfg \<lparr>wi_seed = [], wi_public_key_hex = ''ab''\<rparr> fs () = (Inr ([1, 2], Some ''wkr_1''), fs, ())"
proof -
  let ?cfg = "\<lparr>af_worker_jwt_secret = [], af_worker_jwt_kid = None, af_worker_reenroll_on_boot = False,
         af_worker_bootstrap_secret = ''boot'', af_worker_jwt_issuer = ''edgecloud'', af_worker_id = ''w1'', af_region = ''fra'',
         af_worker_tenant_id = ''acme''\<rparr>"
  let ?hs = "\<lambda>_ _ cp. (Inr \<lparr>ds_kid = ''wkr_1'', ds_secret = [1, 2], ds_expires_at = 0\<rparr>, cp)"
  let ?wid = "\<lparr>wi_seed = [], wi_public_key_hex = ''ab''\<rparr>" and ?fs = "\<lparr>sf_tmp = None, sf_path = None\<rparr>"
  let ?fs' = "fst (snd (resolve_jwt_secret ?hs True NoFault ?cfg ?wid ?fs ()))"
  have ran: "resolve_jwt_secret ?hs True NoFault ?cfg ?wid ?fs () = (Inr ([1, 2], Some ''wkr_1''), ?fs', ())"
    by (simp add: resolve_jwt_secret_def load_persisted_identity_def persist_identity_def write_secret_file_def)
  have "identity_ok \<lparr>pi_kid = ''wkr_1'', pi_secret = [1, 2], pi_public_key_hex = ''ab''\<rparr>"
    by (simp add: identity_ok_def utf8_seq_len_def Let_def of_char_def)
  then have ok: "identity_ok \<lparr>pi_kid = ds_kid d, pi_secret = ds_secret d, pi_public_key_hex = wi_public_key_hex ?wid\<rparr>"
    if "?hs (client_of ?cfg) ?wid () = (Inr d, cp'')" for d and cp'' :: unit using that by auto
  have "\<not> af_worker_reenroll_on_boot ?cfg" "af_worker_jwt_secret ?cfg = []" by simp_all
  then have "resolve_jwt_secret (\<lambda>_ _ cp. (Inl (Unreachable 1), cp)) True NoFault ?cfg ?wid ?fs' () = (Inr ([1, 2], Some ''wkr_1''), ?fs', ())"
    by (intro restart_keeps_secret [OF ran]) (use ok in blast)+
  then show ?thesis unfolding Let_def .
qed

theorem challenge_serves_once_witness:
  "\<exists>body rs sts cp' bearer answer cp''. cp_serve_all sample_kit rs (sample_cp [(''w1'', [])]) = (sts, cp') \<and>
     granted (boots ''w1'') rs sts = 1 \<and> EnrollWorker sample_kit (10 ^ 12 + 10 ^ 9) True bearer body cp' = ((200, answer), cp'') \<and>
     fst (fst (EnrollWorker sample_kit (10 ^ 12 + 10 ^ 9) True bearer body cp'')) \<noteq> 200"
proof -
  let ?cp = "sample_cp [(''w1'', [])]" and ?cb = "replicate 32 (5 :: u8)" and ?t1 = "10 ^ 12 :: nat" and ?t2 = "10 ^ 12 + 10 ^ 9 :: nat"
  let ?pk = "wi_public_key_hex sample_identity"
  let ?ec = "\<lparr>ec_challenge = raw_url_encode ?cb, ec_public_key = ?pk, ec_expires_at = ?t1 + 5 * minute\<rparr>"
  let ?req = "phase1_request sample_kit ?t1 ''n'' sample_client ?pk"
  let ?token = "IssueBootstrapJWT sample_kit ?t1 (cp_bootstrap_secret ?cp) ''w1'' ''acme'' ''fra''"
  have pk: "?pk = hex_encode (ek_public sample_kit (wi_seed sample_identity))"
    using sample_handshake(3) by (simp add: own_identity_def)
  have "''n'' \<noteq> []" by simp
  note one = bootstrap_accepts [OF sample_kit_ok sample_may this kit_lengths(3) [OF sample_kit_ok] pk, of ?cb]
  have run: "cp_serve_all sample_kit [BootReq ?t1 (Some ?cb) ?req] ?cp = ([200], put_challenge ''w1'' ?ec ?cp)"
    unfolding cp_serve_all.simps cp_serve.simps one by (simp add: sample_client_def)
  obtain c where c: "VerifyBootstrapJWT sample_kit ?t2 (cp_bootstrap_secret ?cp) ?token = Some c" "bc_worker_id c = bk_worker_id sample_client"
    "bc_worker_id c = ''w1''"
    using boot_token_ok [OF sample_kit_ok sample_may, of _ "''w1''" "''acme''" "''fra''"] by (auto simp: sample_client_def)
  obtain body where body: "phase2_request sample_kit sample_client sample_identity \<lparr>ch_wire = raw_url_encode ?cb, ch_bytes = ?cb\<rparr> = Inr body"
    using phase2_request_ok [OF sample_kit_ok sample_handshake(3)] by blast
  have cb: "length ?cb = 32" by simp
  obtain answer cp'' where two: "EnrollWorker sample_kit ?t2 True ?token body (put_challenge ''w1'' ?ec ?cp) = ((200, answer), cp'')"
    using enroll_accepts [OF sample_kit_ok sample_may sample_handshake(3) cb refl c(1,2) body, of True]
    by (auto simp: enroll_verified_def set_public_key_def c(3) sample_cp_def sample_client_def DeriveWorkerSecret_def invalidate_def
        hm_contains_def hm_simps)
  have "cp_challenges ?cp = []" by (simp add: sample_cp_def)
  from challenge_serves_once [OF run this two]
  have "fst (fst (EnrollWorker sample_kit ?t2 True ?token body cp'')) \<noteq> 200" by blast
  moreover have "granted (boots ''w1'') [BootReq ?t1 (Some ?cb) ?req] [200] = 1"
    by (simp add: granted_def phase1_request_def go_str_def sample_client_def Let_def)
  ultimately show ?thesis using run two by blast
qed

end
