(* ===== verification/Cli_Logs.thy ===== *)
theory Cli_Logs
  imports Edge_Prelude
begin

text \<open>
  \<open>edge logs\<close> (\<open>edge-cli/src/commands/logs.rs\<close>): the loop of \<open>edge logs --follow\<close> and the conversion between
  seconds since the epoch and RFC 3339 timestamps.

  The control plane is a parameter: the answer to the \<open>k\<close>-th request of a tick, given the \<open>since\<close> and the
  cursor of the request. So are the readings of the clock and of the flag that Ctrl-C sets. What the command
  prints is the list of the entries.
\<close>

section \<open>Following a log\<close>

record log_entry =
  le_id :: int
  le_ts :: string
  le_level :: string
  le_region :: string
  le_deployment_id :: string
  le_message :: string

record log_page =
  pg_items :: "log_entry list"
  pg_next_cursor :: "string option"

type_synonym log_server = "nat \<Rightarrow> nat \<Rightarrow> string \<Rightarrow> string option \<Rightarrow> string + log_page"

text \<open>What one polling window has seen: the largest timestamp, the ids that share it, and the entries it printed.\<close>

record log_window =
  wd_max_ts :: "string option"
  wd_max_ids :: "int list"
  wd_printed :: "log_entry list"

definition window_start :: log_window where
  "window_start = \<lparr>wd_max_ts = None, wd_max_ids = [], wd_printed = []\<rparr>"

definition see_entry :: "int list \<Rightarrow> log_entry \<Rightarrow> log_window \<Rightarrow> log_window" where
  "see_entry boundary_ids entry w =
     (let already_printed = (le_id entry \<in> set boundary_ids);
          w = (if already_printed then w else w\<lparr>wd_printed := wd_printed w @ [entry]\<rparr>);
          ids = (if already_printed then [] else [le_id entry])
      in case wd_max_ts w of
           None \<Rightarrow> w\<lparr>wd_max_ts := Some (le_ts entry), wd_max_ids := wd_max_ids w @ ids\<rparr>
         | Some cur \<Rightarrow>
             if le_ts entry > cur then w\<lparr>wd_max_ts := Some (le_ts entry), wd_max_ids := ids\<rparr>
             else if le_ts entry = cur then w\<lparr>wd_max_ids := wd_max_ids w @ ids\<rparr>
             else w)"

text \<open>The inner loop: all pages of the window. The result is the error that ends the command, if any, with what has been
  seen.\<close>

partial_function (option) drain ::
  "(nat \<Rightarrow> bool) \<Rightarrow> (nat \<Rightarrow> string option \<Rightarrow> string + log_page) \<Rightarrow> int list \<Rightarrow> nat \<Rightarrow> string option \<Rightarrow> log_window \<Rightarrow>
   (string option \<times> log_window) option" where
  "drain stop list_logs boundary_ids k next_cursor w =
     (if stop k then Some (None, w)
      else case list_logs k next_cursor of
        Inl e \<Rightarrow> Some (Some e, w)
      | Inr resp \<Rightarrow>
          if pg_items resp = [] then Some (None, w)
          else
            let w = fold (see_entry boundary_ids) (pg_items resp) w
            in (case pg_next_cursor resp of
                  None \<Rightarrow> Some (None, w)
                | Some c \<Rightarrow>
                    if c = [] then Some (None, w)
                    else drain stop list_logs boundary_ids (Suc k) (Some c) w))"

record follow =
  fo_since :: string
  fo_boundary_ids :: "int list"

definition advance_watermark :: "log_window \<Rightarrow> follow \<Rightarrow> follow" where
  "advance_watermark w fo =
     (if wd_printed w \<noteq> []
      then (case wd_max_ts w of
              Some new_ts \<Rightarrow> fo\<lparr>fo_since := new_ts, fo_boundary_ids := wd_max_ids w\<rparr>
            | None \<Rightarrow> fo)
      else fo)"

text \<open>\<open>run_follow\<close>, with the number of the tick, the entries printed so far and the deadline.\<close>

partial_function (option) run_follow ::
  "(nat \<Rightarrow> bool) \<Rightarrow> (nat \<Rightarrow> nat \<Rightarrow> bool) \<Rightarrow> (nat \<Rightarrow> instant) \<Rightarrow> log_server \<Rightarrow> instant \<Rightarrow> nat \<Rightarrow> follow \<Rightarrow> log_entry list \<Rightarrow>
   (string option \<times> log_entry list) option" where
  "run_follow stop_tick stop now server deadline tick fo out =
     (if stop_tick tick then Some (None, out)
      else if now tick \<ge> deadline then Some (None, out)
      else case drain (stop tick) (\<lambda>k. server tick k (fo_since fo)) (fo_boundary_ids fo) 0 None window_start of
        None \<Rightarrow> None
      | Some (Some e, w) \<Rightarrow> Some (Some e, out @ wd_printed w)
      | Some (None, w) \<Rightarrow>
          run_follow stop_tick stop now server deadline (Suc tick) (advance_watermark w fo) (out @ wd_printed w))"

definition FOLLOW_TIMEOUT :: duration where
  "FOLLOW_TIMEOUT = secs (30 * 60)"

definition follow_timeout :: "string option \<Rightarrow> duration" where
  "follow_timeout var =
     (case var of
        None \<Rightarrow> FOLLOW_TIMEOUT
      | Some s \<Rightarrow>
          (case parse_uint (2 ^ 64) s of
             Some n \<Rightarrow> if n > 0 then secs n else FOLLOW_TIMEOUT
           | None \<Rightarrow> FOLLOW_TIMEOUT))"

section \<open>Timestamps\<close>

definition pad :: "nat \<Rightarrow> nat \<Rightarrow> string" where
  "pad width n = replicate (width - length (dec n)) (CHR ''0'') @ dec n"

text \<open>\<open>civil_from_days\<close>; all numbers are non-negative, as the seconds are.\<close>

definition civil_from_days :: "nat \<Rightarrow> nat \<times> nat \<times> nat" where
  "civil_from_days days =
     (let z = days + 719468;
          era = z div 146097;
          doe = z - era * 146097;
          yoe = (doe - doe div 1460 + doe div 36524 - doe div 146096) div 365;
          y = yoe + era * 400;
          doy = doe - (365 * yoe + yoe div 4 - yoe div 100);
          mp = (5 * doy + 2) div 153;
          d = doy - (153 * mp + 2) div 5 + 1;
          m = (if mp < 10 then mp + 3 else mp - 9);
          year = (if m \<le> 2 then y + 1 else y)
      in (year, m, d))"

definition format_utc_rfc3339 :: "nat \<Rightarrow> string" where
  "format_utc_rfc3339 t =
     (let days = t div 86400;
          secs_of_day = t mod 86400;
          hh = secs_of_day div 3600;
          mm = secs_of_day mod 3600 div 60;
          ss = secs_of_day mod 60;
          (year, m, d) = civil_from_days days
      in pad 4 year @ ''-'' @ pad 2 m @ ''-'' @ pad 2 d @ ''T'' @ pad 2 hh @ '':'' @ pad 2 mm @ '':'' @ pad 2 ss @ ''Z'')"

definition rfc3339_in_past :: "nat \<Rightarrow> nat \<Rightarrow> string" where
  "rfc3339_in_past now d = format_utc_rfc3339 ((now - d) div 10 ^ 9)"

text \<open>A subtraction of unsigned numbers that goes below zero panics or wraps around, by the profile of the build.\<close>

datatype ts_parse = Parsed int | Malformed | Underflow

definition parse_u32 :: "string \<Rightarrow> nat \<Rightarrow> nat \<Rightarrow> nat option" where
  "parse_u32 s a c =
     (let chunk = take (c - a) (drop a s) in if list_all is_digit chunk then Some (undec chunk) else None)"

definition days_from_civil :: "nat \<Rightarrow> nat \<Rightarrow> nat \<Rightarrow> int option" where
  "days_from_civil year month day =
     (if month \<le> 2 \<and> year = 0 then None
      else
        let (m, y_adj) = (if month \<le> 2 then (month + 9, year - 1) else (month - 3, year));
            era = y_adj div 400;
            yoe = y_adj - era * 400
        in if (153 * m + 2) div 5 + day = 0 then None
           else
             let doy = (153 * m + 2) div 5 + day - 1;
                 doe = yoe * 365 + yoe div 4 - yoe div 100 + doy
             in Some (int era * 146097 + int doe - 719468))"

definition chrono_parse_rfc3339 :: "string \<Rightarrow> ts_parse" where
  "chrono_parse_rfc3339 s =
     (if length s \<noteq> 20 then Malformed
      else if s ! 4 \<noteq> CHR ''-'' \<or> s ! 7 \<noteq> CHR ''-'' \<or> s ! 10 \<noteq> CHR ''T'' \<or> s ! 13 \<noteq> CHR '':'' \<or> s ! 16 \<noteq> CHR '':'' \<or> s ! 19 \<noteq> CHR ''Z''
      then Malformed
      else case (parse_u32 s 0 4, parse_u32 s 5 7, parse_u32 s 8 10, parse_u32 s 11 13, parse_u32 s 14 16, parse_u32 s 17 19) of
        (Some year, Some month, Some day, Some hour, Some minute, Some second) \<Rightarrow>
          (case days_from_civil year month day of
             None \<Rightarrow> Underflow
           | Some days \<Rightarrow> Parsed (days * 86400 + (int hour * 3600 + int minute * 60 + int second)))
      | _ \<Rightarrow> Malformed)"

definition STALE_HEARTBEAT :: int where
  "STALE_HEARTBEAT = 5 * 60"

text \<open>\<open>is_fresh\<close>; \<open>None\<close> is the panic.\<close>

definition is_fresh :: "nat \<Rightarrow> string option \<Rightarrow> bool option" where
  "is_fresh now rfc3339 =
     (case rfc3339 of
        None \<Rightarrow> Some False
      | Some s \<Rightarrow>
          (case chrono_parse_rfc3339 s of
             Malformed \<Rightarrow> Some False
           | Underflow \<Rightarrow> None
           | Parsed parsed \<Rightarrow> (let age = int now - parsed in Some (age \<ge> 0 \<and> age \<le> STALE_HEARTBEAT))))"

section \<open>The calendar\<close>

text \<open>The year of the era by its first day: \<open>year_start y\<close> is the number of days of an era before its year \<open>y\<close>. The formula
  for the year is monotone in the day, so it is right for every day when it is right for the first and the last day
  of each of the 400 years.\<close>

definition year_start :: "nat \<Rightarrow> nat" where
  "year_start y = 365 * y + y div 4 - y div 100"

definition yoe_num :: "nat \<Rightarrow> nat" where
  "yoe_num doe = doe - doe div 1460 + doe div 36524 - doe div 146096"

definition year_bounds :: "int \<Rightarrow> bool" where
  "year_bounds y \<longleftrightarrow>
     (let a = 365 * y + y div 4 - y div 100; b = 365 * (y + 1) + (y + 1) div 4 - (y + 1) div 100 - 1
      in 365 * y \<le> a - a div 1460 + a div 36524 \<and> b - b div 1460 + b div 36524 < 365 * (y + 1))"

lemma year_bounds_all: "list_all year_bounds [0..399]"
  by code_simp

lemma yoe_num_small: "doe < 146096 \<Longrightarrow> yoe_num doe = doe - doe div 1460 + doe div 36524"
  by (simp add: yoe_num_def)

lemma yoe_num_mono: "a \<le> b \<Longrightarrow> b < 146096 \<Longrightarrow> yoe_num a \<le> yoe_num b"
proof (induction b rule: dec_induct)
  case (step b)
  have "Suc b div 1460 \<le> Suc (b div 1460)" "b div 1460 \<le> b" "b div 36524 \<le> Suc b div 36524"
    by (simp_all add: div_Suc)
  then have "yoe_num b \<le> yoe_num (Suc b)" using step.prems by (simp add: yoe_num_small)
  with step show ?case by simp
qed simp

lemma year_start_int: "int (year_start y) = 365 * int y + int y div 4 - int y div 100"
proof -
  have "y div 100 \<le> y div 4" by (rule div_le_mono2) simp_all
  then have "y div 100 \<le> 365 * y + y div 4" by simp
  then show ?thesis by (simp add: year_start_def of_nat_diff zdiv_int)
qed

lemma yoe_num_int: "doe < 146096 \<Longrightarrow> int (yoe_num doe) = int doe - int doe div 1460 + int doe div 36524"
  by (simp add: yoe_num_small of_nat_diff zdiv_int)

lemma year_ends:
  assumes "y < 400" and "year_start (Suc y) - 1 < 146096"
  shows "365 * y \<le> yoe_num (year_start y)" and "yoe_num (year_start (Suc y) - 1) < 365 * Suc y"
    and "year_start y < year_start (Suc y)"
proof -
  have "year_bounds (int y)" using assms(1) year_bounds_all by (auto simp: list_all_iff)
  have m: "year_start y < year_start (Suc y)"
  proof -
    have "int (year_start y) < int (year_start (Suc y))"
      unfolding year_start_int by simp
    then show ?thesis by simp
  qed
  then show "year_start y < year_start (Suc y)" .
  have i: "int (year_start (Suc y) - 1) = 365 * (int y + 1) + (int y + 1) div 4 - (int y + 1) div 100 - 1"
    using m by (simp add: of_nat_diff year_start_int add.commute)
  have "int (365 * y) \<le> int (yoe_num (year_start y))" "int (yoe_num (year_start (Suc y) - 1)) < int (365 * Suc y)"
    using \<open>year_bounds (int y)\<close> m assms(2) unfolding year_bounds_def Let_def
    by (simp_all add: yoe_num_int year_start_int i add.commute [of 1])
  then show "365 * y \<le> yoe_num (year_start y)" "yoe_num (year_start (Suc y) - 1) < 365 * Suc y"
    by (simp_all only: of_nat_le_iff of_nat_less_iff)
qed


lemma between_steps:
  fixes f :: "nat \<Rightarrow> nat"
  assumes "f 0 \<le> d" and "d < f n"
  shows "\<exists>y<n. f y \<le> d \<and> d < f (Suc y)"
  using assms(2)
proof (induction n)
  case 0
  with assms(1) show ?case by simp
next
  case (Suc n)
  then show ?case by (cases "d < f n") (auto simp: not_less intro: exI [of _ n] less_SucI)
qed

lemma year_length: "year_start (Suc y) \<le> year_start y + 366"
proof -
  have "int (year_start (Suc y)) \<le> int (year_start y + 366)"
    unfolding of_nat_add year_start_int by simp
  then show ?thesis by simp
qed

lemma year_of_era:
  assumes "doe < 146097"
  defines "yoe \<equiv> yoe_num doe div 365"
  shows "yoe \<le> 399 \<and> year_start yoe \<le> doe \<and> doe \<le> year_start yoe + 365"
proof (cases "doe = 146096")
  case True
  then have "yoe = 399" by (simp add: yoe_def yoe_num_def)
  then show ?thesis using True by (simp add: year_start_def)
next
  case False
  with assms(1) have d: "doe < 146096" by simp
  have "year_start 0 \<le> doe" "doe < year_start 400" using d by (simp_all add: year_start_def)
  from between_steps [OF this] obtain y where y: "y < 400" "year_start y \<le> doe" "doe < year_start (Suc y)" by blast
  have l: "year_start (Suc y) - 1 < 146096"
  proof (rule ccontr)
    assume "\<not> year_start (Suc y) - 1 < 146096"
    then have "int (year_start (Suc y)) > 146096" by simp
    then show False using y(1) unfolding year_start_int by simp
  qed
  have "365 * y \<le> yoe_num doe"
    using year_ends(1) [OF y(1) l] yoe_num_mono [OF y(2) d] by simp
  moreover have "yoe_num doe < 365 * Suc y"
    using year_ends(2) [OF y(1) l] yoe_num_mono [OF _ l, of doe] y(3) by linarith
  ultimately have "yoe = y" by (simp add: yoe_def div_nat_eqI)
  then show ?thesis using y year_length [of y] by simp
qed

lemma month_of_year:
  fixes doy :: nat
  assumes "doy \<le> 365"
  defines "mp \<equiv> (5 * doy + 2) div 153"
  shows "mp \<le> 11" and "(153 * mp + 2) div 5 \<le> doy" and "doy - (153 * mp + 2) div 5 + 1 \<le> 31" and "10 \<le> mp \<Longrightarrow> 306 \<le> doy"
proof -
  have m: "153 * mp \<le> 5 * doy + 2" "5 * doy + 2 < 153 * mp + 153" unfolding mp_def by (simp_all add: dividend_less_times_div)
  then show "mp \<le> 11" "10 \<le> mp \<Longrightarrow> 306 \<le> doy" using assms(1) by linarith+
  have q: "5 * ((153 * mp + 2) div 5) \<le> 153 * mp + 2" "153 * mp + 2 < 5 * ((153 * mp + 2) div 5) + 5" by (simp_all add: dividend_less_times_div)
  then show "(153 * mp + 2) div 5 \<le> doy" "doy - (153 * mp + 2) div 5 + 1 \<le> 31" using m by linarith+
qed


lemma days_from_civil_parts:
  fixes yoe era mp doy year m d :: nat
  assumes "yoe \<le> 399" and "mp \<le> 11" and "(153 * mp + 2) div 5 \<le> doy"
    and "m = (if mp < 10 then mp + 3 else mp - 9)" and "d = doy - (153 * mp + 2) div 5 + 1"
    and "year = (if m \<le> 2 then yoe + era * 400 + 1 else yoe + era * 400)"
  shows "days_from_civil year m d = Some (int era * 146097 + int (year_start yoe + doy) - 719468)"
proof -
  have p: "(if m \<le> 2 then (m + 9, year - 1) else (m - 3, year)) = (mp, yoe + era * 400)"
    using assms(2, 4, 6) by (auto split: if_splits)
  have n: "\<not> (m \<le> 2 \<and> year = 0)" using assms(6) by simp
  have q: "(153 * mp + 2) div 5 + d \<noteq> 0" "(153 * mp + 2) div 5 + d - 1 = doy" using assms(3, 5) by simp_all
  have e: "(yoe + era * 400) div 400 = era" "yoe + era * 400 - era * 400 = yoe" using assms(1) by simp_all
  have y: "yoe * 365 + yoe div 4 - yoe div 100 = year_start yoe" by (simp add: year_start_def mult.commute)
  show ?thesis unfolding days_from_civil_def if_not_P [OF n] Let_def p prod.case if_not_P [OF q(1)] q(2) e y by (rule refl)
qed

lemma civil_days:
  assumes "civil_from_days days = (year, m, d)" and "days < 2932897"
  shows "days_from_civil year m d = Some (int days)" and "year \<le> 9999" and "m \<le> 12" and "d \<le> 31"
proof -
  define z era doe yoe doy mp where c: "z = days + 719468" "era = z div 146097" "doe = z - era * 146097"
    "yoe = yoe_num doe div 365" "doy = doe - year_start yoe" "mp = (5 * doy + 2) div 153"
  have z: "z = era * 146097 + doe" "doe < 146097" unfolding c by (simp_all add: minus_div_mult_eq_mod flip: mult.commute [of 146097])
  note y = year_of_era [OF z(2), folded c(4)]
  then have doy: "doy \<le> 365" "doe = year_start yoe + doy" by (auto simp: c(5))
  note mo = month_of_year [OF doy(1), folded c(6)]
  have e: "era \<le> 24" using z(1) assms(2) c(1) by simp
  have r: "(year, m, d) = (if (if mp < 10 then mp + 3 else mp - 9) \<le> 2 then yoe + era * 400 + 1 else yoe + era * 400,
      if mp < 10 then mp + 3 else mp - 9, doy - (153 * mp + 2) div 5 + 1)"
    unfolding assms(1) [symmetric] civil_from_days_def Let_def yoe_num_def [symmetric] year_start_def [symmetric]
      c(1) [symmetric] c(2) [symmetric] c(3) [symmetric] c(4) [symmetric] c(5) [symmetric] c(6) [symmetric] by (rule refl)
  show "m \<le> 12" "d \<le> 31" using r mo by (auto split: if_splits)
  show "year \<le> 9999"
  proof (cases "mp < 10")
    case True
    then show ?thesis using r y e by simp
  next
    case False
    then have "306 \<le> doy" using mo(4) by simp
    have "yoe + era * 400 \<noteq> 9999"
    proof
      assume "yoe + era * 400 = 9999"
      then have "yoe = 399" "era = 24" using y e by linarith+
      then show False using z(1) doy(2) \<open>306 \<le> doy\<close> assms(2) c(1) by (simp add: year_start_def)
    qed
    then show ?thesis using r y e by (simp split: if_splits)
  qed
  have "days_from_civil year m d = Some (int era * 146097 + int (year_start yoe + doy) - 719468)"
    using y mo(1, 2) r by (intro days_from_civil_parts) auto
  then show "days_from_civil year m d = Some (int days)" using z(1) doy(2) c(1) by simp
qed


lemma length_dec: "0 < w \<Longrightarrow> n < 10 ^ w \<Longrightarrow> length (dec n) \<le> w"
proof (induction n arbitrary: w rule: dec.induct)
  case (1 n)
  show ?case
  proof (cases "n < 10")
    case True
    then show ?thesis using "1.prems"(1) by (subst dec.simps) simp
  next
    case False
    then have "w \<noteq> 1" using "1.prems"(2) by auto
    then obtain w' where w: "w = Suc w'" "0 < w'" using "1.prems"(1) by (cases w) auto
    have "n div 10 < 10 ^ w'" using w "1.prems"(2) by (simp add: less_mult_imp_div_less mult.commute)
    with "1.IH" [OF False] w False show ?thesis by (subst dec.simps) auto
  qed
qed

lemma pad_props:
  assumes "0 < w" and "n < 10 ^ w"
  shows "length (pad w n) = w" and "list_all is_digit (pad w n)" and "undec (pad w n) = n"
proof -
  show "length (pad w n) = w" using length_dec [OF assms] by (simp add: pad_def)
  show "list_all is_digit (pad w n)" using dec_digits [of n] by (auto simp: pad_def is_digit_def list_all_iff)
  have "foldl (\<lambda>n c. n * 10 + (of_char c - 48)) 0 (replicate k (CHR ''0'') @ s) = foldl (\<lambda>n c. n * 10 + (of_char c - 48)) (0 :: nat) s" for k s
    by (induction k) simp_all
  then have "undec (pad w n) = undec (dec n)" by (simp add: pad_def undec_def)
  then show "undec (pad w n) = n" by simp
qed

lemma two_digits: "length s = 2 \<Longrightarrow> \<exists>a b. s = [a, b]"
  by (auto simp: numeral_2_eq_2 length_Suc_conv)

lemma four_digits: "length s = 4 \<Longrightarrow> \<exists>a b c d. s = [a, b, c, d]"
  by (auto simp: numeral_eq_Suc length_Suc_conv)

lemma parse_fields:
  assumes "length Y = 4" and "length M = 2" and "length D = 2" and "length h = 2" and "length m = 2" and "length s = 2"
    and "list_all (list_all is_digit) [Y, M, D, h, m, s]"
  shows "chrono_parse_rfc3339 (Y @ ''-'' @ M @ ''-'' @ D @ ''T'' @ h @ '':'' @ m @ '':'' @ s @ ''Z'') =
    (case days_from_civil (undec Y) (undec M) (undec D) of
       None \<Rightarrow> Underflow
     | Some days \<Rightarrow> Parsed (days * 86400 + (int (undec h) * 3600 + int (undec m) * 60 + int (undec s))))"
proof -
  obtain a b c d where Y: "Y = [a, b, c, d]" using four_digits [OF assms(1)] by blast
  obtain e f g i j k l n p q where
    "M = [e, f]" "D = [g, i]" "h = [j, k]" "m = [l, n]" "s = [p, q]"
    using assms(2-6) two_digits by metis
  with Y assms(7) show ?thesis by (simp add: chrono_parse_rfc3339_def parse_u32_def cong: option.case_cong)
qed

text \<open>Claim C38 (timestamps). For every second from 1970 to the end of the year 9999, the timestamp that
  \<open>format_utc_rfc3339\<close> writes is one that \<open>chrono_parse_rfc3339\<close> reads back as the same second.\<close>

theorem timestamp_roundtrip:
  assumes "t < 253402300800"
  shows "chrono_parse_rfc3339 (format_utc_rfc3339 t) = Parsed (int t)"
proof -
  obtain year m d where c: "civil_from_days (t div 86400) = (year, m, d)" by (cases "civil_from_days (t div 86400)") auto
  have days: "t div 86400 < 2932897" using assms by (simp add: less_mult_imp_div_less)
  note b = civil_days [OF c days]
  let ?r = "t mod 86400"
  have r: "?r div 3600 < 10 ^ 2" "?r mod 3600 div 60 < 10 ^ 2" "?r mod 60 < 10 ^ 2"
    by (simp_all add: less_mult_imp_div_less less_trans [OF mod_less_divisor])
  have "3600 * (?r div 3600) + (60 * (?r mod 3600 div 60) + ?r mod 3600 mod 60) = ?r" by simp
  then have i: "int (?r div 3600) * 3600 + int (?r mod 3600 div 60) * 60 + int (?r mod 60) = int ?r"
    by (simp add: mod_mod_cancel flip: of_nat_mult of_nat_add) 
  have "chrono_parse_rfc3339 (format_utc_rfc3339 t) =
      Parsed (int (t div 86400) * 86400 + (int (?r div 3600) * 3600 + int (?r mod 3600 div 60) * 60 + int (?r mod 60)))"
    unfolding format_utc_rfc3339_def Let_def c prod.case
    using b r by (subst parse_fields) (simp_all add: pad_props)
  moreover have "int (t div 86400) * 86400 + int (t mod 86400) = int t"
    by (metis of_nat_add of_nat_mult of_nat_numeral div_mult_mod_eq)
  ultimately show ?thesis unfolding i by simp
qed

section \<open>Windows\<close>

text \<open>\<open>answers\<close>: the control plane answers a window with the pages of a list of rows, each but the last with a cursor.\<close>

fun answers :: "(nat \<Rightarrow> string option \<Rightarrow> string + log_page) \<Rightarrow> nat \<Rightarrow> string option \<Rightarrow> log_entry list list \<Rightarrow> bool" where
  "answers list_logs k c [] \<longleftrightarrow> False"
| "answers list_logs k c (items # pages) \<longleftrightarrow>
     (if pages = [] then list_logs k c = Inr \<lparr>pg_items = items, pg_next_cursor = None\<rparr>
      else items \<noteq> [] \<and> (\<exists>c'. c' \<noteq> [] \<and> list_logs k c = Inr \<lparr>pg_items = items, pg_next_cursor = Some c'\<rparr> \<and>
             answers list_logs (Suc k) (Some c') pages))"

lemma drain_answers:
  assumes "answers list_logs k c pages" and "\<And>k. \<not> stop k"
  shows "drain stop list_logs b k c w = Some (None, fold (see_entry b) (concat pages) w)"
  using assms(1)
proof (induction pages arbitrary: k c w)
  case (Cons items pages)
  show ?case
  proof (cases "pages = []")
    case True
    then show ?thesis using Cons.prems assms(2) by (subst drain.simps) simp
  next
    case False
    then obtain c' where c: "items \<noteq> []" "c' \<noteq> []" "list_logs k c = Inr \<lparr>pg_items = items, pg_next_cursor = Some c'\<rparr>"
      "answers list_logs (Suc k) (Some c') pages" using Cons.prems by auto
    have "\<not> stop k" using assms(2) .
    with c(1-3) Cons.IH [OF c(4)] show ?thesis by (subst drain.simps) (simp add: Let_def)
  qed
qed simp

lemma see_printed: "wd_printed (fold (see_entry b) rows w) = wd_printed w @ filter (\<lambda>e. le_id e \<notin> set b) rows"
  by (induction rows arbitrary: w) (auto simp: see_entry_def Let_def split: option.split)

lemma see_entry_some:
  assumes "wd_max_ts w = Some cur"
  shows "wd_max_ts (see_entry b e w) = Some (if cur < le_ts e then le_ts e else cur)"
    and "wd_max_ids (see_entry b e w) =
      (if cur \<le> le_ts e then (if cur < le_ts e then [] else wd_max_ids w) @ (if le_id e \<in> set b then [] else [le_id e])
       else wd_max_ids w)"
  using assms by (auto simp: see_entry_def Let_def)

lemma see_max:
  assumes "rows \<noteq> []"
  defines "newest \<equiv> Max (le_ts ` set rows)"
  shows "wd_max_ts (fold (see_entry b) rows window_start) = Some newest"
    and "set (wd_max_ids (fold (see_entry b) rows window_start)) =
      {le_id e |e. e \<in> set rows \<and> le_ts e = newest \<and> le_id e \<notin> set b}"
proof -
  have "wd_max_ts (fold (see_entry b) rows window_start) = Some (Max (le_ts ` set rows)) \<and>
    set (wd_max_ids (fold (see_entry b) rows window_start)) =
      {le_id e |e. e \<in> set rows \<and> le_ts e = Max (le_ts ` set rows) \<and> le_id e \<notin> set b}" (is "?P rows")
    using assms(1)
  proof (induction rows rule: rev_induct)
    case (snoc r rows)
    show ?case
    proof (cases "rows = []")
      case True
      then show ?thesis by (auto simp: see_entry_def window_start_def Let_def)
    next
      case False
      let ?w = "fold (see_entry b) rows window_start" and ?t = "Max (le_ts ` set rows)"
      have IH: "wd_max_ts ?w = Some ?t" "set (wd_max_ids ?w) = {le_id e |e. e \<in> set rows \<and> le_ts e = ?t \<and> le_id e \<notin> set b}"
        using snoc.IH False by auto
      have M: "Max (le_ts ` set (rows @ [r])) = max (le_ts r) ?t" using False by (simp add: Max_insert)
      have le: "le_ts e \<le> ?t" if "e \<in> set rows" for e using that by simp
      consider "le_ts r > ?t" | "le_ts r = ?t" | "le_ts r < ?t" using linorder_less_linear [of "le_ts r" ?t] by blast
      then show ?thesis
      proof cases
        case 1
        then have "max (le_ts r) ?t = le_ts r" by (metis max_absorb1 less_imp_le)
        moreover have "e \<in> set rows \<Longrightarrow> le_ts e \<noteq> le_ts r" for e using le 1 by fastforce
        ultimately show ?thesis unfolding M using 1 IH by (auto simp: see_entry_some [OF IH(1)])
      next
        case 2
        then show ?thesis unfolding M using IH by (auto simp: see_entry_some [OF IH(1)])
      next
        case 3
        then have "max (le_ts r) ?t = ?t" by (metis max_absorb2 less_imp_le)
        then show ?thesis unfolding M using 3 IH by (auto simp: see_entry_some [OF IH(1)])
      qed
    qed
  qed simp
  then show "wd_max_ts (fold (see_entry b) rows window_start) = Some newest"
    "set (wd_max_ids (fold (see_entry b) rows window_start)) =
      {le_id e |e. e \<in> set rows \<and> le_ts e = newest \<and> le_id e \<notin> set b}"
    by (simp_all add: newest_def)
qed


section \<open>Sessions\<close>

text \<open>A session without the paging: \<open>rows j since\<close> are the rows the control plane has for the window of tick \<open>j\<close>.\<close>

fun session :: "(nat \<Rightarrow> string \<Rightarrow> log_entry list) \<Rightarrow> nat \<Rightarrow> nat \<Rightarrow> follow \<Rightarrow> log_entry list list" where
  "session rows tick 0 fo = []"
| "session rows tick (Suc n) fo =
     (let w = fold (see_entry (fo_boundary_ids fo)) (rows tick (fo_since fo)) window_start
      in wd_printed w # session rows (Suc tick) n (advance_watermark w fo))"

definition serves :: "log_server \<Rightarrow> (nat \<Rightarrow> string \<Rightarrow> log_entry list) \<Rightarrow> bool" where
  "serves server rows \<longleftrightarrow>
     (\<forall>tick since. \<exists>pages. answers (\<lambda>k. server tick k since) 0 None pages \<and> concat pages = rows tick since)"

lemma run_follow_session:
  assumes "serves server rows" and "\<And>j. \<not> stop_tick j" and "\<And>j k. \<not> stop j k"
    and "\<And>j. j < n \<Longrightarrow> now (tick + j) < deadline" and "deadline \<le> now (tick + n)"
  shows "run_follow stop_tick stop now server deadline tick fo out = Some (None, out @ concat (session rows tick n fo))"
  using assms(4, 5)
proof (induction n arbitrary: tick fo out)
  case 0
  then show ?case using assms(2) by (subst run_follow.simps) simp
next
  case (Suc n)
  obtain pages where p: "answers (\<lambda>k. server tick k (fo_since fo)) 0 None pages" "concat pages = rows tick (fo_since fo)"
    using assms(1) unfolding serves_def by blast
  let ?w = "fold (see_entry (fo_boundary_ids fo)) (rows tick (fo_since fo)) window_start"
  have d: "drain (stop tick) (\<lambda>k. server tick k (fo_since fo)) (fo_boundary_ids fo) 0 None window_start = Some (None, ?w)"
    using drain_answers [OF p(1) assms(3)] p(2) by simp
  have t: "\<not> stop_tick tick" "\<not> deadline \<le> now tick" using assms(2) Suc.prems(1) [of 0] by simp_all
  have "run_follow stop_tick stop now server deadline tick fo out =
      run_follow stop_tick stop now server deadline (Suc tick) (advance_watermark ?w fo) (out @ wd_printed ?w)"
    by (subst run_follow.simps) (simp add: t d)
  also have "\<dots> = Some (None, (out @ wd_printed ?w) @ concat (session rows (Suc tick) n (advance_watermark ?w fo)))"
    using Suc.prems(1) [of "Suc _"] Suc.prems(2) by (intro Suc.IH) simp_all
  finally show ?case by (simp add: Let_def)
qed

text \<open>A log that grows in order: \<open>batches ! j\<close> are the rows that tick \<open>j\<close> is the first to find, each later than every row
  of the ticks before; the ids are distinct.\<close>

definition in_order :: "log_entry list list \<Rightarrow> bool" where
  "in_order batches \<longleftrightarrow> sorted_wrt (\<lambda>old new. \<forall>a \<in> set old. \<forall>b \<in> set new. le_ts a < le_ts b) batches \<and>
     distinct (map le_id (concat batches))"

definition rows_since :: "string \<Rightarrow> log_entry list \<Rightarrow> log_entry set" where
  "rows_since since log = {e \<in> set log. since \<le> le_ts e}"

definition watermark_at :: "string \<Rightarrow> log_entry list \<Rightarrow> follow \<Rightarrow> bool" where
  "watermark_at start log fo \<longleftrightarrow>
     (if rows_since start log = {} then fo_since fo = start \<and> fo_boundary_ids fo = []
      else fo_since fo = Max (le_ts ` rows_since start log) \<and>
           set (fo_boundary_ids fo) = le_id ` {e \<in> rows_since start log. le_ts e = fo_since fo})"

lemma rows_since_append: "rows_since since (xs @ ys) = rows_since since xs \<union> rows_since since ys"
  by (auto simp: rows_since_def)

lemma finite_rows_since [simp]: "finite (rows_since since log)"
  by (simp add: rows_since_def)

lemma Max_dominated:
  fixes f :: "'a \<Rightarrow> 'b :: linorder"
  assumes "finite S" "N \<subseteq> S" "N \<noteq> {}" "\<And>a b. a \<in> S - N \<Longrightarrow> b \<in> N \<Longrightarrow> f a < f b"
  shows "Max (f ` S) = Max (f ` N)" and "{e \<in> S. f e = Max (f ` N)} = {e \<in> N. f e = Max (f ` N)}"
proof -
  have fin: "finite (f ` N)" "f ` N \<noteq> {}" using assms(1-3) finite_subset by auto
  obtain m where m: "m \<in> N" "f m = Max (f ` N)" using Max_in [OF fin] by auto
  have "f a \<le> f m" if "a \<in> S" for a
    using that assms(4) [of a m] m fin by (cases "a \<in> N") (auto intro: less_imp_le)
  then show "Max (f ` S) = Max (f ` N)"
    unfolding m(2) [symmetric] using m(1) assms(1, 2) by (intro Max_eqI) auto
  show "{e \<in> S. f e = Max (f ` N)} = {e \<in> N. f e = Max (f ` N)}"
    unfolding m(2) [symmetric] using assms(2) assms(4) m(1) by fastforce
qed

lemma watermark_above:
  assumes "watermark_at start log fo" "rows_since start log \<noteq> {}"
  obtains e where "e \<in> rows_since start log" "fo_since fo = le_ts e" "\<And>a. a \<in> rows_since start log \<Longrightarrow> le_ts a \<le> le_ts e"
proof -
  have "fo_since fo \<in> le_ts ` rows_since start log"
    using assms Max_in [of "le_ts ` rows_since start log"] by (simp add: watermark_at_def)
  then obtain e where "e \<in> rows_since start log" "fo_since fo = le_ts e" by auto
  then show thesis using that assms by (auto simp: watermark_at_def)
qed

lemma window_prints:
  assumes "watermark_at start log fo" and "\<And>a b. a \<in> set log \<Longrightarrow> b \<in> set new \<Longrightarrow> le_ts a < le_ts b"
    and "distinct (map le_id (log @ new))"
  shows "{e \<in> rows_since (fo_since fo) (log @ new). le_id e \<notin> set (fo_boundary_ids fo)} = rows_since start new"
proof (cases "rows_since start log = {}")
  case True
  then show ?thesis using assms(1) by (auto simp: watermark_at_def rows_since_append)
next
  case False
  obtain m where m: "m \<in> rows_since start log" "fo_since fo = le_ts m"
    "\<And>a. a \<in> rows_since start log \<Longrightarrow> le_ts a \<le> le_ts m" by (rule watermark_above [OF assms(1) False]) blast
  have b: "set (fo_boundary_ids fo) = le_id ` {e \<in> rows_since start log. le_ts e = le_ts m}"
    using assms(1) False m(2) by (simp add: watermark_at_def)
  have old: "le_id e \<in> set (fo_boundary_ids fo)" if "e \<in> set log" "le_ts m \<le> le_ts e" for e
  proof -
    have "e \<in> rows_since start log" using that m(1) by (auto simp: rows_since_def)
    then show ?thesis using m(3) that(2) unfolding b by (auto intro!: imageI antisym)
  qed
  have new: "le_ts m \<le> le_ts e \<and> start \<le> le_ts e \<and> le_id e \<notin> set (fo_boundary_ids fo)" if "e \<in> set new" for e
  proof -
    have "m \<in> set log" "start \<le> le_ts m" using m(1) by (auto simp: rows_since_def)
    moreover have "le_id e \<notin> le_id ` set log" using assms(3) that by force
    ultimately show ?thesis using assms(2) [of m e] that unfolding b by (auto simp: rows_since_def)
  qed
  show ?thesis using old new m(2) by (auto simp: rows_since_def)
qed

lemma watermark_step:
  assumes "watermark_at start log fo" and "\<And>a b. a \<in> set log \<Longrightarrow> b \<in> set new \<Longrightarrow> le_ts a < le_ts b"
    and "distinct (map le_id (log @ new))" and R: "set R = rows_since (fo_since fo) (log @ new)"
  defines "w \<equiv> fold (see_entry (fo_boundary_ids fo)) R window_start"
  shows "set (wd_printed w) = rows_since start new" and "watermark_at start (log @ new) (advance_watermark w fo)"
proof -
  let ?N = "rows_since start new"
  have N: "{e \<in> set R. le_id e \<notin> set (fo_boundary_ids fo)} = ?N" using window_prints [OF assms(1-3)] R by simp
  show p: "set (wd_printed w) = ?N" unfolding w_def see_printed N [symmetric] by (simp add: window_start_def)
  show "watermark_at start (log @ new) (advance_watermark w fo)"
  proof (cases "?N = {}")
    case True
    then have "advance_watermark w fo = fo" using p by (simp add: advance_watermark_def)
    then show ?thesis using assms(1) True by (simp add: watermark_at_def rows_since_append)
  next
    case False
    let ?t = "Max (le_ts ` ?N)"
    have sub: "?N \<subseteq> set R" "?N \<subseteq> rows_since start (log @ new)" using N by (auto simp: rows_since_append)
    have dom: "le_ts a < le_ts b" if "a \<in> set (log @ new)" "a \<notin> ?N" "b \<in> ?N" for a b
      using that assms(2) [of a b] by (auto simp: rows_since_def not_le intro: less_le_trans)
    have dR: "le_ts a < le_ts b" if "a \<in> set R - ?N" "b \<in> ?N" for a b
      using that R dom by (auto simp: rows_since_def)
    have dS: "le_ts a < le_ts b" if "a \<in> rows_since start (log @ new) - ?N" "b \<in> ?N" for a b
      using that dom by (auto simp: rows_since_def)
    have mR: "Max (le_ts ` set R) = ?t" by (rule Max_dominated(1) [OF finite_set sub(1) False dR])
    have mS: "Max (le_ts ` rows_since start (log @ new)) = ?t"
      "{e \<in> rows_since start (log @ new). le_ts e = ?t} = {e \<in> ?N. le_ts e = ?t}"
      by (rule Max_dominated [OF finite_rows_since sub(2) False dS]; assumption)+
    have ne: "R \<noteq> []" using sub(1) False by auto
    have "wd_max_ts w = Some ?t" unfolding w_def see_max(1) [OF ne] mR ..
    moreover have "set (wd_max_ids w) = le_id ` {e \<in> ?N. le_ts e = ?t}"
      unfolding w_def see_max(2) [OF ne] mR N [symmetric] by auto
    moreover have "wd_printed w \<noteq> []" using p False by auto
    ultimately have "advance_watermark w fo = fo\<lparr>fo_since := ?t, fo_boundary_ids := wd_max_ids w\<rparr>"
      and "set (wd_max_ids w) = le_id ` {e \<in> rows_since start (log @ new). le_ts e = ?t}"
      using mS(2) by (simp_all add: advance_watermark_def)
    then show ?thesis using mS(1) sub(2) False by (auto simp: watermark_at_def)
  qed
qed

text \<open>\<open>log_of\<close>: what the control plane has for a window, in any order: the rows so far with \<open>since \<le> ts\<close>.\<close>

definition log_of :: "log_entry list list \<Rightarrow> (nat \<Rightarrow> string \<Rightarrow> log_entry list) \<Rightarrow> bool" where
  "log_of batches rows \<longleftrightarrow>
     (\<forall>j < length batches. \<forall>since. distinct (rows j since) \<and> set (rows j since) = rows_since since (concat (take (Suc j) batches)))"

lemma in_order_Cons: "in_order (log # b # bs) \<Longrightarrow> in_order ((log @ b) # bs)"
  by (auto simp: in_order_def)

lemma session_exact:
  assumes "watermark_at start log fo" "in_order (log # bs)"
    and "\<And>j since. j < length bs \<Longrightarrow>
      distinct (rows (tick + j) since) \<and> set (rows (tick + j) since) = rows_since since (log @ concat (take (Suc j) bs))"
  shows "distinct (concat (session rows tick (length bs) fo)) \<and>
    set (concat (session rows tick (length bs) fo)) = rows_since start (concat bs)"
  using assms
proof (induction bs arbitrary: log fo tick)
  case Nil
  then show ?case by (simp add: rows_since_def)
next
  case (Cons b bs)
  let ?R = "rows tick (fo_since fo)"
  let ?w = "fold (see_entry (fo_boundary_ids fo)) ?R window_start"
  have R: "distinct ?R" "set ?R = rows_since (fo_since fo) (log @ b)" using Cons.prems(3) [of 0] by simp_all
  have o: "\<And>a c. a \<in> set log \<Longrightarrow> c \<in> set b \<Longrightarrow> le_ts a < le_ts c" "distinct (map le_id (log @ b))"
    using Cons.prems(2) by (auto simp: in_order_def)
  note st = watermark_step [OF Cons.prems(1) o R(2)]
  have rest: "distinct (concat (session rows (Suc tick) (length bs) (advance_watermark ?w fo))) \<and>
      set (concat (session rows (Suc tick) (length bs) (advance_watermark ?w fo))) = rows_since start (concat bs)"
    using Cons.IH [OF st(2) in_order_Cons [OF Cons.prems(2)], of "Suc tick"] Cons.prems(3) [of "Suc _"] by simp
  have "distinct (wd_printed ?w)" using R(1) unfolding see_printed by (simp add: window_start_def)
  moreover have "rows_since start b \<inter> rows_since start (concat bs) = {}"
    using Cons.prems(2) by (fastforce simp: in_order_def rows_since_def)
  moreover have "rows_since start (concat (b # bs)) = rows_since start b \<union> rows_since start (concat bs)"
    by (simp add: rows_since_append)
  ultimately show ?case using rest st(1) by (simp add: Let_def)
qed

text \<open>Claim C24 (following a log). The control plane has, for the window of each tick, the rows so far with \<open>since \<le> ts\<close>, in any
  order and on any number of pages, and each tick's new rows have later timestamps than all rows before. Then
  \<open>edge logs --follow\<close> ends at its deadline without an error and has printed every row with \<open>start \<le> ts\<close> exactly once.\<close>

theorem follow_exact:
  assumes "in_order batches" and "log_of batches rows" and "serves server rows"
    and "\<And>j. \<not> stop_tick j" and "\<And>j k. \<not> stop j k"
    and "\<And>j. j < length batches \<Longrightarrow> now j < deadline" and "deadline \<le> now (length batches)"
  shows "\<exists>out. run_follow stop_tick stop now server deadline 0 \<lparr>fo_since = start, fo_boundary_ids = []\<rparr> [] = Some (None, out) \<and>
    distinct out \<and> set out = rows_since start (concat batches)"
proof -
  let ?fo = "\<lparr>fo_since = start, fo_boundary_ids = []\<rparr>"
  have "run_follow stop_tick stop now server deadline 0 ?fo [] = Some (None, [] @ concat (session rows 0 (length batches) ?fo))"
    using assms(3-7) by (intro run_follow_session) simp_all
  moreover have "distinct (concat (session rows 0 (length batches) ?fo)) \<and>
      set (concat (session rows 0 (length batches) ?fo)) = rows_since start (concat batches)"
    using assms(1, 2) by (intro session_exact [where log = "[]"]) (simp_all add: watermark_at_def rows_since_def in_order_def log_of_def)
  ultimately show ?thesis by simp
qed





section \<open>Examples\<close>

definition one_page :: "(nat \<Rightarrow> string \<Rightarrow> log_entry list) \<Rightarrow> log_server" where
  "one_page rows tick k since c = Inr \<lparr>pg_items = rows tick since, pg_next_cursor = None\<rparr>"

lemma serves_one_page: "serves (one_page rows) rows"
  unfolding serves_def by (intro allI exI [of _ "[rows _ _]"]) (simp add: one_page_def)

definition example_row :: "int \<Rightarrow> string \<Rightarrow> log_entry" where
  "example_row i t = \<lparr>le_id = i, le_ts = t, le_level = ''info'', le_region = ''fra'', le_deployment_id = ''d1'', le_message = ''hi''\<rparr>"

lemma example_row_fields [simp]: "le_id (example_row i t) = i" "le_ts (example_row i t) = t"
  by (simp_all add: example_row_def)

definition example_batches :: "log_entry list list" where
  "example_batches = [[example_row 1 ''2026-01-01T00:00:00Z'', example_row 2 ''2026-01-01T00:00:01Z''], [],
     [example_row 3 ''2026-01-01T00:00:02Z'']]"

definition example_rows :: "nat \<Rightarrow> string \<Rightarrow> log_entry list" where
  "example_rows j since = filter (\<lambda>e. since \<le> le_ts e) (concat (take (Suc j) example_batches))"

lemma example_log: "in_order example_batches" "log_of example_batches example_rows"
proof -
  have n: "length example_batches = 3" by (simp add: example_batches_def)
  show o: "in_order example_batches"
    by (simp add: in_order_def example_batches_def example_row_def less_char_def)
  have "distinct (concat (take (Suc j) example_batches))" if "j < 3" for j
    using that by (auto simp: example_batches_def example_row_def less_Suc_eq numeral_3_eq_3)
  then show "log_of example_batches example_rows"
    using n by (auto simp: log_of_def example_rows_def rows_since_def)
qed

theorem follow_exact_witness:
  "\<exists>out. run_follow (\<lambda>_. False) (\<lambda>_ _. False) (\<lambda>j. j) (one_page example_rows) 3 0
      \<lparr>fo_since = ''2026-01-01T00:00:01Z'', fo_boundary_ids = []\<rparr> [] = Some (None, out) \<and>
    distinct out \<and> set out = rows_since ''2026-01-01T00:00:01Z'' (concat example_batches)"
proof -
  have n: "length example_batches = 3" by (simp add: example_batches_def)
  show ?thesis
    by (rule follow_exact [OF example_log serves_one_page]) (simp_all add: n)
qed


theorem timestamp_roundtrip_witness:
  "(1767225599 :: nat) < 253402300800 \<and> chrono_parse_rfc3339 (format_utc_rfc3339 1767225599) = Parsed 1767225599"
  using timestamp_roundtrip [of 1767225599] by simp

end
