(* ===== verification/Cli_Client.thy ===== *)
theory Cli_Client
  imports Worker_Util Edge_Bytes Cli_Logs "HOL-Library.Sublist"
begin

unbundle bit_operations_syntax

text \<open>
  The client side of the control plane's API in the command line: the classes of errors and the bounded bodies
  (\<open>edge-cli/src/api/client.rs\<close>), the check of path components (\<open>api/path.rs\<close>), the walk along the pages of a
  listing, the retry loop with its backoff (\<open>commands/retry.rs\<close>, \<open>commands/deploy.rs\<close>), the sleep that Ctrl-C
  ends (\<open>commands/logs.rs\<close>) and the choice of the app name (\<open>commands/state_io.rs\<close>).

  An \<open>anyhow::Error\<close> is the chain of its causes. The requests, the readings of the clock and of the flag that Ctrl-C
  sets, and the values that a failed compare-and-swap finds are parameters.
\<close>

section \<open>Errors\<close>

datatype api_error = Rejected nat string | Transient string

definition is_retryable :: "api_error \<Rightarrow> bool" where
  "is_retryable e =
     (case e of
        Transient source \<Rightarrow> True
      | Rejected status body \<Rightarrow> status = 429)"

definition MAX_ERR_BODY :: nat where
  "MAX_ERR_BODY = 4 * 1024"

definition is_char_boundary :: "string \<Rightarrow> nat \<Rightarrow> bool" where
  "is_char_boundary s i \<longleftrightarrow>
     i = 0 \<or> i = length s \<or> i < length s \<and> \<not> (0x80 \<le> (of_char (s ! i) :: nat) \<and> (of_char (s ! i) :: nat) < 0xC0)"

fun floor_char_boundary :: "string \<Rightarrow> nat \<Rightarrow> nat" where
  "floor_char_boundary s 0 = 0"
| "floor_char_boundary s (Suc e) = (if is_char_boundary s (Suc e) then Suc e else floor_char_boundary s e)"

definition truncate_body :: "string \<Rightarrow> string" where
  "truncate_body s =
     (if length s \<le> MAX_ERR_BODY then s
      else take (floor_char_boundary s MAX_ERR_BODY) s @ ''... [truncated]'')"

text \<open>A response is its status and the bytes of its body that can be read; \<open>show_status\<close> prints a status.\<close>

definition check_response :: "(nat \<Rightarrow> string) \<Rightarrow> nat \<times> bytes \<Rightarrow> api_error option" where
  "check_response show_status resp =
     (let status = fst resp in
      if 200 \<le> status \<and> status < 300 then None
      else
        let body = truncate_body (from_utf8_lossy (take (MAX_ERR_BODY + 1) (snd resp)))
        in if 400 \<le> status \<and> status < 500 then Some (Rejected status body)
           else Some (Transient (''server returned '' @ show_status status @ '': '' @ body)))"

text \<open>A cause of an error: an \<open>ApiError\<close>, a \<open>reqwest::Error\<close> with its \<open>is_builder\<close>, or another one.\<close>

datatype cause = ApiCause api_error | ReqwestCause bool | OtherCause string

fun is_anyhow_retryable :: "cause list \<Rightarrow> bool" where
  "is_anyhow_retryable [] = False"
| "is_anyhow_retryable (c # chain) =
     (case c of
        ApiCause api \<Rightarrow> is_retryable api
      | ReqwestCause is_builder \<Rightarrow> \<not> is_builder
      | OtherCause _ \<Rightarrow> is_anyhow_retryable chain)"

section \<open>Path components\<close>

definition is_control :: "char \<Rightarrow> bool" where
  "is_control c \<longleftrightarrow> (of_char c :: nat) < 0x20 \<or> of_char c = (0x7F :: nat)"

text \<open>The bytes of the characters that take more than one byte are 0x80 and above.\<close>

definition invalid_char :: "char \<Rightarrow> bool" where
  "invalid_char c \<longleftrightarrow>
     c \<in> set [CHR ''/'', CHR 0x5C, CHR 0x00, CHR ''?'', CHR ''#'', CHR ''&'', CHR ''='', CHR ''+'', CHR ''%'', CHR '' '',
       CHR 0x09, CHR 0x0A, CHR 0x0D] \<or> is_control c \<or> 0x80 \<le> (of_char c :: nat)"

datatype path_error = EmptyComponent string | DotDot string | InvalidCharacter string

definition validate_path_component :: "string \<Rightarrow> string \<Rightarrow> path_error option" where
  "validate_path_component name val =
     (if val = [] then Some (EmptyComponent name)
      else if val = ''..'' \<or> sublist ''..'' val then Some (DotDot name)
      else if list_ex invalid_char val then Some (InvalidCharacter name)
      else None)"

section \<open>Listings\<close>

definition MAX_PAGES :: nat where
  "MAX_PAGES = 1000"

text \<open>The loop of the walkers: \<open>fetch k c\<close> is the answer to the request of round \<open>k\<close> with cursor \<open>c\<close>. Only the walk
  along the logs stops at an empty page.\<close>

fun walk_pages :: "bool \<Rightarrow> (nat \<Rightarrow> string option \<Rightarrow> 'e + 'i list \<times> string option) \<Rightarrow> nat \<Rightarrow> nat \<Rightarrow> string option \<Rightarrow> 'i list \<Rightarrow> 'e + 'i list" where
  "walk_pages stop_at_empty fetch 0 k cursor all = Inr all"
| "walk_pages stop_at_empty fetch (Suc rounds) k cursor all =
     (case fetch k cursor of
        Inl e \<Rightarrow> Inl e
      | Inr (items, next_cursor) \<Rightarrow>
          let all = all @ items
          in (case next_cursor of
                None \<Rightarrow> Inr all
              | Some c \<Rightarrow>
                  if c = [] then Inr all
                  else if stop_at_empty \<and> items = [] then Inr all
                  else walk_pages stop_at_empty fetch rounds (Suc k) (Some c) all))"

definition list_all_apps :: "(nat \<Rightarrow> string option \<Rightarrow> 'e + 'i list \<times> string option) \<Rightarrow> 'e + 'i list" where
  "list_all_apps fetch = walk_pages False fetch MAX_PAGES 0 None []"

definition list_all_deployments :: "(nat \<Rightarrow> string option \<Rightarrow> 'e + 'i list \<times> string option) \<Rightarrow> 'e + 'i list" where
  "list_all_deployments fetch = walk_pages False fetch MAX_PAGES 0 None []"

definition list_all_logs :: "(nat \<Rightarrow> string option \<Rightarrow> 'e + 'i list \<times> string option) \<Rightarrow> 'e + 'i list" where
  "list_all_logs fetch = walk_pages True fetch MAX_PAGES 0 None []"

section \<open>The name of the app\<close>

definition resolve_app_name :: "string \<Rightarrow> string \<Rightarrow> string option \<Rightarrow> string + string" where
  "resolve_app_name cmd app state_app_name =
     (if app \<noteq> [] then Inr app
      else case state_app_name of
        Some s \<Rightarrow> if s \<noteq> [] then Inr s
          else Inl (cmd @ '' requires an app name; pass it positionally or run from a directory with .edge/state.json'')
      | None \<Rightarrow> Inl (cmd @ '' requires an app name; pass it positionally or run from a directory with .edge/state.json''))"

datatype load_cause = NotFound | OtherIo string | ParseFailed string

definition load_state_optional :: "load_cause list + 's \<Rightarrow> load_cause list + 's option" where
  "load_state_optional loaded =
     (case loaded of
        Inr s \<Rightarrow> Inr (Some s)
      | Inl chain \<Rightarrow> if list_ex (\<lambda>c. c = NotFound) chain then Inr None else Inl chain)"

section \<open>Retries\<close>

definition DEFAULT_MAX_RETRIES :: u32 where
  "DEFAULT_MAX_RETRIES = 3"

definition DEFAULT_RETRY_BASE_MS :: u64 where
  "DEFAULT_RETRY_BASE_MS = 500"

definition DEFAULT_RETRY_CAP_MS :: u64 where
  "DEFAULT_RETRY_CAP_MS = 8000"

text \<open>The generator with its shared state. \<open>actuals\<close> are the values that the failed rounds of the compare-and-swap
  found; each round computes what the worker's generator does (\<open>edge-worker/src/backoff.rs\<close>).\<close>

fun cas_rounds :: "u64 list \<Rightarrow> u64 \<Rightarrow> u64" where
  "cas_rounds [] x = xorshift_uniform_u64 x"
| "cas_rounds (actual # actuals) x = cas_rounds actuals actual"

definition seeded :: "u64 \<Rightarrow> u64 option \<Rightarrow> u64" where
  "seeded seed state = (case state of None \<Rightarrow> seed OR 1 | Some x \<Rightarrow> x)"

definition backoff_ms :: "u64 \<Rightarrow> u32 \<Rightarrow> u64 \<Rightarrow> u64 \<Rightarrow> u64" where
  "backoff_ms rnd attempt base_ms cap_ms =
     (let exp = push_bit (unat (min (saturating_sub attempt 1) 20)) 1;
          capped = min (saturating_mul base_ms exp) cap_ms;
          jitter = rnd mod 51
      in max (saturating_mul capped (75 + jitter) div 100) 1)"

definition FOLLOW_POLL_GRANULARITY :: duration where
  "FOLLOW_POLL_GRANULARITY = millis 100"

text \<open>\<open>interruptible_sleep\<close>: \<open>stop k\<close> is the \<open>k\<close>-th reading of the flag, \<open>gap k\<close> the time between the two readings of the
  clock of round \<open>k\<close>, and \<open>late k\<close> by how much its sleep is longer than asked for. The result is the time that passed.\<close>

function interruptible_sleep ::
  "(nat \<Rightarrow> bool) \<Rightarrow> (nat \<Rightarrow> duration) \<Rightarrow> (nat \<Rightarrow> duration) \<Rightarrow> duration \<Rightarrow> nat \<Rightarrow> duration \<Rightarrow> duration" where
  "interruptible_sleep stop gap late total_time k passed =
     (if passed < total_time then
        if stop k then passed
        else
          let remaining = total_time - (passed + gap k)
          in interruptible_sleep stop gap late total_time (Suc k)
               (passed + gap k + min remaining FOLLOW_POLL_GRANULARITY + late k)
      else passed)"
  by pat_completeness auto

termination interruptible_sleep
  by (relation "measure (\<lambda>(_, _, _, total_time, _, passed). total_time - passed)") (auto simp: FOLLOW_POLL_GRANULARITY_def min_def)

declare interruptible_sleep.simps [simp del]

text \<open>What a run of the loop meets: the result of each call of the closure, and the environment of each wait.\<close>

record 'a retry_env =
  re_attempt :: "nat \<Rightarrow> cause list + 'a"
  re_seed :: u64
  re_actuals :: "nat \<Rightarrow> u64 list"
  re_stop :: "nat \<Rightarrow> nat \<Rightarrow> bool"
  re_gap :: "nat \<Rightarrow> nat \<Rightarrow> duration"
  re_late :: "nat \<Rightarrow> nat \<Rightarrow> duration"

definition backoff_sleep :: "'a retry_env \<Rightarrow> nat \<Rightarrow> u64 \<Rightarrow> duration" where
  "backoff_sleep env n ms = interruptible_sleep (re_stop env n) (re_gap env n) (re_late env n) (millis (unat ms)) 0 0"

text \<open>The result is that of the last call, with the number of calls and the waits: each backoff and the time slept.\<close>

partial_function (option) call_loop ::
  "'a retry_env \<Rightarrow> u32 \<Rightarrow> u64 \<Rightarrow> u64 \<Rightarrow> nat \<Rightarrow> u32 \<Rightarrow> u64 option \<Rightarrow> (u64 \<times> duration) list \<Rightarrow>
   ((cause list + 'a) \<times> nat \<times> (u64 \<times> duration) list) option" where
  "call_loop env max_retries base_ms cap_ms calls attempt_no state waits =
     (let attempt_no = attempt_no + 1
      in (case re_attempt env calls of
            Inr resp \<Rightarrow> Some (Inr resp, Suc calls, waits)
          | Inl e \<Rightarrow>
              if attempt_no > max_retries \<or> \<not> is_anyhow_retryable e then Some (Inl e, Suc calls, waits)
              else
                let rnd = cas_rounds (re_actuals env calls) (seeded (re_seed env) state);
                    ms = backoff_ms rnd attempt_no base_ms cap_ms
                in call_loop env max_retries base_ms cap_ms (Suc calls) attempt_no (Some rnd)
                     (waits @ [(ms, backoff_sleep env calls ms)])))"

definition effective_base_ms :: "string option \<Rightarrow> u64 \<Rightarrow> u64" where
  "effective_base_ms var retry_base_ms =
     (case var of
        None \<Rightarrow> retry_base_ms
      | Some s \<Rightarrow> (case parse_uint (2 ^ 64) s of None \<Rightarrow> retry_base_ms | Some n \<Rightarrow> of_nat n))"

definition call_with_retry ::
  "'a retry_env \<Rightarrow> string option \<Rightarrow> u64 option \<Rightarrow> u32 \<Rightarrow> u64 \<Rightarrow> u64 \<Rightarrow>
   ((cause list + 'a) \<times> nat \<times> (u64 \<times> duration) list) option" where
  "call_with_retry env var state max_retries retry_base_ms retry_cap_ms =
     call_loop env max_retries (effective_base_ms var retry_base_ms) retry_cap_ms 0 0 state []"

definition call_with_retry_no_interrupt ::
  "'a retry_env \<Rightarrow> string option \<Rightarrow> u64 option \<Rightarrow> u32 \<Rightarrow> u64 \<Rightarrow> u64 \<Rightarrow>
   ((cause list + 'a) \<times> nat \<times> (u64 \<times> duration) list) option" where
  "call_with_retry_no_interrupt env var state max_retries retry_base_ms retry_cap_ms =
     call_with_retry (env\<lparr>re_stop := \<lambda>_ _. False\<rparr>) var state max_retries retry_base_ms retry_cap_ms"

section \<open>The generator\<close>

lemma xor_push_bit_zero:
  fixes x :: "'a::len word"
  assumes "x XOR push_bit n x = 0" and "0 < n"
  shows "x = 0"
proof -
  have eq: "x = push_bit n x" using assms(1) by (metis xor.right_neutral xor.left_commute xor_self_eq)
  have "\<not> bit x i" for i
  proof (induction i rule: less_induct)
    case (less i)
    have "bit x i \<longleftrightarrow> i < LENGTH('a) \<and> n \<le> i \<and> bit x (i - n)"
      by (subst eq) (auto simp: bit_push_bit_iff)
    then show ?case using less [of "i - n"] assms(2) by auto
  qed
  then show ?thesis by (auto intro: bit_eqI)
qed

lemma xor_drop_bit_zero:
  fixes x :: "'a::len word"
  assumes "x XOR drop_bit n x = 0" and "0 < n"
  shows "x = 0"
proof -
  have eq: "x = drop_bit n x" using assms(1) by (metis xor.right_neutral xor.left_commute xor_self_eq)
  have "\<not> bit x i" for i
  proof (induction "LENGTH('a) - i" arbitrary: i rule: less_induct)
    case less
    have step: "bit x i \<longleftrightarrow> bit x (n + i)" by (subst eq) (simp add: bit_drop_bit_eq)
    show ?case
    proof (cases "i < LENGTH('a)")
      case True
      then have "LENGTH('a) - (n + i) < LENGTH('a) - i" using assms(2) by simp
      then show ?thesis using less step by blast
    qed (simp add: bit_imp_le_length not_less, meson bit_imp_le_length not_le)
  qed
  then show ?thesis by (auto intro: bit_eqI)
qed

lemma inj_xor_linear:
  fixes f :: "'a::len word \<Rightarrow> 'a word"
  assumes "\<And>x y. f (x XOR y) = f x XOR f y" and "\<And>x. x XOR f x = 0 \<Longrightarrow> x = 0"
  shows "inj (\<lambda>x. x XOR f x)"
proof (rule injI)
  fix x y assume eq: "x XOR f x = y XOR f y"
  have "(x XOR y) XOR f (x XOR y) = (x XOR f x) XOR (y XOR f y)"
    unfolding assms(1) by (simp only: xor.assoc xor.commute xor.left_commute)
  then have "(x XOR y) XOR f (x XOR y) = 0" unfolding eq by simp
  then have "x XOR y = 0" by (rule assms(2))
  then show "x = y" by (metis xor.right_neutral xor.left_commute xor_self_eq)
qed

lemma inj_odd_multiplier: "inj (\<lambda>x :: u64. x * 0x2545F4914F6CDD1D)"
proof (rule injI)
  fix x y :: u64 assume eq: "x * 0x2545F4914F6CDD1D = y * 0x2545F4914F6CDD1D"
  have c: "(0x2545F4914F6CDD1D :: u64) * 0x59071D96D81ECD35 = 1" by simp
  have "x * (0x2545F4914F6CDD1D * 0x59071D96D81ECD35) = y * (0x2545F4914F6CDD1D * 0x59071D96D81ECD35)"
    unfolding mult.assoc [symmetric] eq ..
  then show "x = y" unfolding c by simp
qed

text \<open>The generator never degenerates. The generator of the backoff is a permutation of the 64-bit words that
  fixes zero alone, so from a non-zero state, as the seeding makes it, it never reaches zero, however many rounds.\<close>

theorem xorshift_permutation:
  "bij xorshift_uniform_u64 \<and> (\<forall>seed n. (xorshift_uniform_u64 ^^ n) (seeded seed None) \<noteq> 0)"
proof -
  have push: "inj (\<lambda>x :: u64. x XOR push_bit n x)" if "0 < n" for n
    using that by (intro inj_xor_linear) (auto simp: push_bit_xor intro: xor_push_bit_zero)
  have drop: "inj (\<lambda>x :: u64. x XOR drop_bit 7 x)"
    by (intro inj_xor_linear) (auto simp: drop_bit_xor intro: xor_drop_bit_zero)
  have eq: "xorshift_uniform_u64 = (\<lambda>x. x * 0x2545F4914F6CDD1D) \<circ> (\<lambda>x. x XOR push_bit 17 x) \<circ> (\<lambda>x. x XOR drop_bit 7 x) \<circ>
      (\<lambda>x. x XOR push_bit 13 x)"
    by (simp add: fun_eq_iff xorshift_uniform_u64_def Let_def)
  have inj: "inj xorshift_uniform_u64"
    unfolding eq by (intro inj_compose push drop inj_odd_multiplier) simp_all
  have zero: "xorshift_uniform_u64 0 = 0" by (simp add: xorshift_uniform_u64_def)
  have nz: "xorshift_uniform_u64 x = 0 \<longleftrightarrow> x = 0" for x using inj_eq [OF inj, of x 0] unfolding zero .
  have "(xorshift_uniform_u64 ^^ n) x \<noteq> 0" if "x \<noteq> 0" for n x
  proof (induction n)
    case (Suc n)
    then show ?case by (simp add: nz)
  qed (use that in simp)
  moreover have "seeded seed None \<noteq> 0" for seed
  proof
    assume "seeded seed None = 0"
    then have "bit (seed OR 1) 0 = bit (0 :: u64) 0" by (simp add: seeded_def)
    then show False by (simp add: bit_or_iff)
  qed
  ultimately show ?thesis using inj finite_UNIV_inj_surj [OF _ inj] by (simp add: bij_def)
qed

section \<open>The backoff\<close>

definition capped_backoff :: "nat \<Rightarrow> u64 \<Rightarrow> u64 \<Rightarrow> nat" where
  "capped_backoff retry base_ms cap_ms = min (min (unat base_ms * 2 ^ min retry 20) (2 ^ 64 - 1)) (unat cap_ms)"

text \<open>The wait before retry number \<open>retry\<close>, from 0: three to five quarters of the doubled and capped base, and at least
  one millisecond.\<close>

definition backoff_in_band :: "nat \<Rightarrow> u64 \<Rightarrow> u64 \<Rightarrow> u64 \<Rightarrow> bool" where
  "backoff_in_band retry base_ms cap_ms ms \<longleftrightarrow>
     (let c = capped_backoff retry base_ms cap_ms
      in max 1 (min (c * 75) (2 ^ 64 - 1) div 100) \<le> unat ms \<and> unat ms \<le> max 1 (c * 125 div 100))"

lemma unat_max: "unat (max a b) = max (unat a) (unat b)"
  by (simp add: max_def word_le_nat_alt)

lemma max_band: "u = max a 1 \<Longrightarrow> l \<le> a \<Longrightarrow> a \<le> h \<Longrightarrow> max 1 l \<le> u \<and> u \<le> max 1 h" for u :: nat
  by auto

lemma backoff_band: "backoff_in_band (unat attempt - 1) base_ms cap_ms (backoff_ms rnd attempt base_ms cap_ms)"
proof -
  let ?e = "unat (min (saturating_sub attempt 1) 20)"
  let ?c = "capped_backoff (unat attempt - 1) base_ms cap_ms"
  let ?j = "unat (75 + rnd mod 51)"
  have e: "?e = min (unat attempt - 1) 20" by (simp add: unat_min_word unat_saturating_sub)
  have "unat (push_bit ?e 1 :: u64) = 2 ^ min (unat attempt - 1) 20"
    unfolding e by (rule unat_shift_one) simp
  then have c: "unat (min (saturating_mul base_ms (push_bit ?e 1)) cap_ms) = ?c"
    by (simp only: unat_min_word unat_saturating_mul capped_backoff_def len_num0 len_bit0 len_num1) simp
  have j: "75 \<le> ?j" "?j \<le> 125" using jitter_range [of rnd] by (simp_all add: add.commute)
  have "unat (backoff_ms rnd attempt base_ms cap_ms) = max (min (?c * ?j) (2 ^ 64 - 1) div 100) 1"
    by (simp only: backoff_ms_def Let_def unat_max unat_div_distrib unat_saturating_mul c) simp
  moreover have "min (?c * 75) (2 ^ 64 - 1) div 100 \<le> min (?c * ?j) (2 ^ 64 - 1) div 100"
    using j(1) by (intro div_le_mono min.mono mult_le_mono2 order_refl)
  moreover have "min (?c * ?j) (2 ^ 64 - 1) div 100 \<le> ?c * 125 div 100"
    using j(2) by (intro div_le_mono min.coboundedI1 mult_le_mono2)
  ultimately show ?thesis unfolding backoff_in_band_def Let_def by (rule max_band)
qed

section \<open>The sleep\<close>

text \<open>Without an interrupt the sleep lasts at least as long as asked for; once the flag is set, it ends at the
  next round.\<close>

lemma sleep_full: "(\<And>k. \<not> stop k) \<Longrightarrow> t \<le> interruptible_sleep stop gap late t k e"
proof (induction stop gap late t k e rule: interruptible_sleep.induct)
  case (1 stop gap late t k e)
  have k: "\<not> stop k" by (rule "1.prems")
  show ?case using "1.IH" [OF _ k refl "1.prems"] k
    by (subst interruptible_sleep.simps) (simp add: Let_def)
qed

lemma sleep_stopped: "stop k \<Longrightarrow> interruptible_sleep stop gap late t k e = e"
  by (subst interruptible_sleep.simps) simp

section \<open>The loop\<close>

definition retries :: "'a retry_env \<Rightarrow> nat \<Rightarrow> bool" where
  "retries env n \<longleftrightarrow> (case re_attempt env n of Inl e \<Rightarrow> is_anyhow_retryable e | Inr _ \<Rightarrow> False)"

lemma call_loop_end:
  assumes "\<not> retries env n \<or> max_retries < attempt_no + 1"
  shows "call_loop env max_retries base_ms cap_ms n attempt_no state waits = Some (re_attempt env n, Suc n, waits)"
  using assms by (subst call_loop.simps) (auto simp: retries_def Let_def split: sum.splits)

lemma call_loop_step:
  assumes "retries env n" "\<not> max_retries < attempt_no + 1"
  obtains rnd where
    "rnd = cas_rounds (re_actuals env n) (seeded (re_seed env) state)"
    "\<And>waits. call_loop env max_retries base_ms cap_ms n attempt_no state waits =
       call_loop env max_retries base_ms cap_ms (Suc n) (attempt_no + 1) (Some rnd)
         (waits @ [(backoff_ms rnd (attempt_no + 1) base_ms cap_ms, backoff_sleep env n (backoff_ms rnd (attempt_no + 1) base_ms cap_ms))])"
  using assms by (intro that [OF refl], subst call_loop.simps) (auto simp: retries_def Let_def split: sum.splits)

definition wait_ok :: "'a retry_env \<Rightarrow> u64 \<Rightarrow> u64 \<Rightarrow> nat \<Rightarrow> u64 \<times> duration \<Rightarrow> bool" where
  "wait_ok env base_ms cap_ms i w \<longleftrightarrow>
     backoff_in_band i base_ms cap_ms (fst w) \<and> ((\<forall>k. \<not> re_stop env i k) \<longrightarrow> millis (unat (fst w)) \<le> snd w)"

lemma wait_ok_backoff:
  assumes "unat attempt_no = Suc i"
  shows "wait_ok env base_ms cap_ms i (backoff_ms rnd attempt_no base_ms cap_ms, backoff_sleep env i (backoff_ms rnd attempt_no base_ms cap_ms))"
  using backoff_band [of attempt_no base_ms cap_ms rnd] assms by (simp add: wait_ok_def backoff_sleep_def sleep_full)

lemma call_loop_exact:
  assumes "unat attempt_no = m" "m \<le> unat max_retries" "unat max_retries < 2 ^ 32 - 1"
  shows "\<exists>n w. call_loop env max_retries base_ms cap_ms m attempt_no state waits = Some (re_attempt env n, Suc n, waits @ w) \<and>
    m \<le> n \<and> n \<le> unat max_retries \<and> (\<forall>i. m \<le> i \<and> i < n \<longrightarrow> retries env i) \<and> (n < unat max_retries \<longrightarrow> \<not> retries env n) \<and>
    length w = n - m \<and> (\<forall>i < n - m. wait_ok env base_ms cap_ms (m + i) (w ! i))"
  using assms
proof (induction "unat max_retries - m" arbitrary: m attempt_no state waits)
  case 0
  have up: "unat (attempt_no + 1) = Suc m" using "0.prems" by (simp add: unat_word_ariths)
  have "max_retries < attempt_no + 1" using up 0 by (simp add: word_less_nat_alt)
  then show ?case using 0 by (intro exI [of _ m] exI [of _ "[]"]) (auto simp: call_loop_end)
next
  case (Suc d)
  have d: "d = unat max_retries - Suc m" "Suc m \<le> unat max_retries" using Suc.hyps(2) by simp_all
  have up: "unat (attempt_no + 1) = Suc m" using Suc.prems by (simp add: unat_word_ariths)
  show ?case
  proof (cases "retries env m")
    case False
    then show ?thesis using Suc.prems by (intro exI [of _ m] exI [of _ "[]"]) (auto simp: call_loop_end)
  next
    case True
    have "\<not> max_retries < attempt_no + 1" using up Suc.hyps(2) by (simp add: word_less_nat_alt)
    then obtain rnd where st: "\<And>waits. call_loop env max_retries base_ms cap_ms m attempt_no state waits =
       call_loop env max_retries base_ms cap_ms (Suc m) (attempt_no + 1) (Some rnd)
         (waits @ [(backoff_ms rnd (attempt_no + 1) base_ms cap_ms, backoff_sleep env m (backoff_ms rnd (attempt_no + 1) base_ms cap_ms))])"
      by (rule call_loop_step [OF True]) blast
    let ?b = "backoff_ms rnd (attempt_no + 1) base_ms cap_ms"
    let ?x = "(?b, backoff_sleep env m ?b)"
    obtain n w where IH: "call_loop env max_retries base_ms cap_ms (Suc m) (attempt_no + 1) (Some rnd) (waits @ [?x]) =
        Some (re_attempt env n, Suc n, (waits @ [?x]) @ w)" "Suc m \<le> n" "n \<le> unat max_retries"
      "\<forall>i. Suc m \<le> i \<and> i < n \<longrightarrow> retries env i" "n < unat max_retries \<longrightarrow> \<not> retries env n" "length w = n - Suc m"
      "\<forall>i < n - Suc m. wait_ok env base_ms cap_ms (Suc m + i) (w ! i)"
      using Suc.hyps(1) [OF d(1) up d(2) Suc.prems(3), of "Some rnd" "waits @ [?x]"] by blast
    have "wait_ok env base_ms cap_ms (m + i) ((?x # w) ! i)" if "i < n - m" for i
      using that IH(7) wait_ok_backoff [OF up] by (cases i) auto
    moreover have "retries env i" if "m \<le> i" "i < n" for i using that IH(4) True by (cases "i = m") auto
    ultimately show ?thesis using st IH by (intro exI [of _ n] exI [of _ "?x # w"]) auto
  qed
qed

text \<open>Claim C26 (retries). For fewer than 2^32 - 1 retries, \<open>call_with_retry\<close> returns. It calls the closure until the first
  success, the first error that is not transient or \<open>1 + max_retries\<close> calls, and returns the result of the last call. It
  waits between the calls only: each backoff lies in the band of its retry, and, unless Ctrl-C is pressed, the wait is at
  least as long.\<close>

theorem retry_exact:
  assumes "unat max_retries < 2 ^ 32 - 1"
  shows "\<exists>n waits. call_with_retry env var state max_retries base_ms cap_ms = Some (re_attempt env n, Suc n, waits) \<and>
    n \<le> unat max_retries \<and> (\<forall>i < n. retries env i) \<and> (n < unat max_retries \<longrightarrow> \<not> retries env n) \<and>
    length waits = n \<and> (\<forall>i < n. wait_ok env (effective_base_ms var base_ms) cap_ms i (waits ! i))"
  using call_loop_exact [of 0 0 max_retries env "effective_base_ms var base_ms" cap_ms state "[]"] assms
  unfolding call_with_retry_def by simp

lemma call_loop_interrupted:
  assumes "unat attempt_no = m" "m \<le> unat max_retries" "unat max_retries < 2 ^ 32 - 1" "map fst waits' = map fst waits"
    "\<forall>x \<in> set waits'. snd x = 0"
  shows "\<exists>r n w w'. call_loop env max_retries base_ms cap_ms m attempt_no state waits = Some (r, n, w) \<and>
    call_loop (env\<lparr>re_stop := \<lambda>_ _. True\<rparr>) max_retries base_ms cap_ms m attempt_no state waits' = Some (r, n, w') \<and>
    map fst w' = map fst w \<and> (\<forall>x \<in> set w'. snd x = 0)"
  using assms
proof (induction "unat max_retries - m" arbitrary: m attempt_no state waits waits')
  case 0
  have "unat (attempt_no + 1) = Suc m" using "0.prems" by (simp add: unat_word_ariths)
  then have "max_retries < attempt_no + 1" using 0 by (simp add: word_less_nat_alt)
  then show ?case using 0 by (simp add: call_loop_end)
next
  case (Suc d)
  have d: "d = unat max_retries - Suc m" "Suc m \<le> unat max_retries" using Suc.hyps(2) by simp_all
  let ?env = "env\<lparr>re_stop := \<lambda>_ _. True\<rparr>"
  have up: "unat (attempt_no + 1) = Suc m" using Suc.prems by (simp add: unat_word_ariths)
  have same: "retries ?env m = retries env m" by (simp add: retries_def)
  show ?case
  proof (cases "retries env m")
    case False
    then show ?thesis using Suc.prems by (simp add: call_loop_end same)
  next
    case True
    have le: "\<not> max_retries < attempt_no + 1" using up Suc.hyps(2) by (simp add: word_less_nat_alt)
    let ?rnd = "cas_rounds (re_actuals env m) (seeded (re_seed env) state)"
    let ?b = "backoff_ms ?rnd (attempt_no + 1) base_ms cap_ms"
    have s1: "call_loop env max_retries base_ms cap_ms m attempt_no state waits =
       call_loop env max_retries base_ms cap_ms (Suc m) (attempt_no + 1) (Some ?rnd) (waits @ [(?b, backoff_sleep env m ?b)])"
      by (rule call_loop_step [OF True le, of state]) simp
    have s2: "call_loop ?env max_retries base_ms cap_ms m attempt_no state waits' =
       call_loop ?env max_retries base_ms cap_ms (Suc m) (attempt_no + 1) (Some ?rnd) (waits' @ [(?b, backoff_sleep ?env m ?b)])"
      by (rule call_loop_step [of ?env m max_retries attempt_no state]) (simp_all add: same True le)
    have "backoff_sleep ?env m ?b = 0" unfolding backoff_sleep_def by (rule sleep_stopped) simp
    then show ?thesis unfolding s1 s2 using Suc.prems(4, 5) by (intro Suc.hyps(1) [OF d(1) up d(2) Suc.prems(3)]) auto
  qed
qed

text \<open>Ctrl-C does not end the retries. A set interrupt flag ends the waits at once and nothing else: the loop
  makes as many calls, one after the other, and returns the same result as if the flag had not been set.\<close>

theorem interrupt_keeps_retrying:
  assumes "unat max_retries < 2 ^ 32 - 1"
  shows "\<exists>r n waits waits'. call_with_retry env var state max_retries base_ms cap_ms = Some (r, n, waits) \<and>
    call_with_retry (env\<lparr>re_stop := \<lambda>_ _. True\<rparr>) var state max_retries base_ms cap_ms = Some (r, n, waits') \<and>
    map fst waits' = map fst waits \<and> (\<forall>x \<in> set waits'. snd x = 0)"
  unfolding call_with_retry_def using assms by (intro call_loop_interrupted) simp_all

section \<open>Bodies and path components\<close>

lemma floor_char_boundary_le: "floor_char_boundary s n \<le> n \<and> is_char_boundary s (floor_char_boundary s n)"
  by (induction n) (auto simp: is_char_boundary_def)

text \<open>Error bodies are bounded. Whatever the control plane answers, an error holds at most 4096 bytes of the
  body and the 15 bytes of the mark; a body is cut at the end of a character only.\<close>

theorem error_body_bounded:
  "(check_response show_status resp = Some (Rejected status body) \<longrightarrow> length body \<le> 4111) \<and>
   (\<exists>n \<le> 4096. is_char_boundary s n \<and> (truncate_body s = s \<and> length s \<le> 4096 \<or> truncate_body s = take n s @ ''... [truncated]''))"
proof -
  have cut: "\<exists>n \<le> 4096. is_char_boundary s n \<and> (truncate_body s = s \<and> length s \<le> 4096 \<or> truncate_body s = take n s @ ''... [truncated]'')" for s
  proof (cases "length s \<le> 4096")
    case True
    then show ?thesis by (intro exI [of _ "length s"]) (simp add: truncate_body_def MAX_ERR_BODY_def is_char_boundary_def)
  next
    case False
    then show ?thesis using floor_char_boundary_le [of s 4096]
      by (intro exI [of _ "floor_char_boundary s 4096"]) (simp add: truncate_body_def MAX_ERR_BODY_def)
  qed
  have "length (truncate_body s) \<le> 4111" for s
  proof -
    obtain n where "n \<le> 4096" "truncate_body s = s \<and> length s \<le> 4096 \<or> truncate_body s = take n s @ ''... [truncated]''"
      using cut [of s] by blast
    then show ?thesis by auto
  qed
  then show ?thesis using cut by (auto simp: check_response_def Let_def split: if_splits)
qed

lemma char_eq_code: "c = d \<longleftrightarrow> (of_char c :: nat) = of_char d"
  by simp

lemma invalid_char_iff: "invalid_char c \<longleftrightarrow> \<not> (0x20 < (of_char c :: nat) \<and> (of_char c :: nat) < 0x7F \<and>
    c \<notin> set [CHR ''/'', CHR 0x5C, CHR ''?'', CHR ''#'', CHR ''&'', CHR ''='', CHR ''+'', CHR ''%''])"
proof -
  have codes: "of_char (CHR ''/'') = (47 :: nat)" "of_char (CHR 0x5C) = (92 :: nat)" "of_char (CHR 0x00) = (0 :: nat)"
    "of_char (CHR ''?'') = (63 :: nat)" "of_char (CHR ''#'') = (35 :: nat)" "of_char (CHR ''&'') = (38 :: nat)"
    "of_char (CHR ''='') = (61 :: nat)" "of_char (CHR ''+'') = (43 :: nat)" "of_char (CHR ''%'') = (37 :: nat)"
    "of_char (CHR '' '') = (32 :: nat)" "of_char (CHR 0x09) = (9 :: nat)" "of_char (CHR 0x0A) = (10 :: nat)"
    "of_char (CHR 0x0D) = (13 :: nat)" by simp_all
  show ?thesis
    unfolding invalid_char_def is_control_def list.set insert_iff empty_iff char_eq_code [of c] codes by arith
qed

text \<open>Path components. The check accepts exactly the non-empty strings of printable ASCII characters other than
  \<open>/ \ ? # & = + %\<close> and the space that have no two dots in a row. It accepts more than the letters, digits and
  \<open>. _ ~ -\<close> that its comment names, among them the single dot, which a URL parser drops from a path.\<close>

theorem path_component_exact:
  "(validate_path_component name val = None \<longleftrightarrow>
      val \<noteq> [] \<and> \<not> sublist ''..'' val \<and>
      (\<forall>c \<in> set val. 0x20 < (of_char c :: nat) \<and> (of_char c :: nat) < 0x7F \<and>
         c \<notin> set [CHR ''/'', CHR 0x5C, CHR ''?'', CHR ''#'', CHR ''&'', CHR ''='', CHR ''+'', CHR ''%''])) \<and>
   validate_path_component name ''.'' = None \<and> validate_path_component name ''a:b@c'' = None"
proof -
  have "validate_path_component name val = None \<longleftrightarrow> val \<noteq> [] \<and> \<not> sublist ''..'' val \<and> (\<forall>c \<in> set val. \<not> invalid_char c)"
    by (auto simp: validate_path_component_def list_ex_iff)
  moreover have "validate_path_component name ''.'' = None" "validate_path_component name ''a:b@c'' = None"
    by (simp_all add: validate_path_component_def invalid_char_def is_control_def sublist_code)
  ultimately show ?thesis by (simp only: invalid_char_iff not_not simp_thms)
qed

section \<open>Listings\<close>

text \<open>\<open>page_chain\<close>: the control plane answers with these pages, each but the last with a cursor to the next.\<close>

fun page_chain :: "(nat \<Rightarrow> string option \<Rightarrow> 'e + 'i list \<times> string option) \<Rightarrow> nat \<Rightarrow> string option \<Rightarrow> 'i list list \<Rightarrow> bool" where
  "page_chain fetch k c [] \<longleftrightarrow> False"
| "page_chain fetch k c (items # pages) \<longleftrightarrow>
     (if pages = [] then fetch k c = Inr (items, None)
      else \<exists>c'. c' \<noteq> [] \<and> fetch k c = Inr (items, Some c') \<and> page_chain fetch (Suc k) (Some c') pages)"

lemma walk_chain:
  assumes "page_chain fetch k c pages" and "stop_at_empty \<Longrightarrow> \<forall>p \<in> set pages. p \<noteq> []"
  shows "walk_pages stop_at_empty fetch rounds k c all = Inr (all @ concat (take rounds pages))"
  using assms
proof (induction pages arbitrary: rounds k c all)
  case (Cons items pages)
  show ?case
  proof (cases rounds)
    case (Suc r)
    show ?thesis
    proof (cases "pages = []")
      case True
      then show ?thesis using Cons.prems Suc by simp
    next
      case False
      then obtain c' where c: "c' \<noteq> []" "fetch k c = Inr (items, Some c')" "page_chain fetch (Suc k) (Some c') pages"
        using Cons.prems(1) by auto
      have "walk_pages stop_at_empty fetch r (Suc k) (Some c') (all @ items) = Inr ((all @ items) @ concat (take r pages))"
        using Cons.prems(2) by (intro Cons.IH [OF c(3)]) simp
      then show ?thesis using c(1, 2) Cons.prems(2) Suc by (auto simp: Let_def)
    qed
  qed simp
qed simp

text \<open>Listings are complete up to a thousand pages. When the control plane answers with a chain of pages, the
  walkers return the items of the first thousand of them, in order; the walk along the logs needs pages that are not
  empty.\<close>

theorem listings_exact:
  assumes "page_chain fetch 0 None pages"
  shows "list_all_apps fetch = Inr (concat (take 1000 pages)) \<and> list_all_deployments fetch = Inr (concat (take 1000 pages)) \<and>
    ((\<forall>p \<in> set pages. p \<noteq> []) \<longrightarrow> list_all_logs fetch = Inr (concat (take 1000 pages)))"
  unfolding list_all_apps_def list_all_deployments_def list_all_logs_def MAX_PAGES_def
  using walk_chain [OF assms, of False 1000 "[]"] walk_chain [OF assms, of True 1000 "[]"] by simp

section \<open>Examples\<close>

definition flaky_env :: "nat retry_env" where
  "flaky_env = \<lparr>re_attempt = \<lambda>n. if n < 2 then Inl [OtherCause ''deploy failed'', ApiCause (Transient ''503'')] else Inr 7,
     re_seed = 42, re_actuals = \<lambda>_. [], re_stop = \<lambda>_ _. False, re_gap = \<lambda>_ _. 0, re_late = \<lambda>_ _. 0\<rparr>"

theorem retry_exact_witness:
  "\<exists>waits. call_with_retry flaky_env None None DEFAULT_MAX_RETRIES DEFAULT_RETRY_BASE_MS DEFAULT_RETRY_CAP_MS =
      Some (Inr 7, 3, waits) \<and> length waits = 2 \<and> wait_ok flaky_env DEFAULT_RETRY_BASE_MS DEFAULT_RETRY_CAP_MS 1 (waits ! 1)"
proof -
  have "unat DEFAULT_MAX_RETRIES < 2 ^ 32 - 1" by (simp add: DEFAULT_MAX_RETRIES_def)
  from retry_exact [OF this, of flaky_env None None DEFAULT_RETRY_BASE_MS DEFAULT_RETRY_CAP_MS] obtain n waits
    where r: "call_with_retry flaky_env None None DEFAULT_MAX_RETRIES DEFAULT_RETRY_BASE_MS DEFAULT_RETRY_CAP_MS =
        Some (re_attempt flaky_env n, Suc n, waits)"
      "n \<le> 3" "\<forall>i < n. retries flaky_env i" "n < 3 \<longrightarrow> \<not> retries flaky_env n"
      "length waits = n" "\<forall>i < n. wait_ok flaky_env DEFAULT_RETRY_BASE_MS DEFAULT_RETRY_CAP_MS i (waits ! i)"
    by (auto simp: effective_base_ms_def DEFAULT_MAX_RETRIES_def)
  have "retries flaky_env i \<longleftrightarrow> i < 2" for i by (simp add: retries_def flaky_env_def is_retryable_def)
  with r(2-4) have "n = 2" by (metis less_antisym nat_neq_iff numeral_3_eq_3 numeral_2_eq_2 less_Suc_eq_le not_less)
  with r show ?thesis by (auto simp: flaky_env_def)
qed

theorem interrupt_keeps_retrying_witness:
  "\<exists>r n waits waits'. call_with_retry flaky_env None None 3 500 8000 = Some (r, n, waits) \<and>
    call_with_retry (flaky_env\<lparr>re_stop := \<lambda>_ _. True\<rparr>) None None 3 500 8000 = Some (r, n, waits') \<and>
    map fst waits' = map fst waits \<and> (\<forall>x \<in> set waits'. snd x = 0)"
  by (rule interrupt_keeps_retrying) simp

definition two_pages :: "nat \<Rightarrow> string option \<Rightarrow> string + nat list \<times> string option" where
  "two_pages k c = (if c = None then Inr ([1, 2], Some ''c1'') else Inr ([3], None))"

theorem listings_exact_witness:
  "list_all_apps two_pages = Inr [1, 2, 3] \<and> list_all_logs two_pages = Inr [1, 2, 3]"
  using listings_exact [of two_pages "[[1, 2], [3]]"] by (simp add: two_pages_def)

end
