(* ===== verification/Spec2Isabelle.thy ===== *)
theory Spec2Isabelle
  imports Ingress_Push Ingress_Domains Sidecar_Aggregate Runtime_Kv Runtime_Cache Runtime_Scheduling Runtime_WebSocket
    Runtime_Observe Worker_Logs Worker_Lifecycle Worker_Dispatch Worker_Enrollment Cli_Client
begin

text \<open>
  \<^bold>\<open>Edgecloud: ingress, worker, runtime and command line\<close>

  \<^bold>\<open>The program.\<close> Edgecloud runs WebAssembly apps of many tenants on workers and serves them through
  Caddy. Its Rust crates interact as follows. A worker (\<open>edge-worker\<close>) receives the wanted apps of a
  tenant in task messages, downloads and verifies their artifacts, runs them on ports of its
  \<open>PortPool\<close>, restarts them when they crash, forwards their logs (through a file spool,
  \<open>edge-spool\<close>, when the control plane is down) and publishes heartbeats over NATS. The runtime
  (\<open>edge-runtime\<close>) is what a running app talks to: key-value store, cache and scheduler of its tenant,
  outgoing HTTP and sockets under an egress policy, WebSocket servers, logs and metrics, and the meters
  the heartbeats carry. The ingress
  (\<open>edge-ingress\<close>) subscribes to the heartbeats, keeps an HTTP routing table, an L4 (TCP) routing table
  and a pool of public L4 ports, polls the control plane for custom domains, traffic splits, rate
  limits, quotas and assigned L4 ports, renders all of it into one JSON document and pushes it to
  Caddy's admin API, fully or as a diff. A sidecar (\<open>edge-ingress-sidecar\<close>) of each ingress replica
  scrapes Caddy's request counter, shares the rate with the other replicas over NATS and tells its
  ingress which share of the platform-wide cap it may use. The command line (\<open>edge-cli\<close>) deploys apps
  and follows their logs through the control plane's API. The control plane itself is written in Go;
  its enrolment of workers is modelled, the rest is an argument of the definitions
  that call it.

  \<^bold>\<open>Theories and sources.\<close> Paths are relative to \<open>src/\<close>.

    \<^item> \<open>Edge_Prelude\<close>: machine words, the clock, hash maps as association lists with distinct keys,
      decimal printing and parsing, \<open>split_once\<close>, JSON values; the lemma collection \<open>hm_simps\<close>.
    \<^item> \<open>Ingress_Config\<close>: \<open>edge-ingress/src/config.rs\<close> - \<open>Config\<close>, \<open>from_env\<close>, \<open>validate\<close>, the host name
      of an app. The environment and the parser of durations are arguments.
    \<^item> \<open>Ingress_Store\<close>: the contract \<open>route_store\<close> both routing tables promise.
    \<^item> \<open>Ingress_Routing\<close>: \<open>edge-ingress/src/routing.rs\<close> - the HTTP table (\<open>routing_table\<close>) and the domain
      bindings; interprets \<open>route_store\<close> as \<open>http\<close>.
    \<^item> \<open>Ingress_L4\<close>: \<open>edge-ingress/src/l4.rs\<close> - the L4 table, which interprets \<open>route_store\<close> as \<open>l4\<close>, and
      \<open>L4PortPool\<close>, which interprets the contract \<open>port_pool\<close> as \<open>lp\<close>.
    \<^item> \<open>Ingress_Caches\<close>: \<open>ratelimit.rs\<close>, \<open>tenant_ratelimit.rs\<close>, \<open>quota.rs\<close>, \<open>traffic.rs\<close>, \<open>l4_cache.rs\<close> and
      \<open>global_rps.rs\<close>. The five fetchers interpret the contract \<open>tick_fetcher\<close> (\<open>rl\<close>, \<open>tc\<close>, \<open>qc\<close>, \<open>tsc\<close>,
      \<open>lc\<close>).
    \<^item> \<open>Ingress_Heartbeats\<close>: the heartbeat types of \<open>edge-worker/src/messages.rs\<close>; \<open>apply_heartbeat\<close> and
      the pruner of \<open>edge-ingress/src/heartbeats.rs\<close>; the state \<open>ingress\<close> and the step relation \<open>ig_step\<close>
      of its tasks.
    \<^item> \<open>Ingress_Client\<close>, \<open>Ingress_Render\<close>: \<open>edge-ingress/src/caddy.rs\<close> - the admin client with its retry
      loops, and \<open>render_routes\<close>, \<open>render_l4_routes\<close>, \<open>render_full\<close>, cut into one definition per kind of
      route.
    \<^item> \<open>Ingress_Push\<close>: the diffs of \<open>caddy.rs\<close> and \<open>push_now\<close>, the single-route renderers and the renderer
      task of \<open>heartbeats.rs\<close>.
    \<^item> \<open>Ingress_Domains\<close>: \<open>edge-ingress/src/domains.rs\<close> - the poller of custom domains.
    \<^item> \<open>Sidecar_Aggregate\<close>: \<open>aggregate.rs\<close>, and the pure parts of \<open>caddy_metrics.rs\<close>, \<open>nats_sub.rs\<close> and
      \<open>expose.rs\<close> of \<open>edge-ingress-sidecar/src\<close>.
    \<^item> \<open>Runtime_Egress\<close>: \<open>egress.rs\<close>, \<open>socket_egress.rs\<close>, \<open>egress_transport.rs\<close> of \<open>edge-runtime/src\<close> and
      the outgoing-request hook of \<open>runtime.rs\<close>.
    \<^item> \<open>Runtime_Kv\<close>, \<open>Runtime_Cache\<close>, \<open>Runtime_Scheduling\<close>: \<open>interfaces/kv_store.rs\<close>, \<open>cache.rs\<close> and
      \<open>scheduling.rs\<close>, with their files.
    \<^item> \<open>Runtime_State\<close>: \<open>metering.rs\<close>, \<open>interfaces/process.rs\<close>, the path checks of \<open>interfaces/mod.rs\<close>,
      and of \<open>runtime.rs\<close> the registries of stores, \<open>purge_tenant\<close> and the state of a guest.
    \<^item> \<open>Runtime_WebSocket\<close>: \<open>interfaces/websocket.rs\<close> - the handshake, frames and messages over TCP streams,
      the handles of listeners and connections.
    \<^item> \<open>Runtime_Observe\<close>: \<open>interfaces/observe.rs\<close> - metrics and log records - and the samples that
      \<open>build_heartbeat\<close> of \<open>supervisor.rs\<close> makes of the metrics.
    \<^item> \<open>Edge_Spool\<close>: \<open>edge-spool/src/lib.rs\<close> - append, drain, rotate over the contents of the two files.
    \<^item> \<open>Worker_Util\<close>: \<open>port_pool.rs\<close>, \<open>backoff.rs\<close>, \<open>metering_dedupe.rs\<close> and \<open>detect.rs\<close> of
      \<open>edge-worker/src\<close>.
    \<^item> \<open>Worker_Logs\<close>: \<open>log_forwarder.rs\<close>.
    \<^item> \<open>Worker_Download\<close>: \<open>verifier.rs\<close> and \<open>downloader.rs\<close>.
    \<^item> \<open>Worker_Messages\<close>: the task messages of \<open>messages.rs\<close> and the policies \<open>supervisor.rs\<close> makes of them.
    \<^item> \<open>Worker_Supervisor\<close>: \<open>state.rs\<close> and the operations of \<open>supervisor.rs\<close>; \<open>Worker_Lifecycle\<close>: their
      properties, up to what the ingress makes of a worker's heartbeat.
    \<^item> \<open>Worker_Dispatch\<close>: \<open>dispatch.rs\<close>, and \<open>StandbyPool\<close> and \<open>evict_idle_apps\<close> of \<open>supervisor.rs\<close>.
    \<^item> \<open>Edge_Bytes\<close>: strings as bytes, UTF-8 and big-endian numbers.
    \<^item> \<open>Worker_Auth\<close>: \<open>worker_key.rs\<close> and \<open>auth.rs\<close>; \<open>Control_Enrollment\<close>: the handlers of the control plane
      (in Go) that enrol a worker and verify its tokens; \<open>Worker_Enrollment\<close>: \<open>bootstrap.rs\<close>,
      \<open>jwt_refresh.rs\<close>, \<open>resolve_jwt_secret\<close> of \<open>main.rs\<close>, and both sides of the enrolment together.
    \<^item> \<open>Cli_Logs\<close>: \<open>commands/logs.rs\<close> of \<open>edge-cli/src\<close> - following a log, timestamps. \<open>Cli_Client\<close>:
      \<open>commands/retry.rs\<close>, \<open>commands/state_io.rs\<close>, \<open>api/path.rs\<close> and the errors and listings of
      \<open>api/client.rs\<close>.

  \<^bold>\<open>Conventions.\<close> A struct is a record, an enum a datatype, \<open>u8\<close> to \<open>u64\<close> are words. An \<open>Instant\<close> and a
  \<open>Duration\<close> count nanoseconds; each reading of the clock is an argument \<open>now\<close>.
  A call that may panic has the type \<open>outcome\<close>: the value it returned, or \<open>CallPanics\<close>, next to the state
  it leaves. The kind of thread that makes a call of a store (\<open>thread_kind\<close>) is part of its environment. A method with \<open>&mut self\<close>
  returns the new state. The iteration order of a hash map is the order of its association list;
  the properties speak of sets, multisets or lookups where the order is not determined. A raise or an
  early return is a value of an error type. The answers of the network, the file system, Wasmtime and
  the cryptographic libraries are arguments, gathered in a record where there are many (\<open>net_env\<close>,
  \<open>file_env\<close>, \<open>crypto\<close>, \<open>start_env\<close>, \<open>purge_env\<close>). Metrics, logging and the shutdown token have no
  definition, except where a loop's result depends on the token.

  \<^bold>\<open>What the lemmas show.\<close>

    \<^item> Configuration: which environments are accepted, and what a loaded configuration guarantees.
    \<^item> Tables: insert and lookup, what removal by worker and by age keeps, and that an entry survives
      every operation that does not concern it - proved once in \<open>route_store\<close>.
    \<^item> Ports: \<open>acquire\<close> walks the whole range and is exact, no port is reused within its cooldown, and
      in every reachable state of the ingress the public ports of the L4 routes are distinct, under
      a stated condition on the ports assigned by the control plane. Three theorems state where the
      code loses ports or hands one out twice.
    \<^item> Caches of the ingress: the value of every key after one tick, on every answer of the control
      plane, and that the cross-replica cap fails closed.
    \<^item> Heartbeats: the frame of a message, the route a message leaves behind, the final heartbeat and
      the prune tick.
    \<^item> Rendering: the order of the route list that the index arithmetic builds, which route serves
      which host (with Caddy's first-match rule and the regular-expression engine as an argument), the
      upstreams and weights of an app, the L4 servers, and the merged document.
    \<^item> Pushing: the diff is complete, a failed push is followed by a full reload, the retry loops and
      the encoding of ids; two theorems state which changes an incremental push does not carry.
    \<^item> Sidecar: the window of rates, the cap of a replica without overflow, the rate of a scrape.
    \<^item> Egress: exactly which requests leave a guest and which addresses are dialled; which socket
      operations each mode permits; the ranges of the hard deny list.
    \<^item> Stores: every history of operations of the key-value store, on whatever threads and with whatever
      failures of the disk, answers like a map with deadlines, and its file is the map at the last flush
      that worked; the cache is a bounded part of such a map; a write of a persistent store from a
      thread that drives the runtime panics; what one pass of the scheduler keeps; two invocations
      have the same stores only when tenant and preview are the same, whatever ran and was purged in
      between; what a purge clears, and where it stops when it panics.
    \<^item> WebSockets: the messages of a client are delivered whole and in order, whatever their parts and
      interleaved pings; the handshake answers exactly the requests it should; handles are unique; and
      three theorems on a frame split over two reads, a frame header that poisons the lock of the
      connections and a client that stays silent.
    \<^item> Metrics and log records: the samples of a heartbeat after every history of calls, and how many
      records of a burst the rate limit lets through.
    \<^item> Spool and logs: a drain returns exactly the newest lines within its limit and keeps the others,
      rotation drops a shortest prefix of lines; each log entry is delivered, dropped for a stated
      reason, in the spool or cut off by an append that failed half way; what a replay sends and puts
      back; what a torn line does to the next drain.
    \<^item> Artifacts: what is returned was signed for this deployment, the download ends after at most
      three attempts with a stated result, a good artifact becomes available, the keyring file round
      trip.
    \<^item> Supervisor: reconciliation reaches exactly the wanted apps, a started app runs signed code
      (unless a compiled file is found), what failed starts do with ports, the restart loop, the purge
      of a tenant, metering across heartbeats and how a restart wraps a meter, the invariant of the map of apps, and the routes that
      the ingress derives from a worker's heartbeat.
    \<^item> Dispatch: what each request adds to the meters, which error bodies are made, when a cold start
      waits for ever, what a failed one loses, and what the idle eviction takes.
    \<^item> Credentials: the identity record is read exactly as written and survives a crash, tokens are fresh
      and never mix two secrets, an enrolled worker is accepted, a challenge serves once, and what a new
      worker, a late call of \<open>sign\<close> and a concurrent rotation run into.
    \<^item> Command line: \<open>--follow\<close> prints each row once while timestamps grow, and prints two rows of one
      timestamp for ever when one comes late; timestamps round trip; the retry loop ends with the stated
      result, waits and calls, and is not ended by Ctrl-C; its generator is a permutation; which path
      components pass and what the listings return.
    \<^item> This theory: the properties that span components - from the environment to the L4 servers, from
      a heartbeat to the route Caddy gets, from a sidecar snapshot to the rendered cap.

  \<^bold>\<open>Bounds.\<close> No definition has artificial fuel. \<open>lp_acquire_loop\<close> recurses on the number of attempts the
  code allows itself, the length of the range; the walk is proved to visit every port in that many
  steps. \<open>wp_fallback\<close> has the 1000 attempts of the source. \<open>retry_loop\<close> and \<open>fetch_loop\<close> recurse on the
  attempts the source allows. \<open>find_last_newline_loop\<close> and \<open>rotate_loop\<close> recurse on the bytes that are
  left. \<open>walk_pages\<close> recurses on the pages the source allows. \<open>receive_loop\<close>, \<open>read_request\<close>, \<open>drain\<close>,
  \<open>run_follow\<close> and \<open>call_loop\<close> may run for ever in the source and have the value \<open>None\<close> then; that they return, or do
  not, is stated by the theorems. \<open>poller_loop\<close>, \<open>run_recv_loop\<close>, \<open>run_app_loop\<close>, the histories of the stores and the step relations
  consume a finite history of events; the properties hold for every such history.

  \<^bold>\<open>Hypotheses on code outside the model.\<close> \<open>re2_on_tenants\<close>: the regular expressions of the tenant
  matchers match the hosts that RE2 matches, for tenant ids without characters that RE2 interprets.
  \<open>plain_id\<close>, \<open>tenants_apart\<close>: the tenant ids in a routing table are such ids, and none with a hyphen
  after it begins another; the ids issued by the control plane satisfy both. \<open>steady\<close>: the wall clock
  and the monotonic clock of the token signer differ by a constant up to a bounded gap. \<open>answers_from\<close>: the control plane answers a port request
  from its persisted assignment. \<open>cp_apart\<close>: assigned ports are distinct and outside the range of the
  local pool. \<open>codec_ok\<close>, \<open>json_lines\<close>: what is written as JSON is read back, and a JSON line holds no
  newline. \<open>lru_ok\<close>: the documented behaviour of the \<open>lru\<close> crate. \<open>kit_ok\<close>: the documented
  behaviour of the codecs, signatures and tokens of the enrolment. \<open>unforgeable\<close>: a verified signature
  was made by the holder of the key. \<open>f64_rounding\<close>: small integers are exact in floating point.
  \<open>serves\<close>, \<open>log_of\<close>, \<open>page_chain\<close>: the control plane answers with the pages of the rows it has.
  Each is shown to be satisfiable by an instance.

  \<^bold>\<open>Not modelled.\<close> The network and process layers (NATS, \<open>reqwest\<close>, sockets, signals, \<open>main.rs\<close>), the
  Prometheus text parser of the sidecar (\<open>f64\<close> parsing), the accept loop of the worker,
  the Wasmtime configuration, the clock of the runtime, the commands of the command line that only
  call compilers, endpoints and files, the migration tool, the JavaScript runtimes, the rest of the Go control plane and the Caddy modules in Go.
\<close>

section \<open>From the environment to the L4 servers\<close>

text \<open>Claim C40 (every L4 route has its own server). Start the ingress from any accepted environment and
  let its tasks run in any interleaving, with a control plane whose assigned ports are distinct and
  outside the range of the pool. Then the layer-4 tree rendered from the table has exactly one server
  per route, and the server of a route listens on the public port of that route and no other.\<close>

theorem l4_routes_have_own_servers:
  assumes "from_env humantime env = Inr cfg" and "cp_apart cfg cp" and "ig_reachable cfg cp s"
  shows "\<forall>e \<in> set (l4_snapshot (ig_l4_table s)).
      hm_get (l4_servers q (l4_snapshot (ig_l4_table s))) (server_id e) = Some (l4_server q e) \<and>
      (\<forall>e' \<in> set (l4_snapshot (ig_l4_table s)). server_id e' = server_id e \<longrightarrow> e' = e)"
proof -
  have "ig_inv cfg cp s"
    using ig_inv_reachable [OF assms(3) from_env_config_ok [OF assms(1)] assms(2)] .
  then have inv: "l4_inv (ig_l4_table s)"
    and inj: "inj_on le_public_port (set (l4_snapshot (ig_l4_table s)))"
    by (auto simp: ig_inv_def core_inv_def l4_hold_def lp.hold_ok_def)
  then have "distinct (map le_public_port (l4_snapshot (ig_l4_table s)))"
    by (simp add: distinct_map distinct_l4_snapshot)
  with inj show ?thesis
    by (auto simp: l4_servers_get server_id_inj dest: inj_onD)
qed

definition sample_env :: env where
  "sample_env n =
     (if n = ''INGRESS_REGION'' then Some ''eu'' else if n = ''TLS_CERT_FILE'' then Some ''cert.pem''
      else if n = ''TLS_KEY_FILE'' then Some ''key.pem'' else None)"

theorem l4_routes_have_own_servers_witness:
  "hm_get (l4_servers \<lparr>qc_inner = []\<rparr> (l4_snapshot (ig_l4_table
       (ig_heartbeat 7 (sample_hb ''10.0.0.5'' [(''db'', sample_app ''t_a'' ''tcp'' 9000 ''running'')])
         (ig_init (config_of_env (\<lambda>_. None) sample_env ''eu'' ''cert.pem'' ''key.pem'' 31000 31999))))))
     ''l4_31000'' =
   Some (l4_server \<lparr>qc_inner = []\<rparr> (l4_entry 7 ''t_a'' ''db'' 31000 ''10.0.0.5'' 9000))"
proof -
  let ?cfg = "config_of_env (\<lambda>_. None) sample_env ''eu'' ''cert.pem'' ''key.pem'' 31000 31999"
  let ?s = "ig_heartbeat 7 (sample_hb ''10.0.0.5''
      [(''db'', sample_app ''t_a'' ''tcp'' 9000 ''running'')]) (ig_init ?cfg)"
  let ?e = "l4_entry 7 ''t_a'' ''db'' 31000 ''10.0.0.5'' 9000"
  have "from_env (\<lambda>_. None) sample_env = Inr ?cfg"
    by (simp add: from_env_def sample_env_def Let_def env_or_def env_num_def word_less_nat_alt)
  moreover have "cp_apart ?cfg (\<lambda>_. None)" by (simp add: cp_apart_def)
  moreover have "ig_reachable ?cfg (\<lambda>_. None) ?s"
    by (rule ig_reachable.step [OF ig_reachable.init ig_step.heartbeat])
  ultimately have own: "\<forall>e \<in> set (l4_snapshot (ig_l4_table ?s)).
      hm_get (l4_servers \<lparr>qc_inner = []\<rparr> (l4_snapshot (ig_l4_table ?s))) (server_id e) =
      Some (l4_server \<lparr>qc_inner = []\<rparr> e)"
    using l4_routes_have_own_servers by blast
  have "lp_acquire 7 (lp_new 31000 31999 (l4_port_cooldown_secs ?cfg)) =
      (Some 31000, (lp_new 31000 31999 (l4_port_cooldown_secs ?cfg))\<lparr>lp_next_port := 31001, lp_taken := {31000}\<rparr>)"
    by (simp add: lp_eval)
  then have "?e \<in> set (l4_snapshot (ig_l4_table ?s))"
    by (simp add: hb_eval ig_init_def l4_new_def lc_new_def l4_entry_def l4_snapshot_def hm_values_def
        hm_insert_def hm_contains_def)
  moreover have "server_id ?e = ''l4_31000''"
    by (simp add: server_id_def l4_entry_def dec.simps digit_char_def char_of_def bit_numeral_rec bit_0)
  ultimately show ?thesis using own by (metis (no_types))
qed

section \<open>From a heartbeat to the route that serves the app\<close>

text \<open>Claim C1 (a reported app is served). After a heartbeat that reports a running or draining HTTP app,
  the list rendered from the table serves the app's public host: at the 402 block when its tenant is
  over its cap and the name holds no dot, otherwise at the route of the app, and the upstreams of
  that route include the address and port the heartbeat reported. No later app of the same heartbeat
  may have a main or WebSocket route under the same tenant, name and deployment: it would replace the
  entry. The tenant ids of the
  table hold only letters, digits, hyphens and underscores, and no id with a hyphen after it begins
  another one, as for the ids that the control plane issues.\<close>

theorem heartbeat_reaches_caddy:
  assumes "hb_worker_addr hb = Some addr" and "addr \<noteq> []"
    and "hb_apps hb = before @ (key, app) # later" and "split_app_key key = (name, did)"
    and "app_protocol app \<noteq> ''tcp''" and "\<forall>ka \<in> set later. http_key (key, app) \<notin> http_touches ka"
    and "rt_inv rt" and "routable (as_status app)"
    and "rt' = hb_table (apply_heartbeat now cache hb (rt, t, p))"
    and "re2_on_tenants rx" and "\<forall>e \<in> set (rt_snapshot rt'). plain_id (re_tenant_id e)"
    and "tenants_apart (re_tenant_id ` set (rt_snapshot rt'))"
  shows "serving_route rx (render_route_list now' (rt_snapshot rt') fqdns cfg cs)
      (ingress_host (as_tenant_id app) name) =
    Some (if is_over_cap (c_quota cs) (as_tenant_id app) \<and> name \<noteq> [] \<and> CHR ''.'' \<notin> set name
          then quota_402_route (as_tenant_id app)
          else app_route cfg (c_traffic cs) (c_rate_limit cs) (rt_snapshot rt') (as_tenant_id app, name)) \<and>
    (\<exists>e \<in> set (group_sorted (rt_snapshot rt') (as_tenant_id app, name)).
       re_worker_addr e = addr \<and> re_port e = as_port app \<and> re_deployment_id e = did)"
proof -
  let ?e = "upsert_entry now (as_tenant_id app) name did 100 addr (as_port app) (as_status app)"
  have "rt_lookup rt' (entry_key ?e) = Some ?e"
    using heartbeat_route_lookup [OF assms(1-7), of now cache t p] assms(8,9) by simp
  moreover have "rt_inv rt'"
    using assms(1-3,7,9) rt_inv_apply_apps [of "(False, rt, t, p)" now addr cache "hb_apps hb"]
    by (simp add: apply_heartbeat_apps hb_table_def)
  ultimately have mem: "?e \<in> set (rt_snapshot rt')" by (simp add: http.snapshot_iff)
  have app: "re_tenant_id ?e = as_tenant_id app" "re_app_name ?e = name" "re_worker_addr ?e = addr"
    "re_port ?e = as_port app" "re_deployment_id ?e = did" by (simp_all add: upsert_entry_def)
  have "?e \<in># mset (group_sorted (rt_snapshot rt') (as_tenant_id app, name))"
    unfolding mset_group_sorted using mem app by simp
  then have grp: "?e \<in> set (group_sorted (rt_snapshot rt') (as_tenant_id app, name))" by simp
  show ?thesis
  proof
    show "\<exists>e \<in> set (group_sorted (rt_snapshot rt') (as_tenant_id app, name)).
       re_worker_addr e = addr \<and> re_port e = as_port app \<and> re_deployment_id e = did"
      by (rule bexI [OF _ grp]) (simp add: app)
  qed (use serving_quota_block [OF assms(10-12) mem, of "c_quota cs"]
      serving_app_route [OF assms(12) mem, of rx cfg "c_traffic cs" "c_rate_limit cs"]
    in \<open>simp add: serving_route_sections app\<close>)
qed

theorem heartbeat_reaches_caddy_witness:
  "\<exists>e \<in> set (group_sorted (rt_snapshot (hb_table (apply_heartbeat 9 lc_new
       (sample_hb ''10.0.0.5'' [(''web:d1'', sample_app sample_tenant [] 8080 ''running'')])
       (rt_new, l4_new, lp_new 31000 31001 60)))) (sample_tenant, ''web'')).
     re_worker_addr e = ''10.0.0.5'' \<and> re_port e = 8080 \<and> re_deployment_id e = Some ''d1''"
proof -
  let ?hb = "sample_hb ''10.0.0.5'' [(''web:d1'', sample_app sample_tenant [] 8080 ''running'')]"
  let ?rt = "hb_table (apply_heartbeat 9 lc_new ?hb (rt_new, l4_new, lp_new 31000 31001 60))"
  have rt: "?rt = rt_upsert 9 sample_tenant ''web'' (Some ''d1'') 100 ''10.0.0.5'' 8080 ''running'' rt_new"
    by (simp add: apply_heartbeat_def apply_app_def apply_http_def split_app_key_def hb_table_def Let_def)
  have snap: "rt_snapshot ?rt = [upsert_entry 9 sample_tenant ''web'' (Some ''d1'') 100 ''10.0.0.5'' 8080 ''running'']"
    unfolding rt by (simp add: rt_upsert_def rt_snapshot_def rt_new_def hm_values_def routable_def
        upsert_entry_def hm_insert_def hm_contains_def Let_def)
  have tenants: "\<forall>e \<in> set (rt_snapshot ?rt). plain_id (re_tenant_id e)"
    "tenants_apart (re_tenant_id ` set (rt_snapshot ?rt))"
    unfolding snap by (simp_all add: sample_tenant_plain tenants_apart_def upsert_entry_def)
  have "\<exists>e \<in> set (group_sorted (rt_snapshot ?rt)
      (as_tenant_id (sample_app sample_tenant [] 8080 ''running''), ''web'')).
     re_worker_addr e = ''10.0.0.5'' \<and> re_port e = as_port (sample_app sample_tenant [] 8080 ''running'') \<and>
     re_deployment_id e = Some ''d1''"
    by (rule heartbeat_reaches_caddy [where hb = ?hb and before = "[]" and later = "[]" and key = "''web:d1''"
          and rt = rt_new and now = 9 and cache = lc_new and t = l4_new and p = "lp_new 31000 31001 60"
          and cs = sample_caches and cfg = render_config and fqdns = "[]",
          OF _ _ _ _ _ _ _ _ refl re2_sample tenants, THEN conjunct2])
      (simp_all add: split_app_key_def routable_def)
  then show ?thesis by simp
qed

section \<open>From the sidecar to the cross-replica route\<close>

text \<open>The fields the ingress decodes from the datagram of the sidecar.\<close>

definition decode_datagram :: "datagram_payload \<Rightarrow> datagram" where
  "decode_datagram p =
     \<lparr>dg_configured = dp_configured p, dg_platform_total = dp_platform_total p,
      dg_replicas_seen = dp_replicas_seen p, dg_local_cap = dp_local_cap p\<rparr>"

text \<open>Claim C39 (the cap of the sidecar is the cap that is rendered, while it is fresh). When the ingress
  has aggregation enabled and a global cap, and the last datagram it received was made from a
  snapshot, the rendered list has the cross-replica route with exactly the cap of that snapshot as
  long as the datagram is at most two ticks old; afterwards, and when the snapshot gives no cap, the
  list has no cross-replica route at all.\<close>

theorem sidecar_cap_rendered:
  assumes "ingress_rate_limit_aggregation cfg" and "global_rate_limit_rps cfg > 0"
    and "c_global cs = recv_step (received, Datagram (Some (decode_datagram (payload_of_snapshot ms snap)))) g"
  shows "cross_replica_cap now cfg cs =
      (if elapsed now received > 2 * global_rps_tick_interval cfg then None else per_replica_cap snap) \<and>
    (\<forall>rps. cross_replica_route rps \<in> set (render_route_list now es fqdns cfg cs) \<longleftrightarrow>
       elapsed now received \<le> 2 * global_rps_tick_interval cfg \<and> per_replica_cap snap = Some rps)"
proof -
  have cap: "cross_replica_cap now cfg cs =
      (if elapsed now received > 2 * global_rps_tick_interval cfg then None else per_replica_cap snap)"
    using assms
    by (simp add: cross_replica_cap_def recv_step_def decode_datagram_def payload_of_snapshot_def
        gc_update_def current_local_cap_def split: option.split)
  have id: "jget ''@id'' (cross_replica_route rps) = Some (JStr ''global-rate-limit-cross-replica'')"
    "jget ''terminal'' (cross_replica_route rps) = Some (JBool False)" for rps
    by (simp_all add: cross_replica_route_def)
  have inj: "cross_replica_route r = cross_replica_route r' \<longleftrightarrow> r = r'" for r r'
    by (simp add: cross_replica_route_def rates_def word_uint_eq_iff)
  have other: "cross_replica_route r \<noteq> tenant_concurrent_route c"
    "cross_replica_route r \<noteq> tenant_bandwidth_route c" "cross_replica_route r \<noteq> tenant_rl_route c"
    "cross_replica_route r \<noteq> quota_402_route t" "cross_replica_route r \<noteq> app_route cfg tc rl es k"
    "cross_replica_route r \<noteq> global_rl_route cfg" "cross_replica_route r \<noteq> per_ip_route cfg" for r c t tc rl es k
    by (auto simp: cross_replica_route_def tenant_concurrent_route_def tenant_bandwidth_route_def
        tenant_rl_route_def quota_402_route_def app_route_def global_rl_route_def per_ip_route_def
        Let_def tenant_match_def host_match_def split: prod.split)
  have fq: "cross_replica_route r \<notin> set (fqdn_routes cfg rl q es fs)" for r rl q es fs
    using fqdn_routes_of_accepts(1) by (fastforce simp: fqdn_routes_def id)
  have "cross_replica_route rps \<in> set (render_route_list now es fqdns cfg cs) \<longleftrightarrow>
      cross_replica_cap now cfg cs = Some rps" for rps
    unfolding route_list_sections
    by (auto simp: other [symmetric] other fq app_routes_def inj split: option.splits)
  with cap show ?thesis by auto
qed

theorem sidecar_cap_rendered_witness:
  "cross_replica_cap (secs 11) (render_config\<lparr>ingress_rate_limit_aggregation := True,
      global_rate_limit_rps := 10000, global_rps_tick_interval := secs 1\<rparr>)
    (sample_caches\<lparr>c_global := recv_step (secs 10, Datagram (Some (decode_datagram (payload_of_snapshot 0
       \<lparr>sn_configured_cap = 10000, sn_platform_total = 30000, sn_this_replica_rps = 10000,
        sn_replicas_seen = 3\<rparr>)))) gc_new\<rparr>) = Some 1"
proof -
  let ?snap = "\<lparr>sn_configured_cap = 10000, sn_platform_total = 30000, sn_this_replica_rps = 10000,
        sn_replicas_seen = 3\<rparr>"
  let ?cfg = "render_config\<lparr>ingress_rate_limit_aggregation := True,
      global_rate_limit_rps := 10000, global_rps_tick_interval := secs 1\<rparr>"
  let ?cs = "sample_caches\<lparr>c_global := recv_step (secs 10,
      Datagram (Some (decode_datagram (payload_of_snapshot 0 ?snap)))) gc_new\<rparr>"
  have "map_option unat (per_replica_cap ?snap) = Some 1"
    by (simp add: per_replica_cap_nat)
  then have "per_replica_cap ?snap = Some 1"
    by (auto simp: word_unat_eq_iff)
  moreover have "cross_replica_cap (secs 11) ?cfg ?cs =
      (if elapsed (secs 11) (secs 10) > 2 * global_rps_tick_interval ?cfg then None else per_replica_cap ?snap)"
    by (rule sidecar_cap_rendered [THEN conjunct1]) simp_all
  ultimately show ?thesis by (simp add: elapsed_def)
qed

end
